(* ===== verification/Gira_Prelude.thy ===== *)
theory Gira_Prelude
  imports Main "HOL-Library.Word" "HOL-Library.Sublist"
begin

text \<open>
  What every part of the gira model shares: the results of Go calls, bytes and strings,
  the few functions of Go's standard library the sources use (\<open>strings.Split\<close>,
  \<open>strings.Join\<close>, \<open>fmt.Sprintf("%d")\<close>, \<open>strconv.Atoi\<close>, \<open>bytes.Buffer.Next\<close>), the
  collections of rules the component proofs share, and two interfaces as locales: a
  dictionary (what a lookup returns after a store or a delete) and a labelled step system
  (an invariant of the initial states kept by every step holds in every reachable state).
\<close>

named_theorems go_simps \<open>evaluation rules of the models of Go library functions\<close>
named_theorems inv_intros \<open>preservation of the component invariants\<close>
named_theorems type_consts \<open>the numeric constants of the packet, message and status types\<close>

section \<open>Results of calls\<close>

text \<open>
  A Go call returns a value, returns a non-nil \<open>error\<close>, or panics. The panic of an
  out-of-range index, a send on a closed channel or a failed type assertion is the third
  constructor, so that a model never hides it.
\<close>

datatype ('e, 'a) outcome = Return 'a | Error 'e | Panic

fun bind_outcome :: "('e, 'a) outcome \<Rightarrow> ('a \<Rightarrow> ('e, 'b) outcome) \<Rightarrow> ('e, 'b) outcome" where
  "bind_outcome (Return x) f = f x"
| "bind_outcome (Error e) f = Error e"
| "bind_outcome Panic f = Panic"

text \<open>\<open>if err != nil { return err }\<close> with the error moved to the caller's error type.\<close>

fun map_error :: "('e \<Rightarrow> 'f) \<Rightarrow> ('e, 'a) outcome \<Rightarrow> ('f, 'a) outcome" where
  "map_error h (Return x) = Return x"
| "map_error h (Error e) = Error (h e)"
| "map_error h Panic = Panic"

lemma bind_outcome_Return_iff:
  "bind_outcome r f = Return y \<longleftrightarrow> (\<exists>x. r = Return x \<and> f x = Return y)"
  by (cases r) auto

lemma bind_outcome_Panic_iff:
  "bind_outcome r f = Panic \<longleftrightarrow> r = Panic \<or> (\<exists>x. r = Return x \<and> f x = Panic)"
  by (cases r) auto

lemma map_error_Return_iff [simp]: "map_error h r = Return y \<longleftrightarrow> r = Return y"
  by (cases r) auto

lemma map_error_Panic_iff [simp]: "map_error h r = Panic \<longleftrightarrow> r = Panic"
  by (cases r) auto

section \<open>Bytes, machine integers and strings\<close>

type_synonym byte = "8 word"
type_synonym bytes = "byte list"
type_synonym u16 = "16 word"
type_synonym u64 = "64 word"

text \<open>
  Go strings are byte sequences; a HOL \<open>string\<close> is a list of 8-bit characters, so
  \<open>[]byte(s)\<close> and \<open>string(b)\<close> are the two maps below.
\<close>

definition bytes_of :: "string \<Rightarrow> bytes" where
  "bytes_of s = map (\<lambda>c. word_of_nat (of_char c)) s"

definition string_of :: "bytes \<Rightarrow> string" where
  "string_of b = map (\<lambda>w. char_of (unat w)) b"

lemma length_bytes_of [simp]: "length (bytes_of s) = length s"
  by (simp add: bytes_of_def)

lemma length_string_of [simp]: "length (string_of b) = length b"
  by (simp add: string_of_def)

lemma bytes_of_Nil [simp]: "bytes_of [] = []"
  by (simp add: bytes_of_def)

lemma string_of_bytes_of [simp]: "string_of (bytes_of s) = s"
proof -
  have "unat (word_of_nat (of_char c) :: byte) = of_char c" for c :: char
    by (simp add: unat_of_nat take_bit_eq_mod)
  then show ?thesis
    by (simp add: string_of_def bytes_of_def comp_def)
qed

lemma bytes_of_string_of [simp]: "bytes_of (string_of b) = b"
proof -
  have "word_of_nat (unat w mod 256) = w" for w :: byte
  proof -
    have "unat w < 256" using unsigned_less [of w] by simp
    then show ?thesis by simp
  qed
  then show ?thesis
    by (simp add: string_of_def bytes_of_def comp_def)
qed

lemma inj_bytes_of: "inj bytes_of"
  by (metis injI string_of_bytes_of)

text \<open>\<open>bytes.Buffer.Next(n)\<close>: at most \<open>n\<close> unread bytes, and what stays in the buffer.\<close>

definition buf_next :: "int \<Rightarrow> bytes \<Rightarrow> bytes \<times> bytes" where
  "buf_next n b = (take (nat n) b, drop (nat n) b)"

lemma buf_next_append [simp]: "fst (buf_next n b) @ snd (buf_next n b) = b"
  by (simp add: buf_next_def)

section \<open>strings.Split and strings.Join on a one-character separator\<close>

fun split_on :: "char \<Rightarrow> string \<Rightarrow> string list" where
  "split_on c [] = [[]]"
| "split_on c (x # xs) =
     (if x = c then [] # split_on c xs
      else (case split_on c xs of [] \<Rightarrow> [[x]] | w # ws \<Rightarrow> (x # w) # ws))"

fun join_with :: "string \<Rightarrow> string list \<Rightarrow> string" where
  "join_with sep [] = []"
| "join_with sep [w] = w"
| "join_with sep (w # v # ws) = w @ sep @ join_with sep (v # ws)"

lemma split_on_not_Nil [simp]: "split_on c s \<noteq> []"
  by (induction s) (auto split: list.splits)

lemma length_split_on_pos [simp]: "0 < length (split_on c s)"
  by simp

lemma split_on_no_sep: "c \<notin> set s \<Longrightarrow> split_on c s = [s]"
  by (induction s) auto

lemma split_on_append_sep:
  "c \<notin> set w \<Longrightarrow> split_on c (w @ c # s) = w # split_on c s"
  by (induction w) auto

lemma split_on_pieces: "w \<in> set (split_on c s) \<Longrightarrow> c \<notin> set w"
proof (induction s arbitrary: w)
  case Nil
  then show ?case by simp
next
  case (Cons x s)
  then show ?case
    by (cases "split_on c s") (auto split: if_splits)
qed

lemma split_on_join:
  assumes "ws \<noteq> []" and "\<forall>w \<in> set ws. c \<notin> set w"
  shows "split_on c (join_with [c] ws) = ws"
  using assms
  by (induction "[c]" ws rule: join_with.induct)
     (auto simp: split_on_no_sep split_on_append_sep)

lemma join_Cons: "ws \<noteq> [] \<Longrightarrow> join_with sep (w # ws) = w @ sep @ join_with sep ws"
  by (cases ws) auto

lemma join_split_on: "join_with [c] (split_on c s) = s"
proof (induction s)
  case Nil
  then show ?case by simp
next
  case (Cons x s)
  obtain w ws where eq: "split_on c s = w # ws"
    by (cases "split_on c s") auto
  from Cons eq show ?case
    by (cases ws) (auto simp: join_Cons)
qed

lemma split_on_inj: "split_on c s = split_on c t \<Longrightarrow> s = t"
  by (metis join_split_on)

section \<open>Decimal integers: fmt.Sprintf("%d") and strconv.Atoi\<close>

definition digit_char :: "nat \<Rightarrow> char" where
  "digit_char d = char_of (48 + d)"

fun nat_digits :: "nat \<Rightarrow> string" where
  "nat_digits n =
     (if n < 10 then [digit_char n] else nat_digits (n div 10) @ [digit_char (n mod 10)])"

declare nat_digits.simps [simp del]

definition fmt_int :: "int \<Rightarrow> string" where
  "fmt_int i = (if i < 0 then CHR ''-'' # nat_digits (nat (- i)) else nat_digits (nat i))"

definition is_digit :: "char \<Rightarrow> bool" where
  "is_digit c \<longleftrightarrow> 48 \<le> (of_char c :: nat) \<and> (of_char c :: nat) \<le> 57"

fun parse_digits :: "nat \<Rightarrow> string \<Rightarrow> nat option" where
  "parse_digits acc [] = Some acc"
| "parse_digits acc (c # cs) =
     (if is_digit c then parse_digits (acc * 10 + (of_char c - 48)) cs else None)"

text \<open>
  \<open>strconv.Atoi\<close>: an optional sign, at least one digit, and a value in the range of the
  64-bit \<open>int\<close> (otherwise \<open>ErrRange\<close>).
\<close>

definition atoi :: "string \<Rightarrow> int option" where
  "atoi s =
     (let (neg, ds) = (case s of
            c # cs \<Rightarrow> if c = CHR ''-'' then (True, cs)
                      else if c = CHR ''+'' then (False, cs) else (False, s)
          | [] \<Rightarrow> (False, []))
      in if ds = [] then None
         else (case parse_digits 0 ds of
                 None \<Rightarrow> None
               | Some n \<Rightarrow>
                   (let v = (if neg then - int n else int n)
                    in if - (2 ^ 63) \<le> v \<and> v < 2 ^ 63 then Some v else None)))"

lemma of_char_digit: "d < 10 \<Longrightarrow> (of_char (digit_char d) :: nat) = 48 + d"
  by (simp add: digit_char_def)

lemma is_digit_digit_char: "d < 10 \<Longrightarrow> is_digit (digit_char d)"
  by (simp add: is_digit_def of_char_digit)

lemma parse_digits_append:
  "parse_digits acc (xs @ ys) =
     (case parse_digits acc xs of None \<Rightarrow> None | Some a \<Rightarrow> parse_digits a ys)"
  by (induction xs arbitrary: acc) auto

lemma parse_nat_digits: "parse_digits 0 (nat_digits n) = Some n"
proof (induction n rule: nat_digits.induct)
  case (1 n)
  then show ?case
    by (subst nat_digits.simps)
       (auto simp: parse_digits_append is_digit_digit_char of_char_digit)
qed

lemma nat_digits_Cons:
  obtains d ds where "nat_digits n = digit_char d # ds" and "d < 10"
proof (induction n arbitrary: thesis rule: nat_digits.induct)
  case (1 n)
  show ?case
  proof (cases "n < 10")
    case True
    then show ?thesis using 1(2) by (subst (asm) nat_digits.simps) auto
  next
    case False
    obtain d ds where "nat_digits (n div 10) = digit_char d # ds" "d < 10"
      using 1(1) [OF False] by blast
    then show ?thesis using False 1(2) [of d "ds @ [digit_char (n mod 10)]"]
      by (simp add: nat_digits.simps [of n])
  qed
qed

lemma digit_char_not_sign: "d < 10 \<Longrightarrow> digit_char d \<noteq> CHR ''-'' \<and> digit_char d \<noteq> CHR ''+''"
proof -
  assume "d < 10"
  then have "(of_char (digit_char d) :: nat) \<ge> 48" by (simp add: of_char_digit)
  then show ?thesis by auto
qed

lemma atoi_fmt_int:
  assumes "- (2 ^ 63) \<le> i" and "i < 2 ^ 63"
  shows "atoi (fmt_int i) = Some i"
proof (cases "i < 0")
  case True
  obtain d ds where *: "nat_digits (nat (- i)) = digit_char d # ds"
    by (rule nat_digits_Cons)
  then have "nat_digits (nat (- i)) \<noteq> []" by simp
  with True assms show ?thesis
    by (simp add: atoi_def fmt_int_def parse_nat_digits)
next
  case False
  obtain d ds where *: "nat_digits (nat i) = digit_char d # ds" and d: "d < 10"
    by (rule nat_digits_Cons)
  have p: "parse_digits 0 (digit_char d # ds) = Some (nat i)"
    by (simp add: parse_nat_digits flip: *)
  from False assms digit_char_not_sign [OF d] p show ?thesis
    by (simp add: atoi_def fmt_int_def * del: parse_digits.simps)
qed

lemma nat_digits_chars: "c \<in> set (nat_digits n) \<Longrightarrow> is_digit c"
proof (induction n rule: nat_digits.induct)
  case (1 n)
  then show ?case
    by (subst (asm) (2) nat_digits.simps) (auto simp: is_digit_digit_char split: if_splits)
qed

lemma fmt_int_chars: "c \<in> set (fmt_int i) \<Longrightarrow> is_digit c \<or> c = CHR ''-''"
  by (auto simp: fmt_int_def dest: nat_digits_chars split: if_splits)

lemma fmt_int_not_Nil [simp]: "fmt_int i \<noteq> []"
proof (cases "i < 0")
  case False
  obtain d ds where "nat_digits (nat i) = digit_char d # ds"
    by (rule nat_digits_Cons)
  with False show ?thesis by (simp add: fmt_int_def)
qed (simp add: fmt_int_def)

section \<open>Interfaces\<close>

text \<open>
  A dictionary: \<open>lookup\<close>, \<open>store\<close> and \<open>remove\<close> with the laws every client of a Go map (or a
  \<open>sync.Map\<close>) relies on.
\<close>

locale dict_ops =
  fixes lookup :: "'d \<Rightarrow> 'k \<Rightarrow> 'v option"
    and store :: "'k \<Rightarrow> 'v \<Rightarrow> 'd \<Rightarrow> 'd"
    and remove :: "'k \<Rightarrow> 'd \<Rightarrow> 'd"
  assumes lookup_store: "lookup (store k v d) = (lookup d)(k \<mapsto> v)"
    and lookup_remove: "lookup (remove k d) = (lookup d)(k := None)"
begin

lemma lookup_store_same: "lookup (store k v d) k = Some v"
  by (simp add: lookup_store)

lemma lookup_store_other: "k' \<noteq> k \<Longrightarrow> lookup (store k v d) k' = lookup d k'"
  by (simp add: lookup_store)

lemma lookup_remove_same: "lookup (remove k d) k = None"
  by (simp add: lookup_remove)

lemma dom_store: "dom (lookup (store k v d)) = insert k (dom (lookup d))"
  by (simp add: lookup_store)

lemma dom_remove: "dom (lookup (remove k d)) = dom (lookup d) - {k}"
  by (simp add: lookup_remove)

lemma store_then_remove:
  "lookup d k = None \<Longrightarrow> lookup (remove k (store k v d)) = lookup d"
  by (auto simp: lookup_store lookup_remove)

end

text \<open>
  A labelled step system given by its initial states and its step function, with an
  invariant the initial states satisfy and every step keeps. \<open>run\<close> follows a list of
  labels.
\<close>

locale step_system =
  fixes init :: "'s \<Rightarrow> bool"
    and step :: "'s \<Rightarrow> 'l \<Rightarrow> 's"
    and inv :: "'s \<Rightarrow> bool"
  assumes init_inv: "init s \<Longrightarrow> inv s"
    and step_inv: "inv s \<Longrightarrow> inv (step s l)"
begin

lemma foldl_inv: "inv s \<Longrightarrow> inv (foldl step s ls)"
  by (induction ls arbitrary: s) (auto intro: step_inv)

lemma run_inv: "init s \<Longrightarrow> inv (foldl step s ls)"
  by (intro foldl_inv init_inv)

end

text \<open>The same for a step relation, for components whose next step is not determined.\<close>

locale step_relation =
  fixes init :: "'s \<Rightarrow> bool"
    and step :: "'s \<Rightarrow> 's \<Rightarrow> bool"
    and inv :: "'s \<Rightarrow> bool"
  assumes init_inv: "init s \<Longrightarrow> inv s"
    and step_inv: "step s t \<Longrightarrow> inv s \<Longrightarrow> inv t"
begin

lemma rtranclp_inv: "step\<^sup>*\<^sup>* s t \<Longrightarrow> inv s \<Longrightarrow> inv t"
  by (induction rule: rtranclp_induct) (auto intro: step_inv)

lemma reachable_inv: "init s \<Longrightarrow> step\<^sup>*\<^sup>* s t \<Longrightarrow> inv t"
  by (blast intro: rtranclp_inv init_inv)

end

end
