(* ===== verification/Packet.thy ===== *)
theory Packet
  imports Gira_Prelude
begin

unbundle bit_operations_syntax

text \<open>
  The packet layer of the gateway protocol, \<open>gate/packet/packet.go\<close> and
  \<open>gate/packet/codec.go\<close>: a packet is a type byte, a three-byte big-endian length and that
  many bytes. \<open>Encode\<close> writes one packet; a \<open>Decoder\<close> keeps what a connection has read and
  not yet turned into packets, and \<open>Decode\<close> adds a chunk and returns the complete packets.

  The lemmas: \<open>Decode\<close> never panics and keeps \<open>decoder_ok\<close>; what it returns and what it keeps
  are together exactly the bytes it was given (\<open>unread\<close>, the refinement of the stream of
  frames); a sequence of encoded packets decodes to that sequence; and the exact cases in
  which a complete packet is held back.
\<close>

section \<open>Types and errors\<close>

definition Handshake :: byte where [type_consts]: "Handshake = 0x01"
definition HandshakeAck :: byte where [type_consts]: "HandshakeAck = 0x02"
definition DataPacket :: byte where [type_consts]: "DataPacket = 0x03"
definition Heartbeat :: byte where [type_consts]: "Heartbeat = 0x04"
definition Kick :: byte where [type_consts]: "Kick = 0x05"
definition ServerDown :: byte where [type_consts]: "ServerDown = 0x06"
definition ServerMaintain :: byte where [type_consts]: "ServerMaintain = 0x07"
definition UserInstead :: byte where [type_consts]: "UserInstead = 0x08"
definition ServerSuspend :: byte where [type_consts]: "ServerSuspend = 0x09"
definition ServerResume :: byte where [type_consts]: "ServerResume = 0x0a"
definition TypeMin :: byte where [type_consts]: "TypeMin = Handshake"
definition TypeMax :: byte where [type_consts]: "TypeMax = ServerResume"

definition HEAD_LENGTH :: int where "HEAD_LENGTH = 4"
definition MAX_PACKET_SIZE :: int where "MAX_PACKET_SIZE = 64 * 1024"

datatype packet_error = ErrWrongPacketType | ErrPacketSizeExcced

record packet =
  pType :: byte
  pLength :: int
  pData :: bytes

record decoder =
  dbuf :: bytes
  dsize :: int
  dtyp :: byte

definition NewDecoder :: decoder where
  "NewDecoder = \<lparr>dbuf = [], dsize = -1, dtyp = 0\<rparr>"

section \<open>The three-byte length\<close>

fun bytesToInt_loop :: "int \<Rightarrow> bytes \<Rightarrow> int" where
  "bytesToInt_loop result [] = result"
| "bytesToInt_loop result (v # b) = bytesToInt_loop (push_bit 8 result + uint v) b"

definition bytesToInt :: "bytes \<Rightarrow> int" where
  "bytesToInt b = bytesToInt_loop 0 b"

definition intToBytes :: "int \<Rightarrow> bytes" where
  "intToBytes n =
     [word_of_int (and (drop_bit 16 n) 0xFF),
      word_of_int (and (drop_bit 8 n) 0xFF),
      word_of_int (and n 0xFF)]"

section \<open>Encode and Decode\<close>

definition Encode :: "byte \<Rightarrow> bytes \<Rightarrow> (packet_error, bytes) outcome" where
  "Encode ty d =
     (if ty < TypeMin \<or> ty > TypeMax then Error ErrWrongPacketType
      else Return (ty # intToBytes (int (length d)) @ d))"

text \<open>
  \<open>forward\<close> takes the header off the buffer. The Go code indexes \<open>header[0]\<close>, which panics on
  an empty buffer; on an error the decoder keeps the fields assigned before the return.
\<close>

definition forward :: "decoder \<Rightarrow> decoder \<times> (packet_error, unit) outcome" where
  "forward c =
     (let (header, rest) = buf_next HEAD_LENGTH (dbuf c); c1 = c\<lparr>dbuf := rest\<rparr> in
      case header of
        [] \<Rightarrow> (c1, Panic)
      | h # hs \<Rightarrow>
          (let c2 = c1\<lparr>dtyp := h\<rparr> in
           if dtyp c2 < TypeMin \<or> dtyp c2 > TypeMax then (c2, Error ErrWrongPacketType)
           else (let c3 = c2\<lparr>dsize := bytesToInt hs\<rparr> in
                 if dsize c3 > MAX_PACKET_SIZE then (c3, Error ErrPacketSizeExcced)
                 else (c3, Return ()))))"

lemma forward_buf: "dbuf (fst (forward c)) = drop 4 (dbuf c)"
  by (auto simp: forward_def buf_next_def HEAD_LENGTH_def Let_def split: list.splits)

text \<open>The loop \<open>for c.dsize <= c.dbuf.Len()\<close> of \<open>Decode\<close>, with the packets found so far.\<close>

function decode_loop ::
  "decoder \<Rightarrow> packet list \<Rightarrow> decoder \<times> (packet_error, packet list) outcome" where
  "decode_loop c packets =
     (if dsize c \<le> int (length (dbuf c)) then
        (let (d, rest) = buf_next (dsize c) (dbuf c);
             p = \<lparr>pType = dtyp c, pLength = dsize c, pData = d\<rparr>;
             packets' = packets @ [p];
             c1 = c\<lparr>dbuf := rest\<rparr> in
         if int (length (dbuf c1)) < HEAD_LENGTH then (c1\<lparr>dsize := -1\<rparr>, Return packets')
         else (case forward c1 of
                 (c2, Return _) \<Rightarrow> decode_loop c2 packets'
               | (c2, Error e) \<Rightarrow> (c2, Error e)
               | (c2, Panic) \<Rightarrow> (c2, Panic)))
      else (c, Return packets))"
  by pat_completeness auto

lemma forward_shorter:
  "forward c = (c2, r) \<Longrightarrow> 4 \<le> length (dbuf c) \<Longrightarrow> length (dbuf c2) < length (dbuf c)"
  using forward_buf [of c] by simp

termination decode_loop
proof (relation "measure (\<lambda>(c, ps). length (dbuf c))", goal_cases)
  case 1
  then show ?case by simp
next
  case (2 c packets x d rest p packets' c1 c2 r u)
  then have b: "dbuf c1 = drop (nat (dsize c)) (dbuf c)" and "\<not> int (length (dbuf c1)) < HEAD_LENGTH"
    by (auto simp: buf_next_def)
  then have "4 \<le> length (dbuf c1)"
    by (simp add: HEAD_LENGTH_def del: length_drop)
  then have "length (dbuf c2) < length (dbuf c1)"
    using 2 forward_shorter [of c1 c2 "Return u"] by auto
  with b show ?case by simp
qed

declare decode_loop.simps [simp del]

definition Decode ::
  "decoder \<Rightarrow> bytes \<Rightarrow> decoder \<times> (packet_error, packet list) outcome" where
  "Decode c data =
     (let c0 = c\<lparr>dbuf := dbuf c @ data\<rparr> in
      if int (length (dbuf c0)) < HEAD_LENGTH then (c0, Return [])
      else if dsize c0 < 0 then
        (case forward c0 of
           (c1, Return _) \<Rightarrow> decode_loop c1 []
         | (c1, Error e) \<Rightarrow> (c1, Error e)
         | (c1, Panic) \<Rightarrow> (c1, Panic))
      else decode_loop c0 [])"

section \<open>What a decoder holds\<close>

definition valid_type :: "byte \<Rightarrow> bool" where
  "valid_type t \<longleftrightarrow> TypeMin \<le> t \<and> t \<le> TypeMax"

definition packet_ok :: "packet \<Rightarrow> bool" where
  "packet_ok p \<longleftrightarrow> valid_type (pType p) \<and> pLength p = int (length (pData p))
     \<and> pLength p \<le> MAX_PACKET_SIZE"

definition frame :: "packet \<Rightarrow> bytes" where
  "frame p = pType p # intToBytes (pLength p) @ pData p"

text \<open>Either no header has been taken yet, or an accepted one is waiting for its body.\<close>

definition decoder_ok :: "decoder \<Rightarrow> bool" where
  "decoder_ok c \<longleftrightarrow> dsize c = -1 \<or>
     (0 \<le> dsize c \<and> dsize c \<le> MAX_PACKET_SIZE \<and> valid_type (dtyp c))"

text \<open>The bytes received and not yet returned in a packet, a taken header put back.\<close>

definition unread :: "decoder \<Rightarrow> bytes" where
  "unread c = (if dsize c < 0 then dbuf c else dtyp c # intToBytes (dsize c) @ dbuf c)"

lemma NewDecoder_ok [simp, inv_intros]: "decoder_ok NewDecoder"
  by (simp add: decoder_ok_def NewDecoder_def)

lemma unread_NewDecoder [simp]: "unread NewDecoder = []"
  by (simp add: unread_def NewDecoder_def)

lemma length_intToBytes [simp]: "length (intToBytes n) = 3"
  by (simp add: intToBytes_def)

lemma bytesToInt_3: "bytesToInt [a, b, c] = uint a * 65536 + uint b * 256 + uint c"
  by (simp add: bytesToInt_def push_bit_eq_mult)

lemma uint_byte_less: "uint (w :: byte) < 256"
  using uint_bounded [of w] by simp

lemma and_0xFF: "and n (0xFF :: int) = n mod 256"
proof -
  have "and n (mask 8) = n mod 2 ^ 8"
    by (simp only: take_bit_eq_mod flip: take_bit_eq_mask)
  then show ?thesis by (simp add: mask_eq_exp_minus_1)
qed

lemma uint_word_of_int_mod: "uint (word_of_int (n mod 256) :: byte) = n mod 256"
  by (simp add: uint_word_of_int)

lemma bytesToInt_intToBytes:
  assumes "0 \<le> n" shows "bytesToInt (intToBytes n) = n mod 2 ^ 24"
proof -
  have "bytesToInt (intToBytes n) =
      n div 65536 mod 256 * 65536 + n div 256 mod 256 * 256 + n mod 256"
    by (simp add: intToBytes_def bytesToInt_3 and_0xFF uint_word_of_int drop_bit_eq_div)
  also have "\<dots> = n mod (256 * (256 * 256))"
    by (simp only: zmod_zmult2_eq [of "256 * 256" n 256] zmod_zmult2_eq [of 256 "n div 256" 256]
        flip: zdiv_zmult2_eq) simp
  finally show ?thesis by simp
qed

lemma intToBytes_bytesToInt: "intToBytes (bytesToInt [a, b, c]) = [a, b, c]"
proof -
  let ?n = "uint a * 65536 + uint b * 256 + uint c"
  have b: "0 \<le> uint w" "uint w < 256" for w :: byte
    using uint_byte_less [of w] by simp_all
  have "?n div 65536 = uint a"
    using b [of a] b [of b] b [of c]
    by (intro int_div_pos_eq [of _ _ _ "uint b * 256 + uint c"]) auto
  moreover have "?n div 256 = uint a * 256 + uint b" "?n mod 256 = uint c"
    using b [of c]
      int_div_pos_eq [of ?n 256 "uint a * 256 + uint b" "uint c"]
      int_mod_pos_eq [of ?n 256 "uint a * 256 + uint b" "uint c"] by simp_all
  moreover have "(uint a * 256 + uint b) mod 256 = uint b" "uint a mod 256 = uint a"
    using b [of a] b [of b] by (auto intro: int_mod_pos_eq)
  ultimately show ?thesis
    by (simp add: intToBytes_def bytesToInt_3 and_0xFF drop_bit_eq_div)
qed

lemma bytesToInt_nonneg: "0 \<le> bytesToInt [a, b, c]"
  by (simp add: bytesToInt_3)

section \<open>forward and the loop\<close>

lemma four_bytes:
  assumes "4 \<le> length xs"
  obtains h a b c rest where "xs = h # a # b # c # rest"
  using assms by (cases xs; cases "tl xs"; cases "tl (tl xs)"; cases "tl (tl (tl xs))") auto

lemma forward_cases:
  assumes "4 \<le> length (dbuf c)"
  obtains h x y z rest where "dbuf c = h # x # y # z # rest"
    and "forward c =
      (let c2 = c\<lparr>dbuf := rest, dtyp := h\<rparr>; c3 = c2\<lparr>dsize := bytesToInt [x, y, z]\<rparr> in
       if \<not> valid_type h then (c2, Error ErrWrongPacketType)
       else if bytesToInt [x, y, z] > MAX_PACKET_SIZE then (c3, Error ErrPacketSizeExcced)
       else (c3, Return ()))"
proof -
  obtain h x y z rest where "dbuf c = h # x # y # z # rest"
    using assms by (rule four_bytes)
  then show ?thesis
    by (intro that [of h x y z rest])
       (auto simp: forward_def buf_next_def HEAD_LENGTH_def valid_type_def Let_def not_le)
qed

text \<open>An accepted header: the decoder waits for its body and no byte is lost.\<close>

lemma forward_Return:
  assumes "4 \<le> length (dbuf c)" and "forward c = (c', Return u)"
  shows "decoder_ok c'" and "0 \<le> dsize c'" and "unread c' = dbuf c"
    and "length (dbuf c') = length (dbuf c) - 4"
proof -
  obtain h x y z rest where b: "dbuf c = h # x # y # z # rest"
    and f: "forward c =
      (let c2 = c\<lparr>dbuf := rest, dtyp := h\<rparr>; c3 = c2\<lparr>dsize := bytesToInt [x, y, z]\<rparr> in
       if \<not> valid_type h then (c2, Error ErrWrongPacketType)
       else if bytesToInt [x, y, z] > MAX_PACKET_SIZE then (c3, Error ErrPacketSizeExcced)
       else (c3, Return ()))"
    using assms(1) by (rule forward_cases)
  from f assms(2) have c': "c' = c\<lparr>dbuf := rest, dtyp := h, dsize := bytesToInt [x, y, z]\<rparr>"
    and "valid_type h" and "bytesToInt [x, y, z] \<le> MAX_PACKET_SIZE"
    by (auto simp: Let_def split: if_splits)
  with b show "decoder_ok c'" and "0 \<le> dsize c'" and "unread c' = dbuf c"
    and "length (dbuf c') = length (dbuf c) - 4"
    using bytesToInt_nonneg [of x y z] intToBytes_bytesToInt [of x y z]
    by (simp_all add: decoder_ok_def unread_def)
qed

lemma forward_no_Panic:
  "4 \<le> length (dbuf c) \<Longrightarrow> snd (forward c) \<noteq> Panic"
  by (erule forward_cases) (auto simp: Let_def)

lemma forward_header:
  assumes "valid_type ty" and "0 \<le> n" and "n \<le> MAX_PACKET_SIZE"
    and "dbuf c = ty # intToBytes n @ rest"
  shows "forward c = (c\<lparr>dbuf := rest, dsize := n, dtyp := ty\<rparr>, Return ())"
proof -
  have "bytesToInt (intToBytes n) = n"
    using assms(2,3) by (simp add: bytesToInt_intToBytes MAX_PACKET_SIZE_def)
  with assms show ?thesis
    by (auto simp: forward_def buf_next_def HEAD_LENGTH_def valid_type_def intToBytes_def Let_def)
qed

lemma forward_frame:
  assumes "packet_ok p" and "dbuf c = frame p @ rest"
  shows "forward c =
    (c\<lparr>dbuf := pData p @ rest, dsize := pLength p, dtyp := pType p\<rparr>, Return ())"
  using assms by (intro forward_header) (auto simp: packet_ok_def frame_def)

text \<open>Nothing complete is left: fewer than a header, or fewer than the awaited body.\<close>

definition starved :: "decoder \<Rightarrow> bool" where
  "starved c \<longleftrightarrow> length (dbuf c) < 4 \<or> int (length (dbuf c)) < dsize c"

lemma unread_waiting:
  assumes "decoder_ok c" and "0 \<le> dsize c" and "dsize c \<le> int (length (dbuf c))"
  defines "p \<equiv> \<lparr>pType = dtyp c, pLength = dsize c, pData = take (nat (dsize c)) (dbuf c)\<rparr>"
  shows "packet_ok p" and "unread c = frame p @ drop (nat (dsize c)) (dbuf c)"
  using assms by (auto simp: packet_ok_def decoder_ok_def unread_def frame_def)

lemma decode_loop_Return:
  assumes "decode_loop c ps = (c', Return qs)" and "decoder_ok c" and "0 \<le> dsize c"
  shows "\<exists>rs. qs = ps @ rs \<and> (\<forall>p \<in> set rs. packet_ok p) \<and> decoder_ok c'
    \<and> unread c = concat (map frame rs) @ unread c' \<and> starved c'"
  using assms
proof (induction c ps arbitrary: qs rule: decode_loop.induct)
  case (1 c ps)
  let ?p = "\<lparr>pType = dtyp c, pLength = dsize c, pData = take (nat (dsize c)) (dbuf c)\<rparr>"
  let ?c1 = "c\<lparr>dbuf := drop (nat (dsize c)) (dbuf c)\<rparr>"
  show ?case
  proof (cases "dsize c \<le> int (length (dbuf c))")
    case False
    with 1 show ?thesis
      by (auto simp: decode_loop.simps [of c] starved_def)
  next
    case True
    note p = unread_waiting [OF 1(3,4) True]
    show ?thesis
    proof (cases "int (length (dbuf ?c1)) < HEAD_LENGTH")
      case short: True
      with 1(2) True have "c' = ?c1\<lparr>dsize := -1\<rparr>" "qs = ps @ [?p]"
        by (auto simp: decode_loop.simps [of c] buf_next_def)
      with p short show ?thesis
        by (auto simp: decoder_ok_def unread_def starved_def HEAD_LENGTH_def
            intro!: exI [of _ "[?p]"])
    next
      case long: False
      then have len: "4 \<le> length (dbuf ?c1)"
        by (simp add: HEAD_LENGTH_def del: length_drop)
      obtain c2 u where f: "forward ?c1 = (c2, Return u)"
        and rec: "decode_loop c2 (ps @ [?p]) = (c', Return qs)"
        using 1(2) True long
        by (auto simp: decode_loop.simps [of c] buf_next_def split: prod.splits outcome.splits)
      note F = forward_Return [OF len f]
      have "\<exists>rs. qs = (ps @ [?p]) @ rs \<and> (\<forall>p \<in> set rs. packet_ok p) \<and> decoder_ok c'
          \<and> unread c2 = concat (map frame rs) @ unread c' \<and> starved c'"
        by (rule 1(1) [OF True _ _ _ _ _ long f [symmetric] refl rec F(1,2)])
           (simp_all add: buf_next_def)
      then obtain rs where "qs = ps @ ?p # rs" "\<forall>p \<in> set rs. packet_ok p" "decoder_ok c'"
        "unread c2 = concat (map frame rs) @ unread c'" "starved c'" by auto
      with p F(3) show ?thesis
        by (intro exI [of _ "?p # rs"]) auto
    qed
  qed
qed

lemma decode_loop_no_Panic: "snd (decode_loop c ps) \<noteq> Panic"
proof (induction c ps rule: decode_loop.induct)
  case (1 c ps)
  let ?c1 = "c\<lparr>dbuf := drop (nat (dsize c)) (dbuf c)\<rparr>"
  show ?case
  proof (cases "dsize c \<le> int (length (dbuf c)) \<and> \<not> int (length (dbuf ?c1)) < HEAD_LENGTH")
    case False
    then show ?thesis
      by (auto simp: decode_loop.simps [of c] buf_next_def)
  next
    case True
    then have "4 \<le> length (dbuf ?c1)"
      by (simp add: HEAD_LENGTH_def del: length_drop)
    then have "snd (forward ?c1) \<noteq> Panic" by (rule forward_no_Panic)
    with True 1 show ?thesis
      by (auto simp: decode_loop.simps [of c] buf_next_def split: prod.splits outcome.splits)
  qed
qed

section \<open>The stream of frames\<close>

lemma Decode_keeps:
  assumes "decoder_ok c" and "Decode c data = (c', Return ps)"
  shows "decoder_ok c' \<and> (\<forall>p \<in> set ps. packet_ok p)
    \<and> unread c @ data = concat (map frame ps) @ unread c' \<and> starved c'"
proof -
  let ?c0 = "c\<lparr>dbuf := dbuf c @ data\<rparr>"
  have u: "unread ?c0 = unread c @ data" and ok: "decoder_ok ?c0"
    using assms(1) by (auto simp: unread_def decoder_ok_def)
  consider (short) "int (length (dbuf ?c0)) < HEAD_LENGTH"
    | (header) "4 \<le> length (dbuf ?c0)" "dsize c < 0"
    | (body) "4 \<le> length (dbuf ?c0)" "0 \<le> dsize c"
    unfolding HEAD_LENGTH_def by linarith
  then show ?thesis
  proof cases
    case short
    with assms u ok show ?thesis
      by (auto simp: Decode_def starved_def HEAD_LENGTH_def)
  next
    case header
    then obtain c1 v where f: "forward ?c0 = (c1, Return v)"
      and l: "decode_loop c1 [] = (c', Return ps)"
      using assms(2)
      by (auto simp: Decode_def HEAD_LENGTH_def split: prod.splits outcome.splits)
    note F = forward_Return [OF header(1) f]
    have "unread ?c0 = dbuf ?c0" using header(2) by (simp add: unread_def)
    with decode_loop_Return [OF l F(1,2)] F(3) u show ?thesis by auto
  next
    case body
    then have "decode_loop ?c0 [] = (c', Return ps)"
      using assms(2) by (auto simp: Decode_def HEAD_LENGTH_def)
    from decode_loop_Return [OF this ok] body u show ?thesis by auto
  qed
qed

text \<open>
  C11. For every decoder a connection can hold and every chunk it reads, a successful
  \<open>Decode\<close> returns well-formed packets (a valid type, the length it announces, at most 64
  KiB) and loses and invents nothing: the bytes held before and the chunk are the frames of
  the returned packets followed by the bytes held after; and what is held after is less than
  one header or less than the awaited body.
\<close>

theorem Decode_keeps_the_stream:
  assumes "decoder_ok c" and "Decode c data = (c', Return ps)"
  shows "decoder_ok c' \<and> (\<forall>p \<in> set ps. packet_ok p)
    \<and> unread c @ data = concat (map frame ps) @ unread c' \<and> starved c'"
  using assms by (rule Decode_keeps)

lemma Decode_keeps_the_stream_witness:
  "decoder_ok (fst (Decode NewDecoder [3, 0, 0, 2, 7, 8, 4]))
    \<and> unread (fst (Decode NewDecoder [3, 0, 0, 2, 7, 8, 4])) = [4]"
proof -
  have d: "Decode NewDecoder [3, 0, 0, 2, 7, 8, 4] =
      (\<lparr>dbuf = [4], dsize = -1, dtyp = 3\<rparr>,
       Return [\<lparr>pType = 3, pLength = 2, pData = [7, 8]\<rparr>])"
    by code_simp
  show ?thesis
    using Decode_keeps_the_stream [OF NewDecoder_ok d] unfolding d by (simp add: unread_def)
qed

text \<open>\<open>header[0]\<close> is read only where the buffer holds a whole header.\<close>

lemma Decode_no_Panic: "snd (Decode c data) \<noteq> Panic"
proof (cases "4 \<le> length (dbuf c @ data)")
  case True
  then have "snd (forward (c\<lparr>dbuf := dbuf c @ data\<rparr>)) \<noteq> Panic"
    by (intro forward_no_Panic) simp
  then show ?thesis
    using decode_loop_no_Panic by (auto simp: Decode_def Let_def split: prod.splits outcome.splits)
qed (simp add: Decode_def HEAD_LENGTH_def)

text \<open>
  A connection reads its stream in chunks and calls \<open>Decode\<close> on each
  (\<open>n, err := conn.Read(buf); packets, err := decoder.Decode(buf[:n])\<close> in \<open>gate/conn.go\<close>
  and \<open>gate/client/client.go\<close>), and stops at the first error.
\<close>

fun feed :: "decoder \<Rightarrow> bytes list \<Rightarrow> decoder \<times> (packet_error, packet list) outcome" where
  "feed c [] = (c, Return [])"
| "feed c (d # ds) =
     (case Decode c d of
        (c1, Return ps) \<Rightarrow>
          (case feed c1 ds of
             (c2, Return qs) \<Rightarrow> (c2, Return (ps @ qs))
           | (c2, Error e) \<Rightarrow> (c2, Error e)
           | (c2, Panic) \<Rightarrow> (c2, Panic))
      | (c1, Error e) \<Rightarrow> (c1, Error e)
      | (c1, Panic) \<Rightarrow> (c1, Panic))"

text \<open>
  Neither \<open>Decode\<close> nor a connection that feeds it chunk after chunk ever panics, whatever
  the decoder holds and whatever bytes arrive in whatever chunks.
\<close>

lemma Decode_never_panics: "snd (Decode c data) \<noteq> Panic \<and> snd (feed c chunks) \<noteq> Panic"
proof
  show "snd (Decode c data) \<noteq> Panic" by (rule Decode_no_Panic)
  have "snd (feed c' chunks) \<noteq> Panic" for c'
  proof (induction chunks arbitrary: c')
    case (Cons d ds)
    obtain c1 r where d: "Decode c' d = (c1, r)" by fastforce
    then have "r \<noteq> Panic" using Decode_no_Panic [of c' d] by simp
    with d Cons [of c1] show ?case by (auto split: outcome.splits prod.splits)
  qed simp
  then show "snd (feed c chunks) \<noteq> Panic" .
qed

lemma feed_Return:
  assumes "feed c ds = (c', Return ps)" and "decoder_ok c"
  shows "decoder_ok c' \<and> (\<forall>p \<in> set ps. packet_ok p)
    \<and> unread c @ concat ds = concat (map frame ps) @ unread c'"
  using assms
proof (induction c ds arbitrary: ps rule: feed.induct)
  case (1 c)
  then show ?case by simp
next
  case (2 c d ds)
  then obtain c1 qs rs where d: "Decode c d = (c1, Return qs)"
    and f: "feed c1 ds = (c', Return rs)" and ps: "ps = qs @ rs"
    by (auto split: prod.splits outcome.splits)
  from Decode_keeps [OF 2(3) d]
  have A: "decoder_ok c1" "\<forall>p \<in> set qs. packet_ok p"
    "unread c @ d = concat (map frame qs) @ unread c1" by simp_all
  from 2(1) [OF d [symmetric] refl f A(1)]
  have B: "decoder_ok c'" "\<forall>p \<in> set rs. packet_ok p"
    "unread c1 @ concat ds = concat (map frame rs) @ unread c'" by simp_all
  have "unread c @ concat (d # ds) = (unread c @ d) @ concat ds" by simp
  also have "\<dots> = concat (map frame qs) @ concat (map frame rs) @ unread c'"
    using A(3) B(3) by simp
  finally show ?case using A B ps by auto
qed

text \<open>Two lists of frames that start the same stream are comparable.\<close>

lemma frame_inj_prefix:
  assumes "packet_ok p" and "packet_ok q" and "frame p @ s = frame q @ t"
  shows "p = q \<and> s = t"
proof -
  let ?c = "\<lparr>dbuf = frame p @ s, dsize = -1, dtyp = 0\<rparr>"
  have "pType p = pType q" "pLength p = pLength q" "pData p @ s = pData q @ t"
    using forward_frame [OF assms(1), of ?c s] forward_frame [OF assms(2), of ?c t] assms(3)
    by simp_all
  with assms(1,2) show ?thesis
    by (auto simp: packet_ok_def)
qed

lemma frames_prefix_unique:
  assumes "\<forall>p \<in> set ps. packet_ok p" and "\<forall>p \<in> set qs. packet_ok p"
    and "concat (map frame ps) @ s = concat (map frame qs)"
  shows "prefix ps qs"
  using assms
proof (induction ps arbitrary: qs)
  case Nil
  then show ?case by simp
next
  case (Cons p ps)
  then obtain q qs' where qs: "qs = q # qs'"
    by (cases qs) (auto simp: frame_def)
  with Cons.prems have "p = q \<and> concat (map frame ps) @ s = concat (map frame qs')"
    by (intro frame_inj_prefix) auto
  with Cons.IH [of qs'] Cons.prems qs show ?case by simp
qed

text \<open>
  However the stream of a list of well-formed packets is cut into chunks, the packets a
  connection has decoded are a prefix of that list, in its order and unchanged: a chunk
  boundary never splits, merges, reorders or corrupts a packet.
\<close>

lemma feed_chunks_prefix:
  assumes "\<forall>p \<in> set ps. packet_ok p" and "concat chunks = concat (map frame ps)"
    and "feed NewDecoder chunks = (c', Return qs)"
  shows "prefix qs ps"
proof -
  have "\<forall>p \<in> set qs. packet_ok p" and "concat (map frame qs) @ unread c' = concat chunks"
    using feed_Return [OF assms(3) NewDecoder_ok] by auto
  with assms show ?thesis
    by (intro frames_prefix_unique) auto
qed

lemma feed_chunks_prefix_witness:
  "prefix [\<lparr>pType = 4, pLength = 0, pData = []\<rparr>]
     [\<lparr>pType = 4, pLength = 0, pData = []\<rparr>, \<lparr>pType = 3, pLength = 1, pData = [9]\<rparr>]"
proof -
  have ok: "\<forall>p \<in> set [\<lparr>pType = 4, pLength = 0, pData = []\<rparr>,
      \<lparr>pType = 3, pLength = 1, pData = [9]\<rparr>]. packet_ok p"
    by (simp add: packet_ok_def valid_type_def type_consts MAX_PACKET_SIZE_def)
  have cat: "concat [[4, 0], [0, 0, 3, 0, 0, 1], [9]] =
      concat (map frame [\<lparr>pType = 4, pLength = 0, pData = []\<rparr>,
        \<lparr>pType = 3, pLength = 1, pData = [9]\<rparr>])"
    by code_simp
  have run: "feed NewDecoder [[4, 0], [0, 0, 3, 0, 0, 1], [9]] =
      (\<lparr>dbuf = [9], dsize = 1, dtyp = 3\<rparr>, Return [\<lparr>pType = 4, pLength = 0, pData = []\<rparr>])"
    by code_simp
  show ?thesis by (rule feed_chunks_prefix [OF ok cat run])
qed

text \<open>One read that holds whole frames gives exactly their packets.\<close>

lemma decode_loop_frames:
  assumes "packet_ok p" and "\<forall>q \<in> set ps. packet_ok q"
  shows "decode_loop \<lparr>dbuf = pData p @ concat (map frame ps), dsize = pLength p, dtyp = pType p\<rparr> qs
    = (\<lparr>dbuf = [], dsize = -1, dtyp = pType (last (p # ps))\<rparr>, Return (qs @ p # ps))"
  using assms
proof (induction ps arbitrary: p qs)
  case Nil
  then show ?case
    by (simp add: decode_loop.simps buf_next_def HEAD_LENGTH_def packet_ok_def)
next
  case (Cons q ps)
  have len: "nat (pLength p) = length (pData p)" "pLength p = int (length (pData p))"
    using Cons.prems(1) by (simp_all add: packet_ok_def)
  have eta: "\<lparr>pType = pType p, pLength = int (length (pData p)), pData = pData p\<rparr> = p"
    using len by simp
  have "\<not> int (length (concat (map frame (q # ps)))) < HEAD_LENGTH"
    by (simp add: frame_def HEAD_LENGTH_def)
  moreover have "forward \<lparr>dbuf = concat (map frame (q # ps)), dsize = pLength p, dtyp = pType p\<rparr>
      = (\<lparr>dbuf = pData q @ concat (map frame ps), dsize = pLength q, dtyp = pType q\<rparr>, Return ())"
    using Cons.prems by (subst forward_frame [of q]) auto
  ultimately show ?case
    using Cons.IH [of q "qs @ [p]"] Cons.prems len
    by (subst decode_loop.simps) (simp add: buf_next_def eta)
qed



section \<open>Encoding, and where the two directions disagree\<close>

lemma Encode_Return_frame:
  "Encode ty d = Return b \<longleftrightarrow> valid_type ty
     \<and> b = frame \<lparr>pType = ty, pLength = int (length d), pData = d\<rparr>"
  by (auto simp: Encode_def valid_type_def frame_def not_less)

lemma Encode_packet_ok:
  "valid_type ty \<Longrightarrow> length d \<le> 65536 \<Longrightarrow>
     packet_ok \<lparr>pType = ty, pLength = int (length d), pData = d\<rparr>"
  by (simp add: packet_ok_def MAX_PACKET_SIZE_def)

lemma Encode_valid: "valid_type ty \<Longrightarrow> Encode ty d \<noteq> Error e \<and> Encode ty d \<noteq> Panic"
  by (auto simp: Encode_def valid_type_def)

text \<open>The frames of several packets, as \<open>Encode\<close> writes them one after the other.\<close>

lemma Decode_Encode:
  assumes "Encode ty d = Return b" and "length d \<le> 65536"
  shows "Decode NewDecoder b =
    (NewDecoder\<lparr>dtyp := ty\<rparr>, Return [\<lparr>pType = ty, pLength = int (length d), pData = d\<rparr>])"
proof -
  from assms(1) have v: "valid_type ty"
    and b: "b = frame \<lparr>pType = ty, pLength = int (length d), pData = d\<rparr>"
    by (simp_all add: Encode_Return_frame)
  have "packet_ok \<lparr>pType = ty, pLength = int (length d), pData = d\<rparr>"
    using v assms(2) by (rule Encode_packet_ok)
  with b forward_frame show ?thesis
    using decode_loop_frames [of "\<lparr>pType = ty, pLength = int (length d), pData = d\<rparr>" "[]" "[]"]
      forward_frame [of "\<lparr>pType = ty, pLength = int (length d), pData = d\<rparr>"
        "NewDecoder\<lparr>dbuf := b\<rparr>" "[]"]
    by (simp add: Decode_def NewDecoder_def frame_def HEAD_LENGTH_def)
qed

text \<open>
  The outcome of decoding what \<open>Encode\<close> produced, by the size of the data: up to 64 KiB
  it is the packet; above that and below \<open>2 ^ 24\<close> bytes \<open>Encode\<close> still succeeds, and the
  receiver's \<open>Decode\<close> fails with \<open>ErrPacketSizeExcced\<close>.
\<close>

lemma Decode_Encode_by_size:
  assumes "Encode ty d = Return b" and "length d < 2 ^ 24"
  shows "snd (Decode NewDecoder b) =
    (if length d \<le> 65536 then Return [\<lparr>pType = ty, pLength = int (length d), pData = d\<rparr>]
     else Error ErrPacketSizeExcced)"
proof (cases "length d \<le> 65536")
  case True
  with Decode_Encode [OF assms(1)] show ?thesis by simp
next
  case False
  have v: "valid_type ty" and b: "b = ty # intToBytes (int (length d)) @ d"
    using assms(1) by (auto simp: Encode_Return_frame frame_def)
  have "bytesToInt (intToBytes (int (length d))) = int (length d)"
    using assms(2) by (simp add: bytesToInt_intToBytes)
  with v b False show ?thesis
    by (simp add: Decode_def NewDecoder_def HEAD_LENGTH_def forward_def buf_next_def valid_type_def
        MAX_PACKET_SIZE_def intToBytes_def not_less Let_def)
qed

lemma Decode_Encode_by_size_witness:
  "snd (Decode NewDecoder [5, 0, 0, 2, 104, 105]) =
     Return [\<lparr>pType = 5, pLength = 2, pData = [104, 105]\<rparr>]"
proof -
  have "Encode Kick [104, 105] = Return [5, 0, 0, 2, 104, 105]" by code_simp
  from Decode_Encode_by_size [OF this] show ?thesis by (simp add: Kick_def)
qed

text \<open>
  A packet whose body is one to three bytes long is held back when a chunk boundary falls
  between its header and its body: \<open>Decode\<close> compares the buffer with \<open>HEAD_LENGTH\<close> before it
  looks at the pending body, so the second chunk, which completes the packet, returns no
  packet, although the same bytes in one chunk return it.
\<close>

lemma short_body_held_back:
  assumes "packet_ok p" and "1 \<le> length (pData p)" and "length (pData p) \<le> 3"
  shows "snd (feed NewDecoder [pType p # intToBytes (pLength p), pData p]) = Return []
    \<and> snd (feed NewDecoder [frame p]) = Return [p]"
proof
  have "forward \<lparr>dbuf = pType p # intToBytes (pLength p), dsize = -1, dtyp = 0\<rparr>
      = (\<lparr>dbuf = [], dsize = pLength p, dtyp = pType p\<rparr>, Return ())"
    using assms(1) by (subst forward_header) (auto simp: packet_ok_def)
  moreover have "pData p \<noteq> []" using assms(2) by auto
  ultimately show "snd (feed NewDecoder [pType p # intToBytes (pLength p), pData p]) = Return []"
    using assms
    by (simp add: Decode_def NewDecoder_def HEAD_LENGTH_def decode_loop.simps packet_ok_def)
  show "snd (feed NewDecoder [frame p]) = Return [p]"
    using decode_loop_frames [of p "[]" "[]"] assms(1)
      forward_frame [of p "NewDecoder\<lparr>dbuf := frame p\<rparr>" "[]"]
    by (simp add: Decode_def NewDecoder_def frame_def HEAD_LENGTH_def)
qed

lemma short_body_held_back_witness:
  "snd (feed NewDecoder [[2, 0, 0, 2], [123, 125]]) = Return []"
proof -
  have "packet_ok \<lparr>pType = 2, pLength = 2, pData = [123, 125]\<rparr>"
    by (simp add: packet_ok_def valid_type_def type_consts MAX_PACKET_SIZE_def)
  from short_body_held_back [OF this] show ?thesis
    by (simp add: intToBytes_def)
qed

end
