(* ===== verification/Message.thy ===== *)
theory Message
  imports Gira_Prelude
begin

unbundle bit_operations_syntax

text \<open>
  The message layer of the gateway protocol, \<open>gate/message/message.go\<close>: a message is a flag
  byte (type and a route-compression bit), a variable-length id for requests and responses, a
  route for requests, notifies and pushes (its length and bytes, or a two-byte code of the
  route dictionary), and the data. The dictionary the package keeps in two global maps is an
  argument here.

  The lemmas: the id coding is a round trip for every 64-bit id in at most ten bytes;
  \<open>Decode\<close> of an \<open>Encode\<close>d message gives the message back, and the exact exceptions (a response
  without data, a route of 256 bytes or more); when \<open>Decode\<close> panics.
\<close>

section \<open>Types, errors, messages\<close>

definition Request :: byte where [type_consts]: "Request = 0x00"
definition Notify :: byte where [type_consts]: "Notify = 0x01"
definition Response :: byte where [type_consts]: "Response = 0x02"
definition Push :: byte where [type_consts]: "Push = 0x03"

definition ROUTE_COMPRESS_MASK :: byte where "ROUTE_COMPRESS_MASK = 0x01"
definition TYPE_MASK :: byte where "TYPE_MASK = 0x07"
definition HEAD_LENGTH :: nat where "HEAD_LENGTH = 0x02"

lemmas mask_consts = ROUTE_COMPRESS_MASK_def TYPE_MASK_def HEAD_LENGTH_def

datatype message_error =
  ErrWrongMessageType | ErrInvalidMessage | ErrRouteInfoNotFound | ErrWrongMessage

record message =
  mType :: byte
  mId :: u64
  mRoute :: string
  mData :: bytes
  mCompressed :: bool

definition NewMessage :: message where
  "NewMessage = \<lparr>mType = 0, mId = 0, mRoute = [], mData = [], mCompressed = False\<rparr>"

text \<open>The package variables \<open>routes\<close> and \<open>codes\<close>.\<close>

record dictionary =
  routes :: "string \<rightharpoonup> u16"
  codes :: "u16 \<rightharpoonup> string"

definition emptyDictionary :: dictionary where
  "emptyDictionary = \<lparr>routes = Map.empty, codes = Map.empty\<rparr>"

definition routable :: "byte \<Rightarrow> bool" where
  "routable t \<longleftrightarrow> t = Request \<or> t = Notify \<or> t = Push"

definition invalidType :: "byte \<Rightarrow> bool" where
  "invalidType t \<longleftrightarrow> t < Request \<or> t > Push"

definition has_id :: "byte \<Rightarrow> bool" where
  "has_id t \<longleftrightarrow> t = Request \<or> t = Response"

section \<open>Encode\<close>

text \<open>The loop that writes the id, seven bits at a time, low bits first.\<close>

function id_bytes :: "u64 \<Rightarrow> bytes" where
  "id_bytes n =
     (let b = (ucast (n mod 128) :: byte); n' = drop_bit 7 n in
      if n' \<noteq> 0 then (b + 128) # id_bytes n' else [b])"
  by pat_completeness auto

lemma unat_drop_7: "unat (drop_bit 7 (n :: u64)) = unat n div 128"
  by (simp only: unat_drop_bit_eq) (simp add: drop_bit_eq_div)

termination id_bytes
proof (relation "measure unat", goal_cases)
  case (2 n b n')
  then have "unat n div 128 \<noteq> 0"
    by (metis unat_drop_7 unat_eq_zero)
  with 2 show ?case by (simp add: unat_drop_7)
qed simp

declare id_bytes.simps [simp del]

definition Encode :: "dictionary \<Rightarrow> message \<Rightarrow> (message_error, bytes) outcome" where
  "Encode dic m =
     (if invalidType (mType m) then Error ErrWrongMessageType
      else
        (let flag0 = push_bit 1 (mType m);
             flag = (if routes dic (mRoute m) \<noteq> None then flag0 OR ROUTE_COMPRESS_MASK else flag0);
             buf1 = [flag];
             buf2 = (if mType m = Request \<or> mType m = Response then buf1 @ id_bytes (mId m) else buf1);
             buf3 = (if routable (mType m)
                     then (case routes dic (mRoute m) of
                             Some code \<Rightarrow> buf2 @ [ucast (drop_bit 8 code AND 0xFF), ucast (code AND 0xFF)]
                           | None \<Rightarrow> buf2 @ [word_of_nat (length (mRoute m))] @ bytes_of (mRoute m))
                     else buf2)
         in Return (buf3 @ mData m)))"

section \<open>Decode\<close>

text \<open>
  The loop that reads the id from \<open>data[1:]\<close>: \<open>k\<close> is \<open>i - offset\<close>. It gives the sum and the
  index at which a byte below 128 ended the loop, if one did; without one the code leaves
  \<open>offset\<close> as it was.
\<close>

fun id_loop :: "bytes \<Rightarrow> nat \<Rightarrow> u64 \<Rightarrow> u64 \<times> nat option" where
  "id_loop [] k n = (n, None)"
| "id_loop (b # bs) k n =
     (let n' = n + push_bit (7 * k) (ucast (b AND 0x7F)) in
      if b < 128 then (n', Some k) else id_loop bs (Suc k) n')"

definition be_u16 :: "byte \<Rightarrow> byte \<Rightarrow> u16" where
  "be_u16 hi lo = push_bit 8 (ucast hi) OR ucast lo"

text \<open>
  The route part of \<open>Decode\<close>, from \<open>offset\<close>. \<open>data\<close> is a slice of the decoder's buffer, and
  \<open>data[offset:offset+2]\<close> is checked by Go against the capacity of that slice: \<open>spare\<close> are the
  bytes between its length and its capacity, and the panic is the branch beyond both.
\<close>

definition decode_route ::
  "dictionary \<Rightarrow> byte \<Rightarrow> bytes \<Rightarrow> bytes \<Rightarrow> nat \<Rightarrow> message \<Rightarrow> (message_error, message \<times> nat) outcome"
where
  "decode_route dic flag data spare offset m =
     (if flag AND ROUTE_COMPRESS_MASK = 1 then
        (let m1 = m\<lparr>mCompressed := True\<rparr> in
         case drop offset data @ spare of
           hi # lo # _ \<Rightarrow>
             (case codes dic (be_u16 hi lo) of
                None \<Rightarrow> Error ErrRouteInfoNotFound
              | Some route \<Rightarrow> Return (m1\<lparr>mRoute := route\<rparr>, offset + 2))
         | _ \<Rightarrow> Panic)
      else
        (let m1 = m\<lparr>mCompressed := False\<rparr>; rl = unat (data ! offset); offset1 = offset + 1 in
         if offset1 + rl > length data then Error ErrWrongMessage
         else Return (m1\<lparr>mRoute := string_of (take rl (drop offset1 data))\<rparr>, offset1 + rl)))"

text \<open>The id part of \<open>Decode\<close>, and the offset after it.\<close>

definition decode_id :: "bytes \<Rightarrow> message \<Rightarrow> message \<times> nat" where
  "decode_id data m =
     (if mType m = Request \<or> mType m = Response
      then (let (n, stop) = id_loop (drop 1 data) 0 0
            in (m\<lparr>mId := n\<rparr>, case stop of Some k \<Rightarrow> 1 + k + 1 | None \<Rightarrow> 1))
      else (m, 1))"

definition Decode :: "dictionary \<Rightarrow> bytes \<Rightarrow> bytes \<Rightarrow> (message_error, message) outcome" where
  "Decode dic data spare =
     (if length data < HEAD_LENGTH then Error ErrInvalidMessage
      else
        (let flag = data ! 0;
             m1 = NewMessage\<lparr>mType := drop_bit 1 flag AND TYPE_MASK\<rparr>
         in if invalidType (mType m1) then Error ErrWrongMessageType
            else
              (let (m2, offset) = decode_id data m1
               in if offset \<ge> length data then Error ErrWrongMessage
                  else bind_outcome
                         (if routable (mType m2) then decode_route dic flag data spare offset m2
                          else Return (m2, offset))
                         (\<lambda>(m3, off).
                            if off > length data then Error ErrWrongMessage
                            else Return (m3\<lparr>mData := drop off data\<rparr>)))))"

section \<open>The route dictionary\<close>

text \<open>
  \<open>strings.TrimSpace\<close>: the UTF-8 encodings of the Unicode white space characters are taken
  off both ends.
\<close>

definition go_spaces :: "bytes list" where
  "go_spaces =
     [[9], [10], [11], [12], [13], [32], [0xC2, 0x85], [0xC2, 0xA0], [0xE1, 0x9A, 0x80]]
     @ map (\<lambda>b. [0xE2, 0x80, b])
         [0x80, 0x81, 0x82, 0x83, 0x84, 0x85, 0x86, 0x87, 0x88, 0x89, 0x8A, 0xA8, 0xA9, 0xAF]
     @ [[0xE2, 0x81, 0x9F], [0xE3, 0x80, 0x80]]"

fun trim_prefix_of :: "bytes list \<Rightarrow> bytes \<Rightarrow> bytes option" where
  "trim_prefix_of [] b = None"
| "trim_prefix_of (s # ss) b =
     (if s \<noteq> [] \<and> take (length s) b = s then Some (drop (length s) b) else trim_prefix_of ss b)"

lemma trim_prefix_of_shorter: "trim_prefix_of ss b = Some c \<Longrightarrow> length c < length b"
proof (induction ss)
  case (Cons s ss)
  show ?case
  proof (cases "s \<noteq> [] \<and> take (length s) b = s")
    case True
    then have "c = drop (length s) b" "0 < length s" "length s \<le> length b"
      using Cons.prems by (auto dest: arg_cong [of _ _ length])
    then show ?thesis by (metis diff_less length_drop less_le_trans)
  qed (use Cons in auto)
qed simp

function trim_left :: "bytes list \<Rightarrow> bytes \<Rightarrow> bytes" where
  "trim_left ss b = (case trim_prefix_of ss b of None \<Rightarrow> b | Some c \<Rightarrow> trim_left ss c)"
  by pat_completeness auto

termination trim_left
  by (relation "measure (length \<circ> snd)") (auto dest: trim_prefix_of_shorter)

declare trim_left.simps [simp del]

definition TrimSpace :: "string \<Rightarrow> string" where
  "TrimSpace s =
     string_of (rev (trim_left (map rev go_spaces) (rev (trim_left go_spaces (bytes_of s)))))"

text \<open>
  \<open>SetDictionary\<close> ranges over a Go map, whose order is not determined: the list is the
  order of that iteration. A route or code set before is logged and overwritten.
\<close>

definition set_route :: "dictionary \<Rightarrow> string \<times> u16 \<Rightarrow> dictionary" where
  "set_route dic rc =
     (let r = TrimSpace (fst rc); code = snd rc in
      dic\<lparr>routes := (routes dic)(r \<mapsto> code), codes := (codes dic)(code \<mapsto> r)\<rparr>)"

definition SetDictionary :: "dictionary \<Rightarrow> (string \<times> u16) list \<Rightarrow> dictionary" where
  "SetDictionary dic entries = foldl set_route dic entries"


section \<open>The id coding\<close>

lemma and_7F: "(x :: byte) AND 0x7F = x mod 128"
proof -
  have "x AND mask 7 = x mod 2 ^ 7"
    by (simp only: take_bit_eq_mod flip: take_bit_eq_mask)
  then show ?thesis by (simp add: mask_eq_exp_minus_1)
qed

lemma seven_bit_byte:
  fixes n :: "u64"
  defines "x \<equiv> (ucast (n mod 128) :: byte)"
  shows "x AND 0x7F = x" and "x < 128" and "(x + 128) AND 0x7F = x" and "\<not> x + 128 < 128"
    and "(ucast x :: u64) = n mod 128"
proof -
  have small: "take_bit k (unat n mod 128) = unat n mod 128" if "7 \<le> k" for k
  proof -
    have "unat n mod 128 < 128" by simp
    also have "(128 :: nat) \<le> 2 ^ k" using power_increasing [OF that, of "2 :: nat"] by simp
    finally show ?thesis by (rule take_bit_nat_eq_self)
  qed
  have x: "unat x = unat n mod 128"
    by (simp add: x_def unsigned_ucast_eq unat_mod small)
  then show "x < 128" by (simp add: word_less_nat_alt)
  have *: "unat (x + 128) = unat n mod 128 + 128"
    by (simp add: unat_word_ariths x)
  then show "\<not> x + 128 < 128" by (simp add: word_less_nat_alt)
  show "x AND 0x7F = x" by (simp add: and_7F word_unat_eq_iff unat_mod x)
  show "(x + 128) AND 0x7F = x" by (simp add: and_7F word_unat_eq_iff unat_mod x *)
  show "(ucast x :: u64) = n mod 128"
    by (simp add: word_unat_eq_iff unsigned_ucast_eq unat_mod x small)
qed

lemma split_7: "n = n mod 128 + push_bit 7 (drop_bit 7 n)" for n :: "u64"
proof -
  have "push_bit 7 (drop_bit 7 n) + take_bit 7 n = n" by (rule bits_ident)
  then show ?thesis by (simp add: take_bit_eq_mod add.commute)
qed

lemma id_loop_id_bytes:
  "id_loop (id_bytes n @ rest) k acc =
     (acc + push_bit (7 * k) n, Some (k + length (id_bytes n) - 1))"
proof (induction n arbitrary: k acc rule: id_bytes.induct)
  case (1 n)
  have split: "push_bit (7 * k) n
      = push_bit (7 * k) (n mod 128) + push_bit (7 * Suc k) (drop_bit 7 n)"
    by (subst split_7) (simp add: push_bit_add add.commute)
  show ?case
  proof (cases "drop_bit 7 n = 0")
    case True
    with split show ?thesis
      by (simp add: id_bytes.simps [of n] seven_bit_byte)
  next
    case False
    have "id_bytes (drop_bit 7 n) \<noteq> []"
      by (subst id_bytes.simps) (simp add: Let_def)
    with False split 1 [OF refl refl False] show ?thesis
      by (simp add: id_bytes.simps [of n] seven_bit_byte add.assoc)
  qed
qed

lemma id_bytes_not_Nil [simp]: "id_bytes n \<noteq> []"
  by (subst id_bytes.simps) (simp add: Let_def)

lemma length_id_bytes_bound: "unat n < 128 ^ k \<Longrightarrow> 0 < k \<Longrightarrow> length (id_bytes n) \<le> k"
proof (induction n arbitrary: k rule: id_bytes.induct)
  case (1 n)
  show ?case
  proof (cases "drop_bit 7 n = 0")
    case True
    with 1 show ?thesis by (simp add: id_bytes.simps [of n])
  next
    case False
    then have "unat n div 128 \<noteq> 0"
      by (metis unat_drop_7 unat_eq_zero)
    then have "128 \<le> unat n" by simp
    with 1 have "k \<noteq> 1" by auto
    then obtain j where k: "k = Suc j" "0 < j" using 1(3) by (cases k) auto
    then have "unat (drop_bit 7 n) < 128 ^ j"
      using 1(2) by (simp add: unat_drop_7 less_mult_imp_div_less mult.commute)
    from 1(1) [OF refl refl False this k(2)] k False show ?thesis
      by (simp add: id_bytes.simps [of n])
  qed
qed

lemma length_id_bytes: "1 \<le> length (id_bytes n)" "length (id_bytes n) \<le> 10"
proof -
  show "1 \<le> length (id_bytes n)"
    by (simp add: Suc_le_eq)
  have "unat n < 2 ^ 64" using unsigned_less [of n] by simp
  then show "length (id_bytes n) \<le> 10"
    by (intro length_id_bytes_bound) simp_all
qed

section \<open>Decoding what was encoded\<close>

text \<open>Every route that is sent compressed is known by its code to the reader.\<close>

definition dictionary_ok :: "dictionary \<Rightarrow> bool" where
  "dictionary_ok dic \<longleftrightarrow> (\<forall>r c. routes dic r = Some c \<longrightarrow> codes dic c = Some r)"

text \<open>
  What the reader of an encoded message gets: the id of a request or response, the route of a
  routable message (cut at its length modulo 256 when it is written in full), the rest as data.
\<close>

definition received :: "dictionary \<Rightarrow> message \<Rightarrow> message" where
  "received dic m =
     (let rl = (if routes dic (mRoute m) = None then length (mRoute m) mod 256
                else length (mRoute m)) in
      \<lparr>mType = mType m,
       mId = (if has_id (mType m) then mId m else 0),
       mRoute = (if routable (mType m) then take rl (mRoute m) else []),
       mData = (if routable (mType m) then bytes_of (drop rl (mRoute m)) @ mData m else mData m),
       mCompressed = (routable (mType m) \<and> routes dic (mRoute m) \<noteq> None)\<rparr>)"

lemma valid_type_cases:
  assumes "\<not> invalidType t"
  obtains "t = Request" | "t = Notify" | "t = Response" | "t = Push"
proof -
  have "unat t \<le> 3"
    using assms by (simp add: invalidType_def type_consts word_less_nat_alt not_less)
  then have "unat t = 0 \<or> unat t = 1 \<or> unat t = 2 \<or> unat t = 3" by linarith
  then have "t = 0 \<or> t = 1 \<or> t = 2 \<or> t = 3"
    by (auto simp: word_unat_eq_iff)
  with that show ?thesis by (auto simp: type_consts)
qed

lemma type_facts [simp]:
  "\<not> invalidType Request" "\<not> invalidType Notify" "\<not> invalidType Response" "\<not> invalidType Push"
  "routable Request" "routable Notify" "\<not> routable Response" "routable Push"
  "has_id Request" "\<not> has_id Notify" "has_id Response" "\<not> has_id Push"
  by (simp_all add: invalidType_def routable_def has_id_def type_consts)

text \<open>The flag byte determines the type and the compression bit.\<close>

lemma flag_bits:
  assumes "\<not> invalidType t"
  shows "drop_bit 1 (push_bit 1 t) AND TYPE_MASK = t"
    and "drop_bit 1 (push_bit 1 t OR ROUTE_COMPRESS_MASK) AND TYPE_MASK = t"
    and "push_bit 1 t AND ROUTE_COMPRESS_MASK \<noteq> 1"
    and "(push_bit 1 t OR ROUTE_COMPRESS_MASK) AND ROUTE_COMPRESS_MASK = 1"
  using assms
  by (auto elim!: valid_type_cases simp: type_consts mask_consts)

lemma mask8: "c AND 0xFF = take_bit 8 (c::'a::len word)"
proof -
  have "mask 8 = (0xFF :: 'a word)" by (simp add: mask_eq_exp_minus_1)
  then show ?thesis by (simp add: take_bit_eq_mask)
qed

lemma be_u16_bytes: "be_u16 (ucast (drop_bit 8 c AND 0xFF)) (ucast (c AND 0xFF)) = c"
  unfolding be_u16_def mask8
  by (rule bit_word_eqI) (auto simp: bit_simps)

text \<open>The route part of an encoded message.\<close>

definition header_bytes :: "dictionary \<Rightarrow> message \<Rightarrow> bytes" where
  "header_bytes dic m = (if routable (mType m)
                     then (case routes dic (mRoute m) of
                             Some code \<Rightarrow> [ucast (drop_bit 8 code AND 0xFF), ucast (code AND 0xFF)]
                           | None \<Rightarrow> word_of_nat (length (mRoute m)) # bytes_of (mRoute m))
                     else [])"
lemma unat_length_byte: "unat (word_of_nat n :: byte) = n mod 256"
  by (simp add: unat_of_nat)

lemma take_bytes_of: "take n (bytes_of s) = bytes_of (take n s)" "drop n (bytes_of s) = bytes_of (drop n s)"
  by (simp_all add: bytes_of_def take_map drop_map)

lemma decode_route_encoded:
  assumes "dictionary_ok dic" "routable (mType m)" "data = pre @ header_bytes dic m @ mData m"
    and "\<not> invalidType (mType m)"
   and "flag = (if routes dic (mRoute m) \<noteq> None then push_bit 1 (mType m) OR ROUTE_COMPRESS_MASK else push_bit 1 (mType m))"
  shows "decode_route dic flag data spare (length pre) m' =
     Return (m'\<lparr>mCompressed := mCompressed (received dic m), mRoute := mRoute (received dic m)\<rparr>, 
     length data - length (mData (received dic m)))"
proof (cases "routes dic (mRoute m)")
  case None
  with assms show ?thesis
    using flag_bits [OF assms(4)]
    by (simp add: decode_route_def received_def header_bytes_def nth_append unat_length_byte take_bytes_of Let_def)
next
  case (Some a)
  with assms have "codes dic a = Some (mRoute m)" by (simp add: dictionary_ok_def)
  with Some assms show ?thesis
    using flag_bits [OF assms(4)]
    by (simp add: decode_route_def received_def header_bytes_def be_u16_bytes)
qed

lemma Encode_Return:
  "Encode dic m = Return b \<longleftrightarrow> \<not> invalidType (mType m) \<and>
     b = (if routes dic (mRoute m) \<noteq> None then push_bit 1 (mType m) OR ROUTE_COMPRESS_MASK else push_bit 1 (mType m)) #
       (if has_id (mType m) then id_bytes (mId m) else []) @ header_bytes dic m @ mData m"
  by (auto simp: Encode_def header_bytes_def has_id_def Let_def split: option.splits)

lemma received_suffix: "\<exists>pfx. header_bytes dic m @ mData m = pfx @ mData (received dic m)"
proof (cases "routable (mType m) \<and> routes dic (mRoute m) = None")
  case True
  let ?k = "length (mRoute m) mod 256"
  have "bytes_of (mRoute m) = bytes_of (take ?k (mRoute m)) @ bytes_of (drop ?k (mRoute m))"
    by (simp flip: take_bytes_of)
  with True show ?thesis
    by (intro exI [of _ "word_of_nat (length (mRoute m)) # bytes_of (take ?k (mRoute m))"])
       (simp add: header_bytes_def received_def Let_def)
next
  case False
  then show ?thesis by (auto simp: header_bytes_def received_def Let_def)
qed

lemma Decode_Encode_received:
  assumes "Encode dic m = Return b" and "dictionary_ok dic"
  shows "Decode dic b spare =
    (if mType m = Response \<and> mData m = [] then Error ErrWrongMessage
     else Return (received dic m))"
proof -
  let ?flag = "if routes dic (mRoute m) \<noteq> None then push_bit 1 (mType m) OR ROUTE_COMPRESS_MASK else push_bit 1 (mType m)"
  let ?pre = "?flag # (if has_id (mType m) then id_bytes (mId m) else [])"
  have v: "\<not> invalidType (mType m)" and b: "b = ?pre @ header_bytes dic m @ mData m"
    using assms(1) by (auto simp: Encode_Return)
  have ty: "drop_bit 1 ?flag AND TYPE_MASK = mType m" using flag_bits [OF v] by simp
  have pre: "1 \<le> length ?pre" by simp
  have idl: "id_loop (id_bytes (mId m) @ r) 0 0 = (mId m, Some (length (id_bytes (mId m)) - 1))" for r
    by (simp add: id_loop_id_bytes)
  have off: "mType m1 = mType m \<Longrightarrow>
      decode_id b m1 = (if has_id (mType m) then m1\<lparr>mId := mId m\<rparr> else m1, length ?pre)" for m1
    using b by (simp add: decode_id_def has_id_def idl Let_def)
  let ?m2 = "NewMessage\<lparr>mType := mType m, mId := (if has_id (mType m) then mId m else 0)\<rparr>"
  have len: "2 \<le> length b"
  proof (cases "routable (mType m)")
    case True
    then show ?thesis using b by (auto simp: header_bytes_def split: option.splits)
  next
    case False
    then have "has_id (mType m)" using v by (auto elim!: valid_type_cases)
    then show ?thesis using b length_id_bytes(1) [of "mId m"] by simp
  qed
  have m2: "(if has_id (mType m) then NewMessage\<lparr>mType := mType m, mId := mId m\<rparr>
      else NewMessage\<lparr>mType := mType m\<rparr>) = ?m2"
    by (simp add: NewMessage_def)
  have D: "Decode dic b spare =
      (if length ?pre \<ge> length b then Error ErrWrongMessage
       else bind_outcome
              (if routable (mType m) then decode_route dic ?flag b spare (length ?pre) ?m2
               else Return (?m2, length ?pre))
              (\<lambda>(m3, off). if off > length b then Error ErrWrongMessage
                           else Return (m3\<lparr>mData := drop off b\<rparr>)))"
  proof -
    have hd: "b ! 0 = ?flag" using b by simp
    have "decode_id b (NewMessage\<lparr>mType := mType m\<rparr>) = (?m2, length ?pre)"
      by (subst off) (simp_all add: NewMessage_def)
    then show ?thesis
      unfolding Decode_def Let_def hd ty using len v
      by (simp add: HEAD_LENGTH_def NewMessage_def)
  qed
  show ?thesis
  proof (cases "routable (mType m)")
    case True
    then have hb: "header_bytes dic m \<noteq> []" and nr: "mType m \<noteq> Response"
      by (auto simp: header_bytes_def split: option.splits)
    have R: "decode_route dic ?flag b spare (length ?pre) ?m2 =
        Return (?m2\<lparr>mCompressed := mCompressed (received dic m), mRoute := mRoute (received dic m)\<rparr>,
          length b - length (mData (received dic m)))"
      by (rule decode_route_encoded [OF assms(2) True b v refl])
    obtain pfx where "b = pfx @ mData (received dic m)"
      using received_suffix [of dic m] b by (metis append.assoc)
    then have data: "drop (length b - length (mData (received dic m))) b = mData (received dic m)"
      "mType (received dic m) = mType m" "mId (received dic m) = mId ?m2"
      by (simp_all add: received_def Let_def NewMessage_def)
    show ?thesis
      unfolding D R using b hb nr True data
      by (simp add: received_def)
  next
    case False
    then have "mType m = Response" using v by (auto elim!: valid_type_cases)
    then show ?thesis
      unfolding D using b
      by (simp add: header_bytes_def received_def NewMessage_def)
  qed
qed
text \<open>
  The id coding: whatever follows it, the id \<open>Encode\<close> writes is read back in full by the
  loop of \<open>Decode\<close>, which stops at its last byte; it takes one to ten bytes, for every 64-bit id.
\<close>

lemma id_roundtrip:
  "id_loop (id_bytes n @ rest) 0 0 = (n, Some (length (id_bytes n) - 1))
   \<and> 1 \<le> length (id_bytes n) \<and> length (id_bytes n) \<le> 10"
  by (simp add: id_loop_id_bytes length_id_bytes Suc_le_eq)



text \<open>
  A route of 256 bytes or more that is not in the dictionary is corrupted without an error:
  its length byte wraps, so the reader gets the first \<open>length mod 256\<close> characters as the route
  and the others in front of the data.
\<close>

lemma long_route_is_split:
  assumes "Encode dic m = Return b" and "dictionary_ok dic" and "routable (mType m)"
    and "routes dic (mRoute m) = None" and "256 \<le> length (mRoute m)"
  shows "\<exists>r. Decode dic b spare = Return r \<and> mRoute r \<noteq> mRoute m
    \<and> mRoute r = take (length (mRoute m) mod 256) (mRoute m)
    \<and> mData r = bytes_of (drop (length (mRoute m) mod 256) (mRoute m)) @ mData m"
proof -
  have "mType m \<noteq> Response" using assms(3) by (auto simp: routable_def type_consts)
  then have "Decode dic b spare = Return (received dic m)"
    using Decode_Encode_received [OF assms(1,2)] by simp
  moreover have "length (mRoute m) mod 256 < length (mRoute m)"
    using assms(5) mod_less_divisor [of 256 "length (mRoute m)"] by linarith
  then have "take (length (mRoute m) mod 256) (mRoute m) \<noteq> mRoute m"
    by (metis length_take less_irrefl min.absorb4)
  ultimately show ?thesis
    using assms(3,4) by (simp add: received_def Let_def)
qed

lemma long_route_is_split_witness:
  "\<exists>r. Decode emptyDictionary (6 # 2 # replicate 258 97 @ [7]) [] = Return r
    \<and> mRoute r = ''aa'' \<and> mData r = replicate 256 97 @ [7]"
proof -
  let ?m = "\<lparr>mType = Push, mId = 0, mRoute = replicate 258 (CHR ''a''), mData = [7], mCompressed = False\<rparr>"
  have "Encode emptyDictionary ?m = Return (6 # 2 # replicate 258 97 @ [7])"
    by (simp add: Encode_def emptyDictionary_def type_consts bytes_of_def invalidType_def routable_def)
  moreover have "dictionary_ok emptyDictionary"
    by (simp add: dictionary_ok_def emptyDictionary_def)
  ultimately have "\<exists>r. Decode emptyDictionary (6 # 2 # replicate 258 97 @ [7]) [] = Return r
    \<and> mRoute r \<noteq> mRoute ?m \<and> mRoute r = take (length (mRoute ?m) mod 256) (mRoute ?m)
    \<and> mData r = bytes_of (drop (length (mRoute ?m) mod 256) (mRoute ?m)) @ mData ?m"
    by (rule long_route_is_split) (simp_all add: emptyDictionary_def routable_def type_consts)
  then show ?thesis
    by (simp add: bytes_of_def numeral_2_eq_2) blast
qed

section \<open>Panics of Decode\<close>

text \<open>
  The only input on which \<open>Decode\<close> panics: a routable message with the compression bit
  whose id ends one byte before the end of the slice, with no spare capacity behind it. All
  other malformed inputs end in one of the package's errors.
\<close>

lemma Decode_Panic_iff:
  "Decode dic data spare = Panic \<longleftrightarrow>
     2 \<le> length data
     \<and> (let t = drop_bit 1 (data ! 0) AND TYPE_MASK in
          routable t \<and> data ! 0 AND ROUTE_COMPRESS_MASK = 1
          \<and> snd (decode_id data (NewMessage\<lparr>mType := t\<rparr>)) = length data - 1 \<and> spare = [])"
proof -
  define t where "t = drop_bit 1 (data ! 0) AND TYPE_MASK"
  obtain m2 off where d: "decode_id data (NewMessage\<lparr>mType := t\<rparr>) = (m2, off)"
    by fastforce
  have ty: "mType m2 = t"
    using d by (auto simp: decode_id_def NewMessage_def Let_def split: prod.splits if_splits)
  have valid: "\<not> invalidType t" if "routable t"
    using that by (auto simp: routable_def)
  have route: "decode_route dic (data ! 0) data spare off m2 = Panic \<longleftrightarrow>
      data ! 0 AND ROUTE_COMPRESS_MASK = 1 \<and> off = length data - 1 \<and> spare = []"
    if "off < length data"
  proof -
    have "(case drop off data @ spare of hi # lo # _ \<Rightarrow> False | _ \<Rightarrow> True) \<longleftrightarrow>
        off = length data - 1 \<and> spare = []"
      using that by (cases "drop off data"; cases "tl (drop off data)"; cases spare)
        (auto simp: tl_drop dest: arg_cong [of _ _ length])
    then show ?thesis
      by (auto simp: decode_route_def Let_def split: list.splits option.splits)
  qed
  have "Decode dic data spare = Panic \<longleftrightarrow>
      2 \<le> length data \<and> \<not> invalidType t \<and> off < length data \<and> routable t
      \<and> decode_route dic (data ! 0) data spare off m2 = Panic"
    unfolding Decode_def Let_def t_def [symmetric] d
    using ty by (auto simp: HEAD_LENGTH_def NewMessage_def bind_outcome_Panic_iff split: if_splits)
  then show ?thesis
    unfolding Let_def t_def [symmetric] d
    using route valid by (cases "off < length data") auto
qed

section \<open>Setting the dictionary\<close>

lemma foldl_updates:
  "foldl (\<lambda>m x. m(f x \<mapsto> g x)) m xs = m ++ map_of (rev (map (\<lambda>x. (f x, g x)) xs))"
  by (induction xs arbitrary: m rule: rev_induct) (simp_all add: map_add_def fun_eq_iff)

lemma routes_SetDictionary:
  "routes (SetDictionary dic es) =
     routes dic ++ map_of (rev (map (\<lambda>e. (TrimSpace (fst e), snd e)) es))"
proof -
  have "routes (foldl set_route dic es) =
      foldl (\<lambda>m e. m(TrimSpace (fst e) \<mapsto> snd e)) (routes dic) es"
    by (induction es arbitrary: dic) (simp_all add: set_route_def Let_def)
  then show ?thesis by (simp add: SetDictionary_def foldl_updates)
qed

lemma codes_SetDictionary:
  "codes (SetDictionary dic es) =
     codes dic ++ map_of (rev (map (\<lambda>e. (snd e, TrimSpace (fst e))) es))"
proof -
  have "codes (foldl set_route dic es) =
      foldl (\<lambda>m e. m(snd e \<mapsto> TrimSpace (fst e))) (codes dic) es"
    by (induction es arbitrary: dic) (simp_all add: set_route_def Let_def)
  then show ?thesis by (simp add: SetDictionary_def foldl_updates)
qed

lemma dictionary_lookup:
  assumes "distinct (map (TrimSpace \<circ> fst) es)" and "distinct (map snd es)"
  shows "routes (SetDictionary emptyDictionary es) r = Some c \<longleftrightarrow>
      (\<exists>r0. (r0, c) \<in> set es \<and> r = TrimSpace r0)"
    and "codes (SetDictionary emptyDictionary es) c = Some r \<longleftrightarrow>
      (\<exists>r0. (r0, c) \<in> set es \<and> r = TrimSpace r0)"
proof -
  have "distinct (map fst (rev (map (\<lambda>e. (TrimSpace (fst e), snd e)) es)))"
    using assms(1) by (simp add: comp_def flip: rev_map)
  then show "routes (SetDictionary emptyDictionary es) r = Some c \<longleftrightarrow>
      (\<exists>r0. (r0, c) \<in> set es \<and> r = TrimSpace r0)"
    by (force simp: routes_SetDictionary emptyDictionary_def map_of_eq_Some_iff)
  have "distinct (map fst (rev (map (\<lambda>e. (snd e, TrimSpace (fst e))) es)))"
    using assms(2) by (simp add: comp_def flip: rev_map)
  then show "codes (SetDictionary emptyDictionary es) c = Some r \<longleftrightarrow>
      (\<exists>r0. (r0, c) \<in> set es \<and> r = TrimSpace r0)"
    by (force simp: codes_SetDictionary emptyDictionary_def map_of_eq_Some_iff)
qed

text \<open>
  When the trimmed routes and the codes of a dictionary are distinct, the result of
  \<open>SetDictionary\<close> does not depend on the order in which Go iterates over the map, and it is the
  consistent dictionary the round trip of messages needs.
\<close>

lemma SetDictionary_any_order:
  assumes "distinct (map (TrimSpace \<circ> fst) es)" and "distinct (map snd es)"
    and "distinct (map (TrimSpace \<circ> fst) es')" and "distinct (map snd es')"
    and "set es' = set es"
  shows "SetDictionary emptyDictionary es' = SetDictionary emptyDictionary es
    \<and> dictionary_ok (SetDictionary emptyDictionary es)"
proof
  show "SetDictionary emptyDictionary es' = SetDictionary emptyDictionary es"
  proof (rule dictionary.equality)
    show "routes (SetDictionary emptyDictionary es') = routes (SetDictionary emptyDictionary es)"
      using dictionary_lookup(1) [OF assms(1,2)] dictionary_lookup(1) [OF assms(3,4)] assms(5)
      by (intro ext) (metis not_None_eq)
    show "codes (SetDictionary emptyDictionary es') = codes (SetDictionary emptyDictionary es)"
      using dictionary_lookup(2) [OF assms(1,2)] dictionary_lookup(2) [OF assms(3,4)] assms(5)
      by (intro ext) (metis not_None_eq)
  qed simp
  show "dictionary_ok (SetDictionary emptyDictionary es)"
    using dictionary_lookup [OF assms(1,2)] by (auto simp: dictionary_ok_def)
qed

lemma SetDictionary_any_order_witness:
  "SetDictionary emptyDictionary [('' hall.login'', 1), (''hall.exit'', 2)]
     = SetDictionary emptyDictionary [(''hall.exit'', 2), ('' hall.login'', 1)]
   \<and> dictionary_ok (SetDictionary emptyDictionary [(''hall.exit'', 2), ('' hall.login'', 1)])"
proof -
  have *: "TrimSpace '' hall.login'' = ''hall.login''" "TrimSpace ''hall.exit'' = ''hall.exit''"
    by code_simp+
  show ?thesis by (rule SetDictionary_any_order) (simp_all add: * insert_commute)
qed

end
