(* ===== verification/Gate_Crypto.thy ===== *)
theory Gate_Crypto
  imports Gira_Prelude
begin

text \<open>
  The payload encryption of the gateway, \<open>gate/crypto/crypto.go\<close>: PKCS5 padding and DES in ECB
  and in CBC mode with the key as the initial vector. The block cipher is Go's \<open>crypto/des\<close>,
  that is DES as FIPS 46-3 defines it on lists of bits; \<open>encoding/hex\<close> is modelled too. The
  RSA functions (PKCS1 v1.5 with a random pad) are not modelled here.

  The lemmas: a DES block decrypts to itself under every key; ECB and CBC decryption invert
  encryption for every plaintext and every eight-byte key; the other keys give the error (ECB)
  or the panic (CBC); and exactly which inputs make the decryption panic in \<open>PKCS5UnPadding\<close>.
\<close>

section \<open>DES\<close>

type_synonym bits = "bool list"

definition permute :: "nat list \<Rightarrow> bits \<Rightarrow> bits" where
  "permute t x = map (\<lambda>i. x ! (i - 1)) t"

definition xor_bits :: "bits \<Rightarrow> bits \<Rightarrow> bits" where
  "xor_bits x y = map2 (\<noteq>) x y"

definition initialPermutation :: "nat list" where
  "initialPermutation =
     [58, 50, 42, 34, 26, 18, 10, 2, 60, 52, 44, 36, 28, 20, 12, 4,
      62, 54, 46, 38, 30, 22, 14, 6, 64, 56, 48, 40, 32, 24, 16, 8,
      57, 49, 41, 33, 25, 17, 9, 1, 59, 51, 43, 35, 27, 19, 11, 3,
      61, 53, 45, 37, 29, 21, 13, 5, 63, 55, 47, 39, 31, 23, 15, 7]"

definition finalPermutation :: "nat list" where
  "finalPermutation =
     [40, 8, 48, 16, 56, 24, 64, 32, 39, 7, 47, 15, 55, 23, 63, 31,
      38, 6, 46, 14, 54, 22, 62, 30, 37, 5, 45, 13, 53, 21, 61, 29,
      36, 4, 44, 12, 52, 20, 60, 28, 35, 3, 43, 11, 51, 19, 59, 27,
      34, 2, 42, 10, 50, 18, 58, 26, 33, 1, 41, 9, 49, 17, 57, 25]"

definition expansionFunction :: "nat list" where
  "expansionFunction =
     [32, 1, 2, 3, 4, 5, 4, 5, 6, 7, 8, 9, 8, 9, 10, 11,
      12, 13, 12, 13, 14, 15, 16, 17, 16, 17, 18, 19, 20, 21, 20, 21,
      22, 23, 24, 25, 24, 25, 26, 27, 28, 29, 28, 29, 30, 31, 32, 1]"

definition permutationFunction :: "nat list" where
  "permutationFunction =
     [16, 7, 20, 21, 29, 12, 28, 17, 1, 15, 23, 26, 5, 18, 31, 10,
      2, 8, 24, 14, 32, 27, 3, 9, 19, 13, 30, 6, 22, 11, 4, 25]"

definition permutedChoice1 :: "nat list" where
  "permutedChoice1 =
     [57, 49, 41, 33, 25, 17, 9, 1, 58, 50, 42, 34, 26, 18, 10, 2,
      59, 51, 43, 35, 27, 19, 11, 3, 60, 52, 44, 36, 63, 55, 47, 39,
      31, 23, 15, 7, 62, 54, 46, 38, 30, 22, 14, 6, 61, 53, 45, 37,
      29, 21, 13, 5, 28, 20, 12, 4]"

definition permutedChoice2 :: "nat list" where
  "permutedChoice2 =
     [14, 17, 11, 24, 1, 5, 3, 28, 15, 6, 21, 10, 23, 19, 12, 4,
      26, 8, 16, 7, 27, 20, 13, 2, 41, 52, 31, 37, 47, 55, 30, 40,
      51, 45, 33, 48, 44, 49, 39, 56, 34, 53, 46, 42, 50, 36, 29, 32]"

definition ksRotations :: "nat list" where
  "ksRotations = [1, 1, 2, 2, 2, 2, 2, 2, 1, 2, 2, 2, 2, 2, 2, 1]"

definition sBoxes :: "nat list list" where
  "sBoxes =
   [[14, 4, 13, 1, 2, 15, 11, 8, 3, 10, 6, 12, 5, 9, 0, 7,
      0, 15, 7, 4, 14, 2, 13, 1, 10, 6, 12, 11, 9, 5, 3, 8,
      4, 1, 14, 8, 13, 6, 2, 11, 15, 12, 9, 7, 3, 10, 5, 0,
      15, 12, 8, 2, 4, 9, 1, 7, 5, 11, 3, 14, 10, 0, 6, 13],
    [15, 1, 8, 14, 6, 11, 3, 4, 9, 7, 2, 13, 12, 0, 5, 10,
      3, 13, 4, 7, 15, 2, 8, 14, 12, 0, 1, 10, 6, 9, 11, 5,
      0, 14, 7, 11, 10, 4, 13, 1, 5, 8, 12, 6, 9, 3, 2, 15,
      13, 8, 10, 1, 3, 15, 4, 2, 11, 6, 7, 12, 0, 5, 14, 9],
    [10, 0, 9, 14, 6, 3, 15, 5, 1, 13, 12, 7, 11, 4, 2, 8,
      13, 7, 0, 9, 3, 4, 6, 10, 2, 8, 5, 14, 12, 11, 15, 1,
      13, 6, 4, 9, 8, 15, 3, 0, 11, 1, 2, 12, 5, 10, 14, 7,
      1, 10, 13, 0, 6, 9, 8, 7, 4, 15, 14, 3, 11, 5, 2, 12],
    [7, 13, 14, 3, 0, 6, 9, 10, 1, 2, 8, 5, 11, 12, 4, 15,
      13, 8, 11, 5, 6, 15, 0, 3, 4, 7, 2, 12, 1, 10, 14, 9,
      10, 6, 9, 0, 12, 11, 7, 13, 15, 1, 3, 14, 5, 2, 8, 4,
      3, 15, 0, 6, 10, 1, 13, 8, 9, 4, 5, 11, 12, 7, 2, 14],
    [2, 12, 4, 1, 7, 10, 11, 6, 8, 5, 3, 15, 13, 0, 14, 9,
      14, 11, 2, 12, 4, 7, 13, 1, 5, 0, 15, 10, 3, 9, 8, 6,
      4, 2, 1, 11, 10, 13, 7, 8, 15, 9, 12, 5, 6, 3, 0, 14,
      11, 8, 12, 7, 1, 14, 2, 13, 6, 15, 0, 9, 10, 4, 5, 3],
    [12, 1, 10, 15, 9, 2, 6, 8, 0, 13, 3, 4, 14, 7, 5, 11,
      10, 15, 4, 2, 7, 12, 9, 5, 6, 1, 13, 14, 0, 11, 3, 8,
      9, 14, 15, 5, 2, 8, 12, 3, 7, 0, 4, 10, 1, 13, 11, 6,
      4, 3, 2, 12, 9, 5, 15, 10, 11, 14, 1, 7, 6, 0, 8, 13],
    [4, 11, 2, 14, 15, 0, 8, 13, 3, 12, 9, 7, 5, 10, 6, 1,
      13, 0, 11, 7, 4, 9, 1, 10, 14, 3, 5, 12, 2, 15, 8, 6,
      1, 4, 11, 13, 12, 3, 7, 14, 10, 15, 6, 8, 0, 5, 9, 2,
      6, 11, 13, 8, 1, 4, 10, 7, 9, 5, 0, 15, 14, 2, 3, 12],
    [13, 2, 8, 4, 6, 15, 11, 1, 10, 9, 3, 14, 5, 0, 12, 7,
      1, 15, 13, 8, 10, 3, 7, 4, 12, 5, 6, 11, 0, 14, 9, 2,
      7, 11, 4, 1, 9, 12, 14, 2, 0, 6, 10, 13, 15, 3, 5, 8,
      2, 1, 14, 7, 4, 10, 8, 13, 15, 12, 9, 0, 3, 5, 6, 11]]"

fun nat_of_bits :: "nat \<Rightarrow> bits \<Rightarrow> nat" where
  "nat_of_bits n [] = n"
| "nat_of_bits n (b # bs) = nat_of_bits (2 * n + (if b then 1 else 0)) bs"

definition nibble_bits :: "nat \<Rightarrow> bits" where
  "nibble_bits v = [odd (v div 8), odd (v div 4), odd (v div 2), odd v]"

text \<open>A six-bit group selects the row by its outer bits and the column by the inner four.\<close>

fun sbox_lookup :: "nat list \<Rightarrow> bits \<Rightarrow> bits" where
  "sbox_lookup s [b0, b1, b2, b3, b4, b5] =
     nibble_bits (s ! (16 * nat_of_bits 0 [b0, b5] + nat_of_bits 0 [b1, b2, b3, b4]))"
| "sbox_lookup s _ = []"

fun substitute :: "nat list list \<Rightarrow> bits \<Rightarrow> bits" where
  "substitute [] x = []"
| "substitute (s # ss) x = sbox_lookup s (take 6 x) @ substitute ss (drop 6 x)"

definition feistel :: "bits \<Rightarrow> bits \<Rightarrow> bits" where
  "feistel right key =
     permute permutationFunction (substitute sBoxes (xor_bits (permute expansionFunction right) key))"

definition rotl :: "nat \<Rightarrow> bits \<Rightarrow> bits" where
  "rotl n x = drop n x @ take n x"

fun subkeys_of :: "nat list \<Rightarrow> bits \<Rightarrow> bits \<Rightarrow> bits list" where
  "subkeys_of [] c d = []"
| "subkeys_of (r # rs) c d =
     (let c' = rotl r c; d' = rotl r d in
      permute permutedChoice2 (c' @ d') # subkeys_of rs c' d')"

definition generateSubkeys :: "bits \<Rightarrow> bits list" where
  "generateSubkeys key =
     (let k = permute permutedChoice1 key in subkeys_of ksRotations (take 28 k) (drop 28 k))"

fun rounds :: "bits list \<Rightarrow> bits \<times> bits \<Rightarrow> bits \<times> bits" where
  "rounds [] lr = lr"
| "rounds (k # ks) (l, r) = rounds ks (r, xor_bits l (feistel r k))"

definition cryptBlock :: "bits list \<Rightarrow> bits \<Rightarrow> bits" where
  "cryptBlock ks x =
     (let y = permute initialPermutation x;
          (l, r) = rounds ks (take 32 y, drop 32 y)
      in permute finalPermutation (r @ l))"

definition byte_bits :: "byte \<Rightarrow> bits" where
  "byte_bits w = map (\<lambda>i. bit w (7 - i)) [0..<8]"

definition bits_byte :: "bits \<Rightarrow> byte" where
  "bits_byte x = word_of_nat (nat_of_bits 0 x)"

definition block_bits :: "bytes \<Rightarrow> bits" where
  "block_bits b = concat (map byte_bits b)"

fun bits_block :: "nat \<Rightarrow> bits \<Rightarrow> bytes" where
  "bits_block 0 x = []"
| "bits_block (Suc n) x = bits_byte (take 8 x) # bits_block n (drop 8 x)"

definition desEncryptBlock :: "bytes \<Rightarrow> bytes \<Rightarrow> bytes" where
  "desEncryptBlock key b = bits_block 8 (cryptBlock (generateSubkeys (block_bits key)) (block_bits b))"

definition desDecryptBlock :: "bytes \<Rightarrow> bytes \<Rightarrow> bytes" where
  "desDecryptBlock key b =
     bits_block 8 (cryptBlock (rev (generateSubkeys (block_bits key))) (block_bits b))"

section \<open>A block decrypts to itself\<close>

lemma length_permute [simp]: "length (permute t x) = length t"
  by (simp add: permute_def)

lemma length_xor_bits [simp]: "length (xor_bits x y) = min (length x) (length y)"
  by (simp add: xor_bits_def)

lemma table_lengths [simp]:
  "length initialPermutation = 64" "length finalPermutation = 64"
  "length permutationFunction = 32"
  by (simp_all add: initialPermutation_def finalPermutation_def permutationFunction_def)

lemma length_feistel [simp]: "length (feistel r k) = 32"
  by (simp add: feistel_def)

lemma xor_bits_cancel: "length x = length y \<Longrightarrow> xor_bits (xor_bits x y) y = x"
  by (rule nth_equalityI) (auto simp: xor_bits_def)

lemma permute_permute:
  "\<forall>i \<in> set t. 0 < i \<and> i \<le> length s \<Longrightarrow>
     permute t (permute s x) = map (\<lambda>i. x ! (s ! (i - 1) - 1)) t"
  by (auto simp: permute_def)

lemma permute_inverse:
  assumes "\<forall>i \<in> set t. 0 < i \<and> i \<le> length s"
    and "map (\<lambda>i. s ! (i - 1) - 1) t = [0..<n]" and "length x = n"
  shows "permute t (permute s x) = x"
proof -
  have "permute t (permute s x) = map ((!) x) (map (\<lambda>i. s ! (i - 1) - 1) t)"
    using assms(1) by (simp add: permute_permute)
  also have "\<dots> = map ((!) x) [0..<length x]"
    by (simp only: assms(2,3))
  also have "\<dots> = x" by (rule map_nth)
  finally show ?thesis .
qed

lemma FP_IP: "length x = 64 \<Longrightarrow> permute finalPermutation (permute initialPermutation x) = x"
  by (rule permute_inverse [where n = 64])
     (simp_all add: initialPermutation_def finalPermutation_def upt_rec numeral_eq_Suc)

lemma IP_FP: "length x = 64 \<Longrightarrow> permute initialPermutation (permute finalPermutation x) = x"
  by (rule permute_inverse [where n = 64])
     (simp_all add: initialPermutation_def finalPermutation_def upt_rec numeral_eq_Suc)

lemma rounds_append: "rounds (ks @ ks') lr = rounds ks' (rounds ks lr)"
  by (induction ks lr rule: rounds.induct) auto

lemma length_rounds:
  "rounds ks (l, r) = (l', r') \<Longrightarrow> length l = 32 \<Longrightarrow> length r = 32 \<Longrightarrow>
     length l' = 32 \<and> length r' = 32"
  by (induction ks arbitrary: l r) fastforce+

text \<open>Running the rounds with the subkeys reversed on the swapped halves undoes them.\<close>

lemma rounds_rev:
  "rounds ks (l, r) = (l', r') \<Longrightarrow> length l = 32 \<Longrightarrow> length r = 32 \<Longrightarrow>
     rounds (rev ks) (r', l') = (r, l)"
  by (induction ks arbitrary: l r) (auto simp: rounds_append xor_bits_cancel)

lemma length_cryptBlock [simp]: "length (cryptBlock ks x) = 64"
  by (simp add: cryptBlock_def split_beta Let_def)

lemma cryptBlock_rev:
  assumes "length x = 64"
  shows "cryptBlock (rev ks) (cryptBlock ks x) = x"
proof -
  define y where "y = permute initialPermutation x"
  have len: "length (take 32 y) = 32" "length (drop 32 y) = 32" by (simp_all add: y_def)
  obtain l r where lr: "rounds ks (take 32 y, drop 32 y) = (l, r)" by fastforce
  have l32: "length l = 32" "length r = 32" using length_rounds [OF lr len] by auto
  have "cryptBlock ks x = permute finalPermutation (r @ l)"
    by (simp add: cryptBlock_def lr flip: y_def)
  moreover have "permute initialPermutation (permute finalPermutation (r @ l)) = r @ l"
    using l32 by (simp add: IP_FP)
  ultimately have "cryptBlock (rev ks) (cryptBlock ks x) = permute finalPermutation y"
    using l32 rounds_rev [OF lr len] by (simp add: cryptBlock_def)
  then show ?thesis by (simp add: y_def FP_IP assms)
qed

lemma nat_of_bits_horner:
  "nat_of_bits n x = n * 2 ^ length x + horner_sum of_bool 2 (rev x)"
  by (induction x arbitrary: n) (simp_all add: horner_sum_append algebra_simps)

lemma bit_bits_byte: "length x = 8 \<Longrightarrow> i < 8 \<Longrightarrow> bit (bits_byte x) i = x ! (7 - i)"
  by (simp add: bits_byte_def nat_of_bits_horner bit_horner_sum_bit_iff rev_nth bit_of_nat_iff)

lemma byte_bits_bits_byte: "length x = 8 \<Longrightarrow> byte_bits (bits_byte x) = x"
  by (rule nth_equalityI) (auto simp: byte_bits_def bit_bits_byte)

lemma bits_byte_byte_bits: "bits_byte (byte_bits w) = w"
proof (rule bit_word_eqI)
  fix n assume "n < LENGTH(8)"
  then have "n < 8" by simp
  moreover from this have "[0..<8] ! (7 - n) = 7 - n" by (subst nth_upt) auto
  ultimately show "bit (bits_byte (byte_bits w)) n = bit w n"
    by (simp add: bit_bits_byte byte_bits_def)
qed

lemma length_byte_bits [simp]: "length (byte_bits w) = 8"
  by (simp add: byte_bits_def)

lemma length_block_bits [simp]: "length (block_bits b) = 8 * length b"
  by (induction b) (simp_all add: block_bits_def)

lemma length_bits_block [simp]: "length (bits_block n x) = n"
  by (induction n arbitrary: x) simp_all

lemma bits_block_block_bits: "bits_block (length b) (block_bits b) = b"
  by (induction b) (simp_all add: block_bits_def bits_byte_byte_bits)

lemma block_bits_bits_block: "length x = 8 * n \<Longrightarrow> block_bits (bits_block n x) = x"
  by (induction n arbitrary: x) (simp_all add: block_bits_def byte_bits_bits_byte)

lemma length_desEncryptBlock [simp]: "length (desEncryptBlock key b) = 8"
  by (simp add: desEncryptBlock_def)

lemma length_desDecryptBlock [simp]: "length (desDecryptBlock key b) = 8"
  by (simp add: desDecryptBlock_def)

lemma des_roundtrip:
  assumes "length b = 8"
  shows "desDecryptBlock key (desEncryptBlock key b) = b"
  using assms bits_block_block_bits [of b]
  by (simp add: desDecryptBlock_def desEncryptBlock_def block_bits_bits_block cryptBlock_rev)

section \<open>Padding\<close>

datatype crypto_error = KeySizeError nat | NeedMultipleOfBlocksize | InputNotFullBlocks

definition BlockSize :: nat where "BlockSize = 8"

definition PKCS5Padding :: "bytes \<Rightarrow> nat \<Rightarrow> bytes" where
  "PKCS5Padding encryptedData blockSize =
     (let padding = blockSize - length encryptedData mod blockSize in
      encryptedData @ replicate padding (word_of_nat padding))"

definition PKCS5UnPadding :: "bytes \<Rightarrow> (crypto_error, bytes) outcome" where
  "PKCS5UnPadding plainData =
     (if plainData = [] then Panic
      else (let len = length plainData; unpadding = unat (last plainData) in
            if unpadding > len then Panic else Return (take (len - unpadding) plainData)))"

section \<open>ECB\<close>

text \<open>\<open>des.NewCipher\<close> accepts keys of eight bytes.\<close>

definition NewCipher :: "bytes \<Rightarrow> (crypto_error, bytes) outcome" where
  "NewCipher key = (if length key = 8 then Return key else Error (KeySizeError (length key)))"

function cryptBlocks :: "(bytes \<Rightarrow> bytes) \<Rightarrow> bytes \<Rightarrow> bytes" where
  "cryptBlocks f data =
     (if length data > 0 then f (take BlockSize data) @ cryptBlocks f (drop BlockSize data) else [])"
  by pat_completeness auto

termination cryptBlocks
  by (relation "measure (length \<circ> snd)") (auto simp: BlockSize_def)

declare cryptBlocks.simps [simp del]

definition DesEncrypt :: "bytes \<Rightarrow> string \<Rightarrow> (crypto_error, bytes) outcome" where
  "DesEncrypt data key =
     bind_outcome (NewCipher (bytes_of key)) (\<lambda>block.
       let data' = PKCS5Padding data BlockSize in
       if length data' mod BlockSize \<noteq> 0 then Error NeedMultipleOfBlocksize
       else Return (cryptBlocks (desEncryptBlock block) data'))"

definition DesDecrypt :: "bytes \<Rightarrow> string \<Rightarrow> (crypto_error, bytes) outcome" where
  "DesDecrypt data key =
     bind_outcome (NewCipher (bytes_of key)) (\<lambda>block.
       if length data mod BlockSize \<noteq> 0 then Error InputNotFullBlocks
       else PKCS5UnPadding (cryptBlocks (desDecryptBlock block) data))"

section \<open>CBC\<close>

definition xor_bytes :: "bytes \<Rightarrow> bytes \<Rightarrow> bytes" where
  "xor_bytes x y = map2 xor x y"

function cbcEncrypt :: "(bytes \<Rightarrow> bytes) \<Rightarrow> bytes \<Rightarrow> bytes \<Rightarrow> bytes" where
  "cbcEncrypt f iv data =
     (if length data > 0
      then (let c = f (xor_bytes (take BlockSize data) iv) in c @ cbcEncrypt f c (drop BlockSize data))
      else [])"
  by pat_completeness auto

termination cbcEncrypt
  by (relation "measure (\<lambda>(f, iv, data). length data)") (auto simp: BlockSize_def)

function cbcDecrypt :: "(bytes \<Rightarrow> bytes) \<Rightarrow> bytes \<Rightarrow> bytes \<Rightarrow> bytes" where
  "cbcDecrypt g iv data =
     (if length data > 0
      then xor_bytes (g (take BlockSize data)) iv @
           cbcDecrypt g (take BlockSize data) (drop BlockSize data)
      else [])"
  by pat_completeness auto

termination cbcDecrypt
  by (relation "measure (\<lambda>(g, iv, data). length data)") (auto simp: BlockSize_def)

declare cbcEncrypt.simps [simp del] cbcDecrypt.simps [simp del]

text \<open>\<open>fmt.Sprintf("%X", out)\<close> and \<open>hex.DecodeString\<close>.\<close>

definition hex_digit :: "nat \<Rightarrow> char" where
  "hex_digit v = ''0123456789ABCDEF'' ! v"

definition fmt_X :: "bytes \<Rightarrow> string" where
  "fmt_X b = concat (map (\<lambda>w. [hex_digit (unat w div 16), hex_digit (unat w mod 16)]) b)"

definition fromHexChar :: "char \<Rightarrow> nat option" where
  "fromHexChar c =
     (let n = (of_char c :: nat) in
      if 48 \<le> n \<and> n \<le> 57 then Some (n - 48)
      else if 97 \<le> n \<and> n \<le> 102 then Some (n - 97 + 10)
      else if 65 \<le> n \<and> n \<le> 70 then Some (n - 65 + 10)
      else None)"

fun hexDecodeString :: "string \<Rightarrow> bytes option" where
  "hexDecodeString [] = Some []"
| "hexDecodeString [c] = None"
| "hexDecodeString (c # d # s) =
     (case (fromHexChar c, fromHexChar d, hexDecodeString s) of
        (Some a, Some b, Some r) \<Rightarrow> Some (word_of_nat (16 * a + b) # r)
      | _ \<Rightarrow> None)"

text \<open>Both CBC functions turn every error into a panic; \<open>crypto_error\<close> is never returned.\<close>

definition panic_on_error :: "('e, 'a) outcome \<Rightarrow> ('e, 'a) outcome" where
  "panic_on_error r = (case r of Error _ \<Rightarrow> Panic | _ \<Rightarrow> r)"

definition DesCBCEncrypt :: "string \<Rightarrow> string \<Rightarrow> (crypto_error, string) outcome" where
  "DesCBCEncrypt src key =
     (let keyByte = bytes_of key in
      bind_outcome (panic_on_error (NewCipher keyByte)) (\<lambda>block.
        Return (fmt_X (cbcEncrypt (desEncryptBlock block) keyByte
          (PKCS5Padding (bytes_of src) BlockSize)))))"

definition DesCBCDecrypt :: "string \<Rightarrow> string \<Rightarrow> (crypto_error, string) outcome" where
  "DesCBCDecrypt src key =
     (let keyByte = bytes_of key in
      case hexDecodeString src of
        None \<Rightarrow> Panic
      | Some data \<Rightarrow>
          bind_outcome (panic_on_error (NewCipher keyByte)) (\<lambda>block.
            if length data mod BlockSize \<noteq> 0 then Panic
            else bind_outcome (PKCS5UnPadding (cbcDecrypt (desDecryptBlock block) keyByte data))
                   (\<lambda>plaintext. Return (string_of plaintext))))"

section \<open>Round trips\<close>

lemma PKCS5Padding_length:
  "length (PKCS5Padding d BlockSize) = (length d div 8 + 1) * 8"
proof -
  have "length d + (8 - length d mod 8) = (length d div 8 + 1) * 8"
    by presburger
  then show ?thesis by (simp add: PKCS5Padding_def BlockSize_def Let_def)
qed

lemma PKCS5UnPadding_Padding: "PKCS5UnPadding (PKCS5Padding d BlockSize) = Return d"
proof -
  have "length d mod 8 < 8" by simp
  then obtain p where p: "8 - length d mod 8 = Suc p" "p < 8"
    by (cases "8 - length d mod 8") auto
  then have "unat (word_of_nat (Suc p) :: byte) = Suc p"
    by (subst unat_of_nat) simp
  with p show ?thesis
    by (simp add: PKCS5Padding_def PKCS5UnPadding_def BlockSize_def Let_def)
qed

lemma cryptBlocks_Nil [simp]: "cryptBlocks f [] = []"
  by (simp add: cryptBlocks.simps)

lemma cryptBlocks_block: "length b = 8 \<Longrightarrow> cryptBlocks f (b @ r) = f b @ cryptBlocks f r"
  by (subst cryptBlocks.simps) (auto simp: BlockSize_def)

lemma full_blocks_induct [consumes 1, case_names Nil block]:
  assumes "length d mod 8 = 0"
    and "P []" and "\<And>b r. length b = 8 \<Longrightarrow> length r mod 8 = 0 \<Longrightarrow> P r \<Longrightarrow> P (b @ r)"
  shows "P (d :: bytes)"
  using assms(1)
proof (induction "length d" arbitrary: d rule: less_induct)
  case less
  show ?case
  proof (cases "d = []")
    case False
    then have "8 \<le> length d" using less.prems
      by (metis dvd_imp_le length_greater_0_conv mod_0_imp_dvd)
    then have "length (take 8 d) = 8" "length (drop 8 d) mod 8 = 0" "length (drop 8 d) < length d"
      using less.prems by (auto simp: mod_if)
    then have "P (take 8 d @ drop 8 d)" by (intro assms(3) less.hyps) auto
    then show ?thesis by simp
  qed (simp add: assms(2))
qed

lemma length_cryptBlocks:
  assumes "length d mod 8 = 0" and "\<And>b. length (f b) = 8"
  shows "length (cryptBlocks f d) = length d"
  using assms(1) by (induction rule: full_blocks_induct) (simp_all add: cryptBlocks_block assms(2))

lemma cryptBlocks_roundtrip:
  assumes "length d mod 8 = 0"
    and "\<And>b. length (f b) = 8" and "\<And>b. length b = 8 \<Longrightarrow> g (f b) = b"
  shows "cryptBlocks g (cryptBlocks f d) = d"
  using assms(1) by (induction rule: full_blocks_induct) (simp_all add: cryptBlocks_block assms(2,3))

lemma DesDecrypt_DesEncrypt:
  assumes "length key = 8"
  shows "DesEncrypt d key = Return (cryptBlocks (desEncryptBlock (bytes_of key)) (PKCS5Padding d BlockSize))"
    and "DesEncrypt d key = Return c \<Longrightarrow> DesDecrypt c key = Return d"
    and "DesEncrypt d key = Return c \<Longrightarrow> length c = (length d div 8 + 1) * 8"
proof -
  have full: "length (PKCS5Padding d BlockSize) mod 8 = 0"
    by (simp only: PKCS5Padding_length mod_mult_self2_is_0)
  then show E: "DesEncrypt d key =
      Return (cryptBlocks (desEncryptBlock (bytes_of key)) (PKCS5Padding d BlockSize))"
    using assms by (simp add: DesEncrypt_def NewCipher_def BlockSize_def)
  assume "DesEncrypt d key = Return c"
  with E have c: "c = cryptBlocks (desEncryptBlock (bytes_of key)) (PKCS5Padding d BlockSize)"
    by simp
  then have len: "length c = length (PKCS5Padding d BlockSize)"
    using full by (simp add: length_cryptBlocks)
  then show "length c = (length d div 8 + 1) * 8" by (simp only: PKCS5Padding_length)
  have "cryptBlocks (desDecryptBlock (bytes_of key)) c = PKCS5Padding d BlockSize"
    unfolding c using full by (intro cryptBlocks_roundtrip) (simp_all add: des_roundtrip)
  with assms len full show "DesDecrypt c key = Return d"
    using PKCS5UnPadding_Padding [of d]
    by (simp add: DesDecrypt_def NewCipher_def BlockSize_def)
qed

text \<open>
  ECB decryption inverts encryption: for a key of eight bytes and any data, the empty one
  included, \<open>DesEncrypt\<close> succeeds, its output is a whole number of blocks, one to eight bytes
  longer than the data, and \<open>DesDecrypt\<close> with that key returns the data.
\<close>

lemma DesDecrypt_inverts_DesEncrypt:
  assumes "length key = 8"
  shows "\<exists>c. DesEncrypt d key = Return c \<and> DesDecrypt c key = Return d
    \<and> length c = (length d div 8 + 1) * 8"
  using DesDecrypt_DesEncrypt [OF assms] by blast

lemma DesDecrypt_inverts_DesEncrypt_witness:
  "\<exists>c. DesEncrypt [104, 101, 108, 108, 111] ''MFRGGZDF'' = Return c
     \<and> DesDecrypt c ''MFRGGZDF'' = Return [104, 101, 108, 108, 111] \<and> length c = 8"
  using DesDecrypt_inverts_DesEncrypt [of "''MFRGGZDF''" "[104, 101, 108, 108, 111]"] by simp

text \<open>
  Exactly when \<open>DesDecrypt\<close> panics: with an eight-byte key, on the empty input, and on a
  whole number of blocks whose decrypted last byte is larger than the input is long. All other
  inputs give the plaintext or one of the two errors.
\<close>

lemma DesDecrypt_Panic_iff:
  "DesDecrypt data key = Panic \<longleftrightarrow>
     length key = 8 \<and> length data mod 8 = 0 \<and>
     (data = [] \<or>
      unat (last (cryptBlocks (desDecryptBlock (bytes_of key)) data)) > length data)"
proof (cases "length key = 8 \<and> length data mod 8 = 0")
  case True
  then have "length (cryptBlocks (desDecryptBlock (bytes_of key)) data) = length data"
    by (simp add: length_cryptBlocks)
  moreover from this have
    "cryptBlocks (desDecryptBlock (bytes_of key)) data = [] \<longleftrightarrow> data = []"
    by (metis length_0_conv)
  ultimately show ?thesis using True
    by (simp add: DesDecrypt_def NewCipher_def PKCS5UnPadding_def BlockSize_def Let_def)
next
  case False
  then show ?thesis
    by (auto simp: DesDecrypt_def NewCipher_def BlockSize_def)
qed

section \<open>The CBC round trip\<close>

lemma length_xor_bytes [simp]: "length (xor_bytes x y) = min (length x) (length y)"
  by (simp add: xor_bytes_def)

lemma xor_bytes_cancel: "length x = length y \<Longrightarrow> xor_bytes (xor_bytes x y) y = x"
  by (rule nth_equalityI) (auto simp: xor_bytes_def xor.assoc)

lemma cbcEncrypt_Nil [simp]: "cbcEncrypt f iv [] = []"
  by (simp add: cbcEncrypt.simps)

lemma cbcDecrypt_Nil [simp]: "cbcDecrypt g iv [] = []"
  by (simp add: cbcDecrypt.simps)

lemma cbcEncrypt_block:
  "length b = 8 \<Longrightarrow>
     cbcEncrypt f iv (b @ r) = f (xor_bytes b iv) @ cbcEncrypt f (f (xor_bytes b iv)) r"
  by (subst cbcEncrypt.simps) (auto simp: BlockSize_def Let_def)

lemma cbcDecrypt_block:
  "length b = 8 \<Longrightarrow> cbcDecrypt g iv (b @ r) = xor_bytes (g b) iv @ cbcDecrypt g b r"
  by (subst cbcDecrypt.simps) (auto simp: BlockSize_def)

lemma cbc_roundtrip:
  assumes "length d mod 8 = 0" and "length iv = 8"
    and "\<And>b. length (f b) = 8" and "\<And>b. length b = 8 \<Longrightarrow> g (f b) = b"
  shows "cbcDecrypt g iv (cbcEncrypt f iv d) = d \<and> length (cbcEncrypt f iv d) = length d"
  using assms(1,2)
  by (induction arbitrary: iv rule: full_blocks_induct)
     (simp_all add: cbcEncrypt_block cbcDecrypt_block assms(3,4) xor_bytes_cancel)

lemma hex_digits_read: "list_all (\<lambda>v. fromHexChar (hex_digit v) = Some v) [0..<16]"
  by code_simp

lemma fromHexChar_hex_digit: "v < 16 \<Longrightarrow> fromHexChar (hex_digit v) = Some v"
  using hex_digits_read by (simp add: list_all_iff)

lemma hexDecode_fmt_X: "hexDecodeString (fmt_X b) = Some b"
proof (induction b)
  case (Cons w b)
  have "unat w < 256" using unsigned_less [of w] by simp
  then have "fromHexChar (hex_digit (unat w div 16)) = Some (unat w div 16)"
    "fromHexChar (hex_digit (unat w mod 16)) = Some (unat w mod 16)"
    by (simp_all add: fromHexChar_hex_digit)
  moreover have "word_of_nat (16 * (unat w div 16) + unat w mod 16) = w"
    by simp
  ultimately show ?case using Cons by (simp add: fmt_X_def)
qed (simp add: fmt_X_def)

text \<open>
  CBC decryption of the hexadecimal text that \<open>DesCBCEncrypt\<close> produces gives the plain
  text for every key of eight bytes; with a key of another length the encryption panics, and so
  does the decryption of any text.
\<close>

lemma DesCBCDecrypt_inverts_DesCBCEncrypt:
  "(if length key = 8
    then \<exists>c. DesCBCEncrypt src key = Return c \<and> DesCBCDecrypt c key = Return src
    else DesCBCEncrypt src key = Panic \<and> (\<forall>c. DesCBCDecrypt c key = Panic))"
proof (cases "length key = 8")
  case True
  let ?d = "PKCS5Padding (bytes_of src) BlockSize"
  have full: "length ?d mod 8 = 0"
    by (simp only: PKCS5Padding_length mod_mult_self2_is_0)
  have "cbcDecrypt (desDecryptBlock (bytes_of key)) (bytes_of key)
      (cbcEncrypt (desEncryptBlock (bytes_of key)) (bytes_of key) ?d) = ?d \<and>
    length (cbcEncrypt (desEncryptBlock (bytes_of key)) (bytes_of key) ?d) = length ?d"
    using full True by (intro cbc_roundtrip) (simp_all add: des_roundtrip)
  with True full show ?thesis
    using PKCS5UnPadding_Padding [of "bytes_of src"]
    by (simp add: DesCBCEncrypt_def DesCBCDecrypt_def NewCipher_def panic_on_error_def
        hexDecode_fmt_X BlockSize_def Let_def)
next
  case False
  then show ?thesis
    by (simp add: DesCBCEncrypt_def DesCBCDecrypt_def NewCipher_def panic_on_error_def Let_def
        split: option.splits)
qed

end
