(* ===== verification/Gate_Session.thy ===== *)
theory Gate_Session
  imports Gira_Prelude
begin

text \<open>
  The session of a gateway connection, \<open>gate/session.go\<close>: its id, the user bound to it, the
  secret of its connection and a map of user values read back through typed accessors. Every
  method that touches the map holds the session's lock, so each is one function on the state.
  An \<open>interface{}\<close> is a value of the datatype \<open>any\<close>, whose constructors are the dynamic types
  the accessors test for; floating-point values are carried as their bit patterns. \<open>State\<close>
  hands out the map itself and \<open>Restore\<close> keeps the map it is given: the model has the values,
  not the sharing.

  The lemmas: a history of operations is read back by \<open>Value\<close>, \<open>HasKey\<close> and the accessors as
  the last write says; writing panics exactly after \<open>Restore(nil)\<close>; the bound user id is never
  negative; session ids of different servers never collide below the bounds.
\<close>

section \<open>Data\<close>

datatype any =
    Nil_any
  | VInt "64 word" | VInt8 "8 word" | VInt16 "16 word" | VInt32 "32 word" | VInt64 "64 word"
  | VUint "64 word" | VUint8 "8 word" | VUint16 "16 word" | VUint32 "32 word" | VUint64 "64 word"
  | VFloat32 "32 word" | VFloat64 "64 word" | VString string | VOther nat

text \<open>\<open>sData\<close> is \<open>None\<close> for the nil map: reading it is reading an empty map, writing it panics.\<close>

record session =
  sId :: u64
  sUid :: "64 word"
  sLastTime :: int
  sData :: "(string \<rightharpoonup> any) option"
  sSecret :: string
  sUserData :: any

datatype session_error = ErrIllegalUID

text \<open>\<open>sid\<close> is the package's counter: a new session takes the next number.\<close>

definition newSession :: "u64 \<Rightarrow> u64 \<Rightarrow> int \<Rightarrow> session \<times> u64" where
  "newSession sid sessionModifer now =
     (let sid' = sid + 1 in
      (\<lparr>sId = sid' + sessionModifer, sUid = 0, sLastTime = now, sData = Some Map.empty,
        sSecret = [], sUserData = Nil_any\<rparr>, sid'))"

section \<open>Operations\<close>

definition getSecret :: "session \<Rightarrow> string" where "getSecret s = sSecret s"

definition setSecret :: "string \<Rightarrow> session \<Rightarrow> session" where
  "setSecret key s = s\<lparr>sSecret := key\<rparr>"

definition Id :: "session \<Rightarrow> u64" where "Id s = sId s"

definition UID :: "session \<Rightarrow> 64 word" where "UID s = sUid s"

definition Bind :: "64 word \<Rightarrow> session \<Rightarrow> session \<times> (session_error, unit) outcome" where
  "Bind uid s = (if sint uid < 1 then (s, Error ErrIllegalUID) else (s\<lparr>sUid := uid\<rparr>, Return ()))"

definition data_map :: "session \<Rightarrow> string \<rightharpoonup> any" where
  "data_map s = (case sData s of None \<Rightarrow> Map.empty | Some d \<Rightarrow> d)"

definition Remove :: "string \<Rightarrow> session \<Rightarrow> session" where
  "Remove key s = s\<lparr>sData := map_option (\<lambda>d. d(key := None)) (sData s)\<rparr>"

definition SetUserData :: "any \<Rightarrow> session \<Rightarrow> session" where
  "SetUserData v s = s\<lparr>sUserData := v\<rparr>"

definition Set_value :: "string \<Rightarrow> any \<Rightarrow> session \<Rightarrow> (session_error, session) outcome" where
  "Set_value key v s =
     (case sData s of None \<Rightarrow> Panic | Some d \<Rightarrow> Return (s\<lparr>sData := Some (d(key \<mapsto> v))\<rparr>))"

definition HasKey :: "session \<Rightarrow> string \<Rightarrow> bool" where
  "HasKey s key \<longleftrightarrow> data_map s key \<noteq> None"

definition Int_value :: "session \<Rightarrow> string \<Rightarrow> 64 word" where
  "Int_value s key = (case data_map s key of Some (VInt v) \<Rightarrow> v | _ \<Rightarrow> 0)"

definition Int8 :: "session \<Rightarrow> string \<Rightarrow> 8 word" where
  "Int8 s key = (case data_map s key of Some (VInt8 v) \<Rightarrow> v | _ \<Rightarrow> 0)"

definition Int16 :: "session \<Rightarrow> string \<Rightarrow> 16 word" where
  "Int16 s key = (case data_map s key of Some (VInt16 v) \<Rightarrow> v | _ \<Rightarrow> 0)"

definition Int32 :: "session \<Rightarrow> string \<Rightarrow> 32 word" where
  "Int32 s key = (case data_map s key of Some (VInt32 v) \<Rightarrow> v | _ \<Rightarrow> 0)"

definition Int64 :: "session \<Rightarrow> string \<Rightarrow> 64 word" where
  "Int64 s key = (case data_map s key of Some (VInt64 v) \<Rightarrow> v | _ \<Rightarrow> 0)"

definition Uint :: "session \<Rightarrow> string \<Rightarrow> 64 word" where
  "Uint s key = (case data_map s key of Some (VUint v) \<Rightarrow> v | _ \<Rightarrow> 0)"

definition Uint8 :: "session \<Rightarrow> string \<Rightarrow> 8 word" where
  "Uint8 s key = (case data_map s key of Some (VUint8 v) \<Rightarrow> v | _ \<Rightarrow> 0)"

definition Uint16 :: "session \<Rightarrow> string \<Rightarrow> 16 word" where
  "Uint16 s key = (case data_map s key of Some (VUint16 v) \<Rightarrow> v | _ \<Rightarrow> 0)"

definition Uint32 :: "session \<Rightarrow> string \<Rightarrow> 32 word" where
  "Uint32 s key = (case data_map s key of Some (VUint32 v) \<Rightarrow> v | _ \<Rightarrow> 0)"

definition Uint64 :: "session \<Rightarrow> string \<Rightarrow> 64 word" where
  "Uint64 s key = (case data_map s key of Some (VUint64 v) \<Rightarrow> v | _ \<Rightarrow> 0)"

definition Float32 :: "session \<Rightarrow> string \<Rightarrow> 32 word" where
  "Float32 s key = (case data_map s key of Some (VFloat32 v) \<Rightarrow> v | _ \<Rightarrow> 0)"

definition Float64 :: "session \<Rightarrow> string \<Rightarrow> 64 word" where
  "Float64 s key = (case data_map s key of Some (VFloat64 v) \<Rightarrow> v | _ \<Rightarrow> 0)"

definition String_value :: "session \<Rightarrow> string \<Rightarrow> string" where
  "String_value s key = (case data_map s key of Some (VString v) \<Rightarrow> v | _ \<Rightarrow> [])"

definition Value :: "session \<Rightarrow> string \<Rightarrow> any" where
  "Value s key = (case data_map s key of None \<Rightarrow> Nil_any | Some v \<Rightarrow> v)"

definition UserData :: "session \<Rightarrow> any" where "UserData s = sUserData s"

definition State :: "session \<Rightarrow> (string \<rightharpoonup> any) option" where "State s = sData s"

definition Restore :: "(string \<rightharpoonup> any) option \<Rightarrow> session \<Rightarrow> session" where
  "Restore d s = s\<lparr>sData := d\<rparr>"

definition Clear :: "session \<Rightarrow> session" where
  "Clear s = s\<lparr>sUid := 0, sData := Some Map.empty\<rparr>"

section \<open>Histories\<close>

text \<open>The operations that change the map or the user, and a history of them.\<close>

datatype op =
    OpSet string any | OpRemove string | OpClear | OpRestore "(string \<rightharpoonup> any) option" | OpBind "64 word"

fun apply_op :: "op \<Rightarrow> session \<Rightarrow> (session_error, session) outcome" where
  "apply_op (OpSet k v) s = Set_value k v s"
| "apply_op (OpRemove k) s = Return (Remove k s)"
| "apply_op OpClear s = Return (Clear s)"
| "apply_op (OpRestore d) s = Return (Restore d s)"
| "apply_op (OpBind u) s = Return (fst (Bind u s))"

fun run_ops :: "op list \<Rightarrow> session \<Rightarrow> (session_error, session) outcome" where
  "run_ops [] s = Return s"
| "run_ops (p # ps) s = bind_outcome (apply_op p s) (run_ops ps)"

text \<open>The abstract session: what the latest operations say of one key and of the user.\<close>

fun key_after :: "op \<Rightarrow> string \<Rightarrow> any option \<Rightarrow> any option" where
  "key_after (OpSet k' v) k x = (if k' = k then Some v else x)"
| "key_after (OpRemove k') k x = (if k' = k then None else x)"
| "key_after OpClear k x = None"
| "key_after (OpRestore d) k x = (case d of None \<Rightarrow> None | Some m \<Rightarrow> m k)"
| "key_after (OpBind u) k x = x"

fun uid_after :: "op \<Rightarrow> 64 word \<Rightarrow> 64 word" where
  "uid_after OpClear u = 0"
| "uid_after (OpBind u') u = (if 1 \<le> sint u' then u' else u)"
| "uid_after _ u = u"

lemmas session_defs = Set_value_def Remove_def Clear_def Restore_def Bind_def data_map_def

lemma data_map_apply:
  "apply_op p s = Return t \<Longrightarrow> data_map t k = key_after p k (data_map s k)"
  by (cases p) (auto simp: session_defs split: option.splits if_splits)

lemma uid_apply: "apply_op p s = Return t \<Longrightarrow> sUid t = uid_after p (sUid s)"
  by (cases p) (auto simp: session_defs split: option.splits if_splits)

lemma run_ops_refines:
  "run_ops ps s = Return t \<Longrightarrow>
     data_map t k = fold (\<lambda>p. key_after p k) ps (data_map s k)
     \<and> sUid t = fold uid_after ps (sUid s)"
  by (induction ps arbitrary: s)
     (auto simp: bind_outcome_Return_iff data_map_apply uid_apply)

lemma run_ops_no_Error: "run_ops ps s \<noteq> Error e"
proof (induction ps arbitrary: s)
  case (Cons p ps)
  then show ?case
    by (cases p) (auto simp: Set_value_def split: option.splits)
qed simp

text \<open>
  A history of operations on a session is read back through \<open>HasKey\<close>, \<open>Value\<close> and the typed
  accessors as its last write says: a typed accessor returns the value written under its type
  and the zero value for a missing key or a value of another type; the bound user is the last
  legal one bound since the last \<open>Clear\<close>.
\<close>

lemma session_history:
  assumes "run_ops ps s = Return t"
  shows "let x = fold (\<lambda>p. key_after p k) ps (data_map s k) in
    (HasKey t k \<longleftrightarrow> x \<noteq> None) \<and> Value t k = (case x of None \<Rightarrow> Nil_any | Some v \<Rightarrow> v)
    \<and> Int_value t k = (case x of Some (VInt v) \<Rightarrow> v | _ \<Rightarrow> 0)
    \<and> Int32 t k = (case x of Some (VInt32 v) \<Rightarrow> v | _ \<Rightarrow> 0)
    \<and> Int64 t k = (case x of Some (VInt64 v) \<Rightarrow> v | _ \<Rightarrow> 0)
    \<and> Uint64 t k = (case x of Some (VUint64 v) \<Rightarrow> v | _ \<Rightarrow> 0)
    \<and> String_value t k = (case x of Some (VString v) \<Rightarrow> v | _ \<Rightarrow> [])
    \<and> UID t = fold uid_after ps (UID s)"
  using run_ops_refines [OF assms(1), of k]
  by (simp add: Let_def HasKey_def Value_def Int_value_def Int32_def Int64_def Uint64_def
      String_value_def UID_def)

lemma session_history_witness:
  "\<exists>t. run_ops [OpSet ''level'' (VInt 7), OpBind 42, OpSet ''name'' (VString ''bob''), OpBind 0]
      (fst (newSession 0 0 0)) = Return t
    \<and> Int_value t ''level'' = 7 \<and> Int64 t ''level'' = 0 \<and> String_value t ''name'' = ''bob'' \<and> UID t = 42"
proof -
  let ?ps = "[OpSet ''level'' (VInt 7), OpBind 42, OpSet ''name'' (VString ''bob''), OpBind 0]"
  obtain t where t: "run_ops ?ps (fst (newSession 0 0 0)) = Return t"
    by (simp add: newSession_def session_defs)
  show ?thesis
    using t session_history [OF t, of "''level''"] session_history [OF t, of "''name''"]
    by (simp add: newSession_def UID_def)
qed

text \<open>When the map is nil, and when a history writes it then.\<close>

fun nil_after :: "op \<Rightarrow> bool \<Rightarrow> bool" where
  "nil_after OpClear b = False"
| "nil_after (OpRestore d) b = (d = None)"
| "nil_after _ b = b"

fun writes_nil :: "bool \<Rightarrow> op list \<Rightarrow> bool" where
  "writes_nil b [] = False"
| "writes_nil b (p # ps) =
     ((case p of OpSet _ _ \<Rightarrow> b | _ \<Rightarrow> False) \<or> writes_nil (nil_after p b) ps)"

text \<open>
  A history of operations on a session with a map panics exactly when a write follows a
  \<open>Restore(nil)\<close> with no other \<open>Restore\<close> or \<open>Clear\<close> between them, and never otherwise.
\<close>

lemma session_Panic_iff:
  "run_ops ps s = Panic \<longleftrightarrow> writes_nil (sData s = None) ps"
proof (induction ps arbitrary: s)
  case (Cons p ps)
  then show ?case
    by (cases p) (auto simp: session_defs split: option.splits)
qed simp

text \<open>
  The user id of a session is never negative, and is zero exactly while no user is bound:
  on every history from a new session the id is zero or a legal one, and \<open>Bind\<close> rejects all
  others without changing the session.
\<close>

lemma UID_legal:
  "run_ops ps (fst (newSession sid sessionModifer now)) = Return t \<Longrightarrow>
     UID t = 0 \<or> (1 \<le> sint (UID t) \<and> OpBind (UID t) \<in> set ps)"
proof -
  have "fold uid_after ps u = u \<or> fold uid_after ps u = 0
      \<or> (1 \<le> sint (fold uid_after ps u) \<and> OpBind (fold uid_after ps u) \<in> set ps)" for u
  proof (induction ps arbitrary: u)
    case (Cons p ps)
    have "uid_after p u = u \<or> uid_after p u = 0
        \<or> (1 \<le> sint (uid_after p u) \<and> p = OpBind (uid_after p u))"
      by (cases p) auto
    with Cons [of "uid_after p u"] show ?case by auto
  qed simp
  moreover assume "run_ops ps (fst (newSession sid sessionModifer now)) = Return t"
  ultimately show ?thesis
    using run_ops_refines [of ps "fst (newSession sid sessionModifer now)" t "[]"]
    by (auto simp: UID_def newSession_def Let_def)
qed

lemma UID_legal_witness:
  "\<exists>t. run_ops [OpBind 5, OpBind (-1)] (fst (newSession 0 0 0)) = Return t
     \<and> (UID t = 0 \<or> (1 \<le> sint (UID t) \<and> OpBind (UID t) \<in> set [OpBind 5, OpBind (-1)]))"
proof -
  obtain t where "run_ops [OpBind 5, OpBind (-1)] (fst (newSession 0 0 0)) = Return t"
    by (simp add: newSession_def session_defs)
  with UID_legal [OF this] show ?thesis by blast
qed

section \<open>Session ids\<close>

text \<open>The sessions a server creates one after the other, from the counter \<open>sid\<close>.\<close>

fun new_ids :: "nat \<Rightarrow> u64 \<Rightarrow> u64 \<Rightarrow> u64 list" where
  "new_ids 0 sid modifer = []"
| "new_ids (Suc n) sid modifer =
     (let (s, sid') = newSession sid modifer 0 in Id s # new_ids n sid' modifer)"

lemma new_ids_nth: "i < n \<Longrightarrow> new_ids n sid m ! i = sid + word_of_nat (Suc i) + m"
  by (induction n arbitrary: sid i)
     (auto simp: newSession_def Id_def Let_def nth_Cons algebra_simps split: nat.splits)

text \<open>
  Servers whose application ids differ and fit in 16 bits never give two sessions the same
  id while each has created fewer than \<open>2 ^ 48\<close> of them, and within one server ids are distinct:
  the modifier of \<open>NewConfigServer\<close> is the application id shifted by 48.
\<close>

lemma session_ids_distinct:
  assumes "a < 2 ^ 16" and "b < 2 ^ 16" and "i < n" and "j < n" and "n < 2 ^ 48"
    and "new_ids n 0 (push_bit 48 (word_of_nat a)) ! i = new_ids n 0 (push_bit 48 (word_of_nat b)) ! j"
  shows "a = b \<and> i = j"
proof -
  have val: "unat (word_of_nat (Suc k) + push_bit 48 (word_of_nat c) :: u64) = Suc k + c * 2 ^ 48"
    if "k < n" "c < 2 ^ 16" for k c
  proof -
    have "Suc k + c * 2 ^ 48 < 2 ^ 64" using that assms(5) by simp
    moreover have "(word_of_nat (Suc k) + push_bit 48 (word_of_nat c) :: u64)
        = word_of_nat (Suc k + c * 2 ^ 48)"
      by (simp add: push_bit_eq_mult)
    ultimately show ?thesis by (simp only: unat_of_nat) simp
  qed
  have "Suc i + a * 2 ^ 48 = Suc j + b * 2 ^ 48"
    using assms(6) unfolding new_ids_nth [OF assms(3)] new_ids_nth [OF assms(4)] add_0
    by (metis val [OF assms(3,1)] val [OF assms(4,2)])
  moreover have "i < 2 ^ 48" "j < 2 ^ 48" using assms(3-5) by auto
  ultimately have "(i + a * 2 ^ 48) mod 2 ^ 48 = (j + b * 2 ^ 48) mod 2 ^ 48" "i + a * 2 ^ 48 = j + b * 2 ^ 48"
    by simp_all
  with \<open>i < 2 ^ 48\<close> \<open>j < 2 ^ 48\<close> show ?thesis by simp
qed

lemma session_ids_distinct_witness:
  "new_ids 3 0 (push_bit 48 1) ! 2 \<noteq> new_ids 3 0 (push_bit 48 2) ! 2"
  using session_ids_distinct [of 1 2 2 3 2] by auto

end
