(* ===== verification/Go_Chan.thy ===== *)
theory Go_Chan
  imports Gira_Prelude
begin

text \<open>
  Go channels, as the connections of the gateway use them: a buffered queue that can be closed.
  A nil channel is \<open>None\<close>: sending to it and receiving from it block for ever. Sending to a full
  channel and receiving from an empty open one block; sending to a closed one panics, receiving
  from it drains what is queued and then gives the zero value. Capacities are positive (the
  backlogs of the configuration); the rendezvous of unbuffered channels is not modelled.

  The locale \<open>fifo\<close> states what the components rely on: nothing is lost, duplicated or reordered.
  The channel operations interpret it.
\<close>

record 'a chan =
  chCap :: nat
  chQueue :: "'a list"
  chClosed :: bool

definition make_chan :: "nat \<Rightarrow> 'a chan" where
  "make_chan n = \<lparr>chCap = n, chQueue = [], chClosed = False\<rparr>"

datatype 'a sent = Sent 'a | SendBlocks | SendPanics

datatype 'a received = Received 'a "'a chan" | RecvClosed | RecvBlocks

definition chan_send :: "'a chan option \<Rightarrow> 'a \<Rightarrow> 'a chan sent" where
  "chan_send ch x =
     (case ch of
        None \<Rightarrow> SendBlocks
      | Some c \<Rightarrow>
          if chClosed c then SendPanics
          else if length (chQueue c) < chCap c then Sent (c\<lparr>chQueue := chQueue c @ [x]\<rparr>)
          else SendBlocks)"

definition chan_recv :: "'a chan option \<Rightarrow> 'a received" where
  "chan_recv ch =
     (case ch of
        None \<Rightarrow> RecvBlocks
      | Some c \<Rightarrow>
          (case chQueue c of
             x # xs \<Rightarrow> Received x (c\<lparr>chQueue := xs\<rparr>)
           | [] \<Rightarrow> if chClosed c then RecvClosed else RecvBlocks))"

text \<open>Closing a nil or a closed channel panics.\<close>

definition chan_close :: "'a chan option \<Rightarrow> 'a chan option" where
  "chan_close ch =
     (case ch of None \<Rightarrow> None | Some c \<Rightarrow> if chClosed c then None else Some (c\<lparr>chClosed := True\<rparr>))"

section \<open>Queues\<close>

locale fifo =
  fixes contents :: "'q \<Rightarrow> 'a list"
    and enq :: "'q \<Rightarrow> 'a \<Rightarrow> 'q option"
    and deq :: "'q \<Rightarrow> ('a \<times> 'q) option"
  assumes enq_contents: "enq q x = Some q' \<Longrightarrow> contents q' = contents q @ [x]"
    and deq_contents: "deq q = Some (x, q') \<Longrightarrow> contents q = x # contents q'"
begin

text \<open>What was taken out followed by what is inside is what was put in.\<close>

lemma enq_conserves:
  "out @ contents q = inp \<Longrightarrow> enq q x = Some q' \<Longrightarrow> out @ contents q' = inp @ [x]"
  by (auto dest: enq_contents)

lemma deq_conserves:
  "out @ contents q = inp \<Longrightarrow> deq q = Some (x, q') \<Longrightarrow> (out @ [x]) @ contents q' = inp"
  by (auto dest: deq_contents)

lemma deq_None_or_less: "deq q = Some (x, q') \<Longrightarrow> length (contents q') < length (contents q)"
  by (auto dest: deq_contents)

end

definition chan_contents :: "'a chan option \<Rightarrow> 'a list" where
  "chan_contents ch = (case ch of None \<Rightarrow> [] | Some c \<Rightarrow> chQueue c)"

definition chan_enq :: "'a chan option \<Rightarrow> 'a \<Rightarrow> 'a chan option option" where
  "chan_enq ch x = (case chan_send ch x of Sent c \<Rightarrow> Some (Some c) | _ \<Rightarrow> None)"

definition chan_deq :: "'a chan option \<Rightarrow> ('a \<times> 'a chan option) option" where
  "chan_deq ch = (case chan_recv ch of Received x c \<Rightarrow> Some (x, Some c) | _ \<Rightarrow> None)"

interpretation chan: fifo chan_contents chan_enq chan_deq
  by unfold_locales
     (auto simp: chan_contents_def chan_enq_def chan_deq_def chan_send_def chan_recv_def
       split: option.splits if_splits list.splits)

lemma chan_send_Sent: "chan_send ch x = Sent c \<Longrightarrow> chan_enq ch x = Some (Some c)"
  by (simp add: chan_enq_def)

lemma chan_recv_Received: "chan_recv ch = Received x c \<Longrightarrow> chan_deq ch = Some (x, Some c)"
  by (simp add: chan_deq_def)

lemmas chan_send_conserves = chan.enq_conserves [OF _ chan_send_Sent]
lemmas chan_recv_conserves = chan.deq_conserves [OF _ chan_recv_Received]

lemma chan_contents_Some [simp]: "chan_contents (Some c) = chQueue c"
  by (simp add: chan_contents_def)

lemma chan_contents_close: "chan_close ch = Some c \<Longrightarrow> chan_contents (Some c) = chan_contents ch"
  by (auto simp: chan_close_def chan_contents_def split: option.splits if_splits)

end
