(* ===== verification/Gate_Conn.thy ===== *)
theory Gate_Conn
  imports Packet Message Gate_Crypto Gate_Session Go_Chan
begin

text \<open>
  One connection of the gateway, \<open>gate/conn.go\<close>: the handshake, and the goroutines that serve
  an established connection. The reader decodes what it reads and puts messages into
  \<open>chMessage\<close>; the writer takes frames from \<open>chSend\<close> and watches the heartbeat; the handler calls
  \<open>Push\<close>, \<open>Response\<close>, \<open>Recv\<close> and \<open>Close\<close>; \<open>serve\<close> waits for all of them. A step of the model
  is one action of one goroutine; a goroutine that Go would block has no step.

  Parameters of the model, in \<open>conn_conf\<close>: what is not this repository's code (JSON coding of
  the handshake, RSA, the validator) and what the peer and the network do (events).
\<close>

section \<open>Errors, configuration, state\<close>

datatype conn_error =
    MessageError message_error | PacketError packet_error | CryptoError crypto_error
  | ErrBrokenPipe | ErrSessionOnNotify | ErrInvalidHandler | ErrInvalidMessage | ErrInvalidPacket
  | ErrHandShakeAck | ReadError | WriteError | UnmarshalError | RsaError | ValidatorError
  | ContextError

definition conn_status_start :: nat where [type_consts]: "conn_status_start = 1"
definition conn_status_handshake :: nat where [type_consts]: "conn_status_handshake = 2"
definition conn_status_working :: nat where [type_consts]: "conn_status_working = 3"
definition conn_status_closed :: nat where [type_consts]: "conn_status_closed = 4"

text \<open>
  What a connection reads of its server. \<open>cfHeartbeat\<close> is a \<open>time.Duration\<close> in nanoseconds;
  \<open>cfUnmarshal\<close> is \<open>json.Unmarshal\<close> into \<open>handShake_request\<close> (the token, or an error),
  \<open>cfHandshakeReply\<close> the JSON of the reply for a session id, \<open>cfRsaDecrypt\<close> is
  \<open>RsaDecryptWithSha1Base64\<close>.
\<close>

record conn_conf =
  cfHandler :: bool
  cfRsaKey :: string
  cfHeartbeat :: int
  cfSendBacklog :: nat
  cfRecvBacklog :: nat
  cfDictionary :: dictionary
  cfUnmarshal :: "bytes \<Rightarrow> string option"
  cfRsaDecrypt :: "string \<Rightarrow> string \<Rightarrow> string option"
  cfValidator :: "bytes \<Rightarrow> bool"
  cfHandshakeReply :: "u64 \<Rightarrow> bytes"

text \<open>\<open>gate/message.go\<close>: the message handed to the handler, with its session left implicit.\<close>

record gate_message =
  gRoute :: string
  gPayload :: bytes
  gReqId :: u64

record conn =
  cSession :: session
  cState :: nat
  cLastAt :: int
  cDecoder :: decoder
  cChSend :: "bytes chan option"
  cChMessage :: "gate_message chan option"
  cCancelled :: bool
  cSockOpen :: bool
  cWritten :: "bytes list"

definition newConn :: "session \<Rightarrow> int \<Rightarrow> conn" where
  "newConn s now =
     \<lparr>cSession = s, cState = conn_status_start, cLastAt = now, cDecoder = NewDecoder,
      cChSend = None, cChMessage = None, cCancelled = False, cSockOpen = True, cWritten = []\<rparr>"

definition heartbeat_packet :: bytes where
  "heartbeat_packet = (case Packet.Encode Heartbeat [] of Return b \<Rightarrow> b | _ \<Rightarrow> [])"

section \<open>Sending\<close>

definition serialize :: "session \<Rightarrow> bytes \<Rightarrow> (conn_error, bytes) outcome" where
  "serialize s d =
     (if getSecret s \<noteq> [] then map_error CryptoError (DesEncrypt d (getSecret s)) else Return d)"

text \<open>\<open>Push\<close> and \<open>Response\<close> log an error of \<open>serialize\<close> and go on with the nil payload.\<close>

definition payload_or_nil :: "session \<Rightarrow> bytes \<Rightarrow> bytes" where
  "payload_or_nil s d = (case serialize s d of Return p \<Rightarrow> p | _ \<Rightarrow> [])"

definition data_frame :: "dictionary \<Rightarrow> message \<Rightarrow> (conn_error, bytes) outcome" where
  "data_frame dic m =
     bind_outcome (map_error MessageError (Message.Encode dic m))
       (\<lambda>em. map_error PacketError (Packet.Encode DataPacket em))"

text \<open>The deferred \<open>recover\<close> of \<open>send\<close> turns the panic of a closed channel into an error; the
  result is \<open>None\<close> while the caller is blocked on a full channel.\<close>

definition send :: "bytes \<Rightarrow> conn \<Rightarrow> (conn \<times> (conn_error, unit) outcome) option" where
  "send d c =
     (case chan_send (cChSend c) d of
        Sent ch \<Rightarrow> Some (c\<lparr>cChSend := Some ch\<rparr>, Return ())
      | SendBlocks \<Rightarrow> None
      | SendPanics \<Rightarrow> Some (c, Error ErrBrokenPipe))"

definition send_frame ::
  "(conn_error, bytes) outcome \<Rightarrow> conn \<Rightarrow> (conn \<times> (conn_error, unit) outcome) option" where
  "send_frame r c =
     (case r of Return p \<Rightarrow> send p c | Error e \<Rightarrow> Some (c, Error e) | Panic \<Rightarrow> Some (c, Panic))"

text \<open>The route given to \<open>Push\<close> is not sent: the message has the empty route.\<close>

definition push_frame :: "dictionary \<Rightarrow> session \<Rightarrow> string \<Rightarrow> bytes \<Rightarrow> (conn_error, bytes) outcome" where
  "push_frame dic s route d =
     data_frame dic \<lparr>mType = Message.Push, mId = 0, mRoute = [], mData = payload_or_nil s d,
       mCompressed = False\<rparr>"

definition Push_conn ::
  "conn_conf \<Rightarrow> string \<Rightarrow> bytes \<Rightarrow> conn \<Rightarrow> (conn \<times> (conn_error, unit) outcome) option" where
  "Push_conn cf route d c = send_frame (push_frame (cfDictionary cf) (cSession c) route d) c"

definition response_frame :: "dictionary \<Rightarrow> session \<Rightarrow> u64 \<Rightarrow> bytes \<Rightarrow> (conn_error, bytes) outcome" where
  "response_frame dic s mid d =
     (if mid \<le> 0 then Error ErrSessionOnNotify
      else data_frame dic \<lparr>mType = Message.Response, mId = mid, mRoute = [],
             mData = payload_or_nil s d, mCompressed = False\<rparr>)"

definition Response_conn ::
  "conn_conf \<Rightarrow> u64 \<Rightarrow> bytes \<Rightarrow> conn \<Rightarrow> (conn \<times> (conn_error, unit) outcome) option" where
  "Response_conn cf mid d c = send_frame (response_frame (cfDictionary cf) (cSession c) mid d) c"

definition control_frame :: "byte \<Rightarrow> string \<Rightarrow> (conn_error, bytes) outcome" where
  "control_frame ty reason = map_error PacketError (Packet.Encode ty (bytes_of reason))"

definition Kick_conn :: "string \<Rightarrow> conn \<Rightarrow> (conn \<times> (conn_error, unit) outcome) option" where
  "Kick_conn reason c = send_frame (control_frame Packet.Kick reason) c"

definition SendServerSuspendPacket :: "string \<Rightarrow> conn \<Rightarrow> (conn \<times> (conn_error, unit) outcome) option" where
  "SendServerSuspendPacket reason c = send_frame (control_frame ServerSuspend reason) c"

definition SendServerResumePacket :: "string \<Rightarrow> conn \<Rightarrow> (conn \<times> (conn_error, unit) outcome) option" where
  "SendServerResumePacket reason c = send_frame (control_frame ServerResume reason) c"

definition SendServerDownPacket :: "string \<Rightarrow> conn \<Rightarrow> (conn \<times> (conn_error, unit) outcome) option" where
  "SendServerDownPacket reason c = send_frame (control_frame ServerDown reason) c"

definition SendServerMaintainPacket :: "string \<Rightarrow> conn \<Rightarrow> (conn \<times> (conn_error, unit) outcome) option" where
  "SendServerMaintainPacket reason c = send_frame (control_frame ServerMaintain reason) c"

definition Close_conn :: "conn \<Rightarrow> conn" where
  "Close_conn c =
     (if cState c = conn_status_closed then c
      else c\<lparr>cState := conn_status_closed, cCancelled := True\<rparr>)"

section \<open>Receiving\<close>

text \<open>
  \<open>processMessage\<close>: its deferred \<open>recover\<close> turns the panic of a bad padding, and of a closed
  \<open>chMessage\<close>, into \<open>ErrBrokenPipe\<close>. Without a handler it sets the error and still hands the
  message over. \<open>None\<close>: blocked on a full \<open>chMessage\<close>.
\<close>

definition message_payload :: "session \<Rightarrow> bytes \<Rightarrow> (conn_error, bytes) outcome" where
  "message_payload s d =
     (if getSecret s \<noteq> []
      then (case DesDecrypt d (getSecret s) of
              Return p \<Rightarrow> Return p | Error e \<Rightarrow> Error (CryptoError e) | Panic \<Rightarrow> Error ErrBrokenPipe)
      else Return d)"

definition processMessage ::
  "conn_conf \<Rightarrow> message \<Rightarrow> conn \<Rightarrow> (conn \<times> (conn_error, unit) outcome) option" where
  "processMessage cf m c =
     (if mType m \<noteq> Message.Request \<and> mType m \<noteq> Message.Notify then Some (c, Error ErrInvalidMessage)
      else
        (let reqId = (if mType m = Message.Request then mId m else 0) in
         case message_payload (cSession c) (mData m) of
           Return payload \<Rightarrow>
             (let r = \<lparr>gRoute = mRoute m, gPayload = payload, gReqId = reqId\<rparr> in
              case chan_send (cChMessage c) r of
                Sent ch \<Rightarrow> Some (c\<lparr>cChMessage := Some ch\<rparr>,
                                 if cfHandler cf then Return () else Error ErrInvalidHandler)
              | SendBlocks \<Rightarrow> None
              | SendPanics \<Rightarrow> Some (c, Error ErrBrokenPipe))
         | Error e \<Rightarrow> Some (c, Error e)
         | Panic \<Rightarrow> Some (c, Error ErrBrokenPipe)))"

text \<open>
  \<open>processPacket\<close>: \<open>spare\<close> are the bytes behind the packet's slice up to its capacity, as
  \<open>message.Decode\<close> takes them; a panic there is outside the \<open>recover\<close> of \<open>processMessage\<close>.
\<close>

definition processPacket ::
  "conn_conf \<Rightarrow> int \<Rightarrow> packet \<Rightarrow> bytes \<Rightarrow> conn \<Rightarrow> (conn \<times> (conn_error, unit) outcome) option" where
  "processPacket cf now p spare c0 =
     (let c = c0\<lparr>cLastAt := now\<rparr> in
      if pType p = DataPacket then
        (case Message.Decode (cfDictionary cf) (pData p) spare of
           Return m \<Rightarrow> processMessage cf m c
         | Error e \<Rightarrow> Some (c, Error (MessageError e))
         | Panic \<Rightarrow> Some (c, Panic))
      else if pType p = Heartbeat then Some (c, Return ())
      else Some (c, Error ErrInvalidPacket))"

text \<open>
  \<open>Recv\<close>: when a message is ready and the context is done, \<open>select\<close> takes either; \<open>first\<close> is
  its choice.
\<close>

definition Recv_conn ::
  "bool \<Rightarrow> bool \<Rightarrow> conn \<Rightarrow> (conn \<times> (conn_error, gate_message) outcome) option" where
  "Recv_conn ctx_done first c =
     (if ctx_done \<and> first then Some (c, Error ContextError)
      else
        (case chan_recv (cChMessage c) of
           Received m ch \<Rightarrow> Some (c\<lparr>cChMessage := Some ch\<rparr>, Return m)
         | RecvClosed \<Rightarrow> Some (c, Error ErrBrokenPipe)
         | RecvBlocks \<Rightarrow> if ctx_done then Some (c, Error ContextError) else None))"

section \<open>The handshake\<close>

text \<open>
  What \<open>conn.Read\<close> gives, one after the other: a chunk or an error (a handshake timeout closes
  the socket and so ends in the error). \<open>None\<close> as a result: the list ended, the read blocks.
  \<open>write_ok\<close> says whether writing the reply succeeds.
\<close>

datatype read_result = Chunk bytes | ReadFailed

fun recvHandshake ::
  "conn_conf \<Rightarrow> bool \<Rightarrow> read_result list \<Rightarrow> conn \<Rightarrow>
     (conn \<times> read_result list \<times> (conn_error, unit) outcome) option" where
  "recvHandshake cf write_ok [] c = None"
| "recvHandshake cf write_ok (ReadFailed # rs) c = Some (c, rs, Error ReadError)"
| "recvHandshake cf write_ok (Chunk d # rs) c =
     (case Packet.Decode (cDecoder c) d of
        (dec, Error e) \<Rightarrow> Some (c\<lparr>cDecoder := dec\<rparr>, rs, Error (PacketError e))
      | (dec, Panic) \<Rightarrow> Some (c\<lparr>cDecoder := dec\<rparr>, rs, Panic)
      | (dec, Return packets) \<Rightarrow>
          (let c1 = c\<lparr>cDecoder := dec\<rparr> in
           case packets of
             [] \<Rightarrow> recvHandshake cf write_ok rs c1
           | [p] \<Rightarrow>
               (if pType p \<noteq> Handshake then Some (c1, rs, Error ErrInvalidPacket)
                else
                  (case cfUnmarshal cf (pData p) of
                     None \<Rightarrow> Some (c1, rs, Error UnmarshalError)
                   | Some token \<Rightarrow>
                       (case (if cfRsaKey cf \<noteq> []
                              then map_option (\<lambda>key. c1\<lparr>cSession := setSecret key (cSession c1)\<rparr>)
                                     (cfRsaDecrypt cf token (cfRsaKey cf))
                              else Some c1) of
                          None \<Rightarrow> Some (c1, rs, Error RsaError)
                        | Some c2 \<Rightarrow>
                            (if \<not> cfValidator cf (pData p) then Some (c2, rs, Error ValidatorError)
                             else
                               (case Packet.Encode Handshake (cfHandshakeReply cf (Id (cSession c2))) of
                                  Return reply \<Rightarrow>
                                    (if write_ok
                                     then Some (c2\<lparr>cWritten := cWritten c2 @ [reply]\<rparr>, rs, Return ())
                                     else Some (c2, rs, Error WriteError))
                                | Error e \<Rightarrow> Some (c2, rs, Error (PacketError e))
                                | Panic \<Rightarrow> Some (c2, rs, Panic))))))
           | _ \<Rightarrow> Some (c1, rs, Error ErrHandShakeAck)))"

fun recvHandshakeAck ::
  "read_result list \<Rightarrow> conn \<Rightarrow>
     (conn \<times> read_result list \<times> (conn_error, packet list) outcome) option" where
  "recvHandshakeAck [] c = None"
| "recvHandshakeAck (ReadFailed # rs) c = Some (c, rs, Error ReadError)"
| "recvHandshakeAck (Chunk d # rs) c =
     (case Packet.Decode (cDecoder c) d of
        (dec, Error e) \<Rightarrow> Some (c\<lparr>cDecoder := dec\<rparr>, rs, Error (PacketError e))
      | (dec, Panic) \<Rightarrow> Some (c\<lparr>cDecoder := dec\<rparr>, rs, Panic)
      | (dec, Return packets) \<Rightarrow>
          (let c1 = c\<lparr>cDecoder := dec\<rparr> in
           case packets of
             [] \<Rightarrow> recvHandshakeAck rs c1
           | p # ps \<Rightarrow>
               (if pType p \<noteq> HandshakeAck then Some (c1, rs, Error ErrInvalidPacket)
                else Some (c1\<lparr>cState := conn_status_working\<rparr>, rs, Return ps))))"

section \<open>serve\<close>

text \<open>
  The first half of \<open>serve\<close>, up to the two channels. Every error return runs the deferred
  functions: the status is closed and so is the socket.
\<close>

definition closed_conn :: "conn \<Rightarrow> conn" where
  "closed_conn c = c\<lparr>cState := conn_status_closed, cSockOpen := False\<rparr>"

definition establish ::
  "conn_conf \<Rightarrow> bool \<Rightarrow> read_result list \<Rightarrow> conn \<Rightarrow>
     (conn \<times> read_result list \<times> (conn_error, packet list) outcome) option" where
  "establish cf write_ok rs c =
     (if \<not> cfHandler cf then Some (closed_conn c, rs, Error ErrInvalidHandler)
      else
        (case recvHandshake cf write_ok rs c of
           None \<Rightarrow> None
         | Some (c1, rs1, Error e) \<Rightarrow> Some (closed_conn (c1\<lparr>cCancelled := True\<rparr>), rs1, Error e)
         | Some (c1, rs1, Panic) \<Rightarrow> Some (closed_conn (c1\<lparr>cCancelled := True\<rparr>), rs1, Panic)
         | Some (c1, rs1, Return _) \<Rightarrow>
             (case recvHandshakeAck rs1 (c1\<lparr>cState := conn_status_handshake\<rparr>) of
                None \<Rightarrow> None
              | Some (c2, rs2, Error e) \<Rightarrow> Some (closed_conn (c2\<lparr>cCancelled := True\<rparr>), rs2, Error e)
              | Some (c2, rs2, Panic) \<Rightarrow> Some (closed_conn (c2\<lparr>cCancelled := True\<rparr>), rs2, Panic)
              | Some (c2, rs2, Return ps) \<Rightarrow>
                  Some (c2\<lparr>cState := conn_status_working,
                          cChMessage := Some (make_chan (cfRecvBacklog cf)),
                          cChSend := Some (make_chan (cfSendBacklog cf))\<rparr>, rs2, Return ps))))"

text \<open>
  The goroutines of an established connection. The reader has packets left to process, or has
  exited. The writer is in its loop, blocked in sending a heartbeat to its own channel, in the
  loop that sends what is left, or has exited. \<open>lGroupErr\<close>: a function of the group returned an
  error, which cancels \<open>errCtx\<close>. \<open>lAccepted\<close> and \<open>lReceived\<close> are the history of the frames put
  into \<open>chSend\<close> and of those the writer took out. \<open>lCrashed\<close>: a panic that no \<open>recover\<close> catches.
\<close>

datatype reader = RRun "packet list" | RExit
datatype writer = WLoop | WHeartbeat | WDrain | WExit

record live =
  lConn :: conn
  lReader :: reader
  lWriter :: writer
  lWatch :: bool
  lGroupErr :: bool
  lHandler :: bool
  lDone :: bool
  lCrashed :: bool
  lAccepted :: "bytes list"
  lTaken :: "bytes list"

definition start_live :: "conn \<Rightarrow> packet list \<Rightarrow> live" where
  "start_live c ps =
     \<lparr>lConn = c, lReader = RRun ps, lWriter = WLoop, lWatch = True, lGroupErr = False,
      lHandler = True, lDone = False, lCrashed = False, lAccepted = [], lTaken = []\<rparr>"

definition errCtx_done :: "live \<Rightarrow> bool" where
  "errCtx_done l \<longleftrightarrow> cCancelled (lConn l) \<or> lGroupErr l"

text \<open>The reader's exit, with its deferred \<open>close(chMessage)\<close>.\<close>

definition reader_exit :: "bool \<Rightarrow> live \<Rightarrow> live" where
  "reader_exit failed l =
     (case chan_close (cChMessage (lConn l)) of
        None \<Rightarrow> l\<lparr>lCrashed := True\<rparr>
      | Some ch \<Rightarrow> l\<lparr>lConn := (lConn l)\<lparr>cChMessage := Some ch\<rparr>, lReader := RExit,
                    lGroupErr := (lGroupErr l \<or> failed)\<rparr>)"

text \<open>The writer's exit closes the socket; it always returns an error.\<close>

definition writer_exit :: "live \<Rightarrow> live" where
  "writer_exit l = l\<lparr>lConn := (lConn l)\<lparr>cSockOpen := False\<rparr>, lWriter := WExit, lGroupErr := True\<rparr>"

definition reader_read :: "bytes \<Rightarrow> live \<Rightarrow> live option" where
  "reader_read d l =
     (if lReader l = RRun [] \<and> cSockOpen (lConn l) then
        (if cState (lConn l) = conn_status_closed then Some (reader_exit False l)
         else
           (case Packet.Decode (cDecoder (lConn l)) d of
              (dec, Return ps) \<Rightarrow> Some (l\<lparr>lConn := (lConn l)\<lparr>cDecoder := dec\<rparr>, lReader := RRun ps\<rparr>)
            | (dec, Error _) \<Rightarrow> Some (reader_exit True (l\<lparr>lConn := (lConn l)\<lparr>cDecoder := dec\<rparr>\<rparr>))
            | (dec, Panic) \<Rightarrow> Some (l\<lparr>lCrashed := True\<rparr>)))
      else None)"

definition reader_fail :: "live \<Rightarrow> live option" where
  "reader_fail l = (if lReader l = RRun [] then Some (reader_exit True l) else None)"

definition reader_process :: "conn_conf \<Rightarrow> int \<Rightarrow> bytes \<Rightarrow> live \<Rightarrow> live option" where
  "reader_process cf now spare l =
     (case lReader l of
        RRun (p # ps) \<Rightarrow>
          (case processPacket cf now p spare (lConn l) of
             None \<Rightarrow> None
           | Some (c, Return _) \<Rightarrow> Some (l\<lparr>lConn := c, lReader := RRun ps\<rparr>)
           | Some (c, Error _) \<Rightarrow> Some (reader_exit True (l\<lparr>lConn := c\<rparr>))
           | Some (c, Panic) \<Rightarrow> Some (l\<lparr>lConn := c, lCrashed := True\<rparr>))
      | _ \<Rightarrow> None)"

text \<open>The ticker's case: \<open>time.Now().Add(-2 * heartbeat).Unix()\<close>, with the time in nanoseconds.\<close>

definition writer_tick :: "conn_conf \<Rightarrow> int \<Rightarrow> live \<Rightarrow> live option" where
  "writer_tick cf now l =
     (if lWriter l = WLoop then
        (let deadline = (now - 2 * cfHeartbeat cf) div 10 ^ 9 in
         if cLastAt (lConn l) < deadline then Some (l\<lparr>lWriter := WDrain\<rparr>)
         else Some (l\<lparr>lWriter := WHeartbeat\<rparr>))
      else None)"

definition writer_heartbeat :: "live \<Rightarrow> live option" where
  "writer_heartbeat l =
     (if lWriter l = WHeartbeat then
        (case chan_send (cChSend (lConn l)) heartbeat_packet of
           Sent ch \<Rightarrow> Some (l\<lparr>lConn := (lConn l)\<lparr>cChSend := Some ch\<rparr>, lWriter := WLoop,
                             lAccepted := lAccepted l @ [heartbeat_packet]\<rparr>)
         | SendBlocks \<Rightarrow> None
         | SendPanics \<Rightarrow> Some (l\<lparr>lCrashed := True\<rparr>))
      else None)"

text \<open>A frame taken from \<open>chSend\<close> and written, or its write failing. The socket must be open for
  a write to succeed. In its loop a failed writer goes on to send what is left, there it exits.\<close>

definition writer_write :: "bool \<Rightarrow> live \<Rightarrow> live option" where
  "writer_write ok l =
     (if (lWriter l = WLoop \<or> lWriter l = WDrain) \<and> (ok \<longrightarrow> cSockOpen (lConn l)) then
        (case chan_recv (cChSend (lConn l)) of
           Received d ch \<Rightarrow>
             (let l1 = l\<lparr>lConn := (lConn l)\<lparr>cChSend := Some ch\<rparr>, lTaken := lTaken l @ [d]\<rparr> in
              if ok then Some (l1\<lparr>lConn := (lConn l1)\<lparr>cWritten := cWritten (lConn l1) @ [d]\<rparr>\<rparr>)
              else if lWriter l = WLoop then Some (l1\<lparr>lWriter := WDrain\<rparr>)
              else Some (writer_exit l1))
         | RecvClosed \<Rightarrow>
             (if lWriter l = WLoop then Some (l\<lparr>lWriter := WDrain\<rparr>) else Some (writer_exit l))
         | RecvBlocks \<Rightarrow> None)
      else None)"

definition writer_stop :: "live \<Rightarrow> live option" where
  "writer_stop l =
     (if lWriter l = WLoop \<and> errCtx_done l then
        (case chan_close (cChSend (lConn l)) of
           None \<Rightarrow> Some (l\<lparr>lCrashed := True\<rparr>)
         | Some ch \<Rightarrow> Some (l\<lparr>lConn := (lConn l)\<lparr>cChSend := Some ch\<rparr>, lWriter := WDrain\<rparr>))
      else None)"

definition watch_stop :: "live \<Rightarrow> live option" where
  "watch_stop l =
     (if lWatch l \<and> errCtx_done l then Some (l\<lparr>lWatch := False, lGroupErr := True\<rparr>) else None)"

text \<open>A method of the session that sends, called by the handler or by any other goroutine.\<close>

definition session_send :: "(conn_error, bytes) outcome \<Rightarrow> live \<Rightarrow> live option" where
  "session_send r l =
     (case send_frame r (lConn l) of
        None \<Rightarrow> None
      | Some (c, res) \<Rightarrow>
          Some (l\<lparr>lConn := c,
                  lAccepted := (case (r, res) of (Return d, Return _) \<Rightarrow> lAccepted l @ [d]
                                | _ \<Rightarrow> lAccepted l)\<rparr>))"

definition session_recv :: "bool \<Rightarrow> bool \<Rightarrow> live \<Rightarrow> live option" where
  "session_recv ctx_done first l =
     (case Recv_conn ctx_done first (lConn l) of None \<Rightarrow> None | Some (c, _) \<Rightarrow> Some (l\<lparr>lConn := c\<rparr>))"

text \<open>\<open>ServeClientStream\<close> returns: the status is closed and the context cancelled.\<close>

definition handler_return :: "live \<Rightarrow> live option" where
  "handler_return l =
     (if lHandler l
      then Some (l\<lparr>lConn := (lConn l)\<lparr>cState := conn_status_closed, cCancelled := True\<rparr>,
                   lHandler := False\<rparr>)
      else None)"

text \<open>\<open>errGroup.Wait\<close> returns when the three functions have, and the deferred functions run.\<close>

definition serve_finish :: "live \<Rightarrow> live option" where
  "serve_finish l =
     (if \<not> lHandler l \<and> \<not> lDone l \<and> lReader l = RExit \<and> lWriter l = WExit \<and> \<not> lWatch l
      then Some (l\<lparr>lConn := closed_conn (lConn l), lDone := True\<rparr>)
      else None)"

datatype event =
    ERead bytes | EReadFail | EProcess int bytes | ETick int | EHeartbeat | EWrite bool
  | EWriterStop | EWatchStop | ESend "(conn_error, bytes) outcome" | EClose | ERecv bool bool
  | EHandlerReturn | EFinish

fun conn_step :: "conn_conf \<Rightarrow> live \<Rightarrow> event \<Rightarrow> live option" where
  "conn_step cf l ev =
     (if lCrashed l then None else
      (case ev of
         ERead d \<Rightarrow> reader_read d l
       | EReadFail \<Rightarrow> reader_fail l
       | EProcess now spare \<Rightarrow> reader_process cf now spare l
       | ETick now \<Rightarrow> writer_tick cf now l
       | EHeartbeat \<Rightarrow> writer_heartbeat l
       | EWrite ok \<Rightarrow> writer_write ok l
       | EWriterStop \<Rightarrow> writer_stop l
       | EWatchStop \<Rightarrow> watch_stop l
       | ESend r \<Rightarrow> session_send r l
       | EClose \<Rightarrow> Some (l\<lparr>lConn := Close_conn (lConn l)\<rparr>)
       | ERecv d f \<Rightarrow> session_recv d f l
       | EHandlerReturn \<Rightarrow> handler_return l
       | EFinish \<Rightarrow> serve_finish l))"

fun conn_run :: "conn_conf \<Rightarrow> live \<Rightarrow> event list \<Rightarrow> live option" where
  "conn_run cf l [] = Some l"
| "conn_run cf l (ev # evs) = (case conn_step cf l ev of None \<Rightarrow> None | Some l' \<Rightarrow> conn_run cf l' evs)"

section \<open>The invariant of an established connection\<close>

definition conn_inv :: "live \<Rightarrow> bool" where
  "conn_inv l \<longleftrightarrow> (\<exists>chm chs. cChMessage (lConn l) = Some chm \<and> cChSend (lConn l) = Some chs
     \<and> (chClosed chm \<longleftrightarrow> lReader l = RExit)
     \<and> (chClosed chs \<longrightarrow> lWriter l = WDrain \<or> lWriter l = WExit)
     \<and> lTaken l @ chQueue chs = lAccepted l
     \<and> (cSockOpen (lConn l) \<longleftrightarrow> lWriter l \<noteq> WExit)
     \<and> (lDone l \<longrightarrow> lReader l = RExit \<and> lWriter l = WExit \<and> \<not> lWatch l \<and> \<not> lHandler l)
     \<and> (\<not> lHandler l \<longrightarrow> cCancelled (lConn l))
     \<and> (cCancelled (lConn l) \<longrightarrow> cState (lConn l) = conn_status_closed))"

lemma conn_invI:
  assumes "cChMessage (lConn l) = Some chm" and "cChSend (lConn l) = Some chs"
    and "chClosed chm \<longleftrightarrow> lReader l = RExit"
    and "chClosed chs \<Longrightarrow> lWriter l = WDrain \<or> lWriter l = WExit"
    and "lTaken l @ chQueue chs = lAccepted l"
    and "cSockOpen (lConn l) \<longleftrightarrow> lWriter l \<noteq> WExit"
    and "lDone l \<Longrightarrow> lReader l = RExit \<and> lWriter l = WExit \<and> \<not> lWatch l \<and> \<not> lHandler l"
    and "\<not> lHandler l \<Longrightarrow> cCancelled (lConn l)"
    and "cCancelled (lConn l) \<Longrightarrow> cState (lConn l) = conn_status_closed"
  shows "conn_inv l"
  using assms by (auto simp: conn_inv_def)

lemma recvHandshake_fields:
  "recvHandshake cf w rs c = Some (c', rs', r) \<Longrightarrow>
     cSockOpen c' = cSockOpen c \<and> cCancelled c' = cCancelled c \<and> cState c' = cState c"
  by (induction cf w rs c rule: recvHandshake.induct)
     (auto simp: Let_def split: prod.splits outcome.splits list.splits option.splits if_splits)

lemma recvHandshakeAck_fields:
  "recvHandshakeAck rs c = Some (c', rs', r) \<Longrightarrow>
     cSockOpen c' = cSockOpen c \<and> cCancelled c' = cCancelled c"
  by (induction rs c rule: recvHandshakeAck.induct)
     (auto simp: Let_def split: prod.splits outcome.splits list.splits option.splits if_splits)

lemma establish_Return:
  assumes "establish cf w rs (newConn s now) = Some (c, rs', Return ps)"
  shows "conn_inv (start_live c ps)" and "cState c = conn_status_working"
    and "cChSend c = Some (make_chan (cfSendBacklog cf))"
proof -
  obtain c1 rs1 u c2 where h: "recvHandshake cf w rs (newConn s now) = Some (c1, rs1, Return u)"
    and a: "recvHandshakeAck rs1 (c1\<lparr>cState := conn_status_handshake\<rparr>) = Some (c2, rs', Return ps)"
    and c: "c = c2\<lparr>cState := conn_status_working, cChMessage := Some (make_chan (cfRecvBacklog cf)),
      cChSend := Some (make_chan (cfSendBacklog cf))\<rparr>"
    using assms
    by (auto simp: establish_def split: if_splits option.splits prod.splits outcome.splits)
  show "conn_inv (start_live c ps)"
    using recvHandshake_fields [OF h] recvHandshakeAck_fields [OF a]
    by (intro conn_invI [of _ "make_chan (cfRecvBacklog cf)" "make_chan (cfSendBacklog cf)"])
       (simp_all add: c start_live_def make_chan_def newConn_def)
  show "cState c = conn_status_working" "cChSend c = Some (make_chan (cfSendBacklog cf))"
    by (simp_all add: c)
qed

lemma processMessage_fields:
  assumes "processMessage cf m c = Some (c', r)" and "cChMessage c = Some ch"
  shows "\<exists>q. c' = c\<lparr>cChMessage := Some (ch\<lparr>chQueue := q\<rparr>)\<rparr>" and "r \<noteq> Panic"
  using assms
  by (auto simp: processMessage_def chan_send_def Let_def
      intro: exI [of _ "chQueue ch"] split: if_splits outcome.splits sent.splits)

lemma processPacket_fields:
  assumes "processPacket cf now p spare c = Some (c', r)" and "cChMessage c = Some ch"
  shows "\<exists>q. c' = c\<lparr>cLastAt := now, cChMessage := Some (ch\<lparr>chQueue := q\<rparr>)\<rparr>"
    and "r = Panic \<longleftrightarrow>
      pType p = DataPacket \<and> Message.Decode (cfDictionary cf) (pData p) spare = Panic"
  using assms processMessage_fields [where c = "c\<lparr>cLastAt := now\<rparr>" and ch = ch and cf = cf and c' = c' and r = r]
  by (auto simp: processPacket_def Let_def
      intro: exI [of _ "chQueue ch"] split: if_splits outcome.splits)

text \<open>Each goroutine keeps the invariant, and only the processing of a packet crashes.\<close>

lemma reader_exit_inv:
  assumes "conn_inv l" and "lReader l = RRun ps"
  shows "conn_inv (reader_exit b l)" and "lCrashed (reader_exit b l) = lCrashed l"
  using assms by (auto simp: conn_inv_def reader_exit_def chan_close_def)

lemma reader_read_inv:
  assumes "reader_read d l = Some l'" and "conn_inv l"
  shows "conn_inv l' \<and> lCrashed l' = lCrashed l"
proof (cases "cState (lConn l) = conn_status_closed")
  case True
  with assms show ?thesis
    by (auto simp: reader_read_def reader_exit_inv split: if_splits)
next
  case False
  obtain dec r where D: "Packet.Decode (cDecoder (lConn l)) d = (dec, r)" by fastforce
  let ?l1 = "l\<lparr>lConn := (lConn l)\<lparr>cDecoder := dec\<rparr>\<rparr>"
  have R: "lReader l = RRun []" and l': "l' = (case r of Return ps \<Rightarrow> ?l1\<lparr>lReader := RRun ps\<rparr>
      | Error _ \<Rightarrow> reader_exit True ?l1 | Panic \<Rightarrow> l\<lparr>lCrashed := True\<rparr>)"
    using assms(1) False D by (auto simp: reader_read_def split: if_splits outcome.splits)
  have "conn_inv ?l1" "conn_inv (?l1\<lparr>lReader := RRun ps\<rparr>)" "r \<noteq> Panic" for ps
    using assms(2) R Decode_no_Panic [of "cDecoder (lConn l)" d] D by (auto simp: conn_inv_def)
  with R l' show ?thesis
    by (cases r) (simp_all add: reader_exit_inv)
qed

lemma reader_fail_inv:
  "reader_fail l = Some l' \<Longrightarrow> conn_inv l \<Longrightarrow> conn_inv l' \<and> lCrashed l' = lCrashed l"
  by (auto simp: reader_fail_def reader_exit_inv split: if_splits)

lemma reader_process_inv:
  assumes "reader_process cf now spare l = Some l'" and "conn_inv l"
  shows "conn_inv l' \<and> (lCrashed l' \<longleftrightarrow> lCrashed l \<or>
    (\<exists>p ps. lReader l = RRun (p # ps) \<and> pType p = DataPacket
      \<and> Message.Decode (cfDictionary cf) (pData p) spare = Panic))"
proof -
  obtain p ps c r where R: "lReader l = RRun (p # ps)"
    and P: "processPacket cf now p spare (lConn l) = Some (c, r)"
    and l': "l' = (case r of Return _ \<Rightarrow> l\<lparr>lConn := c, lReader := RRun ps\<rparr>
      | Error _ \<Rightarrow> reader_exit True (l\<lparr>lConn := c\<rparr>)
      | Panic \<Rightarrow> l\<lparr>lConn := c, lCrashed := True\<rparr>)"
    using assms(1)
    by (auto simp: reader_process_def split: reader.splits list.splits option.splits prod.splits outcome.splits)
  obtain ch where ch: "cChMessage (lConn l) = Some ch" using assms(2) by (auto simp: conn_inv_def)
  note F = processPacket_fields [OF P ch]
  have inv: "conn_inv (l\<lparr>lConn := c\<rparr>)" "conn_inv (l\<lparr>lConn := c, lReader := RRun ps\<rparr>)"
    "conn_inv (l\<lparr>lConn := c, lCrashed := True\<rparr>)"
    using F(1) assms(2) ch R by (auto simp: conn_inv_def)
  show ?thesis
    using inv F(2) R l' by (cases r) (auto simp: reader_exit_inv)
qed

lemma writer_inv:
  "writer_tick cf now l = Some l' \<Longrightarrow> conn_inv l \<Longrightarrow> conn_inv l' \<and> lCrashed l' = lCrashed l"
  "writer_stop l = Some l' \<Longrightarrow> conn_inv l \<Longrightarrow> conn_inv l' \<and> lCrashed l' = lCrashed l"
  by (auto simp: writer_tick_def writer_stop_def conn_inv_def chan_close_def Let_def split: if_splits)

lemma writer_heartbeat_inv:
  assumes "writer_heartbeat l = Some l'" and "conn_inv l"
  shows "conn_inv l' \<and> lCrashed l' = lCrashed l"
proof -
  obtain chs where chs: "cChSend (lConn l) = Some chs" "\<not> chClosed chs"
    and W: "lWriter l = WHeartbeat" and T: "lTaken l @ chQueue chs = lAccepted l"
    using assms by (auto simp: writer_heartbeat_def conn_inv_def split: if_splits)
  then obtain ch where S: "chan_send (cChSend (lConn l)) heartbeat_packet = Sent ch"
    and "\<not> chClosed ch"
    using assms(1) by (auto simp: writer_heartbeat_def chan_send_def split: if_splits)
  moreover from S T chs have "lTaken l @ chQueue ch = lAccepted l @ [heartbeat_packet]"
    using chan_send_conserves [OF _ S] by simp
  ultimately show ?thesis
    using assms W by (auto simp: writer_heartbeat_def conn_inv_def)
qed

lemma chan_recv_closed_flag: "chan_recv (Some c) = Received x c' \<Longrightarrow> chClosed c' = chClosed c"
  by (auto simp: chan_recv_def split: list.splits if_splits)

lemma writer_write_inv:
  assumes "writer_write ok l = Some l'" and "conn_inv l"
  shows "conn_inv l' \<and> lCrashed l' = lCrashed l"
proof (cases "chan_recv (cChSend (lConn l))")
  case (Received d ch)
  obtain chs where chs: "cChSend (lConn l) = Some chs"
    and T: "lTaken l @ chQueue chs = lAccepted l"
    using assms(2) by (auto simp: conn_inv_def)
  have "(lTaken l @ [d]) @ chQueue ch = lAccepted l"
    using chan_recv_conserves [OF _ Received] chs T by simp
  moreover have "chClosed ch = chClosed chs"
    using Received chs chan_recv_closed_flag by simp
  ultimately show ?thesis
    using assms Received chs
    by (auto simp: writer_write_def writer_exit_def conn_inv_def Let_def split: if_splits)
next
  case RecvClosed
  with assms show ?thesis
    by (auto simp: writer_write_def writer_exit_def conn_inv_def split: if_splits)
next
  case RecvBlocks
  with assms show ?thesis by (auto simp: writer_write_def split: if_splits)
qed

lemma watch_stop_inv:
  "watch_stop l = Some l' \<Longrightarrow> conn_inv l \<Longrightarrow> conn_inv l' \<and> lCrashed l' = lCrashed l"
  by (auto simp: watch_stop_def conn_inv_def split: if_splits)

lemma session_send_inv:
  assumes "session_send r l = Some l'" and "conn_inv l"
  shows "conn_inv l' \<and> lCrashed l' = lCrashed l"
proof (cases r)
  case (Return d)
  obtain chs where chs: "cChSend (lConn l) = Some chs" and T: "lTaken l @ chQueue chs = lAccepted l"
    using assms(2) by (auto simp: conn_inv_def)
  show ?thesis
  proof (cases "chan_send (cChSend (lConn l)) d")
    case (Sent ch)
    then have "lTaken l @ chQueue ch = lAccepted l @ [d]" "\<not> chClosed ch" "\<not> chClosed chs"
      using chan_send_conserves [OF _ Sent] chs T
      by (auto simp: chan_send_def split: if_splits)
    with assms Return Sent chs show ?thesis
      by (auto simp: session_send_def send_frame_def send_def conn_inv_def)
  qed (use assms Return in \<open>auto simp: session_send_def send_frame_def send_def\<close>)
qed (use assms in \<open>auto simp: session_send_def send_frame_def\<close>)

lemma session_recv_inv:
  assumes "session_recv cd first l = Some l'" and "conn_inv l"
  shows "conn_inv l' \<and> lCrashed l' = lCrashed l"
  using assms
  by (auto simp: session_recv_def Recv_conn_def conn_inv_def chan_recv_def
      split: if_splits option.splits received.splits list.splits)

lemma handler_return_inv:
  "handler_return l = Some l' \<Longrightarrow> conn_inv l \<Longrightarrow> conn_inv l' \<and> lCrashed l' = lCrashed l"
  by (auto simp: handler_return_def conn_inv_def split: if_splits)

lemma serve_finish_inv:
  "serve_finish l = Some l' \<Longrightarrow> conn_inv l \<Longrightarrow> conn_inv l' \<and> lCrashed l' = lCrashed l"
  by (auto simp: serve_finish_def conn_inv_def closed_conn_def split: if_splits)

lemma Close_conn_inv: "conn_inv l \<Longrightarrow> conn_inv (l\<lparr>lConn := Close_conn (lConn l)\<rparr>)"
  by (auto simp: conn_inv_def Close_conn_def)

lemma conn_step_inv:
  assumes "conn_step cf l ev = Some l'" and "conn_inv l"
  shows "conn_inv l'" and "lCrashed l' \<longleftrightarrow>
    (\<exists>now spare p ps. ev = EProcess now spare \<and> lReader l = RRun (p # ps) \<and> pType p = DataPacket
      \<and> Message.Decode (cfDictionary cf) (pData p) spare = Panic)"
proof -
  have ok: "\<not> lCrashed l" using assms(1) by (auto split: if_splits)
  have "conn_inv l' \<and> (lCrashed l' \<longleftrightarrow>
    (\<exists>now spare p ps. ev = EProcess now spare \<and> lReader l = RRun (p # ps) \<and> pType p = DataPacket
      \<and> Message.Decode (cfDictionary cf) (pData p) spare = Panic))"
    using assms ok
    by (cases ev) (auto simp: reader_process_inv Close_conn_inv
        dest: reader_read_inv reader_fail_inv reader_process_inv writer_inv writer_heartbeat_inv
          writer_write_inv watch_stop_inv session_send_inv session_recv_inv handler_return_inv
          serve_finish_inv)
  then show "conn_inv l'" and "lCrashed l' \<longleftrightarrow>
    (\<exists>now spare p ps. ev = EProcess now spare \<and> lReader l = RRun (p # ps) \<and> pType p = DataPacket
      \<and> Message.Decode (cfDictionary cf) (pData p) spare = Panic)"
    by blast+
qed

declare conn_step.simps [simp del]

text \<open>The connection as a step relation, for the shared reachability lemma.\<close>

definition conn_rel :: "conn_conf \<Rightarrow> live \<Rightarrow> live \<Rightarrow> bool" where
  "conn_rel cf l l' \<longleftrightarrow> (\<exists>ev. conn_step cf l ev = Some l')"

interpretation conn: step_relation conn_inv "conn_rel cf" conn_inv for cf
  by unfold_locales (auto simp: conn_rel_def dest: conn_step_inv(1))

lemma conn_run_rel: "conn_run cf l evs = Some l' \<Longrightarrow> (conn_rel cf)\<^sup>*\<^sup>* l l'"
proof (induction evs arbitrary: l)
  case (Cons ev evs)
  then obtain l1 where "conn_step cf l ev = Some l1" "conn_run cf l1 evs = Some l'"
    by (auto split: option.splits)
  with Cons.IH show ?case
    by (meson conn_rel_def converse_rtranclp_into_rtranclp)
qed simp

lemmas conn_run_inv = conn.reachable_inv [OF _ conn_run_rel]

end
