(* ===== verification/Gate_Serve.thy ===== *)
theory Gate_Serve
  imports Gate_Conn
begin

text \<open>
  What the goroutines of a gateway connection guarantee together, over every interleaving of the
  steps of \<open>Gate_Conn\<close>: no frame is lost, duplicated or reordered on its way to the socket, no
  channel is misused, received messages outlive the reader; and the two ways in which the
  writer's loop of \<open>serve\<close> in \<open>gate/conn.go\<close> strands a connection. The handshake that precedes
  the goroutines is related to the bytes of the stream.
\<close>


text \<open>A configuration without RSA whose JSON functions accept everything.\<close>

definition plain_conf :: conn_conf where
  "plain_conf =
     \<lparr>cfHandler = True, cfRsaKey = [], cfHeartbeat = 30 * 10 ^ 9, cfSendBacklog = 16,
      cfRecvBacklog = 16, cfDictionary = emptyDictionary, cfUnmarshal = (\<lambda>_. Some []),
      cfRsaDecrypt = (\<lambda>_ _. None), cfValidator = (\<lambda>_. True), cfHandshakeReply = (\<lambda>_. [])\<rparr>"

definition plain_session :: session where
  "plain_session = \<lparr>sId = 1, sUid = 0, sLastTime = 0, sData = Some Map.empty, sSecret = [],
     sUserData = Nil_any\<rparr>"

definition plain_reads :: "read_result list" where
  "plain_reads = [Chunk [1, 0, 0, 0], Chunk [2, 0, 0, 0]]"

definition plain_conn :: conn where
  "plain_conn =
     (case establish plain_conf True plain_reads (newConn plain_session 0) of
        Some (c, _) \<Rightarrow> c | None \<Rightarrow> newConn plain_session 0)"

lemma plain_establish:
  "establish plain_conf True plain_reads (newConn plain_session 0)
     = Some (plain_conn, [], Return [])"
proof -
  have "map_option snd (establish plain_conf True plain_reads (newConn plain_session 0))
      = Some ([], Return [])"
    by code_simp
  then show ?thesis by (auto simp: plain_conn_def)
qed




section \<open>The writer after a timeout, and on a full queue\<close>

text \<open>
  The writer in its final loop on a channel nobody closed: only a failing write ends it, and
  while it lives the socket stays open.
\<close>

definition writer_stranded :: "live \<Rightarrow> bool" where
  "writer_stranded l \<longleftrightarrow> lWriter l = WDrain \<and> cSockOpen (lConn l) \<and> \<not> lDone l
     \<and> (\<exists>ch. cChSend (lConn l) = Some ch \<and> \<not> chClosed ch)"

lemma processPacket_keeps:
  "processPacket cf now p spare c = Some (c', r) \<Longrightarrow>
     cChSend c' = cChSend c \<and> cSockOpen c' = cSockOpen c \<and> cWritten c' = cWritten c"
  by (auto simp: processPacket_def processMessage_def Let_def
      split: if_splits outcome.splits sent.splits)

lemma reader_exit_keeps [simp]:
  "lWriter (reader_exit b l) = lWriter l" "cSockOpen (lConn (reader_exit b l)) = cSockOpen (lConn l)"
  "cChSend (lConn (reader_exit b l)) = cChSend (lConn l)" "lDone (reader_exit b l) = lDone l"
  "cWritten (lConn (reader_exit b l)) = cWritten (lConn l)"
  by (simp_all add: reader_exit_def split: option.splits)

text \<open>The reader leaves what belongs to the writer alone.\<close>

lemma reader_keeps_writer:
  "reader_read d l = Some l' \<or> reader_fail l = Some l' \<or> reader_process cf now spare l = Some l' \<Longrightarrow>
     lWriter l' = lWriter l \<and> cSockOpen (lConn l') = cSockOpen (lConn l)
     \<and> cChSend (lConn l') = cChSend (lConn l) \<and> lDone l' = lDone l
     \<and> cWritten (lConn l') = cWritten (lConn l)"
  by (auto simp: reader_read_def reader_fail_def reader_process_def
      dest: processPacket_keeps
      split: if_splits prod.splits outcome.splits reader.splits list.splits option.splits)

lemma session_keeps_writer:
  "session_send r l = Some l' \<Longrightarrow>
     lWriter l' = lWriter l \<and> cSockOpen (lConn l') = cSockOpen (lConn l) \<and> lDone l' = lDone l
     \<and> cWritten (lConn l') = cWritten (lConn l)
     \<and> (cChSend (lConn l') = cChSend (lConn l) \<or>
        (\<exists>ch ch' x. cChSend (lConn l) = Some ch \<and> cChSend (lConn l') = Some ch'
          \<and> chan_send (Some ch) x = Sent ch'))"
  "session_recv cd first l = Some l' \<Longrightarrow>
     lWriter l' = lWriter l \<and> cSockOpen (lConn l') = cSockOpen (lConn l) \<and> lDone l' = lDone l
     \<and> cWritten (lConn l') = cWritten (lConn l)
     \<and> cChSend (lConn l') = cChSend (lConn l)"
  by (auto simp: session_send_def send_frame_def send_def session_recv_def Recv_conn_def chan_send_def
      split: if_splits prod.splits outcome.splits option.splits sent.splits received.splits)

lemma writer_stranded_step:
  assumes "conn_step cf l ev = Some l'" and "writer_stranded l" and "ev \<noteq> EWrite False"
  shows "writer_stranded l'"
proof -
  obtain ch where ch: "cChSend (lConn l) = Some ch" "\<not> chClosed ch"
    and W: "lWriter l = WDrain" "cSockOpen (lConn l)" "\<not> lDone l"
    using assms(2) by (auto simp: conn_step.simps writer_stranded_def)
  have wr: "writer_stranded l'" if "writer_write True l = Some l'"
    using that W ch
    by (auto simp: writer_write_def writer_stranded_def chan_recv_def
        split: if_splits received.splits list.splits)
  show ?thesis
  proof (cases ev)
    case (ESend r)
    then show ?thesis
      using assms(1) W ch session_keeps_writer(1) [of r l l']
      by (auto simp: conn_step.simps writer_stranded_def chan_send_def split: if_splits)
  next
    case (ERecv b f)
    then show ?thesis
      using assms(1) W ch session_keeps_writer(2) [of b f l l']
      by (auto simp: conn_step.simps writer_stranded_def split: if_splits)
  next
    case (ERead d)
    then show ?thesis
      using assms(1) W ch reader_keeps_writer [of d l l' cf]
      by (auto simp: conn_step.simps writer_stranded_def split: if_splits)
  next
    case EReadFail
    then show ?thesis
      using assms(1) W ch reader_keeps_writer [of _ l l' cf]
      by (auto simp: conn_step.simps writer_stranded_def split: if_splits)
  next
    case (EProcess n sp)
    then show ?thesis
      using assms(1) W ch reader_keeps_writer [of _ l l' cf n sp]
      by (auto simp: conn_step.simps writer_stranded_def split: if_splits)
  qed (use assms W ch wr in \<open>auto simp: conn_step.simps writer_stranded_def writer_tick_def writer_heartbeat_def
        writer_stop_def watch_stop_def handler_return_def serve_finish_def Close_conn_def
        split: if_splits\<close>)
qed

lemma writer_stranded_run:
  "conn_run cf l evs = Some l' \<Longrightarrow> writer_stranded l \<Longrightarrow> EWrite False \<notin> set evs \<Longrightarrow>
     writer_stranded l'"
proof (induction evs arbitrary: l)
  case (Cons ev evs)
  then obtain l1 where "conn_step cf l ev = Some l1" "conn_run cf l1 evs = Some l'"
    by (auto split: option.splits)
  with Cons show ?case by (auto intro: writer_stranded_step)
qed simp

text \<open>
  A heartbeat timeout does not close the connection. The writer leaves its loop for the one
  that sends what is left and waits on \<open>chSend\<close>, which nobody closes any more: whatever the peer,
  the handler, \<open>Close\<close> and the context do afterwards, the socket stays open and \<open>serve\<close> does not
  finish until a write to the socket fails.
\<close>

lemma heartbeat_timeout_strands_writer:
  assumes "establish cf w rs (newConn s now) = Some (c, rs', Return ps)"
    and "conn_run cf (start_live c ps) evs = Some l" and "\<not> lCrashed l"
    and "lWriter l = WLoop" and "cLastAt (lConn l) < (at - 2 * cfHeartbeat cf) div 10 ^ 9"
  shows "\<exists>l1. conn_step cf l (ETick at) = Some l1
    \<and> (\<forall>evs' l2. conn_run cf l1 evs' = Some l2 \<and> EWrite False \<notin> set evs' \<longrightarrow>
        lWriter l2 = WDrain \<and> cSockOpen (lConn l2) \<and> \<not> lDone l2)"
proof -
  have inv: "conn_inv l"
    by (rule conn_run_inv [OF establish_Return(1) [OF assms(1)] assms(2)])
  have "conn_step cf l (ETick at) = Some (l\<lparr>lWriter := WDrain\<rparr>)"
    using assms(3-5) by (simp add: conn_step.simps writer_tick_def)
  moreover have "writer_stranded (l\<lparr>lWriter := WDrain\<rparr>)"
    using inv assms(4) by (auto simp: conn_inv_def writer_stranded_def)
  ultimately show ?thesis
    using writer_stranded_run by (fastforce simp: writer_stranded_def)
qed

lemma heartbeat_timeout_strands_writer_witness:
  "\<exists>l1. conn_step plain_conf (start_live plain_conn []) (ETick (100 * 10 ^ 9)) = Some l1
    \<and> (\<forall>evs' l2. conn_run plain_conf l1 evs' = Some l2 \<and> EWrite False \<notin> set evs' \<longrightarrow>
        lWriter l2 = WDrain \<and> cSockOpen (lConn l2) \<and> \<not> lDone l2)"
proof -
  have "cLastAt plain_conn = 0" by code_simp
  then show ?thesis
    by (intro heartbeat_timeout_strands_writer [OF plain_establish, of "[]"])
       (simp_all add: start_live_def plain_conf_def)
qed

text \<open>The writer waiting for room in the channel only it empties.\<close>

definition writer_blocked :: "live \<Rightarrow> bool" where
  "writer_blocked l \<longleftrightarrow> lWriter l = WHeartbeat \<and> \<not> lDone l
     \<and> (\<exists>ch. cChSend (lConn l) = Some ch \<and> \<not> chClosed ch \<and> chCap ch \<le> length (chQueue ch))"

lemma writer_blocked_step:
  assumes "conn_step cf l ev = Some l'" and "writer_blocked l"
  shows "writer_blocked l' \<and> cWritten (lConn l') = cWritten (lConn l)"
proof -
  obtain ch where ch: "cChSend (lConn l) = Some ch" "\<not> chClosed ch" "chCap ch \<le> length (chQueue ch)"
    and W: "lWriter l = WHeartbeat" "\<not> lDone l"
    using assms(2) by (auto simp: writer_blocked_def)
  show ?thesis
  proof (cases ev)
    case (ESend r)
    then show ?thesis
      using assms(1) W ch session_keeps_writer(1) [of r l l']
      by (auto simp: conn_step.simps writer_blocked_def chan_send_def split: if_splits)
  next
    case (ERecv b f)
    then show ?thesis
      using assms(1) W ch session_keeps_writer(2) [of b f l l']
      by (auto simp: conn_step.simps writer_blocked_def split: if_splits)
  next
    case (ERead d)
    then show ?thesis
      using assms(1) W ch reader_keeps_writer [of d l l' cf]
      by (auto simp: conn_step.simps writer_blocked_def split: if_splits)
  next
    case EReadFail
    then show ?thesis
      using assms(1) W ch reader_keeps_writer [of _ l l' cf]
      by (auto simp: conn_step.simps writer_blocked_def split: if_splits)
  next
    case (EProcess n sp)
    then show ?thesis
      using assms(1) W ch reader_keeps_writer [of _ l l' cf n sp]
      by (auto simp: conn_step.simps writer_blocked_def split: if_splits)
  qed (use assms W ch in \<open>auto simp: conn_step.simps writer_blocked_def writer_tick_def
        writer_heartbeat_def writer_write_def writer_stop_def watch_stop_def handler_return_def
        serve_finish_def Close_conn_def chan_send_def split: if_splits\<close>)
qed

lemma writer_blocked_run:
  "conn_run cf l evs = Some l' \<Longrightarrow> writer_blocked l \<Longrightarrow>
     writer_blocked l' \<and> cWritten (lConn l') = cWritten (lConn l)"
proof (induction evs arbitrary: l)
  case (Cons ev evs)
  then obtain l1 where "conn_step cf l ev = Some l1" "conn_run cf l1 evs = Some l'"
    by (auto split: option.splits)
  with Cons show ?case using writer_blocked_step [of cf l ev l1] by auto
qed simp

text \<open>
  A heartbeat that falls due while \<open>chSend\<close> is full deadlocks the connection: the writer
  sends the heartbeat to the channel that only it empties. Nothing is written any more, the
  writer never exits and \<open>serve\<close> never finishes, whatever happens afterwards.
\<close>

lemma full_queue_heartbeat_deadlock:
  assumes "establish cf w rs (newConn s now) = Some (c, rs', Return ps)"
    and "conn_run cf (start_live c ps) evs = Some l" and "\<not> lCrashed l" and "lWriter l = WLoop"
    and "(at - 2 * cfHeartbeat cf) div 10 ^ 9 \<le> cLastAt (lConn l)"
    and "cChSend (lConn l) = Some ch" and "chCap ch \<le> length (chQueue ch)"
  shows "\<exists>l1. conn_step cf l (ETick at) = Some l1
    \<and> (\<forall>evs' l2. conn_run cf l1 evs' = Some l2 \<longrightarrow>
        lWriter l2 = WHeartbeat \<and> \<not> lDone l2 \<and> cWritten (lConn l2) = cWritten (lConn l))"
proof -
  have inv: "conn_inv l"
    by (rule conn_run_inv [OF establish_Return(1) [OF assms(1)] assms(2)])
  have "conn_step cf l (ETick at) = Some (l\<lparr>lWriter := WHeartbeat\<rparr>)"
    using assms(3-5) by (simp add: conn_step.simps writer_tick_def)
  moreover have "writer_blocked (l\<lparr>lWriter := WHeartbeat\<rparr>)"
    using inv assms(4,6,7) by (auto simp: conn_inv_def writer_blocked_def)
  ultimately show ?thesis
    using writer_blocked_run by (fastforce simp: writer_blocked_def)
qed

definition tiny_conf :: conn_conf where
  "tiny_conf = plain_conf\<lparr>cfSendBacklog := 1\<rparr>"

definition tiny_conn :: conn where
  "tiny_conn =
     (case establish tiny_conf True plain_reads (newConn plain_session 0) of
        Some (c, _) \<Rightarrow> c | None \<Rightarrow> newConn plain_session 0)"

lemma full_queue_heartbeat_deadlock_witness:
  "\<exists>l l1. conn_run tiny_conf (start_live tiny_conn []) [ESend (Return [9])] = Some l
    \<and> conn_step tiny_conf l (ETick 0) = Some l1
    \<and> (\<forall>evs' l2. conn_run tiny_conf l1 evs' = Some l2 \<longrightarrow> lWriter l2 = WHeartbeat \<and> \<not> lDone l2)"
proof -
  have "map_option snd (establish tiny_conf True plain_reads (newConn plain_session 0))
      = Some ([], Return [])"
    by code_simp
  then have e: "establish tiny_conf True plain_reads (newConn plain_session 0)
      = Some (tiny_conn, [], Return [])"
    by (auto simp: tiny_conn_def)
  let ?r = "conn_run tiny_conf (start_live tiny_conn []) [ESend (Return [9])]"
  have "map_option (\<lambda>l. (lWriter l, lCrashed l, cLastAt (lConn l), cChSend (lConn l))) ?r
      = Some (WLoop, False, 0, Some \<lparr>chCap = 1, chQueue = [[9]], chClosed = False\<rparr>)"
    by code_simp
  then obtain l where l: "?r = Some l" "lWriter l = WLoop" "\<not> lCrashed l" "cLastAt (lConn l) = 0"
    "cChSend (lConn l) = Some \<lparr>chCap = 1, chQueue = [[9]], chClosed = False\<rparr>"
    by auto
  have "(0 - 2 * cfHeartbeat tiny_conf) div 10 ^ 9 \<le> cLastAt (lConn l)"
    by (simp add: l(4) tiny_conf_def plain_conf_def)
  from full_queue_heartbeat_deadlock [OF e l(1,3,2) this l(5)] l(1) show ?thesis
    by auto
qed

section \<open>Recv\<close>

text \<open>\<open>n\<close> calls of \<open>Recv\<close> one after the other, with a context that is not done.\<close>

fun recv_n :: "nat \<Rightarrow> conn \<Rightarrow> (conn_error, gate_message) outcome list option" where
  "recv_n 0 c = Some []"
| "recv_n (Suc n) c =
     (case Recv_conn False False c of
        None \<Rightarrow> None
      | Some (c', r) \<Rightarrow> map_option ((#) r) (recv_n n c'))"

text \<open>
  Once the reader has exited, \<open>Recv\<close> never blocks: it returns the messages received so far
  in order, and after them \<open>ErrBrokenPipe\<close> on every call.
\<close>

lemma Recv_drains_closed_connection:
  assumes "establish cf w rs (newConn s now) = Some (c, rs', Return ps)"
    and "conn_run cf (start_live c ps) evs = Some l" and "lReader l = RExit"
  shows "recv_n (length (chan_contents (cChMessage (lConn l))) + n) (lConn l) =
    Some (map Return (chan_contents (cChMessage (lConn l))) @ replicate n (Error ErrBrokenPipe))"
proof -
  obtain ch where ch: "cChMessage (lConn l) = Some ch" "chClosed ch"
    using conn_run_inv [OF establish_Return(1) [OF assms(1)] assms(2)] assms(3)
    by (auto simp: conn_inv_def)
  have rest: "recv_n n k = Some (replicate n (Error ErrBrokenPipe))"
    if "cChMessage k = Some d" "chClosed d" "chQueue d = []" for k d
    using that by (induction n) (simp_all add: Recv_conn_def chan_recv_def)
  have "recv_n (length q + n) k = Some (map Return q @ replicate n (Error ErrBrokenPipe))"
    if "cChMessage k = Some d" "chClosed d" "chQueue d = q" for k d q
    using that
  proof (induction q arbitrary: k d)
    case Nil
    then show ?case by (simp add: rest)
  next
    case (Cons m q)
    then show ?case
      using Cons.IH [of "k\<lparr>cChMessage := Some (d\<lparr>chQueue := q\<rparr>)\<rparr>" "d\<lparr>chQueue := q\<rparr>"]
      by (simp add: Recv_conn_def chan_recv_def)
  qed
  with ch show ?thesis by simp
qed

lemma Recv_drains_closed_connection_witness:
  "\<exists>l. conn_run plain_conf (start_live plain_conn [])
      [ERead [3, 0, 0, 5, 2, 1, 97, 8, 9], EProcess 0 [], EReadFail] = Some l
    \<and> recv_n 2 (lConn l) =
        Some [Return \<lparr>gRoute = ''a'', gPayload = [8, 9], gReqId = 0\<rparr>, Error ErrBrokenPipe]"
proof -
  let ?evs = "[ERead [3, 0, 0, 5, 2, 1, 97, 8, 9], EProcess 0 [], EReadFail]"
  let ?r = "conn_run plain_conf (start_live plain_conn []) ?evs"
  have "map_option (\<lambda>l. (lReader l, chan_contents (cChMessage (lConn l)))) ?r =
      Some (RExit, [\<lparr>gRoute = ''a'', gPayload = [8, 9], gReqId = 0\<rparr>])"
    by code_simp
  then obtain l where l: "?r = Some l" "lReader l = RExit"
    "chan_contents (cChMessage (lConn l)) = [\<lparr>gRoute = ''a'', gPayload = [8, 9], gReqId = 0\<rparr>]"
    by auto
  then show ?thesis
    using Recv_drains_closed_connection [OF plain_establish l(1,2), of 1]
    by (simp add: numeral_2_eq_2)
qed

section \<open>The handshake and the stream\<close>

definition session_secret :: "conn_conf \<Rightarrow> string \<Rightarrow> session \<Rightarrow> session \<Rightarrow> bool" where
  "session_secret cf token s s' \<longleftrightarrow>
     (if cfRsaKey cf = [] then s' = s
      else (\<exists>key. cfRsaDecrypt cf token (cfRsaKey cf) = Some key \<and> s' = setSecret key s))"

lemma recvHandshake_Return:
  "recvHandshake cf w rs c = Some (c', rs', Return u) \<Longrightarrow> decoder_ok (cDecoder c) \<Longrightarrow>
     \<exists>ds p token. rs = map Chunk ds @ rs' \<and> decoder_ok (cDecoder c')
       \<and> unread (cDecoder c) @ concat ds = frame p @ unread (cDecoder c')
       \<and> pType p = Handshake \<and> cfValidator cf (pData p) \<and> cfUnmarshal cf (pData p) = Some token
       \<and> session_secret cf token (cSession c) (cSession c')
       \<and> w"
proof (induction cf w rs c rule: recvHandshake.induct)
  case (3 cf w d rs c)
  obtain dec ps where D: "Packet.Decode (cDecoder c) d = (dec, Return ps)"
    using 3(2) by (auto split: prod.splits outcome.splits)
  note K = Decode_keeps [OF 3(3) D]
  show ?case
  proof (cases ps)
    case Nil
    then have rec: "recvHandshake cf w rs (c\<lparr>cDecoder := dec\<rparr>) = Some (c', rs', Return u)"
      using 3(2) D by simp
    obtain ds p token where *: "rs = map Chunk ds @ rs'" "decoder_ok (cDecoder c')"
      "unread dec @ concat ds = frame p @ unread (cDecoder c')"
      "pType p = Handshake" "cfValidator cf (pData p)" "cfUnmarshal cf (pData p) = Some token"
      "session_secret cf token (cSession c) (cSession c')" "w"
      using 3(1) [OF D [symmetric] refl refl Nil rec] K by (auto simp del: recvHandshake.simps)
    have st: "unread (cDecoder c) @ concat (d # ds) = unread dec @ concat ds"
      using K Nil by (simp flip: append_assoc)
    show ?thesis
      by (intro exI [of _ "d # ds"] exI [of _ p] exI [of _ token]) (use * K Nil st in auto)
  next
    case (Cons p ps')
    then have "ps' = []" using 3(2) D by (auto simp: Let_def split: list.splits)
    with Cons D 3(2) have *: "pType p = Handshake" "cfValidator cf (pData p)" "rs' = rs" "w"
      "cDecoder c' = dec"
      and "\<exists>token. cfUnmarshal cf (pData p) = Some token \<and>
        session_secret cf token (cSession c) (cSession c')"
      by (auto simp: Let_def session_secret_def split: if_splits option.splits outcome.splits)
    with K Cons \<open>ps' = []\<close> show ?thesis
      by (intro exI [of _ "[d]"] exI [of _ p]) auto
  qed
qed auto

lemma recvHandshakeAck_Return:
  "recvHandshakeAck rs c = Some (c', rs', Return qs) \<Longrightarrow> decoder_ok (cDecoder c) \<Longrightarrow>
     \<exists>ds p. rs = map Chunk ds @ rs' \<and> decoder_ok (cDecoder c')
       \<and> unread (cDecoder c) @ concat ds = frame p @ concat (map frame qs) @ unread (cDecoder c')
       \<and> pType p = HandshakeAck \<and> cSession c' = cSession c"
proof (induction rs c rule: recvHandshakeAck.induct)
  case (3 d rs c)
  obtain dec ps where D: "Packet.Decode (cDecoder c) d = (dec, Return ps)"
    using 3(2) by (auto split: prod.splits outcome.splits)
  note K = Decode_keeps [OF 3(3) D]
  show ?case
  proof (cases ps)
    case Nil
    then have rec: "recvHandshakeAck rs (c\<lparr>cDecoder := dec\<rparr>) = Some (c', rs', Return qs)"
      using 3(2) D by simp
    obtain ds p where *: "rs = map Chunk ds @ rs'" "decoder_ok (cDecoder c')"
      "unread dec @ concat ds = frame p @ concat (map frame qs) @ unread (cDecoder c')"
      "pType p = HandshakeAck" "cSession c' = cSession c"
      using 3(1) [OF D [symmetric] refl refl Nil rec] K by auto
    have st: "unread (cDecoder c) @ concat (d # ds) = unread dec @ concat ds"
      using K Nil by (simp flip: append_assoc)
    show ?thesis
      by (intro exI [of _ "d # ds"] exI [of _ p]) (use * K Nil st in auto)
  next
    case (Cons p ps')
    with D 3(2) have "pType p = HandshakeAck" "rs' = rs" "qs = ps'" "cDecoder c' = dec"
      "cSession c' = cSession c"
      by (auto simp: Let_def split: if_splits)
    with K Cons show ?thesis
      by (intro exI [of _ "[d]"] exI [of _ p]) auto
  qed
qed auto

text \<open>
  A connection is established only on a stream that begins with a handshake packet, which
  the JSON parser and the validator accept, and a handshake acknowledgement; what the two reads
  brought beyond them is handed over in full, as packets to process and as unread bytes. With an
  RSA key the secret of the session is the decrypted token, without one there is none.
\<close>

lemma establish_handshake:
  assumes "establish cf w rs (newConn s now) = Some (c, rs', Return ps)"
  shows "\<exists>ds hs ack token. rs = map Chunk ds @ rs'
    \<and> concat ds = frame hs @ frame ack @ concat (map frame ps) @ unread (cDecoder c)
    \<and> pType hs = Handshake \<and> pType ack = HandshakeAck
    \<and> cfValidator cf (pData hs) \<and> cfUnmarshal cf (pData hs) = Some token
    \<and> (if cfRsaKey cf = [] then getSecret (cSession c) = getSecret s
       else cfRsaDecrypt cf token (cfRsaKey cf) = Some (getSecret (cSession c)))"
proof -
  obtain c1 rs1 u c2 where h: "recvHandshake cf w rs (newConn s now) = Some (c1, rs1, Return u)"
    and a: "recvHandshakeAck rs1 (c1\<lparr>cState := conn_status_handshake\<rparr>) = Some (c2, rs', Return ps)"
    and c: "cDecoder c = cDecoder c2" "cSession c = cSession c2"
    using assms
    by (auto simp: establish_def split: if_splits option.splits prod.splits outcome.splits)
  have ok: "decoder_ok (cDecoder (newConn s now))" "unread (cDecoder (newConn s now)) = []"
    "cSession (newConn s now) = s"
    by (simp_all add: newConn_def)
  obtain ds hs token where H: "rs = map Chunk ds @ rs1" "decoder_ok (cDecoder c1)"
    "concat ds = frame hs @ unread (cDecoder c1)" "pType hs = Handshake"
    "cfValidator cf (pData hs)" "cfUnmarshal cf (pData hs) = Some token"
    "session_secret cf token s (cSession c1)"
    using recvHandshake_Return [OF h ok(1)] ok by auto
  obtain es ack where A: "rs1 = map Chunk es @ rs'" "pType ack = HandshakeAck"
    "unread (cDecoder c1) @ concat es = frame ack @ concat (map frame ps) @ unread (cDecoder c2)"
    "cSession c2 = cSession c1"
    using recvHandshakeAck_Return [OF a] H(2) by auto
  have "concat (ds @ es) = frame hs @ frame ack @ concat (map frame ps) @ unread (cDecoder c)"
    using H(3) A(3) c by simp
  with H A c show ?thesis
    by (intro exI [of _ "ds @ es"] exI [of _ hs] exI [of _ ack] exI [of _ token])
       (auto simp: session_secret_def getSecret_def setSecret_def split: if_splits)
qed

lemma establish_handshake_witness:
  "\<exists>ds hs ack. plain_reads = map Chunk ds @ []
    \<and> concat ds = frame hs @ frame ack @ concat (map frame []) @ unread (cDecoder plain_conn)
    \<and> pType hs = Handshake \<and> pType ack = HandshakeAck"
  using establish_handshake [OF plain_establish] by blast

end
