(* ===== verification/Gate_Server.thy ===== *)
theory Gate_Server
  imports Gate_Conn
begin

text \<open>
  The gateway server, \<open>gate/server.go\<close>: its options and their defaults, \<open>Listen\<close> and the address
  it parses, the status machine of \<open>Serve\<close>, \<open>Maintain\<close> and \<open>Shutdown\<close>, the table of sessions,
  and what \<open>handleConn\<close> and \<open>serve\<close> do to the counters of \<open>Stat\<close> as connections come and go.
  Listening itself, the websocket upgrade and the middleware are not modelled.
\<close>

section \<open>The server\<close>

definition server_status_start :: nat where [type_consts]: "server_status_start = 1"
definition server_status_maintain :: nat where [type_consts]: "server_status_maintain = 2"
definition server_status_working :: nat where [type_consts]: "server_status_working = 3"
definition server_status_closed :: nat where [type_consts]: "server_status_closed = 4"

datatype server_error = ErrInvalidAddress

record stat =
  ActiveSessionCount :: int
  CumulativeSessionCount :: int
  CumulativeConnectionCount :: int
  ActiveConnectionCount :: int
  HandshakeErrorCount :: int

text \<open>Durations are in nanoseconds. \<open>svListener\<close> says which listener \<open>Serve\<close> started.\<close>

datatype listener = ListenTCP | ListenWS | ListenWSTLS

record server =
  svBindAddr :: string
  svHost :: string
  svPort :: int
  svIsWebsocket :: bool
  svTslCertificate :: string
  svTslKey :: string
  svHandshakeValidator :: "bytes \<Rightarrow> bool"
  svHeartbeat :: int
  svDebug :: bool
  svWsPath :: string
  svRsaPrivateKey :: string
  svSessionModifer :: u64
  svHandshakeTimeout :: int
  svSendBacklog :: int
  svRecvBacklog :: int
  svRecvBuffSize :: int
  svState :: nat
  svSessions :: "u64 \<rightharpoonup> session"
  svHandler :: bool
  svListener :: "listener option"
  svStat :: stat

definition second :: int where "second = 10 ^ 9"

definition newDefaultServer :: server where
  "newDefaultServer =
     \<lparr>svBindAddr = [], svHost = [], svPort = 0, svIsWebsocket = False, svTslCertificate = [],
      svTslKey = [], svHandshakeValidator = (\<lambda>_. True), svHeartbeat = 30 * second, svDebug = False,
      svWsPath = [], svRsaPrivateKey = [], svSessionModifer = 0, svHandshakeTimeout = 2 * second,
      svSendBacklog = 16, svRecvBacklog = 16, svRecvBuffSize = 4096, svState = server_status_start,
      svSessions = Map.empty, svHandler = False, svListener = None,
      svStat = \<lparr>ActiveSessionCount = 0, CumulativeSessionCount = 0, CumulativeConnectionCount = 0,
        ActiveConnectionCount = 0, HandshakeErrorCount = 0\<rparr>\<rparr>"

section \<open>Options\<close>

type_synonym option_fn = "server \<Rightarrow> server"

definition WithSessionModifer :: "u64 \<Rightarrow> option_fn" where
  "WithSessionModifer v s = s\<lparr>svSessionModifer := v\<rparr>"
definition WithHandshakeValidator :: "(bytes \<Rightarrow> bool) \<Rightarrow> option_fn" where
  "WithHandshakeValidator f s = s\<lparr>svHandshakeValidator := f\<rparr>"
definition WithDebugMode :: "bool \<Rightarrow> option_fn" where
  "WithDebugMode v s = s\<lparr>svDebug := v\<rparr>"
definition WithHeartbeatInterval :: "int \<Rightarrow> option_fn" where
  "WithHeartbeatInterval d s = s\<lparr>svHeartbeat := d\<rparr>"
definition WithHandshakeTimeout :: "int \<Rightarrow> option_fn" where
  "WithHandshakeTimeout d s = s\<lparr>svHandshakeTimeout := d\<rparr>"
definition WithRecvBuffSize :: "int \<Rightarrow> option_fn" where
  "WithRecvBuffSize v s = s\<lparr>svRecvBuffSize := v\<rparr>"
definition WithSendBacklog :: "int \<Rightarrow> option_fn" where
  "WithSendBacklog v s = s\<lparr>svSendBacklog := v\<rparr>"
definition WithRecvBacklog :: "int \<Rightarrow> option_fn" where
  "WithRecvBacklog v s = s\<lparr>svRecvBacklog := v\<rparr>"
definition WithDictionary :: "(string \<times> u16) list \<Rightarrow> option_fn" where
  "WithDictionary dic s = s"
definition WithWSPath :: "string \<Rightarrow> option_fn" where
  "WithWSPath v s = s\<lparr>svWsPath := v\<rparr>"
definition WithIsWebsocket :: "bool \<Rightarrow> option_fn" where
  "WithIsWebsocket v s = s\<lparr>svIsWebsocket := v\<rparr>"
definition WithTSLConfig :: "string \<Rightarrow> string \<Rightarrow> option_fn" where
  "WithTSLConfig certificate key s = s\<lparr>svTslCertificate := certificate, svTslKey := key\<rparr>"

text \<open>The file is read when the option is made; an unreadable one makes the nil option.\<close>

definition WithRSAPrivateKey :: "string option \<Rightarrow> option_fn option" where
  "WithRSAPrivateKey content = map_option (\<lambda>d s. s\<lparr>svRsaPrivateKey := d\<rparr>) content"

fun apply_options :: "option_fn option list \<Rightarrow> server \<Rightarrow> server" where
  "apply_options [] s = s"
| "apply_options (None # os) s = apply_options os s"
| "apply_options (Some f # os) s = apply_options os (f s)"

section \<open>Listen\<close>

text \<open>\<open>strings.SplitN(addr, ":", 2)\<close>.\<close>

definition splitN_2 :: "char \<Rightarrow> string \<Rightarrow> string list" where
  "splitN_2 c s =
     (if c \<in> set s then [takeWhile (\<lambda>x. x \<noteq> c) s, tl (dropWhile (\<lambda>x. x \<noteq> c) s)] else [s])"

definition to_int32 :: "int \<Rightarrow> int" where
  "to_int32 i = sint (word_of_int i :: 32 word)"

text \<open>
  \<open>addrPat[1]\<close> is indexed before \<open>len(addrPat)\<close> is looked at: without a colon it panics.
\<close>

definition Listen :: "string \<Rightarrow> option_fn option list \<Rightarrow> (server_error, server) outcome" where
  "Listen addr opts =
     (let s0 = apply_options opts newDefaultServer;
          addrPat = splitN_2 (CHR '':'') addr;
          s1 = s0\<lparr>svHost :=
                 (if svIsWebsocket s0
                  then (if svTslCertificate s0 \<noteq> [] then ''wss://'' @ addrPat ! 0
                        else ''ws://'' @ addrPat ! 0)
                  else addrPat ! 0)\<rparr>
      in if length addrPat < 2 then Panic
         else (case atoi (addrPat ! 1) of
                 None \<Rightarrow> Error ErrInvalidAddress
               | Some port \<Rightarrow>
                   (let s2 = s1\<lparr>svPort := to_int32 port\<rparr> in
                    Return (s2\<lparr>svBindAddr := '':'' @ fmt_int (svPort s2)\<rparr>))))"

text \<open>\<open>gira.GatewayConfig\<close>, and the options \<open>NewConfigServer\<close> makes of it.\<close>

record gateway_config =
  gcIsWebsocket :: bool
  gcBind :: string
  gcDebug :: bool
  gcSsl :: bool
  gcCertFile :: string
  gcKeyFile :: string
  gcWsPath :: string
  gcRecvBuffSize :: int
  gcRecvBacklog :: int
  gcSendBacklog :: int
  gcHandshakeTimeout :: int
  gcHeartbeat :: int

definition config_options :: "u64 \<Rightarrow> gateway_config \<Rightarrow> option_fn option list" where
  "config_options appId config =
     [Some (WithDebugMode (gcDebug config)),
      Some (WithWSPath (gcWsPath config)),
      Some (WithIsWebsocket (gcIsWebsocket config)),
      Some (WithSessionModifer (push_bit 48 appId)),
      Some (WithRecvBuffSize (gcRecvBuffSize config)),
      Some (WithSendBacklog (gcSendBacklog config)),
      Some (WithRecvBacklog (gcRecvBacklog config)),
      Some (WithHeartbeatInterval (gcHeartbeat config)),
      Some (WithHandshakeTimeout (gcHandshakeTimeout config))]
     @ (if gcSsl config \<and> gcCertFile config \<noteq> [] \<and> gcKeyFile config \<noteq> []
        then [Some (WithTSLConfig (gcCertFile config) (gcKeyFile config))] else [])"

definition NewConfigServer :: "u64 \<Rightarrow> gateway_config \<Rightarrow> (server_error, server) outcome" where
  "NewConfigServer appId config = Listen (gcBind config) (config_options appId config)"

section \<open>Status and sessions\<close>

definition Serve :: "server \<Rightarrow> server" where
  "Serve s =
     s\<lparr>svHandler := True, svState := server_status_working,
       svListener := Some (if svIsWebsocket s
                           then (if svTslCertificate s \<noteq> [] then ListenWSTLS else ListenWS)
                           else ListenTCP)\<rparr>"

definition Maintain :: "bool \<Rightarrow> server \<Rightarrow> server" where
  "Maintain m s =
     (if svState s \<noteq> server_status_maintain \<and> svState s \<noteq> server_status_working then s
      else if m then s\<lparr>svState := server_status_maintain\<rparr>
      else s\<lparr>svState := server_status_working\<rparr>)"

text \<open>\<open>Shutdown\<close> closes the listener and kicks every session; the second call does nothing.
  The result says which sessions it kicks.\<close>

definition Shutdown :: "server \<Rightarrow> server \<times> u64 set" where
  "Shutdown s =
     (if svState s = server_status_closed then (s, {})
      else (s\<lparr>svState := server_status_closed, svListener := None\<rparr>, dom (svSessions s)))"

definition findSession :: "server \<Rightarrow> u64 \<Rightarrow> session option" where
  "findSession s i = svSessions s i"

definition put_session :: "u64 \<Rightarrow> session \<Rightarrow> server \<Rightarrow> server" where
  "put_session i x s = s\<lparr>svSessions := (svSessions s)(i \<mapsto> x)\<rparr>"

definition delete_session :: "u64 \<Rightarrow> server \<Rightarrow> server" where
  "delete_session i s = s\<lparr>svSessions := (svSessions s)(i := None)\<rparr>"

definition storeSession :: "session \<Rightarrow> server \<Rightarrow> server" where
  "storeSession x s = put_session (Id x) x s"

definition sessionClosed :: "session \<Rightarrow> server \<Rightarrow> server" where
  "sessionClosed x s = delete_session (Id x) s"

interpretation sessions: dict_ops findSession put_session delete_session
  by unfold_locales (simp_all add: fun_eq_iff findSession_def put_session_def delete_session_def)

section \<open>Connections coming and going\<close>

text \<open>
  A gate is the server, the package's session counter, and its live connections: those in the
  handshake and those whose session is being served. The statistics are updated where
  \<open>handleConn\<close> and \<open>serve\<close> update them.
\<close>

record gate =
  gServer :: server
  gCounter :: nat
  gHandshaking :: "session list"
  gActive :: "session list"

definition update_stat :: "(stat \<Rightarrow> stat) \<Rightarrow> server \<Rightarrow> server" where
  "update_stat f s = s\<lparr>svStat := f (svStat s)\<rparr>"

definition remove_nth :: "nat \<Rightarrow> 'a list \<Rightarrow> 'a list" where
  "remove_nth i xs = take i xs @ drop (Suc i) xs"

text \<open>\<open>handleConn\<close> up to \<open>c.serve\<close>: a server that is not working closes the connection.\<close>

definition handleConn :: "int \<Rightarrow> gate \<Rightarrow> gate" where
  "handleConn now g =
     (if svState (gServer g) \<noteq> server_status_working then g
      else
        (let s = update_stat (\<lambda>t. t\<lparr>CumulativeConnectionCount := CumulativeConnectionCount t + 1,
                                   ActiveConnectionCount := ActiveConnectionCount t + 1\<rparr>) (gServer g);
             (x, _) = newSession (word_of_nat (gCounter g)) (svSessionModifer s) now
         in g\<lparr>gServer := s, gCounter := gCounter g + 1, gHandshaking := x # gHandshaking g\<rparr>))"

text \<open>The handshake fails: \<open>serve\<close> counts it and returns, and so does \<open>handleConn\<close>.\<close>

definition handshake_failed :: "nat \<Rightarrow> gate \<Rightarrow> gate" where
  "handshake_failed i g =
     (if i < length (gHandshaking g) then
        g\<lparr>gServer := update_stat (\<lambda>t. t\<lparr>HandshakeErrorCount := HandshakeErrorCount t + 1,
                                       ActiveConnectionCount := ActiveConnectionCount t - 1\<rparr>) (gServer g),
          gHandshaking := remove_nth i (gHandshaking g)\<rparr>
      else g)"

text \<open>The handshake succeeds, with the secret it agreed on: the session is counted and stored.\<close>

definition established :: "nat \<Rightarrow> string \<Rightarrow> gate \<Rightarrow> gate" where
  "established i secret g =
     (if i < length (gHandshaking g) then
        (let x = setSecret secret (gHandshaking g ! i) in
         g\<lparr>gServer := storeSession x
             (update_stat (\<lambda>t. t\<lparr>ActiveSessionCount := ActiveSessionCount t + 1,
                                CumulativeSessionCount := CumulativeSessionCount t + 1\<rparr>) (gServer g)),
           gHandshaking := remove_nth i (gHandshaking g), gActive := x # gActive g\<rparr>)
      else g)"

text \<open>\<open>errGroup.Wait\<close> returned: the counter goes down, then the deferred calls run.\<close>

definition session_over :: "nat \<Rightarrow> gate \<Rightarrow> gate" where
  "session_over i g =
     (if i < length (gActive g) then
        (let x = gActive g ! i in
         g\<lparr>gServer := update_stat (\<lambda>t. t\<lparr>ActiveConnectionCount := ActiveConnectionCount t - 1\<rparr>)
             (sessionClosed x
               (update_stat (\<lambda>t. t\<lparr>ActiveSessionCount := ActiveSessionCount t - 1\<rparr>) (gServer g))),
           gActive := remove_nth i (gActive g)\<rparr>)
      else g)"

datatype gate_event =
    GServe | GMaintain bool | GShutdown | GConnect int | GHandshakeFailed nat
  | GEstablished nat string | GSessionOver nat

fun gate_step :: "gate \<Rightarrow> gate_event \<Rightarrow> gate" where
  "gate_step g GServe = g\<lparr>gServer := Serve (gServer g)\<rparr>"
| "gate_step g (GMaintain m) = g\<lparr>gServer := Maintain m (gServer g)\<rparr>"
| "gate_step g GShutdown = g\<lparr>gServer := fst (Shutdown (gServer g))\<rparr>"
| "gate_step g (GConnect now) = handleConn now g"
| "gate_step g (GHandshakeFailed i) = handshake_failed i g"
| "gate_step g (GEstablished i secret) = established i secret g"
| "gate_step g (GSessionOver i) = session_over i g"

definition gate_init :: "gate \<Rightarrow> bool" where
  "gate_init g \<longleftrightarrow> svStat (gServer g) = svStat newDefaultServer \<and> svSessions (gServer g) = Map.empty
     \<and> gCounter g = 0 \<and> gHandshaking g = [] \<and> gActive g = []"

section \<open>The counters count\<close>

definition counts_ok :: "gate \<Rightarrow> bool" where
  "counts_ok g \<longleftrightarrow>
     ActiveSessionCount (svStat (gServer g)) = int (length (gActive g))
     \<and> ActiveConnectionCount (svStat (gServer g)) = int (length (gHandshaking g) + length (gActive g))
     \<and> CumulativeConnectionCount (svStat (gServer g)) = int (gCounter g)
     \<and> CumulativeSessionCount (svStat (gServer g)) + HandshakeErrorCount (svStat (gServer g))
        + int (length (gHandshaking g)) = int (gCounter g)"

definition ids_ok :: "gate \<Rightarrow> bool" where
  "ids_ok g \<longleftrightarrow> distinct (map Id (gHandshaking g @ gActive g))
     \<and> (\<forall>x \<in> set (gHandshaking g @ gActive g).
          unat (Id x - svSessionModifer (gServer g)) \<le> gCounter g)"

definition table_ok :: "gate \<Rightarrow> bool" where
  "table_ok g \<longleftrightarrow> (\<forall>i x. findSession (gServer g) i = Some x \<longleftrightarrow> x \<in> set (gActive g) \<and> Id x = i)"

definition gate_inv :: "gate \<Rightarrow> bool" where
  "gate_inv g \<longleftrightarrow> counts_ok g \<and> (gCounter g < 2 ^ 64 \<longrightarrow> ids_ok g \<and> table_ok g)"

lemma remove_nth_split:
  assumes "i < length xs"
  obtains us y vs where "xs = us @ y # vs" and "xs ! i = y" and "remove_nth i xs = us @ vs"
  using assms id_take_nth_drop [OF assms] by (auto simp: remove_nth_def)

lemmas gate_defs = counts_ok_def ids_ok_def table_ok_def update_stat_def storeSession_def
  sessionClosed_def put_session_def delete_session_def findSession_def

lemma next_id:
  assumes "Suc n < 2 ^ 64"
  shows "unat (word_of_nat n + 1 :: u64) = Suc n"
proof -
  have "(word_of_nat n + 1 :: u64) = word_of_nat (Suc n)" by simp
  then show ?thesis using assms by (simp only: unat_of_nat) simp
qed

lemma handleConn_inv:
  assumes "gate_inv g" shows "gate_inv (handleConn now g)"
proof (cases "svState (gServer g) = server_status_working")
  case True
  define x where "x = fst (newSession (word_of_nat (gCounter g)) (svSessionModifer (gServer g)) now)"
  have g': "counts_ok (handleConn now g)" "gCounter (handleConn now g) = Suc (gCounter g)"
    "gHandshaking (handleConn now g) = x # gHandshaking g" "gActive (handleConn now g) = gActive g"
    "svSessions (gServer (handleConn now g)) = svSessions (gServer g)"
    "svSessionModifer (gServer (handleConn now g)) = svSessionModifer (gServer g)"
    using True assms
    by (simp_all add: handleConn_def update_stat_def x_def split_beta Let_def gate_inv_def counts_ok_def)
  have "ids_ok (handleConn now g) \<and> table_ok (handleConn now g)" if "Suc (gCounter g) < 2 ^ 64"
  proof -
    have ok: "ids_ok g" "table_ok g" using assms that by (auto simp: gate_inv_def)
    have new: "unat (Id x - svSessionModifer (gServer g)) = Suc (gCounter g)"
      using next_id [OF that] by (simp add: x_def newSession_def Id_def Let_def)
    then have "Id x \<noteq> Id y" if "y \<in> set (gHandshaking g @ gActive g)" for y
      using ok(1) that unfolding ids_ok_def by (metis Suc_n_not_le_n)
    then have "distinct (map Id ((x # gHandshaking g) @ gActive g))"
      using ok(1) by (auto simp: ids_ok_def)
    with ok new show ?thesis
      by (auto simp: ids_ok_def table_ok_def findSession_def g' le_SucI)
  qed
  with g' show ?thesis by (simp add: gate_inv_def)
qed (use assms in \<open>simp add: handleConn_def\<close>)

lemma handshake_failed_inv:
  assumes "gate_inv g" shows "gate_inv (handshake_failed i g)"
proof (cases "i < length (gHandshaking g)")
  case True
  then obtain us y vs where "gHandshaking g = us @ y # vs" "gHandshaking g ! i = y"
    "remove_nth i (gHandshaking g) = us @ vs" by (rule remove_nth_split)
  with True assms show ?thesis
    by (auto simp: gate_inv_def handshake_failed_def gate_defs)
qed (use assms in \<open>simp add: handshake_failed_def\<close>)

lemma Id_setSecret [simp]: "Id (setSecret k x) = Id x"
  by (simp add: Id_def setSecret_def)

lemma established_inv:
  assumes "gate_inv g" shows "gate_inv (established i secret g)"
proof (cases "i < length (gHandshaking g)")
  case True
  then obtain us y vs where G: "gHandshaking g = us @ y # vs" "gHandshaking g ! i = y"
    "remove_nth i (gHandshaking g) = us @ vs" by (rule remove_nth_split)
  have c: "counts_ok (established i secret g)"
    using True G assms
    by (simp add: gate_inv_def established_def gate_defs Let_def)
  have "ids_ok (established i secret g) \<and> table_ok (established i secret g)" if "gCounter g < 2 ^ 64"
  proof -
    have ok: "ids_ok g" "table_ok g" using assms that by (auto simp: gate_inv_def)
    have fresh: "Id y \<noteq> Id x" if "x \<in> set (gActive g)" for x
      using ok(1) G(1) that by (force simp: ids_ok_def)
    have "ids_ok (established i secret g)"
      using True G ok(1) by (auto simp: established_def gate_defs Let_def)
    moreover have "table_ok (established i secret g)"
      using True G ok(2) fresh [THEN not_sym] by (auto simp: established_def gate_defs Let_def)
    ultimately show ?thesis ..
  qed
  with c show ?thesis using True by (simp add: gate_inv_def established_def Let_def)
qed (use assms in \<open>simp add: established_def\<close>)

lemma session_over_inv:
  assumes "gate_inv g" shows "gate_inv (session_over i g)"
proof (cases "i < length (gActive g)")
  case True
  then obtain us y vs where G: "gActive g = us @ y # vs" "gActive g ! i = y"
    "remove_nth i (gActive g) = us @ vs" by (rule remove_nth_split)
  have c: "counts_ok (session_over i g)"
    using True G assms
    by (simp add: gate_inv_def session_over_def gate_defs Let_def)
  have "ids_ok (session_over i g) \<and> table_ok (session_over i g)" if "gCounter g < 2 ^ 64"
  proof -
    have ok: "ids_ok g" "table_ok g" using assms that by (auto simp: gate_inv_def)
    have fresh: "Id y \<noteq> Id x" if "x \<in> set us \<union> set vs" for x
      using ok(1) G(1) that by (force simp: ids_ok_def)
    have "ids_ok (session_over i g)"
      using True G ok(1) by (auto simp: session_over_def gate_defs Let_def)
    moreover have "table_ok (session_over i g)"
      using True G ok(2) fresh [THEN not_sym] by (auto simp: session_over_def gate_defs Let_def)
    ultimately show ?thesis ..
  qed
  with c show ?thesis using True by (simp add: gate_inv_def session_over_def Let_def)
qed (use assms in \<open>simp add: session_over_def\<close>)

lemma gate_step_inv: "gate_inv g \<Longrightarrow> gate_inv (gate_step g ev)"
proof (cases ev)
  case GServe
  assume "gate_inv g"
  with GServe show ?thesis by (auto simp: gate_inv_def gate_defs Serve_def)
next
  case (GMaintain m)
  assume "gate_inv g"
  with GMaintain show ?thesis by (auto simp: gate_inv_def gate_defs Maintain_def)
next
  case GShutdown
  assume "gate_inv g"
  with GShutdown show ?thesis by (auto simp: gate_inv_def gate_defs Shutdown_def)
qed (simp_all add: handleConn_inv handshake_failed_inv established_inv session_over_inv)

lemma gate_init_inv: "gate_init g \<Longrightarrow> gate_inv g"
  by (simp add: gate_init_def gate_inv_def gate_defs newDefaultServer_def)

interpretation gate: step_system gate_init gate_step gate_inv
  by unfold_locales (simp_all add: gate_init_inv gate_step_inv)

text \<open>
  C16. Over every sequence of connections, handshakes, failures, ends, and status changes,
  \<open>ActiveSessionCount\<close> is the number of sessions being served, \<open>ActiveConnectionCount\<close> that of
  live connections, every connection accepted has become a session, failed or is still in its
  handshake; and for the first \<open>2 ^ 64\<close> connections \<open>findSession\<close> finds exactly the sessions
  being served.
\<close>

theorem gate_counters:
  fixes g0 :: gate and evs :: "gate_event list"
  assumes "gate_init g0"
  defines "g \<equiv> foldl gate_step g0 evs"
  shows "ActiveSessionCount (svStat (gServer g)) = int (length (gActive g))
    \<and> ActiveConnectionCount (svStat (gServer g)) = int (length (gHandshaking g) + length (gActive g))
    \<and> CumulativeSessionCount (svStat (gServer g)) + HandshakeErrorCount (svStat (gServer g))
        + int (length (gHandshaking g)) = CumulativeConnectionCount (svStat (gServer g))
    \<and> (gCounter g < 2 ^ 64 \<longrightarrow>
        (findSession (gServer g) i = Some x \<longleftrightarrow> x \<in> set (gActive g) \<and> Id x = i))"
  using gate.run_inv [OF assms(1), of evs]
  by (simp add: g_def gate_inv_def counts_ok_def table_ok_def)

definition fresh_gate :: gate where
  "fresh_gate = \<lparr>gServer = newDefaultServer, gCounter = 0, gHandshaking = [], gActive = []\<rparr>"

lemma gate_counters_witness:
  "ActiveSessionCount (svStat (gServer (foldl gate_step fresh_gate
      [GServe, GConnect 5, GConnect 6, GHandshakeFailed 0, GEstablished 0 ''key'']))) = 1"
proof -
  have i: "gate_init fresh_gate"
    by (simp add: gate_init_def fresh_gate_def newDefaultServer_def)
  have "length (gActive (foldl gate_step fresh_gate
      [GServe, GConnect 5, GConnect 6, GHandshakeFailed 0, GEstablished 0 ''key''])) = 1"
    by code_simp
  with gate_counters [OF i, of "[GServe, GConnect 5, GConnect 6, GHandshakeFailed 0, GEstablished 0 ''key'']"]
  show ?thesis by simp
qed

section \<open>Listen\<close>

lemma splitN_2_colon:
  "c \<notin> set h \<Longrightarrow> splitN_2 c (h @ c # t) = [h, t]"
  by (induction h) (auto simp: splitN_2_def)

lemma to_int32_id: "- (2 ^ 31) \<le> i \<Longrightarrow> i < 2 ^ 31 \<Longrightarrow> to_int32 i = i"
  by (simp add: to_int32_def signed_of_int signed_take_bit_int_eq_self)

text \<open>
  \<open>Listen\<close> by the form of its address: without a colon it panics instead of returning
  \<open>ErrInvalidAddress\<close>; with one it succeeds exactly when what follows the first colon is a
  number, and \<open>host:port\<close> gives the host with the scheme of the listener and the bind address
  \<open>:port\<close>.
\<close>

lemma Listen_by_address:
  "(CHR '':'' \<notin> set addr \<longrightarrow> Listen addr opts = Panic)
   \<and> (CHR '':'' \<notin> set h \<longrightarrow>
       ((\<exists>s. Listen (h @ CHR '':'' # t) opts = Return s) \<longleftrightarrow> atoi t \<noteq> None)
       \<and> Listen (h @ CHR '':'' # t) opts \<noteq> Panic)
   \<and> (CHR '':'' \<notin> set h \<and> 0 \<le> port \<and> port < 2 ^ 31 \<longrightarrow>
       (\<exists>s. Listen (h @ CHR '':'' # fmt_int port) opts = Return s \<and> svPort s = port
          \<and> svBindAddr s = '':'' @ fmt_int port
          \<and> (\<exists>scheme. svHost s = scheme @ h \<and> (scheme = [] \<longleftrightarrow> \<not> svIsWebsocket s))))"
proof (intro conjI impI)
  assume "CHR '':'' \<notin> set addr"
  then show "Listen addr opts = Panic"
    by (simp add: Listen_def splitN_2_def)
next
  assume h: "CHR '':'' \<notin> set h"
  then show "(\<exists>s. Listen (h @ CHR '':'' # t) opts = Return s) \<longleftrightarrow> atoi t \<noteq> None"
    and "Listen (h @ CHR '':'' # t) opts \<noteq> Panic"
    by (auto simp: Listen_def splitN_2_colon Let_def split: option.splits)
next
  assume *: "CHR '':'' \<notin> set h \<and> 0 \<le> port \<and> port < 2 ^ 31"
  then have "atoi (fmt_int port) = Some port" by (intro atoi_fmt_int) simp_all
  with * show "\<exists>s. Listen (h @ CHR '':'' # fmt_int port) opts = Return s \<and> svPort s = port
          \<and> svBindAddr s = '':'' @ fmt_int port
          \<and> (\<exists>scheme. svHost s = scheme @ h \<and> (scheme = [] \<longleftrightarrow> \<not> svIsWebsocket s))"
    by (simp add: Listen_def splitN_2_colon to_int32_id Let_def)
qed

lemma Listen_by_address_witness:
  "Listen ''localhost'' [] = Panic
   \<and> (\<exists>s. Listen (''0.0.0.0'' @ CHR '':'' # fmt_int 8080) [] = Return s \<and> svPort s = 8080)"
  using Listen_by_address [of "''localhost''" "[]" "''0.0.0.0''" "[]" 8080] by auto

lemma Listen_Return:
  "Listen addr opts = Return s \<Longrightarrow>
     \<exists>h p b. s = (apply_options opts newDefaultServer)\<lparr>svHost := h, svPort := p, svBindAddr := b\<rparr>"
  unfolding Listen_def Let_def by (auto split: if_splits option.splits)

lemmas option_defs = WithDebugMode_def WithWSPath_def WithIsWebsocket_def WithSessionModifer_def
  WithRecvBuffSize_def WithSendBacklog_def WithRecvBacklog_def WithHeartbeatInterval_def
  WithHandshakeTimeout_def WithTSLConfig_def

text \<open>
  What a configuration makes of a server: the values of the file are taken as they are, so
  an omitted number replaces the default of \<open>newDefaultServer\<close> by zero; TLS is used only when it
  is switched on and both files are named; the session ids start at the application id shifted
  by 48.
\<close>

lemma NewConfigServer_settings:
  assumes "NewConfigServer appId config = Return s"
  shows "svHeartbeat s = gcHeartbeat config \<and> svHandshakeTimeout s = gcHandshakeTimeout config
    \<and> svSendBacklog s = gcSendBacklog config \<and> svRecvBacklog s = gcRecvBacklog config
    \<and> svRecvBuffSize s = gcRecvBuffSize config \<and> svSessionModifer s = push_bit 48 appId
    \<and> svIsWebsocket s = gcIsWebsocket config \<and> svState s = server_status_start
    \<and> svListener (Serve s) = Some
        (if \<not> gcIsWebsocket config then ListenTCP
         else if gcSsl config \<and> gcCertFile config \<noteq> [] \<and> gcKeyFile config \<noteq> [] then ListenWSTLS
         else ListenWS)"
proof -
  obtain h p b where
    "s = (apply_options (config_options appId config) newDefaultServer)
      \<lparr>svHost := h, svPort := p, svBindAddr := b\<rparr>"
    using assms Listen_Return unfolding NewConfigServer_def by blast
  moreover have "apply_options (config_options appId config) d =
      (let d' = WithHandshakeTimeout (gcHandshakeTimeout config)
            (WithHeartbeatInterval (gcHeartbeat config)
            (WithRecvBacklog (gcRecvBacklog config) (WithSendBacklog (gcSendBacklog config)
            (WithRecvBuffSize (gcRecvBuffSize config)
            (WithSessionModifer (push_bit 48 appId)
            (WithIsWebsocket (gcIsWebsocket config)
            (WithWSPath (gcWsPath config) (WithDebugMode (gcDebug config) d)))))))) in
       if gcSsl config \<and> gcCertFile config \<noteq> [] \<and> gcKeyFile config \<noteq> []
       then WithTSLConfig (gcCertFile config) (gcKeyFile config) d' else d')" for d
    by (simp add: config_options_def Let_def)
  moreover have "svTslCertificate newDefaultServer = []"
    "svState newDefaultServer = server_status_start"
    by (simp_all add: newDefaultServer_def)
  ultimately show ?thesis
    by (simp add: option_defs Serve_def Let_def)
qed

definition bare_config :: gateway_config where
  "bare_config =
     \<lparr>gcIsWebsocket = True, gcBind = '':8080'', gcDebug = False, gcSsl = True, gcCertFile = [],
      gcKeyFile = [], gcWsPath = ''/'', gcRecvBuffSize = 0, gcRecvBacklog = 0, gcSendBacklog = 0,
      gcHandshakeTimeout = 0, gcHeartbeat = 0\<rparr>"

lemma NewConfigServer_settings_witness:
  "\<exists>s. NewConfigServer 1 bare_config = Return s \<and> svHeartbeat s = 0
     \<and> svListener (Serve s) = Some ListenWS"
proof -
  have "atoi ''8080'' = Some 8080"
    by (simp add: atoi_def is_digit_def)
  moreover have "splitN_2 (CHR '':'') '':8080'' = [[], ''8080'']"
    by (simp add: splitN_2_def)
  ultimately obtain s where "NewConfigServer 1 bare_config = Return s"
    by (simp add: NewConfigServer_def Listen_def bare_config_def Let_def)
  with NewConfigServer_settings [OF this] show ?thesis by (simp add: bare_config_def)
qed

lemma gate_step_state:
  "svState (gServer (gate_step g ev)) =
     (case ev of GServe \<Rightarrow> server_status_working | GMaintain m \<Rightarrow> svState (Maintain m (gServer g))
      | GShutdown \<Rightarrow> server_status_closed | _ \<Rightarrow> svState (gServer g))"
  by (cases ev)
     (simp_all add: Serve_def Shutdown_def handleConn_def handshake_failed_def established_def
       session_over_def update_stat_def storeSession_def put_session_def sessionClosed_def
       delete_session_def Let_def split_beta)

lemma gate_step_accepts:
  "svState (gServer g) \<noteq> server_status_working \<Longrightarrow>
     gCounter (gate_step g ev) = gCounter g
     \<and> length (gHandshaking (gate_step g ev)) \<le> length (gHandshaking g)"
  by (cases ev)
     (simp_all add: handleConn_def handshake_failed_def established_def session_over_def
       remove_nth_def Let_def)

text \<open>
  After \<open>Shutdown\<close> a server accepts no connection, whatever \<open>Maintain\<close> is called with and
  whatever becomes of the connections it has, as long as \<open>Serve\<close> is not called again; and under
  \<open>Maintain(true)\<close> it accepts none until \<open>Maintain(false)\<close>, \<open>Serve\<close> or \<open>Shutdown\<close>.
\<close>

lemma no_connection_accepted:
  assumes "GServe \<notin> set evs"
    and "svState (gServer g) = server_status_closed
      \<or> (svState (gServer g) = server_status_maintain \<and> GMaintain False \<notin> set evs)"
  shows "gCounter (foldl gate_step g evs) = gCounter g
    \<and> length (gHandshaking (foldl gate_step g evs)) \<le> length (gHandshaking g)"
  using assms
proof (induction evs arbitrary: g)
  case (Cons ev evs)
  have "svState (gServer (gate_step g ev)) = server_status_closed
      \<or> (svState (gServer (gate_step g ev)) = server_status_maintain \<and> GMaintain False \<notin> set evs)"
    using Cons.prems unfolding gate_step_state
    by (cases ev)
       (auto simp: Maintain_def server_status_closed_def server_status_maintain_def
         server_status_working_def)
  moreover have "svState (gServer g) \<noteq> server_status_working"
    using Cons.prems(2)
    by (auto simp: server_status_closed_def server_status_maintain_def server_status_working_def)
  then have "gCounter (gate_step g ev) = gCounter g
      \<and> length (gHandshaking (gate_step g ev)) \<le> length (gHandshaking g)"
    by (rule gate_step_accepts)
  ultimately show ?case
    using Cons.IH [of "gate_step g ev"] Cons.prems(1) by (auto simp del: gate_step.simps)
qed simp

lemma no_connection_accepted_witness:
  "gCounter (foldl gate_step (gate_step (gate_step fresh_gate GServe) GShutdown)
      [GMaintain False, GConnect 9]) = 0"
proof -
  let ?g = "gate_step (gate_step fresh_gate GServe) GShutdown"
  have "svState (gServer ?g) = server_status_closed" "gCounter ?g = 0"
    by (simp_all add: fresh_gate_def Serve_def Shutdown_def type_consts)
  then show ?thesis
    using no_connection_accepted [of "[GMaintain False, GConnect 9]" ?g]
    by (simp del: gate_step.simps)
qed

end
