(* ===== verification/Gate_Client.thy ===== *)
theory Gate_Client
  imports Gate_Serve
begin

text \<open>
  The gateway client, \<open>gate/client/client.go\<close>: its options, the dial and the handshake, sending,
  the processing of what it reads, and \<open>Recv\<close> with the table that gives a response the route of
  its request. The dialers (TCP, websocket, TLS) are I/O: the model has which one is chosen.
  JSON and RSA coding and the random bytes of the token are parameters.

  The lemmas connect the two ends of a connection: a response or a push of the server reaches
  the caller of the client's \<open>Recv\<close>; a request on an encrypted session does not reach the
  server's handler, since the client does not encrypt what it sends.
\<close>

section \<open>The client\<close>

definition client_status_start :: nat where [type_consts]: "client_status_start = 1"
definition client_status_handshake :: nat where [type_consts]: "client_status_handshake = 2"
definition client_status_working :: nat where [type_consts]: "client_status_working = 3"
definition client_status_closed :: nat where [type_consts]: "client_status_closed = 4"

datatype client_error =
    ClientMessageError message_error | ClientPacketError packet_error
  | ErrCloseClosedSession | ErrClientBrokenPipe | ErrHandshake | ErrHandshakeAck
  | ErrClientInvalidPacket | ClientReadError | ClientWriteError | ClientJsonError | ClientRsaError
  | DialError | NotYetAckError | ClientContextError

text \<open>\<open>clCtx\<close>: no context yet, or one and whether it is cancelled. Durations in nanoseconds.\<close>

record client =
  clIsWebsocket :: bool
  clTslInsecure :: bool
  clTslCertificate :: string
  clTslKey :: string
  clHeartbeat :: int
  clDebug :: bool
  clWsPath :: string
  clRsaPublicKey :: string
  clServerAddr :: string
  clHeartbeatPacket :: bytes
  clSessionId :: u64
  clDecoder :: decoder
  clSecretKey :: string
  clDialTimeout :: int
  clResponseRouter :: "u64 \<rightharpoonup> string"
  clLastAt :: int
  clChWrite :: "bytes chan option"
  clState :: nat
  clChMessage :: "message chan option"
  clCtx :: "bool option"
  clSendBacklog :: nat
  clRecvBacklog :: nat
  clRecvBuffSize :: nat
  clHandshakeTimeout :: int
  clWritten :: "bytes list"

definition newClientConn :: "int \<Rightarrow> client" where
  "newClientConn now =
     \<lparr>clIsWebsocket = False, clTslInsecure = False, clTslCertificate = [], clTslKey = [],
      clHeartbeat = 30 * 10 ^ 9, clDebug = False, clWsPath = [], clRsaPublicKey = [],
      clServerAddr = [], clHeartbeatPacket = [], clSessionId = 0, clDecoder = NewDecoder,
      clSecretKey = [], clDialTimeout = 0, clResponseRouter = Map.empty, clLastAt = now,
      clChWrite = None, clState = client_status_start, clChMessage = None, clCtx = None,
      clSendBacklog = 16, clRecvBacklog = 16, clRecvBuffSize = 4096,
      clHandshakeTimeout = 2 * 10 ^ 9, clWritten = []\<rparr>"

section \<open>Options\<close>

type_synonym client_option = "client \<Rightarrow> client"

definition WithSendBacklog :: "nat \<Rightarrow> client_option" where
  "WithSendBacklog v c = c\<lparr>clSendBacklog := v\<rparr>"
definition WithRecvBacklog :: "nat \<Rightarrow> client_option" where
  "WithRecvBacklog v c = c\<lparr>clRecvBacklog := v\<rparr>"
definition WithRecvBuffSize :: "nat \<Rightarrow> client_option" where
  "WithRecvBuffSize v c = c\<lparr>clRecvBuffSize := v\<rparr>"
definition WithHeartbeatInterval :: "int \<Rightarrow> client_option" where
  "WithHeartbeatInterval d c = c\<lparr>clHeartbeat := d\<rparr>"
definition WithDictionary :: "(string \<times> u16) list \<Rightarrow> client_option" where
  "WithDictionary dic c = c"
definition WithWSPath :: "string \<Rightarrow> client_option" where
  "WithWSPath p c = c\<lparr>clWsPath := p\<rparr>"
definition WithServerAdd :: "string \<Rightarrow> client_option" where
  "WithServerAdd a c = c\<lparr>clServerAddr := a\<rparr>"
definition WithTSLInsecure :: "bool \<Rightarrow> client_option" where
  "WithTSLInsecure b c = c\<lparr>clTslInsecure := b\<rparr>"
definition WithTSLConfig :: "string \<Rightarrow> string \<Rightarrow> client_option" where
  "WithTSLConfig certificate key c = c\<lparr>clTslCertificate := certificate, clTslKey := key\<rparr>"
definition WithDialTimeout :: "int \<Rightarrow> client_option" where
  "WithDialTimeout t c = c\<lparr>clDialTimeout := t\<rparr>"
definition WithHandshakeTimeout :: "int \<Rightarrow> client_option" where
  "WithHandshakeTimeout t c = c\<lparr>clHandshakeTimeout := t\<rparr>"
definition WithContext :: "bool \<Rightarrow> client_option" where
  "WithContext cancelled c = c\<lparr>clCtx := Some cancelled\<rparr>"
definition WithIsWebsocket :: "bool \<Rightarrow> client_option" where
  "WithIsWebsocket b c = c\<lparr>clIsWebsocket := b\<rparr>"
definition WithDebugMode :: "bool \<Rightarrow> client_option" where
  "WithDebugMode b c = c\<lparr>clDebug := b\<rparr>"

text \<open>A key file that cannot be read makes the nil option.\<close>

definition WithRSAPublicKey :: "string option \<Rightarrow> client_option option" where
  "WithRSAPublicKey content = map_option (\<lambda>d c. c\<lparr>clRsaPublicKey := d\<rparr>) content"

text \<open>\<open>Dial\<close> calls every option, so the nil option panics.\<close>

fun apply_client_options :: "client_option option list \<Rightarrow> client \<Rightarrow> (client_error, client) outcome" where
  "apply_client_options [] c = Return c"
| "apply_client_options (None # os) c = Panic"
| "apply_client_options (Some f # os) c = apply_client_options os (f c)"

section \<open>The handshake\<close>

text \<open>
  The parameters: \<open>ceDialOk\<close> whether the chosen dialer connects, \<open>ceToken\<close> the eight random bytes,
  \<open>ceRsaEncrypt\<close> is \<open>RsaEncryptWithSha1Base64\<close>, \<open>ceHandshake\<close> the JSON of the handshake for a
  token, \<open>ceReply\<close> the parsed reply (code, heartbeat seconds, session id), \<open>ceAck\<close> the JSON of the
  empty acknowledgement, \<open>ceWriteOk\<close> whether the n-th write succeeds.
\<close>

datatype dialer = DialTcp | DialWS | DialWSTLS | DialWSTLSInsecure

record client_env =
  ceDialOk :: "dialer \<Rightarrow> bool"
  ceToken :: bytes
  ceRsaEncrypt :: "string \<Rightarrow> string \<Rightarrow> string option"
  ceHandshake :: "string \<Rightarrow> bytes"
  ceReply :: "bytes \<Rightarrow> (int \<times> int \<times> u64) option"
  ceAck :: bytes
  ceWriteOk :: "nat \<Rightarrow> bool"

definition choose_dialer :: "client \<Rightarrow> dialer" where
  "choose_dialer c =
     (if clIsWebsocket c
      then (if clTslInsecure c then DialWSTLSInsecure
            else if clTslCertificate c \<noteq> [] then DialWSTLS else DialWS)
      else DialTcp)"

text \<open>\<open>base32.StdEncoding.EncodeToString(tokenByte)[:8]\<close>: the first five bytes, in groups of five
  bits.\<close>

definition base32_char :: "bits \<Rightarrow> char" where
  "base32_char g = ''ABCDEFGHIJKLMNOPQRSTUVWXYZ234567'' ! nat_of_bits 0 g"

definition base32_8 :: "bytes \<Rightarrow> string" where
  "base32_8 b =
     (let bs = block_bits (take 5 b) in map (\<lambda>i. base32_char (take 5 (drop (5 * i) bs))) [0..<8])"

definition setSecretKey :: "string \<Rightarrow> client \<Rightarrow> client" where
  "setSecretKey key c = c\<lparr>clSecretKey := key\<rparr>"

definition write_socket :: "client_env \<Rightarrow> bytes \<Rightarrow> client \<Rightarrow> client \<times> (client_error, unit) outcome" where
  "write_socket env d c =
     (if ceWriteOk env (length (clWritten c))
      then (c\<lparr>clWritten := clWritten c @ [d]\<rparr>, Return ()) else (c, Error ClientWriteError))"

definition sendHandshake :: "client_env \<Rightarrow> client \<Rightarrow> client \<times> (client_error, unit) outcome" where
  "sendHandshake env c =
     (let token = base32_8 (ceToken env);
          (c1, sent) = (if clRsaPublicKey c \<noteq> []
                        then (setSecretKey token c, ceRsaEncrypt env token (clRsaPublicKey c))
                        else (c, Some []))
      in case sent of
           None \<Rightarrow> (c1, Error ClientRsaError)
         | Some t \<Rightarrow>
             (case Packet.Encode Handshake (ceHandshake env t) of
                Return d \<Rightarrow> write_socket env d c1
              | Error e \<Rightarrow> (c1, Error (ClientPacketError e))
              | Panic \<Rightarrow> (c1, Panic)))"

fun recvHandshakeAck_client ::
  "client_env \<Rightarrow> read_result list \<Rightarrow> client \<Rightarrow>
     (client \<times> read_result list \<times> (client_error, unit) outcome) option" where
  "recvHandshakeAck_client env [] c = None"
| "recvHandshakeAck_client env (ReadFailed # rs) c = Some (c, rs, Error ClientReadError)"
| "recvHandshakeAck_client env (Chunk d # rs) c =
     (case Packet.Decode (clDecoder c) d of
        (dec, Error e) \<Rightarrow> Some (c\<lparr>clDecoder := dec\<rparr>, rs, Error (ClientPacketError e))
      | (dec, Panic) \<Rightarrow> Some (c\<lparr>clDecoder := dec\<rparr>, rs, Panic)
      | (dec, Return packets) \<Rightarrow>
          (let c1 = c\<lparr>clDecoder := dec\<rparr> in
           case packets of
             [] \<Rightarrow> recvHandshakeAck_client env rs c1
           | [p] \<Rightarrow>
               (if pType p \<noteq> Handshake then Some (c1, rs, Error ErrClientInvalidPacket)
                else
                  (case ceReply env (pData p) of
                     None \<Rightarrow> Some (c1, rs, Error ClientJsonError)
                   | Some (code, heartbeat, sid) \<Rightarrow>
                       (if code \<noteq> 200 then Some (c1, rs, Error ErrHandshake)
                        else
                          (case Packet.Encode HandshakeAck (ceAck env) of
                             Return ack \<Rightarrow>
                               (let c2 = c1\<lparr>clSessionId := sid, clHeartbeat := heartbeat * 10 ^ 9\<rparr>;
                                    (c3, r) = write_socket env ack c2
                                in Some (c3, rs, r))
                           | Error e \<Rightarrow> Some (c1, rs, Error (ClientPacketError e))
                           | Panic \<Rightarrow> Some (c1, rs, Panic)))))
           | _ \<Rightarrow> Some (c1, rs, Error ErrClientInvalidPacket)))"

text \<open>\<open>dial\<close>; \<open>None\<close>: still waiting for the reply of the server.\<close>

definition dial ::
  "client_env \<Rightarrow> string \<Rightarrow> read_result list \<Rightarrow> client \<Rightarrow> (client_error, client) outcome option" where
  "dial env addr reads c =
     (let c1 = c\<lparr>clHeartbeatPacket := heartbeat_packet, clServerAddr := addr\<rparr> in
      if \<not> ceDialOk env (choose_dialer c1) then Some (Error DialError)
      else
        (case sendHandshake env (c1\<lparr>clState := client_status_handshake\<rparr>) of
           (c2, Error _) \<Rightarrow> Some (Error ErrHandshake)
         | (c2, Panic) \<Rightarrow> Some Panic
         | (c2, Return _) \<Rightarrow>
             (case recvHandshakeAck_client env reads c2 of
                None \<Rightarrow> None
              | Some (c3, _, Error _) \<Rightarrow> Some (Error ErrHandshakeAck)
              | Some (c3, _, Panic) \<Rightarrow> Some Panic
              | Some (c3, _, Return _) \<Rightarrow>
                  Some (Return (c3\<lparr>clState := client_status_working,
                                  clChWrite := Some (make_chan (clSendBacklog c3)),
                                  clChMessage := Some (make_chan (clRecvBacklog c3))\<rparr>)))))"

definition Dial ::
  "client_env \<Rightarrow> int \<Rightarrow> string \<Rightarrow> client_option option list \<Rightarrow> read_result list \<Rightarrow>
     (client_error, client) outcome option" where
  "Dial env now addr opts reads =
     (case apply_client_options opts (newClientConn now) of
        Return c \<Rightarrow>
          (let c1 = (if clCtx c = None then c\<lparr>clCtx := Some False\<rparr> else c) in dial env addr reads c1)
      | Error e \<Rightarrow> Some (Error e)
      | Panic \<Rightarrow> Some Panic)"

section \<open>Sending\<close>

text \<open>
  \<open>send\<close>: the route of a request is remembered before anything can fail; a closed \<open>chWrite\<close> is
  the recovered panic. \<open>None\<close>: blocked.
\<close>

definition client_send ::
  "dictionary \<Rightarrow> byte \<Rightarrow> u64 \<Rightarrow> string \<Rightarrow> bytes \<Rightarrow> client \<Rightarrow>
     (client \<times> (client_error, unit) outcome) option" where
  "client_send dic ty reqId route d c =
     (if clState c = client_status_closed then Some (c, Error ErrClientBrokenPipe)
      else
        (let c1 = (if ty = Message.Request
                   then c\<lparr>clResponseRouter := (clResponseRouter c)(reqId \<mapsto> route)\<rparr> else c);
             m = \<lparr>mType = ty, mId = reqId, mRoute = route, mData = d, mCompressed = False\<rparr>
         in case Message.Encode dic m of
              Error e \<Rightarrow> Some (c1, Error (ClientMessageError e))
            | Panic \<Rightarrow> Some (c1, Error ErrClientBrokenPipe)
            | Return em \<Rightarrow>
                (case Packet.Encode DataPacket em of
                   Error e \<Rightarrow> Some (c1, Error (ClientPacketError e))
                 | Panic \<Rightarrow> Some (c1, Error ErrClientBrokenPipe)
                 | Return p \<Rightarrow>
                     (case chan_send (clChWrite c1) p of
                        Sent ch \<Rightarrow> Some (c1\<lparr>clChWrite := Some ch\<rparr>, Return ())
                      | SendBlocks \<Rightarrow> None
                      | SendPanics \<Rightarrow> Some (c1, Error ErrClientBrokenPipe)))))"

definition Notify_client ::
  "dictionary \<Rightarrow> string \<Rightarrow> bytes \<Rightarrow> client \<Rightarrow> (client \<times> (client_error, unit) outcome) option" where
  "Notify_client dic route d c = client_send dic Message.Notify 0 route d c"

definition Request_client ::
  "dictionary \<Rightarrow> string \<Rightarrow> u64 \<Rightarrow> bytes \<Rightarrow> client \<Rightarrow> (client \<times> (client_error, unit) outcome) option" where
  "Request_client dic route reqId d c = client_send dic Message.Request reqId route d c"

definition Close_client :: "client \<Rightarrow> client \<times> (client_error, unit) outcome" where
  "Close_client c =
     (if clState c = client_status_closed then (c, Error ErrCloseClosedSession)
      else (c\<lparr>clState := client_status_closed, clCtx := Some True\<rparr>, Return ()))"

section \<open>Receiving\<close>

text \<open>A message of the wrong type or that cannot be decrypted is logged and dropped; a bad padding
  panics, with no \<open>recover\<close> on this path.\<close>

definition client_processMessage ::
  "message \<Rightarrow> client \<Rightarrow> (client \<times> (client_error, unit) outcome) option" where
  "client_processMessage m c =
     (if mType m \<noteq> Message.Response \<and> mType m \<noteq> Message.Push then Some (c, Return ())
      else
        (case (if clSecretKey c \<noteq> [] then DesDecrypt (mData m) (clSecretKey c)
               else Return (mData m)) of
           Error e \<Rightarrow> Some (c, Return ())
         | Panic \<Rightarrow> Some (c, Panic)
         | Return d \<Rightarrow>
             (case chan_send (clChMessage c) (m\<lparr>mData := d\<rparr>) of
                Sent ch \<Rightarrow> Some (c\<lparr>clChMessage := Some ch\<rparr>, Return ())
              | SendBlocks \<Rightarrow> None
              | SendPanics \<Rightarrow> Some (c, Panic))))"

definition client_processPacket ::
  "dictionary \<Rightarrow> int \<Rightarrow> bytes \<Rightarrow> packet \<Rightarrow> client \<Rightarrow>
     (client \<times> (client_error, unit) outcome) option" where
  "client_processPacket dic now spare p c =
     (let done = (\<lambda>c. Some (c\<lparr>clLastAt := now\<rparr>, Return ())) in
      if pType p = DataPacket then
        (if clState c < client_status_working then Some (c, Error NotYetAckError)
         else
           (case Message.Decode dic (pData p) spare of
              Error e \<Rightarrow> Some (c, Error (ClientMessageError e))
            | Panic \<Rightarrow> Some (c, Panic)
            | Return m \<Rightarrow>
                (case client_processMessage m c of
                   None \<Rightarrow> None
                 | Some (c1, Panic) \<Rightarrow> Some (c1, Panic)
                 | Some (c1, _) \<Rightarrow> done c1)))
      else if pType p = Heartbeat then
        (case chan_send (clChWrite c) (clHeartbeatPacket c) of
           Sent ch \<Rightarrow> done (c\<lparr>clChWrite := Some ch\<rparr>)
         | SendBlocks \<Rightarrow> None
         | SendPanics \<Rightarrow> Some (c, Panic))
      else done c)"

fun client_processPackets ::
  "dictionary \<Rightarrow> int \<Rightarrow> bytes \<Rightarrow> packet list \<Rightarrow> client \<Rightarrow>
     (client \<times> (client_error, unit) outcome) option" where
  "client_processPackets dic now spare [] c = Some (c, Return ())"
| "client_processPackets dic now spare (p # ps) c =
     (case client_processPacket dic now spare p c of
        Some (c1, Return _) \<Rightarrow> client_processPackets dic now spare ps c1
      | r \<Rightarrow> r)"

text \<open>One round of the read goroutine: a chunk is read, decoded and its packets processed.\<close>

definition client_read ::
  "dictionary \<Rightarrow> int \<Rightarrow> bytes \<Rightarrow> bytes \<Rightarrow> client \<Rightarrow> (client \<times> (client_error, unit) outcome) option" where
  "client_read dic now spare d c =
     (case Packet.Decode (clDecoder c) d of
        (dec, Error e) \<Rightarrow> Some (c\<lparr>clDecoder := dec\<rparr>, Error (ClientPacketError e))
      | (dec, Panic) \<Rightarrow> Some (c\<lparr>clDecoder := dec\<rparr>, Panic)
      | (dec, Return ps) \<Rightarrow> client_processPackets dic now spare ps (c\<lparr>clDecoder := dec\<rparr>))"

text \<open>
  \<open>Recv\<close> gives the type, the route, the request id and the data; \<open>first\<close> as for the server's.
\<close>

definition Recv_client ::
  "bool \<Rightarrow> bool \<Rightarrow> client \<Rightarrow>
     (client \<times> (client_error, byte \<times> string \<times> u64 \<times> bytes) outcome) option" where
  "Recv_client ctx_done first c =
     (if ctx_done \<and> first then Some (c, Error ClientContextError)
      else
        (case chan_recv (clChMessage c) of
           Received m ch \<Rightarrow>
             (let c1 = c\<lparr>clChMessage := Some ch\<rparr> in
              if mType m = Message.Response then
                (case clResponseRouter c1 (mId m) of
                   Some route \<Rightarrow>
                     Some (c1\<lparr>clResponseRouter := (clResponseRouter c1)(mId m := None)\<rparr>,
                           Return (mType m, route, mId m, mData m))
                 | None \<Rightarrow> Some (c1, Return (mType m, [], mId m, mData m)))
              else Some (c1, Return (mType m, [], 0, mData m)))
         | RecvClosed \<Rightarrow> Some (c, Error ErrClientBrokenPipe)
         | RecvBlocks \<Rightarrow> if ctx_done then Some (c, Error ClientContextError) else None))"

section \<open>The response router\<close>

definition router_load :: "client \<Rightarrow> u64 \<Rightarrow> string option" where
  "router_load c = clResponseRouter c"

definition router_store :: "u64 \<Rightarrow> string \<Rightarrow> client \<Rightarrow> client" where
  "router_store i r c = c\<lparr>clResponseRouter := (clResponseRouter c)(i \<mapsto> r)\<rparr>"

definition router_delete :: "u64 \<Rightarrow> client \<Rightarrow> client" where
  "router_delete i c = c\<lparr>clResponseRouter := (clResponseRouter c)(i := None)\<rparr>"

interpretation router: dict_ops router_load router_store router_delete
  by unfold_locales (simp_all add: router_load_def router_store_def router_delete_def)

section \<open>From the server to the caller\<close>

text \<open>The two ends of a connection agree on the key: none, or the eight characters of the token.\<close>

definition same_key :: "session \<Rightarrow> client \<Rightarrow> bool" where
  "same_key s c \<longleftrightarrow> getSecret s = clSecretKey c \<and> (clSecretKey c = [] \<or> length (clSecretKey c) = 8)"

text \<open>A client that has read everything sent before and has room for a message.\<close>

definition ready :: "client \<Rightarrow> message chan \<Rightarrow> bool" where
  "ready c ch \<longleftrightarrow> clState c = client_status_working \<and> clDecoder c = NewDecoder
     \<and> clChMessage c = Some ch \<and> chQueue ch = [] \<and> \<not> chClosed ch \<and> 0 < chCap ch"

lemma payload_same_key:
  assumes "same_key s c"
  shows "(if clSecretKey c \<noteq> [] then DesDecrypt (payload_or_nil s d) (clSecretKey c)
      else Return (payload_or_nil s d)) = Return d"
    and "length (payload_or_nil s d) \<le> length d + 8"
    and "d \<noteq> [] \<or> clSecretKey c \<noteq> [] \<Longrightarrow> payload_or_nil s d \<noteq> []"
proof -
  have "(if clSecretKey c \<noteq> [] then DesDecrypt (payload_or_nil s d) (clSecretKey c)
      else Return (payload_or_nil s d)) = Return d
    \<and> length (payload_or_nil s d) \<le> length d + 8
    \<and> (d \<noteq> [] \<or> clSecretKey c \<noteq> [] \<longrightarrow> payload_or_nil s d \<noteq> [])"
  proof (cases "clSecretKey c = []")
    case True
    with assms show ?thesis by (simp add: same_key_def payload_or_nil_def serialize_def)
  next
    case False
    then have k: "length (clSecretKey c) = 8" "getSecret s = clSecretKey c"
      using assms by (auto simp: same_key_def)
    obtain e where e: "DesEncrypt d (clSecretKey c) = Return e"
      using DesDecrypt_DesEncrypt(1) [OF k(1)] by blast
    note E = DesDecrypt_DesEncrypt(2,3) [OF k(1) e]
    have "payload_or_nil s d = e"
      using False k e by (simp add: payload_or_nil_def serialize_def)
    moreover have "(length d div 8 + 1) * 8 \<le> length d + 8" by simp
    ultimately show ?thesis using False E by auto
  qed
  then show "(if clSecretKey c \<noteq> [] then DesDecrypt (payload_or_nil s d) (clSecretKey c)
      else Return (payload_or_nil s d)) = Return d"
    and "length (payload_or_nil s d) \<le> length d + 8"
    and "d \<noteq> [] \<or> clSecretKey c \<noteq> [] \<Longrightarrow> payload_or_nil s d \<noteq> []"
    by blast+
qed

lemma data_frame_Return:
  "data_frame dic m = Return p \<Longrightarrow>
     \<exists>em. Message.Encode dic m = Return em \<and> Packet.Encode DataPacket em = Return p"
  by (auto simp: data_frame_def bind_outcome_Return_iff)

lemma length_encoded:
  assumes "Message.Encode dic m = Return em"
  shows "length em \<le> length (mData m) + length (mRoute m) + 13"
proof -
  have "length (header_bytes dic m) \<le> length (mRoute m) + 2"
    by (simp add: header_bytes_def split: option.split)
  then show ?thesis
    using assms length_id_bytes(2) [of "mId m"] by (auto simp: Encode_Return)
qed

text \<open>What the client's read goroutine does with the frame of a response or a push.\<close>

lemma client_read_data_frame:
  assumes "data_frame dic \<lparr>mType = ty, mId = i, mRoute = [], mData = payload_or_nil s d,
      mCompressed = False\<rparr> = Return p"
    and "same_key s c" and "ready c ch" and "dictionary_ok dic" and "length d \<le> 65000"
    and "ty = Message.Push \<or> (ty = Message.Response \<and> (d \<noteq> [] \<or> clSecretKey c \<noteq> []))"
  shows "\<exists>m c'. client_read dic now spare p c = Some (c', Return ())
    \<and> clChMessage c' = Some (ch\<lparr>chQueue := [m]\<rparr>) \<and> clResponseRouter c' = clResponseRouter c
    \<and> mType m = ty \<and> mData m = d \<and> (ty = Message.Response \<longrightarrow> mId m = i)"
proof -
  let ?m = "\<lparr>mType = ty, mId = i, mRoute = [], mData = payload_or_nil s d, mCompressed = False\<rparr>"
  obtain em where em: "Message.Encode dic ?m = Return em" "Packet.Encode DataPacket em = Return p"
    using data_frame_Return [OF assms(1)] by blast
  have len: "length em \<le> 65536"
    using length_encoded [OF em(1)] payload_same_key(2) [OF assms(2), of d] assms(5) by simp
  have ready: "clState c = client_status_working" "clDecoder c = NewDecoder"
    "clChMessage c = Some ch" "chQueue ch = []" "\<not> chClosed ch" "0 < chCap ch"
    using assms(3) by (auto simp: ready_def)
  have dec: "Packet.Decode (clDecoder c) p = (NewDecoder\<lparr>dtyp := DataPacket\<rparr>,
      Return [\<lparr>pType = DataPacket, pLength = int (length em), pData = em\<rparr>])"
    using Packet.Decode_Encode [OF em(2) len] ready by simp
  have "\<not> (ty = Message.Response \<and> payload_or_nil s d = [])"
    using assms(6) payload_same_key(3) [OF assms(2), of d] by (auto simp: type_consts)
  then have msg: "Message.Decode dic em spare = Return (received dic ?m)"
    using Decode_Encode_received [OF em(1) assms(4)] by auto
  have f: "mType (received dic ?m) = ty" "mData (received dic ?m) = payload_or_nil s d"
    "ty = Message.Response \<Longrightarrow> mId (received dic ?m) = i"
    by (auto simp: received_def Let_def)
  let ?c1 = "c\<lparr>clDecoder := NewDecoder\<lparr>dtyp := DataPacket\<rparr>\<rparr>"
  let ?r = "(received dic ?m)\<lparr>mData := d\<rparr>"
  let ?c2 = "?c1\<lparr>clChMessage := Some (ch\<lparr>chQueue := [?r]\<rparr>)\<rparr>"
  have "client_processMessage (received dic ?m) ?c1 = Some (?c2, Return ())"
    using payload_same_key(1) [OF assms(2), of d] assms(6) ready f
    by (auto simp: client_processMessage_def chan_send_def)
  then have "client_read dic now spare p c = Some (?c2\<lparr>clLastAt := now\<rparr>, Return ())"
    using dec msg ready by (simp add: client_read_def client_processPacket_def Let_def)
  then show ?thesis
    using f by (intro exI [of _ ?r] exI [of _ "?c2\<lparr>clLastAt := now\<rparr>"]) simp
qed

text \<open>
  A response of the server reaches the caller: with the same key on both ends and a
  consistent dictionary, the frame \<open>Conn.Response\<close> sends is read, decoded and decrypted by the
  client, and \<open>Recv\<close> returns the request's id and route and the very bytes of the response;
  the route is forgotten. It needs data or a key: a plain response without data is lost.
\<close>

lemma response_reaches_caller:
  assumes "response_frame dic s mid d = Return p" and "same_key s c" and "ready c ch"
    and "dictionary_ok dic" and "length d \<le> 65000" and "d \<noteq> [] \<or> clSecretKey c \<noteq> []"
    and "router_load c mid = Some route"
  shows "\<exists>c1 c2. client_read dic now spare p c = Some (c1, Return ())
    \<and> Recv_client False first c1 = Some (c2, Return (Message.Response, route, mid, d))
    \<and> router_load c2 = (router_load c)(mid := None)"
proof -
  have frame: "data_frame dic \<lparr>mType = Message.Response, mId = mid, mRoute = [],
      mData = payload_or_nil s d, mCompressed = False\<rparr> = Return p"
    using assms(1) by (simp add: response_frame_def split: if_splits)
  obtain m c1 where "client_read dic now spare p c = Some (c1, Return ())"
    and c1: "clChMessage c1 = Some (ch\<lparr>chQueue := [m]\<rparr>)" "clResponseRouter c1 = clResponseRouter c"
    and m: "mType m = Message.Response" "mData m = d" "mId m = mid"
    using client_read_data_frame [OF frame assms(2-5), of now spare] assms(6) by auto
  moreover have "Recv_client False first c1 =
      Some (router_delete mid (c1\<lparr>clChMessage := Some (ch\<lparr>chQueue := []\<rparr>)\<rparr>),
            Return (Message.Response, route, mid, d))"
    using assms(7) c1 m
    by (simp add: Recv_client_def chan_recv_def router_load_def router_delete_def)
  moreover have "router_load (router_delete mid (c1\<lparr>clChMessage := Some (ch\<lparr>chQueue := []\<rparr>)\<rparr>))
      = (router_load c)(mid := None)"
    using c1 by (simp add: router.lookup_remove) (simp add: router_load_def)
  ultimately show ?thesis by blast
qed

definition idle_client :: client where
  "idle_client = (newClientConn 0)\<lparr>clState := client_status_working,
     clChMessage := Some (make_chan 16), clChWrite := Some (make_chan 16),
     clResponseRouter := [7 \<mapsto> ''hall.login'']\<rparr>"

definition idle_session :: session where
  "idle_session = \<lparr>sId = 1, sUid = 0, sLastTime = 0, sData = Some Map.empty, sSecret = [],
     sUserData = Nil_any\<rparr>"

lemma idle_facts:
  "same_key idle_session idle_client" "ready idle_client (make_chan 16)"
  "dictionary_ok emptyDictionary"
  by (simp_all add: same_key_def getSecret_def idle_session_def idle_client_def newClientConn_def
      ready_def make_chan_def dictionary_ok_def emptyDictionary_def)

lemma response_reaches_caller_witness:
  "\<exists>c1 c2. client_read emptyDictionary 0 [] [3, 0, 0, 4, 4, 7, 104, 105] idle_client
      = Some (c1, Return ())
    \<and> Recv_client False False c1 = Some (c2, Return (Message.Response, ''hall.login'', 7, [104, 105]))"
proof -
  have "response_frame emptyDictionary idle_session 7 [104, 105]
      = Return [3, 0, 0, 4, 4, 7, 104, 105]"
    by code_simp
  from response_reaches_caller [OF this idle_facts, of "''hall.login''" 0 "[]" False]
  show ?thesis
    by (auto simp: router_load_def idle_client_def newClientConn_def)
qed

text \<open>
  A push of the server reaches the caller with its data, but never with its route: the
  route given to \<open>Conn.Push\<close> is not sent, and \<open>Recv\<close> returns the empty one.
\<close>

lemma push_reaches_caller_without_route:
  assumes "push_frame dic s route d = Return p" and "same_key s c" and "ready c ch"
    and "dictionary_ok dic" and "length d \<le> 65000"
  shows "\<exists>c1 c2. client_read dic now spare p c = Some (c1, Return ())
    \<and> Recv_client False first c1 = Some (c2, Return (Message.Push, [], 0, d))"
proof -
  obtain m c1 where "client_read dic now spare p c = Some (c1, Return ())"
    and "clChMessage c1 = Some (ch\<lparr>chQueue := [m]\<rparr>)" "mType m = Message.Push" "mData m = d"
    using client_read_data_frame [OF assms(1) [unfolded push_frame_def] assms(2-5), of now spare]
    by auto
  then show ?thesis
    by (auto simp: Recv_client_def chan_recv_def type_consts)
qed

lemma push_reaches_caller_without_route_witness:
  "\<exists>c1 c2. client_read emptyDictionary 0 [] [3, 0, 0, 4, 6, 0, 104, 105] idle_client
      = Some (c1, Return ())
    \<and> Recv_client False False c1 = Some (c2, Return (Message.Push, [], 0, [104, 105]))"
proof -
  have "push_frame emptyDictionary idle_session ''hall.notify'' [104, 105]
      = Return [3, 0, 0, 4, 6, 0, 104, 105]"
    by code_simp
  from push_reaches_caller_without_route [OF this idle_facts] show ?thesis by simp
qed

section \<open>From the caller to the handler\<close>

lemma client_send_frame:
  assumes "client_send dic ty i route d c = Some (c', Return ())" and "clChWrite c = Some ch"
  shows "\<exists>em p. Message.Encode dic
        \<lparr>mType = ty, mId = i, mRoute = route, mData = d, mCompressed = False\<rparr> = Return em
     \<and> Packet.Encode DataPacket em = Return p \<and> clChWrite c' = Some (ch\<lparr>chQueue := chQueue ch @ [p]\<rparr>)"
  using assms
  by (auto simp: client_send_def chan_send_def Let_def
      split: if_splits outcome.splits sent.splits)

text \<open>The server's reading of that frame, up to the call of \<open>processMessage\<close>.\<close>

lemma server_reads_request:
  assumes "Message.Encode dic
        \<lparr>mType = Message.Request, mId = i, mRoute = route, mData = d, mCompressed = False\<rparr> = Return em"
    and "Packet.Encode DataPacket em = Return p" and "dictionary_ok dic" and "length route < 256"
    and "length d \<le> 65000" and "cfDictionary cf = dic"
  shows "\<exists>m. snd (Packet.Decode NewDecoder p)
        = Return [\<lparr>pType = DataPacket, pLength = int (length em), pData = em\<rparr>]
     \<and> processPacket cf now \<lparr>pType = DataPacket, pLength = int (length em), pData = em\<rparr> spare k
        = processMessage cf m (k\<lparr>cLastAt := now\<rparr>)
     \<and> mType m = Message.Request \<and> mId m = i \<and> mRoute m = route \<and> mData m = d"
proof -
  let ?m = "\<lparr>mType = Message.Request, mId = i, mRoute = route, mData = d, mCompressed = False\<rparr>"
  have "length em \<le> 65536"
    using length_encoded [OF assms(1)] assms(4,5) by simp
  then have "snd (Packet.Decode NewDecoder p)
      = Return [\<lparr>pType = DataPacket, pLength = int (length em), pData = em\<rparr>]"
    using Packet.Decode_Encode [OF assms(2)] by simp
  moreover have "Message.Decode dic em spare = Return (received dic ?m)"
    using Decode_Encode_received [OF assms(1,3)] by (simp add: type_consts)
  moreover have "mType (received dic ?m) = Message.Request" "mId (received dic ?m) = i"
    "mRoute (received dic ?m) = route" "mData (received dic ?m) = d"
    using assms(4) by (auto simp: received_def Let_def)
  ultimately show ?thesis
    using assms(6) by (intro exI [of _ "received dic ?m"]) (simp add: processPacket_def)
qed

text \<open>
  A request on a session without a key reaches the handler: the frame \<open>Request\<close> queues is
  decoded by the server, and what \<open>Recv\<close> hands to the handler next is the route, the id and the
  data of the request.
\<close>

lemma request_reaches_handler:
  assumes "Request_client dic route i d c = Some (c', Return ())" and "clChWrite c = Some ch"
    and "dictionary_ok dic" and "length route < 256" and "length d \<le> 65000"
    and "cfDictionary cf = dic" and "cfHandler cf" and "getSecret (cSession k) = []"
    and "cChMessage k = Some ck" and "chQueue ck = []" and "\<not> chClosed ck" and "0 < chCap ck"
  shows "\<exists>p pk k'. clChWrite c' = Some (ch\<lparr>chQueue := chQueue ch @ [p]\<rparr>)
    \<and> snd (Packet.Decode NewDecoder p) = Return [pk]
    \<and> processPacket cf now pk spare k = Some (k', Return ())
    \<and> map_option snd (Recv_conn False first k') =
        Some (Return \<lparr>gRoute = route, gPayload = d, gReqId = i\<rparr>)"
proof -
  obtain em p where em: "Message.Encode dic
        \<lparr>mType = Message.Request, mId = i, mRoute = route, mData = d, mCompressed = False\<rparr> = Return em"
    "Packet.Encode DataPacket em = Return p" "clChWrite c' = Some (ch\<lparr>chQueue := chQueue ch @ [p]\<rparr>)"
    using client_send_frame [OF assms(1) [unfolded Request_client_def] assms(2)] by blast
  obtain m where m: "snd (Packet.Decode NewDecoder p)
        = Return [\<lparr>pType = DataPacket, pLength = int (length em), pData = em\<rparr>]"
    "processPacket cf now \<lparr>pType = DataPacket, pLength = int (length em), pData = em\<rparr> spare k
        = processMessage cf m (k\<lparr>cLastAt := now\<rparr>)"
    "mType m = Message.Request" "mId m = i" "mRoute m = route" "mData m = d"
    using server_reads_request [OF em(1,2) assms(3-6)] by blast
  let ?r = "\<lparr>gRoute = route, gPayload = d, gReqId = i\<rparr>"
  let ?k = "k\<lparr>cLastAt := now, cChMessage := Some (ck\<lparr>chQueue := [?r]\<rparr>)\<rparr>"
  have "processMessage cf m (k\<lparr>cLastAt := now\<rparr>) = Some (?k, Return ())"
    using assms(7-12) m
    by (simp add: processMessage_def message_payload_def chan_send_def type_consts Let_def)
  moreover have "map_option snd (Recv_conn False first ?k) = Some (Return ?r)"
    by (simp add: Recv_conn_def chan_recv_def)
  ultimately show ?thesis using em(3) m(1,2) by metis
qed

definition idle_conn :: "string \<Rightarrow> conn" where
  "idle_conn secret = (newConn (setSecret secret idle_session) 0)\<lparr>cChMessage := Some (make_chan 16)\<rparr>"

lemma request_sent:
  "\<exists>c'. Request_client emptyDictionary ''a.b'' 9 [1, 2, 3] idle_client = Some (c', Return ())"
proof -
  have "map_option snd (Request_client emptyDictionary ''a.b'' 9 [1, 2, 3] idle_client)
      = Some (Return ())"
    by code_simp
  then show ?thesis by auto
qed

lemma idle_write: "clChWrite idle_client = Some (make_chan 16)"
  by (simp add: idle_client_def)

lemma request_reaches_handler_witness:
  "\<exists>p pk k'. snd (Packet.Decode NewDecoder p) = Return [pk]
    \<and> processPacket plain_conf 0 pk [] (idle_conn []) = Some (k', Return ())
    \<and> map_option snd (Recv_conn False False k') =
        Some (Return \<lparr>gRoute = ''a.b'', gPayload = [1, 2, 3], gReqId = 9\<rparr>)"
proof -
  obtain c' where c': "Request_client emptyDictionary ''a.b'' 9 [1, 2, 3] idle_client
      = Some (c', Return ())"
    using request_sent by blast
  have k: "cfDictionary plain_conf = emptyDictionary" "cfHandler plain_conf"
    "getSecret (cSession (idle_conn [])) = []" "cChMessage (idle_conn []) = Some (make_chan 16)"
    "chQueue (make_chan 16) = []" "\<not> chClosed (make_chan 16)" "0 < chCap (make_chan 16)"
    by (simp_all add: plain_conf_def idle_conn_def newConn_def getSecret_def setSecret_def make_chan_def)
  show ?thesis
    using request_reaches_handler [OF c' idle_write idle_facts(3) _ _ k, of 0 "[]" False] by auto
qed

text \<open>
  On a session with a key no request whose length is not a multiple of eight reaches the
  handler: \<open>ClientConn.send\<close> does not encrypt, the server decrypts every message, and
  \<open>processPacket\<close> ends the connection with the error of \<open>DesDecrypt\<close>.
\<close>

lemma encrypted_session_rejects_requests:
  assumes "Request_client dic route i d c = Some (c', Return ())" and "clChWrite c = Some ch"
    and "dictionary_ok dic" and "length route < 256" and "length d \<le> 65000"
    and "cfDictionary cf = dic" and "length (getSecret (cSession k)) = 8"
    and "length d mod 8 \<noteq> 0"
  shows "\<exists>p pk. clChWrite c' = Some (ch\<lparr>chQueue := chQueue ch @ [p]\<rparr>)
    \<and> snd (Packet.Decode NewDecoder p) = Return [pk]
    \<and> processPacket cf now pk spare k =
        Some (k\<lparr>cLastAt := now\<rparr>, Error (CryptoError InputNotFullBlocks))"
proof -
  obtain em p where em: "Message.Encode dic
        \<lparr>mType = Message.Request, mId = i, mRoute = route, mData = d, mCompressed = False\<rparr> = Return em"
    "Packet.Encode DataPacket em = Return p" "clChWrite c' = Some (ch\<lparr>chQueue := chQueue ch @ [p]\<rparr>)"
    using client_send_frame [OF assms(1) [unfolded Request_client_def] assms(2)] by blast
  obtain m where m: "snd (Packet.Decode NewDecoder p)
        = Return [\<lparr>pType = DataPacket, pLength = int (length em), pData = em\<rparr>]"
    "processPacket cf now \<lparr>pType = DataPacket, pLength = int (length em), pData = em\<rparr> spare k
        = processMessage cf m (k\<lparr>cLastAt := now\<rparr>)"
    "mType m = Message.Request" "mData m = d"
    using server_reads_request [OF em(1,2) assms(3-6)] by blast
  have "DesDecrypt d (getSecret (cSession k)) = Error InputNotFullBlocks"
    using assms(7,8) by (simp add: DesDecrypt_def NewCipher_def BlockSize_def)
  moreover have "getSecret (cSession k) \<noteq> []" using assms(7) by auto
  ultimately have "processMessage cf m (k\<lparr>cLastAt := now\<rparr>)
      = Some (k\<lparr>cLastAt := now\<rparr>, Error (CryptoError InputNotFullBlocks))"
    using m by (simp add: processMessage_def message_payload_def type_consts)
  with em(3) m(1,2) show ?thesis by metis
qed

lemma encrypted_session_rejects_requests_witness:
  "\<exists>p pk. snd (Packet.Decode NewDecoder p) = Return [pk]
    \<and> processPacket plain_conf 5 pk [] (idle_conn ''MFRGGZDF'') =
        Some ((idle_conn ''MFRGGZDF'')\<lparr>cLastAt := 5\<rparr>, Error (CryptoError InputNotFullBlocks))"
proof -
  obtain c' where c': "Request_client emptyDictionary ''a.b'' 9 [1, 2, 3] idle_client
      = Some (c', Return ())"
    using request_sent by blast
  have k: "cfDictionary plain_conf = emptyDictionary"
    "length (getSecret (cSession (idle_conn ''MFRGGZDF''))) = 8"
    by (simp_all add: plain_conf_def idle_conn_def newConn_def getSecret_def setSecret_def)
  show ?thesis
    using encrypted_session_rejects_requests [OF c' idle_write idle_facts(3) _ _ k, of 5 "[]"] by auto
qed

section \<open>Dial\<close>

lemma length_base32_8 [simp]: "length (base32_8 b) = 8"
  by (simp add: base32_8_def Let_def)

lemma write_socket_Return:
  "write_socket env d c = (c', Return u) \<Longrightarrow> c' = c\<lparr>clWritten := clWritten c @ [d]\<rparr>"
  by (auto simp: write_socket_def split: if_splits)

lemma recvHandshakeAck_client_Return:
  "recvHandshakeAck_client env rs c = Some (c', rs', Return u) \<Longrightarrow>
     \<exists>dec p hb sid ack. Packet.Encode HandshakeAck (ceAck env) = Return ack
       \<and> ceReply env p = Some (200, hb, sid)
       \<and> c' = c\<lparr>clDecoder := dec, clSessionId := sid, clHeartbeat := hb * 10 ^ 9,
                clWritten := clWritten c @ [ack]\<rparr>"
proof (induction env rs c rule: recvHandshakeAck_client.induct)
  case (3 env d rs c)
  obtain dec ps where D: "Packet.Decode (clDecoder c) d = (dec, Return ps)"
    using 3(2) by (auto split: prod.splits outcome.splits)
  show ?case
  proof (cases ps)
    case Nil
    then have "recvHandshakeAck_client env rs (c\<lparr>clDecoder := dec\<rparr>) = Some (c', rs', Return u)"
      using 3(2) D by simp
    from 3(1) [OF D [symmetric] refl refl Nil this] show ?thesis by fastforce
  next
    case (Cons p qs)
    then have qs: "qs = []" using 3(2) D by (auto simp: Let_def split: list.splits)
    have "pType p = Handshake" using 3(2) D Cons qs by (auto simp: Let_def split: if_splits)
    then obtain hb sid ack where "Packet.Encode HandshakeAck (ceAck env) = Return ack"
      "ceReply env (pData p) = Some (200, hb, sid)"
      "write_socket env ack (c\<lparr>clDecoder := dec, clSessionId := sid, clHeartbeat := hb * 10 ^ 9\<rparr>)
        = (c', Return u)"
      using 3(2) D Cons qs
      by (auto simp: Let_def split: if_splits option.splits outcome.splits prod.splits)
    with write_socket_Return show ?thesis by fastforce
  qed
qed auto

text \<open>
  What a successful \<open>Dial\<close> has done: every option was a real one (a key file that cannot be
  read makes it panic), exactly the handshake and its acknowledgement were written, and the
  connection works with a secret of eight characters when a public key was given and with none
  otherwise.
\<close>

lemma Dial_established:
  assumes "Dial env now addr opts reads = Some (Return c)"
  shows "None \<notin> set opts \<and> clState c = client_status_working
    \<and> (\<exists>hs ack t. Packet.Encode Handshake (ceHandshake env t) = Return hs
        \<and> Packet.Encode HandshakeAck (ceAck env) = Return ack \<and> clWritten c =
            (case apply_client_options opts (newClientConn now) of Return c0 \<Rightarrow> clWritten c0 | _ \<Rightarrow> [])
            @ [hs, ack]
        \<and> (clRsaPublicKey c \<noteq> [] \<longrightarrow>
            length (clSecretKey c) = 8 \<and> ceRsaEncrypt env (clSecretKey c) (clRsaPublicKey c) = Some t))
    \<and> clChWrite c = Some (make_chan (clSendBacklog c))
    \<and> clChMessage c = Some (make_chan (clRecvBacklog c))"
proof -
  obtain c0 where c0: "apply_client_options opts (newClientConn now) = Return c0"
    using assms by (auto simp: Dial_def split: outcome.splits)
  have none: "None \<notin> set opts" if "apply_client_options opts c1 = Return c0" for c1
    using that
  proof (induction opts arbitrary: c1)
    case (Cons x xs)
    then show ?case by (cases x) auto
  qed simp
  define c1 where "c1 = (if clCtx c0 = None then c0\<lparr>clCtx := Some False\<rparr> else c0)
      \<lparr>clHeartbeatPacket := heartbeat_packet, clServerAddr := addr, clState := client_status_handshake\<rparr>"
  obtain c2 u c3 rs v where h: "sendHandshake env c1 = (c2, Return u)"
    and a: "recvHandshakeAck_client env reads c2 = Some (c3, rs, Return v)"
    and c: "c = c3\<lparr>clState := client_status_working, clChWrite := Some (make_chan (clSendBacklog c3)),
      clChMessage := Some (make_chan (clRecvBacklog c3))\<rparr>"
    using assms c0
    by (auto simp: Dial_def dial_def c1_def Let_def
        split: if_splits prod.splits outcome.splits option.splits)
  obtain t hs where hs: "Packet.Encode Handshake (ceHandshake env t) = Return hs"
    and c2: "clWritten c2 = clWritten c1 @ [hs]" "clRsaPublicKey c2 = clRsaPublicKey c1"
    and key: "clRsaPublicKey c1 \<noteq> [] \<longrightarrow> length (clSecretKey c2) = 8
      \<and> ceRsaEncrypt env (clSecretKey c2) (clRsaPublicKey c1) = Some t"
    using h
    by (auto simp: sendHandshake_def setSecretKey_def Let_def
        dest!: write_socket_Return split: if_splits option.splits outcome.splits)
  have w: "clWritten c1 = clWritten c0" by (simp add: c1_def)
  show ?thesis
    using recvHandshakeAck_client_Return [OF a] none [OF c0] hs c2 key c c0 w by auto
qed

definition plain_env :: client_env where
  "plain_env = \<lparr>ceDialOk = (\<lambda>_. True), ceToken = [1, 2, 3, 4, 5, 6, 7, 8],
     ceRsaEncrypt = (\<lambda>_ _. None), ceHandshake = (\<lambda>_. [123, 125]),
     ceReply = (\<lambda>_. Some (200, 30, 77)), ceAck = [], ceWriteOk = (\<lambda>_. True)\<rparr>"

lemma Dial_established_witness:
  "\<exists>c. Dial plain_env 0 ''localhost'' [Some (WithDebugMode True)] [Chunk [1, 0, 0, 0]] = Some (Return c)
     \<and> clState c = client_status_working \<and> clChWrite c = Some (make_chan (clSendBacklog c))"
proof -
  have "map_option (\<lambda>r. case r of Return c \<Rightarrow> clSessionId c | _ \<Rightarrow> 0)
      (Dial plain_env 0 ''localhost'' [Some (WithDebugMode True)] [Chunk [1, 0, 0, 0]]) = Some 77"
    by code_simp
  then obtain r where r: "Dial plain_env 0 ''localhost'' [Some (WithDebugMode True)] [Chunk [1, 0, 0, 0]]
      = Some r" and "(case r of Return c \<Rightarrow> clSessionId c | _ \<Rightarrow> 0) = 77"
    by auto
  then obtain c where "r = Return c" by (cases r) auto
  with r have "Dial plain_env 0 ''localhost'' [Some (WithDebugMode True)] [Chunk [1, 0, 0, 0]]
      = Some (Return c)" by simp
  with Dial_established [OF this] show ?thesis by blast
qed

end
