(* ===== verification/Registry_Etcd.thy ===== *)
theory Registry_Etcd
  imports Gira_Prelude "HOL-Library.Sublist"
begin

text \<open>
  The parts of etcd the registry uses. etcd is not code of this repository: its transactions are
  a parameter \<open>commit\<close> of every definition that uses it, with \<open>get\<close> and \<open>rv\<close> as the reader's
  view of its state, and \<open>etcd_ok\<close> states what the documentation of etcd promises of them: a
  transaction is atomic, runs the then-branch exactly when all its comparisons hold, and a key
  keeps the revision at which it was created until it is deleted. \<open>mem_commit\<close> is a concrete
  store with these laws, for the witnesses.
\<close>

section \<open>Transactions\<close>

datatype compare =
    CreateRevisionEq string int | CreateRevisionNe string int | ValueEq string string
  | ValueNe string string

datatype request = OpPut string string | OpDelete string | OpDeletePrefix string | OpGet string

record txn =
  tIf :: "compare list"
  tThen :: "request list"
  tElse :: "request list"

text \<open>\<open>RespPut\<close> carries the revision of its header, \<open>RespGet\<close> the values of the keys found.\<close>

datatype response = RespPut int | RespDelete | RespGet "string list"

record kv =
  kvValue :: string
  kvCreate :: int

type_synonym kvs = "string \<rightharpoonup> kv"

text \<open>A commit gives the new state and, unless it failed with an error, its outcome.\<close>

type_synonym 'e commit = "'e \<Rightarrow> txn \<Rightarrow> 'e \<times> (bool \<times> response list) option"

section \<open>What etcd promises\<close>

definition create_revision :: "kvs \<Rightarrow> string \<Rightarrow> int" where
  "create_revision m k = (case m k of None \<Rightarrow> 0 | Some v \<Rightarrow> kvCreate v)"

fun holds :: "kvs \<Rightarrow> compare \<Rightarrow> bool" where
  "holds m (CreateRevisionEq k r) = (create_revision m k = r)"
| "holds m (CreateRevisionNe k r) = (create_revision m k \<noteq> r)"
| "holds m (ValueEq k v) = (\<exists>x. m k = Some x \<and> kvValue x = v)"
| "holds m (ValueNe k v) = (\<exists>x. m k = Some x \<and> kvValue x \<noteq> v)"

fun apply_request :: "int \<Rightarrow> request \<Rightarrow> kvs \<Rightarrow> kvs" where
  "apply_request r (OpPut k v) m =
     m(k \<mapsto> \<lparr>kvValue = v, kvCreate = (case m k of None \<Rightarrow> r | Some o_kv \<Rightarrow> kvCreate o_kv)\<rparr>)"
| "apply_request r (OpDelete k) m = m(k := None)"
| "apply_request r (OpDeletePrefix p) m = (\<lambda>k. if prefix p k then None else m k)"
| "apply_request r (OpGet k) m = m"

fun respond :: "int \<Rightarrow> kvs \<Rightarrow> request \<Rightarrow> response" where
  "respond r m (OpPut k v) = RespPut r"
| "respond r m (OpDelete k) = RespDelete"
| "respond r m (OpDeletePrefix p) = RespDelete"
| "respond r m (OpGet k) = RespGet (case m k of None \<Rightarrow> [] | Some v \<Rightarrow> [kvValue v])"

fun run_requests :: "int \<Rightarrow> request list \<Rightarrow> kvs \<Rightarrow> response list \<times> kvs" where
  "run_requests r [] m = ([], m)"
| "run_requests r (q # qs) m =
     (let (rs, m') = run_requests r qs (apply_request r q m) in (respond r m q # rs, m'))"

definition branch :: "kvs \<Rightarrow> txn \<Rightarrow> request list" where
  "branch m t = (if list_all (holds m) (tIf t) then tThen t else tElse t)"

text \<open>The store's revision grows with a transaction that changes it, and with no other.\<close>

definition is_write :: "kvs \<Rightarrow> request \<Rightarrow> bool" where
  "is_write m q = (case q of OpPut k v \<Rightarrow> True | OpDelete k \<Rightarrow> m k \<noteq> None
     | OpDeletePrefix p \<Rightarrow> (\<exists>k. prefix p k \<and> m k \<noteq> None) | OpGet k \<Rightarrow> False)"

definition next_revision :: "int \<Rightarrow> kvs \<Rightarrow> request list \<Rightarrow> int" where
  "next_revision r m qs = (if list_ex (is_write m) qs then r + 1 else r)"

definition etcd_ok :: "('e \<Rightarrow> kvs) \<Rightarrow> ('e \<Rightarrow> int) \<Rightarrow> 'e commit \<Rightarrow> bool" where
  "etcd_ok get rv commit \<longleftrightarrow>
     (\<forall>e k v. get e k = Some v \<longrightarrow> 0 < kvCreate v \<and> kvCreate v \<le> rv e)
     \<and> (\<forall>e t e' ok rs. commit e t = (e', Some (ok, rs)) \<longrightarrow>
          ok = list_all (holds (get e)) (tIf t)
          \<and> 0 \<le> rv e \<and> rv e' = next_revision (rv e) (get e) (branch (get e) t)
          \<and> run_requests (rv e + 1) (branch (get e) t) (get e) = (rs, get e'))"

lemma etcd_commit:
  assumes "etcd_ok get rv commit" and "commit e t = (e', Some (ok, rs))"
  shows "ok = list_all (holds (get e)) (tIf t)" 
    and "rv e' = next_revision (rv e) (get e) (branch (get e) t)" and "0 \<le> rv e"
    and "run_requests (rv e + 1) (branch (get e) t) (get e) = (rs, get e')"
  using assms unfolding etcd_ok_def by blast+

lemma etcd_create:
  assumes "etcd_ok get rv commit" and "get e k = Some v"
  shows "0 < kvCreate v" and "kvCreate v \<le> rv e"
  using assms unfolding etcd_ok_def by blast+

lemma etcd_absent_iff:
  "etcd_ok get rv commit \<Longrightarrow> create_revision (get e) k = 0 \<longleftrightarrow> get e k = None"
  using etcd_create(1) [of get rv commit e k]
  by (fastforce simp: create_revision_def split: option.splits)

section \<open>A store with these laws\<close>

typedef mem = "{(m :: kvs, r :: int). 0 \<le> r \<and> (\<forall>k v. m k = Some v \<longrightarrow> 0 < kvCreate v \<and> kvCreate v \<le> r)}"
  by (rule exI [of _ "(Map.empty, 0)"]) simp

definition mem_get :: "mem \<Rightarrow> kvs" where "mem_get e = fst (Rep_mem e)"
definition mem_rev :: "mem \<Rightarrow> int" where "mem_rev e = snd (Rep_mem e)"
definition mem_empty :: mem where "mem_empty = Abs_mem (Map.empty, 0)"

definition mem_commit :: "mem commit" where
  "mem_commit e t =
     (let r = mem_rev e + 1; (rs, m) = run_requests r (branch (mem_get e) t) (mem_get e) in
      (Abs_mem (m, next_revision (mem_rev e) (mem_get e) (branch (mem_get e) t)), Some (list_all (holds (mem_get e)) (tIf t), rs)))"

lemma mem_inv: "0 \<le> mem_rev e" "mem_get e k = Some v \<Longrightarrow> 0 < kvCreate v \<and> kvCreate v \<le> mem_rev e"
  using Rep_mem [of e] by (auto simp: mem_get_def mem_rev_def split: prod.splits)

lemma mem_empty_facts [simp]: "mem_get mem_empty = Map.empty" "mem_rev mem_empty = 0"
  by (simp_all add: mem_get_def mem_rev_def mem_empty_def Abs_mem_inverse)

lemma run_requests_create:
  assumes "run_requests r qs m = (rs, m')" and "0 < r"
    and "\<And>k v. m k = Some v \<Longrightarrow> 0 < kvCreate v \<and> kvCreate v \<le> r"
  shows "m' k = Some v \<Longrightarrow> 0 < kvCreate v \<and> kvCreate v \<le> r"
  using assms
proof (induction r qs m arbitrary: rs k v rule: run_requests.induct)
  case (2 r q qs m)
  obtain rs' where rec: "run_requests r qs (apply_request r q m) = (rs', m')"
    using 2(3) by (auto simp: Let_def split: prod.splits)
  have "0 < kvCreate v \<and> kvCreate v \<le> r" if "apply_request r q m k = Some v" for k v
    using that 2(4) 2(5) by (cases q) (auto split: if_splits option.splits)
  then show ?case using 2(1) [OF 2(2) rec 2(4)] by blast
qed simp

lemma run_requests_no_write:
  "run_requests r qs m = (rs, m') \<Longrightarrow> \<not> list_ex (is_write m) qs \<Longrightarrow> m' = m"
proof (induction r qs m arbitrary: rs rule: run_requests.induct)
  case (2 r q qs m)
  have "apply_request r q m = m" using 2(3) by (cases q) (auto simp: is_write_def fun_eq_iff)
  then show ?case using 2 by (auto simp: Let_def split: prod.splits)
qed simp

lemma mem_commit_facts:
  assumes "mem_commit e t = (e', Some (ok, rs))"
  shows "ok = list_all (holds (mem_get e)) (tIf t)"
    and "mem_rev e' = next_revision (mem_rev e) (mem_get e) (branch (mem_get e) t)"
    and "run_requests (mem_rev e + 1) (branch (mem_get e) t) (mem_get e) = (rs, mem_get e')"
proof -
  let ?qs = "branch (mem_get e) t"
  let ?r = "next_revision (mem_rev e) (mem_get e) ?qs"
  obtain m where run: "run_requests (mem_rev e + 1) ?qs (mem_get e) = (rs, m)"
    and e': "e' = Abs_mem (m, ?r)" and ok: "ok = list_all (holds (mem_get e)) (tIf t)"
    using assms by (auto simp: mem_commit_def Let_def split: prod.splits)
  have r: "0 < mem_rev e + 1" using mem_inv(1) [of e] by simp
  have inv: "0 < kvCreate v \<and> kvCreate v \<le> mem_rev e + 1" if "mem_get e k = Some v" for k v
    using mem_inv(2) [OF that] by simp
  have "\<forall>k v. m k = Some v \<longrightarrow> 0 < kvCreate v \<and> kvCreate v \<le> ?r"
  proof (cases "list_ex (is_write (mem_get e)) ?qs")
    case True
    then show ?thesis using run_requests_create [OF run r] inv by (auto simp: next_revision_def)
  next
    case False
    then show ?thesis using run_requests_no_write [OF run False] mem_inv(2) [of e]
      by (auto simp: next_revision_def)
  qed
  then have rep: "Rep_mem e' = (m, ?r)"
    unfolding e' using mem_inv(1) [of e] by (intro Abs_mem_inverse) (simp add: next_revision_def)
  show "ok = list_all (holds (mem_get e)) (tIf t)" by (rule ok)
  show "mem_rev e' = ?r" by (simp add: mem_rev_def rep)
  show "run_requests (mem_rev e + 1) ?qs (mem_get e) = (rs, mem_get e')"
    using run by (simp add: mem_get_def rep)
qed

lemma mem_etcd: "etcd_ok mem_get mem_rev mem_commit"
  unfolding etcd_ok_def
proof (intro conjI allI impI)
  fix e k v assume "mem_get e k = Some v"
  then show "0 < kvCreate v" "kvCreate v \<le> mem_rev e" using mem_inv(2) by blast+
next
  fix e t e' ok rs assume c: "mem_commit e t = (e', Some (ok, rs))"
  note F = mem_commit_facts [OF c]
  show "ok = list_all (holds (mem_get e)) (tIf t)" "0 \<le> mem_rev e"
    "mem_rev e' = next_revision (mem_rev e) (mem_get e) (branch (mem_get e) t)"
    "run_requests (mem_rev e + 1) (branch (mem_get e) t) (mem_get e) = (rs, mem_get e')"
    using F mem_inv(1) [of e] by simp_all
qed

lemma mem_commits: "\<exists>e' ok rs. mem_commit e t = (e', Some (ok, rs))"
  by (auto simp: mem_commit_def Let_def split: prod.splits)

text \<open>A store that answers every transaction, as \<open>mem_commit\<close> does.\<close>

definition answers :: "'e commit \<Rightarrow> bool" where
  "answers commit \<longleftrightarrow> (\<forall>e t. snd (commit e t) \<noteq> None)"

lemma answered: "answers commit \<Longrightarrow> \<exists>e' ok rs. commit e t = (e', Some (ok, rs))"
  unfolding answers_def by (metis option.exhaust prod.exhaust prod.collapse)

lemma mem_answers: "answers mem_commit"
  unfolding answers_def
proof (intro allI)
  fix e t
  obtain e' ok rs where "mem_commit e t = (e', Some (ok, rs))" using mem_commits by blast
  then show "snd (mem_commit e t) \<noteq> None" by simp
qed

text \<open>What a get finds.\<close>

definition found :: "kvs \<Rightarrow> string \<Rightarrow> string list" where
  "found m k = (case m k of None \<Rightarrow> [] | Some v \<Rightarrow> [kvValue v])"

lemma respond_get [simp]: "respond r m (OpGet k) = RespGet (found m k)"
  by (simp add: found_def)

declare respond.simps(4) [simp del]

end
