(* ===== verification/Registry_Player.thy ===== *)
theory Registry_Player
  imports Registry_Etcd
begin

text \<open>
  The player registry, \<open>registry/player.go\<close>: which node a user is on. A user is locked by three
  etcd keys, one per node (\<open>localKey\<close>), one per kind of node (\<open>peerKey\<close>) and one per user
  (\<open>userKey\<close>), and by an entry in the node's own map. The watch handlers are the history \<open>prNotes\<close>
  of the notifications sent. Peers are looked up with \<open>getPeer\<close>, the registry's peer table.

  The lemmas: a lock succeeds exactly when no node of the same kind holds the user, and then
  excludes every other node of that kind; an unlock undoes it; and what happens when nodes of
  different kinds lock the same user.
\<close>

section \<open>State\<close>

text \<open>The parts of \<open>Registry\<close> the player registry reads.\<close>

record app =
  aFullName :: string
  aName :: string
  aId :: int

record local_player =
  plUserId :: string
  plLoginTime :: int
  plCreateRevision :: int

datatype player_note = PlayerAdded local_player | PlayerDeleted local_player

record player_registry =
  prLocalPlayers :: "string \<rightharpoonup> local_player"
  prIsNotify :: bool
  prWatchStartRevision :: int
  prNotes :: "player_note list"

datatype player_error =
  ErrUserLocked | ErrUserNotFound | ErrPeerNotFound | InvalidKey | InvalidValue | CommitError | GetError

definition peerTypePrefix :: "app \<Rightarrow> string" where
  "peerTypePrefix a = ''/peer_type/user/'' @ aName a @ ''/''"
definition peerPrefix :: "app \<Rightarrow> string" where
  "peerPrefix a = ''/peer/user/'' @ aFullName a @ ''/''"
definition userPrefix :: string where "userPrefix = ''/user/''"

definition localKey :: "app \<Rightarrow> string \<Rightarrow> string" where "localKey a u = peerPrefix a @ u"
definition peerKey :: "app \<Rightarrow> string \<Rightarrow> string" where "peerKey a u = peerTypePrefix a @ u"
definition userKey :: "string \<Rightarrow> string" where "userKey u = userPrefix @ u"

definition newConfigPlayerRegistry :: player_registry where
  "newConfigPlayerRegistry = \<lparr>prLocalPlayers = Map.empty, prIsNotify = False, prWatchStartRevision = 0, prNotes = []\<rparr>"

definition onLocalPlayerAdd :: "local_player \<Rightarrow> player_registry \<Rightarrow> player_registry" where
  "onLocalPlayerAdd p s =
     (if \<not> prIsNotify s then s else s\<lparr>prNotes := prNotes s @ [PlayerAdded p]\<rparr>)"

definition onLocalPlayerDelete :: "local_player \<Rightarrow> player_registry \<Rightarrow> player_registry" where
  "onLocalPlayerDelete p s = s\<lparr>prNotes := prNotes s @ [PlayerDeleted p]\<rparr>"

text \<open>\<open>notify\<close> ranges over the map; the list is the order of that iteration.\<close>

definition notify_players :: "local_player list \<Rightarrow> player_registry \<Rightarrow> player_registry" where
  "notify_players order s = fold onLocalPlayerAdd order s"

section \<open>Events of the watch\<close>

definition onLocalKvAdd ::
  "string \<Rightarrow> string \<Rightarrow> int \<Rightarrow> player_registry \<Rightarrow> player_registry \<times> player_error option" where
  "onLocalKvAdd key v create_rv s =
     (let pats = split_on (CHR ''/'') key in
      if length pats \<noteq> 5 then (s, Some InvalidKey)
      else
        (let userId = pats ! 4 in
         case atoi v of
           None \<Rightarrow> (s, Some InvalidValue)
         | Some loginTime \<Rightarrow>
             (if prLocalPlayers s userId \<noteq> None then (s, None)
              else
                (let p = \<lparr>plUserId = userId, plLoginTime = loginTime, plCreateRevision = create_rv\<rparr> in
                 (onLocalPlayerAdd p (s\<lparr>prLocalPlayers := (prLocalPlayers s)(userId \<mapsto> p)\<rparr>), None)))))"

definition onLocalKvDelete :: "string \<Rightarrow> player_registry \<Rightarrow> player_registry \<times> player_error option" where
  "onLocalKvDelete key s =
     (let pats = split_on (CHR ''/'') key in
      if length pats \<noteq> 5 then (s, Some InvalidKey)
      else
        (let userId = pats ! 4 in
         case prLocalPlayers s userId of
           None \<Rightarrow> (s, None)
         | Some p \<Rightarrow>
             (onLocalPlayerDelete p (s\<lparr>prLocalPlayers := (prLocalPlayers s)(userId := None)\<rparr>), None)))"

text \<open>
  \<open>recoverSelfPeerPlayers\<close> adds the keys found under the prefix and stops at the first error;
  its argument is what \<open>kv.Get\<close> returns, the keys and the revision of the header.
\<close>

fun recover_kvs ::
  "(string \<times> string \<times> int) list \<Rightarrow> player_registry \<Rightarrow> player_registry \<times> player_error option" where
  "recover_kvs [] s = (s, None)"
| "recover_kvs ((k, v, r) # kvs) s =
     (case onLocalKvAdd k v r s of
        (s', Some e) \<Rightarrow> (s', Some e)
      | (s', None) \<Rightarrow> recover_kvs kvs s')"

definition recoverSelfPeerPlayers ::
  "((string \<times> string \<times> int) list \<times> int) option \<Rightarrow> player_registry \<Rightarrow>
     player_registry \<times> player_error option" where
  "recoverSelfPeerPlayers getResp s =
     (case getResp of
        None \<Rightarrow> (s, Some GetError)
      | Some (kvs, revision) \<Rightarrow>
          (case recover_kvs kvs s of
             (s', Some e) \<Rightarrow> (s', Some e)
           | (s', None) \<Rightarrow> (s'\<lparr>prWatchStartRevision := revision + 1\<rparr>, None)))"

text \<open>\<open>watchSelfPeerPlayers\<close> logs the errors and goes on.\<close>

datatype kv_event = KvPut string string int | KvDelete string

fun watchSelfPeerPlayers :: "kv_event list \<Rightarrow> player_registry \<Rightarrow> player_registry" where
  "watchSelfPeerPlayers [] s = s"
| "watchSelfPeerPlayers (KvPut k v r # evs) s = watchSelfPeerPlayers evs (fst (onLocalKvAdd k v r s))"
| "watchSelfPeerPlayers (KvDelete k # evs) s = watchSelfPeerPlayers evs (fst (onLocalKvDelete k s))"

section \<open>Locking\<close>

text \<open>
  A result is the pair of Go: a peer (or nil) and an error (or nil). \<open>getPeer\<close> of a name that is
  not known gives nil.
\<close>

type_synonym 'p lock_result = "'p option \<times> player_error option"

definition locked_by :: "(string \<Rightarrow> 'p option) \<Rightarrow> response list \<Rightarrow> 'p lock_result" where
  "locked_by getPeer rs =
     (let fullName = (case rs of RespGet (v # _) # _ \<Rightarrow> v | _ \<Rightarrow> []) in (getPeer fullName, Some ErrUserLocked))"

definition lock_txn :: "app \<Rightarrow> string \<Rightarrow> int \<Rightarrow> txn" where
  "lock_txn a u now =
     \<lparr>tIf = [CreateRevisionEq (peerKey a u) 0],
      tThen = [OpPut (userKey u) (aFullName a), OpPut (localKey a u) (fmt_int now),
               OpPut (peerKey a u) (aFullName a)],
      tElse = [OpGet (peerKey a u)]\<rparr>"

definition LockLocalUser ::
  "'e commit \<Rightarrow> (string \<Rightarrow> 'p option) \<Rightarrow> app \<Rightarrow> string \<Rightarrow> int \<Rightarrow> 'e \<times> player_registry \<Rightarrow>
     ('e \<times> player_registry) \<times> 'p lock_result" where
  "LockLocalUser commit getPeer a u now es =
     (let (e, s) = es in
      case commit e (lock_txn a u now) of
        (e', None) \<Rightarrow> ((e', s), (None, Some CommitError))
      | (e', Some (True, rs)) \<Rightarrow>
          (let create_rv = (case rs ! 1 of RespPut r \<Rightarrow> r | _ \<Rightarrow> 0);
               p = \<lparr>plUserId = u, plLoginTime = now, plCreateRevision = create_rv\<rparr>
           in ((e', onLocalPlayerAdd p (s\<lparr>prLocalPlayers := (prLocalPlayers s)(u \<mapsto> p)\<rparr>)), (None, None)))
      | (e', Some (False, rs)) \<Rightarrow> ((e', s), locked_by getPeer rs))"

definition unlock_txn :: "app \<Rightarrow> string \<Rightarrow> int \<Rightarrow> txn" where
  "unlock_txn a u create_rv =
     \<lparr>tIf = [CreateRevisionEq (userKey u) create_rv],
      tThen = [OpDelete (localKey a u), OpDelete (peerKey a u), OpDelete (userKey u)],
      tElse = [OpGet (peerKey a u)]\<rparr>"

definition UnlockLocalUser ::
  "'e commit \<Rightarrow> (string \<Rightarrow> 'p option) \<Rightarrow> app \<Rightarrow> string \<Rightarrow> 'e \<times> player_registry \<Rightarrow>
     ('e \<times> player_registry) \<times> 'p lock_result" where
  "UnlockLocalUser commit getPeer a u es =
     (let (e, s) = es in
      case prLocalPlayers s u of
        None \<Rightarrow> ((e, s), (None, Some ErrUserNotFound))
      | Some p \<Rightarrow>
          (case commit e (unlock_txn a u (plCreateRevision p)) of
             (e', None) \<Rightarrow> ((e', s), (None, Some CommitError))
           | (e', Some (True, rs)) \<Rightarrow>
               ((e', onLocalPlayerDelete p (s\<lparr>prLocalPlayers := (prLocalPlayers s)(u := None)\<rparr>)),
                (None, None))
           | (e', Some (False, rs)) \<Rightarrow> ((e', s), locked_by getPeer rs)))"

text \<open>\<open>unregisterLocalPlayers\<close>: one transaction for each player in the order of the iteration.\<close>

definition unregister_txn :: "app \<Rightarrow> string \<Rightarrow> txn" where
  "unregister_txn a u =
     \<lparr>tIf = [CreateRevisionNe (localKey a u) 0],
      tThen = [OpDelete (localKey a u), OpDelete (peerKey a u), OpDelete (userKey u)], tElse = []\<rparr>"

fun unregisterLocalPlayers :: "'e commit \<Rightarrow> app \<Rightarrow> string list \<Rightarrow> 'e \<Rightarrow> 'e" where
  "unregisterLocalPlayers commit a [] e = e"
| "unregisterLocalPlayers commit a (u # us) e =
     unregisterLocalPlayers commit a us (fst (commit e (unregister_txn a u)))"

definition ListLocalUser :: "player_registry \<Rightarrow> string set" where
  "ListLocalUser s = dom (prLocalPlayers s)"

text \<open>
  \<open>WhereIsUser\<close>: the node itself for a user of its own, else the node named by the user's key;
  \<open>getResp\<close> is what \<open>kv.Get\<close> of the user's key returns, the values found or an error.
\<close>

definition WhereIsUser ::
  "'p option \<Rightarrow> (string \<Rightarrow> 'p option) \<Rightarrow> string list option \<Rightarrow> string \<Rightarrow> player_registry \<Rightarrow>
     'p lock_result" where
  "WhereIsUser selfPeer getPeer getResp u s =
     (if prLocalPlayers s u \<noteq> None then (selfPeer, None)
      else
        (case getResp of
           None \<Rightarrow> (None, Some GetError)
         | Some [] \<Rightarrow> (None, Some ErrUserNotFound)
         | Some (fullName # _) \<Rightarrow>
             (case getPeer fullName of
                None \<Rightarrow> (None, Some ErrPeerNotFound) | Some p \<Rightarrow> (Some p, None))))"

section \<open>The keys\<close>

lemmas key_defs = localKey_def peerKey_def userKey_def peerPrefix_def peerTypePrefix_def userPrefix_def

lemma keys_differ [simp]:
  "localKey a u \<noteq> peerKey b v" "peerKey b v \<noteq> localKey a u"
  "localKey a u \<noteq> userKey v" "userKey v \<noteq> localKey a u"
  "peerKey a u \<noteq> userKey v" "userKey v \<noteq> peerKey a u"
  by (simp_all add: key_defs)

lemma userKey_inj [simp]: "userKey u = userKey v \<longleftrightarrow> u = v"
  by (simp add: key_defs)

lemma before_slash:
  assumes "x @ CHR ''/'' # u = y @ CHR ''/'' # v"
    and "CHR ''/'' \<notin> set x" and "CHR ''/'' \<notin> set y"
  shows "x = y \<and> u = v"
proof -
  have tw: "takeWhile (\<lambda>c. c \<noteq> CHR ''/'') (z @ CHR ''/'' # w) = z"
    if "CHR ''/'' \<notin> set z" for z w
    using that by (induction z) auto
  have "x = y" using tw [OF assms(2), of u] tw [OF assms(3), of v] assms(1) by simp
  then show ?thesis using assms(1) by simp
qed

text \<open>Names without a slash, as \<open>FormatAppFullName\<close> makes them of the parts of a name.\<close>

definition plain_names :: "app \<Rightarrow> bool" where
  "plain_names a \<longleftrightarrow> CHR ''/'' \<notin> set (aName a) \<and> CHR ''/'' \<notin> set (aFullName a)"

lemma peerKey_inj:
  assumes "plain_names a" and "plain_names b"
  shows "peerKey a u = peerKey b v \<longleftrightarrow> aName a = aName b \<and> u = v"
  using before_slash [of "aName a" u "aName b" v] assms by (auto simp: key_defs plain_names_def)

lemma localKey_inj:
  assumes "plain_names a" and "plain_names b"
  shows "localKey a u = localKey b v \<longleftrightarrow> aFullName a = aFullName b \<and> u = v"
  using before_slash [of "aFullName a" u "aFullName b" v] assms by (auto simp: key_defs plain_names_def)

lemma peerKey_kind: "peerKey a u = peerKey b u \<longleftrightarrow> aName a = aName b"
  by (simp add: key_defs)

lemma localKey_node: "localKey a u = localKey b u \<longleftrightarrow> aFullName a = aFullName b"
  by (simp add: key_defs)

section \<open>What a transaction does\<close>

text \<open>The keys of a lock and of an unlock, on both branches.\<close>

definition lock_kvs :: "app \<Rightarrow> string \<Rightarrow> int \<Rightarrow> int \<Rightarrow> kvs \<Rightarrow> kvs" where
  "lock_kvs a u now r m =
     apply_request r (OpPut (peerKey a u) (aFullName a))
       (apply_request r (OpPut (localKey a u) (fmt_int now))
         (apply_request r (OpPut (userKey u) (aFullName a)) m))"

definition unlock_kvs :: "app \<Rightarrow> string \<Rightarrow> kvs \<Rightarrow> kvs" where
  "unlock_kvs a u m = m(localKey a u := None, peerKey a u := None, userKey u := None)"

lemma lock_commit:
  assumes etcd: "etcd_ok get rv commit" and c: "commit e (lock_txn a u now) = (e', Some (ok, rs))"
  shows "ok \<longleftrightarrow> get e (peerKey a u) = None"
    and "ok \<Longrightarrow> get e' = lock_kvs a u now (rv e + 1) (get e) \<and> rs ! 1 = RespPut (rv e + 1) \<and> rv e' = rv e + 1"
    and "\<not> ok \<Longrightarrow> get e' = get e \<and> rs = [RespGet (found (get e) (peerKey a u))] \<and> rv e' = rv e"
proof -
  note F = etcd_commit [OF etcd c]
  have ok: "ok = (create_revision (get e) (peerKey a u) = 0)" using F(1) by (simp add: lock_txn_def)
  then show "ok \<longleftrightarrow> get e (peerKey a u) = None" using etcd_absent_iff [OF etcd] by blast
  show "ok \<Longrightarrow> get e' = lock_kvs a u now (rv e + 1) (get e) \<and> rs ! 1 = RespPut (rv e + 1) \<and> rv e' = rv e + 1"
    using F(2,4) ok
    by (auto simp: branch_def lock_txn_def lock_kvs_def next_revision_def is_write_def)
  show "\<not> ok \<Longrightarrow> get e' = get e \<and> rs = [RespGet (found (get e) (peerKey a u))] \<and> rv e' = rv e"
    using F(2,4) ok
    by (auto simp: branch_def lock_txn_def next_revision_def is_write_def)
qed

lemma unlock_commit:
  assumes etcd: "etcd_ok get rv commit" and c: "commit e (unlock_txn a u r) = (e', Some (ok, rs))"
  shows "ok \<longleftrightarrow> create_revision (get e) (userKey u) = r"
    and "ok \<Longrightarrow> get e' = unlock_kvs a u (get e)"
    and "\<not> ok \<Longrightarrow> get e' = get e \<and> rs = [RespGet (found (get e) (peerKey a u))]"
proof -
  note F = etcd_commit [OF etcd c]
  show ok: "ok \<longleftrightarrow> create_revision (get e) (userKey u) = r" using F(1) by (simp add: unlock_txn_def)
  show "ok \<Longrightarrow> get e' = unlock_kvs a u (get e)"
    using F(4) ok by (auto simp: branch_def unlock_txn_def unlock_kvs_def)
  show "\<not> ok \<Longrightarrow> get e' = get e \<and> rs = [RespGet (found (get e) (peerKey a u))]"
    using F(4) ok by (auto simp: branch_def unlock_txn_def)
qed

definition locker :: "(string \<Rightarrow> 'p option) \<Rightarrow> kvs \<Rightarrow> string \<Rightarrow> 'p lock_result" where
  "locker getPeer m k =
     (getPeer (case m k of None \<Rightarrow> [] | Some v \<Rightarrow> kvValue v), Some ErrUserLocked)"

lemma locked_by_found [simp]: "locked_by getPeer [RespGet (found m k)] = locker getPeer m k"
  by (simp add: locked_by_def found_def locker_def split: option.splits)

lemma locker_update [simp]:
  "locker getPeer (m(k \<mapsto> v)) k = (getPeer (kvValue v), Some ErrUserLocked)"
  "k \<noteq> k' \<Longrightarrow> locker getPeer (m(k \<mapsto> v)) k' = locker getPeer m k'"
  by (simp_all add: locker_def)

text \<open>The player a lock enters, and its whole effect when the transaction is answered.\<close>

definition locked_player :: "string \<Rightarrow> int \<Rightarrow> int \<Rightarrow> local_player" where
  "locked_player u now r = \<lparr>plUserId = u, plLoginTime = now, plCreateRevision = r\<rparr>"

definition enter :: "local_player \<Rightarrow> player_registry \<Rightarrow> player_registry" where
  "enter p s = onLocalPlayerAdd p (s\<lparr>prLocalPlayers := (prLocalPlayers s)(plUserId p \<mapsto> p)\<rparr>)"

lemma enter_players [simp]: "prLocalPlayers (enter p s) = (prLocalPlayers s)(plUserId p \<mapsto> p)"
  by (simp add: enter_def onLocalPlayerAdd_def)

lemma locked_player_sel [simp]:
  "plUserId (locked_player u now r) = u" "plCreateRevision (locked_player u now r) = r"
  by (simp_all add: locked_player_def)

lemma lock_free:
  assumes "etcd_ok get rv commit" and "commit e (lock_txn a u now) = (e', Some x)"
    and "get e (peerKey a u) = None"
  shows "LockLocalUser commit getPeer a u now (e, s) =
           ((e', enter (locked_player u now (rv e + 1)) s), (None, None))"
    and "get e' = lock_kvs a u now (rv e + 1) (get e)" and "rv e' = rv e + 1"
proof -
  obtain ok rs where x: "x = (ok, rs)" by (cases x)
  note F = lock_commit [OF assms(1) assms(2) [unfolded x]]
  have ok: "ok" using F(1) assms(3) by blast
  show "get e' = lock_kvs a u now (rv e + 1) (get e)" "rv e' = rv e + 1" using F(2) [OF ok] by blast+
  show "LockLocalUser commit getPeer a u now (e, s) =
           ((e', enter (locked_player u now (rv e + 1)) s), (None, None))"
    using F(2) [OF ok] ok assms(2) x
    by (simp add: LockLocalUser_def enter_def locked_player_def Let_def)
qed

lemma lock_taken:
  assumes "etcd_ok get rv commit" and "commit e (lock_txn a u now) = (e', Some x)"
    and "get e (peerKey a u) \<noteq> None"
  shows "LockLocalUser commit getPeer a u now (e, s) = ((e', s), locker getPeer (get e) (peerKey a u))"
    and "get e' = get e" and "rv e' = rv e"
proof -
  obtain ok rs where x: "x = (ok, rs)" by (cases x)
  note F = lock_commit [OF assms(1) assms(2) [unfolded x]]
  have ok: "\<not> ok" using F(1) assms(3) by blast
  show "get e' = get e" "rv e' = rv e" using F(3) [OF ok] by blast+
  show "LockLocalUser commit getPeer a u now (e, s) = ((e', s), locker getPeer (get e) (peerKey a u))"
    using F(3) [OF ok] ok assms(2) x by (simp add: LockLocalUser_def)
qed

lemma unlock_held:
  assumes "etcd_ok get rv commit" and "prLocalPlayers s u = Some p"
    and "commit e (unlock_txn a u (plCreateRevision p)) = (e', Some x)"
    and "create_revision (get e) (userKey u) = plCreateRevision p"
  shows "UnlockLocalUser commit getPeer a u (e, s) =
           ((e', onLocalPlayerDelete p (s\<lparr>prLocalPlayers := (prLocalPlayers s)(u := None)\<rparr>)), (None, None))"
    and "get e' = unlock_kvs a u (get e)"
proof -
  obtain ok rs where x: "x = (ok, rs)" by (cases x)
  note F = unlock_commit [OF assms(1) assms(3) [unfolded x]]
  have ok: "ok" using F(1) assms(4) by blast
  show "get e' = unlock_kvs a u (get e)" using F(2) [OF ok] .
  show "UnlockLocalUser commit getPeer a u (e, s) =
           ((e', onLocalPlayerDelete p (s\<lparr>prLocalPlayers := (prLocalPlayers s)(u := None)\<rparr>)), (None, None))"
    using ok assms(2,3) x by (simp add: UnlockLocalUser_def)
qed

lemma unlock_refused:
  assumes "etcd_ok get rv commit" and "prLocalPlayers s u = Some p"
    and "commit e (unlock_txn a u (plCreateRevision p)) = (e', Some x)"
    and "create_revision (get e) (userKey u) \<noteq> plCreateRevision p"
  shows "UnlockLocalUser commit getPeer a u (e, s) = ((e', s), locker getPeer (get e) (peerKey a u))"
    and "get e' = get e"
proof -
  obtain ok rs where x: "x = (ok, rs)" by (cases x)
  note F = unlock_commit [OF assms(1) assms(3) [unfolded x]]
  have ok: "\<not> ok" using F(1) assms(4) by blast
  show "get e' = get e" using F(3) [OF ok] by blast
  show "UnlockLocalUser commit getPeer a u (e, s) = ((e', s), locker getPeer (get e) (peerKey a u))"
    using F(3) [OF ok] ok assms(2,3) x by (simp add: UnlockLocalUser_def)
qed

section \<open>A cluster of nodes\<close>

text \<open>
  The nodes of a cluster share the store. They lock and unlock users, stop (which unlocks all of
  them), crash (which leaves their keys) and start again (which recovers the users of their keys).
  \<open>OpStop\<close> and \<open>OpRecover\<close> carry the order in which the map is ranged over and the keys that
  \<open>kv.Get\<close> finds, and do nothing for others.
\<close>

record 'e cluster =
  clEtcd :: 'e
  clNode :: "nat \<Rightarrow> player_registry"

datatype cluster_op =
    OpLock nat string int | OpUnlock nat string | OpStop nat "string list" | OpCrash nat
  | OpRecover nat "(string \<times> string \<times> int) list" int

definition stored :: "kvs \<Rightarrow> string \<times> string \<times> int \<Rightarrow> bool" where
  "stored m kvr = (case kvr of (k, v, r) \<Rightarrow> m k = Some \<lparr>kvValue = v, kvCreate = r\<rparr>)"

definition cluster_step ::
  "('e \<Rightarrow> kvs) \<Rightarrow> 'e commit \<Rightarrow> (string \<Rightarrow> 'p option) \<Rightarrow> (nat \<Rightarrow> app) \<Rightarrow> 'e cluster \<Rightarrow> cluster_op \<Rightarrow>
     'e cluster" where
  "cluster_step get commit getPeer apps c opn =
     (case opn of
        OpLock i u now \<Rightarrow>
          (let ((e, s), _) = LockLocalUser commit getPeer (apps i) u now (clEtcd c, clNode c i) in
           \<lparr>clEtcd = e, clNode = (clNode c)(i := s)\<rparr>)
      | OpUnlock i u \<Rightarrow>
          (let ((e, s), _) = UnlockLocalUser commit getPeer (apps i) u (clEtcd c, clNode c i) in
           \<lparr>clEtcd = e, clNode = (clNode c)(i := s)\<rparr>)
      | OpStop i us \<Rightarrow>
          (if set us = ListLocalUser (clNode c i)
           then \<lparr>clEtcd = unregisterLocalPlayers commit (apps i) us (clEtcd c),
                 clNode = (clNode c)(i := newConfigPlayerRegistry)\<rparr>
           else c)
      | OpCrash i \<Rightarrow> c\<lparr>clNode := (clNode c)(i := newConfigPlayerRegistry)\<rparr>
      | OpRecover i kvs r \<Rightarrow>
          (if list_all (\<lambda>kvr. stored (get (clEtcd c)) kvr \<and> prefix (peerPrefix (apps i)) (fst kvr)) kvs
           then c\<lparr>clNode := (clNode c)(i := fst (recoverSelfPeerPlayers (Some (kvs, r)) (clNode c i)))\<rparr>
           else c))"

definition cluster_run where
  "cluster_run get commit getPeer apps = foldl (cluster_step get commit getPeer apps)"

definition cluster_init :: "('e \<Rightarrow> kvs) \<Rightarrow> 'e cluster \<Rightarrow> bool" where
  "cluster_init get c \<longleftrightarrow> get (clEtcd c) = Map.empty \<and> (\<forall>i. clNode c i = newConfigPlayerRegistry)"

text \<open>
  A user a node has is one whose key of that node's kind names the node, and so is a user whose
  key of the node is in the store.
\<close>

definition owns :: "kvs \<Rightarrow> app \<Rightarrow> string \<Rightarrow> bool" where
  "owns m a u = (\<exists>v. m (peerKey a u) = Some v \<and> kvValue v = aFullName a)"

definition linked :: "(nat \<Rightarrow> app) \<Rightarrow> kvs \<Rightarrow> bool" where
  "linked apps m \<longleftrightarrow> (\<forall>i u. m (localKey (apps i) u) \<noteq> None \<longrightarrow> owns m (apps i) u)"

definition cluster_inv :: "('e \<Rightarrow> kvs) \<Rightarrow> (nat \<Rightarrow> app) \<Rightarrow> 'e cluster \<Rightarrow> bool" where
  "cluster_inv get apps c \<longleftrightarrow>
     (\<forall>i u. prLocalPlayers (clNode c i) u \<noteq> None \<longrightarrow> owns (get (clEtcd c)) (apps i) u)
     \<and> linked apps (get (clEtcd c))"

definition good_apps :: "(nat \<Rightarrow> app) \<Rightarrow> bool" where
  "good_apps apps \<longleftrightarrow> (\<forall>i. plain_names (apps i)) \<and> inj (\<lambda>i. aFullName (apps i))"

lemma owns_unique:
  assumes "good_apps apps" and "aName (apps i) = aName (apps j)"
    and "owns m (apps i) u" and "owns m (apps j) u"
  shows "i = j"
  using assms peerKey_kind [of "apps i" u "apps j"] by (auto simp: owns_def good_apps_def inj_def)

lemma app_keys:
  assumes "good_apps apps"
  shows "peerKey (apps i) u = peerKey (apps j) v \<longleftrightarrow> aName (apps i) = aName (apps j) \<and> u = v"
    and "localKey (apps i) u = localKey (apps j) v \<longleftrightarrow> i = j \<and> u = v"
  using assms peerKey_inj [of "apps i" "apps j" u v] localKey_inj [of "apps i" "apps j" u v]
  by (auto simp: good_apps_def inj_def)

text \<open>What a lock and the removal of a user's keys do to the owners.\<close>

lemma owns_lock:
  assumes "m (peerKey (apps i) u) = None"
  shows "owns (lock_kvs (apps i) u now r m) (apps i) u"
    and "owns m (apps j) v \<Longrightarrow> owns (lock_kvs (apps i) u now r m) (apps j) v"
  using assms
  by (cases "peerKey (apps j) v = peerKey (apps i) u"; auto simp: owns_def lock_kvs_def)+

lemma owns_unlock:
  assumes "good_apps apps" and "owns m (apps i) u" and "owns m (apps j) v" and "\<not> (i = j \<and> u = v)"
  shows "owns (unlock_kvs (apps i) u m) (apps j) v"
proof -
  have "peerKey (apps i) u \<noteq> peerKey (apps j) v"
    using assms owns_unique [OF assms(1), of i j m u] by (auto simp: app_keys)
  then show ?thesis using assms(3) by (auto simp: owns_def unlock_kvs_def)
qed

text \<open>Unregistering removes the keys of the users the node has a key for.\<close>

lemma unregister_commit:
  assumes "etcd_ok get rv commit" and "answers commit"
  shows "get (fst (commit e (unregister_txn a u))) =
           (if get e (localKey a u) = None then get e else unlock_kvs a u (get e))"
proof -
  obtain e' ok rs where c: "commit e (unregister_txn a u) = (e', Some (ok, rs))"
    using answered [OF assms(2)] by blast
  note F = etcd_commit [OF assms(1) c]
  have ok: "ok \<longleftrightarrow> get e (localKey a u) \<noteq> None"
    using F(1) etcd_absent_iff [OF assms(1)] by (simp add: unregister_txn_def)
  show ?thesis using F(4) ok F(1) c
    by (auto simp: branch_def unregister_txn_def unlock_kvs_def)
qed

text \<open>Every other node keeps its users when one stops, in any order of its own.\<close>

definition keeps_others :: "(nat \<Rightarrow> app) \<Rightarrow> nat \<Rightarrow> string set \<Rightarrow> kvs \<Rightarrow> kvs \<Rightarrow> bool" where
  "keeps_others apps i U m m' \<longleftrightarrow>
     (\<forall>j v. owns m (apps j) v \<longrightarrow> owns m' (apps j) v \<or> (j = i \<and> v \<in> U \<and> m' (localKey (apps i) v) = None))
     \<and> (\<forall>j v. m (localKey (apps j) v) = None \<longrightarrow> m' (localKey (apps j) v) = None)"

lemma unlock_keeps:
  assumes "good_apps apps" and "owns m (apps i) u"
  shows "keeps_others apps i {u} m (unlock_kvs (apps i) u m)"
  unfolding keeps_others_def
proof (intro conjI allI impI)
  fix j v assume "owns m (apps j) v"
  then show "owns (unlock_kvs (apps i) u m) (apps j) v
      \<or> (j = i \<and> v \<in> {u} \<and> unlock_kvs (apps i) u m (localKey (apps i) v) = None)"
    using owns_unlock [OF assms, of j v] by (auto simp: unlock_kvs_def)
qed (simp add: unlock_kvs_def)

lemma keeps_refl: "keeps_others apps i U m m"
  by (simp add: keeps_others_def)

lemma keeps_none: "keeps_others apps i U m m' \<Longrightarrow> m (localKey (apps j) v) = None \<Longrightarrow> m' (localKey (apps j) v) = None"
  by (simp add: keeps_others_def)

lemma keeps_owns:
  "keeps_others apps i U m m' \<Longrightarrow> owns m (apps j) v \<Longrightarrow>
     owns m' (apps j) v \<or> (j = i \<and> v \<in> U \<and> m' (localKey (apps i) v) = None)"
  by (simp add: keeps_others_def)

lemma keeps_trans:
  assumes k1: "keeps_others apps i U m m1" and k2: "keeps_others apps i U' m1 m2"
  shows "keeps_others apps i (U \<union> U') m m2"
  unfolding keeps_others_def
proof (intro conjI allI impI)
  fix j v
  show "m (localKey (apps j) v) = None \<Longrightarrow> m2 (localKey (apps j) v) = None"
    using keeps_none [OF k2 keeps_none [OF k1]] .
  assume "owns m (apps j) v"
  from keeps_owns [OF k1 this]
  show "owns m2 (apps j) v \<or> (j = i \<and> v \<in> U \<union> U' \<and> m2 (localKey (apps i) v) = None)"
  proof (elim disjE conjE)
    assume "owns m1 (apps j) v"
    from keeps_owns [OF k2 this] show ?thesis by (elim disjE) simp_all
  next
    assume "j = i" and "v \<in> U" and "m1 (localKey (apps i) v) = None"
    with keeps_none [OF k2 this(3)] show ?thesis by simp
  qed
qed

lemma keeps_linked:
  assumes k: "keeps_others apps i U m m'" and "linked apps m"
  shows "linked apps m'"
  unfolding linked_def
proof (intro allI impI)
  fix j u assume l: "m' (localKey (apps j) u) \<noteq> None"
  have "m (localKey (apps j) u) \<noteq> None"
  proof
    assume "m (localKey (apps j) u) = None"
    from keeps_none [OF k this] l show False by simp
  qed
  then have o: "owns m (apps j) u" by (rule assms(2) [unfolded linked_def, rule_format])
  from keeps_owns [OF k this] show "owns m' (apps j) u" using l by (elim disjE) simp_all
qed

lemma unregister_keeps:
  assumes "etcd_ok get rv commit" and "answers commit" and "good_apps apps" and "linked apps (get e)"
  shows "keeps_others apps i (set us) (get e) (get (unregisterLocalPlayers commit (apps i) us e))"
  using assms(4)
proof (induction us arbitrary: e)
  case (Cons u us)
  let ?e = "fst (commit e (unregister_txn (apps i) u))"
  have k: "keeps_others apps i {u} (get e) (get ?e)"
    using unlock_keeps [OF assms(3), of "get e" i u] Cons(2)
    by (auto simp: unregister_commit [OF assms(1,2)] keeps_refl linked_def)
  have "linked apps (get ?e)" using keeps_linked [OF k Cons(2)] .
  from keeps_trans [OF k Cons(1) [OF this]] show ?case by simp
qed (simp add: keeps_refl)

lemma linkedD: "linked apps m \<Longrightarrow> m (localKey (apps i) u) \<noteq> None \<Longrightarrow> owns m (apps i) u"
  by (simp add: linked_def)

lemma clusterD:
  assumes "cluster_inv get apps c"
  shows "prLocalPlayers (clNode c i) u \<noteq> None \<Longrightarrow> owns (get (clEtcd c)) (apps i) u"
    and "linked apps (get (clEtcd c))"
  using assms by (simp_all add: cluster_inv_def)

text \<open>The two ways a step keeps the invariant: a node gives up users, or gains owned ones.\<close>

lemma cluster_inv_gives:
  assumes inv: "cluster_inv get apps c" and k: "keeps_others apps i U (get (clEtcd c)) (get e)"
    and gone: "\<And>u. u \<in> U \<Longrightarrow> prLocalPlayers s u = None"
    and less: "\<And>u. prLocalPlayers s u \<noteq> None \<Longrightarrow> prLocalPlayers (clNode c i) u \<noteq> None"
  shows "cluster_inv get apps \<lparr>clEtcd = e, clNode = (clNode c)(i := s)\<rparr>"
proof -
  have "owns (get e) (apps j) v" if p: "prLocalPlayers (((clNode c)(i := s)) j) v \<noteq> None" for j v
  proof -
    have "prLocalPlayers (clNode c j) v \<noteq> None" using p less [of v] by (cases "j = i") simp_all
    from keeps_owns [OF k clusterD(1) [OF inv this]] show ?thesis
      using p gone [of v] by (elim disjE) auto
  qed
  then show ?thesis
    using keeps_linked [OF k clusterD(2) [OF inv]] by (simp add: cluster_inv_def)
qed

lemma cluster_inv_gains:
  assumes inv: "cluster_inv get apps c"
    and more: "\<And>j v. owns (get (clEtcd c)) (apps j) v \<Longrightarrow> owns (get e) (apps j) v"
    and new: "\<And>v. prLocalPlayers s v \<noteq> None \<Longrightarrow> prLocalPlayers (clNode c i) v \<noteq> None \<or> owns (get e) (apps i) v"
    and link: "\<And>j v. get e (localKey (apps j) v) \<noteq> None \<Longrightarrow>
                 get (clEtcd c) (localKey (apps j) v) \<noteq> None \<or> owns (get e) (apps j) v"
  shows "cluster_inv get apps \<lparr>clEtcd = e, clNode = (clNode c)(i := s)\<rparr>"
proof -
  have "owns (get e) (apps j) v" if p: "prLocalPlayers (((clNode c)(i := s)) j) v \<noteq> None" for j v
  proof (cases "j = i")
    case True
    then have "prLocalPlayers (clNode c i) v \<noteq> None \<or> owns (get e) (apps i) v" using p new by simp
    then show ?thesis using True more [OF clusterD(1) [OF inv]] by (elim disjE) simp_all
  next
    case False
    then show ?thesis using p more [OF clusterD(1) [OF inv]] by simp
  qed
  moreover have "linked apps (get e)"
    unfolding linked_def
  proof (intro allI impI)
    fix j v assume "get e (localKey (apps j) v) \<noteq> None"
    from link [OF this] show "owns (get e) (apps j) v"
      using more [OF linkedD [OF clusterD(2) [OF inv]]] by (elim disjE) simp_all
  qed
  ultimately show ?thesis by (simp add: cluster_inv_def)
qed

text \<open>A key under the node's prefix that the recovery accepts is the node's key of a user.\<close>

lemma recovered_key:
  assumes "plain_names a" and "prefix (peerPrefix a) k" and "length (split_on (CHR ''/'') k) = 5"
  shows "k = localKey a (split_on (CHR ''/'') k ! 4)"
proof -
  obtain rest where k: "k = peerPrefix a @ rest" using assms(2) by (auto simp: prefix_def)
  let ?S = "split_on (CHR ''/'')"
  have sp: "?S k = [] # ''peer'' # ''user'' # aFullName a # ?S rest"
    using assms(1) split_on_append_sep [of "CHR ''/''" "''peer''" "''user/'' @ aFullName a @ ''/'' @ rest"]
      split_on_append_sep [of "CHR ''/''" "''user''" "aFullName a @ ''/'' @ rest"]
      split_on_append_sep [of "CHR ''/''" "aFullName a" "rest"]
    by (simp add: k peerPrefix_def plain_names_def)
  then have "length (?S rest) = 1" using assms(3) by simp
  then obtain w where w: "?S rest = [w]" by (auto simp: length_Suc_conv)
  then have "rest = w" using join_split_on [of "CHR ''/''" rest] by simp
  then show ?thesis using sp w k by (simp add: localKey_def)
qed

lemma onLocalKvAdd_players:
  assumes "prLocalPlayers (fst (onLocalKvAdd k v r s)) u \<noteq> None"
  shows "prLocalPlayers s u \<noteq> None
    \<or> (length (split_on (CHR ''/'') k) = 5 \<and> u = split_on (CHR ''/'') k ! 4)"
  using assms
  by (auto simp: onLocalKvAdd_def onLocalPlayerAdd_def Let_def split: if_splits option.splits)

lemma recover_kvs_players:
  assumes "plain_names a" and "list_all (\<lambda>kvr. stored m kvr \<and> prefix (peerPrefix a) (fst kvr)) kvs"
    and "prLocalPlayers (fst (recover_kvs kvs s)) u \<noteq> None"
  shows "prLocalPlayers s u \<noteq> None \<or> m (localKey a u) \<noteq> None"
  using assms(2,3)
proof (induction kvs s rule: recover_kvs.induct)
  case (2 k v r kvs s)
  obtain s' err where add: "onLocalKvAdd k v r s = (s', err)" by (cases "onLocalKvAdd k v r s")
  have "prLocalPlayers s' u \<noteq> None \<or> m (localKey a u) \<noteq> None"
    using 2 add by (cases err) auto
  moreover have "prLocalPlayers s u \<noteq> None \<or> m (localKey a u) \<noteq> None" if "prLocalPlayers s' u \<noteq> None"
  proof -
    have "prLocalPlayers (fst (onLocalKvAdd k v r s)) u \<noteq> None" using that add by simp
    from onLocalKvAdd_players [OF this] show ?thesis
      using recovered_key [OF assms(1), of k] 2(2) by (auto simp: stored_def)
  qed
  ultimately show ?case by blast
qed simp

lemma cluster_eta [simp]:
  fixes c :: "'e cluster"
  shows "\<lparr>clEtcd = clEtcd c, clNode = clNode c\<rparr> = c" and "c\<lparr>clNode := N\<rparr> = \<lparr>clEtcd = clEtcd c, clNode = N\<rparr>"
  by simp_all

lemma cluster_lock_inv:
  assumes "etcd_ok get rv commit" and "answers commit" and "good_apps apps" and inv: "cluster_inv get apps c"
  shows "cluster_inv get apps (cluster_step get commit getPeer apps c (OpLock i u now))"
proof -
  obtain e' ok rs where cm: "commit (clEtcd c) (lock_txn (apps i) u now) = (e', Some (ok, rs))"
    using answered [OF assms(2)] by blast
  show ?thesis
  proof (cases "get (clEtcd c) (peerKey (apps i) u)")
    case None
    note L = lock_free [OF assms(1) cm None]
    note O = owns_lock [of "get (clEtcd c)" apps i u, OF None]
    have "cluster_inv get apps \<lparr>clEtcd = e', clNode = (clNode c)(i :=
            enter (locked_player u now (rv (clEtcd c) + 1)) (clNode c i))\<rparr>"
      using inv
    proof (rule cluster_inv_gains)
      fix j v
      show "owns (get (clEtcd c)) (apps j) v \<Longrightarrow> owns (get e') (apps j) v" unfolding L(2) by (rule O(2))
      show "prLocalPlayers (enter (locked_player u now (rv (clEtcd c) + 1)) (clNode c i)) v \<noteq> None \<Longrightarrow>
              prLocalPlayers (clNode c i) v \<noteq> None \<or> owns (get e') (apps i) v"
        using O(1) by (cases "v = u") (simp_all add: L(2))
      show "get e' (localKey (apps j) v) \<noteq> None \<Longrightarrow>
              get (clEtcd c) (localKey (apps j) v) \<noteq> None \<or> owns (get e') (apps j) v"
        using O(1) by (cases "j = i \<and> v = u")
          (auto simp: L(2) lock_kvs_def app_keys [OF assms(3)])
    qed
    then show ?thesis by (simp add: cluster_step_def L(1))
  next
    case (Some v)
    then have "get (clEtcd c) (peerKey (apps i) u) \<noteq> None" by simp
    note L = lock_taken [OF assms(1) cm this]
    have "cluster_inv get apps \<lparr>clEtcd = e', clNode = (clNode c)(i := clNode c i)\<rparr>"
      using inv by (rule cluster_inv_gains) (simp_all add: L(2))
    then show ?thesis by (simp add: cluster_step_def L(1) del: fun_upd_triv)
  qed
qed

lemma cluster_unlock_inv:
  assumes "etcd_ok get rv commit" and "answers commit" and "good_apps apps" and inv: "cluster_inv get apps c"
  shows "cluster_inv get apps (cluster_step get commit getPeer apps c (OpUnlock i u))"
proof (cases "prLocalPlayers (clNode c i) u")
  case None
  then show ?thesis using inv by (simp add: cluster_step_def UnlockLocalUser_def)
next
  case (Some p)
  obtain e' ok rs where cm: "commit (clEtcd c) (unlock_txn (apps i) u (plCreateRevision p)) = (e', Some (ok, rs))"
    using answered [OF assms(2)] by blast
  show ?thesis
  proof (cases "create_revision (get (clEtcd c)) (userKey u) = plCreateRevision p")
    case True
    note L = unlock_held [OF assms(1) Some cm True]
    have own: "owns (get (clEtcd c)) (apps i) u" using clusterD(1) [OF inv] Some by simp
    let ?s = "onLocalPlayerDelete p (clNode c i\<lparr>prLocalPlayers := (prLocalPlayers (clNode c i))(u := None)\<rparr>)"
    have "cluster_inv get apps \<lparr>clEtcd = e', clNode = (clNode c)(i := ?s)\<rparr>"
      by (rule cluster_inv_gives [OF inv, of i "{u}"])
        (simp_all add: L(2) unlock_keeps [OF assms(3) own] onLocalPlayerDelete_def split: if_splits)
    then show ?thesis by (simp add: cluster_step_def L(1))
  next
    case False
    note L = unlock_refused [OF assms(1) Some cm False]
    have "cluster_inv get apps \<lparr>clEtcd = e', clNode = (clNode c)(i := clNode c i)\<rparr>"
      using inv by (rule cluster_inv_gains) (simp_all add: L(2))
    then show ?thesis by (simp add: cluster_step_def L(1) del: fun_upd_triv)
  qed
qed

lemma new_registry_empty [simp]: "prLocalPlayers newConfigPlayerRegistry = Map.empty"
  by (simp add: newConfigPlayerRegistry_def)

lemma cluster_stop_inv:
  assumes "etcd_ok get rv commit" and "answers commit" and "good_apps apps" and inv: "cluster_inv get apps c"
  shows "cluster_inv get apps (cluster_step get commit getPeer apps c (OpStop i us))"
proof -
  have "cluster_inv get apps \<lparr>clEtcd = unregisterLocalPlayers commit (apps i) us (clEtcd c),
          clNode = (clNode c)(i := newConfigPlayerRegistry)\<rparr>"
    using unregister_keeps [OF assms(1-3) clusterD(2) [OF inv]]
    by (rule cluster_inv_gives [OF inv]) simp_all
  then show ?thesis using inv by (simp add: cluster_step_def)
qed

lemma cluster_crash_inv:
  "cluster_inv get apps c \<Longrightarrow> cluster_inv get apps (cluster_step get commit getPeer apps c (OpCrash i))"
  using cluster_inv_gives [of get apps c i "{}" "clEtcd c" newConfigPlayerRegistry]
  by (simp add: cluster_step_def keeps_refl)

lemma cluster_recover_inv:
  assumes "good_apps apps" and inv: "cluster_inv get apps c"
  shows "cluster_inv get apps (cluster_step get commit getPeer apps c (OpRecover i kvs r))"
proof (cases "list_all (\<lambda>kvr. stored (get (clEtcd c)) kvr \<and> prefix (peerPrefix (apps i)) (fst kvr)) kvs")
  case True
  have plain: "plain_names (apps i)" using assms(1) by (simp add: good_apps_def)
  let ?s = "fst (recoverSelfPeerPlayers (Some (kvs, r)) (clNode c i))"
  have same: "prLocalPlayers ?s = prLocalPlayers (fst (recover_kvs kvs (clNode c i)))"
    by (simp add: recoverSelfPeerPlayers_def split: prod.splits option.splits)
  have "prLocalPlayers (clNode c i) u \<noteq> None \<or> owns (get (clEtcd c)) (apps i) u"
    if "prLocalPlayers ?s u \<noteq> None" for u
    using recover_kvs_players [OF plain True, of "clNode c i" u] that same
      linkedD [OF clusterD(2) [OF inv], of i u] by auto
  then have "cluster_inv get apps \<lparr>clEtcd = clEtcd c, clNode = (clNode c)(i := ?s)\<rparr>"
    by (intro cluster_inv_gains [OF inv]) simp_all
  then show ?thesis using True by (simp add: cluster_step_def)
next
  case False
  then show ?thesis using inv by (simp add: cluster_step_def)
qed

lemma cluster_step_inv:
  assumes "etcd_ok get rv commit" and "answers commit" and "good_apps apps" and "cluster_inv get apps c"
  shows "cluster_inv get apps (cluster_step get commit getPeer apps c opn)"
  using cluster_lock_inv [OF assms] cluster_unlock_inv [OF assms] cluster_stop_inv [OF assms]
    cluster_crash_inv [OF assms(4)] cluster_recover_inv [OF assms(3,4)]
  by (cases opn) blast+

lemma cluster_init_inv: "cluster_init get c \<Longrightarrow> cluster_inv get apps c"
  by (simp add: cluster_init_def cluster_inv_def linked_def)

text \<open>The step system of \<open>Gira_Prelude\<close>, for a store and nodes that satisfy the hypotheses.\<close>

lemma cluster_system:
  assumes "etcd_ok get rv commit" and "answers commit" and "good_apps apps"
  shows "step_system (cluster_init get) (cluster_step get commit getPeer apps) (cluster_inv get apps)"
  using cluster_init_inv cluster_step_inv [OF assms] by unfold_locales

lemma cluster_run_inv:
  assumes "etcd_ok get rv commit" and "answers commit" and "good_apps apps" and "cluster_init get c"
  shows "cluster_inv get apps (cluster_run get commit getPeer apps c ops)"
  unfolding cluster_run_def by (rule step_system.run_inv [OF cluster_system [OF assms(1-3)] assms(4)])

text \<open>A cluster over the concrete store, for the witnesses: its nodes are of two kinds.\<close>

definition demo_apps :: "nat \<Rightarrow> app" where
  "demo_apps i = \<lparr>aFullName = replicate (Suc i) (CHR ''n''),
                   aName = (if even i then ''hall'' else ''battle''), aId = int i\<rparr>"

definition demo_cluster :: "mem cluster" where
  "demo_cluster = \<lparr>clEtcd = mem_empty, clNode = (\<lambda>i. newConfigPlayerRegistry)\<rparr>"

lemma demo_apps_good: "good_apps demo_apps"
  by (auto simp: good_apps_def plain_names_def demo_apps_def inj_def)

lemma demo_cluster_init: "cluster_init mem_get demo_cluster"
  by (simp add: cluster_init_def demo_cluster_def)

lemma demo_lock:
  "prLocalPlayers (clNode (cluster_run mem_get mem_commit (\<lambda>n. None :: nat option) demo_apps
     demo_cluster [OpLock 0 ''u1'' 7]) 0) ''u1'' \<noteq> None"
proof -
  obtain e' ok rs where c: "mem_commit mem_empty (lock_txn (demo_apps 0) ''u1'' 7) = (e', Some (ok, rs))"
    using mem_commits by blast
  have "mem_get mem_empty (peerKey (demo_apps 0) ''u1'') = None" by simp
  note L = lock_free(1) [OF mem_etcd c this]
  show ?thesis by (simp add: cluster_run_def cluster_step_def demo_cluster_def L)
qed

text \<open>
  The watch sees a key some time after the store changed. The put of a lock that was already
  undone enters the user again, until the delete that follows is seen.
\<close>

lemma late_watch_event:
  assumes "plain_names a" and "CHR ''/'' \<notin> set u" and "prLocalPlayers s u = None"
    and "- (2 ^ 63) \<le> now" and "now < 2 ^ 63" and put_def: "put = KvPut (localKey a u) (fmt_int now) r"
  shows "prLocalPlayers (watchSelfPeerPlayers [put] s) = (prLocalPlayers s)(u \<mapsto> locked_player u now r)"
    and "prLocalPlayers (watchSelfPeerPlayers [put, KvDelete (localKey a u)] s) = prLocalPlayers s"
proof -
  have sp: "split_on (CHR ''/'') (localKey a u) = [[], ''peer'', ''user'', aFullName a, u]"
    using assms(1,2) split_on_append_sep [of "CHR ''/''" "''peer''" "''user/'' @ aFullName a @ ''/'' @ u"]
      split_on_append_sep [of "CHR ''/''" "''user''" "aFullName a @ ''/'' @ u"]
      split_on_append_sep [of "CHR ''/''" "aFullName a" "u"]
    by (simp add: localKey_def peerPrefix_def plain_names_def split_on_no_sep)
  have at: "atoi (fmt_int now) = Some now" using assms(4,5) by (rule atoi_fmt_int)
  let ?s = "fst (onLocalKvAdd (localKey a u) (fmt_int now) r s)"
  have add: "prLocalPlayers ?s = (prLocalPlayers s)(u \<mapsto> locked_player u now r)"
    using assms(3) by (simp add: onLocalKvAdd_def sp at Let_def onLocalPlayerAdd_def locked_player_def)
  then show "prLocalPlayers (watchSelfPeerPlayers [put] s) = (prLocalPlayers s)(u \<mapsto> locked_player u now r)"
    by (simp add: put_def)
  have "prLocalPlayers (fst (onLocalKvDelete (localKey a u) ?s)) = (prLocalPlayers ?s)(u := None)"
    using add by (simp add: onLocalKvDelete_def sp onLocalPlayerDelete_def)
  also have "\<dots> = prLocalPlayers s" using assms(3) by (simp add: add) (simp add: fun_eq_iff)
  finally show "prLocalPlayers (watchSelfPeerPlayers [put, KvDelete (localKey a u)] s) = prLocalPlayers s"
    by (simp add: put_def)
qed

section \<open>Properties\<close>



text \<open>What a lock and the calls after it do, one fact each.\<close>

lemma lock_then_unlock_facts:
  assumes "etcd_ok get rv commit" and "answers commit" and "get e (peerKey a u) = None"
    and "LockLocalUser commit getPeer a u now (e, s) = ((e1, s1), res)"
  shows "res = (None, None)"
    and "dom (prLocalPlayers s1) = insert u (dom (prLocalPlayers s))"
    and "map_option kvValue (get e1 (peerKey a u)) = Some (aFullName a)
         \<and> map_option kvValue (get e1 (userKey u)) = Some (aFullName a)
         \<and> map_option kvValue (get e1 (localKey a u)) = Some (fmt_int now)"
    and "aName b = aName a \<Longrightarrow> LockLocalUser commit getPeer b u now' (e1, sb) = ((e2, sb'), res') \<Longrightarrow>
           get e2 = get e1 \<and> sb' = sb \<and> res' = (getPeer (aFullName a), Some ErrUserLocked)"
    and "get e (userKey u) = None \<Longrightarrow> get e (localKey a u) = None \<Longrightarrow> prLocalPlayers s u = None \<Longrightarrow>
           UnlockLocalUser commit getPeer a u (e1, s1) = ((e3, s3), res'') \<Longrightarrow>
           res'' = (None, None) \<and> get e3 = get e \<and> prLocalPlayers s3 = prLocalPlayers s"
proof -
  obtain e' ok rs where cm: "commit e (lock_txn a u now) = (e', Some (ok, rs))"
    using answered [OF assms(2)] by blast
  note L = lock_free [OF assms(1) cm assms(3)]
  have e1: "e1 = e'" and s1: "s1 = enter (locked_player u now (rv e + 1)) s" and r: "res = (None, None)"
    using assms(4) by (simp_all add: L(1))
  show "res = (None, None)" by (rule r)
  show "dom (prLocalPlayers s1) = insert u (dom (prLocalPlayers s))" by (simp add: s1)
  show "map_option kvValue (get e1 (peerKey a u)) = Some (aFullName a)
         \<and> map_option kvValue (get e1 (userKey u)) = Some (aFullName a)
         \<and> map_option kvValue (get e1 (localKey a u)) = Some (fmt_int now)"
    by (simp add: e1 L(2) lock_kvs_def)
  have pk: "get e1 (peerKey a u) = Some \<lparr>kvValue = aFullName a, kvCreate = rv e + 1\<rparr>"
    using assms(3) by (simp add: e1 L(2) lock_kvs_def)
  show "get e2 = get e1 \<and> sb' = sb \<and> res' = (getPeer (aFullName a), Some ErrUserLocked)"
    if kind: "aName b = aName a" and lock: "LockLocalUser commit getPeer b u now' (e1, sb) = ((e2, sb'), res')"
  proof -
    have k: "peerKey b u = peerKey a u" using kind by (simp add: peerKey_kind)
    obtain e'' ok' rs' where cm': "commit e1 (lock_txn b u now') = (e'', Some (ok', rs'))"
      using answered [OF assms(2)] by blast
    have "get e1 (peerKey b u) \<noteq> None" using pk k by simp
    note T = lock_taken [OF assms(1) cm' this]
    show ?thesis using lock T(2) k pk by (simp add: T(1) locker_def)
  qed
  show "res'' = (None, None) \<and> get e3 = get e \<and> prLocalPlayers s3 = prLocalPlayers s"
    if uk: "get e (userKey u) = None" and lk: "get e (localKey a u) = None" and p: "prLocalPlayers s u = None"
      and unlock: "UnlockLocalUser commit getPeer a u (e1, s1) = ((e3, s3), res'')"
  proof -
    let ?p = "locked_player u now (rv e + 1)"
    have here: "prLocalPlayers s1 u = Some ?p" by (simp add: s1)
    obtain e'' ok' rs' where cm': "commit e1 (unlock_txn a u (plCreateRevision ?p)) = (e'', Some (ok', rs'))"
      using answered [OF assms(2)] by blast
    have cr: "create_revision (get e1) (userKey u) = plCreateRevision ?p"
      using uk by (simp add: e1 L(2) lock_kvs_def create_revision_def)
    note U = unlock_held [OF assms(1) here cm' cr]
    have "get e3 = unlock_kvs a u (get e1)" using unlock U(2) by (simp add: U(1))
    also have "\<dots> = get e"
      using assms(3) uk lk by (auto simp: e1 L(2) unlock_kvs_def lock_kvs_def fun_eq_iff)
    finally have "get e3 = get e" .
    moreover have "prLocalPlayers s3 = (prLocalPlayers s1)(u := None)" and "res'' = (None, None)"
      using unlock by (auto simp: U(1) onLocalPlayerDelete_def)
    moreover have "(prLocalPlayers s1)(u := None) = prLocalPlayers s"
      using p by (simp add: s1) (simp add: fun_eq_iff)
    ultimately show ?thesis by simp
  qed
qed

text \<open>
  A lock and an unlock. A user whose key of the node's kind is absent is locked: the node
  has it, the three keys name the node, and a lock of any node of the same kind (this one too)
  is then refused with \<open>ErrUserLocked\<close>, the peer that holds the user, and nothing changed. When
  the other two keys were absent as well, an unlock that follows succeeds and restores the keys.
\<close>

lemma lock_then_unlock:
  assumes "etcd_ok get rv commit" and "answers commit" and "get e (peerKey a u) = None"
    and "LockLocalUser commit getPeer a u now (e, s) = ((e1, s1), res)"
  shows "res = (None, None) \<and> dom (prLocalPlayers s1) = insert u (dom (prLocalPlayers s))
    \<and> map_option kvValue (get e1 (peerKey a u)) = Some (aFullName a)
    \<and> map_option kvValue (get e1 (userKey u)) = Some (aFullName a)
    \<and> map_option kvValue (get e1 (localKey a u)) = Some (fmt_int now)
    \<and> (\<forall>b now' sb e2 sb' res'. aName b = aName a \<and>
         LockLocalUser commit getPeer b u now' (e1, sb) = ((e2, sb'), res') \<longrightarrow>
           get e2 = get e1 \<and> sb' = sb \<and> res' = (getPeer (aFullName a), Some ErrUserLocked))
    \<and> (\<forall>e3 s3 res''. get e (userKey u) = None \<and> get e (localKey a u) = None \<and> prLocalPlayers s u = None \<and>
         UnlockLocalUser commit getPeer a u (e1, s1) = ((e3, s3), res'') \<longrightarrow>
           res'' = (None, None) \<and> get e3 = get e \<and> prLocalPlayers s3 = prLocalPlayers s)"
proof -
  note F = lock_then_unlock_facts [OF assms]
  show ?thesis
    using F(1,2,3) by (intro conjI allI impI; elim conjE) (simp, simp, simp, simp, simp, (drule (1) F(4), simp)+, (drule (3) F(5), simp)+)
qed

lemma lock_then_unlock_witness:
  "\<exists>e1 s1 e3 s3. LockLocalUser mem_commit (\<lambda>n. None :: nat option) (demo_apps 0) ''u1'' 7
       (mem_empty, newConfigPlayerRegistry) = ((e1, s1), (None, None))
     \<and> prLocalPlayers s1 ''u1'' \<noteq> None
     \<and> UnlockLocalUser mem_commit (\<lambda>n. None :: nat option) (demo_apps 0) ''u1'' (e1, s1) =
         ((e3, s3), (None, None))
     \<and> mem_get e3 = Map.empty"
proof -
  have free: "mem_get mem_empty (peerKey (demo_apps 0) ''u1'') = None" by simp
  obtain e1 s1 r1 where l: "LockLocalUser mem_commit (\<lambda>n. None :: nat option) (demo_apps 0) ''u1'' 7
       (mem_empty, newConfigPlayerRegistry) = ((e1, s1), r1)" by (metis prod.exhaust)
  obtain e3 s3 r3 where u: "UnlockLocalUser mem_commit (\<lambda>n. None :: nat option) (demo_apps 0) ''u1'' (e1, s1) =
         ((e3, s3), r3)" by (metis prod.exhaust)
  note T = lock_then_unlock [OF mem_etcd mem_answers free l]
  have "''u1'' \<in> dom (prLocalPlayers s1)" using T by blast
  then have "prLocalPlayers s1 ''u1'' \<noteq> None" by blast
  moreover have "r1 = (None, None)" using T by blast
  moreover have "r3 = (None, None) \<and> mem_get e3 = Map.empty"
    using conjunct2 [OF conjunct2 [OF conjunct2 [OF conjunct2 [OF conjunct2 [OF conjunct2 [OF T]]]]],
        rule_format, of e3 s3 r3] u by simp
  ultimately show ?thesis using l u by blast
qed

text \<open>What the locks and unlocks of two kinds do, one fact each.\<close>

lemma two_kinds_lock_facts:
  assumes "etcd_ok get rv commit" and "answers commit" and "good_apps apps"
    and kinds: "aName (apps i) \<noteq> aName (apps j)"
    and free: "get e (userKey u) = None" "get e (peerKey (apps i) u) = None" "get e (peerKey (apps j) u) = None"
    and first: "LockLocalUser commit getPeer (apps i) u now (e, s) = ((e1, s1), r1)"
    and second: "LockLocalUser commit getPeer (apps j) u now' (e1, t) = ((e2, t2), r2)"
  shows "r1 = (None, None) \<and> r2 = (None, None)
           \<and> map_option kvValue (get e2 (userKey u)) = Some (aFullName (apps j))"
    and "UnlockLocalUser commit getPeer (apps j) u (e2, t2) = ((e3, t3), r3) \<Longrightarrow>
           r3 = (getPeer (aFullName (apps j)), Some ErrUserLocked) \<and> get e3 = get e2 \<and> t3 = t2"
    and "UnlockLocalUser commit getPeer (apps i) u (e2, s1) = ((e4, s4), r4) \<Longrightarrow>
           r4 = (None, None) \<and> get e4 (userKey u) = None \<and> prLocalPlayers t2 u \<noteq> None
           \<and> (\<forall>e5 t5 r5. UnlockLocalUser commit getPeer (apps j) u (e4, t2) = ((e5, t5), r5) \<longrightarrow>
                r5 = (getPeer (aFullName (apps j)), Some ErrUserLocked) \<and> t5 = t2)"
proof -
  obtain ea xa where ca: "commit e (lock_txn (apps i) u now) = (ea, Some xa)"
    using answered [OF assms(2)] by blast
  note A = lock_free [OF assms(1) ca free(2)]
  have e1: "e1 = ea" and s1: "s1 = enter (locked_player u now (rv e + 1)) s" and r1: "r1 = (None, None)"
    using first by (simp_all add: A(1))
  have pk: "peerKey (apps j) u \<noteq> peerKey (apps i) u" "peerKey (apps i) u \<noteq> peerKey (apps j) u"
    using kinds by (simp_all add: peerKey_kind)
  have lk: "localKey (apps j) u \<noteq> localKey (apps i) u"
    using kinds app_keys(2) [OF assms(3)] by metis
  have free': "get e1 (peerKey (apps j) u) = None" using free(3) pk by (simp add: e1 A(2) lock_kvs_def)
  obtain eb xb where cb: "commit e1 (lock_txn (apps j) u now') = (eb, Some xb)"
    using answered [OF assms(2)] by blast
  note B = lock_free [OF assms(1) cb free']
  have e2: "e2 = eb" and t2: "t2 = enter (locked_player u now' (rv e1 + 1)) t" and r2: "r2 = (None, None)"
    using second by (simp_all add: B(1))
  have uk: "get e2 (userKey u) = Some \<lparr>kvValue = aFullName (apps j), kvCreate = rv e + 1\<rparr>"
    using free(1) by (simp add: e2 B(2) e1 A(2) lock_kvs_def)
  have nk: "get e2 (peerKey (apps j) u) = Some \<lparr>kvValue = aFullName (apps j), kvCreate = rv e1 + 1\<rparr>"
    using free(3) pk by (simp add: e2 B(2) e1 A(2) lock_kvs_def)
  show "r1 = (None, None) \<and> r2 = (None, None)
           \<and> map_option kvValue (get e2 (userKey u)) = Some (aFullName (apps j))"
    using r1 r2 uk by simp
  let ?q = "locked_player u now' (rv e1 + 1)"
  have rvs: "rv e1 = rv e + 1" using A(3) e1 by simp
  have t_here: "prLocalPlayers t2 u = Some ?q" by (simp add: t2)
  have refused: "r' = (getPeer (aFullName (apps j)), Some ErrUserLocked) \<and> get e'' = get e' \<and> t' = t2"
    if "UnlockLocalUser commit getPeer (apps j) u (e', t2) = ((e'', t'), r')"
      and "create_revision (get e') (userKey u) \<noteq> rv e1 + 1"
      and "map_option kvValue (get e' (peerKey (apps j) u)) = Some (aFullName (apps j))" for e' e'' t' r'
  proof -
    obtain ec xc where cc: "commit e' (unlock_txn (apps j) u (plCreateRevision ?q)) = (ec, Some xc)"
      using answered [OF assms(2)] by blast
    have "create_revision (get e') (userKey u) \<noteq> plCreateRevision ?q" using that(2) by simp
    note R = unlock_refused [OF assms(1) t_here cc this]
    show ?thesis using that(1,3) R(2) by (auto simp: R(1) locker_def)
  qed
  show "r3 = (getPeer (aFullName (apps j)), Some ErrUserLocked) \<and> get e3 = get e2 \<and> t3 = t2"
    if "UnlockLocalUser commit getPeer (apps j) u (e2, t2) = ((e3, t3), r3)"
    by (rule refused [OF that]) (simp_all add: create_revision_def uk nk rvs)
  show "r4 = (None, None) \<and> get e4 (userKey u) = None \<and> prLocalPlayers t2 u \<noteq> None
           \<and> (\<forall>e5 t5 r5. UnlockLocalUser commit getPeer (apps j) u (e4, t2) = ((e5, t5), r5) \<longrightarrow>
                r5 = (getPeer (aFullName (apps j)), Some ErrUserLocked) \<and> t5 = t2)"
    if un: "UnlockLocalUser commit getPeer (apps i) u (e2, s1) = ((e4, s4), r4)"
  proof -
    let ?p = "locked_player u now (rv e + 1)"
    have s_here: "prLocalPlayers s1 u = Some ?p" by (simp add: s1)
    obtain ed xd where cd: "commit e2 (unlock_txn (apps i) u (plCreateRevision ?p)) = (ed, Some xd)"
      using answered [OF assms(2)] by blast
    have "create_revision (get e2) (userKey u) = plCreateRevision ?p" by (simp add: create_revision_def uk)
    note U = unlock_held [OF assms(1) s_here cd this]
    have r4: "r4 = (None, None)" and g4: "get e4 = unlock_kvs (apps i) u (get e2)" using un U(2) by (simp_all add: U(1))
    have uk4: "get e4 (userKey u) = None" by (simp add: g4 unlock_kvs_def)
    have nk4: "map_option kvValue (get e4 (peerKey (apps j) u)) = Some (aFullName (apps j))"
      using pk by (simp add: g4 unlock_kvs_def nk)
    have "rv e1 + 1 \<noteq> 0" using rvs etcd_commit(3) [OF assms(1)] ca by (cases xa) fastforce
    then have cr: "create_revision (get e4) (userKey u) \<noteq> rv e1 + 1" by (simp add: create_revision_def uk4)
    show ?thesis using r4 uk4 t_here refused [OF _ cr nk4] by simp
  qed
qed

text \<open>
  Nodes of different kinds share the user's key. When nodes of two kinds lock a user one
  after the other both succeed, the user's key names the second, and it keeps the revision of
  the first: the second's unlock is refused with \<open>ErrUserLocked\<close> and its own peer, the first's
  succeeds and removes the key that named the second, whose unlock is refused still.
\<close>

lemma two_kinds_lock:
  assumes "etcd_ok get rv commit" and "answers commit" and "good_apps apps"
    and "aName (apps i) \<noteq> aName (apps j)"
    and "get e (userKey u) = None" and "get e (peerKey (apps i) u) = None" and "get e (peerKey (apps j) u) = None"
    and "LockLocalUser commit getPeer (apps i) u now (e, s) = ((e1, s1), r1)"
    and "LockLocalUser commit getPeer (apps j) u now' (e1, t) = ((e2, t2), r2)"
    and "UnlockLocalUser commit getPeer (apps j) u (e2, t2) = ((e3, t3), r3)"
    and "UnlockLocalUser commit getPeer (apps i) u (e2, s1) = ((e4, s4), r4)"
    and "UnlockLocalUser commit getPeer (apps j) u (e4, t2) = ((e5, t5), r5)"
  shows "r1 = (None, None) \<and> r2 = (None, None)
    \<and> map_option kvValue (get e2 (userKey u)) = Some (aFullName (apps j))
    \<and> r3 = (getPeer (aFullName (apps j)), Some ErrUserLocked) \<and> get e3 = get e2 \<and> t3 = t2
    \<and> r4 = (None, None) \<and> get e4 (userKey u) = None \<and> prLocalPlayers t2 u \<noteq> None
    \<and> r5 = (getPeer (aFullName (apps j)), Some ErrUserLocked) \<and> t5 = t2"
  using two_kinds_lock_facts(1) [OF assms(1-9)] two_kinds_lock_facts(2) [OF assms(1-10)]
    two_kinds_lock_facts(3) [OF assms(1-9,11)] assms(12) by blast

lemma two_kinds_lock_witness:
  "\<exists>e1 s1 e2 t2 e4 s4. LockLocalUser mem_commit (\<lambda>n. None :: nat option) (demo_apps 0) ''u1'' 7
       (mem_empty, newConfigPlayerRegistry) = ((e1, s1), (None, None))
     \<and> LockLocalUser mem_commit (\<lambda>n. None :: nat option) (demo_apps 1) ''u1'' 8
         (e1, newConfigPlayerRegistry) = ((e2, t2), (None, None))
     \<and> UnlockLocalUser mem_commit (\<lambda>n. None :: nat option) (demo_apps 0) ''u1'' (e2, s1) =
         ((e4, s4), (None, None))
     \<and> mem_get e4 (userKey ''u1'') = None \<and> prLocalPlayers t2 ''u1'' \<noteq> None"
proof -
  have kinds: "aName (demo_apps 0) \<noteq> aName (demo_apps 1)" by (simp add: demo_apps_def)
  obtain e1 s1 r1 where l: "LockLocalUser mem_commit (\<lambda>n. None :: nat option) (demo_apps 0) ''u1'' 7
       (mem_empty, newConfigPlayerRegistry) = ((e1, s1), r1)" by (metis prod.exhaust)
  obtain e2 t2 r2 where k: "LockLocalUser mem_commit (\<lambda>n. None :: nat option) (demo_apps 1) ''u1'' 8
       (e1, newConfigPlayerRegistry) = ((e2, t2), r2)" by (metis prod.exhaust)
  obtain e3 t3 r3 where u2: "UnlockLocalUser mem_commit (\<lambda>n. None :: nat option) (demo_apps 1) ''u1'' (e2, t2) =
         ((e3, t3), r3)" by (metis prod.exhaust)
  obtain e4 s4 r4 where u: "UnlockLocalUser mem_commit (\<lambda>n. None :: nat option) (demo_apps 0) ''u1'' (e2, s1) =
         ((e4, s4), r4)" by (metis prod.exhaust)
  obtain e5 t5 r5 where u3: "UnlockLocalUser mem_commit (\<lambda>n. None :: nat option) (demo_apps 1) ''u1'' (e4, t2) =
         ((e5, t5), r5)" by (metis prod.exhaust)
  note T = two_kinds_lock [OF mem_etcd mem_answers demo_apps_good kinds _ _ _ l k u2 u u3]
  have r: "r1 = (None, None)" "r2 = (None, None)" using T by simp_all
  have "r4 = (None, None) \<and> mem_get e4 (userKey ''u1'') = None \<and> prLocalPlayers t2 ''u1'' \<noteq> None"
    using T by simp
  then show ?thesis using l k u r by blast
qed

end
