(* ===== verification/Word_Trie.thy ===== *)
theory Word_Trie
  imports Gira_Prelude "HOL-Library.AList"
begin

text \<open>
  The prefix index of the service registry, \<open>word_trie\<close> in \<open>registry/service.go\<close>: a trie over the
  words of a path. A node's map of children is an association list; its order stands for the
  order in which Go happens to iterate over the map, so results are compared as sets. Every
  operation holds the lock of the trie or of the header it works on.

  The lemmas: a trie is a dictionary from word lists to paths (the interpretation of \<open>dict_ops\<close>);
  every operation keeps it well formed; and \<open>search\<close> returns exactly the paths stored strictly
  below the words it is given.
\<close>

section \<open>Nodes\<close>

datatype node = Node (node_set: bool) (node_path: string) (node_kids: "(string \<times> node) list")

type_synonym trie = "(string \<times> node) list"

definition newWordTrie :: trie where "newWordTrie = []"

definition empty_node :: node where "empty_node = Node False [] []"

text \<open>The loop of \<open>word_trie_header_node.add\<close>: missing nodes are made on the way down.\<close>

fun node_add :: "string \<Rightarrow> string list \<Rightarrow> node \<Rightarrow> node" where
  "node_add path [] (Node s p ks) = Node True path ks"
| "node_add path (w # ws) (Node s p ks) =
     Node s p (AList.update w
       (node_add path ws (case map_of ks w of None \<Rightarrow> empty_node | Some c \<Rightarrow> c)) ks)"

text \<open>\<open>word_trie_node.delete\<close>: whether the path was there, and the node without it.\<close>

fun node_delete :: "string list \<Rightarrow> node \<Rightarrow> bool \<times> node" where
  "node_delete [] (Node s p ks) = (True, Node False p ks)"
| "node_delete (w # ws) (Node s p ks) =
     (case map_of ks w of
        None \<Rightarrow> (False, Node s p ks)
      | Some c \<Rightarrow>
          (let (ok, c') = node_delete ws c in
           if \<not> ok then (False, Node s p ks)
           else if node_kids c' = [] \<and> \<not> node_set c' then (True, Node s p (AList.delete w ks))
           else (True, Node s p (AList.update w c' ks))))"

text \<open>\<open>word_trie_header_node.delete\<close>: the error of the child is ignored and never reported.\<close>

fun header_delete :: "string list \<Rightarrow> node \<Rightarrow> node" where
  "header_delete [] (Node s p ks) = Node False p ks"
| "header_delete (w # ws) (Node s p ks) =
     (case map_of ks w of
        None \<Rightarrow> Node s p ks
      | Some c \<Rightarrow>
          (let c' = snd (node_delete ws c) in
           if node_kids c' = [] \<and> \<not> node_set c' then Node s p (AList.delete w ks)
           else Node s p (AList.update w c' ks)))"

fun collect :: "node \<Rightarrow> string list" where
  "collect (Node s p ks) = (if s then [p] else []) @ concat (map (\<lambda>x. collect (snd x)) ks)"

text \<open>\<open>word_trie_header_node.search\<close>: an empty last word is ignored; the node reached is left out.\<close>

fun header_search :: "string list \<Rightarrow> node \<Rightarrow> string list" where
  "header_search [] h = concat (map (\<lambda>x. collect (snd x)) (node_kids h))"
| "header_search (w # ws) h =
     (if ws = [] \<and> w = [] then concat (map (\<lambda>x. collect (snd x)) (node_kids h))
      else (case map_of (node_kids h) w of None \<Rightarrow> [] | Some c \<Rightarrow> header_search ws c))"

section \<open>The trie\<close>

datatype trie_error = ErrInvalidArgs | ErrTODO

text \<open>\<open>strings.Split(path, "/")\<close> without an empty first word.\<close>

definition words_of :: "string \<Rightarrow> string list" where
  "words_of path =
     (let ws = split_on (CHR ''/'') path in
      case ws of [] \<Rightarrow> [] | w # rest \<Rightarrow> if w = [] then rest else ws)"

definition trie_add :: "string \<Rightarrow> trie \<Rightarrow> trie \<times> trie_error option" where
  "trie_add path t =
     (case words_of path of
        [] \<Rightarrow> (t, None)
      | w # ws \<Rightarrow>
          (if [] \<in> set ws then (t, Some ErrInvalidArgs)
           else (AList.update w
                   (node_add path ws (case map_of t w of None \<Rightarrow> empty_node | Some h \<Rightarrow> h)) t, None)))"

definition trie_delete :: "string \<Rightarrow> trie \<Rightarrow> trie \<times> trie_error option" where
  "trie_delete path t =
     (case words_of path of
        [] \<Rightarrow> (t, Some ErrTODO)
      | w # ws \<Rightarrow>
          (case map_of t w of
             None \<Rightarrow> (t, Some ErrTODO)
           | Some h \<Rightarrow>
               (let h' = header_delete ws h in
                (if node_kids h' = [] \<and> \<not> node_set h' then AList.delete w t
                 else AList.update w h' t, None))))"

definition trie_search :: "string \<Rightarrow> trie \<Rightarrow> string list" where
  "trie_search path t =
     (case words_of path of
        [] \<Rightarrow> []
      | w # ws \<Rightarrow>
          (if w = [] then concat (map (\<lambda>x. collect (snd x)) t)
           else (case map_of t w of None \<Rightarrow> [] | Some h \<Rightarrow> header_search ws h)))"

section \<open>What a node holds\<close>

fun node_get :: "node \<Rightarrow> string list \<Rightarrow> string option" where
  "node_get (Node s p ks) [] = (if s then Some p else None)"
| "node_get (Node s p ks) (w # ws) =
     (case map_of ks w of None \<Rightarrow> None | Some c \<Rightarrow> node_get c ws)"

inductive node_ok :: "node \<Rightarrow> bool" where
  "distinct (map fst ks) \<Longrightarrow> (\<And>w c. (w, c) \<in> set ks \<Longrightarrow> node_ok c) \<Longrightarrow> node_ok (Node s p ks)"

inductive_simps node_ok_Node [simp]: "node_ok (Node s p ks)"

lemma node_get_empty [simp]: "node_get empty_node ws = None"
  by (cases ws) (simp_all add: empty_node_def)

lemma node_ok_empty [simp, inv_intros]: "node_ok empty_node"
  by (simp add: empty_node_def)

lemma node_get_add: "node_get (node_add path ws n) = (node_get n)(ws \<mapsto> path)"
proof (induction path ws n rule: node_add.induct)
  case (1 path s p ks)
  show ?case by (rule ext, rename_tac vs, case_tac vs) auto
next
  case (2 path w ws s p ks)
  show ?case
  proof
    fix vs
    show "node_get (node_add path (w # ws) (Node s p ks)) vs
        = ((node_get (Node s p ks))(w # ws \<mapsto> path)) vs"
      using 2 by (cases vs) (auto simp: update_conv' split: option.splits)
  qed
qed

lemma node_get_bare: "node_kids c = [] \<Longrightarrow> \<not> node_set c \<Longrightarrow> node_get c ws = None"
  by (cases c; cases ws) auto

lemma node_delete_fails: "\<not> fst (node_delete ws n) \<Longrightarrow> node_get n ws = None"
  by (induction ws n rule: node_delete.induct)
     (auto simp: split_beta Let_def split: option.splits if_splits)

lemma delete_conv_map: "map_of (AList.delete k al) = (map_of al)(k := None)"
  by (rule delete_conv')

lemma node_get_delete: "node_get (snd (node_delete ws n)) = (node_get n)(ws := None)"
proof (induction ws n rule: node_delete.induct)
  case (1 s p ks)
  show ?case by (rule ext, rename_tac vs, case_tac vs) auto
next
  case (2 w ws s p ks)
  show ?case
  proof
    fix vs
    show "node_get (snd (node_delete (w # ws) (Node s p ks))) vs
        = ((node_get (Node s p ks))(w # ws := None)) vs"
    proof (cases "map_of ks w")
      case None
      then show ?thesis by (cases vs) auto
    next
      case (Some c)
      obtain ok c' where c': "node_delete ws c = (ok, c')" by fastforce
      have IH: "node_get c' us = (if us = ws then None else node_get c us)" for us
        using 2 [OF Some] c' by simp
      have bare: "node_get c' us = None" if "node_kids c' = []" "\<not> node_set c'" for us
        using that by (rule node_get_bare)
      show ?thesis
      proof (cases ok)
        case ok: True
        show ?thesis
        proof (cases "node_kids c' = [] \<and> \<not> node_set c'")
          case True
          then have "node_get c us = None" if "us \<noteq> ws" for us
            using IH [of us] bare [of us] that by simp
          with True Some c' ok show ?thesis
            by (cases vs) (auto simp: delete_conv_map split: if_splits)
        next
          case False
          with Some c' ok IH show ?thesis
            by (cases vs) (auto simp: update_conv' split: if_splits)
        qed
      next
        case False
        then have "node_get c ws = None" using node_delete_fails [of ws c] c' by simp
        with False Some c' show ?thesis by (cases vs) auto
      qed
    qed
  qed
qed

text \<open>A node is a dictionary from word lists to paths.\<close>

interpretation node_dict: dict_ops node_get "\<lambda>ws path. node_add path ws" "\<lambda>ws n. snd (node_delete ws n)"
  by unfold_locales (simp_all add: node_get_add node_get_delete)

lemma node_ok_iff:
  "node_ok (Node s p ks) \<longleftrightarrow>
     distinct (map fst ks) \<and> (\<forall>w c. map_of ks w = Some c \<longrightarrow> node_ok c)"
  by (auto dest: map_of_SomeD)

declare node_ok_Node [simp del]

lemma node_ok_update:
  "node_ok (Node s p ks) \<Longrightarrow> node_ok c \<Longrightarrow> node_ok (Node s' p' (AList.update w c ks))"
  by (auto simp: node_ok_iff distinct_update update_conv')

lemma node_ok_remove: "node_ok (Node s p ks) \<Longrightarrow> node_ok (Node s' p' (AList.delete w ks))"
  by (auto simp: node_ok_iff distinct_delete delete_conv_map)

lemma node_ok_add [inv_intros]: "node_ok n \<Longrightarrow> node_ok (node_add path ws n)"
proof (induction path ws n rule: node_add.induct)
  case (1 path s p ks)
  then show ?case by (simp add: node_ok_iff)
next
  case (2 path w ws s p ks)
  then have "node_ok (case map_of ks w of None \<Rightarrow> empty_node | Some c \<Rightarrow> c)"
    by (auto simp: node_ok_iff split: option.split)
  with 2 show ?case by (auto intro: node_ok_update)
qed

lemma node_ok_delete [inv_intros]: "node_ok n \<Longrightarrow> node_ok (snd (node_delete ws n))"
proof (induction ws n rule: node_delete.induct)
  case (1 s p ks)
  then show ?case by (simp add: node_ok_iff)
next
  case (2 w ws s p ks)
  show ?case
  proof (cases "map_of ks w")
    case (Some c)
    obtain ok c' where c': "node_delete ws c = (ok, c')" by fastforce
    have "node_ok c" using 2(2) Some by (auto simp: node_ok_iff)
    with 2(1) [OF Some] have "node_ok c'" by (simp add: c')
    with Some c' 2(2) show ?thesis
      by (auto simp: Let_def intro: node_ok_update node_ok_remove)
  qed (use 2(2) in simp)
qed

lemma node_get_header_delete: "node_get (header_delete ws h) = (node_get h)(ws := None)"
proof (cases h)
  case (Node s p ks)
  show ?thesis
  proof
    fix vs
    show "node_get (header_delete ws h) vs = ((node_get h)(ws := None)) vs"
    proof (cases ws)
      case Nil
      with Node show ?thesis by (cases vs) auto
    next
      case (Cons w us)
      show ?thesis
      proof (cases "map_of ks w")
        case None
        with Node Cons show ?thesis by (cases vs) auto
      next
        case (Some c)
        define c' where "c' = snd (node_delete us c)"
        have c': "node_get c' = (node_get c)(us := None)" by (simp add: c'_def node_get_delete)
        show ?thesis
        proof (cases "node_kids c' = [] \<and> \<not> node_set c'")
          case True
          then have "node_get c xs = None" if "xs \<noteq> us" for xs
            using node_get_bare [of c' xs] c' that by simp
          with True Some Node Cons show ?thesis
            by (cases vs) (auto simp: Let_def delete_conv_map simp flip: c'_def)
        next
          case False
          with c' Some Node Cons show ?thesis
            by (cases vs) (auto simp: Let_def update_conv' simp flip: c'_def)
        qed
      qed
    qed
  qed
qed

lemma node_ok_header_delete [inv_intros]:
  assumes "node_ok h" shows "node_ok (header_delete ws h)"
proof (cases h; cases ws)
  fix s p ks assume "h = Node s p ks" "ws = []"
  with assms show ?thesis by (simp add: node_ok_iff)
next
  fix s p ks w us assume *: "h = Node s p ks" "ws = w # us"
  have "node_ok (snd (node_delete us c))" if "map_of ks w = Some c" for c
    using assms * that by (auto simp: node_ok_iff intro: node_ok_delete)
  with assms * show ?thesis
    by (auto simp: Let_def intro: node_ok_update node_ok_remove split: option.split)
qed

section \<open>Searching\<close>

lemma set_concat_kids:
  "x \<in> set (concat (map (\<lambda>x. f (snd x)) ks)) \<longleftrightarrow> (\<exists>w c. (w, c) \<in> set ks \<and> x \<in> set (f c))"
  by (induction ks) force+

lemma set_collect: "node_ok n \<Longrightarrow> set (collect n) = ran (node_get n)"
proof (induction n rule: collect.induct)
  case (1 s p ks)
  have kid: "set (collect c) = ran (node_get c)" if "(w, c) \<in> set ks" for w c
    using 1(1) [OF that] 1(2) that by (auto simp: node_ok_Node)
  have key: "(w, c) \<in> set ks \<longleftrightarrow> map_of ks w = Some c" for w c
    using 1(2) by (auto simp: node_ok_iff dest: map_of_SomeD)
  have "x \<in> ran (node_get (Node s p ks)) \<longleftrightarrow>
      s \<and> x = p \<or> (\<exists>w c. map_of ks w = Some c \<and> x \<in> ran (node_get c))" for x
  proof
    assume "x \<in> ran (node_get (Node s p ks))"
    then obtain ws where "node_get (Node s p ks) ws = Some x" by (auto simp: ran_def)
    then show "s \<and> x = p \<or> (\<exists>w c. map_of ks w = Some c \<and> x \<in> ran (node_get c))"
      by (cases ws) (auto simp: ran_def split: if_splits option.splits)
  next
    assume "s \<and> x = p \<or> (\<exists>w c. map_of ks w = Some c \<and> x \<in> ran (node_get c))"
    then show "x \<in> ran (node_get (Node s p ks))"
    proof (elim disjE exE conjE)
      assume "s" "x = p"
      then have "node_get (Node s p ks) [] = Some x" by simp
      then show ?thesis by (rule ranI)
    next
      fix w c assume "map_of ks w = Some c" "x \<in> ran (node_get c)"
      then obtain ws where "node_get (Node s p ks) (w # ws) = Some x" by (auto simp: ran_def)
      then show ?thesis by (rule ranI)
    qed
  qed
  moreover have "x \<in> set (collect (Node s p ks)) \<longleftrightarrow>
      s \<and> x = p \<or> (\<exists>w c. map_of ks w = Some c \<and> x \<in> ran (node_get c))" for x
  proof -
    have "x \<in> set (collect (Node s p ks)) \<longleftrightarrow> s \<and> x = p \<or> (\<exists>w c. (w, c) \<in> set ks \<and> x \<in> set (collect c))"
      unfolding collect.simps set_append Un_iff set_concat_kids
      by (cases s) (simp_all add: disj_commute conj_commute)
    then show ?thesis using kid key by blast
  qed
  ultimately show ?case by (intro set_eqI) (simp only:)
qed

text \<open>The children of a node hold what the node holds under a non-empty word list.\<close>

definition below :: "(string list \<Rightarrow> string option) \<Rightarrow> string list \<Rightarrow> string set" where
  "below m ws = {p. \<exists>v vs. m (ws @ v # vs) = Some p}"

lemma set_kids:
  assumes "distinct (map fst ks)" and "\<And>w c. map_of ks w = Some c \<Longrightarrow> node_ok c"
  shows "set (concat (map (\<lambda>x. collect (snd x)) ks))
    = {p. \<exists>w c vs. map_of ks w = Some c \<and> node_get c vs = Some p}"
proof -
  have key: "(w, c) \<in> set ks \<longleftrightarrow> map_of ks w = Some c" for w c
    using assms(1) by (auto dest: map_of_SomeD)
  have col: "x \<in> set (collect c) \<longleftrightarrow> (\<exists>vs. node_get c vs = Some x)" if "map_of ks w = Some c" for x w c
    using set_collect [OF assms(2) [OF that]] by (simp add: ran_def)
  show ?thesis
  proof (rule set_eqI)
    fix x
    have "x \<in> set (concat (map (\<lambda>x. collect (snd x)) ks)) \<longleftrightarrow>
        (\<exists>w c. (w, c) \<in> set ks \<and> x \<in> set (collect c))"
      by (rule set_concat_kids)
    also have "\<dots> \<longleftrightarrow> (\<exists>w c vs. map_of ks w = Some c \<and> node_get c vs = Some x)"
      unfolding key using col by blast
    finally show "x \<in> set (concat (map (\<lambda>x. collect (snd x)) ks)) \<longleftrightarrow>
        x \<in> {p. \<exists>w c vs. map_of ks w = Some c \<and> node_get c vs = Some p}"
      by simp
  qed
qed

lemma below_Node:
  "below (node_get (Node s p ks)) [] = {q. \<exists>w c vs. map_of ks w = Some c \<and> node_get c vs = Some q}"
proof (rule set_eqI, rule iffI)
  fix q assume "q \<in> below (node_get (Node s p ks)) []"
  then show "q \<in> {q. \<exists>w c vs. map_of ks w = Some c \<and> node_get c vs = Some q}"
    by (auto simp: below_def split: option.splits)
next
  fix q assume "q \<in> {q. \<exists>w c vs. map_of ks w = Some c \<and> node_get c vs = Some q}"
  then obtain w c vs where "map_of ks w = Some c" "node_get c vs = Some q" by blast
  then have "node_get (Node s p ks) ([] @ w # vs) = Some q" by simp
  then show "q \<in> below (node_get (Node s p ks)) []" unfolding below_def by blast
qed

lemma set_node_kids:
  assumes "node_ok n"
  shows "set (concat (map (\<lambda>x. collect (snd x)) (node_kids n))) = below (node_get n) []"
proof (cases n)
  case (Node s p ks)
  have "distinct (map fst ks)" "\<And>w c. map_of ks w = Some c \<Longrightarrow> node_ok c"
    using assms Node by (auto simp: node_ok_iff)
  then show ?thesis unfolding Node below_Node node.sel by (rule set_kids)
qed

lemma set_header_search:
  "node_ok h \<Longrightarrow> [] \<notin> set (butlast ws) \<Longrightarrow>
     set (header_search ws h) = below (node_get h) (if ws \<noteq> [] \<and> last ws = [] then butlast ws else ws)"
proof (induction ws h rule: header_search.induct)
  case (1 h)
  then show ?case using set_node_kids [of h] by simp
next
  case (2 w ws h)
  obtain s p ks where h: "h = Node s p ks" by (cases h)
  show ?case
  proof (cases "ws = [] \<and> w = []")
    case True
    with 2 set_node_kids [of h] show ?thesis by simp
  next
    case False
    show ?thesis
    proof (cases "map_of ks w")
      case None
      with False h show ?thesis by (auto simp: below_def)
    next
      case (Some c)
      have "node_ok c" using 2(2) h Some by (auto simp: node_ok_iff)
      moreover have "[] \<notin> set (butlast ws)" using 2(3) by (auto split: if_splits)
      ultimately have "set (header_search ws c)
          = below (node_get c) (if ws \<noteq> [] \<and> last ws = [] then butlast ws else ws)"
        using 2(1) [of c] False Some h by simp
      with False Some h show ?thesis
        by (auto simp: below_def)
    qed
  qed
qed

section \<open>The trie as a map from word lists\<close>

definition trie_get :: "trie \<Rightarrow> string list \<Rightarrow> string option" where
  "trie_get t = node_get (Node False [] t)"

definition trie_ok :: "trie \<Rightarrow> bool" where
  "trie_ok t \<longleftrightarrow> node_ok (Node False [] t)"

lemma trie_get_new [simp]: "trie_get newWordTrie = Map.empty"
proof
  show "trie_get newWordTrie ws = None" for ws
    by (cases ws) (simp_all add: trie_get_def newWordTrie_def)
qed

lemma trie_ok_new [simp, inv_intros]: "trie_ok newWordTrie"
  by (simp add: trie_ok_def newWordTrie_def node_ok_iff)

text \<open>The headers are the children of a root that is never set.\<close>

lemma trie_add_root:
  "words_of path = w # ws \<Longrightarrow> [] \<notin> set ws \<Longrightarrow>
     Node False [] (fst (trie_add path t)) = node_add path (w # ws) (Node False [] t)"
  by (simp add: trie_add_def)

lemma trie_delete_root:
  assumes "words_of path = w # ws" and "trie_ok t"
  shows "trie_get (fst (trie_delete path t)) = (trie_get t)(w # ws := None)"
    and "trie_ok (fst (trie_delete path t))"
proof -
  have "trie_get (fst (trie_delete path t)) = (trie_get t)(w # ws := None)
      \<and> trie_ok (fst (trie_delete path t))"
  proof (cases "map_of t w")
    case None
    then have "trie_get t (w # ws) = None" by (simp add: trie_get_def)
    with None assms show ?thesis
      by (auto simp: trie_delete_def fun_upd_idem)
  next
    case (Some h)
    define h' where "h' = header_delete ws h"
    have h': "node_get h' = (node_get h)(ws := None)" "node_ok h'"
      using Some assms(2) node_ok_header_delete [of h ws]
      by (auto simp: h'_def node_get_header_delete trie_ok_def node_ok_iff)
    have "fst (trie_delete path t) =
        (if node_kids h' = [] \<and> \<not> node_set h' then AList.delete w t else AList.update w h' t)"
      using assms(1) Some by (simp add: trie_delete_def h'_def Let_def)
    moreover have "trie_get (AList.delete w t) = (trie_get t)(w # ws := None)"
      if "node_kids h' = []" "\<not> node_set h'"
    proof
      fix vs
      have "node_get h us = None" if "us \<noteq> ws" for us
        using node_get_bare [OF \<open>node_kids h' = []\<close> \<open>\<not> node_set h'\<close>, of us] h'(1) that by simp
      with Some show "trie_get (AList.delete w t) vs = ((trie_get t)(w # ws := None)) vs"
        by (cases vs) (auto simp: trie_get_def delete_conv_map)
    qed
    moreover have "trie_get (AList.update w h' t) = (trie_get t)(w # ws := None)"
    proof
      fix vs
      show "trie_get (AList.update w h' t) vs = ((trie_get t)(w # ws := None)) vs"
        using Some h'(1) by (cases vs) (auto simp: trie_get_def update_conv')
    qed
    ultimately show ?thesis
      using assms(2) h'(2) by (auto simp: trie_ok_def intro: node_ok_update node_ok_remove)
  qed
  then show "trie_get (fst (trie_delete path t)) = (trie_get t)(w # ws := None)"
    and "trie_ok (fst (trie_delete path t))" by blast+
qed

datatype trie_op = TrieAdd string | TrieDelete string

fun trie_apply :: "trie_op \<Rightarrow> trie \<Rightarrow> trie" where
  "trie_apply (TrieAdd p) t = fst (trie_add p t)"
| "trie_apply (TrieDelete p) t = fst (trie_delete p t)"

text \<open>The specification: the paths registered under their words.\<close>

fun registered :: "trie_op \<Rightarrow> (string list \<rightharpoonup> string) \<Rightarrow> (string list \<rightharpoonup> string)" where
  "registered (TrieAdd p) m =
     (if words_of p = [] \<or> [] \<in> set (tl (words_of p)) then m else m(words_of p \<mapsto> p))"
| "registered (TrieDelete p) m = (if words_of p = [] then m else m(words_of p := None))"

lemma trie_apply_refines:
  assumes "trie_ok t"
  shows "trie_get (trie_apply op t) = registered op (trie_get t)" and "trie_ok (trie_apply op t)"
proof -
  have "trie_get (trie_apply op t) = registered op (trie_get t) \<and> trie_ok (trie_apply op t)"
  proof (cases op)
    case (TrieAdd p)
    show ?thesis
    proof (cases "words_of p")
      case Nil
      with TrieAdd assms show ?thesis by (simp add: trie_add_def)
    next
      case (Cons w ws)
      show ?thesis
      proof (cases "[] \<in> set ws")
        case True
        with TrieAdd Cons assms show ?thesis by (simp add: trie_add_def)
      next
        case False
        with TrieAdd Cons assms node_ok_add [of "Node False [] t" p "w # ws"] show ?thesis
          by (simp add: trie_get_def trie_ok_def trie_add_root node_get_add del: node_add.simps)
      qed
    qed
  next
    case (TrieDelete p)
    show ?thesis
    proof (cases "words_of p")
      case Nil
      with TrieDelete assms show ?thesis by (simp add: trie_delete_def)
    next
      case (Cons w ws)
      with TrieDelete assms show ?thesis by (simp add: trie_delete_root)
    qed
  qed
  then show "trie_get (trie_apply op t) = registered op (trie_get t)" and "trie_ok (trie_apply op t)"
    by blast+
qed

lemma trie_fold_refines:
  "trie_ok t \<Longrightarrow> trie_get (fold trie_apply ops t) = fold registered ops (trie_get t)
     \<and> trie_ok (fold trie_apply ops t)"
  by (induction ops arbitrary: t) (simp_all add: trie_apply_refines)

definition strip_last :: "string list \<Rightarrow> string list" where
  "strip_last ws = (if ws \<noteq> [] \<and> last ws = [] then butlast ws else ws)"

lemma set_trie_search:
  assumes "trie_ok t" and "[] \<notin> set (butlast (tl (words_of q)))"
  shows "set (trie_search q t) =
    (case words_of q of [] \<Rightarrow> {}
     | w # ws \<Rightarrow> if w = [] then below (trie_get t) [] else below (trie_get t) (w # strip_last ws))"
proof (cases "words_of q")
  case Nil
  then show ?thesis by (simp add: trie_search_def)
next
  case (Cons w ws)
  show ?thesis
  proof (cases "w = []")
    case True
    with Cons set_node_kids [OF assms(1) [unfolded trie_ok_def]] show ?thesis
      by (simp add: trie_search_def trie_get_def)
  next
    case False
    show ?thesis
    proof (cases "map_of t w")
      case None
      with Cons False show ?thesis by (auto simp: trie_search_def trie_get_def below_def)
    next
      case (Some h)
      have "node_ok h" using assms(1) Some by (auto simp: trie_ok_def node_ok_iff)
      then have "set (header_search ws h) = below (node_get h) (strip_last ws)"
        using assms(2) Cons by (simp add: set_header_search strip_last_def)
      with Cons False Some show ?thesis
        by (simp add: trie_search_def trie_get_def below_def)
    qed
  qed
qed

text \<open>
  C4. After any history of \<open>add\<close> and \<open>delete\<close>, \<open>search\<close> returns exactly the registered paths
  strictly below the words it is given, a trailing slash ignored: all of them for the root, none
  for the empty string, and never the path that equals the search word itself. Paths with an
  empty word inside are refused by \<open>add\<close>.
\<close>

theorem trie_search_history:
  assumes "[] \<notin> set (butlast (tl (words_of q)))"
  shows "set (trie_search q (fold trie_apply ops newWordTrie)) =
    (let m = fold registered ops Map.empty in
     case words_of q of [] \<Rightarrow> {}
     | w # ws \<Rightarrow> if w = [] then below m [] else below m (w # strip_last ws))"
  using set_trie_search [OF _ assms, of "fold trie_apply ops newWordTrie"]
    trie_fold_refines [of newWordTrie ops]
  by (simp add: Let_def split: list.split)

lemma trie_search_history_witness:
  "set (trie_search ''hall'' (fold trie_apply
      [TrieAdd ''hall'', TrieAdd ''hall/1'', TrieAdd ''hall/2'', TrieDelete ''hall/1''] newWordTrie))
     = {''hall/2''}"
proof -
  have w: "words_of ''hall'' = [''hall'']" "words_of ''hall/1'' = [''hall'', ''1'']"
    "words_of ''hall/2'' = [''hall'', ''2'']"
    by code_simp+
  show ?thesis
    by (subst trie_search_history) (auto simp: w below_def strip_last_def)
qed

text \<open>
  Adding a path and deleting it again leaves what any search finds as it was before, when the
  path was not registered; and an added path is found from every proper ancestor.
\<close>

lemma trie_add_delete:
  assumes "trie_ok t" and "words_of p = w # ws" and "[] \<notin> set ws" and "trie_get t (w # ws) = None"
    and "[] \<notin> set (butlast (tl (words_of q)))"
  shows "set (trie_search q (fst (trie_delete p (fst (trie_add p t))))) = set (trie_search q t)
    \<and> (\<forall>u us v vs. words_of q = u # us \<and> u \<noteq> [] \<and> u # strip_last us @ v # vs = w # ws \<longrightarrow>
        p \<in> set (trie_search q (fst (trie_add p t))))"
proof -
  have add: "trie_get (fst (trie_add p t)) = (trie_get t)(w # ws \<mapsto> p)" "trie_ok (fst (trie_add p t))"
    using trie_apply_refines [OF assms(1), of "TrieAdd p"] assms(2,3) by simp_all
  have del: "trie_get (fst (trie_delete p (fst (trie_add p t)))) = trie_get t"
    "trie_ok (fst (trie_delete p (fst (trie_add p t))))"
    using trie_apply_refines [OF add(2), of "TrieDelete p"] assms(2,4) add(1)
    by (simp_all add: fun_upd_idem)
  show ?thesis
  proof (intro conjI allI impI)
    show "set (trie_search q (fst (trie_delete p (fst (trie_add p t))))) = set (trie_search q t)"
      using del assms(1,5) by (simp add: set_trie_search split: list.split)
  next
    fix u us v vs
    assume *: "words_of q = u # us \<and> u \<noteq> [] \<and> u # strip_last us @ v # vs = w # ws"
    then have "trie_get (fst (trie_add p t)) ((u # strip_last us) @ v # vs) = Some p"
      using add(1) by simp
    then show "p \<in> set (trie_search q (fst (trie_add p t)))"
      using * add(2) assms(5) by (auto simp: set_trie_search below_def)
  qed
qed

lemma trie_add_delete_witness:
  "''hall/1'' \<in> set (trie_search ''hall/'' (fst (trie_add ''hall/1'' newWordTrie)))"
proof -
  have w: "words_of ''hall/1'' = [''hall'', ''1'']" "words_of ''hall/'' = [''hall'', []]"
    by code_simp+
  have "\<forall>u us v vs. words_of ''hall/'' = u # us \<and> u \<noteq> [] \<and> u # strip_last us @ v # vs = [''hall'', ''1''] \<longrightarrow>
        ''hall/1'' \<in> set (trie_search ''hall/'' (fst (trie_add ''hall/1'' newWordTrie)))"
    using trie_add_delete [OF trie_ok_new w(1), of "''hall/''"] by (simp add: w(2))
  then show ?thesis by (simp add: w(2) strip_last_def)
qed

end
