(* ===== verification/Registry_Service.thy ===== *)
theory Registry_Service
  imports Registry_Player Word_Trie "HOL-Library.Multiset"
begin

text \<open>
  The service registry, \<open>registry/service.go\<close>: which node offers a service. A service is registered
  by two etcd keys; every node keeps a table of the services it has seen, fed by its own
  registrations and by the watch of \<open>/service/\<close>, and the word trie of \<open>Word_Trie\<close> over their
  names. The watch handlers are the history \<open>srNotes\<close> of the notifications; the options are those
  of \<open>options/service_options\<close>. Peers are compared as the pointers they are.

  The lemmas: the trie always indexes exactly the table, so that \<open>WhereIsService\<close> by catalog finds
  exactly the services below a name; a handler that follows the notifications knows exactly the
  services of the table; registration is exclusive and undone by \<open>UnregisterService\<close> and by
  \<open>unregisterServices\<close>.
\<close>

section \<open>State\<close>

record 'p service =
  svPeer :: "'p option"
  svFullName :: string
  svTypeName :: string
  svIsSelf :: bool
  svCreateRevision :: int

datatype 'p service_note = ServiceAdded "'p service" | ServiceDeleted "'p service"

record 'p service_registry =
  srServices :: "string \<rightharpoonup> 'p service"
  srSelfServices :: "string \<rightharpoonup> 'p service"
  srWatchStartRevision :: int
  srPrefixIndex :: trie
  srIsNotify :: bool
  srNotes :: "'p service_note list"

datatype service_error =
  ErrInvalidService | ErrServicePeerNotFound | ErrServiceLocked | ServiceCommitError | ServiceGetError

definition servicePrefix :: string where "servicePrefix = ''/service/''"

definition peerServicePrefix :: "app \<Rightarrow> string" where
  "peerServicePrefix a = ''/peer/service/'' @ aFullName a @ ''/''"

definition serviceKey :: "string \<Rightarrow> string" where "serviceKey n = servicePrefix @ n"

definition peerServiceKey :: "app \<Rightarrow> string \<Rightarrow> string" where
  "peerServiceKey a n = peerServicePrefix a @ n"

definition newConfigServiceRegistry :: "'p service_registry" where
  "newConfigServiceRegistry =
     \<lparr>srServices = Map.empty, srSelfServices = Map.empty, srWatchStartRevision = 0,
      srPrefixIndex = newWordTrie, srIsNotify = False, srNotes = []\<rparr>"

text \<open>Both callbacks log \<open>service.Peer.FullName\<close>, which panics on a nil peer.\<close>

definition onServiceAdd ::
  "'p service \<Rightarrow> 'p service_registry \<Rightarrow> (service_error, 'p service_registry) outcome" where
  "onServiceAdd v s =
     (if \<not> srIsNotify s then Return s
      else (case svPeer v of
              None \<Rightarrow> Panic | Some p \<Rightarrow> Return (s\<lparr>srNotes := srNotes s @ [ServiceAdded v]\<rparr>)))"

definition onServiceDelete ::
  "'p service \<Rightarrow> 'p service_registry \<Rightarrow> (service_error, 'p service_registry) outcome" where
  "onServiceDelete v s =
     (case svPeer v of
        None \<Rightarrow> Panic | Some p \<Rightarrow> Return (s\<lparr>srNotes := srNotes s @ [ServiceDeleted v]\<rparr>))"

text \<open>\<open>notify\<close> ranges over the table; the list is the order of that iteration.\<close>

fun notify_services ::
  "string list \<Rightarrow> 'p service_registry \<Rightarrow> (service_error, 'p service_registry) outcome" where
  "notify_services [] s = Return s"
| "notify_services (n # ns) s =
     (case srServices s n of
        None \<Rightarrow> notify_services ns s
      | Some v \<Rightarrow> bind_outcome (onServiceAdd v s) (notify_services ns))"

section \<open>Events of the watch\<close>

definition service_onKvAdd ::
  "(string \<Rightarrow> 'p option) \<Rightarrow> 'p option \<Rightarrow> string \<Rightarrow> string \<Rightarrow> 'p service_registry \<Rightarrow>
     (service_error, 'p service_registry) outcome" where
  "service_onKvAdd getPeer selfPeer key v s =
     (let words = split_on (CHR ''/'') key in
      if length words \<le> 2 then Error ErrInvalidService
      else
        (let words = drop 2 words in
         case (if length words = 2 then Some (words ! 0 @ ''/'' @ words ! 1, words ! 0)
               else if length words = 1 then Some (words ! 0, []) else None) of
           None \<Rightarrow> Error ErrInvalidService
         | Some (serviceFullName, serviceTypeName) \<Rightarrow>
             (case srServices s serviceFullName of
                Some _ \<Rightarrow> Return s
              | None \<Rightarrow>
                  (case getPeer v of
                     None \<Rightarrow> Error ErrServicePeerNotFound
                   | Some peer \<Rightarrow>
                       (let service = \<lparr>svPeer = Some peer, svFullName = serviceFullName,
                              svTypeName = serviceTypeName, svIsSelf = (selfPeer = Some peer),
                              svCreateRevision = 0\<rparr>;
                            s1 = s\<lparr>srServices := (srServices s)(serviceFullName \<mapsto> service),
                                   srPrefixIndex := fst (trie_add serviceFullName (srPrefixIndex s)),
                                   srSelfServices :=
                                     (if svIsSelf service
                                      then (srSelfServices s)(serviceFullName \<mapsto> service)
                                      else srSelfServices s)\<rparr>
                        in onServiceAdd service s1)))))"

definition service_onKvDelete ::
  "string \<Rightarrow> 'p service_registry \<Rightarrow> (service_error, 'p service_registry) outcome" where
  "service_onKvDelete key s =
     (let words = split_on (CHR ''/'') key in
      if length words \<le> 2 then Error ErrInvalidService
      else
        (let words = drop 2 words;
             serviceFullName = (if length words = 2 then words ! 0 @ ''/'' @ words ! 1
                                else if length words = 1 then words ! 0 else [])
         in case srServices s serviceFullName of
              None \<Rightarrow> Return s
            | Some lastService \<Rightarrow>
                bind_outcome
                  (onServiceDelete lastService
                     (s\<lparr>srServices := (srServices s)(serviceFullName := None),
                        srPrefixIndex := fst (trie_delete (join_with ''/'' words) (srPrefixIndex s))\<rparr>))
                  (\<lambda>s. Return (if svIsSelf lastService
                                then s\<lparr>srSelfServices := (srSelfServices s)(serviceFullName := None)\<rparr>
                                else s))))"

section \<open>Starting and stopping\<close>

text \<open>
  \<open>initServices\<close> first removes the keys an earlier run of the node left (the first argument is
  what \<open>kv.Get\<close> finds under \<open>peerServicePrefix\<close>), then enters the services found (the second).
\<close>

definition cleanup_txn :: "app \<Rightarrow> string \<Rightarrow> txn" where
  "cleanup_txn a n =
     \<lparr>tIf = [CreateRevisionNe (serviceKey n) 0],
      tThen = [OpDelete (peerServiceKey a n), OpDelete (serviceKey n)], tElse = []\<rparr>"

fun cleanup_services :: "'e commit \<Rightarrow> app \<Rightarrow> string list \<Rightarrow> 'e \<Rightarrow> 'e \<times> service_error option" where
  "cleanup_services commit a [] e = (e, None)"
| "cleanup_services commit a (key # keys) e =
     (let words = split_on (CHR ''/'') key;
          serviceName = (if length words = 6 then words ! 4 @ ''/'' @ words ! 5
                         else if length words = 5 then words ! 4 else [])
      in case commit e (cleanup_txn a serviceName) of
           (e', None) \<Rightarrow> (e', Some ServiceCommitError)
         | (e', Some _) \<Rightarrow> cleanup_services commit a keys e')"

fun add_services ::
  "(string \<Rightarrow> 'p option) \<Rightarrow> 'p option \<Rightarrow> (string \<times> string) list \<Rightarrow> 'p service_registry \<Rightarrow>
     (service_error, 'p service_registry \<times> service_error option) outcome" where
  "add_services getPeer selfPeer [] s = Return (s, None)"
| "add_services getPeer selfPeer ((k, v) # kvs) s =
     (case service_onKvAdd getPeer selfPeer k v s of
        Return s' \<Rightarrow> add_services getPeer selfPeer kvs s'
      | Error err \<Rightarrow> Return (s, Some err)
      | Panic \<Rightarrow> Panic)"

definition initServices ::
  "'e commit \<Rightarrow> (string \<Rightarrow> 'p option) \<Rightarrow> 'p option \<Rightarrow> app \<Rightarrow> string list option \<Rightarrow>
     ((string \<times> string) list \<times> int) option \<Rightarrow> 'e \<times> 'p service_registry \<Rightarrow>
     (service_error, ('e \<times> 'p service_registry) \<times> service_error option) outcome" where
  "initServices commit getPeer selfPeer a own getResp es =
     (let (e, s) = es in
      case own of
        None \<Rightarrow> Return ((e, s), Some ServiceGetError)
      | Some keys \<Rightarrow>
          (case cleanup_services commit a keys e of
             (e', Some err) \<Rightarrow> Return ((e', s), Some err)
           | (e', None) \<Rightarrow>
               (case getResp of
                  None \<Rightarrow> Return ((e', s), Some ServiceGetError)
                | Some (kvs, revision) \<Rightarrow>
                    bind_outcome (add_services getPeer selfPeer kvs s) (\<lambda>x.
                      (case x of
                         (s', Some err) \<Rightarrow> Return ((e', s'), Some err)
                       | (s', None) \<Rightarrow> Return ((e', s'\<lparr>srWatchStartRevision := revision + 1\<rparr>), None))))))"

definition unregister_service_txn :: "app \<Rightarrow> string \<Rightarrow> int \<Rightarrow> txn" where
  "unregister_service_txn a n r =
     \<lparr>tIf = [CreateRevisionEq (serviceKey n) r],
      tThen = [OpDelete (serviceKey n), OpDelete (peerServiceKey a n)], tElse = []\<rparr>"

text \<open>The list is the order in which \<open>selfServices\<close> is ranged over; a failed commit is logged.\<close>

fun unregisterServices :: "'e commit \<Rightarrow> app \<Rightarrow> (string \<times> 'p service) list \<Rightarrow> 'e \<Rightarrow> 'e" where
  "unregisterServices commit a [] e = e"
| "unregisterServices commit a ((n, v) # ns) e =
     unregisterServices commit a ns (fst (commit e (unregister_service_txn a n (svCreateRevision v))))"

section \<open>Registering\<close>

datatype register_option = AsAppServiceOption

record register_options =
  roAsAppService :: bool

fun ConfigRegisterOption :: "register_option \<Rightarrow> register_options \<Rightarrow> register_options" where
  "ConfigRegisterOption AsAppServiceOption opts = opts\<lparr>roAsAppService := True\<rparr>"

definition NewServiceName :: "app \<Rightarrow> string \<Rightarrow> register_option list \<Rightarrow> string" where
  "NewServiceName a serviceName opt =
     (let opts = fold ConfigRegisterOption opt \<lparr>roAsAppService = False\<rparr> in
      if roAsAppService opts then serviceName @ ''/'' @ fmt_int (aId a) else serviceName)"

definition register_txn :: "app \<Rightarrow> string \<Rightarrow> txn" where
  "register_txn a n =
     \<lparr>tIf = [CreateRevisionEq (serviceKey n) 0],
      tThen = [OpPut (serviceKey n) (aFullName a), OpPut (peerServiceKey a n) (aFullName a)],
      tElse = [OpGet (serviceKey n)]\<rparr>"

text \<open>A result is the peer and the error of Go; the value \<open>Kvs[0]\<close> is read without a check.\<close>

type_synonym 'p service_result = "'p option \<times> service_error option"

definition RegisterService ::
  "'e commit \<Rightarrow> (string \<Rightarrow> 'p option) \<Rightarrow> app \<Rightarrow> string \<Rightarrow> register_option list \<Rightarrow>
     'e \<times> 'p service_registry \<Rightarrow>
     (service_error, ('e \<times> 'p service_registry) \<times> 'p service_result) outcome" where
  "RegisterService commit getPeer a serviceName opt es =
     (let (e, s) = es;
          serviceFullName = NewServiceName a serviceName opt;
          words = split_on (CHR ''/'') serviceFullName
      in if length words \<noteq> 2 \<and> length words \<noteq> 1 then Return ((e, s), (None, Some ErrInvalidService))
         else
           (let serviceTypeName = (if length words = 2 then words ! 0 else []) in
            case commit e (register_txn a serviceFullName) of
              (e', None) \<Rightarrow> Return ((e', s), (None, Some ServiceCommitError))
            | (e', Some (True, rs)) \<Rightarrow>
                (let createRevision = (case rs ! 1 of RespPut r \<Rightarrow> r | _ \<Rightarrow> 0);
                     service = \<lparr>svPeer = getPeer (aFullName a), svFullName = serviceFullName,
                       svTypeName = serviceTypeName, svIsSelf = True, svCreateRevision = createRevision\<rparr>;
                     services = (case srServices s serviceFullName of
                                   None \<Rightarrow> (srServices s)(serviceFullName \<mapsto> service)
                                 | Some _ \<Rightarrow> srServices s);
                     s1 = s\<lparr>srServices := services,
                            srPrefixIndex := fst (trie_add serviceFullName (srPrefixIndex s)),
                            srSelfServices := (srSelfServices s)(serviceFullName \<mapsto> service)\<rparr>
                 in bind_outcome (onServiceAdd service s1) (\<lambda>s2. Return ((e', s2), (None, None))))
            | (e', Some (False, rs)) \<Rightarrow>
                (case rs of
                   RespGet (appFullName # _) # _ \<Rightarrow>
                     Return ((e', s), (getPeer appFullName, Some ErrServiceLocked))
                 | _ \<Rightarrow> Panic)))"

definition unregister_own_txn :: "app \<Rightarrow> string \<Rightarrow> txn" where
  "unregister_own_txn a n =
     \<lparr>tIf = [ValueEq (serviceKey n) (aFullName a), CreateRevisionNe (serviceKey n) 0],
      tThen = [OpDelete (peerServiceKey a n), OpDelete (serviceKey n)],
      tElse = [OpGet (serviceKey n)]\<rparr>"

text \<open>The guard of \<open>len(Kvs)\<close> protects the name, but the log line after it reads \<open>Kvs[0]\<close> again.\<close>

definition UnregisterService ::
  "'e commit \<Rightarrow> (string \<Rightarrow> 'p option) \<Rightarrow> app \<Rightarrow> string \<Rightarrow> 'e \<Rightarrow>
     (service_error, 'e \<times> 'p service_result) outcome" where
  "UnregisterService commit getPeer a serviceName e =
     (case commit e (unregister_own_txn a serviceName) of
        (e', None) \<Rightarrow> Return (e', (None, Some ServiceCommitError))
      | (e', Some (True, rs)) \<Rightarrow> Return (e', (None, None))
      | (e', Some (False, rs)) \<Rightarrow>
          (case rs of
             RespGet (appFullName # _) # _ \<Rightarrow> Return (e', (getPeer appFullName, Some ErrServiceLocked))
           | _ \<Rightarrow> Panic))"

section \<open>Looking up\<close>

datatype where_option =
  WhereMaxCountOption int | WhereRegexOption | WherePrefixOption | WhereCatalogOption

record where_options =
  woMaxCount :: int
  woRegex :: bool
  woPrefix :: bool
  woCatalog :: bool

fun ConfigWhereOption :: "where_option \<Rightarrow> where_options \<Rightarrow> where_options" where
  "ConfigWhereOption (WhereMaxCountOption n) opts = opts\<lparr>woMaxCount := n\<rparr>"
| "ConfigWhereOption WhereRegexOption opts = opts\<lparr>woRegex := True\<rparr>"
| "ConfigWhereOption WherePrefixOption opts = opts\<lparr>woPrefix := True\<rparr>"
| "ConfigWhereOption WhereCatalogOption opts = opts\<lparr>woCatalog := True\<rparr>"

definition where_options :: "where_option list \<Rightarrow> where_options" where
  "where_options opt =
     fold ConfigWhereOption opt \<lparr>woMaxCount = 0, woRegex = False, woPrefix = False, woCatalog = False\<rparr>"

text \<open>The loop over the names found, with its count of the peers still wanted.\<close>

fun where_loop :: "(string \<rightharpoonup> 'p service) \<Rightarrow> int \<Rightarrow> string list \<Rightarrow> 'p option list" where
  "where_loop services multicastCount [] = []"
| "where_loop services multicastCount (name # arr) =
     (case services name of
        None \<Rightarrow> where_loop services multicastCount arr
      | Some service \<Rightarrow>
          svPeer service #
            (if 0 < multicastCount
             then (if multicastCount - 1 \<le> 0 then [] else where_loop services (multicastCount - 1) arr)
             else where_loop services multicastCount arr))"

text \<open>
  The trie is walked in the order of Go's map iteration; \<open>order\<close> turns the order of the model into
  it. \<open>Regex\<close> is stored and never read.
\<close>

definition WhereIsService ::
  "(string list \<Rightarrow> string list) \<Rightarrow> 'p service_registry \<Rightarrow> string \<Rightarrow> where_option list \<Rightarrow> 'p option list" where
  "WhereIsService order s serviceName opt =
     (let opts = where_options opt in
      if woCatalog opts \<or> woPrefix opts
      then where_loop (srServices s) (woMaxCount opts) (order (trie_search serviceName (srPrefixIndex s)))
      else (case srServices s serviceName of None \<Rightarrow> [] | Some service \<Rightarrow> [svPeer service]))"

section \<open>The table, its index and its watchers\<close>

text \<open>A service name whose words are not empty, of one word or two.\<close>

definition ok_name :: "string \<Rightarrow> bool" where
  "ok_name n \<longleftrightarrow> [] \<notin> set (split_on (CHR ''/'') n)"

lemma words_of_ok: "ok_name n \<Longrightarrow> words_of n = split_on (CHR ''/'') n"
  by (cases "split_on (CHR ''/'') n") (auto simp: words_of_def ok_name_def)

lemma ok_words: 
  assumes "ok_name n"
  obtains w ws where "words_of n = w # ws" and "[] \<notin> set ws" and "split_on (CHR ''/'') n = w # ws"
  using assms words_of_ok [OF assms] by (cases "split_on (CHR ''/'') n") (auto simp: ok_name_def)

lemma words_of_inj: "ok_name n \<Longrightarrow> ok_name m \<Longrightarrow> words_of n = words_of m \<longleftrightarrow> n = m"
  using words_of_ok split_on_inj by metis

text \<open>The names a handler of the notifications knows: added and not deleted since.\<close>

definition view_step :: "'p service_note \<Rightarrow> string set \<Rightarrow> string set" where
  "view_step n v = (case n of ServiceAdded x \<Rightarrow> insert (svFullName x) v | ServiceDeleted x \<Rightarrow> v - {svFullName x})"

definition view :: "'p service_note list \<Rightarrow> string set" where
  "view ns = fold view_step ns {}"

lemma view_snoc [simp]: "view (ns @ [n]) = view_step n (view ns)" and view_Nil [simp]: "view [] = {}"
  by (simp_all add: view_def)

definition indexed :: "(string \<rightharpoonup> 'p service) \<Rightarrow> trie \<Rightarrow> bool" where
  "indexed T t \<longleftrightarrow> trie_ok t \<and> (\<forall>ws p. trie_get t ws = Some p \<longleftrightarrow> p \<in> dom T \<and> words_of p = ws)"

definition table_ok :: "(string \<rightharpoonup> 'p service) \<Rightarrow> bool" where
  "table_ok T \<longleftrightarrow> (\<forall>n v. T n = Some v \<longrightarrow> ok_name n \<and> svFullName v = n)"

definition service_inv :: "'p service_registry \<Rightarrow> bool" where
  "service_inv s \<longleftrightarrow> table_ok (srServices s) \<and> indexed (srServices s) (srPrefixIndex s)
     \<and> view (srNotes s) = (if srIsNotify s then dom (srServices s) else {})"

lemma service_inv_new [inv_intros]: "service_inv newConfigServiceRegistry"
  by (simp add: service_inv_def newConfigServiceRegistry_def table_ok_def indexed_def)

lemma indexed_add:
  assumes "indexed T t" and "table_ok T" and "ok_name n"
  shows "indexed (T(n \<mapsto> v)) (fst (trie_add n t))"
proof -
  obtain w ws where w: "words_of n = w # ws" "[] \<notin> set ws" using ok_words [OF assms(3)] by metis
  note R = trie_apply_refines [of t "TrieAdd n"]
  have g: "trie_get (fst (trie_add n t)) = (trie_get t)(words_of n \<mapsto> n)" "trie_ok (fst (trie_add n t))"
    using R assms(1) w by (simp_all add: indexed_def)
  have "p = n" if "p \<in> dom T" "words_of p = words_of n" for p
    using that assms(2,3) words_of_inj [of p n] by (auto simp: table_ok_def)
  then show ?thesis
    using g assms(1) by (auto simp: indexed_def)
qed

lemma indexed_delete:
  assumes "indexed T t" and "table_ok T" and "n \<in> dom T"
  shows "indexed (T(n := None)) (fst (trie_delete n t))"
proof -
  have ok: "ok_name n" using assms(2,3) by (auto simp: table_ok_def)
  then have w: "words_of n \<noteq> []" by (metis ok_words list.distinct(1))
  note R = trie_apply_refines [of t "TrieDelete n"]
  have g: "trie_get (fst (trie_delete n t)) = (trie_get t)(words_of n := None)" "trie_ok (fst (trie_delete n t))"
    using R assms(1) w by (simp_all add: indexed_def)
  have "p = n" if "p \<in> dom T" "words_of p = words_of n" for p
    using that assms(2) ok words_of_inj [of p n] by (auto simp: table_ok_def)
  then show ?thesis
    using g assms(1) by (auto simp: indexed_def)
qed

lemma join_two:
  "length ws = 2 \<Longrightarrow> ws ! 0 @ CHR ''/'' # ws ! 1 = join_with ''/'' ws"
  "length ws = Suc 0 \<Longrightarrow> ws ! 0 = join_with ''/'' ws"
  by (auto simp: numeral_2_eq_2 length_Suc_conv)

definition ok_key :: "string \<Rightarrow> bool" where
  "ok_key key \<longleftrightarrow> (let ws = drop 2 (split_on (CHR ''/'') key) in length ws \<le> 2 \<longrightarrow> [] \<notin> set ws)"

lemma ok_name_of_key:
  assumes "ok_key key" and "ws = drop 2 (split_on (CHR ''/'') key)" and "ws \<noteq> []" and "length ws \<le> 2"
  shows "ok_name (join_with ''/'' ws)"
proof -
  have "\<forall>w\<in>set ws. CHR ''/'' \<notin> set w"
    using assms(2) split_on_pieces [of _ "CHR ''/''" key] in_set_dropD by fast
  then have "split_on (CHR ''/'') (join_with ''/'' ws) = ws" using split_on_join [OF assms(3)] by blast
  then show ?thesis using assms(1,2,4) by (simp add: ok_name_def ok_key_def Let_def)
qed

lemma service_invD:
  assumes "service_inv s"
  shows "table_ok (srServices s)" and "indexed (srServices s) (srPrefixIndex s)"
    and "view (srNotes s) = (if srIsNotify s then dom (srServices s) else {})"
  using assms by (simp_all add: service_inv_def)

lemma onServiceAdd_eq:
  "onServiceAdd v s = Return s' \<Longrightarrow> s' = (if srIsNotify s then s\<lparr>srNotes := srNotes s @ [ServiceAdded v]\<rparr> else s)"
  by (auto simp: onServiceAdd_def split: if_splits option.splits)

lemma onServiceDelete_eq:
  "onServiceDelete v s = Return s' \<Longrightarrow> s' = s\<lparr>srNotes := srNotes s @ [ServiceDeleted v]\<rparr>"
  by (auto simp: onServiceDelete_def split: option.splits)

lemma onServiceAdd_inv:
  assumes "onServiceAdd v s = Return s'" and "table_ok (srServices s)"
    and "indexed (srServices s) (srPrefixIndex s)"
    and "view (srNotes s) = (if srIsNotify s then D else {})"
    and "dom (srServices s) = insert (svFullName v) D"
  shows "service_inv s'"
  using assms(2-) by (simp add: onServiceAdd_eq [OF assms(1)] service_inv_def view_step_def)

lemma onServiceDelete_inv:
  assumes "onServiceDelete v s = Return s'" and "table_ok (srServices s)"
    and "indexed (srServices s) (srPrefixIndex s)"
    and "view (srNotes s) = (if srIsNotify s then D else {})"
    and "dom (srServices s) = D - {svFullName v}"
  shows "service_inv s'"
  using assms(2-) by (simp add: onServiceDelete_eq [OF assms(1)] service_inv_def view_step_def)

lemma service_inv_self: "service_inv (s\<lparr>srSelfServices := x\<rparr>) = service_inv s"
  by (simp add: service_inv_def)

lemma service_onKvAdd_inv:
  assumes inv: "service_inv s" and "ok_key key"
    and add: "service_onKvAdd getPeer selfPeer key v s = Return s'"
  shows "service_inv s'"
proof -
  let ?ws = "drop 2 (split_on (CHR ''/'') key)"
  let ?n = "join_with ''/'' ?ws"
  have len: "length ?ws = 2 \<or> length ?ws = 1"
    using add by (auto simp: service_onKvAdd_def Let_def split: if_splits)
  then have ok: "ok_name ?n" using ok_name_of_key [OF assms(2)] by force
  show ?thesis
  proof (cases "srServices s ?n")
    case (Some x)
    then show ?thesis
      using add inv len join_two [of ?ws]
      by (auto simp: service_onKvAdd_def Let_def simp del: length_drop split: if_splits)
  next
    case None
    obtain type p where "onServiceAdd \<lparr>svPeer = Some p, svFullName = ?n, svTypeName = type,
        svIsSelf = (selfPeer = Some p), svCreateRevision = 0\<rparr>
      (s\<lparr>srServices := (srServices s)(?n \<mapsto> \<lparr>svPeer = Some p, svFullName = ?n, svTypeName = type,
             svIsSelf = (selfPeer = Some p), svCreateRevision = 0\<rparr>),
         srPrefixIndex := fst (trie_add ?n (srPrefixIndex s)),
         srSelfServices := (if selfPeer = Some p
            then (srSelfServices s)(?n \<mapsto> \<lparr>svPeer = Some p, svFullName = ?n, svTypeName = type,
             svIsSelf = (selfPeer = Some p), svCreateRevision = 0\<rparr>) else srSelfServices s)\<rparr>) = Return s'"
      using add len None join_two [of ?ws]
      by (auto simp: service_onKvAdd_def Let_def simp del: length_drop split: if_splits option.splits)
    then show ?thesis
      by (rule onServiceAdd_inv)
        (use service_invD [OF inv] ok in \<open>auto simp: indexed_add table_ok_def\<close>)
  qed
qed

lemma service_onKvDelete_inv:
  assumes inv: "service_inv s" and "ok_key key" and del: "service_onKvDelete key s = Return s'"
  shows "service_inv s'"
proof -
  let ?ws = "drop 2 (split_on (CHR ''/'') key)"
  let ?n = "join_with ''/'' ?ws"
  have none: "srServices s [] = None"
    using service_invD(1) [OF inv, unfolded table_ok_def, rule_format, of "[]"]
    by (cases "srServices s []") (auto simp: ok_name_def)
  show ?thesis
  proof (cases "(length ?ws = 2 \<or> length ?ws = 1) \<and> srServices s ?n \<noteq> None")
    case False
    then have "s' = s"
      using del none join_two [of ?ws]
      by (auto simp: service_onKvDelete_def Let_def simp del: length_drop split: if_splits option.splits)
    then show ?thesis using inv by simp
  next
    case True
    then obtain v where v: "srServices s ?n = Some v" and len: "length ?ws = 2 \<or> length ?ws = 1" by blast
    let ?s = "s\<lparr>srServices := (srServices s)(?n := None),
                srPrefixIndex := fst (trie_delete ?n (srPrefixIndex s))\<rparr>"
    obtain s1 where s1: "onServiceDelete v ?s = Return s1" and s': "service_inv s' = service_inv s1"
      using del v len join_two [of ?ws]
      by (auto simp: service_onKvDelete_def Let_def service_inv_self simp del: length_drop
               elim!: bind_outcome.elims split: if_splits)
    note D = service_invD [OF inv]
    have "svFullName v = ?n" using D(1) v by (auto simp: table_ok_def)
    then have "service_inv s1"
      using D v by (intro onServiceDelete_inv [OF s1, of "dom (srServices s)"])
        (auto simp: indexed_delete domI table_ok_def)
    then show ?thesis using s' by simp
  qed
qed

lemma notify_services_inv:
  assumes "notify_services order s = Return s'" and "srIsNotify s"
    and "view (srNotes s) \<union> (set order \<inter> dom (srServices s)) = dom (srServices s)"
    and "table_ok (srServices s)" and "indexed (srServices s) (srPrefixIndex s)"
  shows "service_inv s'"
  using assms
proof (induction order s rule: notify_services.induct)
  case (2 n ns s)
  show ?case
  proof (cases "srServices s n")
    case None
    then have "set (n # ns) \<inter> dom (srServices s) = set ns \<inter> dom (srServices s)" by auto
    then show ?thesis using 2 None by simp
  next
    case (Some v)
    then obtain s1 where s1: "onServiceAdd v s = Return s1" and rest: "notify_services ns s1 = Return s'"
      using 2(3) by (auto elim!: bind_outcome.elims)
    have n: "svFullName v = n" using 2(6) Some by (auto simp: table_ok_def)
    show ?thesis
    proof (rule 2(2) [OF Some rest])
      show "srIsNotify s1" "table_ok (srServices s1)" "indexed (srServices s1) (srPrefixIndex s1)"
        using 2 by (simp_all add: onServiceAdd_eq [OF s1])
      show "view (srNotes s1) \<union> (set ns \<inter> dom (srServices s1)) = dom (srServices s1)"
        using 2(4,5) Some n by (auto simp: onServiceAdd_eq [OF s1] view_step_def)
    qed
  qed
qed (simp add: service_inv_def)

lemma indexed_dom: "dom T = dom T' \<Longrightarrow> indexed T t = indexed T' t"
  by (simp add: indexed_def)

text \<open>The service a registration enters, and the table after it.\<close>

definition own_service :: "(string \<Rightarrow> 'p option) \<Rightarrow> app \<Rightarrow> string \<Rightarrow> int \<Rightarrow> 'p service" where
  "own_service getPeer a n r =
     \<lparr>svPeer = getPeer (aFullName a), svFullName = n,
      svTypeName = (let words = split_on (CHR ''/'') n in if length words = 2 then words ! 0 else []),
      svIsSelf = True, svCreateRevision = r\<rparr>"

definition enter_service :: "'p service \<Rightarrow> 'p service_registry \<Rightarrow> 'p service_registry" where
  "enter_service v s =
     s\<lparr>srServices := (case srServices s (svFullName v) of
                        None \<Rightarrow> (srServices s)(svFullName v \<mapsto> v) | Some _ \<Rightarrow> srServices s),
       srPrefixIndex := fst (trie_add (svFullName v) (srPrefixIndex s)),
       srSelfServices := (srSelfServices s)(svFullName v \<mapsto> v)\<rparr>"

lemma RegisterService_commit:
  assumes "length (split_on (CHR ''/'') (NewServiceName a n opt)) \<in> {1, 2}"
    and "commit e (register_txn a (NewServiceName a n opt)) = (e', Some (True, rs))"
    and "rs ! 1 = RespPut r"
  shows "RegisterService commit getPeer a n opt (e, s) =
    bind_outcome (onServiceAdd (own_service getPeer a (NewServiceName a n opt) r)
        (enter_service (own_service getPeer a (NewServiceName a n opt) r) s))
      (\<lambda>s2. Return ((e', s2), (None, None)))"
  using assms
  by (cases "srServices s (NewServiceName a n opt)")
    (auto simp: RegisterService_def Let_def own_service_def enter_service_def)

lemma RegisterService_fails:
  assumes "RegisterService commit getPeer a n opt (e, s) = Return ((e', s'), res)"
    and "\<And>e1 rs. length (split_on (CHR ''/'') (NewServiceName a n opt)) \<in> {1, 2} \<Longrightarrow>
           commit e (register_txn a (NewServiceName a n opt)) \<noteq> (e1, Some (True, rs))"
  shows "s' = s"
proof -
  let ?n = "NewServiceName a n opt"
  obtain e1 x where c: "commit e (register_txn a ?n) = (e1, x)" by (cases "commit e (register_txn a ?n)")
  show ?thesis
  proof (cases "length (split_on (CHR ''/'') ?n) \<in> {1, 2} \<and> x \<noteq> None")
    case False
    then show ?thesis using assms(1) c
      by (cases x) (auto simp: RegisterService_def Let_def split: if_splits)
  next
    case True
    then obtain rs where "x = Some (False, rs)" using assms(2) c by (cases x) auto
    then show ?thesis using True assms(1) c
      by (auto simp: RegisterService_def Let_def split: if_splits list.splits response.splits)
  qed
qed

lemma RegisterService_inv:
  assumes inv: "service_inv s" and ok: "ok_name (NewServiceName a n opt)"
    and reg: "RegisterService commit getPeer a n opt (e, s) = Return ((e', s'), res)"
    and etcd: "etcd_ok get rv commit"
  shows "service_inv s'"
proof (cases "s' = s")
  case False
  let ?n = "NewServiceName a n opt"
  obtain e1 rs where len: "length (split_on (CHR ''/'') ?n) \<in> {1, 2}"
    and c: "commit e (register_txn a ?n) = (e1, Some (True, rs))"
    using False RegisterService_fails [OF reg] by blast
  have r: "rs ! 1 = RespPut (rv e + 1)"
    using etcd_commit [OF etcd c] by (auto simp: branch_def register_txn_def)
  let ?v = "own_service getPeer a ?n (rv e + 1)"
  have s1: "onServiceAdd ?v (enter_service ?v s) = Return s'"
    using reg by (auto simp: RegisterService_commit [where commit = commit and e = e and a = a and n = n and opt = opt, OF len c r] elim!: bind_outcome.elims)
  have n: "svFullName ?v = ?n" by (simp add: own_service_def)
  let ?T = "srServices (enter_service ?v s)"
  note D = service_invD [OF inv]
  have tab: "table_ok ?T" using D(1) ok n by (auto simp: enter_service_def table_ok_def split: option.splits)
  have dom: "dom ?T = insert ?n (dom (srServices s))"
    by (auto simp: enter_service_def n split: option.splits)
  have "indexed ?T (fst (trie_add ?n (srPrefixIndex s)))"
    using indexed_add [OF D(2,1) ok, of ?v] indexed_dom [of ?T "(srServices s)(?n \<mapsto> ?v)"] dom by simp
  then show ?thesis
    using D(3) n dom tab
    by (intro onServiceAdd_inv [OF s1, of "dom (srServices s)"]) (simp_all add: enter_service_def)
qed (simp add: inv)

section \<open>Histories\<close>

text \<open>
  What a node's registry goes through: the events of its watch, its own calls, and the
  \<open>notify\<close> that follows the start of the watch. Each step comes with the peer table of its moment.
  Errors of the events are logged.
\<close>

datatype service_op =
    SvPut string string | SvDelete string | SvRegister string "register_option list"
  | SvUnregister string | SvNotify "string list"

type_synonym 'p peers = "(string \<Rightarrow> 'p option) \<times> 'p option"

definition logged :: "'a \<Rightarrow> (service_error, 'a) outcome \<Rightarrow> (service_error, 'a) outcome" where
  "logged s r = (case r of Error _ \<Rightarrow> Return s | _ \<Rightarrow> r)"

definition service_step ::
  "'e commit \<Rightarrow> app \<Rightarrow> 'p peers \<times> service_op \<Rightarrow> 'e \<times> 'p service_registry \<Rightarrow>
     (service_error, 'e \<times> 'p service_registry) outcome" where
  "service_step commit a po es =
     (let ((getPeer, selfPeer), opn) = po; (e, s) = es in
      case opn of
        SvPut k v \<Rightarrow> bind_outcome (logged s (service_onKvAdd getPeer selfPeer k v s)) (\<lambda>s'. Return (e, s'))
      | SvDelete k \<Rightarrow> bind_outcome (logged s (service_onKvDelete k s)) (\<lambda>s'. Return (e, s'))
      | SvRegister n opt \<Rightarrow>
          bind_outcome (RegisterService commit getPeer a n opt (e, s)) (\<lambda>r. Return (fst r))
      | SvUnregister n \<Rightarrow> bind_outcome (UnregisterService commit getPeer a n e) (\<lambda>r. Return (fst r, s))
      | SvNotify order \<Rightarrow>
          (if set order = dom (srServices s)
           then bind_outcome (notify_services order (s\<lparr>srIsNotify := True\<rparr>)) (\<lambda>s'. Return (e, s'))
           else Return (e, s)))"

fun service_run ::
  "'e commit \<Rightarrow> app \<Rightarrow> ('p peers \<times> service_op) list \<Rightarrow> 'e \<times> 'p service_registry \<Rightarrow>
     (service_error, 'e \<times> 'p service_registry) outcome" where
  "service_run commit a [] es = Return es"
| "service_run commit a (po # pos) es = bind_outcome (service_step commit a po es) (service_run commit a pos)"

text \<open>Names and keys whose words are not empty.\<close>

fun ok_op :: "app \<Rightarrow> service_op \<Rightarrow> bool" where
  "ok_op a (SvPut k v) = ok_key k"
| "ok_op a (SvDelete k) = ok_key k"
| "ok_op a (SvRegister n opt) = ok_name (NewServiceName a n opt)"
| "ok_op a _ = True"

lemma service_step_inv:
  assumes "etcd_ok get rv commit" and "service_inv s" and "ok_op a opn"
    and step: "service_step commit a ((getPeer, selfPeer), opn) (e, s) = Return (e', s')"
  shows "service_inv s'"
proof (cases opn)
  case (SvPut k v)
  then have "s' = s \<or> service_onKvAdd getPeer selfPeer k v s = Return s'"
    using step by (auto simp: service_step_def logged_def elim!: bind_outcome.elims split: outcome.splits)
  then show ?thesis using service_onKvAdd_inv [OF assms(2), of k] assms(2,3) SvPut by auto
next
  case (SvDelete k)
  then have "s' = s \<or> service_onKvDelete k s = Return s'"
    using step by (auto simp: service_step_def logged_def elim!: bind_outcome.elims split: outcome.splits)
  then show ?thesis using service_onKvDelete_inv [OF assms(2), of k] assms(2,3) SvDelete by auto
next
  case (SvRegister n opt)
  then obtain res where "RegisterService commit getPeer a n opt (e, s) = Return ((e', s'), res)"
    using step by (auto simp: service_step_def elim!: bind_outcome.elims)
  then show ?thesis using RegisterService_inv [OF assms(2) _ _ assms(1)] assms(3) SvRegister by auto
next
  case (SvUnregister n)
  then show ?thesis using step assms(2) by (auto simp: service_step_def elim!: bind_outcome.elims)
next
  case (SvNotify order)
  show ?thesis
  proof (cases "set order = dom (srServices s)")
    case True
    then have "notify_services order (s\<lparr>srIsNotify := True\<rparr>) = Return s'"
      using step SvNotify by (auto simp: service_step_def elim!: bind_outcome.elims)
    then show ?thesis
      using True service_invD [OF assms(2)] by (elim notify_services_inv) (auto split: if_splits)
  qed (use step SvNotify assms(2) in \<open>simp add: service_step_def\<close>)
qed

lemma service_run_inv:
  assumes "etcd_ok get rv commit" and "service_run commit a pos (e, s) = Return (e', s')"
    and "service_inv s" and "\<forall>po\<in>set pos. ok_op a (snd po)"
  shows "service_inv s'"
  using assms(2-)
proof (induction pos arbitrary: e s)
  case (Cons po pos)
  obtain getPeer selfPeer opn where po: "po = ((getPeer, selfPeer), opn)" by (cases po; cases "fst po") auto
  obtain e1 s1 where st: "service_step commit a ((getPeer, selfPeer), opn) (e, s) = Return (e1, s1)"
    and rest: "service_run commit a pos (e1, s1) = Return (e', s')"
    using Cons(2) po by (auto elim!: bind_outcome.elims)
  have "service_inv s1" using service_step_inv [OF assms(1) Cons(3) _ st] Cons(4) po by simp
  then show ?case using Cons(1) [OF rest] Cons(4) by simp
qed simp

section \<open>Lookups\<close>

lemma where_loop_eq:
  "where_loop T k ns = (if 0 < k then take (nat k) else id) (map svPeer (List.map_filter T ns))"
  by (induction T k ns rule: where_loop.induct)
     (auto simp: map_filter_simps nat_diff_distrib take_Cons' split: option.splits)

lemma set_map_filter: "set (List.map_filter f xs) = {y. \<exists>x\<in>set xs. f x = Some y}"
  by (force simp: List.map_filter_def)

lemma set_search_indexed:
  assumes "service_inv s" and "ok_name q"
  shows "set (trie_search q (srPrefixIndex s)) =
    {n \<in> dom (srServices s). \<exists>w ws. split_on (CHR ''/'') n = split_on (CHR ''/'') q @ w # ws}"
proof -
  note D = service_invD [OF assms(1)]
  obtain w ws where w: "words_of q = w # ws" "[] \<notin> set ws" "split_on (CHR ''/'') q = w # ws"
    using ok_words [OF assms(2)] by metis
  have "w \<noteq> []" using assms(2) w(3) by (auto simp: ok_name_def)
  moreover have "strip_last ws = ws" using w(2) by (cases ws rule: rev_cases) (auto simp: strip_last_def)
  moreover have "[] \<notin> set (butlast ws)" using w(2) by (meson in_set_butlastD)
  ultimately have "set (trie_search q (srPrefixIndex s)) = below (trie_get (srPrefixIndex s)) (w # ws)"
    using set_trie_search [of "srPrefixIndex s" q] D(2) w(1) by (simp add: indexed_def)
  also have "\<dots> = {n \<in> dom (srServices s). \<exists>v vs. words_of n = (w # ws) @ v # vs}"
    using D(2) by (auto simp: below_def indexed_def)
  also have "\<dots> = {n \<in> dom (srServices s). \<exists>v vs. split_on (CHR ''/'') n = split_on (CHR ''/'') q @ v # vs}"
    using D(1) words_of_ok w(3) by (auto simp: table_ok_def)
  finally show ?thesis .
qed

section \<open>Registrations\<close>

lemma service_keys_differ [simp]:
  "serviceKey n \<noteq> peerServiceKey a m" "peerServiceKey a m \<noteq> serviceKey n"
  by (simp_all add: serviceKey_def peerServiceKey_def servicePrefix_def peerServicePrefix_def)

definition unregistered :: "app \<Rightarrow> string \<Rightarrow> kvs \<Rightarrow> kvs" where
  "unregistered a n m = m(serviceKey n := None, peerServiceKey a n := None)"

lemma register_commit:
  assumes etcd: "etcd_ok get rv commit" and c: "commit e (register_txn a n) = (e', Some (ok, rs))"
  shows "ok \<longleftrightarrow> get e (serviceKey n) = None"
    and "ok \<Longrightarrow> get e' = (get e)(serviceKey n \<mapsto> \<lparr>kvValue = aFullName a, kvCreate = rv e + 1\<rparr>,
            peerServiceKey a n \<mapsto> \<lparr>kvValue = aFullName a, kvCreate = (case get e (peerServiceKey a n) of
               None \<Rightarrow> rv e + 1 | Some o_kv \<Rightarrow> kvCreate o_kv)\<rparr>) \<and> rs ! 1 = RespPut (rv e + 1)"
    and "\<not> ok \<Longrightarrow> get e' = get e \<and> rs = [RespGet (found (get e) (serviceKey n))]"
proof -
  note F = etcd_commit [OF etcd c]
  have ok: "ok = (create_revision (get e) (serviceKey n) = 0)" using F(1) by (simp add: register_txn_def)
  then show ok_none: "ok \<longleftrightarrow> get e (serviceKey n) = None" using etcd_absent_iff [OF etcd] by blast
  show "ok \<Longrightarrow> get e' = (get e)(serviceKey n \<mapsto> \<lparr>kvValue = aFullName a, kvCreate = rv e + 1\<rparr>,
            peerServiceKey a n \<mapsto> \<lparr>kvValue = aFullName a, kvCreate = (case get e (peerServiceKey a n) of
               None \<Rightarrow> rv e + 1 | Some o_kv \<Rightarrow> kvCreate o_kv)\<rparr>) \<and> rs ! 1 = RespPut (rv e + 1)"
    using F(4) ok ok_none by (auto simp: branch_def register_txn_def)
  show "\<not> ok \<Longrightarrow> get e' = get e \<and> rs = [RespGet (found (get e) (serviceKey n))]"
    using F(4) ok by (auto simp: branch_def register_txn_def)
qed

lemma unregister_own_commit:
  assumes etcd: "etcd_ok get rv commit" and c: "commit e (unregister_own_txn a n) = (e', Some (ok, rs))"
  shows "ok \<longleftrightarrow> (\<exists>v. get e (serviceKey n) = Some v \<and> kvValue v = aFullName a)"
    and "ok \<Longrightarrow> get e' = unregistered a n (get e)"
    and "\<not> ok \<Longrightarrow> get e' = get e \<and> rs = [RespGet (found (get e) (serviceKey n))]"
proof -
  note F = etcd_commit [OF etcd c]
  show ok: "ok \<longleftrightarrow> (\<exists>v. get e (serviceKey n) = Some v \<and> kvValue v = aFullName a)"
    using F(1) etcd_absent_iff [OF etcd, of e "serviceKey n"] by (auto simp: unregister_own_txn_def)
  show "ok \<Longrightarrow> get e' = unregistered a n (get e)"
    using F(4) F(1) by (auto simp: branch_def unregister_own_txn_def unregistered_def fun_upd_twist)
  show "\<not> ok \<Longrightarrow> get e' = get e \<and> rs = [RespGet (found (get e) (serviceKey n))]"
    using F(4) F(1) by (auto simp: branch_def unregister_own_txn_def)
qed

lemma unregister_service_commit:
  assumes etcd: "etcd_ok get rv commit" and c: "commit e (unregister_service_txn a n r) = (e', Some (ok, rs))"
    and "create_revision (get e) (serviceKey n) = r"
  shows "get e' = unregistered a n (get e)"
proof -
  note F = etcd_commit [OF etcd c]
  show ?thesis
    using F(4) F(1) assms(3) by (auto simp: branch_def unregister_service_txn_def unregistered_def)
qed

text \<open>The outcome of each call by the value of the service's key.\<close>

lemma RegisterService_taken:
  assumes "etcd_ok get rv commit" and "answers commit" and "n = NewServiceName b m opt"
    and "length (split_on (CHR ''/'') n) \<in> {1, 2}" and "get e (serviceKey n) = Some v"
  shows "\<exists>e'. RegisterService commit getPeer b m opt (e, s) =
    Return ((e', s), (getPeer (kvValue v), Some ErrServiceLocked)) \<and> get e' = get e"
proof -
  obtain e' ok rs where c: "commit e (register_txn b n) = (e', Some (ok, rs))"
    using answered [OF assms(2)] by blast
  note R = register_commit [OF assms(1) c]
  have "\<not> ok" using R(1) assms(5) by simp
  with R(3) [OF this] show ?thesis
    using c assms(3-5) by (auto simp: RegisterService_def Let_def found_def)
qed

lemma UnregisterService_own:
  assumes "etcd_ok get rv commit" and "answers commit"
    and "get e (serviceKey n) = Some v" and "kvValue v = aFullName a"
  shows "\<exists>e'. UnregisterService commit getPeer a n e = Return (e', (None, None))
    \<and> get e' = unregistered a n (get e)"
proof -
  obtain e' ok rs where c: "commit e (unregister_own_txn a n) = (e', Some (ok, rs))"
    using answered [OF assms(2)] by blast
  note U = unregister_own_commit [OF assms(1) c]
  have ok using U(1) assms(3,4) by simp
  with U(2) [OF this] show ?thesis using c by (simp add: UnregisterService_def)
qed

lemma UnregisterService_other:
  assumes "etcd_ok get rv commit" and "answers commit"
    and "get e (serviceKey n) = Some v" and "kvValue v \<noteq> aFullName a"
  shows "\<exists>e'. UnregisterService commit getPeer a n e =
    Return (e', (getPeer (kvValue v), Some ErrServiceLocked)) \<and> get e' = get e"
proof -
  obtain e' ok rs where c: "commit e (unregister_own_txn a n) = (e', Some (ok, rs))"
    using answered [OF assms(2)] by blast
  note U = unregister_own_commit [OF assms(1) c]
  have "\<not> ok" using U(1) assms(3,4) by simp
  with U(3) [OF this] show ?thesis using c assms(3) by (simp add: UnregisterService_def found_def)
qed

lemma unregisterServices_own:
  assumes "etcd_ok get rv commit" and "answers commit"
    and "create_revision (get e) (serviceKey n) = svCreateRevision v"
  shows "get (unregisterServices commit a [(n, v)] e) = unregistered a n (get e)"
proof -
  obtain e' ok rs where c: "commit e (unregister_service_txn a n (svCreateRevision v)) = (e', Some (ok, rs))"
    using answered [OF assms(2)] by blast
  show ?thesis using unregister_service_commit [OF assms(1) c assms(3)] c by simp
qed

text \<open>Lookups and notifications after a history, one fact each.\<close>

lemma service_table_indexed_facts:
  assumes "etcd_ok get rv commit" and "\<forall>po\<in>set pos. ok_op a (snd po)"
    and "service_run commit a pos (e0, newConfigServiceRegistry) = Return (e, s)"
    and "ok_name q" and "woCatalog (where_options opt) \<or> woPrefix (where_options opt)"
    and "\<And>xs. mset (order xs) = mset xs"
  shows "woMaxCount (where_options opt) \<le> 0 \<Longrightarrow> set (WhereIsService order s q opt) =
      {svPeer v | v n w ws. srServices s n = Some v
         \<and> split_on (CHR ''/'') n = split_on (CHR ''/'') q @ w # ws}"
    and "0 < woMaxCount (where_options opt) \<Longrightarrow> WhereIsService order s q opt =
      take (nat (woMaxCount (where_options opt))) (WhereIsService order s q [WhereCatalogOption])"
    and "srIsNotify s \<Longrightarrow> view (srNotes s) = dom (srServices s)"
proof -
  have inv: "service_inv s" using service_run_inv [OF assms(1,3) service_inv_new assms(2)] .
  have "set (order xs) = set xs" for xs using assms(6) by (metis set_mset_mset)
  then have found: "set (order (trie_search q (srPrefixIndex s))) =
      {n \<in> dom (srServices s). \<exists>w ws. split_on (CHR ''/'') n = split_on (CHR ''/'') q @ w # ws}"
    using set_search_indexed [OF inv assms(4)] by simp
  show "woMaxCount (where_options opt) \<le> 0 \<Longrightarrow> set (WhereIsService order s q opt) =
      {svPeer v | v n w ws. srServices s n = Some v
         \<and> split_on (CHR ''/'') n = split_on (CHR ''/'') q @ w # ws}"
    using assms(5) found by (force simp: WhereIsService_def Let_def where_loop_eq set_map_filter)
  show "0 < woMaxCount (where_options opt) \<Longrightarrow> WhereIsService order s q opt =
      take (nat (woMaxCount (where_options opt))) (WhereIsService order s q [WhereCatalogOption])"
    using assms(5)
    by (simp add: WhereIsService_def Let_def where_loop_eq) (simp add: where_options_def)
  show "srIsNotify s \<Longrightarrow> view (srNotes s) = dom (srServices s)" using service_invD(3) [OF inv] by simp
qed



text \<open>What a registration and the calls after it do, one fact each.\<close>

lemma service_registration_facts:
  assumes "etcd_ok get rv commit" and "answers commit"
    and "get e (serviceKey (NewServiceName a m opt)) = None"
    and "length (split_on (CHR ''/'') (NewServiceName a m opt)) \<in> {1, 2}"
    and "RegisterService commit getPeer a m opt (e, s) = Return ((e1, s1), res)"
    and "n = NewServiceName a m opt"
  shows "res = (None, None) \<and> n \<in> dom (srServices s1)"
    and "NewServiceName b m' opt' = n \<Longrightarrow>
           \<exists>e2. RegisterService commit getPeer' b m' opt' (e1, sb) =
             Return ((e2, sb), (getPeer' (aFullName a), Some ErrServiceLocked)) \<and> get e2 = get e1"
    and "aFullName b \<noteq> aFullName a \<Longrightarrow>
           \<exists>e2. UnregisterService commit getPeer' b n e1 =
             Return (e2, (getPeer' (aFullName a), Some ErrServiceLocked)) \<and> get e2 = get e1"
    and "\<exists>e3. UnregisterService commit getPeer' a n e1 = Return (e3, (None, None))
           \<and> get e3 = unregistered a n (get e)"
    and "\<exists>v. srSelfServices s1 n = Some v
           \<and> get (unregisterServices commit a [(n, v)] e1) = unregistered a n (get e)"
proof -
  obtain e' ok rs where c: "commit e (register_txn a n) = (e', Some (ok, rs))"
    using answered [OF assms(2)] by blast
  note R = register_commit [OF assms(1) c]
  have ok: ok using R(1) assms(3,6) by blast
  have len: "length (split_on (CHR ''/'') (NewServiceName a m opt)) \<in> {1, 2}" by (rule assms(4))
  have c': "commit e (register_txn a (NewServiceName a m opt)) = (e', Some (True, rs))"
    using c ok assms(6) by simp
  let ?v = "own_service getPeer a n (rv e + 1)"
  have "bind_outcome (onServiceAdd ?v (enter_service ?v s)) (\<lambda>s2. Return ((e', s2), (None, None))) =
      Return ((e1, s1), res)"
    using RegisterService_commit [where commit = commit and e = e, OF len c' conjunct2 [OF R(2) [OF ok]],
        of getPeer s] assms(5,6) by simp
  then have s1: "onServiceAdd ?v (enter_service ?v s) = Return s1" and e1: "e1 = e'" and res: "res = (None, None)"
    by (auto elim!: bind_outcome.elims)
  have vn: "svFullName ?v = n" and vr: "svCreateRevision ?v = rv e + 1" by (simp_all add: own_service_def)
  have here: "n \<in> dom (srServices s1)" "srSelfServices s1 n = Some ?v"
    by (auto simp: onServiceAdd_eq [OF s1] enter_service_def vn split: option.splits)
  then show "res = (None, None) \<and> n \<in> dom (srServices s1)" using res by simp
  have g: "get e1 (serviceKey n) = Some \<lparr>kvValue = aFullName a, kvCreate = rv e + 1\<rparr>"
    and undo: "unregistered a n (get e1) = unregistered a n (get e)"
    using R(2) [OF ok] e1 by (simp_all add: unregistered_def fun_upd_twist)
  show "\<exists>e2. RegisterService commit getPeer' b m' opt' (e1, sb) =
      Return ((e2, sb), (getPeer' (aFullName a), Some ErrServiceLocked)) \<and> get e2 = get e1"
    if "NewServiceName b m' opt' = n"
    using RegisterService_taken [OF assms(1,2) that [symmetric] _ g] len assms(6) by simp
  show "\<exists>e2. UnregisterService commit getPeer' b n e1 =
      Return (e2, (getPeer' (aFullName a), Some ErrServiceLocked)) \<and> get e2 = get e1"
    if "aFullName b \<noteq> aFullName a"
    using UnregisterService_other [OF assms(1,2) g, of b] that by simp
  show "\<exists>e3. UnregisterService commit getPeer' a n e1 = Return (e3, (None, None))
      \<and> get e3 = unregistered a n (get e)"
    using UnregisterService_own [OF assms(1,2) g, of a] undo by simp
  have "create_revision (get e1) (serviceKey n) = svCreateRevision ?v"
    by (simp add: create_revision_def g vr)
  then show "\<exists>v. srSelfServices s1 n = Some v
      \<and> get (unregisterServices commit a [(n, v)] e1) = unregistered a n (get e)"
    using here(2) unregisterServices_own [OF assms(1,2)] undo by metis
qed

text \<open>
  C37. Registering a service whose key is free succeeds; every other registration of the name is
  then refused with \<open>ErrServiceLocked\<close> and the peer that holds it, and so is \<open>UnregisterService\<close>
  by another node; \<open>UnregisterService\<close> by the node itself, and \<open>unregisterServices\<close> when it stops,
  remove both keys again.
\<close>

theorem service_registration:
  assumes "etcd_ok get rv commit" and "answers commit"
    and "get e (serviceKey (NewServiceName a m opt)) = None"
    and "length (split_on (CHR ''/'') (NewServiceName a m opt)) \<in> {1, 2}"
    and "RegisterService commit getPeer a m opt (e, s) = Return ((e1, s1), res)"
    and "n = NewServiceName a m opt"
  shows "(res = (None, None) \<and> n \<in> dom (srServices s1))
    \<and> (\<exists>e3. UnregisterService commit getPeer' a n e1 = Return (e3, (None, None))
           \<and> get e3 = unregistered a n (get e))
    \<and> (\<exists>v. srSelfServices s1 n = Some v
           \<and> get (unregisterServices commit a [(n, v)] e1) = unregistered a n (get e))
    \<and> (\<forall>b m' opt' sb. NewServiceName b m' opt' = n \<longrightarrow>
           (\<exists>e2. RegisterService commit getPeer' b m' opt' (e1, sb) =
             Return ((e2, sb), (getPeer' (aFullName a), Some ErrServiceLocked)) \<and> get e2 = get e1))
    \<and> (\<forall>b. aFullName b \<noteq> aFullName a \<longrightarrow>
           (\<exists>e2. UnregisterService commit getPeer' b n e1 =
             Return (e2, (getPeer' (aFullName a), Some ErrServiceLocked)) \<and> get e2 = get e1))"
proof -
  note F = service_registration_facts [OF assms]
  show ?thesis by (rule conjI [OF F(1) conjI [OF F(4) conjI [OF F(5)]]]) (use F(2,3) in blast)
qed

theorem service_registration_witness:
  "\<exists>e1 s1 e3. RegisterService mem_commit (\<lambda>n. None :: nat option) (demo_apps 0) ''hall'' [AsAppServiceOption]
       (mem_empty, newConfigServiceRegistry) = Return ((e1, s1), (None, None))
     \<and> ''hall/0'' \<in> dom (srServices s1)
     \<and> UnregisterService mem_commit (\<lambda>n. None :: nat option) (demo_apps 0) ''hall/0'' e1 = Return (e3, (None, None))
     \<and> mem_get e3 = Map.empty"
proof -
  let ?n = "NewServiceName (demo_apps 0) ''hall'' [AsAppServiceOption]"
  have n: "?n = ''hall/0''" by code_simp
  have free: "mem_get mem_empty (serviceKey ?n) = None" by simp
  have len: "length (split_on (CHR ''/'') ?n) \<in> {1, 2}" unfolding n by code_simp
  obtain e1 ok rs where c: "mem_commit mem_empty (register_txn (demo_apps 0) ?n) = (e1, Some (ok, rs))"
    using mem_commits by blast
  note R = register_commit [OF mem_etcd c]
  have ok: "ok" using R(1) by simp
  obtain s1 where reg: "RegisterService mem_commit (\<lambda>n. None :: nat option) (demo_apps 0) ''hall'' [AsAppServiceOption]
       (mem_empty, newConfigServiceRegistry) = Return ((e1, s1), (None, None))"
    using RegisterService_commit [where commit = mem_commit and e = mem_empty and getPeer = "\<lambda>n. None"
        and s = newConfigServiceRegistry and a = "demo_apps 0" and n = "''hall''" and opt = "[AsAppServiceOption]",
        OF len c [unfolded eqTrueI [OF ok]] conjunct2 [OF R(2) [OF ok]]]
    by (simp add: onServiceAdd_def enter_service_def newConfigServiceRegistry_def)
  note T = service_registration [OF mem_etcd mem_answers free len reg n [symmetric]]
  obtain e3 where "UnregisterService mem_commit (\<lambda>n. None :: nat option) (demo_apps 0) ''hall/0'' e1 = Return (e3, (None, None))"
    and "mem_get e3 = Map.empty"
    using T [where getPeer' = "\<lambda>n. None", THEN conjunct2, THEN conjunct1] by (auto simp: unregistered_def)
  then show ?thesis using reg T by blast
qed

text \<open>
  \<open>UnregisterService\<close> of a service nobody has registered panics, and only then: its log line
  reads \<open>Kvs[0]\<close> of the empty answer the guard above it allows for.
\<close>

lemma UnregisterService_Panic_iff:
  assumes "etcd_ok get rv commit" and "answers commit"
  shows "UnregisterService commit getPeer a n e = Panic \<longleftrightarrow> get e (serviceKey n) = None"
proof -
  obtain e' ok rs where c: "commit e (unregister_own_txn a n) = (e', Some (ok, rs))"
    using answered [OF assms(2)] by blast
  note U = unregister_own_commit [OF assms(1) c]
  show ?thesis
    using U c by (cases ok; cases "get e (serviceKey n)") (auto simp: UnregisterService_def found_def)
qed

lemma UnregisterService_Panic_iff_witness:
  "UnregisterService mem_commit (\<lambda>n. None :: nat option) (demo_apps 0) ''hall'' mem_empty = Panic"
  by (subst UnregisterService_Panic_iff [OF mem_etcd mem_answers]) simp

end
