(* ===== verification/Registry_Peer.thy ===== *)
theory Registry_Peer
  imports Registry_Service "HOL-Library.Word"
begin

text \<open>
  The peer registry, \<open>registry/peer.go\<close>, with the resolver of gRPC addresses it feeds,
  \<open>registry/resolver.go\<close>, and the full names of nodes, \<open>application.go\<close>. A node advertises its
  address and its attributes under keys of its own; every node keeps a table of the peers it has
  seen, fed by the watch. A \<open>*gira.Peer\<close> is named by the full name it is stored under, since an
  entry of the table is never replaced. What is sent to the watch handlers and to the resolver's
  connections is kept as histories.

  The lemmas: the table is what a plain replay of the events gives; the watch panics exactly when
  a known address changes and no resolver was started; and a node removes its keys when it stops
  exactly if it had none when it started.
\<close>

section \<open>Full names\<close>

definition FormatAppFullName :: "string \<Rightarrow> 32 word \<Rightarrow> string \<Rightarrow> string \<Rightarrow> string" where
  "FormatAppFullName appType appId zone env =
     appType @ ''_'' @ zone @ ''_'' @ env @ ''_'' @ fmt_int (sint appId)"

text \<open>The name and the id, or an error; \<open>int32(v)\<close> keeps the low bits.\<close>

definition ParseAppFullName :: "string \<Rightarrow> (string \<times> 32 word) option" where
  "ParseAppFullName fullName =
     (let pats = split_on (CHR ''_'') fullName in
      if length pats \<noteq> 4 then None
      else (case atoi (pats ! 3) of None \<Rightarrow> None | Some v \<Rightarrow> Some (pats ! 0, word_of_int v)))"

lemma Parse_Format:
  assumes "CHR ''_'' \<notin> set appType" and "CHR ''_'' \<notin> set zone" and "CHR ''_'' \<notin> set env"
  shows "ParseAppFullName (FormatAppFullName appType appId zone env) = Some (appType, appId)"
proof -
  have r: "- (2 ^ 63) \<le> sint appId" "sint appId < 2 ^ 63"
    using sint_greater_eq [of appId] sint_lt [of appId] by simp_all
  have "CHR ''_'' \<notin> set (fmt_int (sint appId))"
    using fmt_int_chars [of "CHR ''_''" "sint appId"] by (auto simp: is_digit_def)
  then show ?thesis
    using assms atoi_fmt_int [OF r]
    by (simp add: ParseAppFullName_def FormatAppFullName_def split_on_append_sep split_on_no_sep)
qed

section \<open>State\<close>

definition GRPC_KEY :: string where "GRPC_KEY = ''grpc''"

record peer =
  pName :: string
  pId :: "32 word"
  pFullName :: string
  pAddress :: string
  pUrl :: string
  pMetadata :: "string \<rightharpoonup> string"

text \<open>A resolver has the connection it was built for and the last address; \<open>cc\<close> is that connection.\<close>

record peer_resolver =
  rsCc :: nat
  rsAddress :: string

datatype peer_note = NotePeerAdd string | NotePeerDelete string | NotePeerUpdate string string

record peer_registry =
  rpPeers :: "string \<rightharpoonup> peer"
  rpIsNormalUnregisterSelf :: bool
  rpSelfPeer :: "string option"
  rpCancelled :: bool
  rpWatchStartRevision :: int
  rpSelfRevision :: int
  rpIsNotify :: bool
  rpNotes :: "peer_note list"
  rpResolver :: "(string \<rightharpoonup> peer_resolver) option"
  rpStates :: "(nat \<times> string) list"

datatype peer_error =
  ErrInvalidPeerKey | ErrInvalidFullName | ErrPeerAlreadyRegist | PeerCommitError | PeerGetError
  | PeerLeaseError

text \<open>\<open>EtcdConfig\<close>, and what the lease calls and the iteration over \<open>advertises\<close> give.\<close>

record register_env =
  ecAddress :: string
  ecAdvertise :: "(string \<times> string) list"
  ecLeaseTimeout :: int
  ecLeaseGrant :: "int option"
  ecKeepAlive :: bool
  ecOrder :: "(string \<times> string) list"

definition peerAttrPrefix :: string where "peerAttrPrefix = ''/peer/attribute/''"

definition selfPrefix :: "app \<Rightarrow> string" where
  "selfPrefix a = ''/peer/attribute/'' @ aFullName a @ ''/''"

definition newConfigPeerRegistry :: peer_registry where
  "newConfigPeerRegistry =
     \<lparr>rpPeers = Map.empty, rpIsNormalUnregisterSelf = False, rpSelfPeer = None, rpCancelled = False,
      rpWatchStartRevision = 0, rpSelfRevision = 0, rpIsNotify = False, rpNotes = [],
      rpResolver = None, rpStates = []\<rparr>"

definition getPeer :: "peer_registry \<Rightarrow> string \<Rightarrow> peer option" where
  "getPeer s fullName = rpPeers s fullName"

text \<open>\<open>Registry.WhereIsPeer\<close>: \<open>None\<close> is \<open>ErrPeerNotFound\<close>.\<close>

definition WhereIsPeer :: "peer_registry \<Rightarrow> string \<Rightarrow> peer option" where
  "WhereIsPeer s fullName = getPeer s fullName"

section \<open>The resolver\<close>

definition formatPeerUrl :: "string \<Rightarrow> string" where
  "formatPeerUrl fullName = ''peer'' @ '':///'' @ fullName"

definition StartReslover :: "peer_registry \<Rightarrow> peer_registry" where
  "StartReslover s = s\<lparr>rpResolver := Some Map.empty\<rparr>"

text \<open>\<open>Build\<close> of a target for the connection \<open>cc\<close>: a resolver that exists already keeps its own.\<close>

definition resolver_Build :: "string \<Rightarrow> nat \<Rightarrow> peer_registry \<Rightarrow> peer_registry" where
  "resolver_Build endpoint cc s =
     (case rpResolver s of
        None \<Rightarrow> s
      | Some rs \<Rightarrow>
          (case rs endpoint of
             Some r \<Rightarrow> s\<lparr>rpStates := rpStates s @ [(cc, rsAddress r)]\<rparr>
           | None \<Rightarrow>
               (case getPeer s endpoint of
                  None \<Rightarrow> s\<lparr>rpResolver := Some (rs(endpoint \<mapsto> \<lparr>rsCc = cc, rsAddress = []\<rparr>))\<rparr>
                | Some p \<Rightarrow>
                    s\<lparr>rpResolver := Some (rs(endpoint \<mapsto> \<lparr>rsCc = cc, rsAddress = pAddress p\<rparr>)),
                      rpStates := rpStates s @ [(cc, pAddress p)]\<rparr>)))"

definition resolver_Close :: "string \<Rightarrow> peer_registry \<Rightarrow> peer_registry" where
  "resolver_Close fullName s =
     (case rpResolver s of None \<Rightarrow> s | Some rs \<Rightarrow> s\<lparr>rpResolver := Some (rs(fullName := None))\<rparr>)"

text \<open>\<open>onPeerUpdate\<close> of the builder, which is nil until \<open>StartReslover\<close> and is then dereferenced.\<close>

definition resolver_onPeerUpdate :: "peer \<Rightarrow> peer_registry \<Rightarrow> (peer_error, peer_registry) outcome" where
  "resolver_onPeerUpdate p s =
     (case rpResolver s of
        None \<Rightarrow> Panic
      | Some rs \<Rightarrow>
          (case rs (pFullName p) of
             None \<Rightarrow> Return s
           | Some r \<Rightarrow>
               Return (s\<lparr>rpResolver := Some (rs(pFullName p \<mapsto> r\<lparr>rsAddress := pAddress p\<rparr>)),
                         rpStates := rpStates s @ [(rsCc r, pAddress p)]\<rparr>)))"

section \<open>Registering the node itself\<close>

text \<open>The map of \<open>registerSelf\<close>: an advertised \<open>grpc\<close> replaces the address.\<close>

definition advertises :: "register_env \<Rightarrow> string \<rightharpoonup> string" where
  "advertises c = fold (\<lambda>(n, v) m. m(n \<mapsto> v)) (ecAdvertise c) [GRPC_KEY \<mapsto> ecAddress c]"

definition register_self_txn :: "string \<Rightarrow> string \<Rightarrow> txn" where
  "register_self_txn key v =
     \<lparr>tIf = [ValueNe key v, CreateRevisionNe key 0], tThen = [OpGet key],
      tElse = [OpGet key, OpPut key v]\<rparr>"

fun register_loop ::
  "'e commit \<Rightarrow> app \<Rightarrow> (string \<times> string) list \<Rightarrow> 'e \<times> peer_registry \<Rightarrow>
     (peer_error, ('e \<times> peer_registry) \<times> peer_error option) outcome" where
  "register_loop commit a [] es = Return (es, None)"
| "register_loop commit a ((n, v) # advs) (e, s) =
     (case commit e (register_self_txn (selfPrefix a @ n) v) of
        (e', None) \<Rightarrow> Return ((e', s), Some PeerCommitError)
      | (e', Some (True, rs)) \<Rightarrow>
          (case rs of
             RespGet (lockedBy # _) # _ \<Rightarrow> Return ((e', s), Some ErrPeerAlreadyRegist)
           | _ \<Rightarrow> Panic)
      | (e', Some (False, rs)) \<Rightarrow>
          register_loop commit a advs
            (e', if n = GRPC_KEY
                 then s\<lparr>rpSelfRevision := (case rs ! 1 of RespPut r \<Rightarrow> r | _ \<Rightarrow> 0)\<rparr> else s))"

definition registerSelf ::
  "'e commit \<Rightarrow> app \<Rightarrow> register_env \<Rightarrow> 'e \<times> peer_registry \<Rightarrow>
     (peer_error, ('e \<times> peer_registry) \<times> peer_error option) outcome" where
  "registerSelf commit a c es =
     (case (if 0 < ecLeaseTimeout c then ecLeaseGrant c else Some 0) of
        None \<Rightarrow> Return (es, Some PeerLeaseError)
      | Some leaseID \<Rightarrow>
          bind_outcome (register_loop commit a (ecOrder c) es) (\<lambda>(es', err).
            (case err of
               Some x \<Rightarrow> Return (es', Some x)
             | None \<Rightarrow> Return (es', if leaseID \<noteq> 0 \<and> \<not> ecKeepAlive c then Some PeerLeaseError else None))))"

definition unregister_self_txn :: "app \<Rightarrow> string \<Rightarrow> int \<Rightarrow> txn" where
  "unregister_self_txn a v r =
     \<lparr>tIf = [ValueEq (selfPrefix a @ GRPC_KEY) v, CreateRevisionEq (selfPrefix a @ GRPC_KEY) r],
      tThen = [OpDeletePrefix (selfPrefix a)], tElse = [OpGet (selfPrefix a @ GRPC_KEY)]\<rparr>"

definition unregisterSelf ::
  "'e commit \<Rightarrow> app \<Rightarrow> register_env \<Rightarrow> 'e \<times> peer_registry \<Rightarrow>
     (peer_error, ('e \<times> peer_registry) \<times> peer_error option) outcome" where
  "unregisterSelf commit a c es =
     (let (e, s) = es; s = s\<lparr>rpIsNormalUnregisterSelf := True\<rparr> in
      case commit e (unregister_self_txn a (ecAddress c) (rpSelfRevision s)) of
        (e', None) \<Rightarrow> Return ((e', s), Some PeerCommitError)
      | (e', Some (True, rs)) \<Rightarrow> Return ((e', s), None)
      | (e', Some (False, rs)) \<Rightarrow>
          (case rs of RespGet (lockedBy # _) # _ \<Rightarrow> Return ((e', s), None) | _ \<Rightarrow> Panic))"

section \<open>Events of the watch\<close>

definition onPeerAdd :: "peer \<Rightarrow> peer_registry \<Rightarrow> peer_registry" where
  "onPeerAdd p s =
     (if \<not> rpIsNotify s then s else s\<lparr>rpNotes := rpNotes s @ [NotePeerAdd (pFullName p)]\<rparr>)"

text \<open>The error of \<open>registerSelf\<close> is returned by \<open>onPeerDelete\<close> and dropped by its caller.\<close>

definition onPeerDelete ::
  "'e commit \<Rightarrow> app \<Rightarrow> register_env \<Rightarrow> peer \<Rightarrow> 'e \<times> peer_registry \<Rightarrow>
     (peer_error, 'e \<times> peer_registry) outcome" where
  "onPeerDelete commit a c p es =
     (let (e, s) = es; s = s\<lparr>rpNotes := rpNotes s @ [NotePeerDelete (pFullName p)]\<rparr> in
      if pFullName p = aFullName a
      then (if rpIsNormalUnregisterSelf s then Return (e, s\<lparr>rpCancelled := True\<rparr>)
            else bind_outcome (registerSelf commit a c (e, s)) (\<lambda>r. Return (fst r)))
      else Return (e, s))"

definition onPeerUpdate :: "peer \<Rightarrow> peer_registry \<Rightarrow> (peer_error, peer_registry) outcome" where
  "onPeerUpdate p s =
     resolver_onPeerUpdate p (s\<lparr>rpNotes := rpNotes s @ [NotePeerUpdate (pFullName p) (pAddress p)]\<rparr>)"

definition notify_peers :: "string list \<Rightarrow> peer_registry \<Rightarrow> peer_registry" where
  "notify_peers order s =
     fold (\<lambda>n s. case rpPeers s n of None \<Rightarrow> s | Some p \<Rightarrow> onPeerAdd p s) order s"

text \<open>Entering a peer's address: \<open>SelfPeer\<close> is set when it is the node's own.\<close>

definition add_address :: "app \<Rightarrow> peer \<Rightarrow> string \<Rightarrow> peer_registry \<Rightarrow> peer_registry" where
  "add_address a p v s =
     (let p = p\<lparr>pAddress := v, pUrl := formatPeerUrl (pFullName p)\<rparr>;
          s = s\<lparr>rpPeers := (rpPeers s)(pFullName p \<mapsto> p)\<rparr>;
          s = (if pFullName p = aFullName a then s\<lparr>rpSelfPeer := Some (pFullName p)\<rparr> else s)
      in onPeerAdd p s)"

definition peer_onKvPut ::
  "app \<Rightarrow> string \<Rightarrow> string \<Rightarrow> peer_registry \<Rightarrow> (peer_error, peer_registry) outcome" where
  "peer_onKvPut a key attrValue s =
     (let pats = split_on (CHR ''/'') key in
      if length pats \<noteq> 5 then Error ErrInvalidPeerKey
      else
        (let fullName = pats ! 3; attrName = pats ! 4 in
         case ParseAppFullName fullName of
           None \<Rightarrow> Error ErrInvalidFullName
         | Some (name, serverId) \<Rightarrow>
             (case rpPeers s fullName of
                Some lastPeer \<Rightarrow>
                  (if attrName = GRPC_KEY
                   then (if pAddress lastPeer = [] then Return (add_address a lastPeer attrValue s)
                         else if attrValue \<noteq> pAddress lastPeer
                         then (let p = lastPeer\<lparr>pAddress := attrValue\<rparr> in
                               onPeerUpdate p (s\<lparr>rpPeers := (rpPeers s)(fullName \<mapsto> p)\<rparr>))
                         else Return s)
                   else Return (s\<lparr>rpPeers := (rpPeers s)(fullName \<mapsto>
                          lastPeer\<lparr>pMetadata := (pMetadata lastPeer)(attrName \<mapsto> attrValue)\<rparr>)\<rparr>))
              | None \<Rightarrow>
                  (let peer = \<lparr>pName = name, pId = serverId, pFullName = fullName, pAddress = [],
                               pUrl = [], pMetadata = Map.empty\<rparr>;
                       s = s\<lparr>rpPeers := (rpPeers s)(fullName \<mapsto> peer)\<rparr>
                   in if attrName = GRPC_KEY then Return (add_address a peer attrValue s)
                      else Return (s\<lparr>rpPeers := (rpPeers s)(fullName \<mapsto>
                             peer\<lparr>pMetadata := (pMetadata peer)(attrName \<mapsto> attrValue)\<rparr>)\<rparr>)))))"

definition peer_onKvDelete ::
  "'e commit \<Rightarrow> app \<Rightarrow> register_env \<Rightarrow> string \<Rightarrow> 'e \<times> peer_registry \<Rightarrow>
     (peer_error, 'e \<times> peer_registry) outcome" where
  "peer_onKvDelete commit a c key es =
     (let (e, s) = es; pats = split_on (CHR ''/'') key in
      if length pats \<noteq> 5 then Error ErrInvalidPeerKey
      else
        (let fullName = pats ! 3; attrName = pats ! 4 in
         case rpPeers s fullName of
           None \<Rightarrow> Return (e, s)
         | Some lastPeer \<Rightarrow>
             (if attrName = GRPC_KEY
              then (let p = lastPeer\<lparr>pAddress := [], pUrl := []\<rparr> in
                    onPeerDelete commit a c p (e, s\<lparr>rpPeers := (rpPeers s)(fullName \<mapsto> p)\<rparr>))
              else Return (e, s\<lparr>rpPeers := (rpPeers s)(fullName \<mapsto>
                     lastPeer\<lparr>pMetadata := (pMetadata lastPeer)(attrName := None)\<rparr>)\<rparr>))))"

fun put_all ::
  "app \<Rightarrow> (string \<times> string) list \<Rightarrow> peer_registry \<Rightarrow>
     (peer_error, peer_registry \<times> peer_error option) outcome" where
  "put_all a [] s = Return (s, None)"
| "put_all a ((k, v) # kvs) s =
     (case peer_onKvPut a k v s of
        Return s' \<Rightarrow> put_all a kvs s'
      | Error err \<Rightarrow> Return (s, Some err)
      | Panic \<Rightarrow> Panic)"

definition initPeers ::
  "app \<Rightarrow> ((string \<times> string) list \<times> int) option \<Rightarrow> peer_registry \<Rightarrow>
     (peer_error, peer_registry \<times> peer_error option) outcome" where
  "initPeers a getResp s =
     (case getResp of
        None \<Rightarrow> Return (s, Some PeerGetError)
      | Some (kvs, revision) \<Rightarrow>
          bind_outcome (put_all a kvs s) (\<lambda>(s, err).
            (case err of
               Some x \<Rightarrow> Return (s, Some x)
             | None \<Rightarrow> Return (s\<lparr>rpWatchStartRevision := revision + 1\<rparr>, None))))"

text \<open>\<open>watchPeers\<close> logs the errors of the events and goes on.\<close>

definition peer_event ::
  "'e commit \<Rightarrow> app \<Rightarrow> register_env \<Rightarrow> kv_event \<Rightarrow> 'e \<times> peer_registry \<Rightarrow>
     (peer_error, 'e \<times> peer_registry) outcome" where
  "peer_event commit a c ev es =
     (let r = (case ev of
                 KvPut k v _ \<Rightarrow> bind_outcome (peer_onKvPut a k v (snd es)) (\<lambda>s. Return (fst es, s))
               | KvDelete k \<Rightarrow> peer_onKvDelete commit a c k es)
      in case r of Error _ \<Rightarrow> Return es | _ \<Rightarrow> r)"

fun watchPeers ::
  "'e commit \<Rightarrow> app \<Rightarrow> register_env \<Rightarrow> kv_event list \<Rightarrow> 'e \<times> peer_registry \<Rightarrow>
     (peer_error, 'e \<times> peer_registry) outcome" where
  "watchPeers commit a c [] es = Return es"
| "watchPeers commit a c (ev # evs) es =
     bind_outcome (peer_event commit a c ev es) (watchPeers commit a c evs)"

section \<open>The table is a replay of the events\<close>

text \<open>The attributes of the peers, the address among them, and what one event does to them.\<close>

definition peer_attr :: "peer_registry \<Rightarrow> string \<times> string \<rightharpoonup> string" where
  "peer_attr s = (\<lambda>(n, at). case rpPeers s n of
       None \<Rightarrow> None
     | Some p \<Rightarrow> if at = GRPC_KEY then (if pAddress p = [] then None else Some (pAddress p))
                 else pMetadata p at)"

definition attr_of_key :: "string \<Rightarrow> (string \<times> string) option" where
  "attr_of_key key =
     (let pats = split_on (CHR ''/'') key in if length pats = 5 then Some (pats ! 3, pats ! 4) else None)"

fun replay_attr :: "kv_event \<Rightarrow> (string \<times> string \<rightharpoonup> string) \<Rightarrow> (string \<times> string \<rightharpoonup> string)" where
  "replay_attr (KvPut k v r) m =
     (case attr_of_key k of
        None \<Rightarrow> m
      | Some (n, at) \<Rightarrow>
          if ParseAppFullName n = None then m
          else m((n, at) := (if at = GRPC_KEY \<and> v = [] then None else Some v)))"
| "replay_attr (KvDelete k) m = (case attr_of_key k of None \<Rightarrow> m | Some na \<Rightarrow> m(na := None))"

definition named :: "peer_registry \<Rightarrow> bool" where
  "named s \<longleftrightarrow> (\<forall>n p. rpPeers s n = Some p \<longrightarrow> pFullName p = n)"

lemma named_new [inv_intros]: "named newConfigPeerRegistry"
  by (simp add: named_def newConfigPeerRegistry_def)

lemma onPeerAdd_peers [simp]: "rpPeers (onPeerAdd p s) = rpPeers s"
  by (simp add: onPeerAdd_def)

lemma add_address_peers [simp]:
  "rpPeers (add_address a p v s) =
     (rpPeers s)(pFullName p \<mapsto> p\<lparr>pAddress := v, pUrl := formatPeerUrl (pFullName p)\<rparr>)"
  by (simp add: add_address_def Let_def)

lemma onPeerUpdate_peers: "onPeerUpdate p s = Return s' \<Longrightarrow> rpPeers s' = rpPeers s"
  by (auto simp: onPeerUpdate_def resolver_onPeerUpdate_def split: option.splits)

lemma register_loop_peers:
  "register_loop commit a advs es = Return ((e', s'), err) \<Longrightarrow> rpPeers s' = rpPeers (snd es)
     \<and> rpNotes s' = rpNotes (snd es) \<and> rpIsNotify s' = rpIsNotify (snd es)"
proof (induction commit a advs es rule: register_loop.induct)
  case (2 commit a n v advs e s)
  note IH = 2(1) and run = 2(2)
  obtain e1 x where c: "commit e (register_self_txn (selfPrefix a @ n) v) = (e1, x)"
    by (cases "commit e (register_self_txn (selfPrefix a @ n) v)")
  consider "x = None" | rs where "x = Some (True, rs)" | rs where "x = Some (False, rs)"
    by (metis (full_types) option.exhaust prod.exhaust)
  then show ?case
  proof cases
    case 2
    then show ?thesis using run c by (simp split: list.splits response.splits)
  next
    case 3
    then show ?thesis using IH [OF c [symmetric] 3 refl] run c by (simp split: if_splits)
  qed (use run c in simp)
qed simp

lemma registerSelf_peers:
  assumes "registerSelf commit a c es = Return ((e', s'), err)"
  shows "rpPeers s' = rpPeers (snd es) \<and> rpNotes s' = rpNotes (snd es) \<and> rpIsNotify s' = rpIsNotify (snd es)"
proof (cases "if 0 < ecLeaseTimeout c then ecLeaseGrant c else Some 0")
  case None
  then show ?thesis using assms by (auto simp: registerSelf_def)
next
  case (Some leaseID)
  then obtain es1 err1 where l: "register_loop commit a (ecOrder c) es = Return (es1, err1)" and "(e', s') = es1"
    using assms by (auto simp: registerSelf_def elim!: bind_outcome.elims split: option.splits)
  then show ?thesis using register_loop_peers by metis
qed

text \<open>The entry a put leaves.\<close>

definition fresh_peer :: "string \<Rightarrow> peer" where
  "fresh_peer n = \<lparr>pName = (case ParseAppFullName n of None \<Rightarrow> [] | Some (name, _) \<Rightarrow> name),
     pId = (case ParseAppFullName n of None \<Rightarrow> 0 | Some (_, i) \<Rightarrow> i), pFullName = n, pAddress = [], pUrl = [],
     pMetadata = Map.empty\<rparr>"

definition put_attr :: "string \<Rightarrow> string \<Rightarrow> peer \<Rightarrow> peer" where
  "put_attr at v p =
     (if at = GRPC_KEY
      then (if pAddress p = [] then p\<lparr>pAddress := v, pUrl := formatPeerUrl (pFullName p)\<rparr> else p\<lparr>pAddress := v\<rparr>)
      else p\<lparr>pMetadata := (pMetadata p)(at \<mapsto> v)\<rparr>)"

definition entry :: "peer_registry \<Rightarrow> string \<Rightarrow> peer" where
  "entry s n = (case rpPeers s n of None \<Rightarrow> fresh_peer n | Some p \<Rightarrow> p)"

lemma same_address: "pAddress p = v \<Longrightarrow> p\<lparr>pAddress := v\<rparr> = p"
  by auto

text \<open>A put of a well-formed key, by the entry it meets.\<close>

lemma key_parts:
  assumes "attr_of_key k = Some (n, at)"
  shows "length (split_on (CHR ''/'') k) = 5" and "split_on (CHR ''/'') k ! 3 = n" and "split_on (CHR ''/'') k ! 4 = at"
  using assms by (simp_all add: attr_of_key_def Let_def split: if_splits)

lemma put_new:
  assumes "attr_of_key k = Some (n, at)" and "ParseAppFullName n = Some (name, sid)" and "rpPeers s n = None"
  shows "peer_onKvPut a k v s =
    (let s1 = s\<lparr>rpPeers := (rpPeers s)(n \<mapsto> fresh_peer n)\<rparr> in
     if at = GRPC_KEY then Return (add_address a (fresh_peer n) v s1)
     else Return (s1\<lparr>rpPeers := (rpPeers s1)(n \<mapsto> put_attr at v (fresh_peer n))\<rparr>))"
  using assms(2,3) by (simp add: peer_onKvPut_def key_parts [OF assms(1)] fresh_peer_def put_attr_def Let_def)

lemma put_known:
  assumes "attr_of_key k = Some (n, at)" and "ParseAppFullName n = Some (name, sid)" and "rpPeers s n = Some q"
  shows "peer_onKvPut a k v s =
    (if at = GRPC_KEY
     then (if pAddress q = [] then Return (add_address a q v s)
           else if v \<noteq> pAddress q
           then onPeerUpdate (put_attr at v q) (s\<lparr>rpPeers := (rpPeers s)(n \<mapsto> put_attr at v q)\<rparr>)
           else Return s)
     else Return (s\<lparr>rpPeers := (rpPeers s)(n \<mapsto> put_attr at v q)\<rparr>))"
  using assms(2,3) by (simp add: peer_onKvPut_def key_parts [OF assms(1)] put_attr_def Let_def)

lemma put_bad:
  "attr_of_key k = None \<Longrightarrow> peer_onKvPut a k v s = Error ErrInvalidPeerKey"
  "attr_of_key k = Some (n, at) \<Longrightarrow> ParseAppFullName n = None \<Longrightarrow> peer_onKvPut a k v s = Error ErrInvalidFullName"
  by (simp_all add: peer_onKvPut_def attr_of_key_def Let_def split: if_splits)

lemma put_parsed:
  assumes "peer_onKvPut a k v s = Return s'"
  obtains n at name sid where "attr_of_key k = Some (n, at)" and "ParseAppFullName n = Some (name, sid)"
proof (cases "attr_of_key k")
  case None
  then show thesis using assms by (simp add: put_bad)
next
  case (Some x)
  then obtain n at where x: "attr_of_key k = Some (n, at)" by (cases x) simp
  show thesis
  proof (cases "ParseAppFullName n")
    case None
    then show thesis using assms x by (simp add: put_bad)
  next
    case (Some y)
    then show thesis using that x by (cases y) simp
  qed
qed

lemma put_table:
  assumes put: "peer_onKvPut a k v s = Return s'" and "named s" and k: "attr_of_key k = Some (n, at)"
  shows "rpPeers s' = (rpPeers s)(n \<mapsto> put_attr at v (entry s n))"
proof -
  obtain name sid where P: "ParseAppFullName n = Some (name, sid)"
    using put_parsed [OF put] k by (metis option.inject prod.inject)
  show ?thesis
  proof (cases "rpPeers s n")
    case None
    then show ?thesis using put [unfolded put_new [OF k P None]]
      by (auto simp: entry_def put_attr_def fresh_peer_def Let_def split: if_splits)
  next
    case (Some q)
    then have q: "pFullName q = n" using assms(2) by (simp add: named_def)
    note D = put [unfolded put_known [OF k P Some]]
    show ?thesis
    proof (cases "at = GRPC_KEY \<and> pAddress q \<noteq> []")
      case True
      show ?thesis
      proof (cases "v = pAddress q")
        case True
        then show ?thesis using D Some \<open>at = GRPC_KEY \<and> pAddress q \<noteq> []\<close>
          by (simp add: put_attr_def entry_def same_address fun_upd_idem)
      next
        case False
        then have "onPeerUpdate (put_attr at v q) (s\<lparr>rpPeers := (rpPeers s)(n \<mapsto> put_attr at v q)\<rparr>) = Return s'"
          using D True by simp
        from onPeerUpdate_peers [OF this] show ?thesis using Some by (simp add: entry_def)
      qed
    next
      case False
      then show ?thesis using D Some q by (auto simp: put_attr_def entry_def split: if_splits)
    qed
  qed
qed

lemma pFullName_put [simp]: "pFullName (put_attr at v p) = pFullName p"
  by (simp add: put_attr_def)

lemma put_named:
  assumes "peer_onKvPut a k v s = Return s'" and "named s"
  shows "named s'"
proof -
  obtain n at where k: "attr_of_key k = Some (n, at)" using put_parsed [OF assms(1)] by metis
  have "pFullName (entry s n) = n"
    using assms(2) by (simp add: entry_def fresh_peer_def named_def split: option.split)
  then show ?thesis using assms(2) by (simp add: named_def put_table [OF assms k])
qed

lemma put_peer_attr:
  assumes "peer_onKvPut a k v s = Return s'" and "named s"
  shows "peer_attr s' = replay_attr (KvPut k v r) (peer_attr s)"
proof -
  obtain n at name sid where k: "attr_of_key k = Some (n, at)" and P: "ParseAppFullName n = Some (name, sid)"
    using put_parsed [OF assms(1)] by metis
  show ?thesis
  proof
    fix x :: "string \<times> string"
    obtain m at' where x: "x = (m, at')" by (cases x)
    show "peer_attr s' x = replay_attr (KvPut k v r) (peer_attr s) x"
      using put_table [OF assms k]
      by (cases "rpPeers s n"; cases "m = n"; cases "at = GRPC_KEY"; cases "at' = at")
        (auto simp: x k P peer_attr_def put_attr_def entry_def fresh_peer_def)
  qed
qed

text \<open>The same for a delete.\<close>

definition delete_attr :: "string \<Rightarrow> peer \<Rightarrow> peer" where
  "delete_attr at p =
     (if at = GRPC_KEY then p\<lparr>pAddress := [], pUrl := []\<rparr> else p\<lparr>pMetadata := (pMetadata p)(at := None)\<rparr>)"

lemma delete_known:
  assumes "attr_of_key k = Some (n, at)" and "rpPeers s n = Some q"
  shows "peer_onKvDelete commit a c k (e, s) =
    (let s1 = s\<lparr>rpPeers := (rpPeers s)(n \<mapsto> delete_attr at q)\<rparr> in
     if at = GRPC_KEY then onPeerDelete commit a c (delete_attr at q) (e, s1) else Return (e, s1))"
  using assms(2) by (simp add: peer_onKvDelete_def key_parts [OF assms(1)] delete_attr_def Let_def)

lemma delete_bad:
  "attr_of_key k = None \<Longrightarrow> peer_onKvDelete commit a c k (e, s) = Error ErrInvalidPeerKey"
  by (simp add: peer_onKvDelete_def attr_of_key_def Let_def split: if_splits)

lemma delete_unknown:
  assumes "attr_of_key k = Some (n, at)" and "rpPeers s n = None"
  shows "peer_onKvDelete commit a c k (e, s) = Return (e, s)"
  using assms(2) by (simp add: peer_onKvDelete_def key_parts [OF assms(1)] Let_def)

lemma onPeerDelete_state:
  assumes "onPeerDelete commit a c p (e, s) = Return (e', s')"
  shows "rpPeers s' = rpPeers s \<and> rpNotes s' = rpNotes s @ [NotePeerDelete (pFullName p)]
    \<and> rpIsNotify s' = rpIsNotify s"
proof (cases "pFullName p = aFullName a \<and> \<not> rpIsNormalUnregisterSelf s")
  case True
  let ?s = "s\<lparr>rpNotes := rpNotes s @ [NotePeerDelete (pFullName p)]\<rparr>"
  obtain r where reg: "registerSelf commit a c (e, ?s) = Return ((e', s'), r)"
    using assms True by (auto simp: onPeerDelete_def Let_def elim!: bind_outcome.elims)
  show ?thesis using registerSelf_peers [OF reg] by simp
next
  case False
  then show ?thesis using assms by (auto simp: onPeerDelete_def Let_def split: if_splits)
qed

lemma delete_table:
  assumes del: "peer_onKvDelete commit a c k (e, s) = Return (e', s')" and k: "attr_of_key k = Some (n, at)"
  shows "rpPeers s' = (case rpPeers s n of None \<Rightarrow> rpPeers s | Some q \<Rightarrow> (rpPeers s)(n \<mapsto> delete_attr at q))"
    and "rpNotes s' = rpNotes s @
      (case rpPeers s n of None \<Rightarrow> [] | Some q \<Rightarrow> if at = GRPC_KEY then [NotePeerDelete (pFullName q)] else [])"
    and "rpIsNotify s' = rpIsNotify s"
proof -
  have "rpPeers s' = (case rpPeers s n of None \<Rightarrow> rpPeers s | Some q \<Rightarrow> (rpPeers s)(n \<mapsto> delete_attr at q))
    \<and> rpNotes s' = rpNotes s @
      (case rpPeers s n of None \<Rightarrow> [] | Some q \<Rightarrow> if at = GRPC_KEY then [NotePeerDelete (pFullName q)] else [])
    \<and> rpIsNotify s' = rpIsNotify s"
  proof (cases "rpPeers s n")
    case None
    then show ?thesis using del by (simp add: delete_unknown [OF k None])
  next
    case (Some q)
    note D = del [unfolded delete_known [OF k Some] Let_def]
    show ?thesis
    proof (cases "at = GRPC_KEY")
      case True
      then have "onPeerDelete commit a c (delete_attr at q)
          (e, s\<lparr>rpPeers := (rpPeers s)(n \<mapsto> delete_attr at q)\<rparr>) = Return (e', s')" using D by simp
      from onPeerDelete_state [OF this] show ?thesis using True Some by (simp add: delete_attr_def)
    qed (use D Some in auto)
  qed
  then show "rpPeers s' = (case rpPeers s n of None \<Rightarrow> rpPeers s | Some q \<Rightarrow> (rpPeers s)(n \<mapsto> delete_attr at q))"
    and "rpNotes s' = rpNotes s @
      (case rpPeers s n of None \<Rightarrow> [] | Some q \<Rightarrow> if at = GRPC_KEY then [NotePeerDelete (pFullName q)] else [])"
    and "rpIsNotify s' = rpIsNotify s"
    by simp_all
qed

lemma delete_named:
  assumes del: "peer_onKvDelete commit a c k (e, s) = Return (e', s')" and k: "attr_of_key k = Some (n, at)"
    and "named s"
  shows "named s'"
  using assms(3) delete_table(1) [OF del k] by (auto simp: named_def delete_attr_def split: option.splits)

lemma delete_peer_attr:
  assumes del: "peer_onKvDelete commit a c k (e, s) = Return (e', s')" and k: "attr_of_key k = Some (n, at)"
  shows "peer_attr s' = replay_attr (KvDelete k) (peer_attr s)"
proof
  fix x :: "string \<times> string"
  obtain m at' where x: "x = (m, at')" by (cases x)
  show "peer_attr s' x = replay_attr (KvDelete k) (peer_attr s) x"
    using delete_table(1) [OF del k]
    by (cases "rpPeers s n"; cases "m = n"; cases "at = GRPC_KEY"; cases "at' = at")
      (auto simp: x k peer_attr_def delete_attr_def)
qed

text \<open>What a handler of the notifications knows, and what it should.\<close>

definition peer_view_step :: "peer_note \<Rightarrow> string set \<Rightarrow> string set" where
  "peer_view_step n v = (case n of NotePeerAdd x \<Rightarrow> insert x v | NotePeerDelete x \<Rightarrow> v - {x} | NotePeerUpdate x _ \<Rightarrow> v)"

definition peer_view :: "peer_note list \<Rightarrow> string set" where
  "peer_view ns = fold peer_view_step ns {}"

lemma peer_view_snoc [simp]: "peer_view (ns @ [n]) = peer_view_step n (peer_view ns)"
  by (simp add: peer_view_def)

definition alive :: "peer_registry \<Rightarrow> string set" where
  "alive s = {n. peer_attr s (n, GRPC_KEY) \<noteq> None}"

definition peer_ok :: "peer_registry \<Rightarrow> bool" where
  "peer_ok s \<longleftrightarrow> named s \<and> rpIsNotify s \<and> peer_view (rpNotes s) = alive s"

lemma put_notes:
  assumes put: "peer_onKvPut a k v s = Return s'" and ok: "named s" "rpIsNotify s"
    and k: "attr_of_key k = Some (n, at)"
  shows "rpIsNotify s' \<and> peer_view (rpNotes s') =
    (if at = GRPC_KEY \<and> n \<notin> alive s then insert n (peer_view (rpNotes s)) else peer_view (rpNotes s))"
proof -
  obtain name sid where P: "ParseAppFullName n = Some (name, sid)"
    using put_parsed [OF put] k by (metis option.inject prod.inject)
  show ?thesis
  proof (cases "rpPeers s n")
    case None
    then show ?thesis using put [unfolded put_new [OF k P None]] ok
      by (auto simp: add_address_def onPeerAdd_def Let_def alive_def peer_attr_def peer_view_step_def
          fresh_peer_def split: if_splits)
  next
    case (Some q)
    then have q: "pFullName q = n" using ok by (simp add: named_def)
    note D = put [unfolded put_known [OF k P Some]]
    show ?thesis
    proof (cases "at = GRPC_KEY \<and> pAddress q \<noteq> [] \<and> v \<noteq> pAddress q")
      case True
      then have "onPeerUpdate (put_attr at v q) (s\<lparr>rpPeers := (rpPeers s)(n \<mapsto> put_attr at v q)\<rparr>) = Return s'"
        using D by simp
      then show ?thesis using True Some ok
        by (auto simp: onPeerUpdate_def resolver_onPeerUpdate_def alive_def peer_attr_def
            peer_view_step_def split: option.splits)
    next
      case False
      then show ?thesis using D Some q ok
        by (auto simp: add_address_def onPeerAdd_def Let_def alive_def peer_attr_def peer_view_step_def
            split: if_splits)
    qed
  qed
qed

lemma register_loop_no_error: "register_loop commit a advs es \<noteq> Error x"
proof (induction commit a advs es rule: register_loop.induct)
  case (2 commit a n v advs e s)
  note IH = 2
  obtain e1 y where c: "commit e (register_self_txn (selfPrefix a @ n) v) = (e1, y)"
    by (cases "commit e (register_self_txn (selfPrefix a @ n) v)")
  consider "y = None" | rs where "y = Some (True, rs)" | rs where "y = Some (False, rs)"
    by (metis (full_types) option.exhaust prod.exhaust)
  then show ?case
  proof cases
    case 2
    then show ?thesis using c by (simp split: list.splits response.splits)
  next
    case 3
    then show ?thesis using IH [OF c [symmetric] 3 refl] c by simp
  qed (use c in simp)
qed simp

lemma registerSelf_no_error: "registerSelf commit a c es \<noteq> Error x"
proof (cases "if 0 < ecLeaseTimeout c then ecLeaseGrant c else Some 0")
  case (Some l)
  then show ?thesis using register_loop_no_error [of commit a "ecOrder c" es]
    by (cases "register_loop commit a (ecOrder c) es") (auto simp: registerSelf_def split: option.splits prod.splits)
qed (simp add: registerSelf_def)

lemma delete_error:
  assumes "peer_onKvDelete commit a c k (e, s) = Error x"
  shows "attr_of_key k = None"
proof (rule ccontr)
  assume "attr_of_key k \<noteq> None"
  then obtain n at where k: "attr_of_key k = Some (n, at)" by auto
  show False
  proof (cases "rpPeers s n")
    case None
    then show False using assms by (simp add: delete_unknown [OF k])
  next
    case (Some q)
    let ?s = "s\<lparr>rpPeers := (rpPeers s)(n \<mapsto> delete_attr at q)\<rparr>"
    have "onPeerDelete commit a c (delete_attr at q) (e, ?s) \<noteq> Error x"
      by (auto simp: onPeerDelete_def Let_def registerSelf_no_error elim!: bind_outcome.elims)
    then show False using assms by (simp add: delete_known [OF k Some] Let_def split: if_splits)
  qed
qed

lemma put_error:
  assumes "peer_onKvPut a k v s = Error x"
  shows "replay_attr (KvPut k v r) m = m"
proof (cases "attr_of_key k")
  case (Some y)
  then obtain n at where k: "attr_of_key k = Some (n, at)" by (cases y) simp
  have "ParseAppFullName n = None"
  proof (rule ccontr)
    assume "ParseAppFullName n \<noteq> None"
    then obtain name sid where P: "ParseAppFullName n = Some (name, sid)" by auto
    show False using assms put_new [OF k P] put_known [OF k P]
      by (cases "rpPeers s n")
        (auto simp: Let_def onPeerUpdate_def resolver_onPeerUpdate_def split: if_splits option.splits)
  qed
  then show ?thesis by (simp add: k)
qed simp

text \<open>One event.\<close>

fun nonempty_address :: "kv_event \<Rightarrow> bool" where
  "nonempty_address (KvPut k v r) = (v \<noteq> [])"
| "nonempty_address (KvDelete k) = True"

lemma peer_event_put:
  assumes "peer_event commit a c (KvPut k v r) (e, s) = Return (e', s')"
  shows "(peer_onKvPut a k v s = Return s') \<or> (s' = s \<and> (\<exists>x. peer_onKvPut a k v s = Error x))"
  using assms by (cases "peer_onKvPut a k v s") (auto simp: peer_event_def)

lemma peer_event_delete:
  assumes "peer_event commit a c (KvDelete k) (e, s) = Return (e', s')"
  shows "(peer_onKvDelete commit a c k (e, s) = Return (e', s'))
    \<or> (s' = s \<and> (\<exists>x. peer_onKvDelete commit a c k (e, s) = Error x))"
  using assms by (cases "peer_onKvDelete commit a c k (e, s)") (auto simp: peer_event_def)

lemma peer_event_step:
  assumes step: "peer_event commit a c ev (e, s) = Return (e', s')" and "named s"
  shows "peer_attr s' = replay_attr ev (peer_attr s) \<and> named s'
    \<and> (peer_ok s \<longrightarrow> nonempty_address ev \<longrightarrow> peer_ok s')"
proof (cases ev)
  case (KvPut k v r)
  note step = step [unfolded KvPut]
  show ?thesis
  proof (cases "\<exists>x. peer_onKvPut a k v s = Error x")
    case True
    then obtain x where err: "peer_onKvPut a k v s = Error x" by blast
    then have "s' = s" using peer_event_put [OF step] by simp
    then show ?thesis using put_error [OF err] assms(2) by (simp only: KvPut) simp
  next
    case False
    then have put: "peer_onKvPut a k v s = Return s'" using peer_event_put [OF step] by blast
    obtain n at name sid where k: "attr_of_key k = Some (n, at)" and P: "ParseAppFullName n = Some (name, sid)"
      using put_parsed [OF put] by metis
    have attr: "peer_attr s' = replay_attr ev (peer_attr s)" using put_peer_attr [OF put assms(2), of r] KvPut by simp
    have "peer_ok s'" if "peer_ok s" "v \<noteq> []"
    proof -
      have "alive s' = (if at = GRPC_KEY then insert n (alive s) else alive s)"
        using attr that(2) by (auto simp: alive_def KvPut k P)
      moreover have "rpIsNotify s' \<and> peer_view (rpNotes s') =
          (if at = GRPC_KEY \<and> n \<notin> alive s then insert n (peer_view (rpNotes s)) else peer_view (rpNotes s))"
        using put_notes [OF put assms(2) _ k] that(1) by (simp add: peer_ok_def)
      ultimately show ?thesis using that(1) put_named [OF put assms(2)] by (auto simp: peer_ok_def)
    qed
    then show ?thesis using attr put_named [OF put assms(2)] KvPut by simp
  qed
next
  case (KvDelete k)
  note step = step [unfolded KvDelete]
  show ?thesis
  proof (cases "attr_of_key k")
    case None
    then have "s' = s" using peer_event_delete [OF step] by (auto simp: delete_bad)
    then show ?thesis using None KvDelete assms(2) by simp
  next
    case (Some y)
    then obtain n at where k: "attr_of_key k = Some (n, at)" by (cases y) simp
    then have del: "peer_onKvDelete commit a c k (e, s) = Return (e', s')"
      using peer_event_delete [OF step] delete_error [of commit a c k e s] by auto
    note attr = delete_peer_attr [OF del k]
    have "peer_ok s'" if "peer_ok s"
    proof -
      have "alive s' = (if at = GRPC_KEY then alive s - {n} else alive s)"
        using attr by (auto simp: alive_def k)
      moreover have "rpPeers s n = None \<Longrightarrow> n \<notin> alive s" by (simp add: alive_def peer_attr_def)
      ultimately show ?thesis
        using that delete_table(2,3) [OF del k] delete_named [OF del k assms(2)] assms(2)
        by (auto simp: peer_ok_def peer_view_step_def named_def split: option.splits if_splits)
    qed
    then show ?thesis using attr delete_named [OF del k assms(2)] KvDelete by simp
  qed
qed

lemma watchPeers_facts:
  assumes "watchPeers commit a c evs (e, s) = Return (e', s')" and "named s"
  shows "peer_attr s' = fold replay_attr evs (peer_attr s) \<and> named s'
    \<and> (peer_ok s \<longrightarrow> (\<forall>ev\<in>set evs. nonempty_address ev) \<longrightarrow> peer_ok s')"
  using assms
proof (induction evs arbitrary: e s)
  case (Cons ev evs)
  obtain e1 s1 where st: "peer_event commit a c ev (e, s) = Return (e1, s1)"
    and rest: "watchPeers commit a c evs (e1, s1) = Return (e', s')"
    using Cons(2) by (auto elim!: bind_outcome.elims)
  note S = peer_event_step [OF st Cons(3)]
  show ?case using Cons(1) [OF rest] S by simp
qed simp

section \<open>Starting and stopping\<close>

lemma register_self_commit:
  assumes etcd: "etcd_ok get rv commit" and c: "commit e (register_self_txn key v) = (e', Some (ok, rs))"
  shows "ok \<longleftrightarrow> (\<exists>x. get e key = Some x \<and> kvValue x \<noteq> v)"
    and "\<not> ok \<Longrightarrow> get e' = (get e)(key \<mapsto> \<lparr>kvValue = v,
           kvCreate = (case get e key of None \<Rightarrow> rv e + 1 | Some x \<Rightarrow> kvCreate x)\<rparr>) \<and> rs ! 1 = RespPut (rv e + 1)"
proof -
  note F = etcd_commit [OF etcd c]
  show ok: "ok \<longleftrightarrow> (\<exists>x. get e key = Some x \<and> kvValue x \<noteq> v)"
    using F(1) etcd_absent_iff [OF etcd, of e key] by (auto simp: register_self_txn_def)
  show "\<not> ok \<Longrightarrow> get e' = (get e)(key \<mapsto> \<lparr>kvValue = v,
           kvCreate = (case get e key of None \<Rightarrow> rv e + 1 | Some x \<Rightarrow> kvCreate x)\<rparr>) \<and> rs ! 1 = RespPut (rv e + 1)"
    using F(4) F(1) by (auto simp: branch_def register_self_txn_def)
qed

text \<open>One turn of the loop that does not fail.\<close>

lemma register_loop_step:
  assumes etcd: "etcd_ok get rv commit" and "answers commit"
    and run: "register_loop commit a ((n, v) # advs) (e, s) = Return ((e', s'), None)"
  obtains e1 where "register_loop commit a advs
      (e1, if n = GRPC_KEY then s\<lparr>rpSelfRevision := rv e + 1\<rparr> else s) = Return ((e', s'), None)"
    and "get e1 = (get e)(selfPrefix a @ n \<mapsto> \<lparr>kvValue = v,
           kvCreate = (case get e (selfPrefix a @ n) of None \<Rightarrow> rv e + 1 | Some x \<Rightarrow> kvCreate x)\<rparr>)"
proof -
  obtain e1 ok rs where c: "commit e (register_self_txn (selfPrefix a @ n) v) = (e1, Some (ok, rs))"
    using answered [OF assms(2)] by blast
  note R = register_self_commit [OF etcd c]
  have nok: "\<not> ok" using run c by (cases ok) (auto split: list.splits response.splits)
  show thesis using that [of e1] run c nok R(2) [OF nok] by (cases "n = GRPC_KEY") simp_all
qed

lemma register_loop_others:
  assumes "etcd_ok get rv commit" and "answers commit" and "n \<notin> fst ` set advs"
    and "register_loop commit a advs (e, s) = Return ((e', s'), None)"
  shows "get e' (selfPrefix a @ n) = get e (selfPrefix a @ n)
    \<and> (n = GRPC_KEY \<longrightarrow> rpSelfRevision s' = rpSelfRevision s)"
  using assms(3,4)
proof (induction advs arbitrary: e s)
  case (Cons nv advs)
  obtain m v where nv: "nv = (m, v)" by (cases nv)
  obtain e1 where rest: "register_loop commit a advs
      (e1, if m = GRPC_KEY then s\<lparr>rpSelfRevision := rv e + 1\<rparr> else s) = Return ((e', s'), None)"
    and g: "get e1 = (get e)(selfPrefix a @ m \<mapsto> \<lparr>kvValue = v,
           kvCreate = (case get e (selfPrefix a @ m) of None \<Rightarrow> rv e + 1 | Some x \<Rightarrow> kvCreate x)\<rparr>)"
    using register_loop_step [OF assms(1,2), of a m v advs e s e' s'] Cons(3) nv by metis
  show ?case using Cons(1) [OF _ rest] Cons(2) nv by (auto simp: g)
qed simp

lemma register_loop_address:
  assumes "etcd_ok get rv commit" and "answers commit" and "distinct (map fst advs)"
    and "(GRPC_KEY, v) \<in> set advs"
    and "register_loop commit a advs (e, s) = Return ((e', s'), None)"
  shows "\<exists>x. get e' (selfPrefix a @ GRPC_KEY) = Some x \<and> kvValue x = v
    \<and> (kvCreate x = rpSelfRevision s' \<longleftrightarrow> get e (selfPrefix a @ GRPC_KEY) = None)"
  using assms(3-5)
proof (induction advs arbitrary: e s)
  case (Cons mw advs)
  obtain m w where mw: "mw = (m, w)" by (cases mw)
  obtain e1 where rest: "register_loop commit a advs
      (e1, if m = GRPC_KEY then s\<lparr>rpSelfRevision := rv e + 1\<rparr> else s) = Return ((e', s'), None)"
    and g: "get e1 = (get e)(selfPrefix a @ m \<mapsto> \<lparr>kvValue = w,
           kvCreate = (case get e (selfPrefix a @ m) of None \<Rightarrow> rv e + 1 | Some x \<Rightarrow> kvCreate x)\<rparr>)"
    using register_loop_step [OF assms(1,2), of a m w advs e s e' s'] Cons(4) mw by metis
  show ?case
  proof (cases "m = GRPC_KEY")
    case True
    have w: "w = v" using Cons(2,3) mw True by force
    have notin: "GRPC_KEY \<notin> fst ` set advs" using Cons(2) mw True by simp
    have old: "kvCreate x \<le> rv e" if "get e (selfPrefix a @ GRPC_KEY) = Some x" for x
      using etcd_create(2) [OF assms(1) that] .
    show ?thesis using register_loop_others [OF assms(1,2) notin rest] True w old
      by (cases "get e (selfPrefix a @ GRPC_KEY)") (auto simp: g)
  next
    case False
    then show ?thesis using Cons(1) [OF _ _ rest] Cons(2,3) mw by (auto simp: g)
  qed
qed simp

lemma registerSelf_loop:
  assumes "registerSelf commit a c es = Return (es', None)"
  shows "register_loop commit a (ecOrder c) es = Return (es', None)"
proof (cases "if 0 < ecLeaseTimeout c then ecLeaseGrant c else Some 0")
  case (Some l)
  then show ?thesis using assms
    by (cases "register_loop commit a (ecOrder c) es") (auto simp: registerSelf_def split: option.splits if_splits)
qed (use assms in \<open>simp add: registerSelf_def\<close>)

lemma unregister_self_commit:
  assumes etcd: "etcd_ok get rv commit" and c: "commit e (unregister_self_txn a v r) = (e', Some (ok, rs))"
  shows "ok \<longleftrightarrow> (\<exists>x. get e (selfPrefix a @ GRPC_KEY) = Some x \<and> kvValue x = v \<and> kvCreate x = r)"
    and "ok \<Longrightarrow> get e' = (\<lambda>k. if prefix (selfPrefix a) k then None else get e k)"
    and "\<not> ok \<Longrightarrow> get e' = get e \<and> rs = [RespGet (found (get e) (selfPrefix a @ GRPC_KEY))]"
proof -
  note F = etcd_commit [OF etcd c]
  show "ok \<longleftrightarrow> (\<exists>x. get e (selfPrefix a @ GRPC_KEY) = Some x \<and> kvValue x = v \<and> kvCreate x = r)"
    using F(1) by (auto simp: unregister_self_txn_def create_revision_def)
  show "ok \<Longrightarrow> get e' = (\<lambda>k. if prefix (selfPrefix a) k then None else get e k)"
    using F(4) F(1) by (auto simp: branch_def unregister_self_txn_def)
  show "\<not> ok \<Longrightarrow> get e' = get e \<and> rs = [RespGet (found (get e) (selfPrefix a @ GRPC_KEY))]"
    using F(4) F(1) by (auto simp: branch_def unregister_self_txn_def)
qed

text \<open>When the address key is gone (its lease ran out, say) the stop panics in its log line.\<close>

lemma unregisterSelf_Panic_iff:
  assumes "etcd_ok get rv commit" and "answers commit"
  shows "unregisterSelf commit a c (e, s) = Panic \<longleftrightarrow> get e (selfPrefix a @ GRPC_KEY) = None"
proof -
  obtain e' ok rs where c: "commit e (unregister_self_txn a (ecAddress c) (rpSelfRevision s)) = (e', Some (ok, rs))"
    using answered [OF assms(2)] by blast
  note U = unregister_self_commit [OF assms(1) c]
  show ?thesis
    using U c by (cases ok; cases "get e (selfPrefix a @ GRPC_KEY)") (auto simp: unregisterSelf_def found_def)
qed

section \<open>Properties\<close>

text \<open>
  C6. After any events of the watch the attributes and addresses of the table are what a plain
  replay of the events over a map gives (keys that are not of a node or not of five parts are
  ignored, an empty address is none); and when the handlers were told of exactly the peers with
  an address before, and no address put is empty, they have been told of exactly those after.
\<close>

theorem watch_replays_events:
  assumes "watchPeers commit a c evs (e, s) = Return (e', s')" and "named s"
  shows "peer_attr s' = fold replay_attr evs (peer_attr s)
    \<and> (rpIsNotify s \<and> peer_view (rpNotes s) = alive s \<and> (\<forall>ev\<in>set evs. nonempty_address ev)
        \<longrightarrow> peer_view (rpNotes s') = alive s')"
  using watchPeers_facts [OF assms] assms(2) by (simp add: peer_ok_def)

text \<open>A node with one advertised key and no lease, for the witnesses.\<close>

definition demo_env :: register_env where
  "demo_env = \<lparr>ecAddress = ''h:1'', ecAdvertise = [], ecLeaseTimeout = 0, ecLeaseGrant = None,
               ecKeepAlive = True, ecOrder = [(GRPC_KEY, ''h:1'')]\<rparr>"

theorem watch_replays_events_witness:
  "\<exists>e' s'. watchPeers mem_commit (demo_apps 0) demo_env
       [KvPut ''/peer/attribute/hall_z_e_1/grpc'' ''h:2'' 5] (mem_empty, newConfigPeerRegistry) = Return (e', s')
     \<and> peer_attr s' (''hall_z_e_1'', ''grpc'') = Some ''h:2''"
proof -
  have k: "attr_of_key ''/peer/attribute/hall_z_e_1/grpc'' = Some (''hall_z_e_1'', GRPC_KEY)" by code_simp
  have "FormatAppFullName ''hall'' 1 ''z'' ''e'' = ''hall_z_e_1''" by code_simp
  then have P: "ParseAppFullName ''hall_z_e_1'' = Some (''hall'', 1)"
    using Parse_Format [of "''hall''" "''z''" "''e''" 1] by simp
  have N: "rpPeers newConfigPeerRegistry ''hall_z_e_1'' = None" by (simp add: newConfigPeerRegistry_def)
  obtain s' where run: "watchPeers mem_commit (demo_apps 0) demo_env
       [KvPut ''/peer/attribute/hall_z_e_1/grpc'' ''h:2'' 5] (mem_empty, newConfigPeerRegistry) = Return (mem_empty, s')"
    by (simp add: peer_event_def put_new [OF k P N] Let_def)
  have "peer_attr s' = fold replay_attr [KvPut ''/peer/attribute/hall_z_e_1/grpc'' ''h:2'' 5]
      (peer_attr newConfigPeerRegistry)"
    using watch_replays_events [OF run named_new] by (rule conjunct1)
  then have "peer_attr s' (''hall_z_e_1'', GRPC_KEY) = Some ''h:2''" by (simp add: k P)
  then show ?thesis using run by (auto simp: GRPC_KEY_def)
qed

text \<open>
  A put event panics the watch exactly when it changes the address of a peer that has one and
  the resolver was not started, since \<open>peerResolver\<close> is then nil.
\<close>

lemma address_change_Panic_iff:
  "peer_onKvPut a k v s = Panic \<longleftrightarrow>
     rpResolver s = None \<and>
     (\<exists>n q. attr_of_key k = Some (n, GRPC_KEY) \<and> ParseAppFullName n \<noteq> None \<and> rpPeers s n = Some q
        \<and> pAddress q \<noteq> [] \<and> v \<noteq> pAddress q)"
proof (cases "attr_of_key k")
  case (Some y)
  then obtain n at where k: "attr_of_key k = Some (n, at)" by (cases y) simp
  show ?thesis
  proof (cases "ParseAppFullName n")
    case (Some z)
    then obtain name sid where P: "ParseAppFullName n = Some (name, sid)" by (cases z) simp
    show ?thesis
    proof (cases "rpPeers s n")
      case None
      then show ?thesis using k by (auto simp: put_new [OF k P None] Let_def)
    next
      case (Some q)
      have "onPeerUpdate p t = Panic \<longleftrightarrow> rpResolver t = None" for p t
        by (simp add: onPeerUpdate_def resolver_onPeerUpdate_def split: option.splits)
      then show ?thesis using k P Some
        by (cases "at = GRPC_KEY") (simp_all add: put_known [OF k P Some])
    qed
  qed (use k in \<open>simp add: put_bad\<close>)
qed (simp add: put_bad)

text \<open>
  A node that registered itself and stops removes all its keys, and only them, if its address
  key was absent when it registered; if the key was there with the same address (the node ran
  before and did not stop normally) the stop changes nothing: \<open>selfRevision\<close> is the revision of
  the put, and the comparison with the key's older create revision fails.
\<close>

lemma stop_after_start:
  assumes "etcd_ok get rv commit" and "answers commit"
    and "distinct (map fst (ecOrder c))" and "map_of (ecOrder c) = advertises c"
    and "advertises c GRPC_KEY = Some (ecAddress c)"
    and "registerSelf commit a c (e, s) = Return ((e1, s1), None)"
  shows "\<exists>e2 s2. unregisterSelf commit a c (e1, s1) = Return ((e2, s2), None)
    \<and> get e2 = (if get e (selfPrefix a @ GRPC_KEY) = None
                then (\<lambda>k. if prefix (selfPrefix a) k then None else get e1 k) else get e1)"
proof -
  have "(GRPC_KEY, ecAddress c) \<in> set (ecOrder c)" using assms(4,5) by (metis map_of_SomeD)
  note A = register_loop_address [OF assms(1-3) this registerSelf_loop [OF assms(6)]]
  obtain x where "get e1 (selfPrefix a @ GRPC_KEY) = Some x \<and> kvValue x = ecAddress c
    \<and> (kvCreate x = rpSelfRevision s1 \<longleftrightarrow> get e (selfPrefix a @ GRPC_KEY) = None)"
    using A by (rule exE)
  then have x: "get e1 (selfPrefix a @ GRPC_KEY) = Some x" "kvValue x = ecAddress c"
    "kvCreate x = rpSelfRevision s1 \<longleftrightarrow> get e (selfPrefix a @ GRPC_KEY) = None" by simp_all
  obtain e2 ok rs where cm: "commit e1 (unregister_self_txn a (ecAddress c) (rpSelfRevision s1)) = (e2, Some (ok, rs))"
    using answered [OF assms(2)] by blast
  note U = unregister_self_commit [OF assms(1) cm]
  have ok: "ok \<longleftrightarrow> get e (selfPrefix a @ GRPC_KEY) = None" using U(1) x by simp
  show ?thesis
  proof (cases ok)
    case True
    then have "unregisterSelf commit a c (e1, s1) = Return ((e2, s1\<lparr>rpIsNormalUnregisterSelf := True\<rparr>), None)"
      using cm by (simp add: unregisterSelf_def)
    then show ?thesis using ok True U(2) [OF True] by (simp only: simp_thms if_True) blast
  next
    case False
    then have "unregisterSelf commit a c (e1, s1) = Return ((e2, s1\<lparr>rpIsNormalUnregisterSelf := True\<rparr>), None)"
      using cm U(3) [OF False] x(1) by (simp add: unregisterSelf_def found_def)
    then show ?thesis using ok False U(3) [OF False] by (simp only: simp_thms if_False) blast
  qed
qed

lemma stop_after_start_witness:
  "\<exists>e1 s1 e2 s2. registerSelf mem_commit (demo_apps 0) demo_env (mem_empty, newConfigPeerRegistry) =
       Return ((e1, s1), None)
     \<and> mem_get e1 (selfPrefix (demo_apps 0) @ GRPC_KEY) \<noteq> None
     \<and> unregisterSelf mem_commit (demo_apps 0) demo_env (e1, s1) = Return ((e2, s2), None)
     \<and> mem_get e2 = Map.empty"
proof -
  let ?k = "selfPrefix (demo_apps 0) @ GRPC_KEY"
  obtain e1 ok rs where c: "mem_commit mem_empty (register_self_txn ?k ''h:1'') = (e1, Some (ok, rs))"
    using mem_commits by blast
  note R = register_self_commit [OF mem_etcd c]
  have nok: "\<not> ok" using R(1) by simp
  have g: "mem_get e1 = [?k \<mapsto> \<lparr>kvValue = ''h:1'', kvCreate = 1\<rparr>]" using R(2) [OF nok] by simp
  let ?s = "newConfigPeerRegistry\<lparr>rpSelfRevision := 1\<rparr>"
  have reg: "registerSelf mem_commit (demo_apps 0) demo_env (mem_empty, newConfigPeerRegistry) =
      Return ((e1, ?s), None)"
    using c nok R(2) [OF nok] by (simp add: registerSelf_def demo_env_def)
  have d: "distinct (map fst (ecOrder demo_env))" and o: "map_of (ecOrder demo_env) = advertises demo_env"
    and ad: "advertises demo_env GRPC_KEY = Some (ecAddress demo_env)"
    by (simp_all add: demo_env_def advertises_def)
  obtain e2 s2 where "unregisterSelf mem_commit (demo_apps 0) demo_env (e1, ?s) = Return ((e2, s2), None)"
    and "mem_get e2 = (\<lambda>k. if prefix (selfPrefix (demo_apps 0)) k then None else mem_get e1 k)"
    using stop_after_start [OF mem_etcd mem_answers d o ad reg] by auto
  moreover have "(\<lambda>k. if prefix (selfPrefix (demo_apps 0)) k then None else mem_get e1 k) = Map.empty"
    by (auto simp: g fun_eq_iff)
  ultimately show ?thesis using reg g by (intro exI [of _ e1] exI [of _ ?s] exI [of _ e2] exI [of _ s2]) simp
qed

end
