(* ===== verification/Registry_Client.thy ===== *)
theory Registry_Client
  imports Registry_Peer Registry_Service
begin

text \<open>
  The read side of the registry for programs that are not nodes, \<open>registryclient/peer.go\<close>,
  \<open>player.go\<close> and \<open>service.go\<close>: queries answered from etcd itself. etcd is a parameter: what a
  \<open>Get\<close> of a key and of a prefix answer, or that they fail; \<open>client_ok\<close> states its documented
  answers, the keys with the prefix in byte order.

  The lemmas: which address \<open>GetPeer\<close> finds, and that the name of a node is used as a prefix of the
  keys of all nodes whose name begins with it.
\<close>

section \<open>Queries\<close>

record etcd_client =
  ecGet :: "string \<Rightarrow> (string \<times> string) list option"
  ecRange :: "string \<Rightarrow> (string \<times> string) list option"

definition key_less :: "string \<Rightarrow> string \<Rightarrow> bool" where
  "key_less k l \<longleftrightarrow> (k, l) \<in> lexord {(a, b). (of_char a :: nat) < of_char b}"

definition client_ok :: "(string \<rightharpoonup> string) \<Rightarrow> etcd_client \<Rightarrow> bool" where
  "client_ok store c \<longleftrightarrow>
     (\<forall>k kvs. ecGet c k = Some kvs \<longrightarrow> kvs = (case store k of None \<Rightarrow> [] | Some v \<Rightarrow> [(k, v)]))
     \<and> (\<forall>p kvs. ecRange c p = Some kvs \<longrightarrow>
          set kvs = {(k, v). store k = Some v \<and> prefix p k} \<and> sorted_wrt (\<lambda>x y. key_less (fst x) (fst y)) kvs)"

datatype client_error = ClientGetError | ClientUserNotFound | ClientPeerNotFound

definition client_peer_prefix :: string where "client_peer_prefix = ''/peer/attribute/''"
definition client_user_prefix :: string where "client_user_prefix = ''/user/''"
definition client_service_prefix :: string where "client_service_prefix = ''/service/''"

text \<open>The loop of \<open>GetPeer\<close> over the keys found.\<close>

fun get_attr :: "string \<times> string \<Rightarrow> peer \<Rightarrow> peer" where
  "get_attr (k, v) p =
     (if last (split_on (CHR ''/'') k) = GRPC_KEY then p\<lparr>pAddress := v\<rparr>
      else p\<lparr>pMetadata := (pMetadata p)(k \<mapsto> v)\<rparr>)"

text \<open>\<open>own\<close> is the full name of the application that asks.\<close>

definition GetPeer :: "string \<Rightarrow> etcd_client \<Rightarrow> string \<Rightarrow> peer option" where
  "GetPeer own c appFullName =
     (case ParseAppFullName appFullName of
        None \<Rightarrow> None
      | Some (appType, appId) \<Rightarrow>
          (case ecRange c (client_peer_prefix @ appFullName) of
             None \<Rightarrow> None
           | Some kvs \<Rightarrow>
               Some (fold get_attr kvs
                 \<lparr>pName = appType, pId = appId, pFullName = own, pAddress = [], pUrl = [], pMetadata = Map.empty\<rparr>)))"

definition client_WhereIsPeer :: "string \<Rightarrow> etcd_client \<Rightarrow> string \<Rightarrow> (client_error, peer) outcome" where
  "client_WhereIsPeer own c appFullName =
     (case GetPeer own c appFullName of Some p \<Rightarrow> Return p | None \<Rightarrow> Error ClientPeerNotFound)"

text \<open>A \<open>Delete\<close> with the prefix, of a store.\<close>

definition UnregisterPeer :: "string \<Rightarrow> (string \<rightharpoonup> string) \<Rightarrow> (string \<rightharpoonup> string)" where
  "UnregisterPeer fullName store = (\<lambda>k. if prefix (client_peer_prefix @ fullName) k then None else store k)"

definition ListPeerKvs :: "etcd_client \<Rightarrow> (client_error, string \<rightharpoonup> string) outcome" where
  "ListPeerKvs c =
     (case ecRange c client_peer_prefix of
        None \<Rightarrow> Error ClientGetError
      | Some kvs \<Rightarrow> Return (fold (\<lambda>(k, v) m. m(k \<mapsto> v)) kvs Map.empty))"

definition client_WhereIsUser :: "string \<Rightarrow> etcd_client \<Rightarrow> string \<Rightarrow> (client_error, peer) outcome" where
  "client_WhereIsUser own c userId =
     (case ecGet c (client_user_prefix @ userId) of
        None \<Rightarrow> Error ClientGetError
      | Some [] \<Rightarrow> Error ClientUserNotFound
      | Some ((k, fullName) # kvs) \<Rightarrow>
          (case GetPeer own c fullName of None \<Rightarrow> Error ClientPeerNotFound | Some p \<Rightarrow> Return p))"

definition client_NewServiceName :: "32 word \<Rightarrow> string \<Rightarrow> register_option list \<Rightarrow> string" where
  "client_NewServiceName appId serviceName opt =
     (let opts = fold ConfigRegisterOption opt \<lparr>roAsAppService = False\<rparr> in
      if roAsAppService opts then serviceName @ ''/'' @ fmt_int (sint appId) else serviceName)"

fun service_peers :: "(string \<Rightarrow> peer option) \<Rightarrow> int \<Rightarrow> (string \<times> string) list \<Rightarrow> peer list" where
  "service_peers lookup multicastCount [] = []"
| "service_peers lookup multicastCount ((k, fullName) # kvs) =
     (case lookup fullName of
        None \<Rightarrow> service_peers lookup multicastCount kvs
      | Some p \<Rightarrow>
          if multicastCount > 0
          then (if multicastCount - 1 \<le> 0 then [p] else p # service_peers lookup (multicastCount - 1) kvs)
          else p # service_peers lookup multicastCount kvs)"

definition client_WhereIsService ::
  "string \<Rightarrow> etcd_client \<Rightarrow> string \<Rightarrow> where_option list \<Rightarrow> (client_error, peer list) outcome" where
  "client_WhereIsService own c serviceName opt =
     (let opts = where_options opt; key = client_service_prefix @ serviceName in
      if woCatalog opts \<or> woPrefix opts
      then (case ecRange c key of
              None \<Rightarrow> Error ClientGetError
            | Some kvs \<Rightarrow> Return (service_peers (GetPeer own c) (woMaxCount opts) kvs))
      else (case ecGet c key of
              None \<Rightarrow> Error ClientGetError
            | Some kvs \<Rightarrow> Return (List.map_filter (\<lambda>(k, fullName). GetPeer own c fullName) kvs)))"

definition service_full_name :: "string \<Rightarrow> string" where
  "service_full_name key =
     (let words = split_on (CHR ''/'') key in
      if length words = 4 then words ! 2 @ ''/'' @ words ! 3
      else if length words = 3 then words ! 2 else [])"

definition ListServiceKvs :: "etcd_client \<Rightarrow> (client_error, string \<Rightarrow> string list) outcome" where
  "ListServiceKvs c =
     (case ecRange c client_service_prefix of
        None \<Rightarrow> Error ClientGetError
      | Some kvs \<Rightarrow>
          Return (fold (\<lambda>(k, peerFullName) m. m(peerFullName := m peerFullName @ [service_full_name k])) kvs (\<lambda>_. [])))"

section \<open>Lemmas\<close>

definition peer_address_key :: "string \<Rightarrow> string" where
  "peer_address_key fullName = client_peer_prefix @ fullName @ ''/'' @ GRPC_KEY"

definition is_address_key :: "string \<Rightarrow> bool" where
  "is_address_key k \<longleftrightarrow> last (split_on (CHR ''/'') k) = GRPC_KEY"

lemma last_split_append: "CHR ''/'' \<notin> set w \<Longrightarrow> last (split_on (CHR ''/'') (s @ CHR ''/'' # w)) = w"
proof (induction s)
  case (Cons x s)
  have "\<exists>a b bs. split_on (CHR ''/'') (s @ CHR ''/'' # w) = a # b # bs"
  proof (induction s)
    case Nil
    show ?case by (cases "split_on (CHR ''/'') w") auto
  qed auto
  then obtain a b bs where "split_on (CHR ''/'') (s @ CHR ''/'' # w) = a # b # bs" by blast
  then show ?case using Cons by auto
qed (simp add: split_on_no_sep)

lemma is_address_key [simp]: "is_address_key (peer_address_key f)"
  using last_split_append [of GRPC_KEY "client_peer_prefix @ f"]
  by (simp add: is_address_key_def peer_address_key_def GRPC_KEY_def)

lemma fold_get_attr:
  "pAddress (fold get_attr kvs p) =
     (case filter (\<lambda>kv. is_address_key (fst kv)) kvs of [] \<Rightarrow> pAddress p | x # xs \<Rightarrow> snd (last (x # xs)))"
proof (induction kvs arbitrary: p)
  case (Cons kv kvs)
  obtain k v where kv: "kv = (k, v)" by (cases kv)
  show ?case
    by (cases "filter (\<lambda>kv. is_address_key (fst kv)) kvs")
       (auto simp: kv Cons.IH is_address_key_def)
qed simp

lemma fold_get_attr_names: "pFullName (fold get_attr kvs p) = pFullName p"
proof (induction kvs arbitrary: p)
  case (Cons kv kvs)
  then show ?case by (cases kv) simp
qed simp

lemma key_less_trans: "key_less k l \<Longrightarrow> key_less l m \<Longrightarrow> key_less k m"
proof -
  have "trans {(a, b). (of_char a :: nat) < of_char b}" by (auto intro: transI)
  then show "key_less k l \<Longrightarrow> key_less l m \<Longrightarrow> key_less k m"
    unfolding key_less_def by (blast intro: lexord_trans)
qed

lemma key_less_irrefl: "\<not> key_less k k"
  unfolding key_less_def by (rule lexord_irreflexive) simp

text \<open>The key of a node precedes the keys of the nodes whose name goes on with a digit.\<close>

lemma address_key_less:
  assumes "is_digit d"
  shows "key_less (peer_address_key f) (peer_address_key (f @ d # ds))"
proof -
  have "(of_char (CHR ''/'') :: nat) < of_char d" using assms by (simp add: is_digit_def)
  then have "(''/'' @ GRPC_KEY, (d # ds) @ ''/'' @ GRPC_KEY) \<in> lexord {(a, b). (of_char a :: nat) < of_char b}"
    by simp
  then have "((client_peer_prefix @ f) @ ''/'' @ GRPC_KEY, (client_peer_prefix @ f) @ (d # ds) @ ''/'' @ GRPC_KEY)
      \<in> lexord {(a, b). (of_char a :: nat) < of_char b}"
    by (rule lexord_append_leftI)
  then show ?thesis by (simp add: key_less_def peer_address_key_def)
qed

lemma sorted_last_greater:
  assumes "sorted_wrt (\<lambda>x y. key_less (fst x) (fst y)) kvs" and "x \<in> set kvs" and "x \<noteq> last kvs"
  shows "key_less (fst x) (fst (last kvs))"
  using assms
proof (induction kvs)
  case (Cons y kvs)
  then show ?case by (cases kvs) auto
qed simp

section \<open>Properties\<close>

text \<open>
  The name of a node is used as a prefix of keys, so a node whose number begins another node's
  number is taken for it: when nodes 1 and 10 of a kind both have an address, \<open>GetPeer\<close> of node 1
  (and with it the lookup of its users and services) never answers with the address key of node 1,
  and gives the name of the asking application; and \<open>UnregisterPeer\<close> of node 1 also removes every
  key of node 10.
\<close>

lemma client_confuses_nodes:
  assumes "client_ok store c" and "ParseAppFullName f = Some (appType, appId)"
    and "ecRange c (client_peer_prefix @ f) \<noteq> None" and "is_digit d"
    and "store (peer_address_key f) = Some a" and "store (peer_address_key (f @ d # ds)) = Some b"
  shows "(\<exists>p k. GetPeer own c f = Some p \<and> pFullName p = own \<and> store k = Some (pAddress p)
       \<and> is_address_key k \<and> k \<noteq> peer_address_key f)
    \<and> (\<forall>k. prefix (client_peer_prefix @ f @ d # ds) k \<longrightarrow> UnregisterPeer f store k = None)"
proof
  obtain kvs where kvs: "ecRange c (client_peer_prefix @ f) = Some kvs" using assms(3) by blast
  have S: "set kvs = {(k, v). store k = Some v \<and> prefix (client_peer_prefix @ f) k}"
    and W: "sorted_wrt (\<lambda>x y. key_less (fst x) (fst y)) kvs"
    using assms(1) kvs unfolding client_ok_def by blast+
  let ?ks = "filter (\<lambda>kv. is_address_key (fst kv)) kvs"
  have pre: "prefix (client_peer_prefix @ f) (peer_address_key f)"
    "prefix (client_peer_prefix @ f) (peer_address_key (f @ d # ds))"
    by (simp_all add: peer_address_key_def prefix_def)
  have ina: "(peer_address_key f, a) \<in> set ?ks" and inb: "(peer_address_key (f @ d # ds), b) \<in> set ?ks"
    using pre assms(5,6) by (simp_all add: S)
  have W': "sorted_wrt (\<lambda>x y. key_less (fst x) (fst y)) ?ks" by (rule sorted_wrt_filter [OF W])
  have ne: "?ks \<noteq> []" using ina by (rule list.set_cases) simp_all
  have lastin: "last ?ks \<in> set ?ks" using ne by (rule last_in_set)
  have "fst (last ?ks) \<noteq> peer_address_key f"
  proof
    assume eq: "fst (last ?ks) = peer_address_key f"
    have "key_less (peer_address_key (f @ d # ds)) (peer_address_key f)"
    proof (cases "(peer_address_key (f @ d # ds), b) = last ?ks")
      case True
      then have "peer_address_key (f @ d # ds) = peer_address_key f" using eq by (metis fst_conv)
      then show ?thesis using address_key_less [OF assms(4), of f ds] key_less_irrefl by simp
    next
      case False
      then show ?thesis using sorted_last_greater [OF W' inb False] eq by simp
    qed
    then have "key_less (peer_address_key f) (peer_address_key f)"
      using address_key_less [OF assms(4), of f ds] key_less_trans by blast
    then show False using key_less_irrefl by blast
  qed
  moreover have "store (fst (last ?ks)) = Some (snd (last ?ks))" and "is_address_key (fst (last ?ks))"
    using lastin S by auto
  moreover obtain p where p: "GetPeer own c f = Some p" "pFullName p = own" "pAddress p = snd (last ?ks)"
    using kvs assms(2) ne by (cases ?ks) (auto simp: GetPeer_def fold_get_attr fold_get_attr_names)
  ultimately show "\<exists>p k. GetPeer own c f = Some p \<and> pFullName p = own \<and> store k = Some (pAddress p)
       \<and> is_address_key k \<and> k \<noteq> peer_address_key f"
    by metis
  show "\<forall>k. prefix (client_peer_prefix @ f @ d # ds) k \<longrightarrow> UnregisterPeer f store k = None"
    by (auto simp: UnregisterPeer_def prefix_def)
qed

text \<open>A store with the addresses of nodes 1 and 10, and the client of it.\<close>

definition two_nodes :: "string \<rightharpoonup> string" where
  "two_nodes = [peer_address_key ''hall_z_e_1'' \<mapsto> ''h:1'', peer_address_key ''hall_z_e_10'' \<mapsto> ''h:10'']"

definition two_nodes_client :: etcd_client where
  "two_nodes_client =
     \<lparr>ecGet = (\<lambda>k. Some (case two_nodes k of None \<Rightarrow> [] | Some v \<Rightarrow> [(k, v)])),
      ecRange = (\<lambda>p. Some (filter (\<lambda>(k, v). prefix p k)
        [(peer_address_key ''hall_z_e_1'', ''h:1''), (peer_address_key ''hall_z_e_10'', ''h:10'')]))\<rparr>"

lemma two_nodes_client_ok: "client_ok two_nodes two_nodes_client"
proof -
  have ne: "peer_address_key ''hall_z_e_1'' \<noteq> peer_address_key ''hall_z_e_10''" by code_simp
  have lt: "key_less (peer_address_key ''hall_z_e_1'') (peer_address_key ''hall_z_e_10'')"
    using address_key_less [of "CHR ''0''" "''hall_z_e_1''" "[]"] by (simp add: is_digit_def)
  have S: "set (filter (\<lambda>(k, v). prefix p k)
      [(peer_address_key ''hall_z_e_1'', ''h:1''), (peer_address_key ''hall_z_e_10'', ''h:10'')])
      = {(k, v). two_nodes k = Some v \<and> prefix p k}" for p
    using ne by (auto simp: two_nodes_def split: if_splits)
  have W: "sorted_wrt (\<lambda>x y. key_less (fst x) (fst y)) (filter (\<lambda>(k, v). prefix p k)
      [(peer_address_key ''hall_z_e_1'', ''h:1''), (peer_address_key ''hall_z_e_10'', ''h:10'')])" for p
    by (rule sorted_wrt_filter) (simp add: lt)
  show ?thesis
    unfolding client_ok_def two_nodes_client_def using S W by simp
qed

lemma client_confuses_nodes_witness:
  "\<exists>p k. GetPeer ''me'' two_nodes_client ''hall_z_e_1'' = Some p \<and> two_nodes k = Some (pAddress p)
     \<and> k \<noteq> peer_address_key ''hall_z_e_1''"
proof -
  have ne: "peer_address_key ''hall_z_e_1'' \<noteq> peer_address_key ''hall_z_e_10''" by code_simp
  have "FormatAppFullName ''hall'' 1 ''z'' ''e'' = ''hall_z_e_1''" by code_simp
  then have P: "ParseAppFullName ''hall_z_e_1'' = Some (''hall'', 1)"
    using Parse_Format [of "''hall''" "''z''" "''e''" 1] by simp
  have "ecRange two_nodes_client (client_peer_prefix @ ''hall_z_e_1'') \<noteq> None"
    by (simp add: two_nodes_client_def)
  moreover have "is_digit (CHR ''0'')" by (simp add: is_digit_def)
  moreover have "two_nodes (peer_address_key ''hall_z_e_1'') = Some ''h:1''" using ne by (simp add: two_nodes_def)
  moreover have "two_nodes (peer_address_key (''hall_z_e_1'' @ CHR ''0'' # [])) = Some ''h:10''"
    by (simp add: two_nodes_def)
  ultimately have C: "\<exists>p k. GetPeer ''me'' two_nodes_client ''hall_z_e_1'' = Some p \<and> pFullName p = ''me''
      \<and> two_nodes k = Some (pAddress p) \<and> is_address_key k \<and> k \<noteq> peer_address_key ''hall_z_e_1''"
    using conjunct1 [OF client_confuses_nodes [OF two_nodes_client_ok P, where own = "''me''"]] by blast
  obtain p k where "GetPeer ''me'' two_nodes_client ''hall_z_e_1'' = Some p"
    and "two_nodes k = Some (pAddress p)" and "k \<noteq> peer_address_key ''hall_z_e_1''"
    using C by blast
  then show ?thesis by blast
qed

end
