(* ===== verification/Hall_Session.thy ===== *)
theory Hall_Session
  imports Go_Chan
begin

text \<open>
  The sessions of a hall, \<open>framework/smallgame/game/hall/session.go\<close>, \<open>hall.go\<close> and the
  \<open>ClientStream\<close> handler of \<open>server.go\<close>: how a user's session is made (a lock over the cluster, the
  eviction of an earlier session, the session table, the loading of the player), and how it is
  closed. A cluster of halls is modelled; each handler is a process whose program counter has one
  value for each access to shared state, so that the processes interleave as goroutines do. The
  lock of a user is its owner: \<open>Registry_Player\<close> shows that the registry gives a user to one hall.

  The lemmas classify each step by its effect on the table, the counter and the sessions; the
  invariants and the properties are in \<open>Hall_Table\<close>.
\<close>

section \<open>State\<close>

type_synonym hall = nat
type_synonym sid = nat

datatype hall_error =
  ErrNewUser | ErrHallUserLocked | ErrHallUserNotFound | ErrUserInstead | ErrSessionClosed
  | ErrLoad | ErrRpc | ErrSendOnClosed | ErrNilCall | ErrLogout | ErrRecv | ErrInvalidMemberId

datatype packet_kind = PacketData | PacketKick | PacketUserInstead

text \<open>\<open>hsCancel\<close> is that \<open>clientCancelFunc\<close> has been set, \<open>hsClientDone\<close> that it was called.\<close>

record hall_session =
  hsHall :: hall
  hsUser :: string
  hsPlayer :: bool
  hsResponses :: "packet_kind chan option"
  hsCancel :: bool
  hsClientDone :: bool
  hsClosed :: bool
  hsLoggedOut :: bool
  hsCtxDone :: bool

record hall_world =
  hwOwner :: "string \<rightharpoonup> hall"
  hwDict :: "hall \<Rightarrow> string \<rightharpoonup> sid"
  hwCount :: "hall \<Rightarrow> int"
  hwSession :: "sid \<Rightarrow> hall_session"

text \<open>The lock of a user: a failed lock tells the owner.\<close>

definition lock_user :: "hall \<Rightarrow> string \<Rightarrow> (string \<rightharpoonup> hall) \<Rightarrow> (string \<rightharpoonup> hall) \<times> hall option" where
  "lock_user i u L = (case L u of None \<Rightarrow> (L(u \<mapsto> i), None) | Some j \<Rightarrow> (L, Some j))"

definition unlock_user :: "hall \<Rightarrow> string \<Rightarrow> (string \<rightharpoonup> hall) \<Rightarrow> (string \<rightharpoonup> hall) \<times> bool" where
  "unlock_user i u L = (if L u = Some i then (L(u := None), True) else (L, False))"

definition set_session :: "sid \<Rightarrow> hall_session \<Rightarrow> hall_world \<Rightarrow> hall_world" where
  "set_session s x w = w\<lparr>hwSession := (hwSession w)(s := x)\<rparr>"

definition set_dict :: "hall \<Rightarrow> string \<Rightarrow> sid option \<Rightarrow> hall_world \<Rightarrow> hall_world" where
  "set_dict i u x w = w\<lparr>hwDict := (hwDict w)(i := (hwDict w i)(u := x))\<rparr>"

definition add_count :: "hall \<Rightarrow> int \<Rightarrow> hall_world \<Rightarrow> hall_world" where
  "add_count i n w = w\<lparr>hwCount := (hwCount w)(i := hwCount w i + n)\<rparr>"

section \<open>Closing a session\<close>

text \<open>
  \<open>Close\<close>. A nil \<open>clientCancelFunc\<close> panics before the deferred function is registered. \<open>logout\<close>
  tells whether the player's \<open>Logout\<close> panics, which the deferred function recovers.
\<close>

datatype close_pc =
    CloseCas | CloseClient | CloseLogout | CloseCancel "hall_error option"
  | CloseUnlock "hall_error option" | CloseDelete "hall_error option" | CloseCount "hall_error option"
  | CloseDone "hall_error option" | ClosePanic

fun close_step :: "(sid \<Rightarrow> bool) \<Rightarrow> sid \<Rightarrow> hall_world \<times> close_pc \<Rightarrow> (hall_world \<times> close_pc) option" where
  "close_step logout s (w, CloseCas) =
     (if hsClosed (hwSession w s) then Some (w, CloseDone (Some ErrSessionClosed))
      else Some (set_session s (hwSession w s\<lparr>hsClosed := True\<rparr>) w, CloseClient))"
| "close_step logout s (w, CloseClient) =
     (if hsCancel (hwSession w s)
      then Some (set_session s (hwSession w s\<lparr>hsClientDone := True\<rparr>) w, CloseLogout)
      else Some (w, ClosePanic))"
| "close_step logout s (w, CloseLogout) =
     (if hsPlayer (hwSession w s)
      then Some (set_session s (hwSession w s\<lparr>hsLoggedOut := True\<rparr>) w,
                 CloseCancel (if logout s then Some ErrLogout else None))
      else Some (w, CloseCancel None))"
| "close_step logout s (w, CloseCancel err) =
     Some (set_session s (hwSession w s\<lparr>hsCtxDone := True\<rparr>) w, CloseUnlock err)"
| "close_step logout s (w, CloseUnlock err) =
     (let i = hsHall (hwSession w s); u = hsUser (hwSession w s) in
      Some (w\<lparr>hwOwner := fst (unlock_user i u (hwOwner w))\<rparr>, CloseDelete err))"
| "close_step logout s (w, CloseDelete err) =
     Some (set_dict (hsHall (hwSession w s)) (hsUser (hwSession w s)) None w, CloseCount err)"
| "close_step logout s (w, CloseCount err) =
     Some (add_count (hsHall (hwSession w s)) (- 1) w, CloseDone err)"
| "close_step logout s (w, CloseDone err) = None"
| "close_step logout s (w, ClosePanic) = None"

section \<open>Evicting a session\<close>

text \<open>
  \<open>hall_service.Instead\<close> at hall \<open>i\<close>: without a session it tries to unlock the user, else
  \<open>sendPacketAndClose\<close>, which returns nil whatever \<open>Close\<close> returned and recovers the panics of
  the send and of \<open>Close\<close>. A send on the channel of a session whose stream has not made it yet is
  one on nil, which blocks for ever. \<open>Kick\<close> differs in the packet and in the first branch.
\<close>

datatype evict_pc =
    EvictFind | EvictUnlock | EvictSend sid | EvictStuck | EvictClose sid close_pc
  | EvictDone "hall_error option"

fun evict_step ::
  "(sid \<Rightarrow> bool) \<Rightarrow> packet_kind \<Rightarrow> hall \<Rightarrow> string \<Rightarrow> hall_world \<times> evict_pc \<Rightarrow> (hall_world \<times> evict_pc) option"
where
  "evict_step logout kind i u (w, EvictFind) =
     (case hwDict w i u of
        None \<Rightarrow> Some (w, if kind = PacketKick then EvictDone (Some ErrHallUserNotFound) else EvictUnlock)
      | Some s \<Rightarrow> Some (w, EvictSend s))"
| "evict_step logout kind i u (w, EvictUnlock) =
     (case unlock_user i u (hwOwner w) of
        (L, ok) \<Rightarrow> Some (w\<lparr>hwOwner := L\<rparr>, EvictDone (if ok then None else Some ErrHallUserNotFound)))"
| "evict_step logout kind i u (w, EvictSend s) =
     (if hsResponses (hwSession w s) = None then Some (w, EvictStuck)
      else (case chan_send (hsResponses (hwSession w s)) kind of
              SendBlocks \<Rightarrow> None
            | SendPanics \<Rightarrow> Some (w, EvictDone (Some ErrSendOnClosed))
            | Sent c \<Rightarrow> Some (set_session s (hwSession w s\<lparr>hsResponses := Some c\<rparr>) w, EvictClose s CloseCas)))"
| "evict_step logout kind i u (w, EvictStuck) = None"
| "evict_step logout kind i u (w, EvictClose s pc) =
     (case close_step logout s (w, pc) of
        Some (w', pc') \<Rightarrow> Some (w', EvictClose s pc')
      | None \<Rightarrow> Some (w, EvictDone (if pc = ClosePanic then Some ErrNilCall else None)))"
| "evict_step logout kind i u (w, EvictDone err) = None"

section \<open>A client's stream\<close>

text \<open>
  What the handlers of the application and the network do for one stream: the member id of the first
  message, if it comes, the user id of \<open>NewUser\<close>, whether the owner of the lock is a known peer and answers, and whether loading the
  player succeeds.
\<close>

record login_env =
  leHall :: hall
  leMember :: "string option"
  leUser :: "string option"
  leKnown :: bool
  leRpc :: bool
  leLoads :: bool

datatype login_pc =
    LoginRecv | LoginUser | LoginLock | LoginRpc hall | LoginEvict hall evict_pc | LoginRelock | LoginCheck
  | LoginStore | LoginCount | LoginLoad | LoginUnstore | LoginUncount | LoginUnlock hall_error
  | LoginFailed hall_error | StreamChannels | StreamBind | StreamServing
  | StreamFlush | StreamDefer | StreamEnd | StreamClose close_pc

definition env_user :: "login_env \<Rightarrow> string" where
  "env_user env = (case leUser env of None \<Rightarrow> [] | Some u \<Rightarrow> u)"

definition fresh_session :: "login_env \<Rightarrow> hall_session" where
  "fresh_session env =
     \<lparr>hsHall = leHall env, hsUser = env_user env, hsPlayer = False, hsResponses = None, hsCancel = False,
      hsClientDone = False, hsClosed = False, hsLoggedOut = False, hsCtxDone = False\<rparr>"

text \<open>
  The start of \<open>ClientStream\<close>, \<open>newSession\<close> up to \<open>StreamChannels\<close>, then the rest of \<open>ClientStream\<close>: the channels, \<open>clientCancelFunc\<close>, the
  loop over the responses with its flush and its deferred \<open>select\<close>, and \<open>Close\<close>. \<open>cap\<close> is \<open>ResponseBufferSize\<close>. The session of process \<open>s\<close> is \<open>s\<close>.
\<close>

fun login_step ::
  "(sid \<Rightarrow> bool) \<Rightarrow> nat \<Rightarrow> login_env \<Rightarrow> sid \<Rightarrow> hall_world \<times> login_pc \<Rightarrow> (hall_world \<times> login_pc) option"
where
  "login_step logout cap env s (w, LoginRecv) =
     Some (w, case leMember env of
                None \<Rightarrow> LoginFailed ErrRecv
              | Some m \<Rightarrow> if m = [] then LoginFailed ErrInvalidMemberId else LoginUser)"
| "login_step logout cap env s (w, LoginUser) =
     (case leUser env of None \<Rightarrow> Some (w, LoginFailed ErrNewUser) | Some u \<Rightarrow> Some (w, LoginLock))"
| "login_step logout cap env s (w, LoginLock) =
     (case lock_user (leHall env) (env_user env) (hwOwner w) of
        (L, None) \<Rightarrow> Some (w\<lparr>hwOwner := L\<rparr>, LoginCheck)
      | (L, Some j) \<Rightarrow> Some (w, if leKnown env then LoginRpc j else LoginFailed ErrHallUserLocked))"
| "login_step logout cap env s (w, LoginRpc j) =
     Some (w, if leRpc env then LoginEvict j EvictFind else LoginFailed ErrRpc)"
| "login_step logout cap env s (w, LoginEvict j pc) =
     (case evict_step logout PacketUserInstead j (env_user env) (w, pc) of
        Some (w', pc') \<Rightarrow> Some (w', LoginEvict j pc')
      | None \<Rightarrow>
          (case pc of
             EvictDone None \<Rightarrow> Some (w, LoginRelock)
           | EvictDone (Some err) \<Rightarrow> Some (w, LoginFailed err)
           | _ \<Rightarrow> None))"
| "login_step logout cap env s (w, LoginRelock) =
     (case lock_user (leHall env) (env_user env) (hwOwner w) of
        (L, None) \<Rightarrow> Some (w\<lparr>hwOwner := L\<rparr>, LoginCheck)
      | (L, Some j) \<Rightarrow> Some (w, LoginFailed ErrHallUserLocked))"
| "login_step logout cap env s (w, LoginCheck) =
     (case hwDict w (leHall env) (env_user env) of
        Some t \<Rightarrow> Some (w, LoginUnlock ErrUserInstead) | None \<Rightarrow> Some (w, LoginStore))"
| "login_step logout cap env s (w, LoginStore) =
     (case hwDict w (leHall env) (env_user env) of
        Some t \<Rightarrow> Some (w, LoginUnlock ErrUserInstead)
      | None \<Rightarrow> Some (set_dict (leHall env) (env_user env) (Some s) (set_session s (fresh_session env) w),
                      LoginCount))"
| "login_step logout cap env s (w, LoginCount) = Some (add_count (leHall env) 1 w, LoginLoad)"
| "login_step logout cap env s (w, LoginLoad) =
     (if leLoads env then Some (set_session s (hwSession w s\<lparr>hsPlayer := True\<rparr>) w, StreamChannels)
      else Some (w, LoginUnstore))"
| "login_step logout cap env s (w, LoginUnstore) =
     Some (set_dict (leHall env) (env_user env) None w, LoginUncount)"
| "login_step logout cap env s (w, LoginUncount) = Some (add_count (leHall env) (- 1) w, LoginUnlock ErrLoad)"
| "login_step logout cap env s (w, LoginUnlock err) =
     Some (w\<lparr>hwOwner := fst (unlock_user (leHall env) (env_user env) (hwOwner w))\<rparr>, LoginFailed err)"
| "login_step logout cap env s (w, LoginFailed err) = None"
| "login_step logout cap env s (w, StreamChannels) =
     Some (set_session s (hwSession w s\<lparr>hsResponses := Some (make_chan cap)\<rparr>) w, StreamBind)"
| "login_step logout cap env s (w, StreamBind) =
     Some (set_session s (hwSession w s\<lparr>hsCancel := True\<rparr>) w, StreamServing)"
| "login_step logout cap env s (w, StreamServing) =
     (if hsClientDone (hwSession w s)
      then (case chan_close (hsResponses (hwSession w s)) of
              None \<Rightarrow> None
            | Some c \<Rightarrow> Some (set_session s (hwSession w s\<lparr>hsResponses := Some c\<rparr>) w, StreamFlush))
      else None)"
| "login_step logout cap env s (w, StreamFlush) =
     (case chan_recv (hsResponses (hwSession w s)) of
        Received x c \<Rightarrow> Some (set_session s (hwSession w s\<lparr>hsResponses := Some c\<rparr>) w, StreamFlush)
      | RecvClosed \<Rightarrow> Some (w, StreamDefer)
      | RecvBlocks \<Rightarrow> None)"
| "login_step logout cap env s (w, StreamDefer) =
     (case chan_recv (hsResponses (hwSession w s)) of
        Received x c \<Rightarrow> Some (set_session s (hwSession w s\<lparr>hsResponses := Some c\<rparr>) w, StreamEnd)
      | RecvClosed \<Rightarrow> Some (w, StreamEnd)
      | RecvBlocks \<Rightarrow>
          (case chan_close (hsResponses (hwSession w s)) of
             None \<Rightarrow> None
           | Some c \<Rightarrow> Some (set_session s (hwSession w s\<lparr>hsResponses := Some c\<rparr>) w, StreamEnd)))"
| "login_step logout cap env s (w, StreamEnd) =
     Some (set_session s (hwSession w s\<lparr>hsClientDone := True\<rparr>) w, StreamClose CloseCas)"
| "login_step logout cap env s (w, StreamClose pc) =
     (case close_step logout s (w, pc) of None \<Rightarrow> None | Some (w', pc') \<Rightarrow> Some (w', StreamClose pc'))"

section \<open>A cluster of halls\<close>

text \<open>
  The goroutines: a client's stream, a kick, and the closing of a session when its hall stops (the
  loop of \<open>Serve\<close> over the table). A stream that serves, or sends the last responses, selects
  between its channels: besides a step of its own program it can forward a response to the client,
  or see the error of \<open>client.Recv\<close>.
\<close>

datatype hall_proc =
    Login login_env login_pc | Kick hall string evict_pc | Stopper hall string "(sid \<times> close_pc) option"

datatype hall_event = Run nat | Forward sid | RecvErr sid

record hall_sys =
  sysWorld :: hall_world
  sysProc :: "nat \<Rightarrow> hall_proc"

definition stop_step ::
  "(sid \<Rightarrow> bool) \<Rightarrow> hall \<Rightarrow> string \<Rightarrow> hall_world \<times> (sid \<times> close_pc) option \<Rightarrow>
     (hall_world \<times> (sid \<times> close_pc) option) option" where
  "stop_step logout i u wx =
     (case wx of
        (w, None) \<Rightarrow> (case hwDict w i u of None \<Rightarrow> None | Some s \<Rightarrow> Some (w, Some (s, CloseCas)))
      | (w, Some (s, pc)) \<Rightarrow>
          (case close_step logout s (w, pc) of None \<Rightarrow> None | Some (w', pc') \<Rightarrow> Some (w', Some (s, pc'))))"

definition forward_step :: "sid \<Rightarrow> hall_world \<Rightarrow> hall_world" where
  "forward_step s w =
     (case chan_recv (hsResponses (hwSession w s)) of
        Received x c \<Rightarrow> set_session s (hwSession w s\<lparr>hsResponses := Some c\<rparr>) w
      | _ \<Rightarrow> w)"

text \<open>One step of process \<open>p\<close>; a blocked or finished process leaves the state as it is.\<close>

definition proc_step ::
  "(sid \<Rightarrow> bool) \<Rightarrow> nat \<Rightarrow> nat \<Rightarrow> hall_world \<Rightarrow> hall_proc \<Rightarrow> hall_world \<times> hall_proc" where
  "proc_step logout cap p w q =
     (case q of
        Login env pc \<Rightarrow>
          (case login_step logout cap env p (w, pc) of None \<Rightarrow> (w, q) | Some (w', pc') \<Rightarrow> (w', Login env pc'))
      | Kick i u pc \<Rightarrow>
          (case evict_step logout PacketKick i u (w, pc) of None \<Rightarrow> (w, q) | Some (w', pc') \<Rightarrow> (w', Kick i u pc'))
      | Stopper i u x \<Rightarrow>
          (case stop_step logout i u (w, x) of None \<Rightarrow> (w, q) | Some (w', x') \<Rightarrow> (w', Stopper i u x')))"

fun event_proc :: "hall_event \<Rightarrow> nat" where
  "event_proc (Run p) = p"
| "event_proc (Forward s) = s"
| "event_proc (RecvErr s) = s"

fun event_step ::
  "(sid \<Rightarrow> bool) \<Rightarrow> nat \<Rightarrow> hall_event \<Rightarrow> hall_world \<Rightarrow> hall_proc \<Rightarrow> hall_world \<times> hall_proc" where
  "event_step logout cap (Run p) w q = proc_step logout cap p w q"
| "event_step logout cap (Forward s) w q =
     (case q of Login env StreamServing \<Rightarrow> (forward_step s w, q) | _ \<Rightarrow> (w, q))"
| "event_step logout cap (RecvErr s) w q =
     (case q of
        Login env StreamServing \<Rightarrow> (w, Login env StreamDefer)
      | Login env StreamFlush \<Rightarrow> (w, Login env StreamDefer)
      | _ \<Rightarrow> (w, q))"

definition hall_step :: "(sid \<Rightarrow> bool) \<Rightarrow> nat \<Rightarrow> hall_sys \<Rightarrow> hall_event \<Rightarrow> hall_sys" where
  "hall_step logout cap y e =
     (let p = event_proc e; (w', q') = event_step logout cap e (sysWorld y) (sysProc y p) in
      \<lparr>sysWorld = w', sysProc = (sysProc y)(p := q')\<rparr>)"

definition hall_run :: "(sid \<Rightarrow> bool) \<Rightarrow> nat \<Rightarrow> hall_sys \<Rightarrow> hall_event list \<Rightarrow> hall_sys" where
  "hall_run logout cap = foldl (hall_step logout cap)"

definition no_session :: hall_session where
  "no_session = \<lparr>hsHall = 0, hsUser = [], hsPlayer = False, hsResponses = None, hsCancel = False,
     hsClientDone = False, hsClosed = False, hsLoggedOut = False, hsCtxDone = False\<rparr>"

definition initial_world :: hall_world where
  "initial_world = \<lparr>hwOwner = Map.empty, hwDict = (\<lambda>i. Map.empty), hwCount = (\<lambda>i. 0),
     hwSession = (\<lambda>s. no_session)\<rparr>"

text \<open>Every process is at its start: streams may come, kicks and stops happen, in any number.\<close>

fun starting :: "hall_proc \<Rightarrow> bool" where
  "starting (Login env pc) = (pc = LoginRecv)"
| "starting (Kick i u pc) = (pc = EvictFind)"
| "starting (Stopper i u x) = (x = None)"

definition hall_init :: "hall_sys \<Rightarrow> bool" where
  "hall_init y \<longleftrightarrow> sysWorld y = initial_world \<and> (\<forall>p. starting (sysProc y p))"

section \<open>The session table over every interleaving\<close>

text \<open>
  What a process is doing, as far as the table is concerned: the phase of a stream, the session it
  knows of, and how far it is with closing one: before the exchange of \<open>isClosed\<close> (0), before and
  after \<open>clientCancelFunc\<close> (1, 2), before the counter (3), or done (4).
\<close>

datatype phase = Before | Storing | Serving | Over

fun stream_phase :: "login_pc \<Rightarrow> phase" where
  "stream_phase LoginCount = Storing"
| "stream_phase LoginLoad = Storing"
| "stream_phase LoginUnstore = Storing"
| "stream_phase StreamChannels = Storing"
| "stream_phase StreamBind = Storing"
| "stream_phase StreamServing = Serving"
| "stream_phase StreamFlush = Serving"
| "stream_phase StreamDefer = Serving"
| "stream_phase StreamEnd = Serving"
| "stream_phase (StreamClose _) = Serving"
| "stream_phase LoginUncount = Over"
| "stream_phase (LoginUnlock _) = Over"
| "stream_phase (LoginFailed _) = Over"
| "stream_phase _ = Before"

fun stream_of :: "hall_proc \<Rightarrow> (login_env \<times> phase) option" where
  "stream_of (Login env pc) = Some (env, stream_phase pc)"
| "stream_of _ = None"

fun close_rank :: "close_pc \<Rightarrow> nat" where
  "close_rank CloseCas = 0"
| "close_rank CloseClient = 1"
| "close_rank CloseLogout = 2"
| "close_rank (CloseCancel _) = 2"
| "close_rank (CloseUnlock _) = 2"
| "close_rank (CloseDelete _) = 2"
| "close_rank (CloseCount _) = 3"
| "close_rank _ = 4"

fun evict_closing :: "evict_pc \<Rightarrow> (sid \<times> nat) option" where
  "evict_closing (EvictClose s pc) = Some (s, close_rank pc)"
| "evict_closing _ = None"

fun closing :: "nat \<Rightarrow> hall_proc \<Rightarrow> (sid \<times> nat) option" where
  "closing p (Login env (LoginEvict j pc)) = evict_closing pc"
| "closing p (Login env (StreamClose pc)) = Some (p, close_rank pc)"
| "closing p (Login env _) = None"
| "closing p (Kick i u pc) = evict_closing pc"
| "closing p (Stopper i u x) = map_option (\<lambda>(s, pc). (s, close_rank pc)) x"

fun evict_knows :: "evict_pc \<Rightarrow> sid option" where
  "evict_knows (EvictSend s) = Some s"
| "evict_knows (EvictClose s pc) = Some s"
| "evict_knows _ = None"

fun knows :: "nat \<Rightarrow> hall_proc \<Rightarrow> sid option" where
  "knows p (Login env (LoginEvict j pc)) = evict_knows pc"
| "knows p (Login env (StreamClose pc)) = Some p"
| "knows p (Login env _) = None"
| "knows p (Kick i u pc) = evict_knows pc"
| "knows p (Stopper i u x) = map_option fst x"

text \<open>Streams that have stored and not counted, and that have removed and not counted.\<close>

fun counts_up :: "hall_proc \<Rightarrow> hall option" where
  "counts_up (Login env LoginCount) = Some (leHall env)"
| "counts_up _ = None"

fun counts_down :: "hall_proc \<Rightarrow> hall option" where
  "counts_down (Login env LoginUncount) = Some (leHall env)"
| "counts_down _ = None"

definition listed :: "hall_world \<Rightarrow> sid \<Rightarrow> bool" where
  "listed w s \<longleftrightarrow> hwDict w (hsHall (hwSession w s)) (hsUser (hwSession w s)) = Some s"

definition core :: "hall_session \<Rightarrow> hall \<times> string \<times> bool \<times> bool" where
  "core x = (hsHall x, hsUser x, hsCancel x, hsClosed x)"

text \<open>What a step does to the table, the counter and the sessions, by the nine kinds of step.\<close>

definition quiet :: "hall_world \<Rightarrow> hall_world \<Rightarrow> bool" where
  "quiet w w' \<longleftrightarrow> hwDict w' = hwDict w \<and> hwCount w' = hwCount w
     \<and> (\<forall>s. core (hwSession w' s) = core (hwSession w s))"

inductive effect :: "nat \<Rightarrow> hall_world \<Rightarrow> hall_proc \<Rightarrow> hall_world \<Rightarrow> hall_proc \<Rightarrow> bool" for p w q where
  Quiet: "quiet w w' \<Longrightarrow>
    stream_of q' = stream_of q \<or> (\<exists>env. stream_of q = Some (env, Before) \<and> stream_of q' = Some (env, Over)) \<Longrightarrow>
    (\<And>s r. closing p q' = Some (s, r) \<Longrightarrow> r \<in> {1, 2, 3} \<Longrightarrow>
       \<exists>r'. closing p q = Some (s, r') \<and> (r = r' \<or> r' = 1 \<and> r = 2 \<and> hsCancel (hwSession w s))) \<Longrightarrow>
    (\<And>s. closing p q = Some (s, 3) \<Longrightarrow> closing p q' = Some (s, 3)) \<Longrightarrow>
    (\<And>s. knows p q' = Some s \<Longrightarrow> knows p q = Some s \<or> (\<exists>i u. hwDict w i u = Some s)
       \<or> s = p \<and> (\<exists>env. stream_of q = Some (env, Serving))) \<Longrightarrow>
    counts_up q' = counts_up q \<Longrightarrow> counts_down q' = counts_down q \<Longrightarrow> effect p w q w' q'"
| Cas: "closing p q = Some (s, 0) \<Longrightarrow> closing p q' = Some (s, 1) \<Longrightarrow> stream_of q' = stream_of q \<Longrightarrow>
    knows p q' = knows p q \<Longrightarrow> counts_up q' = counts_up q \<Longrightarrow> counts_down q' = counts_down q \<Longrightarrow>
    \<not> hsClosed (hwSession w s) \<Longrightarrow>
    w' = set_session s (hwSession w s\<lparr>hsClosed := True\<rparr>) w \<Longrightarrow> effect p w q w' q'"
| Delete: "closing p q = Some (s, 2) \<Longrightarrow> closing p q' = Some (s, 3) \<Longrightarrow> stream_of q' = stream_of q \<Longrightarrow>
    knows p q' = knows p q \<Longrightarrow> counts_up q' = counts_up q \<Longrightarrow> counts_down q' = counts_down q \<Longrightarrow>
    w' = set_dict (hsHall (hwSession w s)) (hsUser (hwSession w s)) None w \<Longrightarrow> effect p w q w' q'"
| Uncount: "closing p q = Some (s, 3) \<Longrightarrow> closing p q' = Some (s, 4) \<Longrightarrow> stream_of q' = stream_of q \<Longrightarrow>
    knows p q' = knows p q \<Longrightarrow> counts_up q' = counts_up q \<Longrightarrow> counts_down q' = counts_down q \<Longrightarrow>
    w' = add_count (hsHall (hwSession w s)) (- 1) w \<Longrightarrow> effect p w q w' q'"
| Store: "q = Login env LoginStore \<Longrightarrow> hwDict w (leHall env) (env_user env) = None \<Longrightarrow>
    effect p w q (set_dict (leHall env) (env_user env) (Some p) (set_session p (fresh_session env) w))
      (Login env LoginCount)"
| CountUp: "q = Login env LoginCount \<Longrightarrow> effect p w q (add_count (leHall env) 1 w) (Login env LoginLoad)"
| Unstore: "q = Login env LoginUnstore \<Longrightarrow>
    effect p w q (set_dict (leHall env) (env_user env) None w) (Login env LoginUncount)"
| LoadUncount: "q = Login env LoginUncount \<Longrightarrow>
    effect p w q (add_count (leHall env) (- 1) w) (Login env (LoginUnlock ErrLoad))"
| Bind: "q = Login env StreamBind \<Longrightarrow>
    effect p w q (set_session p (hwSession w p\<lparr>hsCancel := True\<rparr>) w) (Login env StreamServing)"

lemma quiet_refl [simp]: "quiet w w"
  by (simp add: quiet_def)

lemma quiet_session: "core x = core (hwSession w s) \<Longrightarrow> quiet w (set_session s x w)"
  by (simp add: quiet_def set_session_def)

lemma quiet_owner [simp]: "quiet w (w\<lparr>hwOwner := L\<rparr>)"
  by (simp add: quiet_def)

lemma core_update [simp]:
  "core (x\<lparr>hsClientDone := b\<rparr>) = core x" "core (x\<lparr>hsLoggedOut := b\<rparr>) = core x"
  "core (x\<lparr>hsCtxDone := b\<rparr>) = core x" "core (x\<lparr>hsPlayer := b\<rparr>) = core x"
  "core (x\<lparr>hsResponses := ch\<rparr>) = core x"
  by (simp_all add: core_def)

lemma close_effect:
  assumes step: "close_step logout s (w, pc) = Some (w', pc')"
    and cl: "closing p q = Some (s, close_rank pc)" "closing p q' = Some (s, close_rank pc')"
    and same: "stream_of q' = stream_of q" "knows p q' = knows p q" "counts_up q' = counts_up q"
      "counts_down q' = counts_down q"
  shows "effect p w q w' q'"
proof (cases pc)
  case CloseCas
  show ?thesis
  proof (cases "hsClosed (hwSession w s)")
    case True
    then show ?thesis using step cl same CloseCas by (intro effect.Quiet) auto
  next
    case False
    then show ?thesis using step cl same CloseCas by (intro effect.Cas [of p q s]) auto
  qed
next
  case CloseClient
  then show ?thesis using step cl same
    by (intro effect.Quiet) (auto simp: quiet_session split: if_splits)
next
  case CloseLogout
  then show ?thesis using step cl same
    by (intro effect.Quiet) (auto simp: quiet_session split: if_splits)
next
  case (CloseCancel err)
  then show ?thesis using step cl same by (intro effect.Quiet) (auto simp: quiet_session)
next
  case (CloseUnlock err)
  then show ?thesis using step cl same by (intro effect.Quiet) (auto simp: Let_def)
next
  case (CloseDelete err)
  then show ?thesis using step cl same by (intro effect.Delete [of p q s]) auto
next
  case (CloseCount err)
  then show ?thesis using step cl same by (intro effect.Uncount [of p q s]) auto
qed (use step in simp_all)

lemma stay_effect: "effect p w q w q"
  by (rule effect.Quiet) auto

lemma evict_effect:
  assumes step: "evict_step logout kind i u (w, pc) = Some (w', pc')"
    and cl: "closing p q = evict_closing pc" "closing p q' = evict_closing pc'"
    and kn: "knows p q = evict_knows pc" "knows p q' = evict_knows pc'"
    and same: "stream_of q' = stream_of q" "counts_up q' = counts_up q" "counts_down q' = counts_down q"
  shows "effect p w q w' q'"
proof (cases pc)
  case EvictFind
  then show ?thesis using step cl kn same
    by (intro effect.Quiet) (auto split: option.splits if_splits)
next
  case EvictUnlock
  then show ?thesis using step cl kn same
    by (intro effect.Quiet) (auto split: prod.splits)
next
  case (EvictSend s)
  then show ?thesis using step cl kn same
    by (intro effect.Quiet) (auto simp: quiet_session split: sent.splits if_splits)
next
  case (EvictClose s cpc)
  show ?thesis
  proof (cases "close_step logout s (w, cpc)")
    case None
    then have "close_rank cpc = 4" by (cases cpc) (auto split: if_splits simp: Let_def)
    then show ?thesis using None step cl kn same EvictClose by (intro effect.Quiet) auto
  next
    case (Some x)
    then obtain w1 pc1 where x: "close_step logout s (w, cpc) = Some (w1, pc1)" by (cases x) simp
    then have "w' = w1" "pc' = EvictClose s pc1" using step EvictClose by auto
    then show ?thesis using close_effect [OF x, of p q q'] cl kn same EvictClose by simp
  qed
qed (use step in simp_all)

lemma login_effect:
  assumes step: "login_step logout cap env p (w, pc) = Some (w', pc')"
  shows "effect p w (Login env pc) w' (Login env pc')"
proof (cases pc)
  case LoginStore
  show ?thesis
  proof (cases "hwDict w (leHall env) (env_user env)")
    case None
    then show ?thesis using step LoginStore by (auto intro: effect.Store)
  next
    case (Some t)
    then show ?thesis using step LoginStore by (intro effect.Quiet) auto
  qed
next
  case (LoginEvict j epc)
  show ?thesis
  proof (cases "evict_step logout PacketUserInstead j (env_user env) (w, epc)")
    case None
    then show ?thesis using step LoginEvict
      by (intro effect.Quiet) (auto split: evict_pc.splits option.splits)
  next
    case (Some x)
    then obtain w1 pc1 where x: "evict_step logout PacketUserInstead j (env_user env) (w, epc) = Some (w1, pc1)"
      by (cases x) simp
    then have "w' = w1" "pc' = LoginEvict j pc1" using step LoginEvict by auto
    then show ?thesis using evict_effect [OF x, of p "Login env pc" "Login env pc'"] LoginEvict by simp
  qed
next
  case LoginCount
  then show ?thesis using step by (auto intro: effect.CountUp)
next
  case LoginUnstore
  then show ?thesis using step by (auto intro: effect.Unstore)
next
  case LoginUncount
  then show ?thesis using step by (auto intro: effect.LoadUncount)
next
  case StreamBind
  then show ?thesis using step by (auto intro: effect.Bind)
next
  case (StreamClose cpc)
  then obtain pc1 where "close_step logout p (w, cpc) = Some (w', pc1)" and "pc' = StreamClose pc1"
    using step by (auto split: option.splits prod.splits)
  then show ?thesis using close_effect [of logout p w cpc w' pc1 p "Login env pc" "Login env pc'"] StreamClose
    by simp
next
  case LoginRecv
  then show ?thesis using step by (intro effect.Quiet) (auto split: option.splits if_splits)
next
  case LoginUser
  then show ?thesis using step by (intro effect.Quiet) (auto split: option.splits)
next
  case LoginLock
  then show ?thesis using step by (intro effect.Quiet) (auto split: option.splits prod.splits if_splits)
next
  case (LoginRpc j)
  then show ?thesis using step by (intro effect.Quiet) (auto split: if_splits)
next
  case LoginRelock
  then show ?thesis using step by (intro effect.Quiet) (auto split: option.splits prod.splits)
next
  case LoginCheck
  then show ?thesis using step by (intro effect.Quiet) (auto split: option.splits)
next
  case LoginLoad
  then show ?thesis using step by (intro effect.Quiet) (auto simp: quiet_session split: if_splits)
next
  case (LoginUnlock err)
  then show ?thesis using step by (intro effect.Quiet) auto
next
  case StreamChannels
  then show ?thesis using step by (intro effect.Quiet) (auto simp: quiet_session)
next
  case StreamServing
  then show ?thesis using step
    by (intro effect.Quiet) (auto simp: quiet_session split: if_splits option.splits)
next
  case StreamFlush
  then show ?thesis using step
    by (intro effect.Quiet) (auto simp: quiet_session split: received.splits)
next
  case StreamDefer
  then show ?thesis using step
    by (intro effect.Quiet) (auto simp: quiet_session split: received.splits option.splits)
next
  case StreamEnd
  then show ?thesis using step by (intro effect.Quiet) (auto simp: quiet_session)
qed (use step in simp_all)

lemma stop_effect:
  assumes step: "stop_step logout i u (w, x) = Some (w', x')"
  shows "effect p w (Stopper i u x) w' (Stopper i u x')"
proof (cases x)
  case None
  then show ?thesis using step
    by (intro effect.Quiet) (auto simp: stop_step_def split: option.splits)
next
  case (Some y)
  then obtain s pc where y: "x = Some (s, pc)" by (cases y) simp
  then obtain pc' where "close_step logout s (w, pc) = Some (w', pc')" and "x' = Some (s, pc')"
    using step by (auto simp: stop_step_def split: option.splits)
  then show ?thesis using close_effect [of logout s w pc w' pc' p "Stopper i u x" "Stopper i u x'"] y by simp
qed

lemma proc_effect:
  assumes "proc_step logout cap p w q = (w', q')"
  shows "effect p w q w' q'"
proof (cases q)
  case (Login env pc)
  then show ?thesis using assms login_effect [of logout cap env p w pc]
    by (auto simp: proc_step_def intro: stay_effect split: option.splits)
next
  case (Kick i u pc)
  show ?thesis
  proof (cases "evict_step logout PacketKick i u (w, pc)")
    case None
    then show ?thesis using assms Kick stay_effect by (simp add: proc_step_def)
  next
    case (Some x)
    then obtain w1 pc1 where x: "evict_step logout PacketKick i u (w, pc) = Some (w1, pc1)" by (cases x) simp
    then show ?thesis using assms Kick evict_effect [OF x, of p "Kick i u pc" "Kick i u pc1"]
      by (auto simp: proc_step_def)
  qed
next
  case (Stopper i u x)
  then show ?thesis using assms stop_effect [of logout i u w x]
    by (auto simp: proc_step_def intro: stay_effect split: option.splits)
qed

lemma forward_quiet: "quiet w (forward_step s w)"
  by (auto simp: forward_step_def quiet_session split: received.split)

lemma event_effect:
  assumes "event_step logout cap e w q = (w', q')"
  shows "effect (event_proc e) w q w' q'"
proof (cases e)
  case (Run p)
  then show ?thesis using assms proc_effect [of logout cap p w q] by simp
next
  case (Forward s)
  then have "q' = q" and "quiet w w'"
    using assms forward_quiet [of w s] by (auto split: hall_proc.splits login_pc.splits)
  then show ?thesis by (intro effect.Quiet) auto
next
  case (RecvErr s)
  then consider "w' = w" "q' = q"
    | env where "w' = w" "q' = Login env StreamDefer" "q = Login env StreamServing"
    | env where "w' = w" "q' = Login env StreamDefer" "q = Login env StreamFlush"
    using assms by (auto split: hall_proc.splits login_pc.splits)
  then show ?thesis
    by cases (auto intro!: effect.Quiet stay_effect)
qed

end
