(* ===== verification/Hall_Table.thy ===== *)
theory Hall_Table
  imports Hall_Session
begin

text \<open>
  The session table of the halls over every interleaving of the processes of \<open>Hall_Session\<close>: the
  invariant that each effect of a step keeps, the counter against the table, and the properties of
  the sessions that follow. The last section is a schedule of two logins that leaves a user with two
  live sessions.
\<close>

section \<open>The invariant\<close>

type_synonym procs = "nat \<Rightarrow> hall_proc"

definition inv_store :: "hall_world \<Rightarrow> procs \<Rightarrow> bool" where
  "inv_store w P \<longleftrightarrow> (\<forall>p env. stream_of (P p) = Some (env, Storing) \<longrightarrow>
     hwDict w (leHall env) (env_user env) = Some p \<and> \<not> hsCancel (hwSession w p))"

definition inv_bound :: "hall_world \<Rightarrow> procs \<Rightarrow> bool" where
  "inv_bound w P \<longleftrightarrow> (\<forall>s. hsCancel (hwSession w s) \<longrightarrow> (\<exists>env. stream_of (P s) = Some (env, Serving)))"

definition inv_live :: "hall_world \<Rightarrow> bool" where
  "inv_live w \<longleftrightarrow> (\<forall>s. hsCancel (hwSession w s) \<longrightarrow> \<not> hsClosed (hwSession w s) \<longrightarrow> listed w s)"

definition inv_close :: "hall_world \<Rightarrow> procs \<Rightarrow> bool" where
  "inv_close w P \<longleftrightarrow> (\<forall>q s r. closing q (P q) = Some (s, r) \<longrightarrow> r \<in> {1, 2, 3} \<longrightarrow>
     (r \<noteq> 3 \<longrightarrow> hsClosed (hwSession w s) \<and> (hsCancel (hwSession w s) \<longrightarrow> listed w s))
     \<and> (r \<noteq> 1 \<longrightarrow> hsCancel (hwSession w s)))"

definition inv_one :: "procs \<Rightarrow> bool" where
  "inv_one P \<longleftrightarrow> (\<forall>q q' s r r'. closing q (P q) = Some (s, r) \<longrightarrow> closing q' (P q') = Some (s, r') \<longrightarrow>
     r \<in> {1, 2} \<longrightarrow> r' \<in> {1, 2} \<longrightarrow> q = q')"

definition inv_dict :: "hall_world \<Rightarrow> procs \<Rightarrow> bool" where
  "inv_dict w P \<longleftrightarrow> (\<forall>i u s. hwDict w i u = Some s \<longrightarrow>
     hsHall (hwSession w s) = i \<and> hsUser (hwSession w s) = u
     \<and> (\<exists>env ph. stream_of (P s) = Some (env, ph) \<and> ph \<in> {Storing, Serving}))"

definition inv_knows :: "procs \<Rightarrow> bool" where
  "inv_knows P \<longleftrightarrow> (\<forall>q s. knows q (P q) = Some s \<longrightarrow>
     (\<exists>env ph. stream_of (P s) = Some (env, ph) \<and> ph \<noteq> Before))"

definition table_inv :: "hall_world \<Rightarrow> procs \<Rightarrow> bool" where
  "table_inv w P \<longleftrightarrow> inv_store w P \<and> inv_bound w P \<and> inv_live w \<and> inv_close w P \<and> inv_one P
     \<and> inv_dict w P \<and> inv_knows P"

lemma evict_closing_knows: "evict_closing pc = Some (s, r) \<Longrightarrow> evict_knows pc = Some s"
  by (cases pc) auto

lemma closing_knows: "closing p q = Some (s, r) \<Longrightarrow> knows p q = Some s"
  by (induction p q rule: closing.induct) (auto simp: evict_closing_knows)

lemma table_invD:
  assumes "table_inv w P"
  shows "stream_of (P p) = Some (env, Storing) \<Longrightarrow> hwDict w (leHall env) (env_user env) = Some p \<and> \<not> hsCancel (hwSession w p)"
    and "hsCancel (hwSession w s) \<Longrightarrow> \<exists>env. stream_of (P s) = Some (env, Serving)"
    and "hsCancel (hwSession w s) \<Longrightarrow> \<not> hsClosed (hwSession w s) \<Longrightarrow> listed w s"
    and "closing q (P q) = Some (s, r) \<Longrightarrow> r \<in> {1, 2} \<Longrightarrow> hsClosed (hwSession w s) \<and> (hsCancel (hwSession w s) \<longrightarrow> listed w s)"
    and "closing q (P q) = Some (s, r) \<Longrightarrow> r \<in> {2, 3} \<Longrightarrow> hsCancel (hwSession w s)"
    and "closing q (P q) = Some (s, r) \<Longrightarrow> closing q' (P q') = Some (s, r') \<Longrightarrow> r \<in> {1, 2} \<Longrightarrow> r' \<in> {1, 2} \<Longrightarrow> q = q'"
    and "hwDict w i u = Some s \<Longrightarrow> hsHall (hwSession w s) = i \<and> hsUser (hwSession w s) = u"
    and "hwDict w i u = Some s \<Longrightarrow> \<exists>env ph. stream_of (P s) = Some (env, ph) \<and> ph \<in> {Storing, Serving}"
    and "knows q (P q) = Some s \<Longrightarrow> \<exists>env ph. stream_of (P s) = Some (env, ph) \<and> ph \<noteq> Before"
proof -
  have I: "inv_store w P" "inv_bound w P" "inv_live w" "inv_close w P" "inv_one P" "inv_dict w P" "inv_knows P"
    using assms by (simp_all add: table_inv_def)
  show "stream_of (P p) = Some (env, Storing) \<Longrightarrow> hwDict w (leHall env) (env_user env) = Some p \<and> \<not> hsCancel (hwSession w p)"
    using I(1) unfolding inv_store_def by blast
  show "hsCancel (hwSession w s) \<Longrightarrow> \<exists>env. stream_of (P s) = Some (env, Serving)"
    using I(2) unfolding inv_bound_def by blast
  show "hsCancel (hwSession w s) \<Longrightarrow> \<not> hsClosed (hwSession w s) \<Longrightarrow> listed w s"
    using I(3) unfolding inv_live_def by blast
  show "closing q (P q) = Some (s, r) \<Longrightarrow> r \<in> {1, 2} \<Longrightarrow> hsClosed (hwSession w s) \<and> (hsCancel (hwSession w s) \<longrightarrow> listed w s)"
    using I(4) [unfolded inv_close_def, rule_format, of q s r] by auto
  show "closing q (P q) = Some (s, r) \<Longrightarrow> r \<in> {2, 3} \<Longrightarrow> hsCancel (hwSession w s)"
    using I(4) [unfolded inv_close_def, rule_format, of q s r] by auto
  show "closing q (P q) = Some (s, r) \<Longrightarrow> closing q' (P q') = Some (s, r') \<Longrightarrow> r \<in> {1, 2} \<Longrightarrow> r' \<in> {1, 2} \<Longrightarrow> q = q'"
    using I(5) unfolding inv_one_def by blast
  show "hwDict w i u = Some s \<Longrightarrow> hsHall (hwSession w s) = i \<and> hsUser (hwSession w s) = u"
    using I(6) unfolding inv_dict_def by blast
  show "hwDict w i u = Some s \<Longrightarrow> \<exists>env ph. stream_of (P s) = Some (env, ph) \<and> ph \<in> {Storing, Serving}"
    using I(6) unfolding inv_dict_def by blast
  show "knows q (P q) = Some s \<Longrightarrow> \<exists>env ph. stream_of (P s) = Some (env, ph) \<and> ph \<noteq> Before"
    using I(7) unfolding inv_knows_def by blast
qed

lemma quiet_facts:
  assumes "quiet w w'"
  shows "hwDict w' = hwDict w" and "hwCount w' = hwCount w" and "hsHall (hwSession w' s) = hsHall (hwSession w s)"
    and "hsUser (hwSession w' s) = hsUser (hwSession w s)" and "hsCancel (hwSession w' s) = hsCancel (hwSession w s)"
    and "hsClosed (hwSession w' s) = hsClosed (hwSession w s)" and "listed w' s = listed w s"
  using assms by (auto simp: quiet_def core_def listed_def)

lemma table_inv_quiet:
  assumes inv: "table_inv w P" and qt: "quiet w w'"
    and st: "stream_of q' = stream_of (P p) \<or> (\<exists>env. stream_of (P p) = Some (env, Before) \<and> stream_of q' = Some (env, Over))"
    and cl: "\<And>s r. closing p q' = Some (s, r) \<Longrightarrow> r \<in> {1, 2, 3} \<Longrightarrow>
       \<exists>r'. closing p (P p) = Some (s, r') \<and> (r = r' \<or> r' = 1 \<and> r = 2 \<and> hsCancel (hwSession w s))"
    and kn: "\<And>s. knows p q' = Some s \<Longrightarrow> knows p (P p) = Some s \<or> (\<exists>i u. hwDict w i u = Some s)
       \<or> s = p \<and> (\<exists>env. stream_of (P p) = Some (env, Serving))"
  shows "table_inv w' (P(p := q'))"
proof -
  note D = table_invD [OF inv]
  note Q = quiet_facts [OF qt]
  let ?P = "P(p := q')"
  have keep: "stream_of (?P s) = Some (env, ph)" if "stream_of (P s) = Some (env, ph)" "ph \<noteq> Before" for s env ph
    using that st by (cases "s = p") auto
  have before: "stream_of (P s) = Some (env, ph)" if "stream_of (?P s) = Some (env, ph)" "ph \<noteq> Over" for s env ph
    using that st by (cases "s = p") auto
  have clo: "\<exists>r'. closing x (P x) = Some (s, r') \<and> (r = r' \<or> r' = 1 \<and> r = 2 \<and> hsCancel (hwSession w s))"
    if "closing x (?P x) = Some (s, r)" "r \<in> {1, 2, 3}" for x s r
    using that cl by (cases "x = p") auto
  have "inv_store w' ?P"
    unfolding inv_store_def using D(1) before Q by (metis phase.distinct(9))
  moreover have "inv_bound w' ?P" unfolding inv_bound_def using D(2) keep Q by (metis phase.distinct(3))
  moreover have "inv_live w'" unfolding inv_live_def using D(3) Q by metis
  moreover have "inv_close w' ?P"
    unfolding inv_close_def
  proof (intro allI impI)
    fix x s r assume "closing x (?P x) = Some (s, r)" and r: "r \<in> {1, 2, 3}"
    then obtain r' where c: "closing x (P x) = Some (s, r')" and rr: "r = r' \<or> r' = 1 \<and> r = 2 \<and> hsCancel (hwSession w s)"
      using clo by blast
    show "(r \<noteq> 3 \<longrightarrow> hsClosed (hwSession w' s) \<and> (hsCancel (hwSession w' s) \<longrightarrow> listed w' s))
        \<and> (r \<noteq> 1 \<longrightarrow> hsCancel (hwSession w' s))"
      using D(4) [OF c] D(5) [OF c] r rr by (auto simp: Q)
  qed
  moreover have "inv_one ?P"
    unfolding inv_one_def
  proof (intro allI impI)
    fix x y s r r'
    assume a: "closing x (?P x) = Some (s, r)" "closing y (?P y) = Some (s, r')" "r \<in> {1, 2}" "r' \<in> {1, 2}"
    obtain c where "closing x (P x) = Some (s, c)" "c \<in> {1, 2}" using clo [OF a(1)] a(3) by auto
    moreover obtain d where "closing y (P y) = Some (s, d)" "d \<in> {1, 2}" using clo [OF a(2)] a(4) by auto
    ultimately show "x = y" using D(6) by blast
  qed
  moreover have "inv_dict w' ?P"
    unfolding inv_dict_def
  proof (intro allI impI)
    fix i u s assume "hwDict w' i u = Some s"
    then have d: "hwDict w i u = Some s" by (simp add: Q)
    obtain env ph where e: "stream_of (P s) = Some (env, ph)" and ph: "ph \<in> {Storing, Serving}"
      using D(8) [OF d] by blast
    have "ph \<noteq> Before" using ph by auto
    from keep [OF e this] show "hsHall (hwSession w' s) = i \<and> hsUser (hwSession w' s) = u
        \<and> (\<exists>env ph. stream_of (?P s) = Some (env, ph) \<and> ph \<in> {Storing, Serving})"
      using D(7) [OF d] ph by (auto simp: Q)
  qed
  moreover have "inv_knows ?P"
    unfolding inv_knows_def
  proof (intro allI impI)
    fix x s assume "knows x (?P x) = Some s"
    then have "knows x (P x) = Some s \<or> (\<exists>i u. hwDict w i u = Some s)
        \<or> s = p \<and> (\<exists>env. stream_of (P p) = Some (env, Serving))"
      using kn by (cases "x = p") auto
    then have "\<exists>env ph. stream_of (P s) = Some (env, ph) \<and> ph \<noteq> Before"
      using D(8,9) by (elim disjE exE conjE) (blast | force)+
    then show "\<exists>env ph. stream_of (?P s) = Some (env, ph) \<and> ph \<noteq> Before" using keep by metis
  qed
  ultimately show ?thesis by (simp add: table_inv_def)
qed

text \<open>
  The other kinds of step. \<open>table_inv_same\<close> is for those that leave every process where it is as
  far as the streams, the sessions known and the sessions listed are concerned.
\<close>

lemma same_views:
  assumes "closing p q' = c" and "stream_of q' = stream_of (P p)" and "knows p q' = knows p (P p)"
  shows "stream_of ((P(p := q')) x) = stream_of (P x)" and "knows x ((P(p := q')) x) = knows x (P x)"
    and "closing x ((P(p := q')) x) = (if x = p then c else closing x (P x))"
  using assms by simp_all

lemma table_inv_cas:
  assumes inv: "table_inv w P" and cl: "closing p (P p) = Some (s, 0)" "closing p q' = Some (s, 1)"
    and same: "stream_of q' = stream_of (P p)" "knows p q' = knows p (P p)"
    and open_s: "\<not> hsClosed (hwSession w s)"
  shows "table_inv (set_session s (hwSession w s\<lparr>hsClosed := True\<rparr>) w) (P(p := q'))"
proof -
  note D = table_invD [OF inv]
  let ?w = "set_session s (hwSession w s\<lparr>hsClosed := True\<rparr>) w"
  let ?P = "P(p := q')"
  note V = same_views [where P = P, OF cl(2) same]
  have L: "listed ?w x = listed w x" for x by (simp add: listed_def set_session_def)
  have F: "hwDict ?w = hwDict w" "hsHall (hwSession ?w x) = hsHall (hwSession w x)"
    "hsUser (hwSession ?w x) = hsUser (hwSession w x)" "hsCancel (hwSession ?w x) = hsCancel (hwSession w x)"
    "hsClosed (hwSession ?w x) \<longleftrightarrow> x = s \<or> hsClosed (hwSession w x)" for x
    by (simp_all add: set_session_def)
  have other: "x = p" if "closing x (P x) = Some (s, r)" "r \<in> {1, 2}" for x r
    using D(4) [OF that] open_s by simp
  have "inv_store ?w ?P" unfolding inv_store_def V F using D(1) by blast
  moreover have "inv_bound ?w ?P" unfolding inv_bound_def V F using D(2) by blast
  moreover have "inv_live ?w" unfolding inv_live_def L F using D(3) by blast
  moreover have "inv_close ?w ?P"
    unfolding inv_close_def V L F
  proof (intro allI impI)
    fix x t r assume c: "(if x = p then Some (s, 1) else closing x (P x)) = Some (t, r)" and r: "r \<in> {1, 2, 3}"
    show "(r \<noteq> 3 \<longrightarrow> (t = s \<or> hsClosed (hwSession w t)) \<and> (hsCancel (hwSession w t) \<longrightarrow> listed w t))
        \<and> (r \<noteq> 1 \<longrightarrow> hsCancel (hwSession w t))"
      using c r D(3) [of s] open_s D(4) [of x t r] D(5) [of x t r] by (cases "x = p") auto
  qed
  moreover have "inv_one ?P"
    unfolding inv_one_def V
  proof (intro allI impI)
    fix x y t r r'
    assume a: "(if x = p then Some (s, 1) else closing x (P x)) = Some (t, r)"
      and b: "(if y = p then Some (s, 1) else closing y (P y)) = Some (t, r')" and r: "r \<in> {1, 2}" "r' \<in> {1, 2}"
    consider "x = p" "y = p" | "x = p" "y \<noteq> p" | "x \<noteq> p" "y = p" | "x \<noteq> p" "y \<noteq> p" by blast
    then show "x = y"
    proof cases
      case 2
      then show ?thesis using a b other [of y r'] r by simp
    next
      case 3
      then show ?thesis using a b other [of x r] r by simp
    next
      case 4
      then show ?thesis using a b D(6) [of x t r y r'] r by simp
    qed simp
  qed
  moreover have "inv_dict ?w ?P" unfolding inv_dict_def V F using D(7,8) by blast
  moreover have "inv_knows ?P" unfolding inv_knows_def V using D(9) by blast
  ultimately show ?thesis by (simp add: table_inv_def)
qed

lemma table_inv_delete:
  assumes inv: "table_inv w P" and cl: "closing p (P p) = Some (s, 2)" "closing p q' = Some (s, 3)"
    and same: "stream_of q' = stream_of (P p)" "knows p q' = knows p (P p)"
  shows "table_inv (set_dict (hsHall (hwSession w s)) (hsUser (hwSession w s)) None w) (P(p := q'))"
proof -
  note D = table_invD [OF inv]
  let ?w = "set_dict (hsHall (hwSession w s)) (hsUser (hwSession w s)) None w"
  let ?P = "P(p := q')"
  note V = same_views [where P = P, OF cl(2) same]
  have cs: "hsCancel (hwSession w s)" using D(5) [OF cl(1)] by simp
  have ls: "listed w s" using D(4) [OF cl(1)] cs by simp
  have del: "hwDict ?w i u = Some x \<longleftrightarrow> hwDict w i u = Some x \<and> x \<noteq> s" for i u x
  proof (cases "i = hsHall (hwSession w s) \<and> u = hsUser (hwSession w s)")
    case True
    then show ?thesis using ls by (auto simp: set_dict_def listed_def)
  next
    case False
    then have "hwDict w i u \<noteq> Some s" using D(7) by metis
    then show ?thesis using False by (auto simp: set_dict_def)
  qed
  have F: "hwSession ?w = hwSession w" by (simp add: set_dict_def)
  have L: "listed ?w x \<longleftrightarrow> listed w x \<and> x \<noteq> s" for x by (simp add: listed_def F del)
  have other: "x = p" if "closing x (P x) = Some (s, r)" "r \<in> {1, 2}" for x r
    using D(6) [OF that(1) cl(1) that(2)] by simp
  have "inv_store ?w ?P" unfolding inv_store_def V F del using D(1) cs by blast
  moreover have "inv_bound ?w ?P" unfolding inv_bound_def V F using D(2) by blast
  moreover have "inv_live ?w" unfolding inv_live_def L F using D(3) D(4) [OF cl(1)] by auto
  moreover have "inv_close ?w ?P"
    unfolding inv_close_def V L F
  proof (intro allI impI)
    fix x t r assume c: "(if x = p then Some (s, 3) else closing x (P x)) = Some (t, r)" and r: "r \<in> {1, 2, 3}"
    show "(r \<noteq> 3 \<longrightarrow> hsClosed (hwSession w t) \<and> (hsCancel (hwSession w t) \<longrightarrow> listed w t \<and> t \<noteq> s))
        \<and> (r \<noteq> 1 \<longrightarrow> hsCancel (hwSession w t))"
    proof (cases "x = p")
      case True
      then show ?thesis using c cs by simp
    next
      case False
      then have c': "closing x (P x) = Some (t, r)" using c by simp
      show ?thesis
      proof (cases "r = 3")
        case True
        then show ?thesis using D(5) [OF c'] by simp
      next
        case 12: False
        then have r12: "r \<in> {1, 2}" using r by simp
        have "t \<noteq> s" using other [of x r] c' r12 False by blast
        then show ?thesis using D(4) [OF c' r12] D(5) [OF c'] r by auto
      qed
    qed
  qed
  moreover have "inv_one ?P"
    unfolding inv_one_def V
  proof (intro allI impI)
    fix x y t r r'
    assume a: "(if x = p then Some (s, 3) else closing x (P x)) = Some (t, r)"
      and b: "(if y = p then Some (s, 3) else closing y (P y)) = Some (t, r')" and r: "r \<in> {1, 2}" "r' \<in> {1, 2}"
    have "x \<noteq> p" "y \<noteq> p" using a b r by auto
    then show "x = y" using a b D(6) [of x t r y r'] r by simp
  qed
  moreover have "inv_dict ?w ?P" unfolding inv_dict_def V F del using D(7,8) by blast
  moreover have "inv_knows ?P" unfolding inv_knows_def V using D(9) by blast
  ultimately show ?thesis by (simp add: table_inv_def)
qed

lemma table_inv_uncount:
  assumes inv: "table_inv w P" and cl: "closing p q' = Some (s, 4)"
    and same: "stream_of q' = stream_of (P p)" "knows p q' = knows p (P p)"
  shows "table_inv (add_count i n w) (P(p := q'))"
proof -
  have "table_inv w (P(p := q'))"
    by (rule table_inv_quiet [OF inv quiet_refl]) (use cl same in auto)
  then show ?thesis
    by (simp add: table_inv_def inv_store_def inv_bound_def inv_live_def inv_close_def inv_dict_def
        listed_def add_count_def)
qed

lemma table_inv_same:
  assumes inv: "table_inv w P" and w: "hwDict w' = hwDict w" "hwSession w' = hwSession w"
    and st: "stream_of q' = stream_of (P p) \<or> (\<exists>env. stream_of (P p) = Some (env, Before) \<and> stream_of q' = Some (env, Over))"
    and cl: "closing p q' = closing p (P p)" and kn: "knows p q' = knows p (P p)"
  shows "table_inv w' (P(p := q'))"
proof -
  have "table_inv w (P(p := q'))"
    by (rule table_inv_quiet [OF inv quiet_refl st]) (use cl kn in auto)
  then show ?thesis
    using w by (simp add: table_inv_def inv_store_def inv_bound_def inv_live_def inv_close_def inv_dict_def listed_def)
qed

lemma fresh_session_fields [simp]:
  "hsHall (fresh_session env) = leHall env" "hsUser (fresh_session env) = env_user env"
  "\<not> hsCancel (fresh_session env)" "\<not> hsClosed (fresh_session env)"
  by (simp_all add: fresh_session_def)

lemma table_inv_store:
  assumes inv: "table_inv w P" and pc: "P p = Login env LoginStore"
    and none: "hwDict w (leHall env) (env_user env) = None"
  shows "table_inv (set_dict (leHall env) (env_user env) (Some p) (set_session p (fresh_session env) w))
           (P(p := Login env LoginCount))"
proof -
  note D = table_invD [OF inv]
  let ?w = "set_dict (leHall env) (env_user env) (Some p) (set_session p (fresh_session env) w)"
  let ?P = "P(p := Login env LoginCount)"
  have st: "stream_of (P p) = Some (env, Before)" by (simp add: pc)
  have kp: "knows x (P x) \<noteq> Some p" for x using D(9) [of x p] st by auto
  have cp: "closing x (P x) \<noteq> Some (p, r)" for x r using closing_knows [of x "P x" p r] kp by auto
  have dp: "hwDict w i u \<noteq> Some p" for i u using D(8) [of i u p] st by auto
  have bp: "\<not> hsCancel (hwSession w p)" using D(2) [of p] st by auto
  have dict: "hwDict ?w i u = Some x \<longleftrightarrow> hwDict w i u = Some x \<or> x = p \<and> i = leHall env \<and> u = env_user env" for i u x
    using none by (auto simp: set_dict_def set_session_def)
  have S: "hwSession ?w x = (if x = p then fresh_session env else hwSession w x)" for x
    by (simp add: set_dict_def set_session_def)
  have L: "x \<noteq> p \<Longrightarrow> listed w x \<Longrightarrow> listed ?w x" for x by (simp add: listed_def dict S)
  have kx: "closing x (?P x) = Some (t, r) \<Longrightarrow> closing x (P x) = Some (t, r) \<and> t \<noteq> p" for x t r
    using cp [of x r] by (cases "x = p") auto
  have ks: "knows x (?P x) = Some t \<Longrightarrow> knows x (P x) = Some t" for x t by (cases "x = p") auto
  have "inv_store ?w ?P"
    unfolding inv_store_def
  proof (intro allI impI)
    fix x e assume a: "stream_of (?P x) = Some (e, Storing)"
    show "hwDict ?w (leHall e) (env_user e) = Some x \<and> \<not> hsCancel (hwSession ?w x)"
    proof (cases "x = p")
      case True
      then have e: "e = env" using a by simp
      show ?thesis unfolding e True by (simp add: dict S)
    next
      case False
      then show ?thesis using a D(1) [of x e] by (simp add: dict S)
    qed
  qed
  moreover have "inv_bound ?w ?P"
    unfolding inv_bound_def
  proof (intro allI impI)
    fix x assume a: "hsCancel (hwSession ?w x)"
    then have "x \<noteq> p" by (auto simp: S)
    then show "\<exists>e. stream_of (?P x) = Some (e, Serving)" using a D(2) [of x] by (simp add: S)
  qed
  moreover have "inv_live ?w"
    unfolding inv_live_def
  proof (intro allI impI)
    fix x assume a: "hsCancel (hwSession ?w x)" "\<not> hsClosed (hwSession ?w x)"
    then have "x \<noteq> p" by (auto simp: S)
    then show "listed ?w x" using a D(3) [of x] L by (simp add: S)
  qed
  moreover have "inv_close ?w ?P"
    unfolding inv_close_def
  proof (intro allI impI)
    fix x t r assume c: "closing x (?P x) = Some (t, r)" and r: "r \<in> {1, 2, 3}"
    have c': "closing x (P x) = Some (t, r)" and t: "t \<noteq> p" using kx [OF c] by simp_all
    show "(r \<noteq> 3 \<longrightarrow> hsClosed (hwSession ?w t) \<and> (hsCancel (hwSession ?w t) \<longrightarrow> listed ?w t))
        \<and> (r \<noteq> 1 \<longrightarrow> hsCancel (hwSession ?w t))"
      using D(4) [OF c'] D(5) [OF c'] r t L [OF t] by (simp add: S) blast
  qed
  moreover have "inv_one ?P"
    unfolding inv_one_def
  proof (intro allI impI)
    fix x y t r r'
    assume a: "closing x (?P x) = Some (t, r)" "closing y (?P y) = Some (t, r')" "r \<in> {1, 2}" "r' \<in> {1, 2}"
    then show "x = y" using D(6) [of x t r y r'] kx [OF a(1)] kx [OF a(2)] by blast
  qed
  moreover have "inv_dict ?w ?P"
    unfolding inv_dict_def
  proof (intro allI impI)
    fix i u x assume "hwDict ?w i u = Some x"
    then consider "x \<noteq> p" "hwDict w i u = Some x" | "x = p" "i = leHall env" "u = env_user env"
      using dp [of i u] by (auto simp: dict)
    then show "hsHall (hwSession ?w x) = i \<and> hsUser (hwSession ?w x) = u
        \<and> (\<exists>e ph. stream_of (?P x) = Some (e, ph) \<and> ph \<in> {Storing, Serving})"
      by cases (use D(7) [of i u x] D(8) [of i u x] in \<open>simp_all add: S\<close>)
  qed
  moreover have "inv_knows ?P"
    unfolding inv_knows_def
  proof (intro allI impI)
    fix x t assume "knows x (?P x) = Some t"
    then have k: "knows x (P x) = Some t" by (rule ks)
    then have "t \<noteq> p" using kp by auto
    then show "\<exists>e ph. stream_of (?P t) = Some (e, ph) \<and> ph \<noteq> Before" using D(9) [OF k] by simp
  qed
  ultimately show ?thesis by (simp add: table_inv_def)
qed

lemma table_inv_unstore:
  assumes inv: "table_inv w P" and pc: "P p = Login env LoginUnstore"
  shows "table_inv (set_dict (leHall env) (env_user env) None w) (P(p := Login env LoginUncount))"
proof -
  note D = table_invD [OF inv]
  let ?w = "set_dict (leHall env) (env_user env) None w"
  let ?P = "P(p := Login env LoginUncount)"
  have st: "stream_of (P p) = Some (env, Storing)" by (simp add: pc)
  have own: "hwDict w (leHall env) (env_user env) = Some p" and nc: "\<not> hsCancel (hwSession w p)"
    using D(1) [OF st] by simp_all
  have dict: "hwDict ?w i u = Some x \<longleftrightarrow> hwDict w i u = Some x \<and> x \<noteq> p" for i u x
  proof (cases "i = leHall env \<and> u = env_user env")
    case True
    then show ?thesis using own by (auto simp: set_dict_def)
  next
    case False
    have "hwDict w i u \<noteq> Some p" using False D(7) [of i u p] D(7) [OF own] by auto
    then show ?thesis using False by (auto simp: set_dict_def)
  qed
  have S: "hwSession ?w = hwSession w" by (simp add: set_dict_def)
  have L: "x \<noteq> p \<Longrightarrow> listed w x \<Longrightarrow> listed ?w x" for x by (simp add: listed_def dict S)
  have cx: "closing x (?P x) = Some (t, r) \<Longrightarrow> closing x (P x) = Some (t, r)" for x t r
    by (cases "x = p") auto
  have ks: "knows x (?P x) = Some t \<Longrightarrow> knows x (P x) = Some t" for x t by (cases "x = p") auto
  have other: "stream_of (P x) = Some (e, ph) \<Longrightarrow> x \<noteq> p \<Longrightarrow> stream_of (?P x) = Some (e, ph)" for x e ph by simp
  have "inv_store ?w ?P"
    unfolding inv_store_def
  proof (intro allI impI)
    fix x e assume a: "stream_of (?P x) = Some (e, Storing)"
    then have "x \<noteq> p" by auto
    then show "hwDict ?w (leHall e) (env_user e) = Some x \<and> \<not> hsCancel (hwSession ?w x)"
      using a D(1) [of x e] by (simp add: dict S)
  qed
  moreover have "inv_bound ?w ?P"
    unfolding inv_bound_def S
  proof (intro allI impI)
    fix x assume a: "hsCancel (hwSession w x)"
    then have "x \<noteq> p" using nc by auto
    then show "\<exists>e. stream_of (?P x) = Some (e, Serving)" using a D(2) [of x] by simp
  qed
  moreover have "inv_live ?w"
    unfolding inv_live_def S
  proof (intro allI impI)
    fix x assume a: "hsCancel (hwSession w x)" "\<not> hsClosed (hwSession w x)"
    then have "x \<noteq> p" using nc by auto
    then show "listed ?w x" using a D(3) [of x] L by simp
  qed
  moreover have "inv_close ?w ?P"
    unfolding inv_close_def S
  proof (intro allI impI)
    fix x t r assume c: "closing x (?P x) = Some (t, r)" and r: "r \<in> {1, 2, 3}"
    note c' = cx [OF c]
    show "(r \<noteq> 3 \<longrightarrow> hsClosed (hwSession w t) \<and> (hsCancel (hwSession w t) \<longrightarrow> listed ?w t))
        \<and> (r \<noteq> 1 \<longrightarrow> hsCancel (hwSession w t))"
    proof (cases "t = p")
      case True
      then show ?thesis using D(4) [OF c'] D(5) [OF c'] r nc by auto
    next
      case False
      then show ?thesis using D(4) [OF c'] D(5) [OF c'] r L [OF False] by auto
    qed
  qed
  moreover have "inv_one ?P"
    unfolding inv_one_def
  proof (intro allI impI)
    fix x y t r r'
    assume a: "closing x (?P x) = Some (t, r)" "closing y (?P y) = Some (t, r')" "r \<in> {1, 2}" "r' \<in> {1, 2}"
    show "x = y" using D(6) [OF cx [OF a(1)] cx [OF a(2)]] a(3,4) by blast
  qed
  moreover have "inv_dict ?w ?P"
    unfolding inv_dict_def S
  proof (intro allI impI)
    fix i u x assume "hwDict ?w i u = Some x"
    then show "hsHall (hwSession w x) = i \<and> hsUser (hwSession w x) = u
        \<and> (\<exists>e ph. stream_of (?P x) = Some (e, ph) \<and> ph \<in> {Storing, Serving})"
      using D(7) [of i u x] D(8) [of i u x] by (simp add: dict)
  qed
  moreover have "inv_knows ?P"
    unfolding inv_knows_def
  proof (intro allI impI)
    fix x t assume "knows x (?P x) = Some t"
    then show "\<exists>e ph. stream_of (?P t) = Some (e, ph) \<and> ph \<noteq> Before" using D(9) [OF ks] by auto
  qed
  ultimately show ?thesis by (simp add: table_inv_def)
qed

lemma table_inv_bind:
  assumes inv: "table_inv w P" and pc: "P p = Login env StreamBind"
  shows "table_inv (set_session p (hwSession w p\<lparr>hsCancel := True\<rparr>) w) (P(p := Login env StreamServing))"
proof -
  note D = table_invD [OF inv]
  let ?w = "set_session p (hwSession w p\<lparr>hsCancel := True\<rparr>) w"
  let ?P = "P(p := Login env StreamServing)"
  have st: "stream_of (P p) = Some (env, Storing)" by (simp add: pc)
  have own: "hwDict w (leHall env) (env_user env) = Some p" and nc: "\<not> hsCancel (hwSession w p)"
    using D(1) [OF st] by simp_all
  have lp: "listed w p" using own D(7) [OF own] by (simp add: listed_def)
  have L: "listed ?w x = listed w x" for x by (simp add: listed_def set_session_def)
  have F: "hwDict ?w = hwDict w" "hsHall (hwSession ?w x) = hsHall (hwSession w x)"
    "hsUser (hwSession ?w x) = hsUser (hwSession w x)" "hsClosed (hwSession ?w x) = hsClosed (hwSession w x)"
    "hsCancel (hwSession ?w x) \<longleftrightarrow> x = p \<or> hsCancel (hwSession w x)" for x
    by (simp_all add: set_session_def)
  have cx: "closing x (?P x) = closing x (P x)" for x by (simp add: pc)
  have kx: "knows x (?P x) = knows x (P x)" for x by (simp add: pc)
  have sx: "x \<noteq> p \<Longrightarrow> stream_of (?P x) = stream_of (P x)" for x by simp
  have "inv_store ?w ?P"
    unfolding inv_store_def
  proof (intro allI impI)
    fix x e assume a: "stream_of (?P x) = Some (e, Storing)"
    then have "x \<noteq> p" by auto
    then show "hwDict ?w (leHall e) (env_user e) = Some x \<and> \<not> hsCancel (hwSession ?w x)"
      using a D(1) [of x e] by (simp add: F)
  qed
  moreover have "inv_bound ?w ?P"
    unfolding inv_bound_def F
  proof (intro allI impI)
    fix x assume a: "x = p \<or> hsCancel (hwSession w x)"
    then show "\<exists>e. stream_of (?P x) = Some (e, Serving)" using D(2) [of x] by (cases "x = p") auto
  qed
  moreover have "inv_live ?w"
    unfolding inv_live_def F L
  proof (intro allI impI)
    fix x assume "x = p \<or> hsCancel (hwSession w x)" "\<not> hsClosed (hwSession w x)"
    then show "listed w x" using D(3) [of x] lp by (cases "x = p") auto
  qed
  moreover have "inv_close ?w ?P"
    unfolding inv_close_def F L cx
  proof (intro allI impI)
    fix x t r assume c: "closing x (P x) = Some (t, r)" and r: "r \<in> {1, 2, 3}"
    show "(r \<noteq> 3 \<longrightarrow> hsClosed (hwSession w t) \<and> (t = p \<or> hsCancel (hwSession w t) \<longrightarrow> listed w t))
        \<and> (r \<noteq> 1 \<longrightarrow> t = p \<or> hsCancel (hwSession w t))"
      using D(4) [OF c] D(5) [OF c] r lp by auto
  qed
  moreover have "inv_one ?P"
    unfolding inv_one_def cx using D(6) by blast
  moreover have "inv_dict ?w ?P"
    unfolding inv_dict_def F
  proof (intro allI impI)
    fix i u x assume d: "hwDict w i u = Some x"
    show "hsHall (hwSession w x) = i \<and> hsUser (hwSession w x) = u
        \<and> (\<exists>e ph. stream_of (?P x) = Some (e, ph) \<and> ph \<in> {Storing, Serving})"
      using D(7) [OF d] D(8) [OF d] by (cases "x = p") simp_all
  qed
  moreover have "inv_knows ?P"
    unfolding inv_knows_def kx
  proof (intro allI impI)
    fix x t assume k: "knows x (P x) = Some t"
    show "\<exists>e ph. stream_of (?P t) = Some (e, ph) \<and> ph \<noteq> Before"
      using D(9) [OF k] by (cases "t = p") auto
  qed
  ultimately show ?thesis by (simp add: table_inv_def)
qed

text \<open>Every effect keeps the invariant.\<close>

lemma table_inv_effect:
  assumes "effect p w (P p) w' q'" and inv: "table_inv w P"
  shows "table_inv w' (P(p := q'))"
  using assms(1)
proof cases
  case Quiet
  show ?thesis by (rule table_inv_quiet [OF inv Quiet(1,2)]) (use Quiet(3,5) in blast)+
next
  case (Cas s)
  show ?thesis unfolding Cas(8) by (rule table_inv_cas [OF inv Cas(1,2,3,4,7)])
next
  case (Delete s)
  show ?thesis unfolding Delete(7) by (rule table_inv_delete [OF inv Delete(1,2,3,4)])
next
  case (Uncount s)
  show ?thesis unfolding Uncount(7) by (rule table_inv_uncount [OF inv Uncount(2,3,4)])
next
  case (Store env)
  show ?thesis unfolding Store(1,2) using table_inv_store [OF inv Store(3,4)] by simp
next
  case (CountUp env)
  show ?thesis unfolding CountUp(1,2)
    by (rule table_inv_same [OF inv]) (simp_all add: add_count_def CountUp(3))
next
  case (Unstore env)
  show ?thesis unfolding Unstore(1,2) using table_inv_unstore [OF inv Unstore(3)] by simp
next
  case (LoadUncount env)
  show ?thesis unfolding LoadUncount(1,2)
    by (rule table_inv_same [OF inv]) (simp_all add: add_count_def LoadUncount(3))
next
  case (Bind env)
  show ?thesis unfolding Bind(1,2) using table_inv_bind [OF inv Bind(3)] by simp
qed

lemma table_inv_initial:
  assumes "hall_init y"
  shows "table_inv (sysWorld y) (sysProc y)"
proof -
  have w: "sysWorld y = initial_world" and P: "starting (sysProc y p)" for p
    using assms by (simp_all add: hall_init_def)
  have st: "stream_of (sysProc y p) = Some (env, ph) \<Longrightarrow> ph = Before" for p env ph
    using P [of p] by (cases "sysProc y p") auto
  have kn: "knows p (sysProc y p) = None" for p
    using P [of p] by (cases "sysProc y p") auto
  have cl: "closing p (sysProc y p) = None" for p
    using P [of p] by (cases "sysProc y p") auto
  show ?thesis
    using st kn cl
    by (auto simp: table_inv_def inv_store_def inv_bound_def inv_live_def inv_close_def inv_one_def
        inv_dict_def inv_knows_def w initial_world_def no_session_def)
qed

section \<open>The counter against the table\<close>

text \<open>
  The table and the counter are two accesses: \<open>pending\<close> is what process \<open>p\<close> has still to do to the
  counter of hall \<open>i\<close>, \<open>-1\<close> for a session stored and not counted, \<open>1\<close> for one removed.
\<close>

definition pending :: "hall_world \<Rightarrow> nat \<Rightarrow> hall_proc \<Rightarrow> hall \<Rightarrow> int" where
  "pending w p q i =
     (if counts_up q = Some i then - 1 else 0) + (if counts_down q = Some i then 1 else 0)
     + (case closing p q of
          Some (s, r) \<Rightarrow> if r = 3 \<and> hsHall (hwSession w s) = i then 1 else 0
        | None \<Rightarrow> 0)"

definition count_inv :: "hall_world \<Rightarrow> procs \<Rightarrow> bool" where
  "count_inv w P \<longleftrightarrow> (\<forall>i. finite (dom (hwDict w i)) \<and>
     (\<exists>A. finite A \<and> (\<forall>p. p \<notin> A \<longrightarrow> pending w p (P p) i = 0)
        \<and> hwCount w i = int (card (dom (hwDict w i))) + (\<Sum>p\<in>A. pending w p (P p) i)))"

lemma count_inv_change:
  assumes inv: "count_inv w P" and fin: "\<And>i. finite (dom (hwDict w' i))"
    and rest: "\<And>x i. x \<noteq> p \<Longrightarrow> pending w' x (P x) i = pending w x (P x) i"
    and diff: "\<And>i. hwCount w' i - int (card (dom (hwDict w' i))) - pending w' p q' i
       = hwCount w i - int (card (dom (hwDict w i))) - pending w p (P p) i"
  shows "count_inv w' (P(p := q'))"
  unfolding count_inv_def
proof (intro allI conjI fin)
  fix i
  obtain A where A: "finite A" "\<And>x. x \<notin> A \<Longrightarrow> pending w x (P x) i = 0"
    and n: "hwCount w i = int (card (dom (hwDict w i))) + (\<Sum>x\<in>A. pending w x (P x) i)"
    using inv unfolding count_inv_def by metis
  let ?f = "\<lambda>x. pending w x (P x) i" and ?g = "\<lambda>x. pending w' x ((P(p := q')) x) i"
  have "sum ?f A = sum ?f (insert p A)"
    by (rule sum.mono_neutral_left) (use A in auto)
  also have "\<dots> = ?f p + sum ?f (A - {p})" using A(1) by (simp add: sum.insert_remove)
  finally have f: "sum ?f A = ?f p + sum ?f (A - {p})" .
  have g: "sum ?g (insert p A) = ?g p + sum ?g (A - {p})" using A(1) by (simp add: sum.insert_remove)
  have eq: "sum ?g (A - {p}) = sum ?f (A - {p})" by (rule sum.cong) (auto simp: rest)
  show "\<exists>A. finite A \<and> (\<forall>x. x \<notin> A \<longrightarrow> ?g x = 0) \<and>
      hwCount w' i = int (card (dom (hwDict w' i))) + (\<Sum>x\<in>A. ?g x)"
  proof (intro exI [of _ "insert p A"] conjI allI impI)
    show "finite (insert p A)" using A(1) by simp
    show "?g x = 0" if "x \<notin> insert p A" for x using that A(2) [of x] by (simp add: rest)
    show "hwCount w' i = int (card (dom (hwDict w' i))) + (\<Sum>x\<in>insert p A. ?g x)"
      using diff [of i] n f g eq by simp
  qed
qed

lemma count_inv_finite: "count_inv w P \<Longrightarrow> finite (dom (hwDict w i))"
  by (simp add: count_inv_def)

lemma pending_hall:
  assumes "\<And>s. hsHall (hwSession w' s) = hsHall (hwSession w s)"
  shows "pending w' x q i = pending w x q i"
  by (auto simp: pending_def assms split: option.split)

lemma card_dom_delete:
  assumes "finite (dom m)" and "m u = Some s"
  shows "int (card (dom (m(u := None)))) = int (card (dom m)) - 1"
proof -
  have d: "dom (m(u := None)) = dom m - {u}" by auto
  have u: "u \<in> dom m" using assms(2) by auto
  have "card (dom m) > 0" using assms(1) u card_gt_0_iff by blast
  then show ?thesis using card_Diff_singleton [OF u] unfolding d by simp
qed

lemma card_dom_insert:
  assumes "finite (dom m)" and "m u = None"
  shows "int (card (dom (m(u \<mapsto> s)))) = int (card (dom m)) + 1"
  using assms by (simp add: domIff)

lemma count_inv_effect:
  assumes "effect p w (P p) w' q'" and table: "table_inv w P" and inv: "count_inv w P"
  shows "count_inv w' (P(p := q'))"
  using assms(1)
proof cases
  case Quiet
  note Q = quiet_facts [OF Quiet(1)]
  have same: "closing p q' = Some (s, 3) \<longleftrightarrow> closing p (P p) = Some (s, 3)" for s
    using Quiet(3) [of s 3] Quiet(4) [of s] by auto
  have pend: "pending w p q' i = pending w p (P p) i" for i
  proof -
    have "(case closing p q' of Some (s, r) \<Rightarrow> if r = 3 \<and> hsHall (hwSession w s) = i then 1 else 0 | None \<Rightarrow> (0::int))
        = (if \<exists>s. closing p q' = Some (s, 3) \<and> hsHall (hwSession w s) = i then 1 else 0)" for q'
      by (auto split: option.splits)
    then show ?thesis using same Quiet(6,7) by (simp add: pending_def)
  qed
  show ?thesis
    by (rule count_inv_change [OF inv]) (use Q pend count_inv_finite [OF inv] in \<open>simp_all add: pending_hall [of w' w]\<close>)
next
  case (Cas s)
  let ?w = "set_session s (hwSession w s\<lparr>hsClosed := True\<rparr>) w"
  have "pending ?w x q i = pending w x q i" for x q i
    by (rule pending_hall) (simp add: set_session_def)
  moreover have "pending w p q' i = pending w p (P p) i" for i using Cas(1,2,5,6) by (simp add: pending_def)
  ultimately show ?thesis unfolding Cas(8)
    by (intro count_inv_change [OF inv]) (use count_inv_finite [OF inv] in \<open>simp_all add: set_session_def\<close>)
next
  case (Delete s)
  let ?i = "hsHall (hwSession w s)" and ?u = "hsUser (hwSession w s)"
  let ?w = "set_dict ?i ?u None w"
  have pw: "pending ?w x q i = pending w x q i" for x q i
    by (rule pending_hall) (simp add: set_dict_def)
  have pp: "pending w p q' i = pending w p (P p) i + (if i = ?i then 1 else 0)" for i
    using Delete(1,2,5,6) by (simp add: pending_def)
  have "hwDict w ?i ?u = Some s"
    using table_invD(4,5) [OF table Delete(1)] by (simp add: listed_def)
  from card_dom_delete [OF count_inv_finite [OF inv] this]
  have c: "int (card (dom (hwDict ?w i))) = int (card (dom (hwDict w i))) - (if i = ?i then 1 else 0)" for i
    by (simp add: set_dict_def)
  have "finite (dom (hwDict ?w i))" for i
    using count_inv_finite [OF inv] by (simp add: set_dict_def)
  moreover have "hwCount ?w = hwCount w" by (simp add: set_dict_def)
  ultimately show ?thesis unfolding Delete(7)
    by (intro count_inv_change [OF inv]) (simp_all add: pw pp c)
next
  case (Uncount s)
  let ?w = "add_count (hsHall (hwSession w s)) (- 1) w"
  have pw: "pending ?w x q i = pending w x q i" for x q i
    by (rule pending_hall) (simp add: add_count_def)
  have "pending w p q' i = pending w p (P p) i - (if i = hsHall (hwSession w s) then 1 else 0)" for i
    using Uncount(1,2,5,6) by (simp add: pending_def)
  then show ?thesis unfolding Uncount(7)
    by (intro count_inv_change [OF inv]) (use count_inv_finite [OF inv] in \<open>simp_all add: pw\<close>, simp_all add: add_count_def)
next
  case (Store env)
  let ?w = "set_dict (leHall env) (env_user env) (Some p) (set_session p (fresh_session env) w)"
  have st: "stream_of (P p) = Some (env, Before)" by (simp add: Store(3))
  have cp: "closing x (P x) \<noteq> Some (p, r)" for x r
    using table_invD(9) [OF table closing_knows [of x "P x" p r]] st by auto
  have S: "hwSession ?w x = (if x = p then fresh_session env else hwSession w x)" for x
    by (simp add: set_dict_def set_session_def)
  have pw: "pending ?w x (P x) i = pending w x (P x) i" for x i
    using cp [of x] by (auto simp: pending_def S split: option.split)
  have pp: "pending ?w p (Login env LoginCount) i = pending w p (P p) i - (if i = leHall env then 1 else 0)" for i
    by (simp add: pending_def Store(3))
  have c: "int (card (dom (hwDict ?w i))) = int (card (dom (hwDict w i))) + (if i = leHall env then 1 else 0)" for i
    using card_dom_insert [OF count_inv_finite [OF inv] Store(4)] by (simp add: set_dict_def set_session_def)
  have "finite (dom (hwDict ?w i))" for i
    using count_inv_finite [OF inv] by (simp add: set_dict_def set_session_def)
  moreover have "hwCount ?w = hwCount w" by (simp add: set_dict_def set_session_def)
  ultimately show ?thesis unfolding Store(1,2)
    by (intro count_inv_change [OF inv]) (simp_all add: pw pp c)
next
  case (CountUp env)
  let ?w = "add_count (leHall env) 1 w"
  have pw: "pending ?w x q i = pending w x q i" for x q i
    by (rule pending_hall) (simp add: add_count_def)
  have "pending w p (Login env LoginLoad) i = pending w p (P p) i + (if i = leHall env then 1 else 0)" for i
    by (simp add: pending_def CountUp(3))
  then show ?thesis unfolding CountUp(1,2)
    by (intro count_inv_change [OF inv]) (use count_inv_finite [OF inv] in \<open>simp_all add: pw\<close>, simp_all add: add_count_def)
next
  case (Unstore env)
  let ?w = "set_dict (leHall env) (env_user env) None w"
  have pw: "pending ?w x q i = pending w x q i" for x q i
    by (rule pending_hall) (simp add: set_dict_def)
  have pp: "pending w p (Login env LoginUncount) i = pending w p (P p) i + (if i = leHall env then 1 else 0)" for i
    by (simp add: pending_def Unstore(3))
  have "hwDict w (leHall env) (env_user env) = Some p" using table_invD(1) [OF table] by (simp add: Unstore(3))
  from card_dom_delete [OF count_inv_finite [OF inv] this]
  have c: "int (card (dom (hwDict ?w i))) = int (card (dom (hwDict w i))) - (if i = leHall env then 1 else 0)" for i
    by (simp add: set_dict_def)
  have "finite (dom (hwDict ?w i))" for i
    using count_inv_finite [OF inv] by (simp add: set_dict_def)
  moreover have "hwCount ?w = hwCount w" by (simp add: set_dict_def)
  ultimately show ?thesis unfolding Unstore(1,2)
    by (intro count_inv_change [OF inv]) (simp_all add: pw pp c)
next
  case (LoadUncount env)
  let ?w = "add_count (leHall env) (- 1) w"
  have pw: "pending ?w x q i = pending w x q i" for x q i
    by (rule pending_hall) (simp add: add_count_def)
  have "pending w p (Login env (LoginUnlock ErrLoad)) i = pending w p (P p) i - (if i = leHall env then 1 else 0)" for i
    by (simp add: pending_def LoadUncount(3))
  then show ?thesis unfolding LoadUncount(1,2)
    by (intro count_inv_change [OF inv]) (use count_inv_finite [OF inv] in \<open>simp_all add: pw\<close>, simp_all add: add_count_def)
next
  case (Bind env)
  let ?w = "set_session p (hwSession w p\<lparr>hsCancel := True\<rparr>) w"
  have pw: "pending ?w x q i = pending w x q i" for x q i
    by (rule pending_hall) (simp add: set_session_def)
  have "pending w p (Login env StreamServing) i = pending w p (P p) i" for i
    by (simp add: pending_def Bind(3))
  then show ?thesis unfolding Bind(1,2)
    by (intro count_inv_change [OF inv]) (use count_inv_finite [OF inv] in \<open>simp_all add: pw\<close>, simp_all add: set_session_def)
qed

section \<open>What holds over every schedule\<close>

definition hall_inv :: "hall_sys \<Rightarrow> bool" where
  "hall_inv y \<longleftrightarrow> table_inv (sysWorld y) (sysProc y) \<and> count_inv (sysWorld y) (sysProc y)"

lemma count_inv_initial:
  assumes "hall_init y"
  shows "count_inv (sysWorld y) (sysProc y)"
proof -
  have w: "sysWorld y = initial_world" and P: "starting (sysProc y p)" for p
    using assms by (simp_all add: hall_init_def)
  have p0: "pending (sysWorld y) p (sysProc y p) i = 0" for p i
    using P [of p] by (cases "sysProc y p") (auto simp: pending_def)
  show ?thesis
    unfolding count_inv_def using p0 by (auto simp: w initial_world_def intro: exI [of _ "{}"])
qed

interpretation hall: step_system hall_init "hall_step logout cap" hall_inv for logout cap
proof
  show "hall_init y \<Longrightarrow> hall_inv y" for y
    by (simp add: hall_inv_def table_inv_initial count_inv_initial)
  show "hall_inv (hall_step logout cap y l)" if inv: "hall_inv y" for y l
  proof -
    obtain w' q' where st: "event_step logout cap l (sysWorld y) (sysProc y (event_proc l)) = (w', q')" by force
    note e = event_effect [OF st]
    show ?thesis
      using inv table_inv_effect [where P = "sysProc y", OF e] count_inv_effect [where P = "sysProc y", OF e]
      by (simp add: hall_inv_def hall_step_def st)
  qed
qed

lemma hall_run_inv:
  assumes "hall_init y"
  shows "table_inv (sysWorld (hall_run logout cap y ps)) (sysProc (hall_run logout cap y ps))"
    and "count_inv (sysWorld (hall_run logout cap y ps)) (sysProc (hall_run logout cap y ps))"
  using hall.run_inv [OF assms, of logout cap ps] by (simp_all add: hall_inv_def hall_run_def)

lemma hall_run_other:
  "p \<notin> event_proc ` set ps \<Longrightarrow> sysProc (hall_run logout cap y ps) p = sysProc y p"
  by (induction ps arbitrary: y) (auto simp: hall_run_def hall_step_def Let_def split: prod.split)

text \<open>A session is live from the setting of \<open>clientCancelFunc\<close> until \<open>isClosed\<close>.\<close>

definition live :: "hall_world \<Rightarrow> sid \<Rightarrow> bool" where
  "live w s \<longleftrightarrow> hsCancel (hwSession w s) \<and> \<not> hsClosed (hwSession w s)"

definition two_logins :: "nat \<Rightarrow> hall_proc" where
  "two_logins p =
     (if p < 2 then Login \<lparr>leHall = p, leMember = Some ''m'', leUser = Some ''u'', leKnown = True, leRpc = True, leLoads = True\<rparr> LoginRecv
      else Stopper p [] None)"

definition two_logins_schedule :: "hall_event list" where
  "two_logins_schedule = map Run (replicate 3 0 @ replicate 14 1 @ replicate 6 0)"

definition two_logins_end :: hall_sys where
  "two_logins_end =
     hall_run (\<lambda>s. False) 4 \<lparr>sysWorld = initial_world, sysProc = two_logins\<rparr> two_logins_schedule"

lemma two_logins_init: "hall_init \<lparr>sysWorld = initial_world, sysProc = two_logins\<rparr>"
  by (simp add: hall_init_def two_logins_def)

lemma two_logins_live:
  "live (sysWorld two_logins_end) 0 \<and> live (sysWorld two_logins_end) 1"
  by code_simp

lemma two_logins_running: "sysProc two_logins_end 0 = Login (the (map_option fst (stream_of (two_logins 0)))) StreamServing
    \<and> sysProc two_logins_end 1 = Login (the (map_option fst (stream_of (two_logins 1)))) StreamServing"
  by code_simp

lemma two_logins_idle: "p \<ge> 2 \<Longrightarrow> sysProc two_logins_end p = Stopper p [] None"
  unfolding two_logins_end_def
  by (subst hall_run_other) (simp_all add: two_logins_schedule_def two_logins_def)

text \<open>
  C2. Over every interleaving of logins, evictions, stops and closings, every session that is live
  (its stream is served and \<open>Close\<close> was not called) is the one the table of its hall has for its
  user; so a hall never has two live sessions of one user.
\<close>

theorem live_session_listed:
  assumes "hall_init y"
  shows "\<forall>s. live (sysWorld (hall_run logout cap y ps)) s \<longrightarrow>
    (let w = sysWorld (hall_run logout cap y ps); x = hwSession w s in
       hwDict w (hsHall x) (hsUser x) = Some s \<and>
       (\<forall>t. live w t \<and> hsHall (hwSession w t) = hsHall x \<and> hsUser (hwSession w t) = hsUser x \<longrightarrow> t = s))"
  using table_invD(3) [OF hall_run_inv(1) [OF assms, of logout cap ps]]
  by (simp add: live_def listed_def Let_def) (metis option.inject)

theorem live_session_listed_witness:
  "hwDict (sysWorld two_logins_end) (hsHall (hwSession (sysWorld two_logins_end) 1))
     (hsUser (hwSession (sysWorld two_logins_end) 1)) = Some 1"
  using live_session_listed [OF two_logins_init, of "\<lambda>s. False" 4 two_logins_schedule]
    two_logins_live
  by (simp add: two_logins_end_def Let_def)

text \<open>
  A session is closed once and takes no other session with it: the process that is to remove a
  session from the table finds the table's entry of that hall and user to be that session, and is
  the only process to close it.
\<close>

lemma close_removes_own_session:
  assumes "hall_init y" and "closing q (sysProc (hall_run logout cap y ps) q) = Some (s, 2)"
  shows "let z = hall_run logout cap y ps; x = hwSession (sysWorld z) s in
    hwDict (sysWorld z) (hsHall x) (hsUser x) = Some s \<and> hsClosed x \<and>
    (\<forall>q' r. closing q' (sysProc z q') = Some (s, r) \<and> (r = 1 \<or> r = 2) \<longrightarrow> q' = q)"
proof -
  note D = table_invD [OF hall_run_inv(1) [OF assms(1), of logout cap ps]]
  have one: "q' = q" if "closing q' (sysProc (hall_run logout cap y ps) q') = Some (s, r)" "r = 1 \<or> r = 2" for q' r
    by (rule D(6) [OF that(1) assms(2)]) (use that(2) in auto)
  show ?thesis
    using D(4) [OF assms(2)] D(5) [OF assms(2)] one by (simp add: listed_def Let_def) blast
qed

text \<open>
  The counter a hall advertises is the number of the sessions in its table, whenever no process
  is between storing or removing a session and the counter, over every schedule.
\<close>

lemma session_count_is_table_size:
  assumes "hall_init y" and "\<forall>p. pending (sysWorld (hall_run logout cap y ps)) p (sysProc (hall_run logout cap y ps) p) i = 0"
  shows "let w = sysWorld (hall_run logout cap y ps) in
    finite (dom (hwDict w i)) \<and> hwCount w i = int (card (dom (hwDict w i)))"
proof -
  let ?z = "hall_run logout cap y ps"
  obtain A where "hwCount (sysWorld ?z) i = int (card (dom (hwDict (sysWorld ?z) i)))
      + (\<Sum>p\<in>A. pending (sysWorld ?z) p (sysProc ?z p) i)" and "finite (dom (hwDict (sysWorld ?z) i))"
    using hall_run_inv(2) [OF assms(1), of logout cap ps] unfolding count_inv_def by metis
  then show ?thesis using assms(2) by (simp add: Let_def)
qed

lemma session_count_is_table_size_witness:
  "hwCount (sysWorld two_logins_end) 1 = int (card (dom (hwDict (sysWorld two_logins_end) 1)))"
proof -
  have "pending (sysWorld two_logins_end) p (sysProc two_logins_end p) 1 = 0" for p
  proof (cases "p < 2")
    case True
    then have "p = 0 \<or> p = 1" by auto
    then show ?thesis using two_logins_running by (auto simp: pending_def)
  next
    case False
    then show ?thesis using two_logins_idle [of p] by (simp add: pending_def)
  qed
  then show ?thesis
    using session_count_is_table_size [OF two_logins_init, of "\<lambda>s. False" 4 two_logins_schedule 1]
    by (simp add: two_logins_end_def Let_def)
qed

text \<open>The first login is closed by a kick: the schedule of the witness.\<close>

definition kicked :: "nat \<Rightarrow> hall_proc" where
  "kicked p = (if p = 0 then two_logins 0 else if p = 1 then Kick 0 ''u'' EvictFind else Stopper p [] None)"

definition kicked_schedule :: "hall_event list" where
  "kicked_schedule = map Run (replicate 9 0 @ replicate 7 1)"

lemma kicked_closing:
  "closing 1 (sysProc (hall_run (\<lambda>s. False) 4 \<lparr>sysWorld = initial_world, sysProc = kicked\<rparr> kicked_schedule) 1)
     = Some (0, 2)"
  by code_simp

lemma close_removes_own_session_witness:
  "hwDict (sysWorld (hall_run (\<lambda>s. False) 4 \<lparr>sysWorld = initial_world, sysProc = kicked\<rparr> kicked_schedule)) 0 ''u''
     = Some 0"
proof -
  let ?z = "hall_run (\<lambda>s. False) 4 \<lparr>sysWorld = initial_world, sysProc = kicked\<rparr> kicked_schedule"
  have "hall_init \<lparr>sysWorld = initial_world, sysProc = kicked\<rparr>"
    by (simp add: hall_init_def kicked_def two_logins_def)
  moreover have "hsHall (hwSession (sysWorld ?z) 0) = 0 \<and> hsUser (hwSession (sysWorld ?z) 0) = ''u''"
    by code_simp
  ultimately show ?thesis
    using close_removes_own_session [OF _ kicked_closing] by (simp add: Let_def)
qed

text \<open>
  The lock of a user does not keep the user's session to one hall: a user who logs in at two
  halls can end with a live session on both. The first login holds the lock and is not yet in the
  table when the second asks its hall to give the user up; the hall, finding no session, unlocks the
  user, and the first login goes on without its lock.
\<close>

lemma two_logins_two_halls:
  "let z = hall_run (\<lambda>s. False) 4 \<lparr>sysWorld = initial_world, sysProc = two_logins\<rparr> two_logins_schedule;
       w = sysWorld z
   in live w 0 \<and> live w 1 \<and> hsUser (hwSession w 0) = hsUser (hwSession w 1)
      \<and> hsHall (hwSession w 0) \<noteq> hsHall (hwSession w 1)"
  by code_simp

section \<open>A session evicted before its stream is bound\<close>

text \<open>
  \<open>leaked\<close>: the session is closed, in the table, and nobody is closing it. No step ends that.
\<close>

definition leaked :: "hall_world \<Rightarrow> procs \<Rightarrow> sid \<Rightarrow> bool" where
  "leaked w P s \<longleftrightarrow> listed w s \<and> hsClosed (hwSession w s) \<and> (\<exists>env. stream_of (P s) = Some (env, Serving))
     \<and> (\<forall>q r. closing q (P q) = Some (s, r) \<longrightarrow> r = 0 \<or> r = 4)"

lemma leaked_quiet:
  assumes l: "leaked w P s" and w: "listed w' s" "hsClosed (hwSession w' s)"
    and st: "stream_of q' = stream_of (P p) \<or> (\<exists>env. stream_of (P p) = Some (env, Before))
       \<or> (\<exists>env. stream_of (P p) = Some (env, Storing)) \<or> (\<exists>env. stream_of (P p) = Some (env, Over))"
    and cl: "\<And>r. closing p q' = Some (s, r) \<Longrightarrow> r = 0 \<or> r = 4"
  shows "leaked w' (P(p := q')) s"
  using l w st cl unfolding leaked_def by (cases "s = p") auto

lemma close_rank_le: "close_rank pc \<le> 4"
  by (cases pc) auto

lemma evict_closing_le: "evict_closing pc = Some (s, r) \<Longrightarrow> r \<le> 4"
  by (cases pc) (auto simp: close_rank_le)

lemma closing_le: "closing p q = Some (s, r) \<Longrightarrow> r \<le> 4"
  by (induction p q rule: closing.induct) (auto simp: close_rank_le evict_closing_le)

lemma leaked_effect:
  assumes "effect p w (P p) w' q'" and table: "table_inv w P" and l: "leaked w P s"
  shows "leaked w' (P(p := q')) s"
proof -
  have ls: "listed w s" "hsClosed (hwSession w s)" and nc: "\<And>q r. closing q (P q) = Some (s, r) \<Longrightarrow> r = 0 \<or> r = 4"
    and ss: "\<exists>env. stream_of (P s) = Some (env, Serving)"
    using l by (auto simp: leaked_def)
  have same: "leaked w' (P(p := q')) s" if "listed w' s" "hsClosed (hwSession w' s)" "stream_of q' = stream_of (P p)"
    "closing p q' = Some (t, r)" "t \<noteq> s \<or> r = 4" for t r
    by (rule leaked_quiet [OF l that(1,2)]) (use that(3-5) in auto)
  from assms(1) show ?thesis
  proof cases
    case Quiet
    note Q = quiet_facts [OF Quiet(1)]
    show ?thesis
    proof (rule leaked_quiet [OF l])
      show "r = 0 \<or> r = 4" if c: "closing p q' = Some (s, r)" for r
      proof (rule ccontr)
        assume "\<not> (r = 0 \<or> r = 4)"
        then have "r \<in> {1, 2, 3}" using closing_le [OF c] by auto
        from Quiet(3) [OF c this] nc show False using \<open>r \<in> {1, 2, 3}\<close> by fastforce
      qed
    qed (use ls Q Quiet(2) in auto)
  next
    case (Cas t)
    then have "t \<noteq> s" using ls(2) by auto
    with Cas ls show ?thesis by (intro same [of t 1]) (simp_all add: listed_def set_session_def)
  next
    case (Delete t)
    then have ts: "t \<noteq> s" using nc [of p 2] by auto
    have "hwDict w (hsHall (hwSession w t)) (hsUser (hwSession w t)) = Some t"
      using table_invD(4,5) [OF table Delete(1)] by (simp add: listed_def)
    with ts ls(1) have "listed w' s"
      unfolding Delete(7) by (auto simp: listed_def set_dict_def)
    with Delete ls ts show ?thesis by (intro same [of t 3]) (simp_all add: set_dict_def)
  next
    case (Uncount t)
    then have "listed w' s" "hsClosed (hwSession w' s)" using ls by (simp_all add: listed_def add_count_def)
    with Uncount show ?thesis by (intro same [of t 4]) simp_all
  next
    case (Store env)
    have "s \<noteq> p" using ss Store(3) by auto
    moreover have "listed w' s"
      unfolding Store(1) using ls(1) Store(4) \<open>s \<noteq> p\<close> by (auto simp: listed_def set_dict_def set_session_def)
    ultimately show ?thesis
      using ls(2) unfolding Store(1,2)
      by (intro leaked_quiet [OF l]) (simp_all add: Store(3) set_dict_def set_session_def)
  next
    case (CountUp env)
    then show ?thesis using ls
      by (intro leaked_quiet [OF l]) (simp_all add: listed_def add_count_def)
  next
    case (Unstore env)
    have own: "hwDict w (leHall env) (env_user env) = Some p" using table_invD(1) [OF table] by (simp add: Unstore(3))
    have "s \<noteq> p" using ss Unstore(3) by auto
    then have "listed w' s" unfolding Unstore(1) using ls(1) own by (auto simp: listed_def set_dict_def)
    then show ?thesis using ls(2) unfolding Unstore(1,2)
      by (intro leaked_quiet [OF l]) (simp_all add: Unstore(3) set_dict_def)
  next
    case (LoadUncount env)
    then show ?thesis using ls
      by (intro leaked_quiet [OF l]) (simp_all add: listed_def add_count_def)
  next
    case (Bind env)
    have "s \<noteq> p" using ss Bind(3) by auto
    with Bind show ?thesis using ls
      by (intro leaked_quiet [OF l]) (simp_all add: listed_def set_session_def)
  qed
qed

lemma leaked_step:
  assumes inv: "hall_inv y" and l: "leaked (sysWorld y) (sysProc y) s"
  shows "leaked (sysWorld (hall_step logout cap y e)) (sysProc (hall_step logout cap y e)) s"
proof -
  obtain w' q' where st: "event_step logout cap e (sysWorld y) (sysProc y (event_proc e)) = (w', q')" by force
  show ?thesis
    using leaked_effect [where P = "sysProc y", OF event_effect [OF st] _ l] inv
    by (simp add: hall_inv_def hall_step_def st Let_def)
qed

lemma leaked_run:
  "hall_inv y \<Longrightarrow> leaked (sysWorld y) (sysProc y) s \<Longrightarrow>
     leaked (sysWorld (hall_run logout cap y ps)) (sysProc (hall_run logout cap y ps)) s"
proof (induction ps arbitrary: y)
  case (Cons e ps)
  then show ?case
    using Cons.IH [OF hall.step_inv [OF Cons.prems(1)] leaked_step [OF Cons.prems]] by (simp add: hall_run_def)
qed (simp add: hall_run_def)

lemma leaked_fields:
  assumes "effect p w (P p) w' q'" and "leaked w P s"
  shows "hsHall (hwSession w' s) = hsHall (hwSession w s) \<and> hsUser (hwSession w' s) = hsUser (hwSession w s)"
  using assms(1)
proof cases
  case Quiet
  then show ?thesis using quiet_facts by blast
next
  case (Store env)
  then have "s \<noteq> p" using assms(2) by (auto simp: leaked_def)
  then show ?thesis unfolding Store(1) by (simp add: set_dict_def set_session_def)
qed (auto simp: set_dict_def set_session_def add_count_def)

lemma leaked_run_fields:
  "hall_inv y \<Longrightarrow> leaked (sysWorld y) (sysProc y) s \<Longrightarrow>
     hsHall (hwSession (sysWorld (hall_run logout cap y es)) s) = hsHall (hwSession (sysWorld y) s)
     \<and> hsUser (hwSession (sysWorld (hall_run logout cap y es)) s) = hsUser (hwSession (sysWorld y) s)"
proof (induction es arbitrary: y)
  case (Cons e es)
  obtain w' q' where st: "event_step logout cap e (sysWorld y) (sysProc y (event_proc e)) = (w', q')" by force
  show ?case
    using Cons.IH [OF hall.step_inv [OF Cons.prems(1)] leaked_step [OF Cons.prems, where logout = logout and cap = cap and e = e]]
      leaked_fields [where P = "sysProc y", OF event_effect [OF st] Cons.prems(2)]
    by (simp add: hall_run_def hall_step_def st Let_def)
qed (simp add: hall_run_def)

definition too_early :: hall_sys where
  "too_early =
     hall_run (\<lambda>s. False) 4 \<lparr>sysWorld = initial_world, sysProc = kicked\<rparr>
       (map Run (replicate 8 0 @ replicate 5 1 @ [0]))"

text \<open>
  A kick that reaches a session between the making of its channels and the setting of
  \<open>clientCancelFunc\<close> marks it closed and panics on the nil function (the panic is recovered).
  From then on, whatever any process does in any order, the session stays in the table of its hall,
  closed: no \<open>Close\<close> removes it, so every later login of the user at that hall finds it, and the
  loop of \<open>Serve\<close>, which closes the sessions of the table until there is none, finds it each time.
\<close>

lemma early_kick_leaks_session:
  "let w = sysWorld (hall_run (\<lambda>s. False) 4 too_early es) in
     hwDict w 0 ''u'' = Some 0 \<and> hsClosed (hwSession w 0)"
proof -
  have init: "hall_init \<lparr>sysWorld = initial_world, sysProc = kicked\<rparr>"
    by (simp add: hall_init_def kicked_def two_logins_def)
  have inv: "hall_inv too_early"
    unfolding too_early_def using hall_run_inv [OF init] by (simp add: hall_inv_def)
  have c0: "closing 0 (sysProc too_early 0) = None" and c1: "closing 1 (sysProc too_early 1) = None"
    and k: "listed (sysWorld too_early) 0 \<and> hsClosed (hwSession (sysWorld too_early) 0)
       \<and> stream_of (sysProc too_early 0) = Some (the (map_option fst (stream_of (kicked 0))), Serving)
       \<and> hsHall (hwSession (sysWorld too_early) 0) = 0 \<and> hsUser (hwSession (sysWorld too_early) 0) = ''u''"
    by code_simp+
  have "closing q (sysProc too_early q) = None" for q
  proof -
    have "sysProc too_early q = Stopper q [] None" if "q \<ge> 2"
      unfolding too_early_def using that by (subst hall_run_other) (auto simp: kicked_def)
    then show ?thesis using c0 c1 by (cases "q = 0 \<or> q = 1") auto
  qed
  then have l0: "leaked (sysWorld too_early) (sysProc too_early) 0" using k by (simp add: leaked_def)
  then have l: "leaked (sysWorld (hall_run (\<lambda>s. False) 4 too_early es))
      (sysProc (hall_run (\<lambda>s. False) 4 too_early es)) 0"
    by (rule leaked_run [OF inv])
  show ?thesis
    using l leaked_run_fields [OF inv l0, of "\<lambda>s. False" 4 es] k by (simp add: leaked_def listed_def Let_def)
qed

end
