(* ===== verification/Hall_Serve.thy ===== *)
theory Hall_Serve
  imports Hall_Session "HOL-Library.Sublist"
begin

text \<open>
  The goroutines of one session of a hall, \<open>serve\<close> and the methods it calls in
  \<open>framework/smallgame/game/hall/session.go\<close>: the loop over timers and requests, the loop over pushes
  and the loop over actor requests, which share the player under the session's lock \<open>mu\<close>; the pushes
  of other goroutines, the stream that takes the responses, and \<open>Close\<close>, which takes no lock. The
  goroutines interleave at each access to what they share.

  The lemmas: the player is called by one loop at a time; responses leave in the order of the
  requests; how much can still run after the session has closed; and two ways to block for ever.
\<close>

section \<open>State\<close>

record hall_request =
  hqSessionId :: "64 word"
  hqReqId :: "64 word"
  hqData :: bytes

record hall_response =
  hrSessionId :: "64 word"
  hrReqId :: "64 word"
  hrRoute :: string
  hrData :: bytes

text \<open>The three loops, and a goroutine that runs a function under the lock by \<open>Session.Go\<close>.\<close>

datatype loop = MainLoop | PushLoop | ActorLoop | Guest nat

text \<open>What a loop asks of the player: \<open>'p\<close> are pushes, \<open>'a\<close> actor requests.\<close>

datatype ('p, 'a) task =
    TaskSave | TaskUpdate | TaskRequest hall_request | TaskPush 'p | TaskActor 'a | TaskGo

text \<open>
  A loop is at its \<open>select\<close>; before the test of \<open>isClosed\<close>; before \<open>mu.Lock()\<close>; in the player's
  method; in the function of a \<open>Yield\<close>, without the lock; with the lock, before the second test of
  \<open>isClosed\<close> or before the sends of the responses; or has returned.
\<close>

datatype ('p, 'a) loop_pc =
    AtSelect | AtCheck "('p, 'a) task" | AtLock "('p, 'a) task" | InCall "('p, 'a) task" | InYield "('p, 'a) task"
  | AtTest hall_request "hall_response list" | AtReply "hall_response list" | LoopDone

datatype close_stage = CloseNotYet | CloseInLogout | CloseInCancel | CloseInUnlock | CloseOver

datatype ('p, 'a) player_event =
    PlBegin loop "('p, 'a) task" | PlYield loop | PlResume loop | PlEnd loop | PlClosed | PlLogout | PlUnlocked

datatype push_status = PushNew | PushOk | PushFailed | PushStuck

record ('p, 'a) serve_state =
  svServing :: bool
  svPc :: "loop \<Rightarrow> ('p, 'a) loop_pc"
  svMu :: "loop option"
  svClosed :: bool
  svCtxDone :: bool
  svClose :: close_stage
  svPeerPush :: "'p chan option"
  svInbox :: "'a chan option"
  svRequests :: "hall_request chan option"
  svResponses :: "hall_response chan option"
  svForwarding :: bool
  svCrashed :: bool
  svPushers :: "nat \<Rightarrow> push_status"
  svTrace :: "('p, 'a) player_event list"
  svArrived :: "hall_request list"
  svTaken :: "hall_request list"
  svReplies :: "(hall_request \<times> hall_response list) list"
  svOut :: "hall_response list"

text \<open>
  The session in the table of its hall, its player loaded or about to be: \<open>serve\<close> has not started and
  the stream has not made its channels. The last five fields are a record of what happened; no
  goroutine reads them.
\<close>

definition new_serve :: "nat \<Rightarrow> ('p, 'a) serve_state" where
  "new_serve actorSize =
     \<lparr>svServing = False, svPc = (\<lambda>w. AtSelect), svMu = None, svClosed = False, svCtxDone = False,
      svClose = CloseNotYet, svPeerPush = None, svInbox = Some (make_chan actorSize), svRequests = None,
      svResponses = None, svForwarding = False, svCrashed = False, svPushers = (\<lambda>i. PushNew), svTrace = [],
      svArrived = [], svTaken = [], svReplies = [], svOut = []\<rparr>"

definition set_pc :: "loop \<Rightarrow> ('p, 'a) loop_pc \<Rightarrow> ('p, 'a) serve_state \<Rightarrow> ('p, 'a) serve_state" where
  "set_pc w x s = s\<lparr>svPc := (svPc s)(w := x)\<rparr>"

definition record_event :: "('p, 'a) player_event \<Rightarrow> ('p, 'a) serve_state \<Rightarrow> ('p, 'a) serve_state" where
  "record_event e s = s\<lparr>svTrace := svTrace s @ [e]\<rparr>"

definition lock_mu :: "loop \<Rightarrow> ('p, 'a) serve_state \<Rightarrow> ('p, 'a) serve_state" where
  "lock_mu w s = s\<lparr>svMu := Some w\<rparr>"

definition unlock_mu :: "('p, 'a) serve_state \<Rightarrow> ('p, 'a) serve_state" where
  "unlock_mu s = s\<lparr>svMu := None\<rparr>"

section \<open>The loops\<close>

text \<open>
  \<open>serve\<close> starts: it makes \<open>chPeerPush\<close> and starts the other two loops. What a loop takes at its
  \<open>select\<close>: a timer (main loop only), its channel, or the end of the context; a receive that would
  block is not taken, and a nil from a closed channel goes round the loop. Actor requests are taken
  without a test of \<open>isClosed\<close>. The main loop closes \<open>chPeerPush\<close> when it returns.
\<close>

definition serve_start :: "nat \<Rightarrow> ('p, 'a) serve_state \<Rightarrow> ('p, 'a) serve_state" where
  "serve_start pushSize s =
     (if svServing s then s else s\<lparr>svServing := True, svPeerPush := Some (make_chan pushSize)\<rparr>)"

datatype pick = PickSave | PickTick | PickChan | PickDone

definition main_select :: "pick \<Rightarrow> ('p, 'a) serve_state \<Rightarrow> ('p, 'a) serve_state" where
  "main_select k s =
     (case k of
        PickSave \<Rightarrow> set_pc MainLoop (AtCheck TaskSave) s
      | PickTick \<Rightarrow> set_pc MainLoop (AtCheck TaskUpdate) s
      | PickChan \<Rightarrow>
          (case chan_recv (svRequests s) of
             Received r c \<Rightarrow>
               set_pc MainLoop (AtCheck (TaskRequest r)) (s\<lparr>svRequests := Some c, svTaken := svTaken s @ [r]\<rparr>)
           | _ \<Rightarrow> s)
      | PickDone \<Rightarrow>
          if svCtxDone s then set_pc MainLoop LoopDone (s\<lparr>svPeerPush := chan_close (svPeerPush s)\<rparr>) else s)"

definition push_select :: "pick \<Rightarrow> ('p, 'a) serve_state \<Rightarrow> ('p, 'a) serve_state" where
  "push_select k s =
     (case k of
        PickChan \<Rightarrow>
          (case chan_recv (svPeerPush s) of
             Received p c \<Rightarrow> set_pc PushLoop (AtCheck (TaskPush p)) (s\<lparr>svPeerPush := Some c\<rparr>)
           | _ \<Rightarrow> s)
      | PickDone \<Rightarrow> if svCtxDone s then set_pc PushLoop LoopDone s else s
      | _ \<Rightarrow> s)"

definition actor_select :: "pick \<Rightarrow> ('p, 'a) serve_state \<Rightarrow> ('p, 'a) serve_state" where
  "actor_select k s =
     (case k of
        PickChan \<Rightarrow>
          (case chan_recv (svInbox s) of
             Received a c \<Rightarrow> set_pc ActorLoop (AtLock (TaskActor a)) (s\<lparr>svInbox := Some c\<rparr>)
           | _ \<Rightarrow> s)
      | PickDone \<Rightarrow> if svCtxDone s then set_pc ActorLoop LoopDone s else s
      | _ \<Rightarrow> s)"

fun loop_select :: "loop \<Rightarrow> pick \<Rightarrow> ('p, 'a) serve_state \<Rightarrow> ('p, 'a) serve_state" where
  "loop_select MainLoop k s = main_select k s"
| "loop_select PushLoop k s = push_select k s"
| "loop_select ActorLoop k s = actor_select k s"
| "loop_select (Guest i) k s = set_pc (Guest i) (AtLock TaskGo) s"

text \<open>
  The other steps of a loop's program. A request that cannot be decoded is dropped before the lock.
  A send of a response that would block waits with the lock held; one on a closed channel panics,
  which \<open>processClientMessage\<close> recovers.
\<close>

definition loop_go :: "(bytes \<Rightarrow> bool) \<Rightarrow> loop \<Rightarrow> ('p, 'a) serve_state \<Rightarrow> ('p, 'a) serve_state" where
  "loop_go decodes w s =
     (case svPc s w of
        AtCheck t \<Rightarrow>
          if svClosed s then set_pc w AtSelect s
          else (case t of
                  TaskRequest r \<Rightarrow> set_pc w (if decodes (hqData r) then AtLock t else AtSelect) s
                | _ \<Rightarrow> set_pc w (AtLock t) s)
      | AtLock t \<Rightarrow> if svMu s = None then record_event (PlBegin w t) (set_pc w (InCall t) (lock_mu w s)) else s
      | InYield t \<Rightarrow> if svMu s = None then record_event (PlResume w) (set_pc w (InCall t) (lock_mu w s)) else s
      | AtTest r rs \<Rightarrow>
          if svClosed s then unlock_mu (set_pc w AtSelect s)
          else set_pc w (AtReply rs) (s\<lparr>svReplies := svReplies s @ [(r, rs)]\<rparr>)
      | AtReply [] \<Rightarrow> unlock_mu (set_pc w AtSelect s)
      | AtReply (x # xs) \<Rightarrow>
          (case chan_send (svResponses s) x of
             Sent c \<Rightarrow> set_pc w (AtReply xs) (s\<lparr>svResponses := Some c, svOut := svOut s @ [x]\<rparr>)
           | SendBlocks \<Rightarrow> s
           | SendPanics \<Rightarrow> unlock_mu (set_pc w AtSelect s))
      | _ \<Rightarrow> s)"

text \<open>
  The response to a request and those of its pushes; a push that cannot be encoded is left out.
\<close>

definition reply_of ::
  "('p \<Rightarrow> bytes option) \<Rightarrow> ('p \<Rightarrow> string) \<Rightarrow> hall_request \<Rightarrow> string \<Rightarrow> bytes \<Rightarrow> 'p list \<Rightarrow> hall_response list" where
  "reply_of encode pushName r name resp pushes =
     \<lparr>hrSessionId = hqSessionId r, hrReqId = hqReqId r, hrRoute = name, hrData = resp\<rparr> #
     List.map_filter
       (\<lambda>p. map_option
              (\<lambda>d. \<lparr>hrSessionId = hqSessionId r, hrReqId = 0, hrRoute = pushName p, hrData = d\<rparr>) (encode p))
       pushes"

text \<open>
  How a call of the player ends: it yields, returns, fails, or panics with a value that is an error
  or is not. Nobody recovers the panic of an actor request, and the deferred functions of requests
  and pushes panic again when the value is not an error. A panic in \<open>Go\<close> goes to its caller.
\<close>

datatype 'p call_result = CallYields | CallReturns string bytes "'p list" | CallFails | CallPanics bool

fun recovered :: "('p, 'a) task \<Rightarrow> bool \<Rightarrow> bool" where
  "recovered (TaskActor a) isError = False"
| "recovered (TaskRequest r) isError = isError"
| "recovered (TaskPush p) isError = isError"
| "recovered t isError = True"

definition call_ends ::
  "('p \<Rightarrow> bytes option) \<Rightarrow> ('p \<Rightarrow> string) \<Rightarrow> loop \<Rightarrow> 'p call_result \<Rightarrow> ('p, 'a) serve_state \<Rightarrow> ('p, 'a) serve_state"
where
  "call_ends encode pushName w res s =
     (case svPc s w of
        InCall t \<Rightarrow>
          (case res of
             CallYields \<Rightarrow> record_event (PlYield w) (unlock_mu (set_pc w (InYield t) s))
           | CallReturns name resp pushes \<Rightarrow>
               (case t of
                  TaskRequest r \<Rightarrow> record_event (PlEnd w) (set_pc w (AtTest r (reply_of encode pushName r name resp pushes)) s)
                | _ \<Rightarrow> record_event (PlEnd w) (unlock_mu (set_pc w AtSelect s)))
           | CallFails \<Rightarrow> record_event (PlEnd w) (unlock_mu (set_pc w AtSelect s))
           | CallPanics isError \<Rightarrow>
               (record_event (PlEnd w) (unlock_mu (set_pc w AtSelect s)))\<lparr>svCrashed := \<not> recovered t isError\<rparr>)
      | _ \<Rightarrow> s)"

section \<open>Close, the stream and the other goroutines\<close>

text \<open>\<open>Close\<close>: the swap of \<open>isClosed\<close>, the player's \<open>Logout\<close>, the end of the context, the release of the user.\<close>

definition close_go :: "('p, 'a) serve_state \<Rightarrow> ('p, 'a) serve_state" where
  "close_go s =
     (case svClose s of
        CloseNotYet \<Rightarrow> record_event PlClosed (s\<lparr>svClosed := True, svClose := CloseInLogout\<rparr>)
      | CloseInLogout \<Rightarrow> record_event PlLogout (s\<lparr>svClose := CloseInCancel\<rparr>)
      | CloseInCancel \<Rightarrow> s\<lparr>svCtxDone := True, svClose := CloseInUnlock\<rparr>
      | CloseInUnlock \<Rightarrow> record_event PlUnlocked (s\<lparr>svClose := CloseOver\<rparr>)
      | CloseOver \<Rightarrow> s)"

text \<open>
  The stream makes the channels and forwards responses until it stops: then its deferred \<open>select\<close>
  takes a response that is queued, or else closes the channel. When the session closes it closes the
  channel first and sends what is left.
\<close>

definition stream_channels :: "nat \<Rightarrow> nat \<Rightarrow> ('p, 'a) serve_state \<Rightarrow> ('p, 'a) serve_state" where
  "stream_channels reqSize respSize s =
     (if svRequests s = None
      then s\<lparr>svRequests := Some (make_chan reqSize), svResponses := Some (make_chan respSize), svForwarding := True\<rparr>
      else s)"

definition stream_request :: "hall_request \<Rightarrow> ('p, 'a) serve_state \<Rightarrow> ('p, 'a) serve_state" where
  "stream_request r s =
     (case chan_send (svRequests s) r of
        Sent c \<Rightarrow> s\<lparr>svRequests := Some c, svArrived := svArrived s @ [r]\<rparr> | _ \<Rightarrow> s)"

definition stream_forward :: "('p, 'a) serve_state \<Rightarrow> ('p, 'a) serve_state" where
  "stream_forward s =
     (if svForwarding s
      then (case chan_recv (svResponses s) of Received x c \<Rightarrow> s\<lparr>svResponses := Some c\<rparr> | _ \<Rightarrow> s)
      else s)"

definition stream_close :: "('p, 'a) serve_state \<Rightarrow> ('p, 'a) serve_state" where
  "stream_close s =
     (if svForwarding s \<and> svClosed s
      then (case chan_close (svResponses s) of Some c \<Rightarrow> s\<lparr>svResponses := Some c\<rparr> | None \<Rightarrow> s)
      else s)"

definition stream_stop :: "('p, 'a) serve_state \<Rightarrow> ('p, 'a) serve_state" where
  "stream_stop s =
     (if svForwarding s
      then (case chan_recv (svResponses s) of
              Received x c \<Rightarrow> s\<lparr>svResponses := Some c, svForwarding := False\<rparr>
            | RecvClosed \<Rightarrow> s\<lparr>svForwarding := False\<rparr>
            | RecvBlocks \<Rightarrow>
                (case chan_close (svResponses s) of
                   Some c \<Rightarrow> s\<lparr>svResponses := Some c, svForwarding := False\<rparr>
                 | None \<Rightarrow> s\<lparr>svForwarding := False\<rparr>))
      else s)"

text \<open>The reading goroutine of the stream ends and closes \<open>chClientRequest\<close>.\<close>

definition stream_requests_end :: "('p, 'a) serve_state \<Rightarrow> ('p, 'a) serve_state" where
  "stream_requests_end s =
     (case chan_close (svRequests s) of Some c \<Rightarrow> s\<lparr>svRequests := Some c\<rparr> | None \<Rightarrow> s)"

text \<open>
  Goroutine \<open>i\<close> pushes \<open>p\<close>, with the session from the table of the hall: the channel is what
  \<open>chPeerPush\<close> is now. A send to nil never ends; a panic is recovered.
\<close>

definition peer_push :: "nat \<Rightarrow> 'p \<Rightarrow> ('p, 'a) serve_state \<Rightarrow> ('p, 'a) serve_state" where
  "peer_push i p s =
     (if svPushers s i \<noteq> PushNew then s
      else (case svPeerPush s of
              None \<Rightarrow> s\<lparr>svPushers := (svPushers s)(i := PushStuck)\<rparr>
            | Some c \<Rightarrow>
                (case chan_send (Some c) p of
                   Sent c' \<Rightarrow> s\<lparr>svPeerPush := Some c', svPushers := (svPushers s)(i := PushOk)\<rparr>
                 | SendBlocks \<Rightarrow> s
                 | SendPanics \<Rightarrow> s\<lparr>svPushers := (svPushers s)(i := PushFailed)\<rparr>)))"

text \<open>\<open>Session.Push\<close>, a response nobody asked for, and a request to the session's actor.\<close>

definition session_push ::
  "('p \<Rightarrow> bytes option) \<Rightarrow> ('p \<Rightarrow> string) \<Rightarrow> 64 word \<Rightarrow> 'p \<Rightarrow> ('p, 'a) serve_state \<Rightarrow> ('p, 'a) serve_state" where
  "session_push encode pushName sessionId p s =
     (case encode p of
        None \<Rightarrow> s
      | Some d \<Rightarrow>
          (case chan_send (svResponses s)
                  \<lparr>hrSessionId = sessionId, hrReqId = 0, hrRoute = pushName p, hrData = d\<rparr> of
             Sent c \<Rightarrow> s\<lparr>svResponses := Some c\<rparr> | _ \<Rightarrow> s))"

definition inbox_send :: "'a \<Rightarrow> ('p, 'a) serve_state \<Rightarrow> ('p, 'a) serve_state" where
  "inbox_send a s = (case chan_send (svInbox s) a of Sent c \<Rightarrow> s\<lparr>svInbox := Some c\<rparr> | _ \<Rightarrow> s)"

section \<open>Schedules\<close>

fun is_guest :: "loop \<Rightarrow> bool" where
  "is_guest (Guest i) = True"
| "is_guest w = False"

record 'p serve_env =
  seDecodes :: "bytes \<Rightarrow> bool"
  seEncode :: "'p \<Rightarrow> bytes option"
  sePushName :: "'p \<Rightarrow> string"
  sePushSize :: nat
  seRequestSize :: nat
  seResponseSize :: nat
  seSessionId :: "64 word"

datatype ('p, 'a) serve_event =
    ServeStart | Select loop pick | Go loop | CallEnds loop "'p call_result" | CloseGo | StreamChannels'
  | StreamRequest hall_request | StreamRequestsEnd | StreamForward | StreamClosing | StreamStop
  | PeerPush nat 'p | SessionPush 'p | InboxSend 'a

text \<open>A crash of the process ends everything.\<close>

fun serve_apply :: "'p serve_env \<Rightarrow> ('p, 'a) serve_event \<Rightarrow> ('p, 'a) serve_state \<Rightarrow> ('p, 'a) serve_state" where
  "serve_apply env ServeStart s = serve_start (sePushSize env) s"
| "serve_apply env (Select w k) s = (if (svServing s \<or> is_guest w) \<and> svPc s w = AtSelect then loop_select w k s else s)"
| "serve_apply env (Go w) s = loop_go (seDecodes env) w s"
| "serve_apply env (CallEnds w res) s = call_ends (seEncode env) (sePushName env) w res s"
| "serve_apply env CloseGo s = close_go s"
| "serve_apply env StreamChannels' s = stream_channels (seRequestSize env) (seResponseSize env) s"
| "serve_apply env (StreamRequest r) s = stream_request r s"
| "serve_apply env StreamRequestsEnd s = stream_requests_end s"
| "serve_apply env StreamForward s = stream_forward s"
| "serve_apply env StreamClosing s = stream_close s"
| "serve_apply env StreamStop s = stream_stop s"
| "serve_apply env (PeerPush i p) s = peer_push i p s"
| "serve_apply env (SessionPush p) s = session_push (seEncode env) (sePushName env) (seSessionId env) p s"
| "serve_apply env (InboxSend a) s = inbox_send a s"

definition serve_step :: "'p serve_env \<Rightarrow> ('p, 'a) serve_state \<Rightarrow> ('p, 'a) serve_event \<Rightarrow> ('p, 'a) serve_state" where
  "serve_step env s e = (if svCrashed s then s else serve_apply env e s)"

definition serve_run :: "'p serve_env \<Rightarrow> ('p, 'a) serve_state \<Rightarrow> ('p, 'a) serve_event list \<Rightarrow> ('p, 'a) serve_state" where
  "serve_run env = foldl (serve_step env)"

section \<open>The player under the lock\<close>

fun in_call :: "('p, 'a) loop_pc \<Rightarrow> bool" where
  "in_call (InCall t) = True"
| "in_call x = False"

fun holds_mu :: "('p, 'a) loop_pc \<Rightarrow> bool" where
  "holds_mu (InCall t) = True"
| "holds_mu (AtTest r rs) = True"
| "holds_mu (AtReply rs) = True"
| "holds_mu x = False"

text \<open>The calls of a trace do not overlap: \<open>h\<close> is the loop in the player's code.\<close>

fun serial :: "loop option \<Rightarrow> ('p, 'a) player_event list \<Rightarrow> bool" where
  "serial h [] = True"
| "serial h (PlBegin w t # es) = (h = None \<and> serial (Some w) es)"
| "serial h (PlResume w # es) = (h = None \<and> serial (Some w) es)"
| "serial h (PlYield w # es) = (h = Some w \<and> serial None es)"
| "serial h (PlEnd w # es) = (h = Some w \<and> serial None es)"
| "serial h (e # es) = serial h es"

fun holder :: "loop option \<Rightarrow> ('p, 'a) player_event list \<Rightarrow> loop option" where
  "holder h [] = h"
| "holder h (PlBegin w t # es) = holder (Some w) es"
| "holder h (PlResume w # es) = holder (Some w) es"
| "holder h (PlYield w # es) = holder None es"
| "holder h (PlEnd w # es) = holder None es"
| "holder h (e # es) = holder h es"

lemma serial_append: "serial h (xs @ ys) \<longleftrightarrow> serial h xs \<and> serial (holder h xs) ys"
  by (induction h xs rule: serial.induct) auto

lemma holder_append: "holder h (xs @ ys) = holder (holder h xs) ys"
  by (induction h xs rule: holder.induct) auto

definition caller :: "loop option \<Rightarrow> (loop \<Rightarrow> ('p, 'a) loop_pc) \<Rightarrow> loop option" where
  "caller mu pc = (case mu of Some w \<Rightarrow> if in_call (pc w) then Some w else None | None \<Rightarrow> None)"

definition mu_ok :: "loop option \<Rightarrow> (loop \<Rightarrow> ('p, 'a) loop_pc) \<Rightarrow> bool" where
  "mu_ok mu pc \<longleftrightarrow> (\<forall>w. mu = Some w \<longleftrightarrow> holds_mu (pc w))"

definition calls_inv :: "('p, 'a) serve_state \<Rightarrow> bool" where
  "calls_inv s \<longleftrightarrow> mu_ok (svMu s) (svPc s) \<and> serial None (svTrace s)
     \<and> holder None (svTrace s) = caller (svMu s) (svPc s)"

lemma mu_same:
  assumes "mu_ok mu pc" and "\<forall>v. v \<noteq> w \<longrightarrow> pc' v = pc v"
    and "holds_mu (pc' w) = holds_mu (pc w)" and "in_call (pc' w) = in_call (pc w)"
  shows "mu_ok mu pc'" "caller mu pc' = caller mu pc"
proof -
  have *: "holds_mu (pc' v) = holds_mu (pc v) \<and> in_call (pc' v) = in_call (pc v)" for v
    using assms(2,3,4) by (cases "v = w") simp_all
  show "mu_ok mu pc'" using assms(1) * by (simp add: mu_ok_def)
  show "caller mu pc' = caller mu pc" using * by (cases mu) (simp_all add: caller_def)
qed

lemma in_call_holds: "in_call x \<Longrightarrow> holds_mu x"
  by (cases x) auto

lemma mu_taken:
  assumes "mu_ok None pc" and "\<forall>v. v \<noteq> w \<longrightarrow> pc' v = pc v" and "in_call (pc' w)"
  shows "mu_ok (Some w) pc'" "caller (Some w) pc' = Some w" "caller None pc = None"
proof -
  have "holds_mu (pc' v) \<longleftrightarrow> v = w" for v
    using assms in_call_holds [OF assms(3)] by (cases "v = w") (simp_all add: mu_ok_def)
  then show "mu_ok (Some w) pc'" by (auto simp: mu_ok_def)
qed (use assms(3) in \<open>simp_all add: caller_def\<close>)

lemma mu_left:
  assumes "mu_ok mu pc" and "\<forall>v. v \<noteq> w \<longrightarrow> pc' v = pc v" and "holds_mu (pc w)" and "\<not> in_call (pc' w)"
  shows "mu = Some w" "mu_ok (if holds_mu (pc' w) then mu else None) pc'"
    "caller (if holds_mu (pc' w) then mu else None) pc' = None"
proof -
  show m: "mu = Some w" using assms(1,3) by (simp add: mu_ok_def)
  have "holds_mu (pc v) \<longleftrightarrow> v = w" for v using assms(1) m by (auto simp: mu_ok_def)
  then have "v \<noteq> w \<Longrightarrow> \<not> holds_mu (pc' v)" for v
    using assms(2) by simp
  then show "mu_ok (if holds_mu (pc' w) then mu else None) pc'"
    by (cases "holds_mu (pc' w)") (force simp: mu_ok_def m)+
  show "caller (if holds_mu (pc' w) then mu else None) pc' = None"
    using assms(4) by (simp add: caller_def m)
qed

lemmas serve_defs = set_pc_def record_event_def lock_mu_def unlock_mu_def

lemma set_pc_simps [simp]:
  "svPc (set_pc w x s) = (svPc s)(w := x)" "svMu (set_pc w x s) = svMu s" "svTrace (set_pc w x s) = svTrace s"
  "svClosed (set_pc w x s) = svClosed s" "svCrashed (set_pc w x s) = svCrashed s"
  "svResponses (set_pc w x s) = svResponses s" "svRequests (set_pc w x s) = svRequests s"
  "svForwarding (set_pc w x s) = svForwarding s" "svTaken (set_pc w x s) = svTaken s"
  "svArrived (set_pc w x s) = svArrived s" "svReplies (set_pc w x s) = svReplies s" "svOut (set_pc w x s) = svOut s"
  "svPushers (set_pc w x s) = svPushers s" "svPeerPush (set_pc w x s) = svPeerPush s"
  by (simp_all add: set_pc_def)

lemma record_event_simps [simp]:
  "svPc (record_event e s) = svPc s" "svMu (record_event e s) = svMu s"
  "svTrace (record_event e s) = svTrace s @ [e]" "svClosed (record_event e s) = svClosed s"
  "svCrashed (record_event e s) = svCrashed s" "svResponses (record_event e s) = svResponses s"
  "svRequests (record_event e s) = svRequests s" "svForwarding (record_event e s) = svForwarding s"
  "svTaken (record_event e s) = svTaken s" "svArrived (record_event e s) = svArrived s"
  "svReplies (record_event e s) = svReplies s" "svOut (record_event e s) = svOut s"
  "svPushers (record_event e s) = svPushers s" "svPeerPush (record_event e s) = svPeerPush s"
  by (simp_all add: record_event_def)

lemma mu_simps [simp]:
  "svPc (lock_mu w s) = svPc s" "svMu (lock_mu w s) = Some w" "svTrace (lock_mu w s) = svTrace s"
  "svClosed (lock_mu w s) = svClosed s" "svCrashed (lock_mu w s) = svCrashed s"
  "svResponses (lock_mu w s) = svResponses s" "svRequests (lock_mu w s) = svRequests s"
  "svForwarding (lock_mu w s) = svForwarding s" "svTaken (lock_mu w s) = svTaken s"
  "svArrived (lock_mu w s) = svArrived s" "svReplies (lock_mu w s) = svReplies s" "svOut (lock_mu w s) = svOut s"
  "svPushers (lock_mu w s) = svPushers s" "svPeerPush (lock_mu w s) = svPeerPush s"
  "svPc (unlock_mu s) = svPc s" "svMu (unlock_mu s) = None" "svTrace (unlock_mu s) = svTrace s"
  "svClosed (unlock_mu s) = svClosed s" "svCrashed (unlock_mu s) = svCrashed s"
  "svResponses (unlock_mu s) = svResponses s" "svRequests (unlock_mu s) = svRequests s"
  "svForwarding (unlock_mu s) = svForwarding s" "svTaken (unlock_mu s) = svTaken s"
  "svArrived (unlock_mu s) = svArrived s" "svReplies (unlock_mu s) = svReplies s" "svOut (unlock_mu s) = svOut s"
  "svPushers (unlock_mu s) = svPushers s" "svPeerPush (unlock_mu s) = svPeerPush s"
  by (simp_all add: lock_mu_def unlock_mu_def)

text \<open>
  A step of a loop, seen by the lock: which loop moved, from where to where, and what became of the
  lock and the trace.
\<close>

lemma loop_select_pc:
  assumes "svPc s w = AtSelect"
  shows "(\<forall>v. v \<noteq> w \<longrightarrow> svPc (loop_select w k s) v = svPc s v)
    \<and> \<not> holds_mu (svPc (loop_select w k s) w) \<and> \<not> in_call (svPc (loop_select w k s) w)
    \<and> svMu (loop_select w k s) = svMu s \<and> svTrace (loop_select w k s) = svTrace s"
  using assms
  by (cases w; cases k)
     (simp_all add: main_select_def push_select_def actor_select_def split: received.split)

lemma loop_go_pc:
  "(\<forall>v. v \<noteq> w \<longrightarrow> svPc (loop_go d w s) v = svPc s v) \<and>
     (svMu (loop_go d w s) = svMu s \<and> svTrace (loop_go d w s) = svTrace s
        \<and> holds_mu (svPc (loop_go d w s) w) = holds_mu (svPc s w) \<and> in_call (svPc (loop_go d w s) w) = in_call (svPc s w)
      \<or> svMu s = None \<and> svMu (loop_go d w s) = Some w \<and> in_call (svPc (loop_go d w s) w)
        \<and> (\<exists>e. svTrace (loop_go d w s) = svTrace s @ [e] \<and> e \<in> insert (PlResume w) (range (PlBegin w)))
      \<or> holds_mu (svPc s w) \<and> \<not> in_call (svPc s w) \<and> svMu (loop_go d w s) = None
        \<and> \<not> holds_mu (svPc (loop_go d w s) w) \<and> \<not> in_call (svPc (loop_go d w s) w) \<and> svTrace (loop_go d w s) = svTrace s)"
  by (cases "svPc s w") (auto simp: loop_go_def split: task.split list.split sent.split)

lemma call_ends_pc:
  "(\<forall>v. v \<noteq> w \<longrightarrow> svPc (call_ends enc pn w res s) v = svPc s v) \<and>
     (svMu (call_ends enc pn w res s) = svMu s \<and> svTrace (call_ends enc pn w res s) = svTrace s
        \<and> svPc (call_ends enc pn w res s) w = svPc s w
      \<or> in_call (svPc s w) \<and> \<not> in_call (svPc (call_ends enc pn w res s) w)
        \<and> svMu (call_ends enc pn w res s) = (if holds_mu (svPc (call_ends enc pn w res s) w) then svMu s else None)
        \<and> (\<exists>e. svTrace (call_ends enc pn w res s) = svTrace s @ [e] \<and> e \<in> {PlEnd w, PlYield w}))"
  by (cases "svPc s w"; cases res) (auto simp: call_ends_def split: task.split)

text \<open>The steps that are no steps of a loop.\<close>

fun moves :: "('p, 'a) serve_event \<Rightarrow> bool" where
  "moves (Select w k) = True"
| "moves (Go w) = True"
| "moves (CallEnds w res) = True"
| "moves e = False"

lemma other_event:
  assumes "\<not> moves e"
  shows "svPc (serve_apply env e s) = svPc s \<and> svMu (serve_apply env e s) = svMu s
    \<and> svReplies (serve_apply env e s) = svReplies s \<and> svTaken (serve_apply env e s) = svTaken s
    \<and> svOut (serve_apply env e s) = svOut s \<and> svCrashed (serve_apply env e s) = svCrashed s
    \<and> (svTrace (serve_apply env e s) = svTrace s \<and> svClosed (serve_apply env e s) = svClosed s
       \<or> (\<exists>x. svTrace (serve_apply env e s) = svTrace s @ [x] \<and> x \<in> {PlLogout, PlUnlocked})
          \<and> svClosed (serve_apply env e s) = svClosed s
       \<or> svTrace (serve_apply env e s) = svTrace s @ [PlClosed] \<and> svClose s = CloseNotYet
          \<and> svClosed (serve_apply env e s))"
  using assms
  by (cases e)
     (simp_all add: serve_start_def close_go_def stream_channels_def stream_request_def stream_requests_end_def
        stream_forward_def stream_close_def stream_stop_def peer_push_def session_push_def inbox_send_def
        split: close_stage.split sent.split received.split option.split)

lemma calls_inv_select:
  assumes "calls_inv s" and "svPc s w = AtSelect"
  shows "calls_inv (loop_select w k s)"
proof -
  note sel = loop_select_pc [OF assms(2), of k]
  have m: "mu_ok (svMu s) (svPc s)" using assms(1) by (simp add: calls_inv_def)
  have "mu_ok (svMu s) (svPc (loop_select w k s)) \<and> caller (svMu s) (svPc (loop_select w k s)) = caller (svMu s) (svPc s)"
    using mu_same [OF m, of w "svPc (loop_select w k s)"] sel assms(2) by simp
  then show ?thesis using assms(1) sel by (simp add: calls_inv_def)
qed

lemma calls_inv_go:
  assumes "calls_inv s"
  shows "calls_inv (loop_go d w s)"
proof -
  let ?t = "loop_go d w s"
  have m: "mu_ok (svMu s) (svPc s)" using assms by (simp add: calls_inv_def)
  note go = loop_go_pc [of w d s]
  then have v: "\<forall>v. v \<noteq> w \<longrightarrow> svPc ?t v = svPc s v" by simp
  from conjunct2 [OF go] consider
      (same) "svMu ?t = svMu s" "svTrace ?t = svTrace s" "holds_mu (svPc ?t w) = holds_mu (svPc s w)"
        "in_call (svPc ?t w) = in_call (svPc s w)"
    | (take) e where "svMu s = None" "svMu ?t = Some w" "in_call (svPc ?t w)" "svTrace ?t = svTrace s @ [e]"
        "e \<in> insert (PlResume w) (range (PlBegin w))"
    | (leave) "holds_mu (svPc s w)" "\<not> in_call (svPc s w)" "svMu ?t = None" "\<not> holds_mu (svPc ?t w)"
        "\<not> in_call (svPc ?t w)" "svTrace ?t = svTrace s"
    by (elim disjE conjE exE)
      (rule that(1), assumption+ | rule that(2), assumption+ | rule that(3), assumption+)+
  then show ?thesis
  proof cases
    case same
    then show ?thesis using assms mu_same [OF m v] by (simp add: calls_inv_def)
  next
    case take
    then show ?thesis using assms mu_taken [OF _ v] m
      by (auto simp: calls_inv_def serial_append holder_append)
  next
    case leave
    have "svMu s = Some w" using mu_left(1) [OF m v] leave by simp
    then have "caller (svMu s) (svPc s) = None" using leave(2) by (simp add: caller_def)
    moreover have "mu_ok None (svPc ?t)" "caller None (svPc ?t) = None"
      using mu_left(2,3) [OF m v leave(1,5)] leave(4) by simp_all
    ultimately show ?thesis using assms leave by (simp add: calls_inv_def)
  qed
qed

lemma calls_inv_ends:
  assumes "calls_inv s"
  shows "calls_inv (call_ends enc pn w res s)"
proof -
  let ?t = "call_ends enc pn w res s"
  have m: "mu_ok (svMu s) (svPc s)" using assms by (simp add: calls_inv_def)
  note ends = call_ends_pc [of w enc pn res s]
  then have v: "\<forall>v. v \<noteq> w \<longrightarrow> svPc ?t v = svPc s v" by simp
  from conjunct2 [OF ends] consider (same) "svMu ?t = svMu s" "svTrace ?t = svTrace s" "svPc ?t w = svPc s w"
    | (leave) e where "in_call (svPc s w)" "\<not> in_call (svPc ?t w)"
        "svMu ?t = (if holds_mu (svPc ?t w) then svMu s else None)" "svTrace ?t = svTrace s @ [e]"
        "e \<in> {PlEnd w, PlYield w}"
    by (elim disjE conjE exE) (rule that(1), assumption+ | rule that(2), assumption+)+
  then show ?thesis
  proof cases
    case same
    then show ?thesis using assms mu_same [OF m v] by (simp add: calls_inv_def)
  next
    case leave
    note l = mu_left [OF m v in_call_holds [OF leave(1)] leave(2)]
    have "caller (svMu s) (svPc s) = Some w" using l(1) leave(1) by (simp add: caller_def)
    then show ?thesis using assms leave(3,4,5) l(2,3)
      by (auto simp: calls_inv_def serial_append holder_append)
  qed
qed

lemma calls_inv_step:
  assumes "calls_inv s"
  shows "calls_inv (serve_step env s e)"
proof (cases "svCrashed s \<or> moves e")
  case True
  then show ?thesis using assms calls_inv_select calls_inv_go calls_inv_ends
    by (cases e) (auto simp: serve_step_def)
next
  case False
  then show ?thesis using assms other_event [of e env s]
    by (auto simp: serve_step_def calls_inv_def serial_append holder_append)
qed

lemma calls_inv_new: "calls_inv (new_serve n)"
  by (simp add: calls_inv_def mu_ok_def caller_def new_serve_def)

interpretation serve: step_system "\<lambda>s. \<exists>n. s = new_serve n" "serve_step env" calls_inv for env
  by unfold_locales (auto intro: calls_inv_new calls_inv_step)

lemma serve_run_calls: "calls_inv (serve_run env (new_serve n) es)"
  unfolding serve_run_def by (rule serve.run_inv) blast


end
