(* ===== verification/Hall_Replies.thy ===== *)
theory Hall_Replies
  imports Hall_Serve
begin

text \<open>
  What comes out of the goroutines of \<open>Hall_Serve\<close>: the responses of a session leave in the order of
  its requests; each loop calls the player at most once after the session has been closed, which may
  be after \<open>Logout\<close> and after the lock of the user was given back; a push to a session whose \<open>serve\<close>
  has not started never returns; and a stream that stops can leave the main loop blocked for ever.
\<close>

section \<open>Requests and responses\<close>

text \<open>The request a loop is at, the responses it has still to send, and a program counter with neither.\<close>

fun at_request :: "('p, 'a) loop_pc \<Rightarrow> hall_request list" where
  "at_request (AtCheck (TaskRequest r)) = [r]"
| "at_request (AtLock (TaskRequest r)) = [r]"
| "at_request (InCall (TaskRequest r)) = [r]"
| "at_request (InYield (TaskRequest r)) = [r]"
| "at_request (AtTest r rs) = [r]"
| "at_request x = []"

fun to_send :: "('p, 'a) loop_pc \<Rightarrow> hall_response list" where
  "to_send (AtReply rs) = rs"
| "to_send x = []"

fun no_reply :: "('p, 'a) loop_pc \<Rightarrow> bool" where
  "no_reply (AtReply rs) = False"
| "no_reply x = (at_request x = [])"

definition answers :: "'p serve_env \<Rightarrow> hall_request \<Rightarrow> hall_response list \<Rightarrow> bool" where
  "answers env r rs \<longleftrightarrow>
     (\<exists>name resp pushes. rs = reply_of (seEncode env) (sePushName env) r name resp pushes)"

fun tested :: "'p serve_env \<Rightarrow> ('p, 'a) loop_pc \<Rightarrow> bool" where
  "tested env (AtTest r rs) = answers env r rs"
| "tested env x = True"

definition responses_closed :: "('p, 'a) serve_state \<Rightarrow> bool" where
  "responses_closed s = (case svResponses s of Some c \<Rightarrow> chClosed c | None \<Rightarrow> False)"

definition reply_inv :: "'p serve_env \<Rightarrow> ('p, 'a) serve_state \<Rightarrow> bool" where
  "reply_inv env s \<longleftrightarrow>
     (\<forall>w. w \<noteq> MainLoop \<longrightarrow> no_reply (svPc s w)) \<and>
     svTaken s @ chan_contents (svRequests s) = svArrived s \<and>
     subseq (map fst (svReplies s) @ at_request (svPc s MainLoop)) (svTaken s) \<and>
     prefix (svOut s) (concat (map snd (svReplies s))) \<and>
     (\<not> responses_closed s \<longrightarrow> svOut s @ to_send (svPc s MainLoop) = concat (map snd (svReplies s))) \<and>
     list_all (\<lambda>(r, rs). answers env r rs) (svReplies s) \<and> tested env (svPc s MainLoop) \<and>
     (svRequests s = None \<longrightarrow> svResponses s = None)"

lemma subseq_drop_end: "subseq (xs @ ys) zs \<Longrightarrow> subseq xs zs"
  by (metis append_Nil2 list_emb_append2 subseq_order.order_trans list_emb_append_mono
        list_emb_Nil subseq_order.order_refl)

lemma subseq_both_end: "subseq xs ys \<Longrightarrow> subseq (xs @ zs) (ys @ zs)"
  by (intro list_emb_append_mono) simp_all

lemma reply_inv_main_select:
  assumes "reply_inv env s" and "svPc s MainLoop = AtSelect"
  shows "reply_inv env (main_select k s)"
proof (cases "k = PickChan \<and> (\<exists>r c. chan_recv (svRequests s) = Received r c)")
  case True
  then obtain r c where r: "k = PickChan" "chan_recv (svRequests s) = Received r c" by blast
  have "subseq (map fst (svReplies s)) (svTaken s)"
    using assms by (simp add: reply_inv_def)
  then have "subseq (map fst (svReplies s) @ [r]) (svTaken s @ [r])" by (rule subseq_both_end)
  moreover have "(svTaken s @ [r]) @ chQueue c = svArrived s"
    using chan_recv_conserves [OF _ r(2)] assms(1) by (simp add: reply_inv_def)
  ultimately show ?thesis using assms r by (simp add: reply_inv_def main_select_def responses_closed_def)
next
  case False
  then show ?thesis using assms
    by (cases k) (auto simp: main_select_def reply_inv_def responses_closed_def split: received.split)
qed

lemma reply_inv_other_loop:
  assumes "reply_inv env s" and "svPc t MainLoop = svPc s MainLoop"
    and "\<forall>w. w \<noteq> MainLoop \<longrightarrow> no_reply (svPc s w) \<longrightarrow> no_reply (svPc t w)"
    and "svTaken t = svTaken s" "svRequests t = svRequests s" "svArrived t = svArrived s"
      "svReplies t = svReplies s" "svOut t = svOut s" "svResponses t = svResponses s"
  shows "reply_inv env t"
  using assms(1) unfolding reply_inv_def responses_closed_def assms(2,4-9) using assms(3) by blast

lemma reply_inv_select:
  assumes "reply_inv env s" and "svPc s w = AtSelect"
  shows "reply_inv env (loop_select w k s)"
proof (cases "w = MainLoop")
  case True
  then show ?thesis using reply_inv_main_select assms by simp
next
  case False
  then show ?thesis
    by (intro reply_inv_other_loop [OF assms(1)])
       (cases w; cases k; simp add: push_select_def actor_select_def split: received.split)+
qed

lemma loop_go_no_reply:
  assumes "no_reply (svPc s w)"
  shows "no_reply (svPc (loop_go d w s) w) \<and> svTaken (loop_go d w s) = svTaken s
    \<and> svRequests (loop_go d w s) = svRequests s \<and> svArrived (loop_go d w s) = svArrived s
    \<and> svReplies (loop_go d w s) = svReplies s \<and> svOut (loop_go d w s) = svOut s
    \<and> svResponses (loop_go d w s) = svResponses s"
proof (cases "svPc s w")
  case (AtCheck t)
  then show ?thesis using assms by (cases t) (simp_all add: loop_go_def)
next
  case (AtLock t)
  then show ?thesis using assms by (cases t) (simp_all add: loop_go_def)
next
  case (InYield t)
  then show ?thesis using assms by (cases t) (simp_all add: loop_go_def)
qed (use assms in \<open>simp_all add: loop_go_def\<close>)

lemma call_ends_no_reply:
  assumes "no_reply (svPc s w)"
  shows "no_reply (svPc (call_ends enc pn w res s) w) \<and> svTaken (call_ends enc pn w res s) = svTaken s
    \<and> svRequests (call_ends enc pn w res s) = svRequests s \<and> svArrived (call_ends enc pn w res s) = svArrived s
    \<and> svReplies (call_ends enc pn w res s) = svReplies s \<and> svOut (call_ends enc pn w res s) = svOut s
    \<and> svResponses (call_ends enc pn w res s) = svResponses s"
proof (cases "svPc s w")
  case (InCall t)
  then show ?thesis using assms by (cases t; cases res) (simp_all add: call_ends_def)
qed (use assms in \<open>simp_all add: call_ends_def\<close>)

lemma reply_inv_go:
  assumes "reply_inv env s"
  shows "reply_inv env (loop_go d w s)"
proof (cases "w = MainLoop")
  case False
  then have "no_reply (svPc s w)" using assms by (simp add: reply_inv_def)
  note q = loop_go_no_reply [OF this, of d]
  have v: "\<forall>v. v \<noteq> w \<longrightarrow> svPc (loop_go d w s) v = svPc s v" using loop_go_pc [of w d s] by blast
  show ?thesis
    by (rule reply_inv_other_loop [OF assms]) (use q v False in \<open>simp_all, metis\<close>)
next
  case True
  have d: "subseq (map fst (svReplies s)) (svTaken s)"
    using assms by (auto simp: reply_inv_def intro: subseq_drop_end)
  show ?thesis
  proof (cases "svPc s MainLoop")
    case (AtCheck t)
    then show ?thesis using assms d True
      by (cases t) (auto simp: loop_go_def reply_inv_def responses_closed_def)
  next
    case (AtLock t)
    then show ?thesis using assms True
      by (cases t) (auto simp: loop_go_def reply_inv_def responses_closed_def)
  next
    case (InYield t)
    then show ?thesis using assms True
      by (cases t) (auto simp: loop_go_def reply_inv_def responses_closed_def)
  next
    case (AtTest r rs)
    then show ?thesis using assms d True
      by (auto simp: loop_go_def reply_inv_def responses_closed_def)
  next
    case (AtReply rs)
    show ?thesis
    proof (cases rs)
      case Nil
      then show ?thesis using AtReply assms d True by (auto simp: loop_go_def reply_inv_def responses_closed_def)
    next
      case (Cons x xs)
      show ?thesis
      proof (cases "chan_send (svResponses s) x")
        case (Sent c)
        then obtain c0 where c: "svResponses s = Some c0" "\<not> chClosed c0" "\<not> chClosed c"
          by (auto simp: chan_send_def split: option.splits if_splits)
        then have "svOut s @ x # xs = concat (map snd (svReplies s))"
          using assms AtReply Cons by (simp add: reply_inv_def responses_closed_def)
        moreover from this have "prefix (svOut s @ [x]) (concat (map snd (svReplies s)))"
          by (metis append.assoc append_Cons append_Nil prefixI)
        ultimately show ?thesis using assms AtReply Cons Sent c True
          by (auto simp: loop_go_def reply_inv_def responses_closed_def)
      next
        case SendBlocks
        then show ?thesis using assms AtReply Cons True by (simp add: loop_go_def)
      next
        case SendPanics
        then have "responses_closed s"
          by (auto simp: chan_send_def responses_closed_def split: option.splits if_splits)
        then show ?thesis using assms AtReply Cons SendPanics d True
          by (auto simp: loop_go_def reply_inv_def responses_closed_def)
      qed
    qed
  qed (use assms True in \<open>simp_all add: loop_go_def\<close>)
qed

lemma reply_inv_ends:
  assumes "reply_inv env s"
  shows "reply_inv env (call_ends (seEncode env) (sePushName env) w res s)"
    (is "reply_inv env ?t")
proof (cases "w = MainLoop")
  case False
  then have "no_reply (svPc s w)" using assms by (simp add: reply_inv_def)
  note q = call_ends_no_reply [OF this, of "seEncode env" "sePushName env" res]
  have v: "\<forall>v. v \<noteq> w \<longrightarrow> svPc ?t v = svPc s v"
    using call_ends_pc [of w "seEncode env" "sePushName env" res s] by blast
  show ?thesis
    by (rule reply_inv_other_loop [OF assms]) (use q v False in \<open>simp_all, metis\<close>)
next
  case True
  have d: "subseq (map fst (svReplies s)) (svTaken s)"
    using assms by (auto simp: reply_inv_def intro: subseq_drop_end)
  show ?thesis
  proof (cases "svPc s MainLoop")
    case (InCall t)
    show ?thesis
    proof (cases t)
      case (TaskRequest r)
      then show ?thesis using assms InCall d True
        by (cases res) (auto simp: call_ends_def reply_inv_def responses_closed_def answers_def)
    qed (use assms InCall d True in \<open>cases res; auto simp: call_ends_def reply_inv_def responses_closed_def; fail\<close>)+
  qed (use assms True in \<open>simp_all add: call_ends_def\<close>)
qed

lemma other_channels:
  assumes "\<not> moves e" and "svRequests s = None \<longrightarrow> svResponses s = None"
    and "svTaken s @ chan_contents (svRequests s) = svArrived s"
  shows "(responses_closed s \<longrightarrow> responses_closed (serve_apply env e s))
    \<and> (svRequests (serve_apply env e s) = None \<longrightarrow> svResponses (serve_apply env e s) = None)
    \<and> svTaken s @ chan_contents (svRequests (serve_apply env e s)) = svArrived (serve_apply env e s)"
proof (cases e)
  case (StreamRequest r)
  show ?thesis
  proof (cases "chan_send (svRequests s) r")
    case (Sent c)
    then have "svRequests s \<noteq> None" by (cases "svRequests s") (simp_all add: chan_send_def)
    then show ?thesis using assms StreamRequest Sent chan_send_conserves [OF assms(3) Sent]
      by (simp add: stream_request_def responses_closed_def)
  next
    case SendBlocks
    then have "stream_request r s = s" by (simp add: stream_request_def)
    then show ?thesis using assms StreamRequest by simp
  next
    case SendPanics
    then have "stream_request r s = s" by (simp add: stream_request_def)
    then show ?thesis using assms StreamRequest by simp
  qed
next
  case StreamRequestsEnd
  then show ?thesis using assms
    by (auto simp: stream_requests_end_def responses_closed_def chan_close_def split: option.split)
qed (use assms in \<open>auto simp: serve_start_def close_go_def stream_channels_def stream_forward_def
        stream_close_def stream_stop_def peer_push_def session_push_def inbox_send_def responses_closed_def
        chan_send_def chan_recv_def chan_close_def make_chan_def chan_contents_def
        split: close_stage.splits option.splits list.splits\<close>)

lemma reply_inv_step:
  assumes "reply_inv env s"
  shows "reply_inv env (serve_step env s e)"
proof (cases "svCrashed s \<or> moves e")
  case True
  then show ?thesis using assms reply_inv_select reply_inv_go reply_inv_ends
    by (cases e) (auto simp: serve_step_def)
next
  case False
  let ?t = "serve_apply env e s"
  have i: "svRequests s = None \<longrightarrow> svResponses s = None" "svTaken s @ chan_contents (svRequests s) = svArrived s"
    using assms by (simp_all add: reply_inv_def)
  have "svPc ?t = svPc s \<and> svReplies ?t = svReplies s \<and> svTaken ?t = svTaken s \<and> svOut ?t = svOut s"
    using False other_event [of e env s] by blast
  with False assms other_channels [OF _ i, of e env] show ?thesis
    by (simp add: serve_step_def reply_inv_def) blast
qed

lemma reply_inv_new: "reply_inv env (new_serve n)"
  by (simp add: reply_inv_def new_serve_def chan_contents_def)

interpretation replies: step_system "\<lambda>s. \<exists>n. s = new_serve n" "serve_step env" "reply_inv env" for env
  by unfold_locales (auto intro: reply_inv_new reply_inv_step)

lemma serve_run_replies: "reply_inv env (serve_run env (new_serve n) es)"
  unfolding serve_run_def by (rule replies.run_inv) blast

section \<open>After the close\<close>

text \<open>How often a loop begins a call of the player after the swap of \<open>isClosed\<close>.\<close>

fun begins :: "loop \<Rightarrow> ('p, 'a) player_event \<Rightarrow> bool" where
  "begins w (PlBegin v t) = (v = w)"
| "begins w e = False"

definition late_calls :: "loop \<Rightarrow> ('p, 'a) player_event list \<Rightarrow> nat" where
  "late_calls w tr = length (filter (begins w) (dropWhile (\<lambda>e. e \<noteq> PlClosed) tr))"

fun past_check :: "('p, 'a) loop_pc \<Rightarrow> nat" where
  "past_check (AtLock t) = 1"
| "past_check x = 0"

definition late_inv :: "loop \<Rightarrow> ('p, 'a) serve_state \<Rightarrow> bool" where
  "late_inv w s \<longleftrightarrow> (svClosed s \<longleftrightarrow> PlClosed \<in> set (svTrace s)) \<and>
     late_calls w (svTrace s) + (if svClosed s then past_check (svPc s w) else 0) \<le> 1"

lemma before_closed: "PlClosed \<notin> set tr \<Longrightarrow> dropWhile (\<lambda>e. e \<noteq> PlClosed) tr = []"
  by (induction tr) auto

lemma late_calls_append:
  "late_calls w (tr @ [e]) = (if PlClosed \<in> set tr \<and> begins w e then Suc (late_calls w tr) else late_calls w tr)"
proof (cases "PlClosed \<in> set tr")
  case True
  then have "dropWhile (\<lambda>e. e \<noteq> PlClosed) (tr @ [e]) = dropWhile (\<lambda>e. e \<noteq> PlClosed) tr @ [e]"
    by (induction tr) auto
  then show ?thesis using True by (simp add: late_calls_def)
next
  case False
  then have "dropWhile (\<lambda>e. e \<noteq> PlClosed) (tr @ [e]) = (if e = PlClosed then [e] else [])"
    by (induction tr) auto
  then show ?thesis using False by (simp add: late_calls_def before_closed)
qed

lemma late_calls_zero: "PlClosed \<notin> set tr \<Longrightarrow> late_calls w tr = 0"
  by (induction tr) (auto simp: late_calls_def)

lemma past_check_le: "past_check x \<le> 1"
  by (cases x) auto

lemma late_inv_closed_first:
  "late_inv w s \<Longrightarrow> svClosed s = (PlClosed \<in> set (svTrace s)) \<and> (\<not> svClosed s \<longrightarrow> late_calls w (svTrace s) = 0)"
  using late_calls_zero by (auto simp: late_inv_def)

lemma late_inv_same:
  assumes "late_inv w s" and "svTrace t = svTrace s" and "svClosed t = svClosed s"
    and "svClosed s \<Longrightarrow> past_check (svPc t w) \<le> past_check (svPc s w)"
  shows "late_inv w t"
  using assms by (cases "svClosed s") (force simp: late_inv_def)+

lemma late_inv_event:
  assumes "late_inv w s" and "svTrace t = svTrace s @ [e]" and "\<not> begins w e" and "e \<noteq> PlClosed"
    and "svClosed t = svClosed s" and "svClosed s \<Longrightarrow> past_check (svPc t w) \<le> past_check (svPc s w)"
  shows "late_inv w t"
  using assms by (cases "svClosed s") (force simp: late_inv_def late_calls_append)+

lemma late_inv_go:
  assumes "late_inv w s"
  shows "late_inv w (loop_go d v s)"
proof -
  have c: "svClosed (loop_go d v s) = svClosed s"
    by (cases "svPc s v") (simp_all add: loop_go_def split: task.split list.split sent.split)
  show ?thesis
  proof (cases "\<exists>t. svPc s v = AtLock t \<and> svMu s = None")
    case True
    then obtain t where t: "svPc s v = AtLock t" "svMu s = None" by blast
    then have tr: "svTrace (loop_go d v s) = svTrace s @ [PlBegin v t]" and pc: "svPc (loop_go d v s) v = InCall t"
      by (simp_all add: loop_go_def)
    show ?thesis
    proof (cases "v = w")
      case v: True
      have "late_calls w (svTrace s @ [PlBegin v t]) \<le> 1"
      proof (cases "svClosed s")
        case cl: True
        then have "late_calls w (svTrace s) = 0" using assms t(1) v by (simp add: late_inv_def)
        then show ?thesis by (simp add: late_calls_append)
      next
        case False
        then show ?thesis using late_inv_closed_first [OF assms] by (simp add: late_calls_append)
      qed
      then show ?thesis using assms c tr pc v by (auto simp: late_inv_def)
    next
      case False
      then have "svPc (loop_go d v s) w = svPc s w" using loop_go_pc [of v d s] by metis
      then show ?thesis using False c tr by (intro late_inv_event [OF assms tr]) simp_all
    qed
  next
    case no: False
    show ?thesis
    proof (cases "\<exists>t. svPc s v = InYield t \<and> svMu s = None")
      case True
      then show ?thesis using c
        by (intro late_inv_event [OF assms, where e = "PlResume v"]) (auto simp: loop_go_def)
    next
      case False
      then show ?thesis using no
        by (intro late_inv_same [OF assms _ c]; cases "svPc s v")
           (auto simp: loop_go_def split: task.split list.split sent.split)
    qed
  qed
qed

lemma late_inv_select:
  assumes "late_inv w s" and "svPc s v = AtSelect" and "w \<in> {MainLoop, PushLoop}"
  shows "late_inv w (loop_select v k s)"
proof (rule late_inv_same [OF assms(1)])
  show "svTrace (loop_select v k s) = svTrace s" using loop_select_pc [OF assms(2)] by simp
  show "svClosed (loop_select v k s) = svClosed s"
    by (cases v; cases k) (simp_all add: main_select_def push_select_def actor_select_def split: received.split)
  show "past_check (svPc (loop_select v k s) w) \<le> past_check (svPc s w)"
    using assms(2,3)
    by (cases v; cases k) (auto simp: main_select_def push_select_def actor_select_def split: received.split)
qed

lemma late_inv_ends:
  assumes "late_inv w s"
  shows "late_inv w (call_ends enc pn v res s)"
proof (cases "svPc s v")
  case (InCall t)
  let ?t = "call_ends enc pn v res s"
  have "(\<exists>e. svTrace ?t = svTrace s @ [e] \<and> \<not> begins w e \<and> e \<noteq> PlClosed) \<and> svClosed ?t = svClosed s
    \<and> past_check (svPc ?t w) \<le> past_check (svPc s w)"
    using InCall by (cases res; cases t) (auto simp: call_ends_def)
  then show ?thesis using late_inv_event [OF assms] by blast
qed (use assms in \<open>simp_all add: call_ends_def\<close>)

lemma late_inv_step:
  assumes "late_inv w s" and "w \<in> {MainLoop, PushLoop}"
  shows "late_inv w (serve_step env s e)"
proof (cases "svCrashed s \<or> moves e")
  case True
  then show ?thesis using assms late_inv_select late_inv_go late_inv_ends
    by (cases e) (auto simp: serve_step_def)
next
  case False
  let ?t = "serve_apply env e s"
  have t: "serve_step env s e = ?t" using False by (simp add: serve_step_def)
  have pc: "svPc ?t = svPc s" using False other_event [of e env s] by blast
  from False other_event [of e env s] consider
      (same) "svTrace ?t = svTrace s" "svClosed ?t = svClosed s"
    | (event) x where "svTrace ?t = svTrace s @ [x]" "x \<in> {PlLogout, PlUnlocked}" "svClosed ?t = svClosed s"
    | (closed) "svTrace ?t = svTrace s @ [PlClosed]" "svClosed ?t"
    by blast
  then show ?thesis
  proof cases
    case same
    then show ?thesis using late_inv_same [OF assms(1)] pc t by simp
  next
    case event
    then show ?thesis unfolding t by (intro late_inv_event [OF assms(1) event(1)]) (auto simp: pc)
  next
    case closed
    show ?thesis
    proof (cases "svClosed s")
      case True
      then show ?thesis using closed assms(1) pc t by (simp add: late_inv_def late_calls_append)
    next
      case False
      then show ?thesis using closed late_inv_closed_first [OF assms(1)] pc t past_check_le [of "svPc s w"]
        by (simp add: late_inv_def late_calls_append)
    qed
  qed
qed

lemma late_inv_new: "late_inv w (new_serve n)"
  by (simp add: late_inv_def new_serve_def late_calls_def)

lemma serve_run_late: "w \<in> {MainLoop, PushLoop} \<Longrightarrow> late_inv w (serve_run env (new_serve n) es)"
proof (induction es rule: rev_induct)
  case (snoc e es)
  then show ?case using late_inv_step by (simp add: serve_run_def)
qed (simp add: serve_run_def late_inv_new)

section \<open>Blocked for ever\<close>

lemma push_stuck_step:
  assumes "svPushers s i = PushStuck"
  shows "svPushers (serve_step env s e) i = PushStuck"
proof (cases "svCrashed s")
  case False
  have go: "svPushers (loop_go d w s) = svPushers s" for d w
    by (cases "svPc s w") (simp_all add: loop_go_def split: task.split list.split sent.split)
  have ends: "svPushers (call_ends enc pn w res s) = svPushers s" for enc pn w res
    by (cases "svPc s w"; cases res) (simp_all add: call_ends_def split: task.split)
  have sel: "svPushers (loop_select w k s) = svPushers s" for w k
    by (cases w; cases k) (simp_all add: main_select_def push_select_def actor_select_def split: received.split)
  show ?thesis
    using False assms go ends sel
    by (cases e)
       (auto simp: serve_step_def serve_start_def close_go_def stream_channels_def stream_request_def
          stream_requests_end_def stream_forward_def stream_close_def stream_stop_def peer_push_def
          session_push_def inbox_send_def
          split: close_stage.split sent.split received.split option.split)
qed (use assms in \<open>simp add: serve_step_def\<close>)

lemma push_stuck_run: "svPushers s i = PushStuck \<Longrightarrow> svPushers (serve_run env s es) i = PushStuck"
  by (induction es arbitrary: s) (simp_all add: serve_run_def push_stuck_step)

text \<open>
  The main loop waits with the lock to send \<open>x\<close> on a full channel that nobody reads and nobody will
  close.
\<close>

definition stranded :: "hall_response \<Rightarrow> hall_response list \<Rightarrow> ('p, 'a) serve_state \<Rightarrow> bool" where
  "stranded x xs s \<longleftrightarrow> \<not> svForwarding s \<and> svRequests s \<noteq> None \<and> svPc s MainLoop = AtReply (x # xs) \<and>
     chan_send (svResponses s) x = SendBlocks \<and> \<not> svCrashed s"

lemma blocked_send:
  "chan_send ch x = SendBlocks \<longleftrightarrow> chan_send ch y = SendBlocks"
  by (auto simp: chan_send_def split: option.split)

lemma stranded_step:
  assumes "stranded x xs s" and "calls_inv s"
  shows "stranded x xs (serve_step env s e)"
proof -
  note st = assms(1) [unfolded stranded_def]
  have mu: "\<forall>w. svMu s = Some w \<longleftrightarrow> holds_mu (svPc s w)" using assms(2) by (simp add: calls_inv_def mu_ok_def)
  then have muM: "svMu s = Some MainLoop" using st by simp
  have idle: "\<not> holds_mu (svPc s w)" if "w \<noteq> MainLoop" for w
  proof
    assume "holds_mu (svPc s w)"
    then have "svMu s = Some w" using mu by blast
    then show False using muM that by simp
  qed
  have b: "chan_send (svResponses s) y = SendBlocks" for y
    using st blocked_send [of "svResponses s" x y] by simp
  show ?thesis
  proof (cases e)
    case (Select w k)
    then show ?thesis using st
      by (cases w; cases k)
         (auto simp: serve_step_def stranded_def push_select_def actor_select_def split: received.split)
  next
    case (Go w)
    show ?thesis
    proof (cases "w = MainLoop")
      case True
      then show ?thesis using st Go by (simp add: serve_step_def stranded_def loop_go_def)
    next
      case False
      then show ?thesis using st Go idle [OF False] muM
        by (cases "svPc s w") (simp_all add: serve_step_def stranded_def loop_go_def split: task.split)
    qed
  next
    case (CallEnds w res)
    have "call_ends (seEncode env) (sePushName env) w res s = s"
    proof (cases "svPc s w")
      case (InCall t)
      then show ?thesis using st idle [of w] by (cases "w = MainLoop") simp_all
    qed (simp_all add: call_ends_def)
    then show ?thesis using assms(1) CallEnds by (simp add: serve_step_def)
  next
    case (SessionPush p)
    have "session_push (seEncode env) (sePushName env) (seSessionId env) p s = s"
      using b by (simp add: session_push_def split: option.split)
    then show ?thesis using assms(1) SessionPush by (simp add: serve_step_def)
  qed (use st in \<open>auto simp: serve_step_def stranded_def serve_start_def close_go_def stream_channels_def
        stream_request_def stream_requests_end_def stream_forward_def stream_close_def stream_stop_def
        peer_push_def inbox_send_def split: close_stage.split sent.split option.split\<close>)
qed

lemma stranded_run:
  assumes "stranded x xs s" and "calls_inv s"
  shows "stranded x xs (serve_run env s es)"
  using assms
  by (induction es arbitrary: s) (simp_all add: serve_run_def stranded_step calls_inv_step)

section \<open>Properties\<close>


definition demo_env :: "nat serve_env" where
  "demo_env = \<lparr>seDecodes = (\<lambda>d. True), seEncode = (\<lambda>p. Some [1]), sePushName = (\<lambda>p. ''Push''), sePushSize = 4,
     seRequestSize = 4, seResponseSize = 1, seSessionId = 7\<rparr>"

definition demo_request :: hall_request where
  "demo_request = \<lparr>hqSessionId = 7, hqReqId = 3, hqData = [1, 2]\<rparr>"

definition demo_answered :: "(nat, nat) serve_event list" where
  "demo_answered = [StreamChannels', ServeStart, StreamRequest demo_request, Select MainLoop PickChan, Go MainLoop,
     Go MainLoop, CallEnds MainLoop (CallReturns ''Info'' [9] [0, 1]), Go MainLoop, Go MainLoop]"


text \<open>
  After the session is closed its main loop and its push loop each call the player at most once
  more, namely when they had passed the test of \<open>isClosed\<close> before.
\<close>

lemma late_calls_bounded:
  "late_calls MainLoop (svTrace (serve_run env (new_serve n) es)) \<le> 1
   \<and> late_calls PushLoop (svTrace (serve_run env (new_serve n) es)) \<le> 1"
  using serve_run_late [of MainLoop env n es] serve_run_late [of PushLoop env n es]
  by (simp add: late_inv_def)

text \<open>
  That one call can come after the player has logged out and after the lock of the user was
  given back: the timer's save then writes the data of a user another hall may have loaded.
\<close>

lemma save_after_unlock:
  "svTrace (serve_run demo_env (new_serve 1)
     [ServeStart, Select MainLoop PickSave, Go MainLoop, CloseGo, CloseGo, CloseGo, CloseGo, Go MainLoop]
       :: (nat, nat) serve_state) =
   [PlClosed, PlLogout, PlUnlocked, PlBegin MainLoop TaskSave]"
  by (simp add: serve_run_def serve_step_def serve_start_def main_select_def loop_go_def close_go_def
      new_serve_def serve_defs make_chan_def)

text \<open>
  A push to a session that is in the table and whose \<open>serve\<close> has not started is a send on a nil
  channel: it never returns, whatever happens then.
\<close>

lemma early_push_never_returns:
  "svPushers (serve_run env (new_serve n) (PeerPush i p # es)) i = PushStuck"
proof -
  have "svPushers (serve_step env (new_serve n) (PeerPush i p)) i = PushStuck"
    by (simp add: serve_step_def peer_push_def new_serve_def)
  from push_stuck_run [OF this] show ?thesis by (simp add: serve_run_def)
qed

text \<open>
  A stream that stops with a response in its channel takes that one response and leaves the
  channel open: when the main loop then fills the channel it waits for ever, and holds the lock.
\<close>

lemma stranded_reply_keeps_lock:
  assumes "stranded x xs (serve_run env (new_serve n) es)"
  shows "svMu (serve_run env (new_serve n) (es @ es')) = Some MainLoop
    \<and> svPc (serve_run env (new_serve n) (es @ es')) MainLoop = AtReply (x # xs)"
proof -
  let ?t = "serve_run env (new_serve n) (es @ es')"
  have "?t = serve_run env (serve_run env (new_serve n) es) es'" by (simp add: serve_run_def)
  then have "stranded x xs ?t" using stranded_run [OF assms serve_run_calls] by simp
  then have "svPc ?t MainLoop = AtReply (x # xs)" by (simp add: stranded_def)
  moreover from this have "svMu ?t = Some MainLoop"
    using serve_run_calls [of env n "es @ es'"] by (simp add: calls_inv_def mu_ok_def)
  ultimately show ?thesis by blast
qed

text \<open>The stream stops while the response is queued; the two pushes of the request follow.\<close>

lemma stranded_reply_keeps_lock_witness:
  "svMu (serve_run demo_env (new_serve 1) ((demo_answered @ [StreamStop, CloseGo, Go MainLoop]) @ [CloseGo, CloseGo, CloseGo]))
   = Some MainLoop"
proof -
  let ?x = "\<lparr>hrSessionId = 7, hrReqId = 0, hrRoute = ''Push'', hrData = [1]\<rparr>"
  have "stranded ?x [] (serve_run demo_env (new_serve 1) (demo_answered @ [StreamStop, CloseGo, Go MainLoop]))"
    by code_simp
  from stranded_reply_keeps_lock [OF this] show ?thesis by blast
qed

end
