(* ===== verification/Hall_Push.thy ===== *)
theory Hall_Push
  imports Hall_Serve
begin

text \<open>
  Pushes between players, \<open>hall_service.Push\<close> and \<open>MustPush\<close> of
  \<open>framework/smallgame/game/hall/hall.go\<close> and the handlers \<open>MustPush\<close>, \<open>Info\<close> and \<open>HealthCheck\<close> of
  \<open>server.go\<close>: a push goes to the session of the user at this hall, else by a remote call to the hall
  the registry names. The registry, the remote call and the coding of pushes are parameters; the
  composition instantiates the call with the handler of the other hall.
\<close>

section \<open>The handlers\<close>

datatype push_error = PushNotEncoded | PushNotDecoded | PushUserNotFound | PushRpcFailed | PushNoSession | PushSendPanic

text \<open>A push is queued in a session's channel, waits for room (or for ever, on nil), or returns.\<close>

datatype 'p pushed = Queued "'p chan" | Waits | Returned "push_error option"

text \<open>The table gives the channel of the session of a user; the deferred function recovers the panic of a send.\<close>

definition send_push :: "'p chan option \<Rightarrow> 'p \<Rightarrow> 'p pushed" where
  "send_push ch p =
     (case chan_send ch p of Sent c \<Rightarrow> Queued c | SendBlocks \<Rightarrow> Waits | SendPanics \<Rightarrow> Returned (Some PushSendPanic))"

definition hall_Push ::
  "('p \<Rightarrow> bytes option) \<Rightarrow> (string \<Rightarrow> 'n option) \<Rightarrow> ('n \<Rightarrow> string \<Rightarrow> bytes \<Rightarrow> 'p pushed) \<Rightarrow>
     (string \<Rightarrow> 'p chan option option) \<Rightarrow> string \<Rightarrow> 'p \<Rightarrow> 'p pushed" where
  "hall_Push encode whereIsUser rpc sessions userId push =
     (case sessions userId of
        Some ch \<Rightarrow> send_push ch push
      | None \<Rightarrow>
          (case encode push of
             None \<Rightarrow> Returned (Some PushNotEncoded)
           | Some data \<Rightarrow>
               (case whereIsUser userId of
                  None \<Rightarrow> Returned (Some PushUserNotFound)
                | Some peer \<Rightarrow> rpc peer userId data)))"

definition hall_MustPush ::
  "('p \<Rightarrow> bytes option) \<Rightarrow> (string \<Rightarrow> 'n option) \<Rightarrow> ('n \<Rightarrow> string \<Rightarrow> bytes \<Rightarrow> 'p pushed) \<Rightarrow>
     (string \<Rightarrow> 'p chan option option) \<Rightarrow> string \<Rightarrow> 'p \<Rightarrow> 'p pushed" where
  "hall_MustPush encode whereIsUser rpc sessions userId push =
     (case sessions userId of
        None \<Rightarrow>
          (case encode push of
             None \<Rightarrow> Returned (Some PushNotEncoded)
           | Some data \<Rightarrow>
               (case whereIsUser userId of
                  None \<Rightarrow> Returned (Some PushUserNotFound)
                | Some peer \<Rightarrow> rpc peer userId data))
      | Some ch \<Rightarrow> send_push ch push)"

definition server_MustPush ::
  "(bytes \<Rightarrow> 'p option) \<Rightarrow> (string \<Rightarrow> 'p chan option option) \<Rightarrow> string \<Rightarrow> bytes \<Rightarrow> 'p pushed" where
  "server_MustPush decode sessions userId data =
     (case decode data of
        None \<Rightarrow> Returned (Some PushNotDecoded)
      | Some push \<Rightarrow>
          (case sessions userId of None \<Rightarrow> Returned (Some PushNoSession) | Some ch \<Rightarrow> send_push ch push))"

text \<open>What the gateway asks a hall: \<open>Info\<close> and \<open>HealthCheck\<close>.\<close>

record info_response =
  irBuildTime :: "64 word"
  irAppVersion :: string
  irSessionCount :: int

definition Info :: "64 word \<Rightarrow> string \<Rightarrow> int \<Rightarrow> info_response" where
  "Info buildTime appVersion sessionCount =
     \<lparr>irBuildTime = buildTime, irAppVersion = appVersion, irSessionCount = sessionCount\<rparr>"

section \<open>From hall to hall\<close>

text \<open>
  \<open>Push\<close> at hall \<open>a\<close> of a cluster: \<open>tables\<close> are the sessions of every hall, and the remote call is
  the handler of the hall called, unless the network loses it.
\<close>

definition cluster_push ::
  "('p \<Rightarrow> bytes option) \<Rightarrow> (bytes \<Rightarrow> 'p option) \<Rightarrow> (string \<Rightarrow> 'n option) \<Rightarrow> ('n \<Rightarrow> bool) \<Rightarrow>
     ('n \<Rightarrow> string \<Rightarrow> 'p chan option option) \<Rightarrow> 'n \<Rightarrow> string \<Rightarrow> 'p \<Rightarrow> 'p pushed" where
  "cluster_push encode decode whereIsUser reachable tables a userId push =
     hall_Push encode whereIsUser
       (\<lambda>b u data. if reachable b then server_MustPush decode (tables b) u data else Returned (Some PushRpcFailed))
       (tables a) userId push"

text \<open>
  \<open>MustPush\<close> promises an error for a user who is not online and \<open>Push\<close> none; they are the same
  function.
\<close>

lemma hall_MustPush_eq: "hall_MustPush = hall_Push"
  by (intro ext) (simp add: hall_MustPush_def hall_Push_def split: option.split)

lemma send_push_cases:
  "send_push ch p = Queued c \<longleftrightarrow> chan_send ch p = Sent c"
  "send_push ch p = Waits \<longleftrightarrow> chan_send ch p = SendBlocks"
  by (simp_all add: send_push_def split: sent.split)

lemma cluster_push_local:
  "tables a userId = Some ch \<Longrightarrow>
   cluster_push encode decode whereIsUser reachable tables a userId push = send_push ch push"
  by (simp add: cluster_push_def hall_Push_def)

text \<open>
  A push from hall \<open>a\<close> ends in the channel of a session exactly when the user has a session at
  \<open>a\<close> with room, or has none at \<open>a\<close> and one with room at the reachable hall the registry names; the
  channel then holds what it held and the push, as the other hall decodes it, at its end.
\<close>

lemma push_reaches_session:
  assumes "\<And>p d. encode p = Some d \<Longrightarrow> decode d = Some p"
  shows "cluster_push encode decode whereIsUser reachable tables a userId push = Queued c \<longleftrightarrow>
    (\<exists>b ch. tables b userId = Some (Some ch) \<and> \<not> chClosed ch \<and> length (chQueue ch) < chCap ch
       \<and> c = ch\<lparr>chQueue := chQueue ch @ [push]\<rparr>
       \<and> (b = a \<or> tables a userId = None \<and> whereIsUser userId = Some b \<and> reachable b \<and> encode push \<noteq> None))"
proof -
  have send: "send_push ch push = Queued c \<longleftrightarrow>
      (\<exists>x. ch = Some x \<and> \<not> chClosed x \<and> length (chQueue x) < chCap x \<and> c = x\<lparr>chQueue := chQueue x @ [push]\<rparr>)" for ch
    by (auto simp: send_push_cases chan_send_def split: option.splits if_splits)
  show ?thesis
  proof (cases "tables a userId")
    case (Some ch)
    then show ?thesis by (simp add: cluster_push_local [where tables = tables and a = a and userId = userId, OF Some] send)
  next
    case None
    have a: "\<not> (\<exists>ch. tables a userId = Some (Some ch))" using None by simp
    show ?thesis
    proof (cases "encode push")
      case None
      then show ?thesis using \<open>tables a userId = None\<close> by (auto simp: cluster_push_def hall_Push_def)
    next
      case (Some d)
      show ?thesis
      proof (cases "whereIsUser userId")
        case None
        then show ?thesis using \<open>tables a userId = None\<close> Some by (auto simp: cluster_push_def hall_Push_def)
      next
        case b: (Some b)
        have "cluster_push encode decode whereIsUser reachable tables a userId push =
          (if reachable b then server_MustPush decode (tables b) userId d else Returned (Some PushRpcFailed))"
          using None Some b by (simp add: cluster_push_def hall_Push_def)
        also have "\<dots> = Queued c \<longleftrightarrow> reachable b \<and> (\<exists>ch. tables b userId = Some ch \<and> send_push ch push = Queued c)"
          using assms [OF Some] by (simp add: server_MustPush_def split: option.split)
        finally show ?thesis using a Some b None by (auto simp: send)
      qed
    qed
  qed
qed

text \<open>Two halls; the user is at the second.\<close>

lemma push_reaches_session_witness:
  "cluster_push (\<lambda>p. Some [p]) (\<lambda>d. case d of [p] \<Rightarrow> Some p | _ \<Rightarrow> None) (\<lambda>u. Some 1) (\<lambda>b. True)
     (\<lambda>b u. if b = 1 then Some (Some (make_chan 2)) else None) (0 :: nat) ''u'' 5
   = Queued ((make_chan 2)\<lparr>chQueue := [5]\<rparr>)"
  by (subst push_reaches_session) (simp_all add: make_chan_def)

end
