(* ===== verification/Gateway_Upstream.thy ===== *)
theory Gateway_Upstream
  imports Registry_Peer
begin

text \<open>
  The halls a gateway knows, \<open>framework/smallgame/gateway/server/upstream.go\<close>, and the registry
  handlers of \<open>server.go\<close>: the table of upstreams with the program each upstream runs (\<open>serve\<close>), and
  \<open>SelectPeer\<close>, which chooses the hall of a new session.

  The lemmas: what \<open>SelectPeer\<close> chooses, for every order in which \<open>sync.Map.Range\<close> visits the table;
  that the table has exactly the peers the registry announced; and what happens to a peer that is
  announced twice.
\<close>

section \<open>State\<close>

datatype hall_status = HallOK | HallUnAvailable

text \<open>
  Where the goroutine \<open>serve\<close> is: dialing, opening the gate stream, asking for \<open>Info\<close>, in its two
  loops (the flag tells whether the one that reads the gate stream still runs), or returned.
\<close>

datatype serve_phase = ServeDial | ServeGateStream | ServeInfo | ServeRun bool | ServeExit

record upstream =
  upId :: "32 word"
  upFullName :: string
  upAddress :: string
  upClient :: bool
  upDone :: bool
  upPlayerCount :: int
  upBuildTime :: int
  upStatus :: hall_status
  upAppVersion :: string
  upServe :: serve_phase

text \<open>The table holds pointers: an upstream lives on after it has left the table.\<close>

record upstream_map =
  umRef :: "32 word \<rightharpoonup> nat"
  umObj :: "nat \<Rightarrow> upstream"
  umNext :: nat

record upstream_config =
  ucName :: string
  ucMinId :: "32 word"
  ucMaxId :: "32 word"

definition set_upstream :: "nat \<Rightarrow> upstream \<Rightarrow> upstream_map \<Rightarrow> upstream_map" where
  "set_upstream r u m = m\<lparr>umObj := (umObj m)(r := u)\<rparr>"

definition newUpstream :: "peer \<Rightarrow> upstream" where
  "newUpstream p =
     \<lparr>upId = pId p, upFullName = pFullName p, upAddress = pAddress p, upClient = False, upDone = False,
      upPlayerCount = 0, upBuildTime = 0, upStatus = HallUnAvailable, upAppVersion = [], upServe = ServeDial\<rparr>"

definition upstream_close :: "nat \<Rightarrow> upstream_map \<Rightarrow> upstream_map" where
  "upstream_close r m = set_upstream r (umObj m r\<lparr>upDone := True\<rparr>) m"

section \<open>The handlers of the registry\<close>

text \<open>\<open>go upstream.serve()\<close> is \<open>upServe\<close> of the new upstream, whether it was stored or not.\<close>

definition map_OnPeerAdd :: "peer \<Rightarrow> upstream_map \<Rightarrow> upstream_map" where
  "map_OnPeerAdd p m =
     (let r = umNext m;
          m = m\<lparr>umObj := (umObj m)(r := newUpstream p), umNext := Suc r\<rparr>
      in case umRef m (pId p) of
           Some old \<Rightarrow> upstream_close old m
         | None \<Rightarrow> m\<lparr>umRef := (umRef m)(pId p \<mapsto> r)\<rparr>)"

definition map_OnPeerDelete :: "peer \<Rightarrow> upstream_map \<Rightarrow> upstream_map" where
  "map_OnPeerDelete p m =
     (case umRef m (pId p) of
        Some old \<Rightarrow> upstream_close old (m\<lparr>umRef := (umRef m)(pId p := None)\<rparr>)
      | None \<Rightarrow> m)"

definition map_OnPeerUpdate :: "peer \<Rightarrow> upstream_map \<Rightarrow> upstream_map" where
  "map_OnPeerUpdate p m =
     (case umRef m (pId p) of
        Some old \<Rightarrow> set_upstream old (umObj m old\<lparr>upAddress := pAddress p\<rparr>) m
      | None \<Rightarrow> m)"

text \<open>The handlers of the server: peers of another name, or with an id out of range, are ignored.\<close>

definition ignored :: "upstream_config \<Rightarrow> peer \<Rightarrow> bool" where
  "ignored c p \<longleftrightarrow> pName p \<noteq> ucName c \<or> sint (pId p) < sint (ucMinId c) \<or> sint (pId p) > sint (ucMaxId c)"

definition server_OnPeerAdd :: "upstream_config \<Rightarrow> peer \<Rightarrow> upstream_map \<Rightarrow> upstream_map" where
  "server_OnPeerAdd c p m = (if ignored c p then m else map_OnPeerAdd p m)"

definition server_OnPeerDelete :: "upstream_config \<Rightarrow> peer \<Rightarrow> upstream_map \<Rightarrow> upstream_map" where
  "server_OnPeerDelete c p m = (if ignored c p then m else map_OnPeerDelete p m)"

definition server_OnPeerUpdate :: "upstream_config \<Rightarrow> peer \<Rightarrow> upstream_map \<Rightarrow> upstream_map" where
  "server_OnPeerUpdate c p m = (if ignored c p then m else map_OnPeerUpdate p m)"

section \<open>Serving an upstream\<close>

text \<open>
  What comes back to \<open>serve\<close>: the results of its calls and, where it selects on it, the end of its
  context. Its deferred function clears the client and cancels the context.
\<close>

datatype serve_event =
    DialReply bool | GateStreamReply bool | InfoReply "(int \<times> string) option"
  | HeartbeatReply "(int \<times> hall_status) option" | GateRecvFail | ServeDone

definition serve_exit :: "upstream \<Rightarrow> upstream" where
  "serve_exit u = u\<lparr>upClient := False, upDone := True, upServe := ServeExit\<rparr>"

fun serve_step :: "serve_event \<Rightarrow> upstream \<Rightarrow> upstream" where
  "serve_step (DialReply ok) u =
     (if upServe u = ServeDial \<and> ok then u\<lparr>upServe := ServeGateStream\<rparr> else u)"
| "serve_step (GateStreamReply ok) u =
     (if upServe u = ServeGateStream \<and> ok then u\<lparr>upServe := ServeInfo\<rparr> else u)"
| "serve_step (InfoReply resp) u =
     (if upServe u = ServeInfo
      then (case resp of
              None \<Rightarrow> serve_exit u
            | Some (buildTime, version) \<Rightarrow>
                u\<lparr>upBuildTime := buildTime, upAppVersion := version, upClient := True, upServe := ServeRun True\<rparr>)
      else u)"
| "serve_step (HeartbeatReply resp) u =
     (case (upServe u, resp) of
        (ServeRun b, Some (n, status)) \<Rightarrow> u\<lparr>upPlayerCount := n, upStatus := status\<rparr>
      | _ \<Rightarrow> u)"
| "serve_step GateRecvFail u =
     (if upServe u = ServeRun True then u\<lparr>upStatus := HallUnAvailable, upServe := ServeRun False\<rparr> else u)"
| "serve_step ServeDone u =
     (if upDone u \<and> upServe u \<noteq> ServeInfo \<and> upServe u \<noteq> ServeExit then serve_exit u else u)"

section \<open>SelectPeer\<close>

text \<open>\<open>HealthCheck\<close>: the hall's answer, or none; true when there is no error.\<close>

definition HealthCheck :: "(nat \<Rightarrow> hall_status option) \<Rightarrow> nat \<Rightarrow> upstream_map \<Rightarrow> upstream_map \<times> bool" where
  "HealthCheck health r m =
     (if \<not> upClient (umObj m r) then (m, False)
      else (case health r of
              None \<Rightarrow> (m, False)
            | Some status \<Rightarrow> (set_upstream r (umObj m r\<lparr>upStatus := status\<rparr>) m, status = HallOK)))"

text \<open>The two loops, in the orders in which \<open>Range\<close> visits the keys.\<close>

fun max_build_time :: "upstream list \<Rightarrow> int \<Rightarrow> int" where
  "max_build_time [] best = best"
| "max_build_time (u # us) best =
     max_build_time us (if upClient u \<and> upBuildTime u > best then upBuildTime u else best)"

fun least_loaded :: "int \<Rightarrow> (nat \<times> upstream) list \<Rightarrow> int \<Rightarrow> nat option \<Rightarrow> nat option" where
  "least_loaded best [] least selected = selected"
| "least_loaded best ((r, u) # us) least selected =
     (if upClient u \<and> upBuildTime u = best \<and> upPlayerCount u < least \<and> \<not> upDone u
      then least_loaded best us (upPlayerCount u) (Some r)
      else least_loaded best us least selected)"

definition range_map :: "upstream_map \<Rightarrow> 32 word list \<Rightarrow> (nat \<times> upstream) list" where
  "range_map m ks = map (\<lambda>r. (r, umObj m r)) (List.map_filter (umRef m) ks)"

definition SelectPeer ::
  "(nat \<Rightarrow> hall_status option) \<Rightarrow> 32 word list \<Rightarrow> 32 word list \<Rightarrow> upstream_map \<Rightarrow> upstream_map \<times> nat option"
where
  "SelectPeer health ks1 ks2 m =
     (let maxBuildTime = max_build_time (map snd (range_map m ks1)) 0 in
      case least_loaded maxBuildTime (range_map m ks2) 0xffffffff None of
        None \<Rightarrow> (m, None)
      | Some selected \<Rightarrow>
          (case HealthCheck health selected m of
             (m', True) \<Rightarrow> (m', Some selected)
           | (m', False) \<Rightarrow> (m', None)))"

section \<open>Histories\<close>

datatype upstream_event =
    PeerAdd peer | PeerDelete peer | PeerUpdate peer | Served nat serve_event
  | Selected "nat \<Rightarrow> hall_status option" "32 word list" "32 word list"

fun upstream_step :: "upstream_config \<Rightarrow> upstream_map \<Rightarrow> upstream_event \<Rightarrow> upstream_map" where
  "upstream_step c m (PeerAdd p) = server_OnPeerAdd c p m"
| "upstream_step c m (PeerDelete p) = server_OnPeerDelete c p m"
| "upstream_step c m (PeerUpdate p) = server_OnPeerUpdate c p m"
| "upstream_step c m (Served r e) = set_upstream r (serve_step e (umObj m r)) m"
| "upstream_step c m (Selected health ks1 ks2) = fst (SelectPeer health ks1 ks2 m)"

definition upstream_run :: "upstream_config \<Rightarrow> upstream_map \<Rightarrow> upstream_event list \<Rightarrow> upstream_map" where
  "upstream_run c = foldl (upstream_step c)"

definition no_upstream :: upstream where
  "no_upstream = \<lparr>upId = 0, upFullName = [], upAddress = [], upClient = False, upDone = True,
     upPlayerCount = 0, upBuildTime = 0, upStatus = HallUnAvailable, upAppVersion = [], upServe = ServeExit\<rparr>"

definition no_upstreams :: upstream_map where
  "no_upstreams = \<lparr>umRef = Map.empty, umObj = (\<lambda>r. no_upstream), umNext = 0\<rparr>"

section \<open>What SelectPeer chooses\<close>

lemma max_build_time_ge: "best \<le> max_build_time us best"
  by (induction us arbitrary: best) (auto split: if_splits intro: order_trans [OF less_imp_le])

lemma max_build_time_upper: "u \<in> set us \<Longrightarrow> upClient u \<Longrightarrow> upBuildTime u \<le> max_build_time us best"
proof (induction us arbitrary: best)
  case (Cons x us)
  show ?case
  proof (cases "u = x")
    case True
    then show ?thesis
      using Cons.prems(2) max_build_time_ge [of "upBuildTime u" us] max_build_time_ge [of best us] by auto
  next
    case False
    then show ?thesis using Cons by simp
  qed
qed simp

definition candidate :: "int \<Rightarrow> upstream \<Rightarrow> bool" where
  "candidate best u \<longleftrightarrow> upClient u \<and> upBuildTime u = best \<and> \<not> upDone u"

lemma least_loaded_facts:
  assumes "least_loaded best us least sel = Some r"
  shows "(\<exists>u. (r, u) \<in> set us \<and> candidate best u \<and> upPlayerCount u < least
           \<and> (\<forall>r' u'. (r', u') \<in> set us \<and> candidate best u' \<longrightarrow> upPlayerCount u \<le> upPlayerCount u'))
       \<or> sel = Some r \<and> (\<forall>r' u'. (r', u') \<in> set us \<and> candidate best u' \<longrightarrow> least \<le> upPlayerCount u')"
  using assms
proof (induction us arbitrary: least sel)
  case (Cons x us)
  obtain r0 u0 where x: "x = (r0, u0)" by (cases x)
  show ?case
  proof (cases "upClient u0 \<and> upBuildTime u0 = best \<and> upPlayerCount u0 < least \<and> \<not> upDone u0")
    case True
    then have step: "least_loaded best us (upPlayerCount u0) (Some r0) = Some r" using Cons.prems x by simp
    from Cons.IH [OF step] show ?thesis
    proof
      assume "\<exists>u. (r, u) \<in> set us \<and> candidate best u \<and> upPlayerCount u < upPlayerCount u0
        \<and> (\<forall>r' u'. (r', u') \<in> set us \<and> candidate best u' \<longrightarrow> upPlayerCount u \<le> upPlayerCount u')"
      then obtain u where u: "(r, u) \<in> set us" "candidate best u" "upPlayerCount u < upPlayerCount u0"
        and le: "\<And>r' u'. (r', u') \<in> set us \<Longrightarrow> candidate best u' \<Longrightarrow> upPlayerCount u \<le> upPlayerCount u'"
        by blast
      have "\<exists>u. (r, u) \<in> set (x # us) \<and> candidate best u \<and> upPlayerCount u < least
          \<and> (\<forall>r' u'. (r', u') \<in> set (x # us) \<and> candidate best u' \<longrightarrow> upPlayerCount u \<le> upPlayerCount u')"
        by (rule exI [of _ u]) (use u le True x in fastforce)
      then show ?thesis by blast
    next
      assume a: "Some r0 = Some r \<and>
        (\<forall>r' u'. (r', u') \<in> set us \<and> candidate best u' \<longrightarrow> upPlayerCount u0 \<le> upPlayerCount u')"
      have "\<exists>u. (r, u) \<in> set (x # us) \<and> candidate best u \<and> upPlayerCount u < least
          \<and> (\<forall>r' u'. (r', u') \<in> set (x # us) \<and> candidate best u' \<longrightarrow> upPlayerCount u \<le> upPlayerCount u')"
        by (rule exI [of _ u0]) (use a True x in \<open>auto simp: candidate_def\<close>)
      then show ?thesis by blast
    qed
  next
    case False
    have step: "least_loaded best us least sel = Some r"
      using Cons.prems unfolding x least_loaded.simps if_not_P [OF False] by simp
    have no: "candidate best u0 \<Longrightarrow> least \<le> upPlayerCount u0" using False by (auto simp: candidate_def)
    from Cons.IH [OF step] show ?thesis
    proof
      assume "\<exists>u. (r, u) \<in> set us \<and> candidate best u \<and> upPlayerCount u < least
        \<and> (\<forall>r' u'. (r', u') \<in> set us \<and> candidate best u' \<longrightarrow> upPlayerCount u \<le> upPlayerCount u')"
      then obtain u where u: "(r, u) \<in> set us" "candidate best u" "upPlayerCount u < least"
        and le: "\<And>r' u'. (r', u') \<in> set us \<Longrightarrow> candidate best u' \<Longrightarrow> upPlayerCount u \<le> upPlayerCount u'"
        by blast
      have "\<exists>u. (r, u) \<in> set (x # us) \<and> candidate best u \<and> upPlayerCount u < least
          \<and> (\<forall>r' u'. (r', u') \<in> set (x # us) \<and> candidate best u' \<longrightarrow> upPlayerCount u \<le> upPlayerCount u')"
        by (rule exI [of _ u]) (use u le no x in fastforce)
      then show ?thesis by blast
    qed (use no x in auto)
  qed
qed auto

lemma least_loaded_None:
  "least_loaded best us least sel = None \<Longrightarrow>
     sel = None \<and> (\<forall>r u. (r, u) \<in> set us \<and> candidate best u \<longrightarrow> least \<le> upPlayerCount u)"
proof (induction best us least sel rule: least_loaded.induct)
  case (2 best r u us least sel)
  show ?case
  proof (cases "upClient u \<and> upBuildTime u = best \<and> upPlayerCount u < least \<and> \<not> upDone u")
    case True
    then show ?thesis using 2 by auto
  next
    case False
    have "least_loaded best us least sel = None"
      using 2(3) unfolding least_loaded.simps if_not_P [OF False] by simp
    then have "sel = None \<and> (\<forall>r u. (r, u) \<in> set us \<and> candidate best u \<longrightarrow> least \<le> upPlayerCount u)"
      using 2(2) [OF False] by blast
    then show ?thesis using False by (auto simp: candidate_def)
  qed
qed simp

text \<open>The candidates of a call are the connected upstreams of the latest build that are not closed.\<close>

definition latest_build :: "upstream_map \<Rightarrow> int" where
  "latest_build m = max_build_time (map (umObj m) (sorted_list_of_set (ran (umRef m)))) 0"

lemma range_map_iff:
  assumes "set ks = dom (umRef m)"
  shows "(r, u) \<in> set (range_map m ks) \<longleftrightarrow> r \<in> ran (umRef m) \<and> u = umObj m r"
proof -
  have "set (List.map_filter (umRef m) ks) = ran (umRef m)"
    using assms by (force simp: map_filter_def ran_def dom_def)
  then show ?thesis by (auto simp: range_map_def)
qed

lemma max_build_time_attained:
  "max_build_time us b = b \<or> (\<exists>u\<in>set us. upClient u \<and> upBuildTime u = max_build_time us b)"
proof (induction us arbitrary: b)
  case (Cons x us)
  show ?case using Cons.IH [of b] Cons.IH [of "upBuildTime x"] by auto
qed simp

lemma max_build_time_cong: "set us = set vs \<Longrightarrow> max_build_time us b = max_build_time vs b"
proof -
  have le: "max_build_time us b \<le> max_build_time vs b" if "set us \<subseteq> set vs" for us vs
  proof -
    have "max_build_time us b = b \<or> (\<exists>u\<in>set us. upClient u \<and> upBuildTime u = max_build_time us b)"
      by (rule max_build_time_attained)
    then show ?thesis using that max_build_time_upper [of _ vs b] max_build_time_ge [of b vs] by fastforce
  qed
  assume "set us = set vs"
  then show ?thesis using le [of us vs] le [of vs us] by simp
qed

lemma max_build_time_order:
  assumes "set ks = dom (umRef m)" and "finite (dom (umRef m))"
  shows "max_build_time (map snd (range_map m ks)) 0 = latest_build m"
proof -
  have "set (map snd (range_map m ks)) = umObj m ` ran (umRef m)"
    using range_map_iff [OF assms(1)] by force
  moreover have "finite (ran (umRef m))" using assms(2) by (rule finite_ran)
  ultimately show ?thesis unfolding latest_build_def by (intro max_build_time_cong) simp
qed

definition eligible :: "upstream_map \<Rightarrow> nat \<Rightarrow> bool" where
  "eligible m r \<longleftrightarrow> r \<in> ran (umRef m) \<and> candidate (latest_build m) (umObj m r)"

text \<open>\<open>SelectPeer\<close> chooses a least loaded candidate and asks it, and only it, for its health.\<close>

lemma SelectPeer_cases:
  assumes "set ks1 = dom (umRef m)" "set ks2 = dom (umRef m)" "finite (dom (umRef m))"
  obtains (None) "SelectPeer health ks1 ks2 m = (m, None)"
      "\<And>r. eligible m r \<Longrightarrow> 0xffffffff \<le> upPlayerCount (umObj m r)"
    | (Some) r where "eligible m r" "upPlayerCount (umObj m r) < 0xffffffff"
      "\<And>r'. eligible m r' \<Longrightarrow> upPlayerCount (umObj m r) \<le> upPlayerCount (umObj m r')"
      "snd (SelectPeer health ks1 ks2 m) = (if health r = Some HallOK then Some r else None)"
proof -
  note best = max_build_time_order [OF assms(1,3)]
  note range = range_map_iff [OF assms(2)]
  show thesis
  proof (cases "least_loaded (latest_build m) (range_map m ks2) 0xffffffff None")
    case None
    show ?thesis
    proof (rule that(1))
      show "SelectPeer health ks1 ks2 m = (m, None)" using None by (simp add: SelectPeer_def best)
      show "0xffffffff \<le> upPlayerCount (umObj m r)" if "eligible m r" for r
        using least_loaded_None [OF None] that by (auto simp: eligible_def range)
    qed
  next
    case (Some r)
    have L: "\<exists>u. (r, u) \<in> set (range_map m ks2) \<and> candidate (latest_build m) u \<and> upPlayerCount u < 0xffffffff
        \<and> (\<forall>r' u'. (r', u') \<in> set (range_map m ks2) \<and> candidate (latest_build m) u' \<longrightarrow> upPlayerCount u \<le> upPlayerCount u')"
      using least_loaded_facts [OF Some] by simp
    then have el: "eligible m r" and lt: "upPlayerCount (umObj m r) < 0xffffffff"
      and le: "\<And>r'. eligible m r' \<Longrightarrow> upPlayerCount (umObj m r) \<le> upPlayerCount (umObj m r')"
      by (auto simp: eligible_def range)
    have "snd (SelectPeer health ks1 ks2 m) = (if health r = Some HallOK then Some r else None)"
      using Some el
      by (auto simp: SelectPeer_def best HealthCheck_def eligible_def candidate_def split: option.splits)
    from that(2) [OF el lt le this] show ?thesis .
  qed
qed

section \<open>The table and the registry\<close>

lemma set_upstream_simps [simp]:
  "umRef (set_upstream r u m) = umRef m" "umNext (set_upstream r u m) = umNext m"
  "umObj (set_upstream r u m) x = (if x = r then u else umObj m x)"
  by (simp_all add: set_upstream_def)

lemma upstream_close_simps [simp]:
  "umRef (upstream_close r m) = umRef m" "umNext (upstream_close r m) = umNext m"
  "umObj (upstream_close r m) x = (if x = r then umObj m x\<lparr>upDone := True\<rparr> else umObj m x)"
  by (simp_all add: upstream_close_def)

lemma SelectPeer_frame:
  "umRef (fst (SelectPeer health ks1 ks2 m)) = umRef m \<and> umNext (fst (SelectPeer health ks1 ks2 m)) = umNext m
   \<and> (\<forall>r. \<exists>st. umObj (fst (SelectPeer health ks1 ks2 m)) r = umObj m r\<lparr>upStatus := st\<rparr>)"
proof -
  have same: "\<exists>st. u = u\<lparr>upStatus := st\<rparr>" for u :: upstream
    by (rule exI [of _ "upStatus u"]) simp
  show ?thesis
    using same by (auto simp: SelectPeer_def HealthCheck_def Let_def split: option.splits prod.splits bool.splits)
qed

lemma serve_step_frame:
  "upId (serve_step e u) = upId u \<and> (upDone u \<longrightarrow> upDone (serve_step e u))
   \<and> (upDone (serve_step e u) \<longrightarrow> upDone u \<or> upServe (serve_step e u) = ServeExit)
   \<and> (upServe u = ServeExit \<longrightarrow> serve_step e u = u)"
  by (cases e) (auto simp: serve_exit_def split: option.splits serve_phase.splits prod.splits)

text \<open>
  The specification: the ids the handlers were told of, and the histories in which no peer is
  announced while it is known, which is how the registry calls the handlers.
\<close>

fun announce :: "upstream_config \<Rightarrow> upstream_event \<Rightarrow> 32 word set \<Rightarrow> 32 word set" where
  "announce c (PeerAdd p) S = (if ignored c p then S else insert (pId p) S)"
| "announce c (PeerDelete p) S = (if ignored c p then S else S - {pId p})"
| "announce c _ S = S"

fun each_once :: "upstream_config \<Rightarrow> 32 word set \<Rightarrow> upstream_event list \<Rightarrow> bool" where
  "each_once c S [] = True"
| "each_once c S (e # es) =
     ((case e of PeerAdd p \<Rightarrow> ignored c p \<or> pId p \<notin> S | _ \<Rightarrow> True) \<and> each_once c (announce c e S) es)"

definition upstreams_ok :: "upstream_map \<Rightarrow> bool" where
  "upstreams_ok m \<longleftrightarrow> finite (dom (umRef m)) \<and>
     (\<forall>k r. umRef m k = Some r \<longrightarrow> r < umNext m \<and> upId (umObj m r) = k)"

definition open_until_exit :: "upstream_map \<Rightarrow> bool" where
  "open_until_exit m \<longleftrightarrow> (\<forall>k r. umRef m k = Some r \<longrightarrow> upDone (umObj m r) \<longrightarrow> upServe (umObj m r) = ServeExit)"

lemma upstream_step_ref:
  "dom (umRef (upstream_step c m e)) = announce c e (dom (umRef m))"
proof (cases e)
  case (PeerAdd p)
  then show ?thesis
    by (auto simp: server_OnPeerAdd_def map_OnPeerAdd_def Let_def split: option.splits)
next
  case (PeerDelete p)
  then show ?thesis
    by (auto simp: server_OnPeerDelete_def map_OnPeerDelete_def split: option.splits)
next
  case (PeerUpdate p)
  then show ?thesis
    by (auto simp: server_OnPeerUpdate_def map_OnPeerUpdate_def split: option.splits)
qed (simp_all add: SelectPeer_frame)

lemma upstreams_ok_step:
  assumes "upstreams_ok m"
  shows "upstreams_ok (upstream_step c m e)"
proof -
  have fin: "finite (dom (umRef m))" and ref: "\<And>k r. umRef m k = Some r \<Longrightarrow> r < umNext m \<and> upId (umObj m r) = k"
    using assms by (auto simp: upstreams_ok_def)
  have "finite (dom (umRef (upstream_step c m e)))"
    unfolding upstream_step_ref using fin by (cases e) auto
  moreover have "r < umNext (upstream_step c m e) \<and> upId (umObj (upstream_step c m e) r) = k"
    if "umRef (upstream_step c m e) k = Some r" for k r
  proof (cases e)
    case (PeerAdd p)
    then show ?thesis
      using that ref [of k r]
      by (auto simp: server_OnPeerAdd_def map_OnPeerAdd_def Let_def newUpstream_def split: option.splits if_splits)
  next
    case (PeerDelete p)
    then show ?thesis
      using that ref [of k r]
      by (auto simp: server_OnPeerDelete_def map_OnPeerDelete_def split: option.splits if_splits)
  next
    case (PeerUpdate p)
    then show ?thesis
      using that ref [of k r]
      by (auto simp: server_OnPeerUpdate_def map_OnPeerUpdate_def split: option.splits if_splits)
  next
    case (Served s ev)
    then show ?thesis using that ref [of k r] serve_step_frame [of ev "umObj m s"] by auto
  next
    case (Selected health ks1 ks2)
    obtain st where "umObj (fst (SelectPeer health ks1 ks2 m)) r = umObj m r\<lparr>upStatus := st\<rparr>"
      using SelectPeer_frame by blast
    then show ?thesis using Selected that ref [of k r] SelectPeer_frame [of health ks1 ks2 m] by simp
  qed
  ultimately show ?thesis by (simp add: upstreams_ok_def)
qed

lemma open_until_exit_step:
  assumes ok: "upstreams_ok m" and op: "open_until_exit m"
    and once: "case e of PeerAdd p \<Rightarrow> ignored c p \<or> pId p \<notin> dom (umRef m) | _ \<Rightarrow> True"
  shows "open_until_exit (upstream_step c m e)"
  unfolding open_until_exit_def
proof (intro allI impI)
  fix k r assume kr: "umRef (upstream_step c m e) k = Some r" and d: "upDone (umObj (upstream_step c m e) r)"
  have op': "\<And>k. umRef m k = Some r \<Longrightarrow> upDone (umObj m r) \<Longrightarrow> upServe (umObj m r) = ServeExit"
    using op by (auto simp: open_until_exit_def)
  have ref: "\<And>k r. umRef m k = Some r \<Longrightarrow> r < umNext m \<and> upId (umObj m r) = k"
    using ok by (auto simp: upstreams_ok_def)
  show "upServe (umObj (upstream_step c m e) r) = ServeExit"
  proof (cases e)
    case (PeerAdd p)
    then show ?thesis
      using kr d op' [of k] ref [of k r] once
      by (auto simp: server_OnPeerAdd_def map_OnPeerAdd_def Let_def newUpstream_def domIff
          split: option.splits if_splits)
  next
    case (PeerDelete p)
    have "umRef m (pId p) = Some r \<Longrightarrow> umRef m k = Some r \<Longrightarrow> k = pId p" using ref by metis
    then show ?thesis
      using PeerDelete kr d op' [of k]
      by (auto simp: server_OnPeerDelete_def map_OnPeerDelete_def split: option.splits if_splits)
  next
    case (PeerUpdate p)
    then show ?thesis
      using kr d op' [of k]
      by (auto simp: server_OnPeerUpdate_def map_OnPeerUpdate_def split: option.splits if_splits)
  next
    case (Served s ev)
    then show ?thesis using kr d op' [of k] serve_step_frame [of ev "umObj m r"] by (auto split: if_splits)
  next
    case (Selected health ks1 ks2)
    obtain st where "umObj (fst (SelectPeer health ks1 ks2 m)) r = umObj m r\<lparr>upStatus := st\<rparr>"
      using SelectPeer_frame by blast
    then show ?thesis using Selected kr d op' [of k] SelectPeer_frame [of health ks1 ks2 m] by simp
  qed
qed

lemma upstreams_ok_run: "upstreams_ok m \<Longrightarrow> upstreams_ok (upstream_run c m es)"
  by (induction es arbitrary: m) (auto simp: upstream_run_def upstreams_ok_step)

lemma upstreams_ok_none [simp]: "upstreams_ok no_upstreams"
  by (simp add: upstreams_ok_def no_upstreams_def)

lemma upstream_run_ref:
  "dom (umRef (upstream_run c m es)) = fold (announce c) es (dom (umRef m))"
  by (induction es arbitrary: m) (auto simp: upstream_run_def upstream_step_ref)

lemma open_until_exit_run:
  "upstreams_ok m \<Longrightarrow> open_until_exit m \<Longrightarrow> each_once c (dom (umRef m)) es \<Longrightarrow> open_until_exit (upstream_run c m es)"
proof (induction es arbitrary: m)
  case (Cons e es)
  have "open_until_exit (upstream_step c m e)"
    by (rule open_until_exit_step) (use Cons.prems in auto)
  then show ?case
    using Cons.IH [OF upstreams_ok_step [OF Cons.prems(1)]] Cons.prems(3) by (simp add: upstream_run_def upstream_step_ref)
qed (simp add: upstream_run_def)

text \<open>A closed upstream of the table stays there, closed, until its peer is deleted.\<close>

definition deletes :: "upstream_config \<Rightarrow> 32 word \<Rightarrow> upstream_event \<Rightarrow> bool" where
  "deletes c k e \<longleftrightarrow> (\<exists>p. e = PeerDelete p \<and> pId p = k \<and> \<not> ignored c p)"

lemma closed_stays_step:
  assumes "upstreams_ok m" and "umRef m k = Some r" and "upDone (umObj m r)" and "\<not> deletes c k e"
  shows "umRef (upstream_step c m e) k = Some r \<and> upDone (umObj (upstream_step c m e) r)"
proof -
  have r: "r < umNext m" using assms(1,2) by (auto simp: upstreams_ok_def)
  show ?thesis
  proof (cases e)
    case (PeerAdd p)
    then show ?thesis using assms r
      by (auto simp: server_OnPeerAdd_def map_OnPeerAdd_def Let_def split: option.splits)
  next
    case (PeerDelete p)
    then show ?thesis using assms
      by (auto simp: server_OnPeerDelete_def map_OnPeerDelete_def deletes_def split: option.splits)
  next
    case (PeerUpdate p)
    then show ?thesis using assms
      by (auto simp: server_OnPeerUpdate_def map_OnPeerUpdate_def split: option.splits)
  next
    case (Served s ev)
    then show ?thesis using assms serve_step_frame [of ev "umObj m s"] by auto
  next
    case (Selected health ks1 ks2)
    obtain st where "umObj (fst (SelectPeer health ks1 ks2 m)) r = umObj m r\<lparr>upStatus := st\<rparr>"
      using SelectPeer_frame by blast
    then show ?thesis using Selected assms SelectPeer_frame [of health ks1 ks2 m] by simp
  qed
qed

lemma closed_stays:
  "upstreams_ok m \<Longrightarrow> umRef m k = Some r \<Longrightarrow> upDone (umObj m r) \<Longrightarrow> list_all (\<lambda>e. \<not> deletes c k e) es \<Longrightarrow>
     umRef (upstream_run c m es) k = Some r \<and> upDone (umObj (upstream_run c m es) r)"
proof (induction es arbitrary: m)
  case (Cons e es)
  then show ?case
    using Cons.IH [OF upstreams_ok_step] closed_stays_step [OF Cons.prems(1-3), of c e] by (simp add: upstream_run_def)
qed (simp add: upstream_run_def)

section \<open>Properties\<close>

text \<open>Two connected halls, for the witnesses.\<close>

definition demo_config :: upstream_config where
  "demo_config = \<lparr>ucName = ''hall'', ucMinId = 1, ucMaxId = 9\<rparr>"

definition demo_peer :: "32 word \<Rightarrow> peer" where
  "demo_peer i = \<lparr>pName = ''hall'', pId = i, pFullName = [], pAddress = ''h:1'', pUrl = [], pMetadata = Map.empty\<rparr>"

definition two_halls :: "upstream_event list" where
  "two_halls =
     [PeerAdd (demo_peer 1), PeerAdd (demo_peer 2),
      Served 0 (DialReply True), Served 0 (GateStreamReply True), Served 0 (InfoReply (Some (7, []))),
      Served 1 (DialReply True), Served 1 (GateStreamReply True), Served 1 (InfoReply (Some (7, []))),
      Served 0 (HeartbeatReply (Some (3, HallOK))), Served 1 (HeartbeatReply (Some (5, HallOK)))]"

definition demo_map :: upstream_map where
  "demo_map = upstream_run demo_config no_upstreams two_halls"

lemma demo_ref: "umRef demo_map 1 = Some 0 \<and> umRef demo_map 2 = Some 1"
  by code_simp

lemma demo_dom: "dom (umRef demo_map) = {1, 2}"
proof -
  have "dom (umRef no_upstreams) = {}" by (simp add: no_upstreams_def)
  moreover have "ignored demo_config (demo_peer 1) = False \<and> ignored demo_config (demo_peer 2) = False"
    by code_simp
  ultimately show ?thesis
    unfolding demo_map_def upstream_run_ref two_halls_def by (auto simp: demo_peer_def)
qed

lemma demo_orders: "set [1, 2 :: 32 word] = dom (umRef demo_map)" "set [2, 1 :: 32 word] = dom (umRef demo_map)"
  "finite (dom (umRef demo_map))"
  using demo_dom by auto

lemma demo_ran: "ran (umRef demo_map) = {0, 1}"
proof -
  have "ran (umRef demo_map) = the ` umRef demo_map ` dom (umRef demo_map)"
    by (force simp: ran_def dom_def)
  then show ?thesis using demo_dom demo_ref by simp
qed

lemma demo_latest: "latest_build demo_map = 7"
proof -
  have "max_build_time (map snd (range_map demo_map [1, 2])) 0 = 7" by code_simp
  then show ?thesis using max_build_time_order [OF demo_orders(1,3)] by simp
qed

lemma demo_upstreams:
  "upClient (umObj demo_map 0) \<and> \<not> upDone (umObj demo_map 0) \<and> upBuildTime (umObj demo_map 0) = 7 \<and> upPlayerCount (umObj demo_map 0) = 3
   \<and> upPlayerCount (umObj demo_map 1) = 5"
  by code_simp

text \<open>
  C14. For every order in which the table is visited, \<open>SelectPeer\<close> returns an upstream that is
  connected and not closed, has the latest build of all connected ones, is least loaded among those,
  and has just answered that it is healthy; and it returns one whenever there is such an upstream
  below the bound and every one of them is healthy.
\<close>

theorem SelectPeer_best:
  assumes "set ks1 = dom (umRef m)" and "set ks2 = dom (umRef m)" and "finite (dom (umRef m))"
  shows "(\<forall>r. snd (SelectPeer health ks1 ks2 m) = Some r \<longrightarrow>
       eligible m r \<and> health r = Some HallOK
       \<and> (\<forall>r'\<in>ran (umRef m). upClient (umObj m r') \<longrightarrow> upBuildTime (umObj m r') \<le> upBuildTime (umObj m r))
       \<and> (\<forall>r'. eligible m r' \<longrightarrow> upPlayerCount (umObj m r) \<le> upPlayerCount (umObj m r')))
    \<and> ((\<exists>r. eligible m r \<and> upPlayerCount (umObj m r) < 0xffffffff)
       \<and> (\<forall>r. eligible m r \<longrightarrow> health r = Some HallOK) \<longrightarrow> snd (SelectPeer health ks1 ks2 m) \<noteq> None)"
  using assms
proof (cases rule: SelectPeer_cases [where health = health])
  case None
  then show ?thesis by (metis linorder_not_le option.distinct(1) snd_conv)
next
  case (Some r)
  have "upBuildTime (umObj m r') \<le> upBuildTime (umObj m r)" if "r' \<in> ran (umRef m)" "upClient (umObj m r')" for r'
  proof -
    have "umObj m r' \<in> set (map (umObj m) (sorted_list_of_set (ran (umRef m))))"
      using that(1) finite_ran [OF assms(3)] by simp
    from max_build_time_upper [OF this that(2)] show ?thesis
      using Some(1) by (simp add: eligible_def candidate_def latest_build_def)
  qed
  then show ?thesis using Some by (auto split: if_splits)
qed

theorem SelectPeer_best_witness:
  "upBuildTime (umObj demo_map 1) \<le> upBuildTime (umObj demo_map 0)"
proof -
  have "snd (SelectPeer (\<lambda>_. Some HallOK) [1, 2] [2, 1] demo_map) = Some 0 \<and> upClient (umObj demo_map 1)"
    by code_simp
  then show ?thesis
    using SelectPeer_best [OF demo_orders(1,2,3), of "\<lambda>_. Some HallOK"] demo_ran by blast
qed

text \<open>
  When the least loaded upstream of the latest build does not pass its health check, no hall is
  selected, however many healthy ones the table has: the choice is not repeated without it.
\<close>

lemma unhealthy_choice_blocks:
  assumes "set ks1 = dom (umRef m)" and "set ks2 = dom (umRef m)" and "finite (dom (umRef m))"
    and "eligible m r" and "health r \<noteq> Some HallOK"
    and "\<forall>r'. eligible m r' \<and> r' \<noteq> r \<longrightarrow> upPlayerCount (umObj m r) < upPlayerCount (umObj m r')"
  shows "snd (SelectPeer health ks1 ks2 m) = None"
  using assms(1-3)
proof (cases rule: SelectPeer_cases [where health = health])
  case (Some r')
  have "r' = r" using Some(1) Some(3) [OF assms(4)] assms(6) by force
  then show ?thesis using Some(4) assms(5) by simp
qed simp

lemma unhealthy_choice_blocks_witness:
  "snd (SelectPeer (\<lambda>r. if r = 0 then None else Some HallOK) [1, 2] [2, 1] demo_map) = None"
proof (rule unhealthy_choice_blocks [OF demo_orders(1,2,3), of 0])
  show "eligible demo_map 0"
    using demo_upstreams demo_ran demo_latest by (simp add: eligible_def candidate_def)
  show "\<forall>r'. eligible demo_map r' \<and> r' \<noteq> 0 \<longrightarrow> upPlayerCount (umObj demo_map 0) < upPlayerCount (umObj demo_map r')"
  proof (intro allI impI, elim conjE)
    fix r' :: nat assume "eligible demo_map r'" "r' \<noteq> 0"
    then have "r' = 1" using demo_ran by (simp add: eligible_def)
    then show "upPlayerCount (umObj demo_map 0) < upPlayerCount (umObj demo_map r')"
      using demo_upstreams by simp
  qed
qed simp



text \<open>
  A peer announced while it is known loses its upstream: \<open>OnPeerAdd\<close> closes the one of the table
  and keeps it there, and the new one is not in the table; whatever happens then, no hall with that
  id is selected until the peer is deleted.
\<close>

lemma announced_twice_never_selected:
  assumes "umRef (upstream_run c no_upstreams es) (pId p) \<noteq> None" and "\<not> ignored c p"
    and "list_all (\<lambda>e. \<not> deletes c (pId p) e) es'"
    and "m = upstream_run c no_upstreams (es @ PeerAdd p # es')"
    and "set ks1 = dom (umRef m)" and "set ks2 = dom (umRef m)"
    and "snd (SelectPeer health ks1 ks2 m) = Some r"
  shows "upId (umObj m r) \<noteq> pId p"
proof -
  let ?m = "upstream_run c no_upstreams es"
  let ?m' = "upstream_step c ?m (PeerAdd p)"
  obtain old where old: "umRef ?m (pId p) = Some old" using assms(1) by blast
  have ok: "upstreams_ok ?m" by (rule upstreams_ok_run) simp
  have ok': "upstreams_ok ?m'" by (rule upstreams_ok_step [OF ok])
  have m: "m = upstream_run c ?m' es'" using assms(4) by (simp add: upstream_run_def)
  have okm: "upstreams_ok m" unfolding m by (rule upstreams_ok_run [OF ok'])
  have "umRef ?m' (pId p) = Some old \<and> upDone (umObj ?m' old)"
    using old assms(2) by (simp add: server_OnPeerAdd_def map_OnPeerAdd_def Let_def)
  then have cl: "umRef m (pId p) = Some old \<and> upDone (umObj m old)"
    unfolding m using closed_stays [OF ok' _ _ assms(3)] by blast
  have "finite (dom (umRef m))" using okm by (simp add: upstreams_ok_def)
  then have el: "eligible m r"
    using SelectPeer_best [OF assms(5,6)] assms(7) by blast
  then obtain k where k: "umRef m k = Some r" "\<not> upDone (umObj m r)"
    by (auto simp: eligible_def candidate_def ran_def)
  have "upId (umObj m r) = k" using okm k(1) by (simp add: upstreams_ok_def)
  then show ?thesis using cl k by auto
qed

lemma announced_twice_never_selected_witness:
  "upId (umObj (upstream_run demo_config no_upstreams (two_halls @ PeerAdd (demo_peer 1) # [])) 1) \<noteq> pId (demo_peer 1)"
proof (rule announced_twice_never_selected [OF _ _ _ refl])
  let ?m = "upstream_run demo_config no_upstreams (two_halls @ PeerAdd (demo_peer 1) # [])"
  have i: "\<not> ignored demo_config (demo_peer 1)" by code_simp
  then show "\<not> ignored demo_config (demo_peer 1)" .
  show "umRef (upstream_run demo_config no_upstreams two_halls) (pId (demo_peer 1)) \<noteq> None"
    using demo_ref by (simp add: demo_map_def demo_peer_def)
  have "dom (umRef ?m) = insert (pId (demo_peer 1)) (dom (umRef demo_map))"
    using i by (simp add: demo_map_def upstream_run_ref)
  then have d: "dom (umRef ?m) = {1, 2}" by (auto simp: demo_dom demo_peer_def)
  show "set [1, 2] = dom (umRef ?m)" using d by simp
  show "set [2, 1] = dom (umRef ?m)" using d by auto
  show "snd (SelectPeer (\<lambda>_. Some HallOK) [1, 2] [2, 1] ?m) = Some 1" by code_simp
qed simp

end
