(* ===== verification/Gateway_Session.thy ===== *)
theory Gateway_Session
  imports Hall_Session
begin

text \<open>
  A client of the gateway, \<open>framework/smallgame/gateway/server/session.go\<close> and \<open>server.go\<close>: the
  login (\<open>ServeClientStream\<close>), and the three goroutines of \<open>client_session.serve\<close>, which forward the
  client's messages to the stream of a hall, the hall's answers to the client, and close both. The
  goroutines share the session's stream, its context and the cancel function of the stream, and
  interleave at each access to one of them.

  The lemmas: messages reach the halls in order, and only those of a time without a stream wait; the
  client is suspended exactly while there is no stream; and two schedules that end badly.
\<close>

section \<open>State\<close>

record gateway_message =
  gwReqId :: u64
  gwPayload :: bytes

record client_request =
  crMemberId :: string
  crSessionId :: u64
  crReqId :: u64
  crData :: bytes

record client_response =
  reType :: "packet_kind option"
  reReqId :: u64
  reData :: bytes

text \<open>What the gateway sends to the client's connection.\<close>

datatype client_out =
    OutResponse u64 bytes | OutPush string bytes | OutKick string | OutSuspend | OutResume | OutClose

text \<open>
  A stream is named by its context. The goroutine that receives from the hall: at \<open>Recv\<close>, about to
  give up a lost stream, selecting a hall, about to make a new context, opening a stream, returned.
\<close>

datatype up_pc = UpRecv | UpLost | UpSelect | UpContext | UpOpen | UpDone

text \<open>
  The goroutine that receives from the client: in \<open>processClientMessage\<close> before the test of the
  stream or at the send, for the first message, for the head of the pending messages while a message
  waits, or for that message; at \<open>Recv\<close>; returned.
\<close>

datatype fwd_call = FwdFirst gateway_message | FwdPending gateway_message | FwdLast gateway_message
datatype fwd_pc = FwdCheck fwd_call | FwdSend fwd_call | FwdRecv | FwdDone

record client_session =
  csMemberId :: string
  csSessionId :: u64
  csStream :: "nat option"
  csPending :: "gateway_message list"
  csDone :: bool
  csUp :: up_pc
  csFwd :: fwd_pc
  csCloser :: bool
  csRecvFrom :: nat
  csCancelFunc :: nat
  csCancelled :: "nat set"
  csNext :: nat
  csSent :: "client_request list"
  csOut :: "client_out list"
  csReceived :: "gateway_message list"
  csAnswers :: "client_response list"

text \<open>
  The session at the start of its goroutines, with stream 0. \<open>csReceived\<close> and \<open>csAnswers\<close> are what
  has come from the client and the halls; no goroutine reads them.
\<close>

definition open_session :: "string \<Rightarrow> u64 \<Rightarrow> gateway_message \<Rightarrow> client_session" where
  "open_session memberId sessionId message =
     \<lparr>csMemberId = memberId, csSessionId = sessionId, csStream = Some 0, csPending = [], csDone = False,
      csUp = UpRecv, csFwd = FwdCheck (FwdFirst message), csCloser = False, csRecvFrom = 0, csCancelFunc = 0,
      csCancelled = {}, csNext = 1, csSent = [], csOut = [], csReceived = [message], csAnswers = []\<rparr>"

definition request_of :: "client_session \<Rightarrow> gateway_message \<Rightarrow> client_request" where
  "request_of s m = \<lparr>crMemberId = csMemberId s, crSessionId = csSessionId s, crReqId = gwReqId m, crData = gwPayload m\<rparr>"

section \<open>The answers of the hall\<close>

definition processStreamMessage :: "client_response \<Rightarrow> client_out list" where
  "processStreamMessage resp =
     (case reType resp of
        Some PacketData \<Rightarrow>
          (if reReqId resp \<noteq> 0 then [OutResponse (reReqId resp) (reData resp)] else [OutPush [] (reData resp)])
      | Some PacketUserInstead \<Rightarrow> [OutKick (string_of (reData resp))]
      | Some PacketKick \<Rightarrow> [OutKick (string_of (reData resp))]
      | None \<Rightarrow> [])"

definition up_recv :: "client_response option \<Rightarrow> client_session \<Rightarrow> client_session" where
  "up_recv reply s =
     (if csUp s \<noteq> UpRecv then s
      else (case reply of
              Some resp \<Rightarrow> s\<lparr>csOut := csOut s @ processStreamMessage resp, csAnswers := csAnswers s @ [resp]\<rparr>
            | None \<Rightarrow> if csDone s then s\<lparr>csUp := UpDone\<rparr> else s\<lparr>csUp := UpLost\<rparr>))"

definition up_lost :: "client_session \<Rightarrow> client_session" where
  "up_lost s = (if csUp s = UpLost then s\<lparr>csStream := None, csOut := csOut s @ [OutSuspend], csUp := UpSelect\<rparr> else s)"

text \<open>\<open>SelectPeer\<close> has found a hall or not; then \<open>streamCancelFunc()\<close> of the old stream, the new
  context, and the new stream.\<close>

definition up_select :: "bool \<Rightarrow> client_session \<Rightarrow> client_session" where
  "up_select found s =
     (if csUp s \<noteq> UpSelect then s
      else if found then s\<lparr>csCancelled := insert (csCancelFunc s) (csCancelled s), csUp := UpContext\<rparr>
      else if csDone s then s\<lparr>csUp := UpDone\<rparr> else s)"

definition up_context :: "client_session \<Rightarrow> client_session" where
  "up_context s =
     (if csUp s = UpContext then s\<lparr>csCancelFunc := csNext s, csNext := Suc (csNext s), csUp := UpOpen\<rparr> else s)"

definition up_open :: "bool \<Rightarrow> client_session \<Rightarrow> client_session" where
  "up_open ok s =
     (if csUp s \<noteq> UpOpen then s
      else if ok \<and> csCancelFunc s \<notin> csCancelled s
      then s\<lparr>csRecvFrom := csCancelFunc s, csStream := Some (csCancelFunc s), csOut := csOut s @ [OutResume],
             csUp := UpRecv\<rparr>
      else s\<lparr>csCancelled := insert (csCancelFunc s) (csCancelled s),
             csUp := (if csDone s then UpDone else UpSelect)\<rparr>)"

section \<open>The messages of the client\<close>

definition fwd_target :: "client_session \<Rightarrow> fwd_call \<Rightarrow> gateway_message" where
  "fwd_target s f = (case f of FwdFirst m \<Rightarrow> m | FwdPending m \<Rightarrow> hd (csPending s) | FwdLast m \<Rightarrow> m)"

fun fwd_message :: "fwd_call \<Rightarrow> gateway_message" where
  "fwd_message (FwdFirst m) = m"
| "fwd_message (FwdPending m) = m"
| "fwd_message (FwdLast m) = m"

definition fwd_fail :: "fwd_call \<Rightarrow> client_session \<Rightarrow> client_session" where
  "fwd_fail f s = s\<lparr>csPending := csPending s @ [fwd_message f], csFwd := FwdRecv\<rparr>"

definition fwd_ok :: "fwd_call \<Rightarrow> client_session \<Rightarrow> client_session" where
  "fwd_ok f s =
     (case f of
        FwdPending m \<Rightarrow>
          s\<lparr>csPending := tl (csPending s),
            csFwd := FwdCheck (if tl (csPending s) = [] then FwdLast m else FwdPending m)\<rparr>
      | _ \<Rightarrow> s\<lparr>csFwd := FwdRecv\<rparr>)"

text \<open>
  \<open>processClientMessage\<close> reads \<open>self.stream\<close> for the test and again for the send. When it has become
  nil in between the send panics; the deferred function recovers and cancels the session.
\<close>

definition fwd_check :: "client_session \<Rightarrow> client_session" where
  "fwd_check s =
     (case csFwd s of
        FwdCheck f \<Rightarrow> if csStream s = None then fwd_fail f s else s\<lparr>csFwd := FwdSend f\<rparr>
      | _ \<Rightarrow> s)"

definition fwd_send :: "bool \<Rightarrow> client_session \<Rightarrow> client_session" where
  "fwd_send ok s =
     (case csFwd s of
        FwdSend f \<Rightarrow>
          (case csStream s of
             None \<Rightarrow> s\<lparr>csDone := True, csFwd := FwdDone\<rparr>
           | Some t \<Rightarrow>
               if ok \<and> t \<notin> csCancelled s
               then fwd_ok f (s\<lparr>csSent := csSent s @ [request_of s (fwd_target s f)]\<rparr>)
               else fwd_fail f s)
      | _ \<Rightarrow> s)"

definition fwd_recv :: "gateway_message option \<Rightarrow> client_session \<Rightarrow> client_session" where
  "fwd_recv reply s =
     (if csFwd s \<noteq> FwdRecv then s
      else (case reply of
              None \<Rightarrow> s\<lparr>csDone := True, csFwd := FwdDone\<rparr>
            | Some m \<Rightarrow>
                s\<lparr>csReceived := csReceived s @ [m],
                  csFwd := FwdCheck (if csPending s = [] then FwdLast m else FwdPending m)\<rparr>))"

text \<open>The goroutine that closes: \<open>streamCancelFunc\<close> is the variable's value then.\<close>

definition closer_run :: "client_session \<Rightarrow> client_session" where
  "closer_run s =
     (if csDone s \<and> \<not> csCloser s
      then s\<lparr>csOut := csOut s @ [OutClose], csCancelled := insert (csCancelFunc s) (csCancelled s), csCloser := True\<rparr>
      else s)"

datatype gw_event =
    UpReply "client_response option" | UpGiveUp | UpSelected bool | UpNewContext | UpOpened bool
  | FwdTest | FwdSent bool | ClientReply "gateway_message option" | CloserRun | ServerStop

text \<open>\<open>ServerStop\<close>: the context of the server, the parent of the session's, is done.\<close>

fun gw_step :: "client_session \<Rightarrow> gw_event \<Rightarrow> client_session" where
  "gw_step s (UpReply reply) = up_recv reply s"
| "gw_step s UpGiveUp = up_lost s"
| "gw_step s (UpSelected found) = up_select found s"
| "gw_step s UpNewContext = up_context s"
| "gw_step s (UpOpened ok) = up_open ok s"
| "gw_step s FwdTest = fwd_check s"
| "gw_step s (FwdSent ok) = fwd_send ok s"
| "gw_step s (ClientReply reply) = fwd_recv reply s"
| "gw_step s CloserRun = closer_run s"
| "gw_step s ServerStop = s\<lparr>csDone := True\<rparr>"

definition gw_run :: "client_session \<Rightarrow> gw_event list \<Rightarrow> client_session" where
  "gw_run = foldl gw_step"

text \<open>\<open>errGroup.Wait()\<close> returns, and with it \<open>serve\<close>.\<close>

definition serve_over :: "client_session \<Rightarrow> bool" where
  "serve_over s \<longleftrightarrow> csUp s = UpDone \<and> csFwd s = FwdDone \<and> csCloser s"

section \<open>Login\<close>

text \<open>
  \<open>ServeClientStream\<close>. The protocol, the token library and the messages of the connection are
  parameters: \<open>decode\<close> gives the name and the request of a payload, \<open>login\<close> the member id and token
  when the request is a \<open>LoginRequest\<close>, \<open>parse\<close> the member id of a valid token.
\<close>

datatype login_error = LoginTokenError | LoginMemberMismatch

datatype stream_result =
    StreamRefused | StreamRecvFailed | StreamIgnored | StreamLoginError login_error | StreamServed string

definition ServeClientStream ::
  "int \<Rightarrow> int \<Rightarrow> (bytes \<Rightarrow> (string \<times> 'r) option) \<Rightarrow> ('r \<Rightarrow> (string \<times> string) option) \<Rightarrow>
     (string \<Rightarrow> string \<Rightarrow> string option) \<Rightarrow> string \<Rightarrow> gateway_message option \<Rightarrow> stream_result" where
  "ServeClientStream maxSessionCount sessionCount decode login parse secret recv =
     (if maxSessionCount \<noteq> -1 \<and> (maxSessionCount = 0 \<or> sessionCount \<ge> maxSessionCount) then StreamRefused
      else (case recv of
              None \<Rightarrow> StreamRecvFailed
            | Some req \<Rightarrow>
                (case decode (gwPayload req) of
                   None \<Rightarrow> StreamIgnored
                 | Some (name, dataReq) \<Rightarrow>
                     if name \<noteq> ''Login'' then StreamIgnored
                     else (case login dataReq of
                             None \<Rightarrow> StreamIgnored
                           | Some (memberId, token) \<Rightarrow>
                               (case parse token secret of
                                  None \<Rightarrow> StreamLoginError LoginTokenError
                                | Some claimed \<Rightarrow>
                                    if claimed \<noteq> memberId then StreamLoginError LoginMemberMismatch
                                    else StreamServed claimed)))))"

text \<open>
  \<open>loginErrResponse\<close>: what is sent to the client. The test after \<open>NewResponse\<close> is the wrong way
  round: a response that was made is not used, and without one the setters are called on nil.
\<close>

definition loginErrResponse :: "('r \<Rightarrow> 'p option) \<Rightarrow> 'r \<Rightarrow> (unit, client_out list) outcome" where
  "loginErrResponse newResponse req =
     (case newResponse req of Some resp \<Rightarrow> Return [] | None \<Rightarrow> Panic)"

section \<open>Messages arrive in order\<close>

definition unsent :: "client_session \<Rightarrow> gateway_message list" where
  "unsent s =
     (case csFwd s of
        FwdCheck f \<Rightarrow> csPending s @ [fwd_message f]
      | FwdSend f \<Rightarrow> csPending s @ [fwd_message f]
      | _ \<Rightarrow> csPending s)"

fun call_ok :: "gateway_message list \<Rightarrow> fwd_call \<Rightarrow> bool" where
  "call_ok pending (FwdPending m) = (pending \<noteq> [])"
| "call_ok pending _ = (pending = [])"

definition forward_inv :: "client_session \<Rightarrow> bool" where
  "forward_inv s \<longleftrightarrow>
     (case csFwd s of
        FwdCheck f \<Rightarrow> call_ok (csPending s) f
      | FwdSend f \<Rightarrow> call_ok (csPending s) f
      | _ \<Rightarrow> True)
     \<and> (\<exists>lost. map (request_of s) (csReceived s) = csSent s @ map (request_of s) (unsent s @ lost)
         \<and> (csFwd s \<noteq> FwdDone \<longrightarrow> lost = []))"

fun control :: "client_out \<Rightarrow> bool" where
  "control OutSuspend = True"
| "control OutResume = True"
| "control OutClose = True"
| "control _ = False"

fun suspended :: "client_out list \<Rightarrow> bool \<Rightarrow> bool" where
  "suspended [] b = b"
| "suspended (x # xs) b = suspended xs (if x = OutSuspend then True else if x = OutResume then False else b)"

definition stream_inv :: "client_session \<Rightarrow> bool" where
  "stream_inv s \<longleftrightarrow>
     (csUp s \<in> {UpRecv, UpLost} \<longrightarrow> csStream s = Some (csRecvFrom s))
     \<and> (csUp s \<in> {UpSelect, UpContext, UpOpen} \<longrightarrow> csStream s = None)
     \<and> (csStream s = None \<longleftrightarrow> suspended (csOut s) False)
     \<and> filter (\<lambda>x. \<not> control x) (csOut s) = concat (map processStreamMessage (csAnswers s))"

definition gw_inv :: "client_session \<Rightarrow> bool" where
  "gw_inv s \<longleftrightarrow> forward_inv s \<and> stream_inv s"

lemma suspended_append [simp]: "suspended (xs @ ys) b = suspended ys (suspended xs b)"
  by (induction xs b rule: suspended.induct) auto

lemma processStreamMessage_plain:
  "filter (\<lambda>x. \<not> control x) (processStreamMessage r) = processStreamMessage r"
  "suspended (processStreamMessage r) b = b"
  by (auto simp: processStreamMessage_def split: option.splits packet_kind.splits)

lemma request_of_update [simp]:
  "request_of (s\<lparr>csSent := a\<rparr>) = request_of s" "request_of (s\<lparr>csPending := b\<rparr>) = request_of s"
  "request_of (s\<lparr>csFwd := c\<rparr>) = request_of s" "request_of (s\<lparr>csDone := d\<rparr>) = request_of s"
  "request_of (s\<lparr>csReceived := e\<rparr>) = request_of s" "request_of (s\<lparr>csStream := f\<rparr>) = request_of s"
  "request_of (s\<lparr>csOut := g\<rparr>) = request_of s" "request_of (s\<lparr>csUp := h\<rparr>) = request_of s"
  "request_of (s\<lparr>csCancelled := i\<rparr>) = request_of s" "request_of (s\<lparr>csCancelFunc := j\<rparr>) = request_of s"
  "request_of (s\<lparr>csNext := k\<rparr>) = request_of s" "request_of (s\<lparr>csRecvFrom := l\<rparr>) = request_of s"
  "request_of (s\<lparr>csCloser := m\<rparr>) = request_of s" "request_of (s\<lparr>csAnswers := n\<rparr>) = request_of s"
  by (simp_all add: request_of_def fun_eq_iff)

lemma forward_inv_other:
  assumes "forward_inv s" and "csFwd s' = csFwd s" and "csPending s' = csPending s" and "csSent s' = csSent s"
    and "csReceived s' = csReceived s" and "request_of s' = request_of s"
  shows "forward_inv s'"
  using assms(1) by (simp only: forward_inv_def unsent_def assms(2-6))

lemma forward_inv_live:
  assumes "forward_inv s" and "csFwd s \<noteq> FwdDone"
  shows "map (request_of s) (csReceived s) = csSent s @ map (request_of s) (unsent s)"
  using assms by (auto simp: forward_inv_def)

lemma forward_inv_check:
  assumes "forward_inv s"
  shows "forward_inv (fwd_check s)"
proof (cases "csFwd s")
  case (FwdCheck f)
  have live: "map (request_of s) (csReceived s) = csSent s @ map (request_of s) (csPending s @ [fwd_message f])"
    using forward_inv_live [OF assms] FwdCheck by (simp add: unsent_def)
  have ok: "call_ok (csPending s) f" using assms FwdCheck by (simp add: forward_inv_def)
  show ?thesis
    using live ok FwdCheck by (auto simp: forward_inv_def fwd_check_def fwd_fail_def unsent_def)
qed (use assms in \<open>simp_all add: fwd_check_def\<close>)

lemma forward_inv_send:
  assumes "forward_inv s"
  shows "forward_inv (fwd_send ok s)"
proof (cases "csFwd s")
  case (FwdSend f)
  have live: "map (request_of s) (csReceived s) = csSent s @ map (request_of s) (csPending s @ [fwd_message f])"
    using forward_inv_live [OF assms] FwdSend by (simp add: unsent_def)
  have cok: "call_ok (csPending s) f" using assms FwdSend by (simp add: forward_inv_def)
  consider (nil) "csStream s = None"
    | (sent) t where "csStream s = Some t" "ok" "t \<notin> csCancelled s"
    | (failed) t where "csStream s = Some t" "\<not> (ok \<and> t \<notin> csCancelled s)"
    by (cases "csStream s") auto
  then show ?thesis
  proof cases
    case nil
    then show ?thesis
      using live FwdSend
      by (auto simp: forward_inv_def fwd_send_def unsent_def intro!: exI [of _ "[fwd_message f]"])
  next
    case sent
    show ?thesis
    proof (cases f)
      case (FwdPending m)
      then obtain p ps where "csPending s = p # ps" using cok by (cases "csPending s") auto
      then show ?thesis
        using live FwdSend sent FwdPending
        by (auto simp: forward_inv_def fwd_send_def fwd_ok_def fwd_target_def unsent_def)
    qed (use live cok FwdSend sent in \<open>auto simp: forward_inv_def fwd_send_def fwd_ok_def fwd_target_def unsent_def\<close>)
  next
    case failed
    then show ?thesis
      using live FwdSend by (auto simp: forward_inv_def fwd_send_def fwd_fail_def unsent_def)
  qed
qed (use assms in \<open>simp_all add: fwd_send_def\<close>)

lemma forward_inv_recv:
  assumes "forward_inv s"
  shows "forward_inv (fwd_recv reply s)"
proof (cases "csFwd s = FwdRecv")
  case True
  have live: "map (request_of s) (csReceived s) = csSent s @ map (request_of s) (csPending s)"
    using forward_inv_live [OF assms] True by (simp add: unsent_def)
  show ?thesis
    using live True by (auto simp: forward_inv_def fwd_recv_def unsent_def split: option.split)
qed (use assms in \<open>simp add: fwd_recv_def\<close>)

lemma forward_inv_step:
  assumes "forward_inv s"
  shows "forward_inv (gw_step s e)"
proof (cases e)
  case (UpReply reply)
  show ?thesis unfolding UpReply gw_step.simps
    by (rule forward_inv_other [OF assms]) (auto simp: up_recv_def split: option.split)
next
  case UpGiveUp
  show ?thesis unfolding UpGiveUp gw_step.simps
    by (rule forward_inv_other [OF assms]) (auto simp: up_lost_def)
next
  case (UpSelected found)
  show ?thesis unfolding UpSelected gw_step.simps
    by (rule forward_inv_other [OF assms]) (auto simp: up_select_def)
next
  case UpNewContext
  show ?thesis unfolding UpNewContext gw_step.simps
    by (rule forward_inv_other [OF assms]) (auto simp: up_context_def)
next
  case (UpOpened ok)
  show ?thesis unfolding UpOpened gw_step.simps
    by (rule forward_inv_other [OF assms]) (auto simp: up_open_def)
next
  case CloserRun
  show ?thesis unfolding CloserRun gw_step.simps
    by (rule forward_inv_other [OF assms]) (auto simp: closer_run_def)
next
  case ServerStop
  show ?thesis unfolding ServerStop gw_step.simps
    by (rule forward_inv_other [OF assms]) auto
qed (simp_all add: forward_inv_check forward_inv_send forward_inv_recv assms)

lemma fwd_frame:
  "csUp (fwd_check s) = csUp s" "csStream (fwd_check s) = csStream s" "csOut (fwd_check s) = csOut s"
  "csAnswers (fwd_check s) = csAnswers s" "csRecvFrom (fwd_check s) = csRecvFrom s"
  "csUp (fwd_send ok s) = csUp s" "csStream (fwd_send ok s) = csStream s" "csOut (fwd_send ok s) = csOut s"
  "csAnswers (fwd_send ok s) = csAnswers s" "csRecvFrom (fwd_send ok s) = csRecvFrom s"
  "csUp (fwd_recv reply s) = csUp s" "csStream (fwd_recv reply s) = csStream s" "csOut (fwd_recv reply s) = csOut s"
  "csAnswers (fwd_recv reply s) = csAnswers s" "csRecvFrom (fwd_recv reply s) = csRecvFrom s"
  by (auto simp: fwd_check_def fwd_send_def fwd_recv_def fwd_fail_def fwd_ok_def split: fwd_pc.split option.split fwd_call.split)

lemma stream_inv_step:
  assumes "stream_inv s"
  shows "stream_inv (gw_step s e)"
proof (cases e)
  case (UpReply reply)
  then show ?thesis using assms
    by (cases reply) (auto simp: stream_inv_def up_recv_def processStreamMessage_plain)
next
  case UpGiveUp
  then show ?thesis using assms by (auto simp: stream_inv_def up_lost_def)
next
  case (UpSelected found)
  then show ?thesis using assms by (auto simp: stream_inv_def up_select_def)
next
  case UpNewContext
  then show ?thesis using assms by (auto simp: stream_inv_def up_context_def)
next
  case (UpOpened ok)
  then show ?thesis using assms by (auto simp: stream_inv_def up_open_def)
next
  case CloserRun
  then show ?thesis using assms by (auto simp: stream_inv_def closer_run_def)
qed (use assms in \<open>auto simp: stream_inv_def fwd_frame\<close>)

definition gw_init :: "client_session \<Rightarrow> bool" where
  "gw_init s \<longleftrightarrow> (\<exists>memberId sessionId message. s = open_session memberId sessionId message)"

interpretation gw: step_system gw_init gw_step gw_inv
proof
  show "gw_init s \<Longrightarrow> gw_inv s" for s
    by (auto simp: gw_init_def gw_inv_def forward_inv_def stream_inv_def open_session_def unsent_def)
  show "gw_inv s \<Longrightarrow> gw_inv (gw_step s e)" for s e
    by (simp add: gw_inv_def forward_inv_step stream_inv_step)
qed

section \<open>Properties\<close>

lemma gw_run_inv: "gw_init s \<Longrightarrow> forward_inv (gw_run s es)" "gw_init s \<Longrightarrow> stream_inv (gw_run s es)"
  using gw.run_inv [of s es] by (simp_all add: gw_inv_def gw_run_def)


text \<open>A message sent without a stream, and the one that sends it later.\<close>

definition first_message :: gateway_message where
  "first_message = \<lparr>gwReqId = 1, gwPayload = [1]\<rparr>"

definition later_message :: gateway_message where
  "later_message = \<lparr>gwReqId = 2, gwPayload = [2]\<rparr>"

definition demo_client :: client_session where
  "demo_client = open_session ''m'' 7 first_message"

definition lost_and_found :: "gw_event list" where
  "lost_and_found =
     [UpReply None, UpGiveUp, FwdTest, UpSelected True, UpNewContext, UpOpened True,
      ClientReply (Some later_message), FwdTest, FwdSent True, FwdTest, FwdSent True]"


text \<open>
  Pending messages wait for the client, not for the stream: between two messages of the client
  nothing more is sent than the message in hand, however long a new stream has been open.
\<close>

lemma pending_waits_for_client:
  assumes "csFwd s = FwdRecv" and "list_all (\<lambda>e. \<forall>r. e \<noteq> ClientReply r) es"
  shows "csSent (gw_run s es) = csSent s \<and> csPending (gw_run s es) = csPending s \<and> csFwd (gw_run s es) = FwdRecv"
  using assms
proof (induction es arbitrary: s)
  case (Cons e es)
  have "csSent (gw_step s e) = csSent s \<and> csPending (gw_step s e) = csPending s \<and> csFwd (gw_step s e) = FwdRecv"
    using Cons.prems
    by (cases e) (auto simp: up_recv_def up_lost_def up_select_def up_context_def up_open_def closer_run_def
        fwd_check_def fwd_send_def split: option.split)
  then show ?case using Cons.IH [of "gw_step s e"] Cons.prems(2) by (simp add: gw_run_def)
qed (simp add: gw_run_def)

text \<open>
  A session that cannot end: the goroutine that receives from the hall waits on a stream whose
  context nobody will cancel, and the others are over.
\<close>

definition stuck :: "client_session \<Rightarrow> bool" where
  "stuck s \<longleftrightarrow> csDone s \<and> csCloser s \<and> csFwd s = FwdDone \<and> csUp s = UpRecv \<and> csRecvFrom s \<notin> csCancelled s"

definition hall_fails :: "gw_event \<Rightarrow> bool" where
  "hall_fails e \<longleftrightarrow> e = UpReply None"

lemma stuck_run:
  "stuck s \<Longrightarrow> list_all (\<lambda>e. \<not> hall_fails e) es \<Longrightarrow> stuck (gw_run s es)"
proof (induction es arbitrary: s)
  case (Cons e es)
  have "stuck (gw_step s e)"
    using Cons.prems
    by (cases e) (auto simp: stuck_def hall_fails_def up_recv_def up_lost_def up_select_def up_context_def
        up_open_def closer_run_def fwd_check_def fwd_send_def fwd_recv_def split: option.split)
  then show ?case using Cons.IH [of "gw_step s e"] Cons.prems(2) by (simp add: gw_run_def)
qed (simp add: gw_run_def)

definition closed_while_selecting :: "gw_event list" where
  "closed_while_selecting =
     [FwdTest, FwdSent True, UpReply None, UpGiveUp, UpSelected False, ClientReply None, CloserRun,
      UpSelected True, UpNewContext, UpOpened True]"

text \<open>
  A client that leaves while the gateway looks for another hall for it can leave its session
  behind: the old stream is cancelled, then a hall is found and a new stream opened, and \<open>serve\<close>
  waits on it until the hall closes it, whatever else happens. The session stays counted and open.
\<close>

lemma left_session_never_ends:
  assumes "list_all (\<lambda>e. \<not> hall_fails e) es"
  shows "let z = gw_run (gw_run demo_client closed_while_selecting) es in
    csDone z \<and> OutClose \<in> set (csOut (gw_run demo_client closed_while_selecting)) \<and> csStream z \<noteq> None \<and> \<not> serve_over z"
proof -
  let ?y = "gw_run demo_client closed_while_selecting"
  have y: "stuck ?y \<and> OutClose \<in> set (csOut ?y)" by code_simp
  then have z: "stuck (gw_run ?y es)" using stuck_run [OF _ assms] by blast
  have i: "gw_init demo_client" by (auto simp: gw_init_def demo_client_def)
  have "gw_run ?y es = gw_run demo_client (closed_while_selecting @ es)" by (simp add: gw_run_def)
  then have "stream_inv (gw_run ?y es)" using gw_run_inv(2) [OF i, of "closed_while_selecting @ es"] by simp
  then show ?thesis using y z by (simp add: stuck_def serve_over_def stream_inv_def Let_def)
qed

lemma left_session_never_ends_witness:
  "csStream (gw_run (gw_run demo_client closed_while_selecting) [CloserRun, ServerStop]) \<noteq> None"
  using left_session_never_ends [of "[CloserRun, ServerStop]"] by (simp add: hall_fails_def Let_def)

text \<open>
  A stream lost between the test of it and the send ends the client's session: the message in
  hand is lost and the session cancelled, though the gateway could have kept the message and found
  another hall.
\<close>

lemma lost_stream_ends_session:
  "let z = gw_run demo_client [FwdTest, UpReply None, UpGiveUp, FwdSent True] in
     csDone z \<and> csFwd z = FwdDone \<and> csReceived z = [first_message] \<and> csSent z = [] \<and> csPending z = []"
  by code_simp

text \<open>
  A client is served exactly when the limit of sessions allows it, its first message is a Login
  request that decodes, and the token it carries is valid and was given to the member it names; with
  a limit of -1 there is no limit, with 0 nobody is served.
\<close>

lemma served_iff_valid_login:
  "ServeClientStream maxSessionCount sessionCount decode login parse secret recv = StreamServed member \<longleftrightarrow>
     (maxSessionCount = -1 \<or> maxSessionCount \<noteq> 0 \<and> sessionCount < maxSessionCount)
     \<and> (\<exists>req dataReq token. recv = Some req \<and> decode (gwPayload req) = Some (''Login'', dataReq)
          \<and> login dataReq = Some (member, token) \<and> parse token secret = Some member)"
proof -
  have "ServeClientStream maxSessionCount sessionCount decode login parse secret recv = StreamServed member \<Longrightarrow> ?thesis"
    by (auto simp: ServeClientStream_def split: if_splits option.splits prod.splits)
  moreover have ?thesis if r: "maxSessionCount = -1 \<or> maxSessionCount \<noteq> 0 \<and> sessionCount < maxSessionCount"
    "\<exists>req dataReq token. recv = Some req \<and> decode (gwPayload req) = Some (''Login'', dataReq)
          \<and> login dataReq = Some (member, token) \<and> parse token secret = Some member"
    using r by (auto simp: ServeClientStream_def)
  ultimately show ?thesis by blast
qed

text \<open>
  A client whose login is refused is never told why: whatever the protocol's \<open>NewResponse\<close>
  does, \<open>loginErrResponse\<close> sends nothing, and panics when there is no response to make.
\<close>

lemma login_error_never_sent:
  "loginErrResponse newResponse req =
     (case newResponse req of None \<Rightarrow> Panic | Some resp \<Rightarrow> Return [])"
  by (simp add: loginErrResponse_def split: option.split)

end
