(* ===== verification/Go_Errors.thy ===== *)
theory Go_Errors
  imports Gira_Prelude
begin

text \<open>
  The error values of \<open>errors/errors.go\<close> and \<open>codes/codes.go\<close>: plain errors, errors with a code,
  and the trace errors that wrap another error with values and a stack; \<open>Is\<close>, \<open>Code\<close>, \<open>Msg\<close> and
  \<open>Stacktrace\<close>. \<open>fmt\<close> is \<open>%v\<close> of a value and \<open>order\<close> the order in which a map of values is visited.

  The lemmas: a code survives any nesting of traces of either package, and \<open>Is\<close> finds it.
\<close>

section \<open>Values and errors\<close>

datatype any_value = AnyString string | AnyOther nat

type_synonym error_values = "string \<rightharpoonup> any_value"

text \<open>An error is a pointer: the first argument of a constructor is its address.\<close>

datatype go_error =
    PlainError nat string "error_values option"
  | CodeError nat "32 word" string "error_values option"
  | PlainTrace nat go_error "error_values option" string
  | CodeTrace nat go_error "error_values option" string
  | OtherError nat string

text \<open>The values of \<open>New\<close> and \<open>Trace\<close>: none for an odd number; keys that are not strings are dropped.\<close>

fun value_pairs :: "any_value list \<Rightarrow> error_values \<Rightarrow> error_values" where
  "value_pairs (AnyString k # v # vs) kvs = value_pairs vs (kvs(k \<mapsto> v))"
| "value_pairs (AnyOther _ # v # vs) kvs = value_pairs vs kvs"
| "value_pairs _ kvs = kvs"

definition values_of :: "any_value list \<Rightarrow> error_values option" where
  "values_of vs = (if odd (length vs) \<or> vs = [] then None else Some (value_pairs vs Map.empty))"

definition New_error :: "nat \<Rightarrow> string \<Rightarrow> any_value list \<Rightarrow> go_error" where
  "New_error a msg vs = PlainError a msg (values_of vs)"

definition New_code :: "nat \<Rightarrow> 32 word \<Rightarrow> string \<Rightarrow> any_value list \<Rightarrow> go_error" where
  "New_code a code msg vs = CodeError a code msg (values_of vs)"

definition Trace_error :: "nat \<Rightarrow> go_error \<Rightarrow> any_value list \<Rightarrow> string \<Rightarrow> go_error" where
  "Trace_error a e vs stack = PlainTrace a e (values_of vs) stack"

definition Trace_code :: "nat \<Rightarrow> go_error \<Rightarrow> any_value list \<Rightarrow> string \<Rightarrow> go_error" where
  "Trace_code a e vs stack = CodeTrace a e (values_of vs) stack"

section \<open>Error, Unwrap and Is\<close>

definition values_text :: "(any_value \<Rightarrow> string) \<Rightarrow> (error_values \<Rightarrow> string list) \<Rightarrow> error_values option \<Rightarrow> string" where
  "values_text fmt order vs =
     (case vs of
        None \<Rightarrow> []
      | Some kvs \<Rightarrow> concat (map (\<lambda>k. CHR 0x0A # k @ '': '' @ (case kvs k of Some v \<Rightarrow> fmt v | None \<Rightarrow> [])) (order kvs)))"

fun error_text :: "(any_value \<Rightarrow> string) \<Rightarrow> (error_values \<Rightarrow> string list) \<Rightarrow> go_error \<Rightarrow> string" where
  "error_text fmt order (PlainError a msg vs) = msg @ values_text fmt order vs"
| "error_text fmt order (CodeError a code msg vs) = fmt_int (sint code) @ '': '' @ msg @ values_text fmt order vs"
| "error_text fmt order (PlainTrace a e vs stack) =
     error_text fmt order e @ values_text fmt order vs @ CHR 0x0A # stack"
| "error_text fmt order (CodeTrace a e vs stack) =
     error_text fmt order e @ values_text fmt order vs @ CHR 0x0A # stack"
| "error_text fmt order (OtherError a txt) = txt"

fun Unwrap :: "go_error \<Rightarrow> go_error option" where
  "Unwrap (PlainTrace a e vs stack) = Some e"
| "Unwrap (CodeTrace a e vs stack) = Some e"
| "Unwrap _ = None"

text \<open>\<open>==\<close> on interfaces of pointers: the same type and the same address.\<close>

fun same_error :: "go_error \<Rightarrow> go_error \<Rightarrow> bool" where
  "same_error (PlainError a _ _) (PlainError b _ _) = (a = b)"
| "same_error (CodeError a _ _ _) (CodeError b _ _ _) = (a = b)"
| "same_error (PlainTrace a _ _ _) (PlainTrace b _ _ _) = (a = b)"
| "same_error (CodeTrace a _ _ _) (CodeTrace b _ _ _) = (a = b)"
| "same_error (OtherError a _) (OtherError b _) = (a = b)"
| "same_error _ _ = False"

text \<open>The methods \<open>Is\<close> of the error types; \<open>OtherError\<close> stands for types with neither method.\<close>

fun is_method :: "go_error \<Rightarrow> go_error \<Rightarrow> bool" where
  "is_method (CodeError a code _ _) (CodeError b code' _ _) = (code = code')"
| "is_method (OtherError a _) t = False"
| "is_method e t = same_error e t"

fun Is_loop :: "go_error \<Rightarrow> go_error \<Rightarrow> bool" where
  "Is_loop (PlainTrace a e vs stack) t =
     (same_error (PlainTrace a e vs stack) t \<or> is_method (PlainTrace a e vs stack) t \<or> Is_loop e t)"
| "Is_loop (CodeTrace a e vs stack) t =
     (same_error (CodeTrace a e vs stack) t \<or> is_method (CodeTrace a e vs stack) t \<or> Is_loop e t)"
| "Is_loop e t = (same_error e t \<or> is_method e t)"

definition Is :: "go_error option \<Rightarrow> go_error option \<Rightarrow> bool" where
  "Is err target =
     (case target of
        None \<Rightarrow> err = None
      | Some t \<Rightarrow> (case err of None \<Rightarrow> False | Some e \<Rightarrow> Is_loop e t))"

section \<open>Code, Msg and Stacktrace\<close>

definition CodeOk :: "32 word" where "CodeOk = 0"
definition CodeUnknown :: "32 word" where "CodeUnknown = 1"

text \<open>The first part of the text before a colon is read as a number; \<open>int32(i)\<close> cuts it.\<close>

definition text_code :: "string \<Rightarrow> 32 word" where
  "text_code txt =
     (case atoi (hd (split_on (CHR '':'') txt)) of None \<Rightarrow> CodeUnknown | Some i \<Rightarrow> word_of_int i)"

definition Code :: "(any_value \<Rightarrow> string) \<Rightarrow> (error_values \<Rightarrow> string list) \<Rightarrow> go_error option \<Rightarrow> 32 word" where
  "Code fmt order err =
     (case err of
        None \<Rightarrow> 0
      | Some (CodeError a code msg vs) \<Rightarrow> code
      | Some (CodeTrace a (CodeError b code msg ws) vs stack) \<Rightarrow> code
      | Some e \<Rightarrow> text_code (error_text fmt order e))"

definition Msg :: "(any_value \<Rightarrow> string) \<Rightarrow> (error_values \<Rightarrow> string list) \<Rightarrow> string \<Rightarrow> go_error option \<Rightarrow> string" where
  "Msg fmt order msg_Ok err =
     (case err of
        None \<Rightarrow> msg_Ok
      | Some (CodeError a code msg vs) \<Rightarrow> msg
      | Some (CodeTrace a (CodeError b code msg ws) vs stack) \<Rightarrow> msg
      | Some e \<Rightarrow>
          (let s = split_on (CHR '':'') (error_text fmt order e) in
           if length s < 2 then error_text fmt order e else s ! 1))"

definition Stacktrace :: "go_error option \<Rightarrow> string" where
  "Stacktrace err = (case err of Some (CodeTrace a e vs stack) \<Rightarrow> stack | _ \<Rightarrow> [])"

section \<open>Lemmas\<close>

text \<open>The error a chain of traces wraps.\<close>

fun root :: "go_error \<Rightarrow> go_error" where
  "root (PlainTrace a e vs stack) = root e"
| "root (CodeTrace a e vs stack) = root e"
| "root e = e"

lemma error_text_root: "\<exists>rest. error_text fmt order e = error_text fmt order (root e) @ rest"
  by (induction e) auto

lemma fmt_int_no_colon: "CHR '':'' \<notin> set (fmt_int i)"
  using fmt_int_chars [of "CHR '':''" i] by (auto simp: is_digit_def)

lemma text_code_root:
  assumes "root e = CodeError a code msg vs"
  shows "text_code (error_text fmt order e) = code"
proof -
  obtain rest where "error_text fmt order e = fmt_int (sint code) @ CHR '':'' # rest"
    using error_text_root [of fmt order e] assms by auto
  then have "hd (split_on (CHR '':'') (error_text fmt order e)) = fmt_int (sint code)"
    by (simp add: split_on_append_sep fmt_int_no_colon)
  moreover have "atoi (fmt_int (sint code)) = Some (sint code)"
  proof (rule atoi_fmt_int)
    show "- (2 ^ 63) \<le> sint code" and "sint code < 2 ^ 63"
      using sint_greater_eq [of code] sint_less [of code] by simp_all
  qed
  ultimately show ?thesis by (simp add: text_code_def)
qed

lemma Code_root:
  assumes "root e = CodeError a code msg vs"
  shows "Code fmt order (Some e) = code"
  using assms text_code_root [OF assms, of fmt order]
  by (auto simp: Code_def split: go_error.splits)

lemma Is_loop_root:
  assumes "root e = CodeError a code msg vs"
  shows "Is_loop e (CodeError b code' msg' vs') \<longleftrightarrow> a = b \<or> code = code'"
  using assms by (induction e) auto

section \<open>Properties\<close>

text \<open>
  Tracing keeps the code of an error: whatever traces of the two packages wrap an error with a
  code, in any number and order and with any values and stacks, \<open>Code\<close> is that code, \<open>Is\<close> holds of
  an error of the same code and of no error of another one, and the text starts with the code.
\<close>

lemma traced_code_error:
  assumes "root e = CodeError a code msg vs" and "a = b \<longrightarrow> code = code'"
  shows "Code fmt order (Some e) = code
    \<and> (Is (Some e) (Some (CodeError b code' msg' vs')) \<longleftrightarrow> code = code')
    \<and> prefix (fmt_int (sint code) @ '': '' @ msg) (error_text fmt order e)"
proof -
  have "prefix (fmt_int (sint code) @ '': '' @ msg) (error_text fmt order e)"
    using error_text_root [of fmt order e] assms(1) by auto
  then show ?thesis
    using Code_root [OF assms(1)] Is_loop_root [OF assms(1)] assms(2) by (auto simp: Is_def)
qed

definition demo_traced :: go_error where
  "demo_traced = Trace_error 3 (Trace_code 2 (New_code 1 5 ''bad'' []) [] ''s'') [AnyString ''k'', AnyOther 0] ''t''"

lemma traced_code_error_witness:
  "Code (\<lambda>_. []) (\<lambda>_. [''k'']) (Some demo_traced) = 5
   \<and> Is (Some demo_traced) (Some (CodeError 9 5 ''other'' None))"
proof -
  have "root demo_traced = CodeError 1 5 ''bad'' None"
    by (simp add: demo_traced_def Trace_error_def Trace_code_def New_code_def values_of_def)
  from traced_code_error [OF this, of 9 5 "\<lambda>_. []" "\<lambda>_. [''k'']" "''other''" None] show ?thesis by simp
qed

text \<open>
  The message does not survive a second trace: \<open>Msg\<close> then cuts the text at colons and gives the
  message with a leading space and what follows it in the text. And a text that starts with a number
  beyond 32 bits can give the code of success.
\<close>

lemma Msg_of_double_trace:
  "Msg (\<lambda>_. []) (\<lambda>_. []) ''ok'' (Some (Trace_code 3 (Trace_code 2 (New_code 1 5 ''bad'' []) [] ''s'') [] ''t''))
     = '' bad'' @ [CHR 0x0A] @ ''s'' @ [CHR 0x0A] @ ''t''"
  by code_simp

lemma Code_cut_to_ok: "Code fmt order (Some (OtherError 1 ''4294967296: x'')) = CodeOk"
proof -
  have "hd (split_on (CHR '':'') ''4294967296: x'') = ''4294967296''" by code_simp
  moreover have "atoi ''4294967296'' = Some 4294967296"
    by (simp add: atoi_def is_digit_def)
  ultimately have "text_code ''4294967296: x'' = CodeOk" by (simp add: text_code_def CodeOk_def)
  then show ?thesis by (simp add: Code_def)
qed

end
