(* ===== verification/Config_File.thy ===== *)
theory Config_File
  imports Message "HOL-Library.Multiset"
begin

text \<open>
  The configuration files of an application, \<open>config/config.go\<close>: the preprocessing of a file
  (environment variables, \<open>$include\<close> and \<open>$template\<close> instructions), the environment file, and the
  reading of both. Files are a map from paths to contents, the environment one from names to
  values; the template engine and the YAML decoder are parameters.

  The lemmas: what a file without instructions becomes, that files whose includes have no cycle are
  read with the nesting of the includes as fuel, which value a variable gets, and what becomes of the
  line that ends a list of includes.
\<close>

section \<open>Paths, lines and variables\<close>

text \<open>\<open>path.Clean\<close>, \<open>path.Dir\<close> and \<open>path.Join\<close> of two parts.\<close>

fun clean_parts :: "bool \<Rightarrow> string list \<Rightarrow> string list \<Rightarrow> string list" where
  "clean_parts rooted stack [] = rev stack"
| "clean_parts rooted stack (w # ws) =
     (if w = [] \<or> w = ''.'' then clean_parts rooted stack ws
      else if w = ''..''
      then (case stack of
              [] \<Rightarrow> clean_parts rooted (if rooted then [] else [w]) ws
            | x # xs \<Rightarrow> clean_parts rooted (if x = ''..'' then w # stack else xs) ws)
      else clean_parts rooted (w # stack) ws)"

definition path_Clean :: "string \<Rightarrow> string" where
  "path_Clean p =
     (let rooted = (p \<noteq> [] \<and> hd p = CHR ''/'');
          q = (if rooted then ''/'' else []) @ join_with ''/'' (clean_parts rooted [] (split_on (CHR ''/'') p))
      in if q = [] then ''.'' else q)"

definition path_Dir :: "string \<Rightarrow> string" where
  "path_Dir p = path_Clean (rev (dropWhile (\<lambda>c. c \<noteq> CHR ''/'') (rev p)))"

definition path_Join :: "string \<Rightarrow> string \<Rightarrow> string" where
  "path_Join a b = path_Clean (a @ ''/'' @ b)"

text \<open>
  \<open>bufio.ScanLines\<close>: lines without their end; the scanner stops, with an error nobody reads, at a
  line that does not fit its buffer of 64 KiB.
\<close>

definition max_token :: nat where "max_token = 64 * 1024"

definition drop_cr :: "string \<Rightarrow> string" where
  "drop_cr l = (if l \<noteq> [] \<and> last l = CHR 0x0D then butlast l else l)"

definition scan_lines :: "string \<Rightarrow> string list" where
  "scan_lines content =
     (let ls = split_on (CHR 0x0A) content; ls = (if last ls = [] then butlast ls else ls)
      in map drop_cr (takeWhile (\<lambda>l. length l < max_token) ls))"

definition is_word :: "char \<Rightarrow> bool" where
  "is_word c \<longleftrightarrow> is_digit c \<or> (65 \<le> (of_char c :: nat) \<and> (of_char c :: nat) \<le> 90)
     \<or> (97 \<le> (of_char c :: nat) \<and> (of_char c :: nat) \<le> 122) \<or> c = CHR ''_''"

text \<open>\<open>FindAllString\<close> of a dollar sign, a brace, word characters and a brace: the names, in order.\<close>

function env_names :: "string \<Rightarrow> string list" where
  "env_names [] = []"
| "env_names (c # s) =
     (if c = CHR ''$'' \<and> s \<noteq> [] \<and> hd s = CHR ''{''
      then (let w = takeWhile is_word (tl s); r = dropWhile is_word (tl s) in
            if w \<noteq> [] \<and> r \<noteq> [] \<and> hd r = CHR ''}'' then w # env_names (tl r) else env_names s)
      else env_names s)"
  by pat_completeness auto

termination env_names
proof (relation "measure length")
  fix c :: char and s w r :: string
  assume "r = dropWhile is_word (tl s)"
  then have "length r \<le> length s"
    by (metis diff_le_self le_trans length_dropWhile_le length_tl)
  then show "(tl r, c # s) \<in> measure length" by simp
qed simp_all

text \<open>\<open>strings.Replace(s, old, new, 1)\<close> for an \<open>old\<close> that is not empty.\<close>

fun replace_first :: "string \<Rightarrow> string \<Rightarrow> string \<Rightarrow> string" where
  "replace_first old new [] = []"
| "replace_first old new (c # s) =
     (if prefix old (c # s) then new @ drop (length old) (c # s) else c # replace_first old new s)"

definition expand_env :: "(string \<Rightarrow> string) \<Rightarrow> string \<Rightarrow> string" where
  "expand_env getenv line =
     fold (\<lambda>name l. replace_first (''${'' @ name @ ''}'') (getenv name) l) (env_names line) line"

section \<open>Preprocessing\<close>

datatype instruction = InstructionNone | InstructionInclude | InstructionTemplate

datatype config_error = SyntaxError string | DotEnvError | TemplateError

record config_file =
  cfOut :: string
  cfTemplates :: "string list"

definition write_line :: "string \<Rightarrow> string \<Rightarrow> config_file \<Rightarrow> config_file" where
  "write_line indent line file = file\<lparr>cfOut := cfOut file @ indent @ line @ [CHR 0x0A]\<rparr>"

definition include_key :: string where "include_key = ''$include:''"
definition template_key :: string where "template_key = ''$template:''"

text \<open>
  A line of a list: the file it names, none when the line ends the list. A line with the key names
  what follows its first colon, one that begins with a hyphen what remains without it.
\<close>

definition list_item :: "string \<Rightarrow> string \<Rightarrow> string option" where
  "list_item key line =
     (let sline = TrimSpace line in
      if prefix key sline
      then Some (case dropWhile (\<lambda>c. c \<noteq> CHR '':'') line of [] \<Rightarrow> [] | _ # r \<Rightarrow> TrimSpace r)
      else if prefix ''-'' sline then Some (TrimSpace (replace_first ''-'' [] line))
      else None)"

definition next_instruction :: "instruction \<Rightarrow> string \<Rightarrow> instruction" where
  "next_instruction ins line =
     (if ins = InstructionNone
      then (if prefix include_key (TrimSpace line) then InstructionInclude
            else if prefix template_key (TrimSpace line) then InstructionTemplate else InstructionNone)
      else ins)"

text \<open>
  The loop over the lines. \<open>inc\<close> is the preprocessing of an included file, with its indentation; the
  outer option is none when the fuel of the includes is out.
\<close>

type_synonym pp_result = "(config_error, config_file) outcome option"

fun pp_lines ::
  "(string \<Rightarrow> string \<Rightarrow> config_file \<Rightarrow> pp_result) \<Rightarrow> (string \<Rightarrow> string) \<Rightarrow> string \<Rightarrow> string \<Rightarrow>
     instruction \<Rightarrow> string list \<Rightarrow> config_file \<Rightarrow> pp_result"
where
  "pp_lines inc getenv dir indent ins [] file = Some (Return file)"
| "pp_lines inc getenv dir indent ins (line # lines) file =
     (case next_instruction ins line of
        InstructionNone \<Rightarrow>
          pp_lines inc getenv dir indent InstructionNone lines (write_line indent (expand_env getenv line) file)
      | InstructionInclude \<Rightarrow>
          (case list_item include_key line of
             None \<Rightarrow> pp_lines inc getenv dir indent InstructionNone lines (write_line indent line file)
           | Some [] \<Rightarrow> pp_lines inc getenv dir indent InstructionInclude lines file
           | Some (c # cs) \<Rightarrow>
               (case inc (replace_first (TrimSpace line) [] line @ indent) (path_Join dir (c # cs)) file of
                  Some (Return file') \<Rightarrow> pp_lines inc getenv dir indent InstructionInclude lines file'
                | r \<Rightarrow> r))
      | InstructionTemplate \<Rightarrow>
          (case list_item template_key line of
             None \<Rightarrow> pp_lines inc getenv dir indent InstructionNone lines (write_line indent line file)
           | Some [] \<Rightarrow> pp_lines inc getenv dir indent InstructionTemplate lines file
           | Some (c # cs) \<Rightarrow>
               pp_lines inc getenv dir indent InstructionTemplate lines
                 (file\<lparr>cfTemplates := cfTemplates file @ [path_Join dir (c # cs)]\<rparr>)))"

text \<open>The fuel is how deep includes may nest; a file that cannot be opened is an error.\<close>

fun preprocess ::
  "nat \<Rightarrow> (string \<rightharpoonup> string) \<Rightarrow> (string \<Rightarrow> string) \<Rightarrow> string \<Rightarrow> string \<Rightarrow> config_file \<Rightarrow> pp_result" where
  "preprocess 0 fs getenv indent filePath file = None"
| "preprocess (Suc n) fs getenv indent filePath file =
     (case fs filePath of
        None \<Rightarrow> Some (Error (SyntaxError filePath))
      | Some content \<Rightarrow>
          pp_lines (preprocess n fs getenv) getenv (path_Dir filePath) indent InstructionNone (scan_lines content) file)"

section \<open>The environment file\<close>

text \<open>
  \<open>readDotEnv\<close>: \<open>dict\<close> is what the library read from the file, in the order in which the map is
  visited; \<open>order\<close> the orders in which the two maps made of it are. Variables that are set already
  are kept, and \<open>os.Setenv\<close> refuses an empty name.
\<close>

definition set_unset :: "string \<times> string \<Rightarrow> (string \<rightharpoonup> string) \<Rightarrow> (string \<rightharpoonup> string)" where
  "set_unset kv env =
     (case kv of (k, v) \<Rightarrow> if k = [] \<or> env k \<noteq> None then env else env(k \<mapsto> v))"

definition readDotEnv ::
  "string \<Rightarrow> ((string \<times> string) list \<Rightarrow> (string \<times> string) list) \<Rightarrow> (string \<times> string) list option \<Rightarrow>
     (string \<rightharpoonup> string) \<Rightarrow> (config_error, string \<rightharpoonup> string) outcome" where
  "readDotEnv appName order dotEnv env =
     (case dotEnv of
        None \<Rightarrow> Error DotEnvError
      | Some dict \<Rightarrow>
          (let appNamePrefix = appName @ ''.'';
               appPrefixEnv = map (\<lambda>(k, v). (drop (length appNamePrefix) k, v))
                 (filter (\<lambda>(k, v). prefix appNamePrefix k) dict);
               fileEnv = filter (\<lambda>(k, v). \<not> prefix appNamePrefix k) dict
           in Return (fold set_unset (order fileEnv) (fold set_unset (order appPrefixEnv) env))))"

definition Getenv :: "(string \<rightharpoonup> string) \<Rightarrow> string \<Rightarrow> string" where
  "Getenv env k = (case env k of None \<Rightarrow> [] | Some v \<Rightarrow> v)"

section \<open>Reading a configuration\<close>

text \<open>
  \<open>execute\<close> is the template engine with the functions of \<open>templateFuncs\<close> on a text and its data,
  \<open>unmarshal\<close> the YAML decoder; both may fail.
\<close>

definition no_file :: config_file where
  "no_file = \<lparr>cfOut = [], cfTemplates = []\<rparr>"

definition readTemplateData ::
  "nat \<Rightarrow> (string \<rightharpoonup> string) \<Rightarrow> (string \<Rightarrow> string) \<Rightarrow> (string \<Rightarrow> 'd option \<Rightarrow> string option) \<Rightarrow>
     (string \<Rightarrow> 'd option) \<Rightarrow> string \<Rightarrow> (config_error, 'd) outcome option" where
  "readTemplateData n fs getenv execute unmarshal filePath =
     (if fs filePath = None then Some (Error (SyntaxError filePath))
      else (case preprocess n fs getenv [] filePath no_file of
              None \<Rightarrow> None
            | Some r \<Rightarrow>
                Some (bind_outcome r (\<lambda>file.
                  case execute (cfOut file) None of
                    None \<Rightarrow> Error (SyntaxError filePath)
                  | Some out \<Rightarrow>
                      (case unmarshal out of None \<Rightarrow> Error (SyntaxError filePath) | Some d \<Rightarrow> Return d)))))"

text \<open>The loop over the templates: each replaces the data of the one before.\<close>

fun template_data ::
  "(string \<Rightarrow> (config_error, 'd) outcome option) \<Rightarrow> string list \<Rightarrow> 'd \<Rightarrow> (config_error, 'd) outcome option" where
  "template_data readData [] envData = Some (Return envData)"
| "template_data readData (t # ts) envData =
     (case readData t of Some (Return d) \<Rightarrow> template_data readData ts d | r \<Rightarrow> r)"

definition read_config ::
  "nat \<Rightarrow> (string \<rightharpoonup> string) \<Rightarrow> string \<Rightarrow> ((string \<times> string) list \<Rightarrow> (string \<times> string) list) \<Rightarrow>
     (string \<times> string) list option \<Rightarrow> (string \<rightharpoonup> string) \<Rightarrow> (string \<Rightarrow> 'd option \<Rightarrow> string option) \<Rightarrow>
     (string \<Rightarrow> 'd option) \<Rightarrow> 'd \<Rightarrow> string \<Rightarrow> (config_error, string) outcome option" where
  "read_config n fs appName order dotEnv env execute unmarshal noData configFilePath =
     (case readDotEnv appName order dotEnv env of
        Error e \<Rightarrow> Some (Error e)
      | Panic \<Rightarrow> Some Panic
      | Return env' \<Rightarrow>
          (case preprocess n fs (Getenv env') [] configFilePath no_file of
             None \<Rightarrow> None
           | Some (Error e) \<Rightarrow> Some (Error e)
           | Some Panic \<Rightarrow> Some Panic
           | Some (Return file) \<Rightarrow>
               (let run = (\<lambda>data. case execute (cfOut file) data of
                              None \<Rightarrow> Error TemplateError | Some out \<Rightarrow> Return out)
                in if cfTemplates file = [] then Some (run None)
                   else (case template_data (readTemplateData n fs (Getenv env') execute unmarshal)
                                (cfTemplates file) noData of
                           None \<Rightarrow> None
                         | Some r \<Rightarrow> Some (bind_outcome r (\<lambda>d. run (Some d)))))))"

section \<open>Lines\<close>

definition lines_text :: "string list \<Rightarrow> string" where
  "lines_text ls = concat (map (\<lambda>l. l @ [CHR 0x0A]) ls)"

definition line_ok :: "string \<Rightarrow> bool" where
  "line_ok l \<longleftrightarrow> CHR 0x0A \<notin> set l \<and> length l < max_token \<and> (l = [] \<or> last l \<noteq> CHR 0x0D)"

lemma split_lines_text:
  assumes "list_all line_ok ls"
  shows "split_on (CHR 0x0A) (lines_text ls @ s) = ls @ split_on (CHR 0x0A) s"
  using assms
proof (induction ls)
  case (Cons l ls)
  then show ?case by (simp add: lines_text_def split_on_append_sep line_ok_def)
qed (simp add: lines_text_def)

lemma map_drop_cr: "list_all line_ok ls \<Longrightarrow> map drop_cr ls = ls"
  by (induction ls) (auto simp: line_ok_def drop_cr_def)

text \<open>
  A text of short lines is those lines; a line too long for the scanner and all after it are not
  seen.
\<close>

lemma scan_lines_text:
  assumes "list_all line_ok ls"
    and "s = [] \<or> (\<exists>l r. CHR 0x0A \<notin> set l \<and> max_token \<le> length l \<and> (s = l \<or> s = l @ CHR 0x0A # r))"
  shows "scan_lines (lines_text ls @ s) = ls"
proof -
  have tw: "takeWhile (\<lambda>l. length l < max_token) (ls @ ms) = ls @ takeWhile (\<lambda>l. length l < max_token) ms" for ms
    using assms(1) by (induction ls) (auto simp: line_ok_def)
  have m0: "0 < max_token" by (simp add: max_token_def)
  from assms(2) show ?thesis
  proof
    assume "s = []"
    then have sp: "split_on (CHR 0x0A) (lines_text ls @ s) = ls @ [[]]"
      using split_lines_text [OF assms(1), of s] by simp
    have "takeWhile (\<lambda>l. length l < max_token) ls = ls" using tw [of "[]"] by (simp del: takeWhile_eq_all_conv)
    then show ?thesis
      unfolding scan_lines_def sp Let_def by (simp add: map_drop_cr assms(1) del: takeWhile_eq_all_conv)
  next
    assume "\<exists>l r. CHR 0x0A \<notin> set l \<and> max_token \<le> length l \<and> (s = l \<or> s = l @ CHR 0x0A # r)"
    then obtain l r where l: "CHR 0x0A \<notin> set l" "max_token \<le> length l" and s: "s = l \<or> s = l @ CHR 0x0A # r"
      by blast
    have lne: "l \<noteq> []" using l(2) m0 by auto
    obtain ms where ms: "split_on (CHR 0x0A) s = l # ms"
      using s l(1) by (metis split_on_append_sep split_on_no_sep)
    have sp: "split_on (CHR 0x0A) (lines_text ls @ s) = ls @ l # ms"
      using split_lines_text [OF assms(1), of s] ms by simp
    have "takeWhile (\<lambda>l. length l < max_token) (ls @ l # ms) = ls" using tw [of "l # ms"] l(2) by simp
    moreover have "takeWhile (\<lambda>l. length l < max_token) (butlast (ls @ l # ms)) = ls" if "last (ls @ l # ms) = []"
    proof -
      have "ms \<noteq> []" using that lne by auto
      then have "butlast (ls @ l # ms) = ls @ l # butlast ms" by (simp add: butlast_append)
      then show ?thesis using tw [of "l # butlast ms"] l(2) by simp
    qed
    ultimately show ?thesis
      unfolding scan_lines_def sp Let_def by (simp add: map_drop_cr assms(1))
  qed
qed

definition plain_line :: "string \<Rightarrow> bool" where
  "plain_line l \<longleftrightarrow> \<not> prefix include_key (TrimSpace l) \<and> \<not> prefix template_key (TrimSpace l)"

lemma pp_lines_plain:
  assumes "list_all plain_line ls"
  shows "pp_lines inc getenv dir indent InstructionNone ls f =
    Some (Return (f\<lparr>cfOut := cfOut f @ concat (map (\<lambda>l. indent @ expand_env getenv l @ [CHR 0x0A]) ls)\<rparr>))"
  using assms
proof (induction ls arbitrary: f)
  case (Cons l ls)
  have "next_instruction InstructionNone l = InstructionNone"
    using Cons.prems by (simp add: next_instruction_def plain_line_def)
  then show ?case using Cons by (simp add: write_line_def)
qed simp

section \<open>Fuel\<close>

text \<open>The files a file includes.\<close>

fun included :: "string \<Rightarrow> instruction \<Rightarrow> string list \<Rightarrow> string list" where
  "included dir ins [] = []"
| "included dir ins (line # lines) =
     (case next_instruction ins line of
        InstructionNone \<Rightarrow> included dir InstructionNone lines
      | InstructionInclude \<Rightarrow>
          (case list_item include_key line of
             None \<Rightarrow> included dir InstructionNone lines
           | Some [] \<Rightarrow> included dir InstructionInclude lines
           | Some (c # cs) \<Rightarrow> path_Join dir (c # cs) # included dir InstructionInclude lines)
      | InstructionTemplate \<Rightarrow>
          (case list_item template_key line of
             None \<Rightarrow> included dir InstructionNone lines
           | Some i \<Rightarrow> included dir InstructionTemplate lines))"

definition file_includes :: "(string \<rightharpoonup> string) \<Rightarrow> string \<Rightarrow> string set" where
  "file_includes fs p =
     (case fs p of
        None \<Rightarrow> {}
      | Some content \<Rightarrow> set (included (path_Dir p) InstructionNone (scan_lines content)))"

lemma pp_lines_cong:
  assumes "\<And>ind p f. p \<in> set (included dir ins lines) \<Longrightarrow> inc ind p f = inc' ind p f"
  shows "pp_lines inc getenv dir indent ins lines f0 = pp_lines inc' getenv dir indent ins lines f0"
  using assms
proof (induction lines arbitrary: ins f0)
  case (Cons line lines)
  show ?case
  proof (cases "next_instruction ins line")
    case InstructionNone
    then show ?thesis using Cons.prems Cons.IH [of InstructionNone] by simp
  next
    case InstructionTemplate
    then show ?thesis using Cons.prems Cons.IH [of InstructionNone] Cons.IH [of InstructionTemplate]
      by (auto split: option.splits list.splits)
  next
    case InstructionInclude
    show ?thesis
    proof (cases "list_item include_key line")
      case None
      then show ?thesis using InstructionInclude Cons.prems Cons.IH [of InstructionNone] by simp
    next
      case (Some item)
      have eq: "item = c # cs \<Longrightarrow> inc ind (path_Join dir (c # cs)) f = inc' ind (path_Join dir (c # cs)) f" for c cs ind f
        using Cons.prems InstructionInclude Some by simp
      have rest: "pp_lines inc getenv dir indent InstructionInclude lines f
          = pp_lines inc' getenv dir indent InstructionInclude lines f" for f
        by (rule Cons.IH) (use Cons.prems InstructionInclude Some in \<open>auto split: list.splits\<close>)
      show ?thesis using InstructionInclude Some eq rest
        by (cases item) (simp_all split: option.split outcome.split)
    qed
  qed
qed simp

lemma pp_lines_Some:
  assumes "\<And>ind p f. p \<in> set (included dir ins lines) \<Longrightarrow> inc ind p f \<noteq> None"
  shows "pp_lines inc getenv dir indent ins lines f0 \<noteq> None"
  using assms
proof (induction lines arbitrary: ins f0)
  case (Cons line lines)
  show ?case
  proof (cases "next_instruction ins line")
    case InstructionNone
    then show ?thesis using Cons.prems Cons.IH [of InstructionNone] by simp
  next
    case InstructionTemplate
    then show ?thesis using Cons.prems Cons.IH [of InstructionNone] Cons.IH [of InstructionTemplate]
      by (auto split: option.splits list.splits)
  next
    case InstructionInclude
    show ?thesis
    proof (cases "list_item include_key line")
      case None
      then show ?thesis using InstructionInclude Cons.prems Cons.IH [of InstructionNone] by simp
    next
      case (Some item)
      have rest: "pp_lines inc getenv dir indent InstructionInclude lines f \<noteq> None" for f
        by (rule Cons.IH) (use Cons.prems InstructionInclude Some in \<open>auto split: list.splits\<close>)
      show ?thesis
      proof (cases item)
        case item: (Cons c cs)
        let ?r = "inc (replace_first (TrimSpace line) [] line @ indent) (path_Join dir (c # cs)) f0"
        have "?r \<noteq> None" using Cons.prems InstructionInclude Some item by simp
        then obtain r where "?r = Some r" by blast
        then show ?thesis using InstructionInclude Some item rest by (cases r) simp_all
      qed (use InstructionInclude Some rest in simp)
    qed
  qed
qed simp

lemma preprocess_enough:
  assumes "\<And>p q. q \<in> file_includes fs p \<Longrightarrow> rank q < (rank p :: nat)"
  shows "rank p < n \<Longrightarrow> preprocess n fs getenv indent p f0 \<noteq> None
     \<and> preprocess n fs getenv indent p f0 = preprocess (Suc (rank p)) fs getenv indent p f0"
proof (induction n arbitrary: p indent f0 rule: less_induct)
  case (less n)
  then obtain k where n: "n = Suc k" by (cases n) auto
  show ?case
  proof (cases "fs p")
    case None
    then show ?thesis by (simp add: n)
  next
    case (Some content)
    have inc: "preprocess m fs getenv ind q f \<noteq> None
        \<and> preprocess m fs getenv ind q f = preprocess (Suc (rank q)) fs getenv ind q f"
      if "q \<in> set (included (path_Dir p) InstructionNone (scan_lines content))" "rank p \<le> m" "m < n" for q ind f m
    proof (rule less.IH [OF that(3)])
      have "q \<in> file_includes fs p" using that(1) Some by (simp add: file_includes_def)
      then show "rank q < m" using assms [of q p] that(2) by simp
    qed
    have k: "rank p \<le> k" using less.prems n by simp
    have "pp_lines (preprocess k fs getenv) getenv (path_Dir p) indent InstructionNone (scan_lines content) f0 \<noteq> None"
      by (rule pp_lines_Some) (use inc [OF _ k] n in blast)
    moreover have "pp_lines (preprocess k fs getenv) getenv (path_Dir p) indent InstructionNone (scan_lines content) f0
        = pp_lines (preprocess (rank p) fs getenv) getenv (path_Dir p) indent InstructionNone (scan_lines content) f0"
    proof (rule pp_lines_cong)
      fix ind q f assume q: "q \<in> set (included (path_Dir p) InstructionNone (scan_lines content))"
      show "preprocess k fs getenv ind q f = preprocess (rank p) fs getenv ind q f"
        using inc [OF q k] inc [OF q order_refl] n k less.prems by simp
    qed
    ultimately show ?thesis by (simp add: n Some)
  qed
qed

section \<open>Properties\<close>

text \<open>
  C28. Preprocessing ends when the includes have no cycle: if each file has a number larger than the
  files it includes have, the number of a file is enough fuel, whatever the indentation and what has
  been read before, and more fuel gives the same result.
\<close>

theorem preprocess_terminates:
  assumes "\<forall>p. \<forall>q\<in>file_includes fs p. rank q < (rank p :: nat)"
  shows "\<exists>r. \<forall>n. rank filePath < n \<longrightarrow> preprocess n fs getenv indent filePath f0 = Some r"
proof -
  have a: "\<And>p q. q \<in> file_includes fs p \<Longrightarrow> rank q < rank p" using assms by blast
  have "preprocess (Suc (rank filePath)) fs getenv indent filePath f0 \<noteq> None"
    by (rule conjunct1 [OF preprocess_enough [of fs rank filePath "Suc (rank filePath)", OF a lessI]])
  then obtain r where r: "preprocess (Suc (rank filePath)) fs getenv indent filePath f0 = Some r" by blast
  have "preprocess n fs getenv indent filePath f0 = Some r" if "rank filePath < n" for n
    using conjunct2 [OF preprocess_enough [of fs rank filePath n, OF a that]] r by simp
  then show ?thesis by blast
qed

text \<open>A file that includes another, for the witness.\<close>

definition include_line :: string where
  "include_line = ''  $include: b.yaml''"

definition other_line :: string where
  "other_line = ''x: 1''"

definition two_files :: "string \<rightharpoonup> string" where
  "two_files p = (if p = ''c/a.yaml'' then Some (lines_text [include_line])
     else if p = ''c/b.yaml'' then Some (lines_text [other_line]) else None)"

lemma two_files_includes:
  "file_includes two_files p = (if p = ''c/a.yaml'' then {''c/b.yaml''} else {})"
proof -
  have a: "included (path_Dir ''c/a.yaml'') InstructionNone [include_line] = [''c/b.yaml'']"
    and b: "included (path_Dir ''c/b.yaml'') InstructionNone [other_line] = []"
    by code_simp+
  have "line_ok include_line" "line_ok other_line"
    by (simp_all add: line_ok_def include_line_def other_line_def max_token_def)
  then have "scan_lines (lines_text [include_line]) = [include_line]" "scan_lines (lines_text [other_line]) = [other_line]"
    using scan_lines_text [of "[include_line]" "[]"] scan_lines_text [of "[other_line]" "[]"] by simp_all
  then show ?thesis
    using a b by (simp add: file_includes_def two_files_def)
qed

theorem preprocess_terminates_witness:
  "\<exists>r. preprocess 2 two_files (\<lambda>_. []) [] ''c/a.yaml'' no_file = Some r"
proof -
  have "\<forall>p. \<forall>q\<in>file_includes two_files p. (if q = ''c/a.yaml'' then 1 else 0) < (if p = ''c/a.yaml'' then 1 else 0 :: nat)"
    by (simp add: two_files_includes)
  from preprocess_terminates [OF this, of "''c/a.yaml''" "\<lambda>_. []" "[]" no_file] show ?thesis by auto
qed

text \<open>
  A file without instructions becomes its lines, each behind the indentation and with its
  variables replaced; if a line is too long for the scanner (64 KiB), that line and all after it are
  missing, and no error is reported.
\<close>

lemma plain_file_expanded:
  assumes "fs filePath = Some (lines_text ls @ rest)" and "list_all line_ok ls" and "list_all plain_line ls"
    and "rest = [] \<or> (\<exists>l r. CHR 0x0A \<notin> set l \<and> max_token \<le> length l \<and> (rest = l \<or> rest = l @ CHR 0x0A # r))"
  shows "preprocess (Suc n) fs getenv indent filePath f0 =
    Some (Return (f0\<lparr>cfOut := cfOut f0 @ concat (map (\<lambda>l. indent @ expand_env getenv l @ [CHR 0x0A]) ls)\<rparr>))"
  using assms(1) by (simp add: scan_lines_text [OF assms(2,4)] pp_lines_plain [OF assms(3)])

definition variable_text :: string where
  "variable_text = ''a: ${X}''"

lemma plain_file_expanded_witness:
  "preprocess 1 (\<lambda>p. Some (lines_text [variable_text])) (\<lambda>name. if name = ''X'' then ''7'' else []) ''  '' ''f'' no_file
     = Some (Return \<lparr>cfOut = ''  a: 7'' @ [CHR 0x0A], cfTemplates = []\<rparr>)"
proof -
  have "list_all line_ok [variable_text]"
    by (simp add: line_ok_def variable_text_def max_token_def)
  moreover have "list_all plain_line [variable_text]" by code_simp
  moreover have "expand_env (\<lambda>name. if name = ''X'' then ''7'' else []) variable_text = ''a: 7''" by code_simp
  ultimately show ?thesis
    using plain_file_expanded [of "\<lambda>p. Some (lines_text [variable_text])" "''f''" "[variable_text]" "[]" 0]
    by (simp add: no_file_def)
qed

text \<open>The environment file: what a variable is after the file has been read.\<close>

lemma set_unset_fold:
  assumes "distinct (map fst kvs)" and "k \<noteq> []"
  shows "fold set_unset kvs env k = (case env k of Some v \<Rightarrow> Some v | None \<Rightarrow> map_of kvs k)"
  using assms(1)
proof (induction kvs arbitrary: env)
  case Nil
  then show ?case by (simp split: option.split)
next
  case (Cons kv kvs)
  obtain k' v where kv: "kv = (k', v)" by (cases kv)
  have none: "k' = k \<Longrightarrow> map_of kvs k = None"
    using Cons.prems kv by (auto simp: map_of_eq_None_iff)
  show ?case
    using Cons assms(2) none kv by (auto simp: set_unset_def split: option.split)
qed

lemma map_of_perm:
  assumes "mset xs = mset ys" and "distinct (map fst xs)"
  shows "map_of ys = map_of xs" and "distinct (map fst ys)"
proof -
  have "mset (map fst xs) = mset (map fst ys)" using assms(1) by (metis mset_map)
  then show d: "distinct (map fst ys)" using assms(2) by (metis mset_eq_imp_distinct_iff)
  have "set xs = set ys" using assms(1) by (rule mset_eq_setD)
  then show "map_of ys = map_of xs"
    using assms(2) d by (intro map_of_inject_set [THEN iffD2, symmetric]) auto
qed

lemma cut_map_of:
  "map_of (map (\<lambda>(k, v). (drop (length pre) k, v)) (filter (\<lambda>(k, v). prefix pre k) dict)) k = map_of dict (pre @ k)"
proof (induction dict)
  case (Cons kv dict)
  obtain x v where kv: "kv = (x, v)" by (cases kv)
  show ?case
  proof (cases "prefix pre x")
    case True
    then obtain y where "x = pre @ y" by (auto simp: prefix_def)
    then show ?thesis using Cons kv by simp
  next
    case False
    then have "pre @ k \<noteq> x" by (auto simp: prefix_def)
    then show ?thesis using Cons kv False by simp
  qed
qed simp

lemma cut_distinct:
  assumes "distinct (map fst dict)"
  shows "distinct (map fst (map (\<lambda>(k, v). (drop (length pre) k, v)) (filter (\<lambda>(k, v). prefix pre k) dict)))"
proof -
  have "map fst (map (\<lambda>(k, v). (drop (length pre) k, v)) (filter (\<lambda>(k, v). prefix pre k) dict))
      = map (drop (length pre)) (filter (prefix pre) (map fst dict))"
    by (induction dict) auto
  moreover have "inj_on (drop (length pre)) {x. prefix pre x}" by (auto simp: inj_on_def prefix_def)
  then have "distinct (map (drop (length pre)) (filter (prefix pre) (map fst dict)))"
    using assms by (auto simp: distinct_map intro: inj_on_subset)
  ultimately show ?thesis by simp
qed

text \<open>
  Whatever the order in which the maps are visited, a variable has after \<open>readDotEnv\<close> the value
  it had in the environment; if it had none, the value the file gives to it for this application
  (the name of the application, a point and the variable); and else the value the file gives to it.
\<close>

lemma dotenv_priority:
  assumes "\<forall>kvs. mset (order kvs) = mset kvs" and "distinct (map fst dict)" and "k \<noteq> []"
  shows "\<exists>env'. readDotEnv appName order (Some dict) env = Return env' \<and>
    env' k = (case env k of
                Some v \<Rightarrow> Some v
              | None \<Rightarrow> (case map_of dict (appName @ ''.'' @ k) of
                           Some v \<Rightarrow> Some v
                         | None \<Rightarrow> if prefix (appName @ ''.'') k then None else map_of dict k))"
proof -
  let ?pre = "appName @ ''.''"
  let ?A = "map (\<lambda>(k, v). (drop (length ?pre) k, v)) (filter (\<lambda>(k, v). prefix ?pre k) dict)"
  let ?F = "filter (\<lambda>(k, v). \<not> prefix ?pre k) dict"
  have dF: "distinct (map fst ?F)" using assms(2) by (simp add: distinct_map_filter)
  have mA: "map_of ?A k = map_of dict (?pre @ k)" by (rule cut_map_of)
  have dA: "distinct (map fst ?A)" by (rule cut_distinct [OF assms(2)])
  have mF: "map_of ?F k = (if prefix ?pre k then None else map_of dict k)"
    by (induction dict) auto
  have pA: "map_of (order ?A) = map_of ?A" "distinct (map fst (order ?A))"
    using map_of_perm [of ?A "order ?A"] assms(1) dA by auto
  have pF: "map_of (order ?F) = map_of ?F" "distinct (map fst (order ?F))"
    using map_of_perm [of ?F "order ?F"] assms(1) dF by auto
  show ?thesis
    using set_unset_fold [OF pF(2) assms(3)] set_unset_fold [OF pA(2) assms(3)] pA(1) pF(1) mA mF
    by (simp add: readDotEnv_def Let_def split: option.split)
qed

lemma dotenv_priority_witness:
  "\<exists>env'. readDotEnv ''a'' rev (Some [(''X'', ''2''), (''a.X'', ''1''), (''Y'', ''3'')]) [''Y'' \<mapsto> ''0''] = Return env'
     \<and> env' ''X'' = Some ''1''"
proof -
  have "\<forall>kvs. mset (rev kvs) = mset (kvs :: (string \<times> string) list)" by simp
  moreover have "distinct (map fst [(''X'', ''2''), (''a.X'', ''1''), (''Y'', ''3'')])" by simp
  ultimately show ?thesis
    using dotenv_priority [of rev "[(''X'', ''2''), (''a.X'', ''1''), (''Y'', ''3'')]" "''X''" "''a''" "[''Y'' \<mapsto> ''0'']"]
    by simp
qed

text \<open>
  The line that ends a list of includes is written as it is: its variables are not replaced, and an
  instruction in it is not obeyed. And of several templates only the last one's data are used.
\<close>

lemma list_end_line_is_raw:
  "pp_lines (\<lambda>_ _ f. Some (Return f)) (\<lambda>_. ''7'') ''c'' [] InstructionNone [include_line, variable_text] no_file
     = Some (Return (write_line [] variable_text no_file))"
  "pp_lines (\<lambda>_ _ f. Some (Return f)) (\<lambda>_. ''7'') ''c'' [] InstructionNone [include_line, ''$template: t.yaml''] no_file
     = Some (Return (write_line [] ''$template: t.yaml'' no_file))"
  by code_simp+

lemma last_template_wins:
  "list_all (\<lambda>t. \<exists>d. readData t = Some (Return d)) ts \<Longrightarrow> readData t = Some (Return d) \<Longrightarrow>
     template_data readData (ts @ [t]) envData = Some (Return d)"
  by (induction ts arbitrary: envData) auto

end
