(* ===== verification/App_Runtime.thy ===== *)
theory App_Runtime
  imports Registry_Peer Config_File
begin

text \<open>
  The program of a node, \<open>app/application.go\<close>: \<open>init\<close>, \<open>onCreate\<close>, \<open>onStart\<close> with the deferred
  function that stops what was started, \<open>stop\<close>, and the goroutine that waits for a signal or for
  \<open>Stop\<close>. The calls into components and into the application are recorded in their order; what they
  answer is a parameter.

  The lemmas: a start makes the calls of a plan that the configuration alone determines, up to the
  first that fails, and then stops exactly the components it has made; a node that cannot register
  panics; and \<open>stop\<close> runs at most once.
\<close>

section \<open>Configuration and application\<close>

record app_config =
  acPprofPort :: int
  acEtcd :: bool
  acEtcdClient :: bool
  acGrpc :: bool
  acResolver :: bool
  acAdmin :: bool
  acPlat :: bool
  acHttp :: bool
  acGateway :: bool
  acDbs :: "string list"
  acCoreLog :: bool
  acBehaviorLog :: bool
  acLog :: bool
  acEnv :: string
  acZone :: string

text \<open>Which interfaces a framework and the application implement. \<open>acDbs\<close> is in the order of the map.\<close>

record framework =
  fwGateway :: bool
  fwPeerWatch :: bool
  fwPlayerWatch :: bool
  fwServiceWatch :: bool

record application =
  apType :: string
  apId :: "32 word"
  apFrameworks :: "framework list option"
  apResourceSource :: bool
  apResourceLoader :: bool
  apHttpHandler :: bool
  apSelf :: framework
  apRunDir :: string

datatype handler = FrameworkHandler nat | AppHandler

datatype app_call =
    Chdir | StatProject | StatConfigDir | StatRunDir | MkRunDir | FrameworkInit | LoadConfig
  | FrameworkConfigLoad nat | AppConfigLoad | CoreLogConfig | BehaviorLogConfig | LogConfig
  | GoPprof | NewCron | NewRegistry | NewRegistryClient | NewDb string | LoadResource | ResourcePostLoad | NewGrpc
  | NewSdk | HttpHandler | NewHttp | NewGate | FrameworkCreate nat | AppCreate
  | CronStart | RegistryClientStart | RegistryStart | GrpcListen | StartResolver | GoHttp | StartService string
  | FrameworkStart nat | AppStart | GoGrpc | GoWatch "handler list" "handler list" "handler list"
  | GoGate "handler option" | GoContainer | GoSignals
  | AppStop | FrameworkStop nat | ContainerStop | RegistryStop | GrpcStop | HttpStop | GateShutdown
  | CancelContext | GroupWait

text \<open>A call succeeds, returns an error, or panics with a value that is an error or is not.\<close>

datatype call_reply = CallOk | CallFailed | CallPanicked bool

datatype app_error = CallError app_call | ErrHttpHandler | ErrGateHandler | ErrRecovered

datatype app_result = AppOk | AppErr app_error | AppPanic bool

record runtime =
  rtAppFullName :: string
  rtRunConfigFile :: string
  rtFrameworks :: "framework list"
  rtRegistry :: bool
  rtRegistryClient :: bool
  rtDbs :: "string list"
  rtGrpc :: bool
  rtSdk :: bool
  rtHttp :: bool
  rtGate :: bool
  rtStarted :: bool

definition newRuntime :: runtime where
  "newRuntime = \<lparr>rtAppFullName = [], rtRunConfigFile = [], rtFrameworks = [], rtRegistry = False,
     rtRegistryClient = False, rtDbs = [], rtGrpc = False, rtSdk = False, rtHttp = False, rtGate = False,
     rtStarted = False\<rparr>"

section \<open>Calls in sequence\<close>

text \<open>An action changes the runtime and makes calls, in order, until it ends.\<close>

type_synonym action = "runtime \<Rightarrow> runtime \<times> app_call list \<times> app_result"

fun result_of :: "app_call \<Rightarrow> call_reply \<Rightarrow> app_result" where
  "result_of c CallOk = AppOk"
| "result_of c CallFailed = AppErr (CallError c)"
| "result_of c (CallPanicked isError) = AppPanic isError"

text \<open>\<open>make\<close> a call and, when it succeeds, store what it made.\<close>

definition make :: "(app_call \<Rightarrow> call_reply) \<Rightarrow> app_call \<Rightarrow> (runtime \<Rightarrow> runtime) \<Rightarrow> action" where
  "make reply c store rt =
     (if reply c = CallOk then store rt else rt, [c], result_of c (reply c))"

definition perform :: "(app_call \<Rightarrow> call_reply) \<Rightarrow> app_call \<Rightarrow> action" where
  "perform reply c = make reply c (\<lambda>rt. rt)"

definition skip :: action where "skip rt = (rt, [], AppOk)"

definition refuse :: "app_error \<Rightarrow> action" where "refuse e rt = (rt, [], AppErr e)"

fun steps :: "action list \<Rightarrow> action" where
  "steps [] rt = (rt, [], AppOk)"
| "steps (f # fs) rt =
     (case f rt of
        (rt', cs, AppOk) \<Rightarrow> (case steps fs rt' of (rt'', ds, r) \<Rightarrow> (rt'', cs @ ds, r))
      | x \<Rightarrow> x)"

definition when_set :: "(runtime \<Rightarrow> bool) \<Rightarrow> action \<Rightarrow> action" where
  "when_set b f rt = (if b rt then f rt else skip rt)"

definition each_framework :: "(nat \<Rightarrow> action) \<Rightarrow> action" where
  "each_framework f rt = steps (map f [0..<length (rtFrameworks rt)]) rt"

section \<open>init and onCreate\<close>

text \<open>
  \<open>init\<close>: the file of the running configuration is named before the full name is known. A directory
  that is missing is made.
\<close>

definition store_run_file :: "application \<Rightarrow> runtime \<Rightarrow> runtime" where
  "store_run_file app rt = rt\<lparr>rtRunConfigFile := path_Join (apRunDir app) (rtAppFullName rt)\<rparr>"

definition run_dir :: "(app_call \<Rightarrow> call_reply) \<Rightarrow> application \<Rightarrow> action" where
  "run_dir reply app rt =
     (case perform reply StatRunDir rt of
        (rt', cs, AppErr e) \<Rightarrow>
          (case make reply MkRunDir (store_run_file app) rt' of (rt'', ds, r) \<Rightarrow> (rt'', cs @ ds, r))
      | (rt', cs, AppOk) \<Rightarrow> (store_run_file app rt', cs, AppOk)
      | x \<Rightarrow> x)"

definition app_init :: "(app_call \<Rightarrow> call_reply) \<Rightarrow> app_config \<Rightarrow> application \<Rightarrow> action" where
  "app_init reply cfg app = steps
     [perform reply Chdir, perform reply StatProject, perform reply StatConfigDir, run_dir reply app,
      (case apFrameworks app of
         None \<Rightarrow> skip
       | Some fws \<Rightarrow> make reply FrameworkInit (\<lambda>rt. rt\<lparr>rtFrameworks := fws\<rparr>)),
      make reply LoadConfig
        (\<lambda>rt. rt\<lparr>rtAppFullName := FormatAppFullName (apType app) (apId app) (acZone cfg) (acEnv cfg)\<rparr>),
      each_framework (\<lambda>i. perform reply (FrameworkConfigLoad i)), perform reply AppConfigLoad,
      (if acCoreLog cfg then perform reply CoreLogConfig else skip),
      (if acBehaviorLog cfg then perform reply BehaviorLogConfig else skip),
      (if acLog cfg then perform reply LogConfig else skip)]"

text \<open>The handler of the gateway: the application, else the first framework that is one.\<close>

definition gateway_handler :: "application \<Rightarrow> runtime \<Rightarrow> handler option" where
  "gateway_handler app rt =
     (if fwGateway (apSelf app) then Some AppHandler
      else map_option FrameworkHandler
             (List.find (\<lambda>i. fwGateway (rtFrameworks rt ! i)) [0..<length (rtFrameworks rt)]))"

definition app_onCreate :: "(app_call \<Rightarrow> call_reply) \<Rightarrow> app_config \<Rightarrow> application \<Rightarrow> action" where
  "app_onCreate reply cfg app = steps
     [(if acPprofPort cfg \<noteq> 0 then perform reply GoPprof else skip), perform reply NewCron,
      (if acEtcd cfg then make reply NewRegistry (\<lambda>rt. rt\<lparr>rtRegistry := True\<rparr>) else skip),
      (if acEtcdClient cfg then make reply NewRegistryClient (\<lambda>rt. rt\<lparr>rtRegistryClient := True\<rparr>) else skip),
      steps (map (\<lambda>n. make reply (NewDb n) (\<lambda>rt. rt\<lparr>rtDbs := rtDbs rt @ [n]\<rparr>)) (acDbs cfg)),
      (if apResourceSource app \<and> apResourceLoader app
       then steps [perform reply LoadResource, perform reply ResourcePostLoad] else skip),
      (if acGrpc cfg then make reply NewGrpc (\<lambda>rt. rt\<lparr>rtGrpc := True\<rparr>) else skip),
      (if acPlat cfg then make reply NewSdk (\<lambda>rt. rt\<lparr>rtSdk := True\<rparr>) else skip),
      (if acHttp cfg
       then (if apHttpHandler app
             then steps [perform reply HttpHandler, make reply NewHttp (\<lambda>rt. rt\<lparr>rtHttp := True\<rparr>)]
             else refuse ErrHttpHandler)
       else skip),
      (if acGateway cfg
       then (\<lambda>rt. if gateway_handler app rt = None then refuse ErrGateHandler rt
                  else make reply NewGate (\<lambda>rt. rt\<lparr>rtGate := True\<rparr>) rt)
       else skip),
      each_framework (\<lambda>i. perform reply (FrameworkCreate i)), perform reply AppCreate]"

section \<open>stop and onStart\<close>

text \<open>A call whose error is dropped; a panic goes on.\<close>

definition drop_error :: "(app_call \<Rightarrow> call_reply) \<Rightarrow> app_call \<Rightarrow> action" where
  "drop_error reply c rt =
     (case perform reply c rt of (rt', cs, AppErr e) \<Rightarrow> (rt', cs, AppOk) | x \<Rightarrow> x)"

definition app_stop :: "(app_call \<Rightarrow> call_reply) \<Rightarrow> action" where
  "app_stop reply = steps
     [drop_error reply AppStop, each_framework (\<lambda>i. drop_error reply (FrameworkStop i)),
      drop_error reply ContainerStop,
      when_set rtRegistry (drop_error reply RegistryStop), when_set rtGrpc (drop_error reply GrpcStop),
      when_set rtHttp (drop_error reply HttpStop), when_set rtGate (drop_error reply GateShutdown),
      drop_error reply CancelContext]"

definition watch_handlers :: "(framework \<Rightarrow> bool) \<Rightarrow> application \<Rightarrow> runtime \<Rightarrow> handler list" where
  "watch_handlers kind app rt =
     map FrameworkHandler (filter (\<lambda>i. kind (rtFrameworks rt ! i)) [0..<length (rtFrameworks rt)])
     @ (if kind (apSelf app) then [AppHandler] else [])"

definition onStart_body :: "(app_call \<Rightarrow> call_reply) \<Rightarrow> app_config \<Rightarrow> application \<Rightarrow> action" where
  "onStart_body reply cfg app = steps
     [perform reply CronStart,
      when_set rtRegistryClient (perform reply RegistryClientStart),
      when_set rtRegistry (perform reply RegistryStart),
      when_set rtGrpc (steps
        [perform reply GrpcListen,
         when_set (\<lambda>rt. rtRegistry rt \<and> acResolver cfg) (perform reply StartResolver)]),
      when_set rtHttp (perform reply GoHttp),
      when_set rtGrpc (steps
        [perform reply (StartService ''admin''), perform reply (StartService ''peer''),
         (if acAdmin cfg then perform reply (StartService ''channelz'') else skip)]),
      each_framework (\<lambda>i. perform reply (FrameworkStart i)), perform reply AppStart,
      when_set rtGrpc (perform reply GoGrpc),
      when_set rtRegistry
        (\<lambda>rt. perform reply (GoWatch (watch_handlers fwPeerWatch app rt) (watch_handlers fwPlayerWatch app rt)
                               (watch_handlers fwServiceWatch app rt)) rt),
      when_set rtGate (\<lambda>rt. perform reply (GoGate (gateway_handler app rt)) rt),
      perform reply GoContainer]"

text \<open>
  The deferred function of \<open>onStart\<close>: a panic becomes an error when its value is one, and panics
  again when it is not; an error stops the node and waits for its goroutines.
\<close>

definition app_onStart :: "(app_call \<Rightarrow> call_reply) \<Rightarrow> app_config \<Rightarrow> application \<Rightarrow> action" where
  "app_onStart reply cfg app rt =
     (case onStart_body reply cfg app rt of
        (rt', cs, AppOk) \<Rightarrow> (rt', cs, AppOk)
      | (rt', cs, AppPanic False) \<Rightarrow> (rt', cs, AppPanic False)
      | (rt', cs, r) \<Rightarrow>
          (case app_stop reply rt' of
             (rt'', ds, AppPanic isError) \<Rightarrow> (rt'', cs @ ds, AppPanic isError)
           | (rt'', ds, _) \<Rightarrow>
               (rt'', cs @ ds @ [GroupWait], AppErr (case r of AppErr e \<Rightarrow> e | _ \<Rightarrow> ErrRecovered))))"

definition app_start :: "(app_call \<Rightarrow> call_reply) \<Rightarrow> app_config \<Rightarrow> application \<Rightarrow> action" where
  "app_start reply cfg app = steps
     [app_init reply cfg app, app_onCreate reply cfg app, app_onStart reply cfg app,
      make reply GoSignals (\<lambda>rt. rt\<lparr>rtStarted := True\<rparr>)]"

section \<open>The plan of a start\<close>

text \<open>
  What a start does, from the configuration alone: calls in order, a call made only when another
  fails, and places where it gives up.
\<close>

datatype item = Do app_call | DoElse app_call app_call | Refuse app_error

fun run_items :: "(app_call \<Rightarrow> call_reply) \<Rightarrow> item list \<Rightarrow> app_call list \<times> app_result" where
  "run_items reply [] = ([], AppOk)"
| "run_items reply (Do c # is) =
     (if reply c = CallOk then (case run_items reply is of (cs, r) \<Rightarrow> (c # cs, r)) else ([c], result_of c (reply c)))"
| "run_items reply (DoElse c d # is) =
     (case reply c of
        CallOk \<Rightarrow> (case run_items reply is of (cs, r) \<Rightarrow> (c # cs, r))
      | CallFailed \<Rightarrow>
          if reply d = CallOk then (case run_items reply is of (cs, r) \<Rightarrow> (c # d # cs, r))
          else ([c, d], result_of d (reply d))
      | CallPanicked b \<Rightarrow> ([c], AppPanic b))"
| "run_items reply (Refuse e # is) = ([], AppErr e)"

definition frameworks_of :: "application \<Rightarrow> framework list" where
  "frameworks_of app = (case apFrameworks app of None \<Rightarrow> [] | Some fws \<Rightarrow> fws)"

definition only_if :: "bool \<Rightarrow> 'a list \<Rightarrow> 'a list" where "only_if b xs = (if b then xs else [])"

definition for_frameworks :: "application \<Rightarrow> (nat \<Rightarrow> 'a) \<Rightarrow> 'a list" where
  "for_frameworks app f = map f [0..<length (frameworks_of app)]"

definition init_plan :: "app_config \<Rightarrow> application \<Rightarrow> item list" where
  "init_plan cfg app =
     [Do Chdir, Do StatProject, Do StatConfigDir, DoElse StatRunDir MkRunDir]
     @ only_if (apFrameworks app \<noteq> None) [Do FrameworkInit] @ [Do LoadConfig]
     @ for_frameworks app (\<lambda>i. Do (FrameworkConfigLoad i)) @ [Do AppConfigLoad]
     @ only_if (acCoreLog cfg) [Do CoreLogConfig] @ only_if (acBehaviorLog cfg) [Do BehaviorLogConfig]
     @ only_if (acLog cfg) [Do LogConfig]"

definition the_gateway_handler :: "application \<Rightarrow> handler option" where
  "the_gateway_handler app =
     (if fwGateway (apSelf app) then Some AppHandler
      else map_option FrameworkHandler
             (List.find (\<lambda>i. fwGateway (frameworks_of app ! i)) [0..<length (frameworks_of app)]))"

definition the_watch_handlers :: "(framework \<Rightarrow> bool) \<Rightarrow> application \<Rightarrow> handler list" where
  "the_watch_handlers kind app =
     map FrameworkHandler (filter (\<lambda>i. kind (frameworks_of app ! i)) [0..<length (frameworks_of app)])
     @ (if kind (apSelf app) then [AppHandler] else [])"

definition create_plan :: "app_config \<Rightarrow> application \<Rightarrow> item list" where
  "create_plan cfg app =
     only_if (acPprofPort cfg \<noteq> 0) [Do GoPprof] @ [Do NewCron]
     @ only_if (acEtcd cfg) [Do NewRegistry] @ only_if (acEtcdClient cfg) [Do NewRegistryClient]
     @ map (\<lambda>n. Do (NewDb n)) (acDbs cfg)
     @ only_if (apResourceSource app \<and> apResourceLoader app) [Do LoadResource, Do ResourcePostLoad]
     @ only_if (acGrpc cfg) [Do NewGrpc] @ only_if (acPlat cfg) [Do NewSdk]
     @ only_if (acHttp cfg) (if apHttpHandler app then [Do HttpHandler, Do NewHttp] else [Refuse ErrHttpHandler])
     @ only_if (acGateway cfg) [if the_gateway_handler app = None then Refuse ErrGateHandler else Do NewGate]
     @ for_frameworks app (\<lambda>i. Do (FrameworkCreate i)) @ [Do AppCreate]"

definition start_plan :: "app_config \<Rightarrow> application \<Rightarrow> item list" where
  "start_plan cfg app =
     [Do CronStart] @ only_if (acEtcdClient cfg) [Do RegistryClientStart]
     @ only_if (acEtcd cfg) [Do RegistryStart]
     @ only_if (acGrpc cfg) ([Do GrpcListen] @ only_if (acEtcd cfg \<and> acResolver cfg) [Do StartResolver])
     @ only_if (acHttp cfg) [Do GoHttp]
     @ only_if (acGrpc cfg)
         ([Do (StartService ''admin''), Do (StartService ''peer'')] @ only_if (acAdmin cfg) [Do (StartService ''channelz'')])
     @ for_frameworks app (\<lambda>i. Do (FrameworkStart i)) @ [Do AppStart]
     @ only_if (acGrpc cfg) [Do GoGrpc]
     @ only_if (acEtcd cfg)
         [Do (GoWatch (the_watch_handlers fwPeerWatch app) (the_watch_handlers fwPlayerWatch app)
                (the_watch_handlers fwServiceWatch app))]
     @ only_if (acGateway cfg) [Do (GoGate (the_gateway_handler app))] @ [Do GoContainer]"

definition stop_plan :: "app_config \<Rightarrow> application \<Rightarrow> app_call list" where
  "stop_plan cfg app =
     [AppStop] @ for_frameworks app FrameworkStop @ [ContainerStop]
     @ only_if (acEtcd cfg) [RegistryStop] @ only_if (acGrpc cfg) [GrpcStop] @ only_if (acHttp cfg) [HttpStop]
     @ only_if (acGateway cfg) [GateShutdown] @ [CancelContext]"

text \<open>Calls whose errors are dropped, up to the first that panics.\<close>

fun run_drops :: "(app_call \<Rightarrow> call_reply) \<Rightarrow> app_call list \<Rightarrow> app_call list \<times> app_result" where
  "run_drops reply [] = ([], AppOk)"
| "run_drops reply (c # cs) =
     (case reply c of
        CallPanicked b \<Rightarrow> ([c], AppPanic b)
      | _ \<Rightarrow> (case run_drops reply cs of (ds, r) \<Rightarrow> (c # ds, r)))"

section \<open>Actions follow plans\<close>

definition follows ::
  "(app_call \<Rightarrow> call_reply) \<Rightarrow> runtime \<Rightarrow> action \<Rightarrow> item list \<Rightarrow> runtime \<Rightarrow> bool" where
  "follows reply rt f is rt1 \<longleftrightarrow>
     (\<exists>rt'. f rt = (rt', fst (run_items reply is), snd (run_items reply is)) \<and>
        (snd (run_items reply is) = AppOk \<longrightarrow> rt' = rt1))"

named_theorems plan_intros \<open>actions that follow a plan\<close>

lemma run_items_append:
  "run_items reply (is @ js) =
     (case run_items reply is of
        (cs, AppOk) \<Rightarrow> (case run_items reply js of (ds, r) \<Rightarrow> (cs @ ds, r))
      | x \<Rightarrow> x)"
proof (induction reply "is" rule: run_items.induct)
  case (2 reply c "is")
  then show ?case
    by (cases "reply c"; cases "run_items reply is"; cases "snd (run_items reply is)"; cases "run_items reply js") simp_all
next
  case (3 reply c d "is")
  then show ?case
    by (cases "reply c"; cases "reply d"; cases "run_items reply is"; cases "snd (run_items reply is)";
        cases "run_items reply js") simp_all
qed (simp_all split: prod.split)

lemma follows_make [plan_intros]: "follows reply rt (make reply c store) [Do c] (store rt)"
  by (cases "reply c") (simp_all add: follows_def make_def)

lemma follows_perform [plan_intros]: "follows reply rt (perform reply c) [Do c] rt"
  using follows_make [of reply rt c "\<lambda>rt. rt"] by (simp add: perform_def)

lemma follows_skip [plan_intros]: "follows reply rt skip [] rt"
  by (simp add: follows_def skip_def)

lemma follows_refuse: "follows reply rt (refuse e) [Refuse e] rt1"
  by (simp add: follows_def refuse_def)

lemma follows_Nil [plan_intros]: "follows reply rt (steps []) [] rt"
  by (simp add: follows_def)

lemma follows_Cons:
  assumes "follows reply rt f is rt1" and "follows reply rt1 (steps fs) js rt2"
  shows "follows reply rt (steps (f # fs)) (is @ js) rt2"
proof (cases "snd (run_items reply is)")
  case AppOk
  then have "f rt = (rt1, fst (run_items reply is), AppOk)" using assms(1) by (auto simp: follows_def)
  then show ?thesis using assms(2) AppOk
    by (auto simp: follows_def run_items_append split: prod.split)
next
  case (AppErr e)
  then show ?thesis using assms(1) by (auto simp: follows_def run_items_append split: prod.split)
next
  case (AppPanic b)
  then show ?thesis using assms(1) by (auto simp: follows_def run_items_append split: prod.split)
qed

lemma follows_if:
  assumes "b \<Longrightarrow> follows reply rt f is rt1" and "\<not> b \<Longrightarrow> follows reply rt g js rt1"
  shows "follows reply rt (if b then f else g) (if b then is else js) rt1"
  using assms by simp

lemma follows_opt:
  assumes "b \<Longrightarrow> follows reply rt f is rt1" and "\<not> b \<Longrightarrow> rt1 = rt"
  shows "follows reply rt (if b then f else skip) (only_if b is) rt1"
  using assms follows_skip by (simp add: only_if_def)

lemma follows_when:
  assumes "b rt = c" and "c \<Longrightarrow> follows reply rt f is rt"
  shows "follows reply rt (when_set b f) (only_if c is) rt"
  using assms follows_skip by (simp add: follows_def when_set_def only_if_def skip_def)

lemma follows_map:
  assumes "\<And>x rt. follows reply rt (f x) [Do (c x)] (store x rt)"
  shows "follows reply rt (steps (map f xs)) (map (\<lambda>x. Do (c x)) xs) (fold store xs rt)"
proof (induction xs arbitrary: rt)
  case (Cons x xs)
  show ?case using follows_Cons [OF assms [of rt x] Cons [of "store x rt"]] by (simp del: steps.simps)
qed (simp add: follows_Nil del: steps.simps)

lemma follows_each:
  assumes "rtFrameworks rt = frameworks_of app"
  shows "follows reply rt (each_framework (\<lambda>i. perform reply (c i))) (for_frameworks app (\<lambda>i. Do (c i))) rt"
proof -
  have id: "fold (\<lambda>i rt. rt) xs rt = rt" for xs :: "nat list" by (induction xs) simp_all
  have "follows reply rt (steps (map (\<lambda>i. perform reply (c i)) [0..<length (rtFrameworks rt)]))
      (map (\<lambda>i. Do (c i)) [0..<length (rtFrameworks rt)]) rt"
    using follows_map [of reply "\<lambda>i. perform reply (c i)" c "\<lambda>i rt. rt" rt, OF follows_perform] by (simp only: id)
  then show ?thesis by (simp add: follows_def each_framework_def for_frameworks_def assms)
qed

section \<open>The plans of init, onCreate and onStart\<close>

lemma follows_run_dir: "follows reply rt (run_dir reply app) [DoElse StatRunDir MkRunDir] (store_run_file app rt)"
  by (cases "reply StatRunDir"; cases "reply MkRunDir")
     (simp_all add: follows_def run_dir_def perform_def make_def)

definition after_init :: "app_config \<Rightarrow> application \<Rightarrow> runtime" where
  "after_init cfg app =
     newRuntime\<lparr>rtRunConfigFile := path_Join (apRunDir app) [], rtFrameworks := frameworks_of app,
       rtAppFullName := FormatAppFullName (apType app) (apId app) (acZone cfg) (acEnv cfg)\<rparr>"

definition after_create :: "app_config \<Rightarrow> application \<Rightarrow> runtime" where
  "after_create cfg app =
     (after_init cfg app)\<lparr>rtRegistry := acEtcd cfg, rtRegistryClient := acEtcdClient cfg, rtDbs := acDbs cfg,
       rtGrpc := acGrpc cfg, rtSdk := acPlat cfg, rtHttp := acHttp cfg, rtGate := acGateway cfg\<rparr>"

lemma follows_last: "follows reply rt f is rt1 \<Longrightarrow> follows reply rt (steps [f]) is rt1"
  using follows_Cons [OF _ follows_Nil] by fastforce

lemma init_follows: "follows reply newRuntime (app_init reply cfg app) (init_plan cfg app) (after_init cfg app)"
proof -
  let ?r1 = "store_run_file app newRuntime"
  let ?r2 = "?r1\<lparr>rtFrameworks := frameworks_of app\<rparr>"
  let ?r3 = "?r2\<lparr>rtAppFullName := FormatAppFullName (apType app) (apId app) (acZone cfg) (acEnv cfg)\<rparr>"
  have f: "follows reply ?r1
      (case apFrameworks app of None \<Rightarrow> skip | Some fws \<Rightarrow> make reply FrameworkInit (\<lambda>rt. rt\<lparr>rtFrameworks := fws\<rparr>))
      (only_if (apFrameworks app \<noteq> None) [Do FrameworkInit]) ?r2"
  proof (cases "apFrameworks app")
    case None
    then have "?r2 = ?r1" by (simp add: frameworks_of_def store_run_file_def newRuntime_def)
    then show ?thesis using follows_skip None by (simp add: only_if_def)
  next
    case (Some fws)
    then show ?thesis using follows_make [of reply ?r1 FrameworkInit "\<lambda>rt. rt\<lparr>rtFrameworks := fws\<rparr>"]
      by (simp add: only_if_def frameworks_of_def)
  qed
  have e: "follows reply ?r3 (each_framework (\<lambda>i. perform reply (FrameworkConfigLoad i)))
      (for_frameworks app (\<lambda>i. Do (FrameworkConfigLoad i))) ?r3"
    by (rule follows_each) simp
  have "?r3 = after_init cfg app" by (simp add: after_init_def store_run_file_def newRuntime_def)
  moreover have "follows reply newRuntime (app_init reply cfg app)
      ([Do Chdir] @ [Do StatProject] @ [Do StatConfigDir] @ [DoElse StatRunDir MkRunDir]
       @ only_if (apFrameworks app \<noteq> None) [Do FrameworkInit] @ [Do LoadConfig]
       @ for_frameworks app (\<lambda>i. Do (FrameworkConfigLoad i)) @ [Do AppConfigLoad]
       @ only_if (acCoreLog cfg) [Do CoreLogConfig] @ only_if (acBehaviorLog cfg) [Do BehaviorLogConfig]
       @ only_if (acLog cfg) [Do LogConfig]) ?r3"
    unfolding app_init_def
    by (rule follows_Cons follows_last follows_perform follows_run_dir f follows_make e follows_opt refl)+
  ultimately show ?thesis by (simp add: init_plan_def)
qed

lemma gateway_handler_eq: "rtFrameworks rt = frameworks_of app \<Longrightarrow> gateway_handler app rt = the_gateway_handler app"
  by (simp add: gateway_handler_def the_gateway_handler_def)

lemma watch_handlers_eq:
  "rtFrameworks rt = frameworks_of app \<Longrightarrow> watch_handlers kind app rt = the_watch_handlers kind app"
  by (simp add: watch_handlers_def the_watch_handlers_def)

lemma follows_store:
  assumes "\<not> b \<Longrightarrow> store rt = rt"
  shows "follows reply rt (if b then make reply c store else skip) (only_if b [Do c]) (store rt)"
  using assms by (intro follows_opt follows_make) simp_all

lemma fold_dbs: "fold (\<lambda>n rt. rt\<lparr>rtDbs := rtDbs rt @ [n]\<rparr>) ns rt = rt\<lparr>rtDbs := rtDbs rt @ ns\<rparr>"
  by (induction ns arbitrary: rt) simp_all

lemma create_follows:
  "follows reply (after_init cfg app) (app_onCreate reply cfg app) (create_plan cfg app) (after_create cfg app)"
proof -
  let ?r0 = "after_init cfg app"
  let ?r1 = "?r0\<lparr>rtRegistry := acEtcd cfg\<rparr>"
  let ?r2 = "?r1\<lparr>rtRegistryClient := acEtcdClient cfg\<rparr>"
  let ?r3 = "?r2\<lparr>rtDbs := acDbs cfg\<rparr>"
  let ?r4 = "?r3\<lparr>rtGrpc := acGrpc cfg\<rparr>"
  let ?r5 = "?r4\<lparr>rtSdk := acPlat cfg\<rparr>"
  let ?r6 = "?r5\<lparr>rtHttp := acHttp cfg\<rparr>"
  let ?r7 = "?r6\<lparr>rtGate := acGateway cfg\<rparr>"
  have fresh: "\<not> rtRegistry ?r0" "\<not> rtRegistryClient ?r1" "rtDbs ?r2 = []" "\<not> rtGrpc ?r3" "\<not> rtSdk ?r4"
    "\<not> rtHttp ?r5" "\<not> rtGate ?r6" and fw: "rtFrameworks ?r6 = frameworks_of app" "rtFrameworks ?r7 = frameworks_of app"
    by (simp_all add: after_init_def newRuntime_def)
  have reg: "follows reply ?r0 (if acEtcd cfg then make reply NewRegistry (\<lambda>rt. rt\<lparr>rtRegistry := True\<rparr>) else skip)
      (only_if (acEtcd cfg) [Do NewRegistry]) ?r1"
    using follows_make [of reply ?r0 NewRegistry "\<lambda>rt. rt\<lparr>rtRegistry := True\<rparr>"] fresh(1)
    by (intro follows_opt) simp_all
  have cli: "follows reply ?r1
      (if acEtcdClient cfg then make reply NewRegistryClient (\<lambda>rt. rt\<lparr>rtRegistryClient := True\<rparr>) else skip)
      (only_if (acEtcdClient cfg) [Do NewRegistryClient]) ?r2"
    using follows_make [of reply ?r1 NewRegistryClient "\<lambda>rt. rt\<lparr>rtRegistryClient := True\<rparr>"] fresh(2)
    by (intro follows_opt) simp_all
  have db: "follows reply ?r2 (steps (map (\<lambda>n. make reply (NewDb n) (\<lambda>rt. rt\<lparr>rtDbs := rtDbs rt @ [n]\<rparr>)) (acDbs cfg)))
      (map (\<lambda>n. Do (NewDb n)) (acDbs cfg)) ?r3"
    using follows_map [where f = "\<lambda>n. make reply (NewDb n) (\<lambda>rt. rt\<lparr>rtDbs := rtDbs rt @ [n]\<rparr>)" and c = NewDb
        and store = "\<lambda>n rt. rt\<lparr>rtDbs := rtDbs rt @ [n]\<rparr>" and reply = reply and rt = ?r2 and xs = "acDbs cfg",
        OF follows_make] fresh(3) by (simp only: fold_dbs append_Nil)
  have res: "follows reply ?r3
      (if apResourceSource app \<and> apResourceLoader app
       then steps [perform reply LoadResource, perform reply ResourcePostLoad] else skip)
      (only_if (apResourceSource app \<and> apResourceLoader app) ([Do LoadResource] @ [Do ResourcePostLoad])) ?r3"
    by (rule follows_opt follows_Cons follows_last follows_perform refl)+
  have grpc: "follows reply ?r3 (if acGrpc cfg then make reply NewGrpc (\<lambda>rt. rt\<lparr>rtGrpc := True\<rparr>) else skip)
      (only_if (acGrpc cfg) [Do NewGrpc]) ?r4"
    using follows_make [of reply ?r3 NewGrpc "\<lambda>rt. rt\<lparr>rtGrpc := True\<rparr>"] fresh(4) by (intro follows_opt) simp_all
  have sdk: "follows reply ?r4 (if acPlat cfg then make reply NewSdk (\<lambda>rt. rt\<lparr>rtSdk := True\<rparr>) else skip)
      (only_if (acPlat cfg) [Do NewSdk]) ?r5"
    using follows_make [of reply ?r4 NewSdk "\<lambda>rt. rt\<lparr>rtSdk := True\<rparr>"] fresh(5) by (intro follows_opt) simp_all
  have mk: "acHttp cfg \<Longrightarrow> follows reply ?r5
      (steps [perform reply HttpHandler, make reply NewHttp (\<lambda>rt. rt\<lparr>rtHttp := True\<rparr>)])
      ([Do HttpHandler] @ [Do NewHttp]) ?r6"
    using follows_Cons [OF follows_perform follows_last [OF follows_make
        [of reply ?r5 NewHttp "\<lambda>rt. rt\<lparr>rtHttp := True\<rparr>"]], of HttpHandler] by (simp del: steps.simps)
  have http: "follows reply ?r5
      (if acHttp cfg
       then (if apHttpHandler app
             then steps [perform reply HttpHandler, make reply NewHttp (\<lambda>rt. rt\<lparr>rtHttp := True\<rparr>)]
             else refuse ErrHttpHandler)
       else skip)
      (only_if (acHttp cfg) (if apHttpHandler app then [Do HttpHandler] @ [Do NewHttp] else [Refuse ErrHttpHandler])) ?r6"
    using mk fresh(6) by (intro follows_opt follows_if follows_refuse) simp_all
  have gm: "acGateway cfg \<Longrightarrow> follows reply ?r6 (make reply NewGate (\<lambda>rt. rt\<lparr>rtGate := True\<rparr>)) [Do NewGate] ?r7"
    using follows_make [of reply ?r6 NewGate "\<lambda>rt. rt\<lparr>rtGate := True\<rparr>"] by simp
  have gate: "follows reply ?r6
      (if acGateway cfg
       then (\<lambda>rt. if gateway_handler app rt = None then refuse ErrGateHandler rt
                  else make reply NewGate (\<lambda>rt. rt\<lparr>rtGate := True\<rparr>) rt)
       else skip)
      (only_if (acGateway cfg) [if the_gateway_handler app = None then Refuse ErrGateHandler else Do NewGate]) ?r7"
  proof (rule follows_opt)
    assume g: "acGateway cfg"
    show "follows reply ?r6
      (\<lambda>rt. if gateway_handler app rt = None then refuse ErrGateHandler rt
            else make reply NewGate (\<lambda>rt. rt\<lparr>rtGate := True\<rparr>) rt)
      [if the_gateway_handler app = None then Refuse ErrGateHandler else Do NewGate] ?r7"
      using gm [OF g] follows_refuse [of reply ?r6 ErrGateHandler ?r7] gateway_handler_eq [OF fw(1)]
      by (simp add: follows_def)
  qed (use fresh(7) in simp)
  have fc: "follows reply ?r7 (each_framework (\<lambda>i. perform reply (FrameworkCreate i)))
      (for_frameworks app (\<lambda>i. Do (FrameworkCreate i))) ?r7"
    by (rule follows_each [OF fw(2)])
  have "follows reply ?r0 (app_onCreate reply cfg app)
     (only_if (acPprofPort cfg \<noteq> 0) [Do GoPprof] @ [Do NewCron]
     @ only_if (acEtcd cfg) [Do NewRegistry] @ only_if (acEtcdClient cfg) [Do NewRegistryClient]
     @ map (\<lambda>n. Do (NewDb n)) (acDbs cfg)
     @ only_if (apResourceSource app \<and> apResourceLoader app) ([Do LoadResource] @ [Do ResourcePostLoad])
     @ only_if (acGrpc cfg) [Do NewGrpc] @ only_if (acPlat cfg) [Do NewSdk]
     @ only_if (acHttp cfg) (if apHttpHandler app then [Do HttpHandler] @ [Do NewHttp] else [Refuse ErrHttpHandler])
     @ only_if (acGateway cfg) [if the_gateway_handler app = None then Refuse ErrGateHandler else Do NewGate]
     @ for_frameworks app (\<lambda>i. Do (FrameworkCreate i)) @ [Do AppCreate]) ?r7"
    unfolding app_onCreate_def
    apply (rule follows_Cons [OF follows_opt [OF follows_perform refl]])
    apply (rule follows_Cons [OF follows_perform])
    apply (rule follows_Cons [OF reg])
    apply (rule follows_Cons [OF cli])
    apply (rule follows_Cons [OF db])
    apply (rule follows_Cons [OF res])
    apply (rule follows_Cons [OF grpc])
    apply (rule follows_Cons [OF sdk])
    apply (rule follows_Cons [OF http])
    apply (rule follows_Cons [OF gate])
    apply (rule follows_Cons [OF fc])
    apply (rule follows_last [OF follows_perform])
    done
  then show ?thesis unfolding create_plan_def after_create_def by (simp only: append.simps)
qed

lemma start_follows:
  "follows reply (after_create cfg app) (onStart_body reply cfg app) (start_plan cfg app) (after_create cfg app)"
proof -
  let ?r = "after_create cfg app"
  have f: "rtRegistryClient ?r = acEtcdClient cfg" "rtRegistry ?r = acEtcd cfg" "rtGrpc ?r = acGrpc cfg"
    "rtHttp ?r = acHttp cfg" "rtGate ?r = acGateway cfg" "rtFrameworks ?r = frameworks_of app"
    by (simp_all add: after_create_def after_init_def)
  have res: "(rtRegistry ?r \<and> acResolver cfg) = (acEtcd cfg \<and> acResolver cfg)" using f by simp
  have watch: "follows reply ?r
      (\<lambda>rt. perform reply (GoWatch (watch_handlers fwPeerWatch app rt) (watch_handlers fwPlayerWatch app rt)
                               (watch_handlers fwServiceWatch app rt)) rt)
      [Do (GoWatch (the_watch_handlers fwPeerWatch app) (the_watch_handlers fwPlayerWatch app)
                (the_watch_handlers fwServiceWatch app))] ?r"
    using follows_perform [of reply ?r] watch_handlers_eq [OF f(6)] by (simp add: follows_def)
  have gate: "follows reply ?r (\<lambda>rt. perform reply (GoGate (gateway_handler app rt)) rt)
      [Do (GoGate (the_gateway_handler app))] ?r"
    using follows_perform [of reply ?r] gateway_handler_eq [OF f(6)] by (simp add: follows_def)
  have "follows reply ?r (onStart_body reply cfg app)
     ([Do CronStart] @ only_if (acEtcdClient cfg) [Do RegistryClientStart]
     @ only_if (acEtcd cfg) [Do RegistryStart]
     @ only_if (acGrpc cfg) ([Do GrpcListen] @ only_if (acEtcd cfg \<and> acResolver cfg) [Do StartResolver])
     @ only_if (acHttp cfg) [Do GoHttp]
     @ only_if (acGrpc cfg)
         ([Do (StartService ''admin'')] @ [Do (StartService ''peer'')] @ only_if (acAdmin cfg) [Do (StartService ''channelz'')])
     @ for_frameworks app (\<lambda>i. Do (FrameworkStart i)) @ [Do AppStart]
     @ only_if (acGrpc cfg) [Do GoGrpc]
     @ only_if (acEtcd cfg)
         [Do (GoWatch (the_watch_handlers fwPeerWatch app) (the_watch_handlers fwPlayerWatch app)
                (the_watch_handlers fwServiceWatch app))]
     @ only_if (acGateway cfg) [Do (GoGate (the_gateway_handler app))] @ [Do GoContainer]) ?r"
    unfolding onStart_body_def
    by (rule f res watch gate follows_Cons follows_last follows_perform follows_when follows_opt
          follows_each [OF f(6)] refl)+
  then show ?thesis by (simp add: start_plan_def)
qed

section \<open>Stopping\<close>

definition keeps :: "action \<Rightarrow> bool" where "keeps f \<longleftrightarrow> (\<forall>rt. fst (f rt) = rt)"

lemma keeps_perform: "keeps (perform reply c)"
  by (simp add: keeps_def perform_def make_def)

lemma keeps_steps: "list_all keeps fs \<Longrightarrow> keeps (steps fs)"
proof (induction fs)
  case (Cons f fs)
  then have f: "fst (f rt) = rt" and fs: "fst (steps fs rt) = rt" for rt by (simp_all add: keeps_def)
  have "fst (steps (f # fs) rt) = rt" for rt
    using f [of rt] fs [of rt] by (cases "f rt"; cases "steps fs rt"; cases "snd (snd (f rt))") simp_all
  then show ?case by (simp add: keeps_def del: steps.simps)
qed (simp add: keeps_def)

lemma keeps_when: "keeps f \<Longrightarrow> keeps (when_set b f)"
  by (simp add: keeps_def when_set_def skip_def)

lemma keeps_each: "(\<And>i. keeps (f i)) \<Longrightarrow> keeps (each_framework f)"
  using keeps_steps [of "map f xs" for xs] by (simp add: keeps_def each_framework_def list_all_iff)

lemma keeps_at: "(\<And>r. keeps (f r)) \<Longrightarrow> keeps (\<lambda>rt. f rt rt)"
  by (simp add: keeps_def)

lemma onStart_keeps: "fst (onStart_body reply cfg app rt) = rt"
proof -
  have "keeps (\<lambda>rt. perform reply (c rt) rt)" for c by (rule keeps_at) (rule keeps_perform)
  note here = this keeps_when
  have "keeps (onStart_body reply cfg app)"
    unfolding onStart_body_def
    by (intro keeps_steps)
       (simp add: keeps_perform here keeps_each keeps_steps keeps_def [of skip] skip_def)
  then show ?thesis by (simp add: keeps_def)
qed

definition drops :: "(app_call \<Rightarrow> call_reply) \<Rightarrow> runtime \<Rightarrow> action \<Rightarrow> app_call list \<Rightarrow> bool" where
  "drops reply rt f cs \<longleftrightarrow> f rt = (rt, run_drops reply cs)"

lemma run_drops_append:
  "run_drops reply (cs @ ds) =
     (case run_drops reply cs of
        (xs, AppOk) \<Rightarrow> (case run_drops reply ds of (ys, r) \<Rightarrow> (xs @ ys, r))
      | x \<Rightarrow> x)"
proof (induction cs)
  case (Cons c cs)
  then show ?case
    by (cases "reply c"; cases "run_drops reply cs"; cases "snd (run_drops reply cs)"; cases "run_drops reply ds")
       simp_all
qed (simp split: prod.split)

lemma drops_one: "drops reply rt (drop_error reply c) [c]"
  by (cases "reply c") (simp_all add: drops_def drop_error_def perform_def make_def)

lemma drops_Nil: "drops reply rt (steps []) []"
  by (simp add: drops_def)

lemma drops_Cons:
  assumes "drops reply rt f cs" and "drops reply rt (steps fs) ds"
  shows "drops reply rt (steps (f # fs)) (cs @ ds)"
  using assms
  by (cases "run_drops reply cs"; cases "snd (run_drops reply cs)"; cases "run_drops reply ds")
     (simp_all add: drops_def run_drops_append)

lemma drops_last: "drops reply rt f cs \<Longrightarrow> drops reply rt (steps [f]) cs"
  using drops_Cons [OF _ drops_Nil] by fastforce

lemma drops_when:
  assumes "b rt = c" and "drops reply rt f cs"
  shows "drops reply rt (when_set b f) (only_if c cs)"
  using assms by (simp add: drops_def when_set_def only_if_def skip_def)

lemma drops_map: "drops reply rt (steps (map (\<lambda>i. drop_error reply (c i)) xs)) (map c xs)"
proof (induction xs)
  case (Cons x xs)
  show ?case using drops_Cons [OF drops_one Cons] by (simp del: steps.simps)
qed (simp add: drops_Nil del: steps.simps)

lemma drops_each:
  assumes "rtFrameworks rt = frameworks_of app"
  shows "drops reply rt (each_framework (\<lambda>i. drop_error reply (c i))) (for_frameworks app c)"
  using drops_map [of reply rt c "[0..<length (rtFrameworks rt)]"]
  by (simp add: drops_def each_framework_def for_frameworks_def assms)

lemma stop_drops: "app_stop reply (after_create cfg app) = (after_create cfg app, run_drops reply (stop_plan cfg app))"
proof -
  let ?r = "after_create cfg app"
  have f: "rtRegistry ?r = acEtcd cfg" "rtGrpc ?r = acGrpc cfg" "rtHttp ?r = acHttp cfg" "rtGate ?r = acGateway cfg"
    and fw: "rtFrameworks ?r = frameworks_of app"
    by (simp_all add: after_create_def after_init_def)
  have "drops reply ?r (app_stop reply) (stop_plan cfg app)"
    unfolding app_stop_def stop_plan_def
    by (rule f drops_Cons drops_last drops_one drops_when drops_each [OF fw])+
  then show ?thesis by (simp add: drops_def)
qed

lemma run_drops_no_error: "snd (run_drops reply cs) \<noteq> AppErr e"
  by (induction cs) (auto split: call_reply.split prod.split)

section \<open>Starting\<close>

text \<open>The calls and the result of a start, from the plans.\<close>

definition start_spec :: "(app_call \<Rightarrow> call_reply) \<Rightarrow> app_config \<Rightarrow> application \<Rightarrow> app_call list \<times> app_result" where
  "start_spec reply cfg app =
     (let (cs, r) = run_items reply (init_plan cfg app @ create_plan cfg app) in
      if r \<noteq> AppOk then (cs, r)
      else let (ds, q) = run_items reply (start_plan cfg app); (es, p) = run_drops reply (stop_plan cfg app) in
           (case q of
              AppOk \<Rightarrow> (cs @ ds @ [GoSignals], result_of GoSignals (reply GoSignals))
            | AppErr e \<Rightarrow> if p = AppOk then (cs @ ds @ es @ [GroupWait], AppErr e) else (cs @ ds @ es, p)
            | AppPanic True \<Rightarrow> if p = AppOk then (cs @ ds @ es @ [GroupWait], AppErr ErrRecovered) else (cs @ ds @ es, p)
            | AppPanic False \<Rightarrow> (cs @ ds, AppPanic False)))"

lemma onStart_eq:
  "app_onStart reply cfg app (after_create cfg app) =
     (after_create cfg app,
      (let (ds, q) = run_items reply (start_plan cfg app); (es, p) = run_drops reply (stop_plan cfg app) in
       (case q of
          AppOk \<Rightarrow> (ds, AppOk)
        | AppErr e \<Rightarrow> if p = AppOk then (ds @ es @ [GroupWait], AppErr e) else (ds @ es, p)
        | AppPanic True \<Rightarrow> if p = AppOk then (ds @ es @ [GroupWait], AppErr ErrRecovered) else (ds @ es, p)
        | AppPanic False \<Rightarrow> (ds, AppPanic False))))"
proof -
  obtain rt' where b: "onStart_body reply cfg app (after_create cfg app) =
      (rt', fst (run_items reply (start_plan cfg app)), snd (run_items reply (start_plan cfg app)))"
    using start_follows [of reply cfg app] by (auto simp: follows_def)
  then have rt: "rt' = after_create cfg app" using onStart_keeps [of reply cfg app "after_create cfg app"] by simp
  obtain es p where p: "run_drops reply (stop_plan cfg app) = (es, p)" by fastforce
  have "p = AppOk \<or> (\<exists>b. p = AppPanic b)" using run_drops_no_error [of reply "stop_plan cfg app"] p by (cases p) auto
  then show ?thesis
    using b rt p stop_drops [of reply cfg app]
    by (cases "snd (run_items reply (start_plan cfg app))")
       (auto simp: app_onStart_def case_prod_beta split: bool.split)
qed

lemma start_eq: "snd (app_start reply cfg app newRuntime) = start_spec reply cfg app"
proof -
  obtain rt0 where i: "app_init reply cfg app newRuntime =
      (rt0, fst (run_items reply (init_plan cfg app)), snd (run_items reply (init_plan cfg app)))"
    and i0: "snd (run_items reply (init_plan cfg app)) = AppOk \<Longrightarrow> rt0 = after_init cfg app"
    using init_follows [of reply cfg app] by (auto simp: follows_def)
  obtain rt1 where c: "app_onCreate reply cfg app (after_init cfg app) =
      (rt1, fst (run_items reply (create_plan cfg app)), snd (run_items reply (create_plan cfg app)))"
    and c0: "snd (run_items reply (create_plan cfg app)) = AppOk \<Longrightarrow> rt1 = after_create cfg app"
    using create_follows [of reply cfg app] by (auto simp: follows_def)
  show ?thesis
  proof (cases "snd (run_items reply (init_plan cfg app)) = AppOk \<and> snd (run_items reply (create_plan cfg app)) = AppOk")
    case True
    then show ?thesis using i i0 c c0
      by (cases "snd (run_items reply (start_plan cfg app))")
         (auto simp: app_start_def start_spec_def onStart_eq run_items_append case_prod_beta make_def
               split: app_result.splits bool.splits)
  next
    case False
    then show ?thesis using i i0 c
      by (cases "snd (run_items reply (init_plan cfg app))"; cases "snd (run_items reply (create_plan cfg app))")
         (auto simp: app_start_def start_spec_def run_items_append case_prod_beta)
  qed
qed


section \<open>A node that cannot register\<close>

fun item_ok :: "(app_call \<Rightarrow> call_reply) \<Rightarrow> item \<Rightarrow> bool" where
  "item_ok reply (Do c) = (reply c = CallOk)"
| "item_ok reply (DoElse c d) = (reply c = CallOk)"
| "item_ok reply (Refuse e) = False"

lemma run_items_ok: "list_all (item_ok reply) is \<Longrightarrow> snd (run_items reply is) = AppOk"
  by (induction reply "is" rule: run_items.induct) (auto split: prod.split)

lemma run_drops_ok: "(\<And>c. c \<in> set cs \<Longrightarrow> reply c = CallOk) \<Longrightarrow> run_drops reply cs = (cs, AppOk)"
  by (induction cs) simp_all

fun item_calls :: "item \<Rightarrow> app_call set" where
  "item_calls (Do c) = {c}"
| "item_calls (DoElse c d) = {c, d}"
| "item_calls (Refuse e) = {}"

lemma run_items_calls: "x \<in> set (fst (run_items reply is)) \<Longrightarrow> \<exists>i\<in>set is. x \<in> item_calls i"
  by (induction reply "is" rule: run_items.induct) (auto split: prod.splits call_reply.splits if_splits)

text \<open>What \<open>StartAsMember\<close> and \<open>Stop\<close> of the registry answer; an index out of range is a runtime error.\<close>

fun registry_reply :: "(peer_error, 's \<times> peer_error option) outcome \<Rightarrow> call_reply" where
  "registry_reply (Return (s, None)) = CallOk"
| "registry_reply (Return (s, Some e)) = CallFailed"
| "registry_reply (Error e) = CallFailed"
| "registry_reply Panic = CallPanicked True"

lemma in_only_if: "x \<in> set (only_if b xs) \<longleftrightarrow> b \<and> x \<in> set xs"
  by (simp add: only_if_def)

lemma in_for_frameworks: "x \<in> set (for_frameworks app f) \<longleftrightarrow> (\<exists>i < length (frameworks_of app). x = f i)"
  by (auto simp: for_frameworks_def)

text \<open>
  When the lease for its registration cannot be had, nothing of the node is in etcd; the start
  fails, and the stop it makes panics in the registry, which looks for the node's address there: the
  grpc server, the http server and the gateway are not stopped, the context is not cancelled, and the
  caller gets the panic instead of the error.
\<close>

lemma failed_registration_panics:
  assumes etcd: "etcd_ok get rv commit" "answers commit" "get e (selfPrefix a @ GRPC_KEY) = None"
    and lease: "0 < ecLeaseTimeout c" "ecLeaseGrant c = None"
    and start: "reply RegistryStart = registry_reply (registerSelf commit a c (e, s))"
    and stop: "reply RegistryStop = registry_reply (unregisterSelf commit a c (e, s))"
    and others: "\<And>x. x \<noteq> RegistryStart \<Longrightarrow> x \<noteq> RegistryStop \<Longrightarrow> reply x = CallOk"
    and cfg: "acEtcd cfg" "acHttp cfg \<Longrightarrow> apHttpHandler app" "acGateway cfg \<Longrightarrow> the_gateway_handler app \<noteq> None"
  shows "snd (snd (app_start reply cfg app newRuntime)) = AppPanic True
    \<and> last (fst (snd (app_start reply cfg app newRuntime))) = RegistryStop
    \<and> set (fst (snd (app_start reply cfg app newRuntime))) \<inter> {GrpcStop, HttpStop, GateShutdown, CancelContext} = {}"
proof -
  have failed: "reply RegistryStart = CallFailed" using lease start by (simp add: registerSelf_def)
  have "unregisterSelf commit a c (e, s) = Panic" using unregisterSelf_Panic_iff [OF etcd(1,2)] etcd(3) by blast
  then have panics: "reply RegistryStop = CallPanicked True" using stop by simp
  let ?init = "init_plan cfg app @ create_plan cfg app"
  have "list_all (item_ok reply) (init_plan cfg app)" "list_all (item_ok reply) (create_plan cfg app)"
    using cfg
    by (auto simp: init_plan_def create_plan_def in_only_if in_for_frameworks list_all_iff others split: if_splits)
  then have init: "snd (run_items reply ?init) = AppOk" by (intro run_items_ok) simp
  have starts: "run_items reply (start_plan cfg app) =
      ([CronStart] @ only_if (acEtcdClient cfg) [RegistryClientStart] @ [RegistryStart],
       AppErr (CallError RegistryStart))"
    using failed cfg(1) by (simp add: start_plan_def only_if_def others)
  let ?stops = "[AppStop] @ for_frameworks app FrameworkStop @ [ContainerStop]"
  have "run_drops reply ?stops = (?stops, AppOk)"
    by (intro run_drops_ok others) (auto simp: in_for_frameworks)
  then have stops: "run_drops reply (stop_plan cfg app) = (?stops @ [RegistryStop], AppPanic True)"
    using cfg(1) panics run_drops_append [of reply ?stops "RegistryStop # drop 1 (drop (length ?stops) (stop_plan cfg app))"]
    by (simp add: stop_plan_def only_if_def)
  have "snd (app_start reply cfg app newRuntime) =
      (fst (run_items reply ?init) @ ([CronStart] @ only_if (acEtcdClient cfg) [RegistryClientStart] @ [RegistryStart])
        @ ?stops @ [RegistryStop], AppPanic True)"
    using init by (simp add: start_eq start_spec_def case_prod_beta starts stops)
  moreover have "item_calls i \<inter> {GrpcStop, HttpStop, GateShutdown, CancelContext} = {}" if "i \<in> set ?init" for i
    using that by (auto simp: init_plan_def create_plan_def in_only_if in_for_frameworks split: if_splits)
  then have "set (fst (run_items reply ?init)) \<inter> {GrpcStop, HttpStop, GateShutdown, CancelContext} = {}"
    using run_items_calls [of _ reply ?init] by blast
  ultimately show ?thesis by (auto simp: in_only_if in_for_frameworks)
qed


definition demo_config :: app_config where
  "demo_config = \<lparr>acPprofPort = 0, acEtcd = True, acEtcdClient = False, acGrpc = True, acResolver = True,
     acAdmin = False, acPlat = False, acHttp = True, acGateway = True, acDbs = [''gamedb''], acCoreLog = True,
     acBehaviorLog = False, acLog = True, acEnv = ''dev'', acZone = ''wc''\<rparr>"

definition demo_application :: application where
  "demo_application = \<lparr>apType = ''gate'', apId = 1,
     apFrameworks = Some [\<lparr>fwGateway = True, fwPeerWatch = True, fwPlayerWatch = False, fwServiceWatch = False\<rparr>],
     apResourceSource = False, apResourceLoader = False, apHttpHandler = True,
     apSelf = \<lparr>fwGateway = False, fwPeerWatch = False, fwPlayerWatch = False, fwServiceWatch = False\<rparr>,
     apRunDir = ''/run''\<rparr>"

lemma failed_registration_panics_witness:
  "snd (snd (app_start
       (\<lambda>x. if x = RegistryStart
             then registry_reply (registerSelf mem_commit (demo_apps 0)
                    (demo_env\<lparr>ecLeaseTimeout := 5, ecLeaseGrant := None\<rparr>) (mem_empty, newConfigPeerRegistry))
             else if x = RegistryStop
             then registry_reply (unregisterSelf mem_commit (demo_apps 0)
                    (demo_env\<lparr>ecLeaseTimeout := 5, ecLeaseGrant := None\<rparr>) (mem_empty, newConfigPeerRegistry))
             else CallOk) demo_config demo_application newRuntime)) = AppPanic True"
proof -
  have "mem_get mem_empty k = None" for k by simp
  moreover have "the_gateway_handler demo_application \<noteq> None"
    by (simp add: the_gateway_handler_def demo_application_def frameworks_of_def)
  ultimately show ?thesis
    using failed_registration_panics [OF mem_etcd mem_answers, of mem_empty "demo_apps 0"
        "demo_env\<lparr>ecLeaseTimeout := 5, ecLeaseGrant := None\<rparr>"
        "\<lambda>x. if x = RegistryStart
             then registry_reply (registerSelf mem_commit (demo_apps 0)
                    (demo_env\<lparr>ecLeaseTimeout := 5, ecLeaseGrant := None\<rparr>) (mem_empty, newConfigPeerRegistry))
             else if x = RegistryStop
             then registry_reply (unregisterSelf mem_commit (demo_apps 0)
                    (demo_env\<lparr>ecLeaseTimeout := 5, ecLeaseGrant := None\<rparr>) (mem_empty, newConfigPeerRegistry))
             else CallOk" newConfigPeerRegistry demo_config demo_application]
    by (simp add: demo_config_def demo_application_def)
qed

section \<open>Stop and the signal goroutine\<close>

text \<open>
  The goroutine of \<open>start\<close> takes a signal or the token of \<open>Stop\<close>; \<open>Stop\<close> sends it after its
  compare-and-swap of the status. Both channels hold one element; the system drops a signal that
  finds the channel full. \<open>sdSenders\<close> counts the calls of \<open>Stop\<close> between the swap and the send,
  \<open>sdStops\<close> (a history) the calls of \<open>stop\<close>.
\<close>

datatype sig = SIGHUP | SIGINT | SIGTERM | SIGQUIT | SIGUSR1 | SIGUSR2

datatype quit_pc = QuitSelect | QuitStopping bool | QuitDone bool

record shutdown =
  sdStatus :: int
  sdStarting :: bool
  sdQuit :: nat
  sdSignal :: "sig option"
  sdLoop :: quit_pc
  sdSenders :: nat
  sdStops :: nat

definition shutdown_init :: shutdown where
  "shutdown_init = \<lparr>sdStatus = 0, sdStarting = True, sdQuit = 0, sdSignal = None, sdLoop = QuitSelect,
     sdSenders = 0, sdStops = 0\<rparr>"

datatype shutdown_event = SetStarted | StopCall | StopSend | Deliver sig | TakeSignal | TakeQuit | StopReturns

definition take_signal :: "shutdown \<Rightarrow> shutdown" where
  "take_signal s =
     (case (sdLoop s, sdSignal s) of
        (QuitSelect, Some g) \<Rightarrow>
          (if g \<in> {SIGHUP, SIGINT, SIGTERM, SIGQUIT}
           then s\<lparr>sdSignal := None, sdLoop := QuitStopping True, sdStops := sdStops s + 1\<rparr>
           else s\<lparr>sdSignal := None\<rparr>)
      | _ \<Rightarrow> s)"

definition take_quit :: "shutdown \<Rightarrow> shutdown" where
  "take_quit s =
     (if sdLoop s = QuitSelect \<and> 0 < sdQuit s
      then s\<lparr>sdQuit := sdQuit s - 1, sdLoop := QuitStopping False, sdStops := sdStops s + 1\<rparr> else s)"

definition Stop_swap :: "shutdown \<Rightarrow> shutdown" where
  "Stop_swap s = (if sdStatus s = 1 then s\<lparr>sdStatus := 2, sdSenders := sdSenders s + 1\<rparr> else s)"

definition Stop_send :: "shutdown \<Rightarrow> shutdown" where
  "Stop_send s =
     (if 0 < sdSenders s \<and> sdQuit s < 1 then s\<lparr>sdQuit := sdQuit s + 1, sdSenders := sdSenders s - 1\<rparr> else s)"

fun shutdown_step :: "shutdown \<Rightarrow> shutdown_event \<Rightarrow> shutdown" where
  "shutdown_step s SetStarted = (if sdStarting s then s\<lparr>sdStatus := 1, sdStarting := False\<rparr> else s)"
| "shutdown_step s StopCall = Stop_swap s"
| "shutdown_step s StopSend = Stop_send s"
| "shutdown_step s (Deliver g) = (if sdSignal s = None then s\<lparr>sdSignal := Some g\<rparr> else s)"
| "shutdown_step s TakeSignal = take_signal s"
| "shutdown_step s TakeQuit = take_quit s"
| "shutdown_step s StopReturns =
     (case sdLoop s of QuitStopping b \<Rightarrow> s\<lparr>sdLoop := QuitDone b\<rparr> | _ \<Rightarrow> s)"

definition sd_inv :: "shutdown \<Rightarrow> bool" where
  "sd_inv s \<longleftrightarrow>
     sdStops s = (if sdLoop s = QuitSelect then 0 else 1)
     \<and> sdStatus s \<in> {0, 1, 2} \<and> (sdStarting s \<longleftrightarrow> sdStatus s = 0)
     \<and> sdSenders s + sdQuit s + (if sdLoop s \<in> {QuitStopping False, QuitDone False} then 1 else 0)
         = (if sdStatus s = 2 then 1 else 0)"

lemma shutdown_init_inv: "sd_inv shutdown_init"
  by (simp add: sd_inv_def shutdown_init_def)

lemma shutdown_step_inv: "sd_inv s \<Longrightarrow> sd_inv (shutdown_step s e)"
  by (cases e; cases "sdLoop s")
     (auto simp: sd_inv_def Stop_swap_def Stop_send_def take_signal_def take_quit_def
           split: if_splits option.splits)

interpretation sd: step_system "\<lambda>s. s = shutdown_init" shutdown_step sd_inv
  by unfold_locales (simp_all add: shutdown_init_inv shutdown_step_inv)

text \<open>
  C36. However \<open>Stop\<close> is called, by however many goroutines, and whatever signals arrive, before the
  start is over, during it or after it: \<open>stop\<close> runs at most once, no call of \<open>Stop\<close> blocks (the
  channel is empty when one has to send), and a \<open>Stop\<close> after the start is not lost: its token waits
  until the goroutine takes it, unless a signal stops the node before.
\<close>

theorem stop_runs_once:
  "let s = foldl shutdown_step shutdown_init es in
     sdStops s = (if sdLoop s = QuitSelect then 0 else 1)
     \<and> sdSenders s \<le> 1 - sdQuit s \<and> sdQuit s \<le> 1
     \<and> sdSenders (shutdown_step s StopSend) = 0
     \<and> (sdStatus s = 2 \<and> sdSenders s = 0 \<and> sdLoop s = QuitSelect
          \<longrightarrow> sdLoop (shutdown_step s TakeQuit) = QuitStopping False)"
proof -
  have "sd_inv (foldl shutdown_step shutdown_init es)" by (rule sd.run_inv) simp
  then show ?thesis
    by (auto simp: sd_inv_def Let_def Stop_send_def take_quit_def split: if_splits)
qed

theorem stop_runs_once_witness:
  "let s = foldl shutdown_step shutdown_init [StopCall, SetStarted, StopCall, StopCall, StopSend] in
     sdSenders (shutdown_step s StopSend) = 0 \<and> sdLoop (shutdown_step s TakeQuit) = QuitStopping False"
  using stop_runs_once [of "[StopCall, SetStarted, StopCall, StopCall, StopSend]"]
  by (simp add: Let_def Stop_swap_def Stop_send_def shutdown_init_def)

text \<open>
  The file of the running configuration is named with the name the runtime has then, which is still
  empty.
\<close>

lemma run_config_file:
  assumes "snd (snd (app_init reply cfg app newRuntime)) = AppOk"
  shows "rtRunConfigFile (fst (app_init reply cfg app newRuntime)) = path_Join (apRunDir app) []"
  using assms init_follows [of reply cfg app] by (auto simp: follows_def after_init_def)

end
