(* ===== verification/Actor_Call.thy ===== *)
theory Actor_Call
  imports Gira_Prelude
begin

text \<open>
  Actors: \<open>actor/actor.go\<close> and the functions that the macro \<open>actor\<close> of \<open>gen/gen_macro/macro.go\<close>
  generates for a method, \<open>Call_\<close> and \<open>Next\<close>. Callers put requests into the inbox of the actor; the
  goroutine that owns the actor takes them and calls \<open>Next\<close>, which runs the method and, for a macro
  \<open>call\<close>, sends the request back on its unbuffered channel, where the caller waits together with its
  context and its timer.

  The lemmas: methods run one at a time, in the order of the inbox, each once, and an answer is the
  result of the caller's own method; the actor never leaves a call before its caller has the answer,
  so a caller that gives up first blocks the actor for ever.
\<close>

section \<open>Requests\<close>

text \<open>\<open>CallOptions\<close>: the last option wins, no option is no timeout.\<close>

definition call_options :: "int list \<Rightarrow> int" where
  "call_options opts = foldl (\<lambda>_ t. t) 0 opts"

text \<open>
  What \<open>Call_\<close> returns: the answer; or, when the context is done or the timer fires, what the fields
  of the request hold then and an error; or, for a macro \<open>send\<close>, that the inbox took the request.
\<close>

datatype 'v call_return = Answered 'v | CtxErr "'v option" | TimedOut "'v option" | Accepted

datatype 'v call_pc = CallInbox | CallWait | CallReturned "'v call_return"

record 'v call =
  caSend :: bool
  caTimeOut :: int
  caDone :: bool
  caResult :: "'v option"
  caPc :: "'v call_pc"

definition new_call :: "bool \<Rightarrow> int list \<Rightarrow> bool \<Rightarrow> 'v call" where
  "new_call send opts done =
     \<lparr>caSend = send, caTimeOut = call_options opts, caDone = done, caResult = None, caPc = CallInbox\<rparr>"

text \<open>
  The actor's goroutine: between two requests, in the method of one, or in \<open>Next\<close> sending it back.
  \<open>awAccepted\<close> and \<open>awRan\<close> are histories: the requests the inbox took, those whose method was called.
\<close>

datatype actor_pc = ActorIdle | ActorRun nat | ActorReply nat

record 'v actor_world =
  awCap :: nat
  awInbox :: "nat list"
  awActor :: actor_pc
  awCalls :: "nat \<Rightarrow> 'v call option"
  awAccepted :: "nat list"
  awRan :: "nat list"

definition NewActor :: "nat \<Rightarrow> 'v actor_world" where
  "NewActor n = \<lparr>awCap = n, awInbox = [], awActor = ActorIdle, awCalls = Map.empty,
     awAccepted = [], awRan = []\<rparr>"

definition set_call :: "nat \<Rightarrow> 'v call \<Rightarrow> 'v actor_world \<Rightarrow> 'v actor_world" where
  "set_call k c w = w\<lparr>awCalls := (awCalls w)(k \<mapsto> c)\<rparr>"

text \<open>After the send to the inbox a macro \<open>send\<close> returns nil and a macro \<open>call\<close> waits.\<close>

definition sent_call :: "'v call \<Rightarrow> 'v call" where
  "sent_call c = c\<lparr>caPc := (if caSend c then CallReturned Accepted else CallWait)\<rparr>"

section \<open>Steps\<close>

text \<open>
  A send to the inbox is buffered or, with nobody before it, handed to the waiting actor. It is not
  in a \<open>select\<close>: neither the context nor the timer ends it.
\<close>

inductive actor_step :: "'v actor_world \<Rightarrow> 'v actor_world \<Rightarrow> bool" where
  call_starts:
    "awCalls w k = None \<Longrightarrow> actor_step w (set_call k (new_call send opts done) w)"
| call_buffered:
    "awCalls w k = Some c \<Longrightarrow> caPc c = CallInbox \<Longrightarrow> length (awInbox w) < awCap w \<Longrightarrow>
     actor_step w (set_call k (sent_call c)
       (w\<lparr>awInbox := awInbox w @ [k], awAccepted := awAccepted w @ [k]\<rparr>))"
| call_handed:
    "awCalls w k = Some c \<Longrightarrow> caPc c = CallInbox \<Longrightarrow> awInbox w = [] \<Longrightarrow> awActor w = ActorIdle \<Longrightarrow>
     actor_step w (set_call k (sent_call c)
       (w\<lparr>awActor := ActorRun k, awAccepted := awAccepted w @ [k], awRan := awRan w @ [k]\<rparr>))"
| actor_takes:
    "awActor w = ActorIdle \<Longrightarrow> awInbox w = k # ks \<Longrightarrow>
     actor_step w (w\<lparr>awInbox := ks, awActor := ActorRun k, awRan := awRan w @ [k]\<rparr>)"
| method_returns:
    "awActor w = ActorRun k \<Longrightarrow> awCalls w k = Some c \<Longrightarrow>
     actor_step w (set_call k (c\<lparr>caResult := Some v\<rparr>)
       (w\<lparr>awActor := (if caSend c then ActorIdle else ActorReply k)\<rparr>))"
| answer:
    "awActor w = ActorReply k \<Longrightarrow> awCalls w k = Some c \<Longrightarrow> caPc c = CallWait \<Longrightarrow> caResult c = Some v \<Longrightarrow>
     actor_step w (set_call k (c\<lparr>caPc := CallReturned (Answered v)\<rparr>) (w\<lparr>awActor := ActorIdle\<rparr>))"
| context_done:
    "awCalls w k = Some c \<Longrightarrow> actor_step w (set_call k (c\<lparr>caDone := True\<rparr>) w)"
| call_cancelled:
    "awCalls w k = Some c \<Longrightarrow> caPc c = CallWait \<Longrightarrow> caDone c \<Longrightarrow>
     actor_step w (set_call k (c\<lparr>caPc := CallReturned (CtxErr (caResult c))\<rparr>) w)"
| call_times_out:
    "awCalls w k = Some c \<Longrightarrow> caPc c = CallWait \<Longrightarrow> caTimeOut c \<noteq> 0 \<Longrightarrow>
     actor_step w (set_call k (c\<lparr>caPc := CallReturned (TimedOut (caResult c))\<rparr>) w)"

inductive_cases actor_stepE: "actor_step w t"

section \<open>The invariant\<close>

text \<open>A request whose method was called and that is over: sent back to its caller, or a send.\<close>

definition call_over :: "'v call \<Rightarrow> bool" where
  "call_over c \<longleftrightarrow> (\<exists>v. caResult c = Some v \<and> (\<not> caSend c \<longrightarrow> caPc c = CallReturned (Answered v)))"

definition call_ok :: "'v actor_world \<Rightarrow> nat \<Rightarrow> 'v call \<Rightarrow> bool" where
  "call_ok w k c \<longleftrightarrow>
     (k \<in> set (awAccepted w) \<longleftrightarrow> caPc c \<noteq> CallInbox)
     \<and> (caSend c \<longrightarrow> caPc c = CallInbox \<or> caPc c = CallReturned Accepted)
     \<and> (\<not> caSend c \<longrightarrow> caPc c \<noteq> CallReturned Accepted)
     \<and> (caResult c \<noteq> None \<longrightarrow> k \<in> set (awRan w))
     \<and> (\<forall>v. caPc c = CallReturned (Answered v) \<longrightarrow> caResult c = Some v)
     \<and> (k \<in> set (awRan w) \<and> awActor w \<noteq> ActorRun k \<and> awActor w \<noteq> ActorReply k \<longrightarrow> call_over c)
     \<and> (awActor w = ActorRun k \<longrightarrow> caResult c = None)
     \<and> (awActor w = ActorReply k \<longrightarrow>
          caResult c \<noteq> None \<and> \<not> caSend c \<and> (\<forall>v. caPc c \<noteq> CallReturned (Answered v)))"

definition actor_inv :: "'v actor_world \<Rightarrow> bool" where
  "actor_inv w \<longleftrightarrow>
     awAccepted w = awRan w @ awInbox w \<and> distinct (awAccepted w) \<and> length (awInbox w) \<le> awCap w
     \<and> set (awAccepted w) \<subseteq> dom (awCalls w)
     \<and> (\<forall>k. awActor w = ActorRun k \<or> awActor w = ActorReply k \<longrightarrow> awRan w \<noteq> [] \<and> last (awRan w) = k)
     \<and> (\<forall>k c. awCalls w k = Some c \<longrightarrow> call_ok w k c)"

lemma actor_inv_NewActor: "actor_inv (NewActor n)"
  by (simp add: actor_inv_def NewActor_def)

lemma set_call_simps [simp]:
  "awCap (set_call k c w) = awCap w" "awInbox (set_call k c w) = awInbox w" "awActor (set_call k c w) = awActor w"
  "awCalls (set_call k c w) = (awCalls w)(k \<mapsto> c)" "awAccepted (set_call k c w) = awAccepted w"
  "awRan (set_call k c w) = awRan w"
  by (simp_all add: set_call_def)

lemma current_in_ran: "actor_inv w \<Longrightarrow> awActor w = ActorRun k \<or> awActor w = ActorReply k \<Longrightarrow> k \<in> set (awRan w)"
  unfolding actor_inv_def using last_in_set by blast

text \<open>A step that writes the entry of \<open>k\<close>: what has to be shown.\<close>

lemma actor_inv_upd:
  assumes "actor_inv w" and "awCalls t = (awCalls w)(k \<mapsto> c')"
    and "awAccepted t = awRan t @ awInbox t" "distinct (awAccepted t)" "length (awInbox t) \<le> awCap t"
    and "set (awAccepted t) \<subseteq> insert k (dom (awCalls w))"
    and "\<And>j. awActor t = ActorRun j \<or> awActor t = ActorReply j \<Longrightarrow> awRan t \<noteq> [] \<and> last (awRan t) = j"
    and "call_ok t k c'" and "\<And>j d. j \<noteq> k \<Longrightarrow> call_ok w j d \<Longrightarrow> call_ok t j d"
  shows "actor_inv t"
  using assms unfolding actor_inv_def by (auto split: if_splits)

lemma actor_invD:
  assumes "actor_inv w"
  shows "awAccepted w = awRan w @ awInbox w" "distinct (awRan w)" "distinct (awInbox w)"
    "set (awRan w) \<inter> set (awInbox w) = {}" "length (awInbox w) \<le> awCap w"
    "set (awRan w) \<subseteq> dom (awCalls w)" "set (awInbox w) \<subseteq> dom (awCalls w)"
    "awActor w = ActorRun j \<or> awActor w = ActorReply j \<Longrightarrow> awRan w \<noteq> [] \<and> last (awRan w) = j"
    "awCalls w k = Some c \<Longrightarrow> call_ok w k c"
  using assms by (auto simp: actor_inv_def)

lemma actor_inv_caller:
  assumes w: "actor_inv w" and c: "awCalls w k = Some c"
    and same: "caSend c' = caSend c" "caResult c' = caResult c"
    and pc: "caPc c' = caPc c \<or> caPc c = CallWait
      \<and> (caPc c' = CallReturned (CtxErr r) \<or> caPc c' = CallReturned (TimedOut r))"
  shows "actor_inv (set_call k c' w)"
proof (rule actor_inv_upd [OF w, of _ k c'])
  have ok: "call_ok w k c" by (rule actor_invD(9) [OF w c])
  show "call_ok (set_call k c' w) k c'"
    using pc
  proof
    assume "caPc c' = caPc c"
    then show ?thesis using ok same by (simp add: call_ok_def call_over_def)
  next
    assume h: "caPc c = CallWait \<and> (caPc c' = CallReturned (CtxErr r) \<or> caPc c' = CallReturned (TimedOut r))"
    then have "\<not> caSend c" "k \<in> set (awAccepted w)" using ok by (auto simp: call_ok_def)
    moreover have "\<not> (k \<in> set (awRan w) \<and> awActor w \<noteq> ActorRun k \<and> awActor w \<noteq> ActorReply k)"
      using ok h by (auto simp: call_ok_def call_over_def)
    ultimately show ?thesis using ok h same by (elim conjE disjE) (auto simp: call_ok_def)
  qed
qed (use c actor_invD(1-8) [OF w] in \<open>auto simp: call_ok_def\<close>)

lemma actor_step_inv:
  assumes "actor_step w t" and w: "actor_inv w"
  shows "actor_inv t"
  using assms(1)
proof cases
  case (call_starts k send opts "done")
  have "k \<notin> set (awRan w)" "k \<notin> set (awInbox w)" using call_starts actor_invD(6,7) [OF w] by auto
  then show ?thesis
    using call_starts actor_invD(1-8) [OF w] current_in_ran [OF w]
    by (intro actor_inv_upd [OF w]) (auto simp: call_ok_def new_call_def)
next
  case (call_buffered k c)
  then have "call_ok w k c" by (intro actor_invD(9) [OF w])
  then show ?thesis
    using call_buffered actor_invD(1-8) [OF w] current_in_ran [OF w]
    by (intro actor_inv_upd [OF w]) (auto simp: call_ok_def sent_call_def split: if_splits)
next
  case (call_handed k c)
  then have "call_ok w k c" by (intro actor_invD(9) [OF w])
  then show ?thesis
    using call_handed actor_invD(1-8) [OF w]
    by (intro actor_inv_upd [OF w]) (auto simp: call_ok_def sent_call_def split: if_splits)
next
  case (actor_takes k ks)
  then obtain c where c: "awCalls w k = Some c" using actor_invD(7) [OF w] by auto
  then have "call_ok w k c" by (rule actor_invD(9) [OF w])
  then show ?thesis
    using actor_takes actor_invD(1-8) [OF w] c
    by (intro actor_inv_upd [OF w, of _ k c]) (auto simp: call_ok_def)
next
  case (method_returns k c v)
  then have "call_ok w k c" by (intro actor_invD(9) [OF w])
  then show ?thesis
    using method_returns actor_invD(1-8) [OF w] current_in_ran [OF w]
    by (intro actor_inv_upd [OF w]) (auto simp: call_ok_def call_over_def split: if_splits)
next
  case (answer k c v)
  then have "call_ok w k c" by (intro actor_invD(9) [OF w])
  then show ?thesis
    using answer actor_invD(1-8) [OF w] current_in_ran [OF w]
    by (intro actor_inv_upd [OF w]) (auto simp: call_ok_def call_over_def)
next
  case (context_done k c)
  then show ?thesis using actor_inv_caller [OF w, of k c] by simp
next
  case (call_cancelled k c)
  then show ?thesis using actor_inv_caller [OF w, of k c] by simp
next
  case (call_times_out k c)
  then show ?thesis using actor_inv_caller [OF w, of k c] by simp
qed

interpretation actor: step_relation "\<lambda>w. \<exists>n. w = NewActor n" actor_step actor_inv
  by unfold_locales (auto simp: actor_inv_NewActor actor_step_inv)


section \<open>Properties\<close>

lemma actor_reachable: "actor_step\<^sup>*\<^sup>* (NewActor n) w \<Longrightarrow> actor_inv w"
  by (rule actor.reachable_inv) blast

text \<open>Only the last method called can be without an answer.\<close>

lemma earlier_over:
  assumes w: "actor_inv w" and j: "j \<in> set (butlast (awRan w))" and c: "awCalls w j = Some c"
  shows "call_over c"
proof -
  have d: "distinct (awRan w)" by (rule actor_invD(2) [OF w])
  then have "j \<noteq> last (awRan w)" using j by (cases "awRan w" rule: rev_cases) auto
  then have "awActor w \<noteq> ActorRun j \<and> awActor w \<noteq> ActorReply j" using actor_invD(8) [OF w] by blast
  then show ?thesis using actor_invD(9) [OF w c] in_set_butlastD [OF j] by (simp add: call_ok_def)
qed

text \<open>What a caller got stays, and the inbox only grows at its end.\<close>

lemma actor_step_grows:
  assumes "actor_step w t"
  shows "prefix (awAccepted w) (awAccepted t)
    \<and> (awCalls w k = Some c \<and> caPc c = CallReturned r \<longrightarrow>
        (\<exists>d. awCalls t k = Some d \<and> caPc d = CallReturned r \<and> caSend d = caSend c))"
  using assms by cases (auto simp: new_call_def sent_call_def)

lemma actor_steps_grow:
  assumes "actor_step\<^sup>*\<^sup>* w t"
  shows "prefix (awAccepted w) (awAccepted t)
    \<and> (awCalls w k = Some c \<and> caPc c = CallReturned r \<longrightarrow>
        (\<exists>d. awCalls t k = Some d \<and> caPc d = CallReturned r \<and> caSend d = caSend c))"
  using assms
proof (induction rule: rtranclp_induct)
  case (step t u)
  show ?case
  proof (intro conjI impI)
    show "prefix (awAccepted w) (awAccepted u)"
      using step prefix_order.trans actor_step_grows by blast
    assume "awCalls w k = Some c \<and> caPc c = CallReturned r"
    then obtain d where "awCalls t k = Some d" "caPc d = CallReturned r" "caSend d = caSend c" using step.IH by blast
    then show "\<exists>d. awCalls u k = Some d \<and> caPc d = CallReturned r \<and> caSend d = caSend c"
      using actor_step_grows [OF step.hyps(2), of k d r] by auto
  qed
qed auto

text \<open>
  C19. However callers, contexts, timers and the actor interleave, the methods are called in the
  order in which the inbox took the requests, none twice; before another is called the one before it
  has returned, and its caller has had the answer if it waits for one; and an answer is the result of
  the caller's own method.
\<close>

theorem actor_serves_in_order:
  assumes "actor_step\<^sup>*\<^sup>* (NewActor n) w"
  shows "awAccepted w = awRan w @ awInbox w \<and> distinct (awAccepted w) \<and> length (awInbox w) \<le> awCap w
    \<and> (\<forall>j\<in>set (butlast (awRan w)). call_over (the (awCalls w j)))
    \<and> (\<forall>k c v. awCalls w k = Some c \<and> caPc c = CallReturned (Answered v) \<longrightarrow>
        k \<in> set (awRan w) \<and> caResult c = Some v)"
proof -
  note w = actor_reachable [OF assms]
  have over: "call_over (the (awCalls w j))" if j: "j \<in> set (butlast (awRan w))" for j
  proof -
    obtain c where "awCalls w j = Some c" using actor_invD(6) [OF w] in_set_butlastD [OF j] by auto
    then show ?thesis using earlier_over [OF w j] by simp
  qed
  have "k \<in> set (awRan w) \<and> caResult c = Some v"
    if "awCalls w k = Some c" and "caPc c = CallReturned (Answered v)" for k c v
    using actor_invD(9) [OF w that(1)] that(2) by (simp add: call_ok_def)
  then show ?thesis using over w by (auto simp: actor_inv_def)
qed

text \<open>
  A caller that gives up, because its context is done or its timer fires, once the inbox has its
  request blocks the actor for ever: whatever happens afterwards, no request behind it is ever
  served and no caller behind it gets an answer.
\<close>

lemma abandoned_call_blocks_actor:
  assumes run: "actor_step\<^sup>*\<^sup>* (NewActor n) w" and t: "actor_step\<^sup>*\<^sup>* w t"
    and acc: "awAccepted w = xs @ k # ys"
    and gone: "awCalls w k = Some c" "caPc c = CallReturned r" "r = CtxErr u \<or> r = TimedOut u"
  shows "prefix (awRan t) (xs @ [k])
    \<and> (\<forall>j d v. j \<notin> set (xs @ [k]) \<and> awCalls t j = Some d \<longrightarrow> caPc d \<noteq> CallReturned (Answered v))"
proof -
  have w: "actor_inv w" and i: "actor_inv t"
    using actor_reachable run t by (blast intro: rtranclp_trans)+
  obtain d where d: "awCalls t k = Some d" "caPc d = CallReturned r" "caSend d = caSend c"
    using actor_steps_grow [OF t, of k c r] gone by blast
  have "\<not> caSend c" using actor_invD(9) [OF w gone(1)] gone(2,3) by (auto simp: call_ok_def)
  then have open_call: "\<not> call_over d" using d gone(3) by (auto simp: call_over_def)
  have "prefix (xs @ [k]) (awAccepted t)"
    using conjunct1 [OF actor_steps_grow [OF t]] acc by (auto simp: prefix_def)
  moreover have "prefix (awRan t) (awAccepted t)" using actor_invD(1) [OF i] by simp
  ultimately have "prefix (awRan t) (xs @ [k]) \<or> prefix (xs @ [k]) (awRan t)"
    using prefix_same_cases by blast
  then consider "prefix (awRan t) (xs @ [k])" | "strict_prefix (xs @ [k]) (awRan t)"
    unfolding strict_prefix_def by metis
  then have ran: "prefix (awRan t) (xs @ [k])"
  proof cases
    case 2
    then obtain zs z where "awRan t = xs @ [k] @ zs @ [z]"
      by (metis append_assoc append_butlast_last_id append_Nil2 prefixE strict_prefix_def)
    then have "k \<in> set (butlast (awRan t))" by (simp add: butlast_append)
    then show ?thesis using earlier_over [OF i _ d(1)] open_call by blast
  qed
  moreover have "caPc e \<noteq> CallReturned (Answered v)" if "j \<notin> set (xs @ [k])" "awCalls t j = Some e" for j e v
  proof
    assume "caPc e = CallReturned (Answered v)"
    then have "j \<in> set (awRan t)" using actor_invD(9) [OF i that(2)] by (simp add: call_ok_def)
    then show False using ran that(1) set_mono_prefix by blast
  qed
  ultimately show ?thesis by blast
qed

text \<open>One call that times out while it is queued, and one behind it.\<close>

definition early_timeout :: "nat actor_world" where
  "early_timeout =
     \<lparr>awCap = 2, awInbox = [0, 1], awActor = ActorIdle,
      awCalls = [0 \<mapsto> (new_call False [5] False)\<lparr>caPc := CallReturned (TimedOut None)\<rparr>,
                 1 \<mapsto> (new_call False [] False)\<lparr>caPc := CallWait\<rparr>],
      awAccepted = [0, 1], awRan = []\<rparr>"

lemma early_timeout_reached: "actor_step\<^sup>*\<^sup>* (NewActor 2) early_timeout"
proof -
  let ?w0 = "NewActor 2 :: nat actor_world"
  let ?w1 = "set_call 0 (new_call False [5] False) ?w0"
  let ?w2 = "set_call 0 (sent_call (new_call False [5] False))
      (?w1\<lparr>awInbox := awInbox ?w1 @ [0], awAccepted := awAccepted ?w1 @ [0]\<rparr>)"
  let ?c = "(sent_call (new_call False [5] False)) :: nat call"
  let ?w3 = "set_call 0 (?c\<lparr>caPc := CallReturned (TimedOut (caResult ?c))\<rparr>) ?w2"
  let ?w4 = "set_call 1 (new_call False [] False) ?w3"
  let ?w5 = "set_call 1 (sent_call (new_call False [] False))
      (?w4\<lparr>awInbox := awInbox ?w4 @ [1], awAccepted := awAccepted ?w4 @ [1]\<rparr>)"
  have "actor_step ?w0 ?w1" by (rule call_starts) (simp add: NewActor_def)
  moreover have "actor_step ?w1 ?w2"
    by (rule call_buffered) (simp_all add: NewActor_def new_call_def)
  moreover have "actor_step ?w2 ?w3"
    by (rule call_times_out) (simp_all add: sent_call_def new_call_def call_options_def)
  moreover have "actor_step ?w3 ?w4" by (rule call_starts) (simp add: NewActor_def)
  moreover have "actor_step ?w4 ?w5"
    by (rule call_buffered) (simp_all add: NewActor_def new_call_def)
  ultimately have "actor_step\<^sup>*\<^sup>* ?w0 ?w5" by (meson rtranclp.rtrancl_into_rtrancl rtranclp.rtrancl_refl)
  moreover have "?w5 = early_timeout"
    by (simp add: early_timeout_def set_call_def NewActor_def sent_call_def new_call_def fun_eq_iff)
  ultimately show ?thesis by (simp only:)
qed

lemma abandoned_call_blocks_actor_witness:
  "\<exists>t. actor_step\<^sup>*\<^sup>* early_timeout t \<and> awActor t = ActorReply 0 \<and> prefix (awRan t) [0]"
proof -
  let ?w = early_timeout
  let ?w1 = "?w\<lparr>awInbox := [1], awActor := ActorRun 0, awRan := awRan ?w @ [0]\<rparr>"
  let ?c = "(new_call False [5] False)\<lparr>caPc := CallReturned (TimedOut None)\<rparr> :: nat call"
  let ?w2 = "set_call 0 (?c\<lparr>caResult := Some 7\<rparr>)
      (?w1\<lparr>awActor := (if caSend ?c then ActorIdle else ActorReply 0)\<rparr>)"
  have "actor_step ?w ?w1" by (rule actor_takes) (simp_all add: early_timeout_def)
  moreover have "actor_step ?w1 ?w2" by (rule method_returns) (simp_all add: early_timeout_def)
  ultimately have t: "actor_step\<^sup>*\<^sup>* ?w ?w2" by (meson rtranclp.rtrancl_into_rtrancl rtranclp.rtrancl_refl)
  have "prefix (awRan ?w2) ([] @ [0])"
    using abandoned_call_blocks_actor [OF early_timeout_reached t, of "[]" 0 "[1]" ?c "TimedOut None" None]
    by (simp add: early_timeout_def)
  then show ?thesis using t by (intro exI [of _ ?w2]) (simp add: new_call_def)
qed

theorem actor_serves_in_order_witness:
  "awAccepted early_timeout = awRan early_timeout @ awInbox early_timeout"
  using actor_serves_in_order [OF early_timeout_reached] by simp

end
