(* ===== verification/Macro_Gen.thy ===== *)
theory Macro_Gen
  imports Config_File
begin

text \<open>
  The macro generator, \<open>gen/gen_macro/macro.go\<close>: it scans Go files for \<open>// #name(arguments)\<close> lines
  followed by a method, checks the macro \<open>actor\<close> and appends the functions it generates to the file,
  after a marker that is cut off again by the next run. What the generated functions do is the
  subject of \<open>Actor_Call\<close>.

  The lemmas: arguments are read back as they are printed; a method is read back as it is declared;
  generating twice is generating once; a second run in one process fails after it has cut the files.
\<close>

section \<open>Arguments\<close>

record arg =
  arName :: string
  arType :: string
  arPtr :: string
  arIsPtr :: bool

text \<open>\<open>\s\<close> of the regular expressions.\<close>

definition re_space :: "char \<Rightarrow> bool" where
  "re_space c \<longleftrightarrow> c \<in> {CHR 0x09, CHR 0x0A, CHR 0x0C, CHR 0x0D, CHR 0x20}"

definition skip_space :: "string \<Rightarrow> string" where
  "skip_space = dropWhile re_space"

text \<open>
  The first match of \<open>(\S+)\s*(\*?)\s*(\S*)\<close>: what follows the first group can be empty, so each
  group is as long as it can be.
\<close>

definition match_arg :: "string \<Rightarrow> (string \<times> string \<times> string) option" where
  "match_arg v =
     (let s = skip_space v; name = takeWhile (Not \<circ> re_space) s;
          r = skip_space (dropWhile (Not \<circ> re_space) s);
          ptr = (if r \<noteq> [] \<and> hd r = CHR ''*'' then ''*'' else []);
          typ = takeWhile (Not \<circ> re_space) (skip_space (drop (length ptr) r))
      in if name = [] then None else Some (name, ptr, typ))"

definition new_arg :: "string \<times> string \<times> string \<Rightarrow> arg" where
  "new_arg m = (case m of (name, ptr, typ) \<Rightarrow>
     \<lparr>arName = name, arType = typ, arPtr = ptr, arIsPtr = (ptr \<noteq> [])\<rparr>)"

text \<open>The second loop of \<open>parseArgs\<close>: what has no type is a type.\<close>

definition name_arg :: "nat \<Rightarrow> arg \<Rightarrow> arg" where
  "name_arg k v =
     (if arType v = [] then v\<lparr>arType := arName v, arName := ''r'' @ fmt_int (int k)\<rparr> else v)"

fun map_index :: "(nat \<Rightarrow> 'a \<Rightarrow> 'b) \<Rightarrow> nat \<Rightarrow> 'a list \<Rightarrow> 'b list" where
  "map_index f k [] = []"
| "map_index f k (x # xs) = f k x # map_index f (k + 1) xs"

definition parseArgs :: "string \<Rightarrow> arg list" where
  "parseArgs line =
     (let line = TrimSpace line in
      if line = [] then []
      else map_index name_arg 0 (map new_arg (List.map_filter match_arg (split_on (CHR '','') line))))"

definition parseReturns :: "string \<Rightarrow> arg list" where
  "parseReturns line =
     map_index (\<lambda>k v. if arName v = [] then v\<lparr>arName := ''r'' @ fmt_int (int k)\<rparr> else v) 0 (parseArgs line)"

definition JoinArgs :: "string \<Rightarrow> arg list \<Rightarrow> string" where
  "JoinArgs pre args = join_with '', '' (map (\<lambda>v. pre @ arName v) args)"

definition JoinArgsWithType :: "arg list \<Rightarrow> string" where
  "JoinArgsWithType args = join_with '', '' (map (\<lambda>v. arName v @ '' '' @ arPtr v @ arType v) args)"

text \<open>The slice from \<open>offset\<close> panics when it is out of range.\<close>

definition JoinArgsTail :: "nat \<Rightarrow> string \<Rightarrow> arg list \<Rightarrow> (unit, string) outcome" where
  "JoinArgsTail offset pre args =
     (if length args < offset then Panic else Return (JoinArgs pre (drop offset args)))"

definition JoinArgsTailWithType :: "nat \<Rightarrow> arg list \<Rightarrow> (unit, string) outcome" where
  "JoinArgsTailWithType offset args =
     (if length args < offset then Panic else Return (JoinArgsWithType (drop offset args)))"

section \<open>Scanning\<close>

record macro_method =
  mtDeclaration :: string
  mtReceiverName :: string
  mtReceiverPtr :: string
  mtReceiverType :: string
  mtMethodName :: string
  mtArgs :: "arg list"
  mtReturns :: "arg list"

record macro_func =
  mfName :: string
  mfArgs :: "string list"

record macro =
  maFuncs :: "macro_func list"
  maMethod :: "macro_method option"

text \<open>\<open>bufio.Reader.ReadLine\<close> with its buffer of 4096 bytes; the flag of a prefix is ignored.\<close>

definition line_buffer :: nat where "line_buffer = 4096"

function line_pieces :: "bool \<Rightarrow> string \<Rightarrow> string list" where
  "line_pieces ended l =
     (if length l < line_buffer then (if ended then [drop_cr l] else if l = [] then [] else [l])
      else if last (take line_buffer l) = CHR 0x0D
      then butlast (take line_buffer l) # line_pieces ended (drop (line_buffer - 1) l)
      else take line_buffer l # line_pieces ended (drop line_buffer l))"
  by pat_completeness auto
termination by (relation "measure (length \<circ> snd)") (auto simp: line_buffer_def)

declare line_pieces.simps [simp del]

definition read_lines :: "string \<Rightarrow> string list" where
  "read_lines content =
     (let ls = split_on (CHR 0x0A) content
      in concat (map (line_pieces True) (butlast ls)) @ line_pieces False (last ls))"

text \<open>The first match of \<open>// #(\w+)\(([^)]*)\)\<close>.\<close>

fun match_macro :: "string \<Rightarrow> (string \<times> string) option" where
  "match_macro [] = None"
| "match_macro (c # s) =
     (let r = drop 4 (c # s); w = takeWhile is_word r; t = dropWhile is_word r in
      if prefix ''// #'' (c # s) \<and> w \<noteq> [] \<and> t \<noteq> [] \<and> hd t = CHR ''('' \<and> CHR '')'' \<in> set t
      then Some (w, takeWhile (\<lambda>x. x \<noteq> CHR '')'') (tl t)) else match_macro s)"

text \<open>
  \<open>^func\s+\(([a-zA-Z0-9_]+)\s+([*]*)([a-zA-Z0-9_]+)\)\s+([a-zA-Z0-9_]+)\((.*?)\)\s*[\(]*(.*?)[\)]*\s*\{$\<close>:
  the arguments end at the first closing parenthesis, the results before the last ones.
\<close>

definition match_results :: "string \<Rightarrow> string option" where
  "match_results s =
     (if s \<noteq> [] \<and> last s = CHR ''{''
      then Some (rev (dropWhile (\<lambda>c. c = CHR '')'') (dropWhile re_space
             (rev (butlast (dropWhile (\<lambda>c. c = CHR ''('') (skip_space s)))))))
      else None)"

definition match_func :: "string \<Rightarrow> (string \<times> string \<times> string \<times> string \<times> string \<times> string) option" where
  "match_func v =
     (let a = drop 4 v; b = skip_space a;
          rn = takeWhile is_word (tl b); c = dropWhile is_word (tl b); d = skip_space c;
          ptr = takeWhile (\<lambda>x. x = CHR ''*'') d; e = dropWhile (\<lambda>x. x = CHR ''*'') d;
          rt = takeWhile is_word e; f = dropWhile is_word e; g = tl f; h = skip_space g;
          mn = takeWhile is_word h; i = dropWhile is_word h;
          args = takeWhile (\<lambda>x. x \<noteq> CHR '')'') (tl i); j = dropWhile (\<lambda>x. x \<noteq> CHR '')'') (tl i)
      in if prefix ''func'' v \<and> a \<noteq> b \<and> b \<noteq> [] \<and> hd b = CHR ''('' \<and> rn \<noteq> [] \<and> c \<noteq> d \<and> rt \<noteq> []
           \<and> f \<noteq> [] \<and> hd f = CHR '')'' \<and> g \<noteq> h \<and> mn \<noteq> [] \<and> i \<noteq> [] \<and> hd i = CHR ''('' \<and> j \<noteq> []
         then map_option (\<lambda>ret. (rn, ptr, rt, mn, args, ret)) (match_results (tl j))
         else None)"

definition new_method :: "string \<Rightarrow> macro_method option" where
  "new_method v =
     (case match_func v of
        None \<Rightarrow> None
      | Some (rn, ptr, rt, mn, args, ret) \<Rightarrow>
          Some \<lparr>mtDeclaration = replace_first ''{'' [] v, mtReceiverName = rn, mtReceiverPtr = ptr,
                mtReceiverType = rt, mtMethodName = mn, mtArgs = parseArgs args, mtReturns = parseReturns ret\<rparr>)"

definition new_func :: "string \<times> string \<Rightarrow> macro_func" where
  "new_func m = (case m of (name, args) \<Rightarrow>
     (let args = TrimSpace args in
      \<lparr>mfName = name, mfArgs = (if args = [] then [] else split_on (CHR '','') args)\<rparr>))"

text \<open>The loop over the lines of a file; \<open>cur\<close> are the macros since the last method.\<close>

fun scan_macros :: "macro_func list \<Rightarrow> string list \<Rightarrow> macro list" where
  "scan_macros cur [] = []"
| "scan_macros cur (v # vs) =
     (if prefix ''// #'' v
      then scan_macros (case match_macro v of None \<Rightarrow> cur | Some m \<Rightarrow> cur @ [new_func m]) vs
      else if cur \<noteq> [] \<and> (prefix ''func'' v \<or> prefix ''type'' v)
      then \<lparr>maFuncs = cur, maMethod = new_method v\<rparr> # scan_macros [] vs
      else scan_macros cur vs)"

definition file_macros :: "string \<Rightarrow> macro list" where
  "file_macros content = scan_macros [] (read_lines content)"

section \<open>Checking and generating\<close>

text \<open>\<open>Arg0\<close> of a macro is its first argument, or empty.\<close>

definition Arg0 :: "macro_func \<Rightarrow> string" where
  "Arg0 f = (case mfArgs f of [] \<Rightarrow> [] | a # _ \<Rightarrow> a)"

definition Check :: "macro_func \<Rightarrow> macro_method \<Rightarrow> bool" where
  "Check f m =
     (length (mfArgs f) = 1 \<and>
      (if Arg0 f = ''send'' then length (mtReturns m) = 1 \<and> arType (mtReturns m ! 0) = ''error''
       else if Arg0 f = ''call''
       then mtArgs m \<noteq> [] \<and> arType (mtArgs m ! 0) = ''context.Context'' \<and> mtReturns m \<noteq> []
         \<and> arType (last (mtReturns m)) = ''error''
       else False))"

definition tabs :: "nat \<Rightarrow> string \<Rightarrow> string" where
  "tabs n s = replicate n (CHR 0x09) @ s"

definition quoted :: "string \<Rightarrow> string" where
  "quoted s = [CHR 0x22] @ s @ [CHR 0x22]"

text \<open>The lines of the template, with their parts.\<close>

definition argument_lines :: "bool \<Rightarrow> macro_method \<Rightarrow> string list" where
  "argument_lines call m =
     (let rt = mtReceiverType m; mn = mtMethodName m; rn = mtReceiverName m;
          field = (\<lambda>a. tabs 1 (arName a @ '' '' @ arPtr a @ arType a)) in
      [''type '' @ rt @ mn @ ''Argument struct {'', tabs 1 (rn @ '' '' @ mtReceiverPtr m @ rt)]
      @ map field (mtArgs m) @ map field (mtReturns m)
      @ (if call then [tabs 1 (''__caller__ chan*'' @ rt @ mn @ ''Argument'')] else [])
      @ [''}'', []])"

definition next_lines :: "bool \<Rightarrow> macro_method \<Rightarrow> string list" where
  "next_lines call m =
     [''func (__arg__ *'' @ mtReceiverType m @ mtMethodName m @ ''Argument) Next() {'',
      tabs 1 (JoinArgs ''__arg__.'' (mtReturns m) @ '' = __arg__.'' @ mtReceiverName m @ ''.'' @ mtMethodName m
        @ ''('' @ JoinArgs ''__arg__.'' (mtArgs m) @ '')'')]
     @ (if call then [tabs 1 ''__arg__.__caller__ <- __arg__''] else [])
     @ [''}'', []]"

definition wait_lines :: "macro_method \<Rightarrow> string list" where
  "wait_lines m =
     (let resp = JoinArgs ''resp.'' (mtReturns m); ctx = arName (mtArgs m ! 0);
          head = concat (map (\<lambda>a. '' __arg__.'' @ arName a @ '','') (butlast (mtReturns m))) in
      [tabs 1 ''if __options__.TimeOut != 0 {'',
       tabs 2 ''__timer__ := time.NewTimer(__options__.TimeOut)'', tabs 2 ''defer __timer__.Stop()'',
       tabs 2 ''select {'', tabs 2 ''case resp :=<-__arg__.__caller__:'', tabs 3 (''return '' @ resp),
       tabs 2 (''case <-'' @ ctx @ ''.Done():''), tabs 3 (''return'' @ head @ '' '' @ ctx @ ''.Err()''),
       tabs 2 ''case <-__timer__.C:'',
       tabs 1 (''        log.Errorw('' @ quoted ''actor call time out'' @ '', '' @ quoted ''func'' @ '', ''
         @ quoted (mtDeclaration m) @ '')''),
       tabs 3 (''return'' @ head @ '' errors.ErrActorCallTimeOut''),
       tabs 2 ''}'', tabs 1 ''} else {'', tabs 2 ''select {'',
       tabs 2 ''case resp :=<-__arg__.__caller__:'', tabs 3 (''return '' @ resp),
       tabs 2 (''case <-'' @ ctx @ ''.Done():''), tabs 3 (''return'' @ head @ '' '' @ ctx @ ''.Err()''),
       tabs 2 ''}'', tabs 1 ''}''])"

definition call_lines :: "bool \<Rightarrow> macro_method \<Rightarrow> string list" where
  "call_lines call m =
     (let rt = mtReceiverType m; mn = mtMethodName m; rn = mtReceiverName m in
      [''func ('' @ rn @ '' '' @ mtReceiverPtr m @ rt @ '') Call_'' @ mn @ '' ('' @ JoinArgsWithType (mtArgs m)
         @ '', opts ...actor.CallOption) ('' @ JoinArgsWithType (mtReturns m) @ ''){'',
       tabs 1 ''var __options__ actor.CallOptions'', tabs 1 ''for _, v := range opts {'',
       tabs 2 ''v.Config(&__options__)'' @ [CHR 0x09], tabs 1 ''}'',
       tabs 1 (''__arg__ := &'' @ rt @ mn @ ''Argument {''), tabs 2 (rn @ '': '' @ rn @ '','')]
      @ map (\<lambda>a. tabs 2 (arName a @ '': '' @ arName a @ '','')) (mtArgs m)
      @ (if call then [tabs 2 (''__caller__: make(chan*'' @ rt @ mn @ ''Argument),'')] else [])
      @ [tabs 1 ''}'', tabs 1 (rn @ ''.Inbox() <- __arg__'')]
      @ (if call then wait_lines m else [tabs 1 ''return nil''])
      @ [''}'', [], [], [], [CHR 0x09]])"

text \<open>Each line of the template follows a newline.\<close>

definition text_of :: "string list \<Rightarrow> string" where
  "text_of ls = concat (map (\<lambda>l. CHR 0x0A # l) ls)"

definition Gen_lines :: "macro_func \<Rightarrow> macro_method \<Rightarrow> string list" where
  "Gen_lines f m =
     (let call = (Arg0 f = ''call'') in argument_lines call m @ next_lines call m @ call_lines call m)"

text \<open>
  The macros of a method, in order: names other than \<open>actor\<close> are skipped, a macro that is refused ends
  the run. A macro without a method is skipped.
\<close>

fun gen_funcs :: "macro_method \<Rightarrow> macro_func list \<Rightarrow> string option" where
  "gen_funcs m [] = Some []"
| "gen_funcs m (f # fs) =
     (if mfName f \<noteq> ''actor'' then gen_funcs m fs
      else if Check f m then map_option (\<lambda>t. text_of (Gen_lines f m) @ t) (gen_funcs m fs) else None)"

definition gen_macro :: "macro \<Rightarrow> string option" where
  "gen_macro ma = (case maMethod ma of None \<Rightarrow> Some [] | Some m \<Rightarrow> gen_funcs m (maFuncs ma))"

section \<open>Writing the files\<close>

definition marker_text :: string where
  "marker_text = map char_of
    [229, 174, 143, 229, 177, 149, 229, 188, 128, 231, 154, 132, 229, 156, 176, 230, 150, 185, 239,
     188, 140, 228, 184, 141, 232, 166, 129, 229, 156, 168, 230, 150, 135, 228, 187, 182, 230, 156,
     171, 229, 176, 190, 230, 183, 187, 229, 138, 160, 228, 187, 163, 231, 160, 129 :: nat]"

definition open_marker :: string where
  "open_marker = [CHR 0x0A] @ ''/// '' @ marker_text @ ''============''"

definition close_marker :: string where
  "close_marker = [CHR 0x0A] @ ''/// ============='' @ marker_text @ ''============''"

text \<open>\<open>bytes.Index\<close>: where the first occurrence begins.\<close>

fun find_sub :: "string \<Rightarrow> string \<Rightarrow> nat option" where
  "find_sub p [] = (if p = [] then Some 0 else None)"
| "find_sub p (c # s) = (if prefix p (c # s) then Some 0 else map_option Suc (find_sub p s))"

definition cut_marker :: "string \<Rightarrow> string" where
  "cut_marker content = (case find_sub open_marker content of None \<Rightarrow> content | Some i \<Rightarrow> take i content)"

definition first_code :: string where "first_code = ''// afafa'' @ [CHR 0x0A]"

datatype gen_error = TemplateError | CheckError

type_synonym files = "string \<Rightarrow> string"

definition append_file :: "string \<Rightarrow> string \<Rightarrow> files \<Rightarrow> files" where
  "append_file path t fs = fs(path := fs path @ t)"

text \<open>The loop over the macros of all files, in order.\<close>

fun gen_macros :: "(string \<times> macro) list \<Rightarrow> files \<Rightarrow> files \<times> gen_error option" where
  "gen_macros [] fs = (fs, None)"
| "gen_macros ((path, ma) # ms) fs =
     (case gen_macro ma of
        None \<Rightarrow> (fs, Some CheckError)
      | Some t \<Rightarrow> gen_macros ms (append_file path t fs))"

text \<open>
  \<open>Gen\<close> over the Go files \<open>paths\<close>. The template that is written after the marker is the package's
  \<open>code\<close>, which the generator of the macro \<open>actor\<close> overwrites: after that it needs functions that this
  parse does not have.
\<close>

definition Gen :: "bool \<Rightarrow> string list \<Rightarrow> files \<Rightarrow> files \<times> gen_error option" where
  "Gen overwritten paths fs =
     (let ms = concat (map (\<lambda>p. map (Pair p) (file_macros (fs p))) paths);
          used = filter (\<lambda>p. file_macros (fs p) \<noteq> []) paths;
          fs1 = (\<lambda>p. if p \<in> set used then cut_marker (fs p) @ open_marker else fs p) in
      if overwritten then (fs1, if used = [] then None else Some TemplateError)
      else case gen_macros ms (\<lambda>p. if p \<in> set used then fs1 p @ first_code else fs1 p) of
          (fs2, Some e) \<Rightarrow> (fs2, Some e)
        | (fs2, None) \<Rightarrow> (\<lambda>p. if p \<in> set used then fs2 p @ close_marker else fs2 p, None))"

section \<open>Arguments are read back\<close>

text \<open>Characters of a name or a type: visible, and not one the generator gives a meaning to.\<close>

definition arg_char :: "char \<Rightarrow> bool" where
  "arg_char c \<longleftrightarrow> 33 \<le> (of_char c :: nat) \<and> (of_char c :: nat) \<le> 126 \<and> c \<notin> {CHR '','', CHR ''('', CHR '')''}"

definition arg_ok :: "arg \<Rightarrow> bool" where
  "arg_ok a \<longleftrightarrow> arName a \<noteq> [] \<and> list_all arg_char (arName a) \<and> arType a \<noteq> [] \<and> list_all arg_char (arType a)
     \<and> (arPtr a = [] \<and> hd (arType a) \<noteq> CHR ''*'' \<or> arPtr a = ''*'') \<and> (arIsPtr a \<longleftrightarrow> arPtr a \<noteq> [])"

lemma re_space_code: "re_space c \<Longrightarrow> (of_char c :: nat) < 33"
  by (auto simp: re_space_def)

lemma arg_char_facts:
  assumes "arg_char c"
  shows "\<not> re_space c" "c \<noteq> CHR '',''" "c \<noteq> CHR ''(''" "c \<noteq> CHR '')''" "c \<noteq> CHR 0x0A" "c \<noteq> CHR 0x20"
proof -
  show r: "\<not> re_space c" using assms re_space_code [of c] by (auto simp: arg_char_def)
  show "c \<noteq> CHR '',''" "c \<noteq> CHR ''(''" "c \<noteq> CHR '')''" using assms by (simp_all add: arg_char_def)
  show "c \<noteq> CHR 0x0A" "c \<noteq> CHR 0x20" using r by (auto simp: re_space_def)
qed

lemma skip_space_simps [simp]:
  "skip_space [] = []"
  "skip_space (c # s) = (if re_space c then skip_space s else c # s)"
  by (simp_all add: skip_space_def)

lemma re_space_blank [simp]: "re_space CHR 0x20"
  by (simp add: re_space_def)

lemma re_space_star [simp]: "\<not> re_space CHR ''*''"
  by (simp add: re_space_def)

lemma skip_space_append: "list_all re_space sp \<Longrightarrow> skip_space (sp @ s) = skip_space s"
  by (induction sp) simp_all

lemma skip_space_word: "w = [] \<or> \<not> re_space (hd w) \<Longrightarrow> w \<noteq> [] \<or> s = [] \<or> \<not> re_space (hd s) \<Longrightarrow> skip_space (w @ s) = w @ s"
  by (cases w; cases s) simp_all

lemma match_arg_printed:
  assumes "arg_ok a" and "list_all re_space sp"
  shows "match_arg (sp @ arName a @ '' '' @ arPtr a @ arType a) = Some (arName a, arPtr a, arType a)"
proof -
  let ?w = "Not \<circ> re_space"
  have n: "arName a \<noteq> []" "\<forall>c \<in> set (arName a). ?w c" and t: "arType a \<noteq> []" "\<forall>c \<in> set (arType a). ?w c"
    and p: "arPtr a = [] \<and> hd (arType a) \<noteq> CHR ''*'' \<or> arPtr a = ''*''"
    using assms(1) arg_char_facts(1) by (auto simp: arg_ok_def list_all_iff)
  have s: "skip_space (sp @ arName a @ r) = arName a @ r" for r
    using n assms(2) by (simp add: skip_space_append skip_space_word)
  have w: "takeWhile ?w (arName a @ CHR 0x20 # r) = arName a" "dropWhile ?w (arName a @ CHR 0x20 # r) = CHR 0x20 # r" for r
    using n(2) by simp_all
  have ty: "skip_space (arType a) = arType a" "takeWhile ?w (arType a) = arType a"
    using t skip_space_word [of "arType a" "[]"] by (simp_all add: takeWhile_eq_all_conv)
  have r: "skip_space (CHR 0x20 # arPtr a @ arType a) = arPtr a @ arType a"
    using p ty by (elim disjE) simp_all
  show ?thesis
    using p
  proof
    assume "arPtr a = [] \<and> hd (arType a) \<noteq> CHR ''*''"
    then show ?thesis using n ty r by (simp add: match_arg_def s w Let_def)
  next
    assume "arPtr a = ''*''"
    then show ?thesis using n ty r by (simp add: match_arg_def s w Let_def)
  qed
qed

lemma trim_prefix_None: "b \<noteq> [] \<Longrightarrow> hd b \<notin> hd ` set ss \<Longrightarrow> trim_prefix_of ss b = None"
  by (induction ss) (auto simp: neq_Nil_conv)

lemma trim_left_same:
  assumes "b = [] \<or> hd b \<notin> hd ` set ss"
  shows "trim_left ss b = b"
proof -
  have e: "trim_prefix_of ss [] = None" by (induction ss) auto
  then have "trim_prefix_of ss b = None" using assms trim_prefix_None by (cases "b = []") auto
  then show ?thesis by (subst trim_left.simps) simp
qed

lemma TrimSpace_same:
  assumes "s = [] \<or> arg_char (hd s) \<and> arg_char (last s)"
  shows "TrimSpace s = s"
proof -
  have "\<forall>w \<in> hd ` set go_spaces. unat w < 33 \<or> 126 < unat w" by (simp add: go_spaces_def)
  moreover have "\<forall>w \<in> hd ` set (map rev go_spaces). unat w < 33 \<or> 126 < unat w" by (simp add: go_spaces_def)
  moreover have "33 \<le> unat (word_of_nat (of_char c) :: byte) \<and> unat (word_of_nat (of_char c) :: byte) \<le> 126"
    if "arg_char c" for c
    using that by (simp add: arg_char_def unat_of_nat take_bit_eq_mod)
  ultimately have no: "(word_of_nat (of_char c) :: byte) \<notin> hd ` set go_spaces"
      "(word_of_nat (of_char c) :: byte) \<notin> hd ` set (map rev go_spaces)" if "arg_char c" for c
    using that by (meson leD)+
  have "bytes_of s = [] \<or> hd (bytes_of s) \<notin> hd ` set go_spaces"
    using assms no(1) [of "hd s"] by (cases s) (simp_all add: bytes_of_def)
  then have "trim_left go_spaces (bytes_of s) = bytes_of s" by (rule trim_left_same)
  moreover have "rev (bytes_of s) = [] \<or> hd (rev (bytes_of s)) \<notin> hd ` set (map rev go_spaces)"
    using assms no(2) [of "last s"] by (cases s rule: rev_cases) (simp_all add: bytes_of_def)
  then have "trim_left (map rev go_spaces) (rev (bytes_of s)) = rev (bytes_of s)" by (rule trim_left_same)
  ultimately show ?thesis by (simp add: TrimSpace_def)
qed

definition print_arg :: "arg \<Rightarrow> string" where
  "print_arg a = arName a @ '' '' @ arPtr a @ arType a"

lemma JoinArgsWithType_print: "JoinArgsWithType args = join_with '', '' (map print_arg args)"
  by (simp add: JoinArgsWithType_def print_arg_def [abs_def])

lemma join_first: "join_with sep ((x # w) # ws) = x # join_with sep (w # ws)"
  by (cases ws) simp_all

lemma join_comma_blank:
  "ws \<noteq> [] \<Longrightarrow> join_with '', '' ws = join_with '','' (hd ws # map (\<lambda>w. CHR 0x20 # w) (tl ws))"
proof (induction ws)
  case (Cons w ws)
  then show ?case by (cases ws) (simp_all add: join_Cons join_first)
qed simp

lemma print_arg_facts:
  assumes "arg_ok a"
  shows "print_arg a \<noteq> []" "arg_char (hd (print_arg a))" "arg_char (last (print_arg a))"
    "\<forall>c\<in>set (print_arg a). arg_char c \<or> c = CHR 0x20 \<or> c = CHR ''*''"
  using assms by (auto simp: arg_ok_def print_arg_def list_all_iff)

lemma print_arg_no_comma: "arg_ok a \<Longrightarrow> CHR '','' \<notin> set (print_arg a)"
  using print_arg_facts(4) [of a] arg_char_facts(2) by fastforce

lemma split_printed:
  assumes "args \<noteq> []" and "list_all arg_ok args"
  shows "split_on (CHR '','') (JoinArgsWithType args)
    = print_arg (hd args) # map (\<lambda>a. CHR 0x20 # print_arg a) (tl args)"
proof -
  let ?ws = "print_arg (hd args) # map (\<lambda>a. CHR 0x20 # print_arg a) (tl args)"
  have "JoinArgsWithType args = join_with '','' ?ws"
    using assms(1) by (simp add: JoinArgsWithType_print join_comma_blank hd_map map_tl comp_def)
  moreover have "\<forall>w\<in>set ?ws. CHR '','' \<notin> set w"
    using assms by (cases args) (auto simp: list_all_iff print_arg_no_comma)
  ultimately show ?thesis using split_on_join [of ?ws "CHR '',''"] by simp
qed

lemma match_printed:
  assumes "arg_ok a"
  shows "match_arg (print_arg a) = Some (arName a, arPtr a, arType a)"
    and "match_arg (CHR 0x20 # print_arg a) = Some (arName a, arPtr a, arType a)"
  using match_arg_printed [OF assms, of "[]"] match_arg_printed [OF assms, of "[CHR 0x20]"]
  by (simp_all add: print_arg_def)

lemma new_arg_ok: "arg_ok a \<Longrightarrow> new_arg (arName a, arPtr a, arType a) = a"
  by (simp add: new_arg_def arg_ok_def)

lemma match_all_printed:
  assumes "list_all arg_ok args"
  shows "map new_arg (List.map_filter match_arg (map (\<lambda>a. CHR 0x20 # print_arg a) args)) = args"
  using assms by (induction args) (simp_all add: map_filter_simps match_printed new_arg_ok)

lemma map_index_same: "(\<And>k x. x \<in> set xs \<Longrightarrow> f k x = x) \<Longrightarrow> map_index f n xs = xs"
  by (induction xs arbitrary: n) simp_all

lemma hd_last_join:
  assumes "ws \<noteq> []" and "\<forall>w\<in>set ws. w \<noteq> []"
  shows "hd (join_with sep ws) = hd (hd ws)" "last (join_with sep ws) = last (last ws)" "join_with sep ws \<noteq> []"
proof (use assms in \<open>induction ws\<close>)
  case (Cons w ws)
  { case 1 then show ?case by (cases ws) simp_all }
  { case 2 then show ?case using Cons by (cases ws) simp_all }
  { case 3 then show ?case by (cases ws) simp_all }
qed simp_all

lemma parse_printed_args:
  assumes "list_all arg_ok args"
  shows "parseArgs (JoinArgsWithType args) = args"
proof (cases args)
  case Nil
  then show ?thesis using TrimSpace_same [of "[]"] by (simp add: parseArgs_def JoinArgsWithType_def)
next
  case (Cons a as)
  have ok: "\<forall>w\<in>set (map print_arg args). w \<noteq> []" using assms print_arg_facts(1) by (auto simp: list_all_iff)
  note ends = hd_last_join [of "map print_arg args", OF _ ok]
  have "arg_char (hd (JoinArgsWithType args))" "arg_char (last (JoinArgsWithType args))"
    "JoinArgsWithType args \<noteq> []"
    using assms Cons ends print_arg_facts
    by (simp_all add: JoinArgsWithType_print hd_map last_map list_all_iff del: list.map)
  then have t: "TrimSpace (JoinArgsWithType args) = JoinArgsWithType args" and n: "JoinArgsWithType args \<noteq> []"
    using TrimSpace_same by blast+
  have "map new_arg (List.map_filter match_arg (split_on (CHR '','') (JoinArgsWithType args))) = args"
    using split_printed [OF _ assms] match_all_printed [of as] match_printed(1) [of a] new_arg_ok [of a] assms Cons
    by (simp add: map_filter_simps)
  moreover have "map_index name_arg 0 args = args"
    using assms by (intro map_index_same) (auto simp: name_arg_def arg_ok_def list_all_iff)
  ultimately show ?thesis using t n by (simp add: parseArgs_def)
qed

lemma parse_printed_returns:
  assumes "list_all arg_ok args"
  shows "parseReturns (JoinArgsWithType args) = args"
  using assms by (simp add: parseReturns_def parse_printed_args)
     (intro map_index_same, auto simp: arg_ok_def list_all_iff)

section \<open>Methods are read back\<close>

text \<open>The declaration of a method, as the generator needs it: all arguments and results named.\<close>

definition print_method :: "macro_method \<Rightarrow> string" where
  "print_method m =
     ''func ('' @ mtReceiverName m @ '' '' @ mtReceiverPtr m @ mtReceiverType m @ '') '' @ mtMethodName m
     @ ''('' @ JoinArgsWithType (mtArgs m) @ '') ('' @ JoinArgsWithType (mtReturns m) @ '') {''"

definition word_ok :: "string \<Rightarrow> bool" where
  "word_ok w \<longleftrightarrow> w \<noteq> [] \<and> list_all is_word w"

definition method_ok :: "macro_method \<Rightarrow> bool" where
  "method_ok m \<longleftrightarrow> word_ok (mtReceiverName m) \<and> list_all (\<lambda>c. c = CHR ''*'') (mtReceiverPtr m)
     \<and> word_ok (mtReceiverType m) \<and> word_ok (mtMethodName m) \<and> list_all arg_ok (mtArgs m)
     \<and> list_all arg_ok (mtReturns m)"

lemma word_ok_split:
  assumes "word_ok w" and "\<not> is_word c"
  shows "takeWhile is_word (w @ c # s) = w" "dropWhile is_word (w @ c # s) = c # s"
  using assms by (auto simp: word_ok_def list_all_iff)

lemma word_ok_no_space: "word_ok w \<Longrightarrow> skip_space (w @ s) = w @ s"
proof -
  assume w: "word_ok w"
  then have "is_word (hd w)" "w \<noteq> []" by (cases w; simp add: word_ok_def)+
  then have "\<not> re_space (hd w)" by (auto simp: is_word_def is_digit_def re_space_def)
  then show ?thesis using \<open>w \<noteq> []\<close> by (simp add: skip_space_word)
qed

lemma chars_not_in_join:
  assumes "\<forall>w\<in>set ws. c \<notin> set w" and "c \<notin> set sep"
  shows "c \<notin> set (join_with sep ws)"
  using assms by (induction sep ws rule: join_with.induct) simp_all

lemma printed_chars:
  assumes "list_all arg_ok args"
  shows "CHR '')'' \<notin> set (JoinArgsWithType args)" "CHR ''('' \<notin> set (JoinArgsWithType args)"
    "CHR 0x0A \<notin> set (JoinArgsWithType args)"
proof -
  have c: "\<not> arg_char CHR '')''" "\<not> arg_char CHR ''(''" "\<not> arg_char CHR 0x0A"
    using arg_char_facts(3-5) by blast+
  have p: "\<forall>w\<in>set (map print_arg args). CHR '')'' \<notin> set w \<and> CHR ''('' \<notin> set w \<and> CHR 0x0A \<notin> set w"
  proof
    fix w assume "w \<in> set (map print_arg args)"
    then obtain a where a: "w = print_arg a" "arg_ok a" using assms by (auto simp: list_all_iff)
    note in_w = bspec [OF print_arg_facts(4) [OF a(2)]]
    show "CHR '')'' \<notin> set w \<and> CHR ''('' \<notin> set w \<and> CHR 0x0A \<notin> set w"
      using c in_w [of "CHR '')''"] in_w [of "CHR ''(''"] in_w [of "CHR 0x0A"] a(1) by auto
  qed
  show "CHR '')'' \<notin> set (JoinArgsWithType args)" "CHR ''('' \<notin> set (JoinArgsWithType args)"
    "CHR 0x0A \<notin> set (JoinArgsWithType args)"
    unfolding JoinArgsWithType_print by (rule chars_not_in_join; use p in simp)+
qed

lemma take_until:
  assumes "c \<notin> set w"
  shows "takeWhile (\<lambda>x. x \<noteq> c) (w @ c # s) = w" "dropWhile (\<lambda>x. x \<noteq> c) (w @ c # s) = c # s"
  using assms by (induction w) auto

lemma take_stars:
  assumes "list_all (\<lambda>x. x = c) w" and "s \<noteq> []" "hd s \<noteq> c"
  shows "takeWhile (\<lambda>x. x = c) (w @ s) = w" "dropWhile (\<lambda>x. x = c) (w @ s) = s"
  using assms by (induction w) (auto simp: neq_Nil_conv)

lemma match_results_printed:
  assumes "list_all arg_ok rets"
  shows "match_results ('' ('' @ JoinArgsWithType rets @ '') {'') = Some (JoinArgsWithType rets)"
proof -
  let ?r = "JoinArgsWithType rets"
  have r: "?r = [] \<or> (hd ?r \<noteq> CHR ''('' \<and> last ?r \<noteq> CHR '')'')"
    using printed_chars(1,2) [OF assms] hd_in_set last_in_set by metis
  have "dropWhile (\<lambda>c. c = CHR ''('') (?r @ '') {'') = ?r @ '') {''"
    using r by (cases ?r) simp_all
  moreover have "dropWhile (\<lambda>c. c = CHR '')'') (rev ?r) = rev ?r"
    using r by (cases ?r rule: rev_cases) simp_all
  moreover have "\<not> re_space CHR '')''" "\<not> re_space CHR ''(''" by (simp_all add: re_space_def)
  ultimately show ?thesis by (simp add: match_results_def butlast_append)
qed

lemma match_func_printed:
  assumes "method_ok m"
  shows "match_func (print_method m) = Some (mtReceiverName m, mtReceiverPtr m, mtReceiverType m,
      mtMethodName m, JoinArgsWithType (mtArgs m), JoinArgsWithType (mtReturns m))"
proof -
  have w: "word_ok (mtReceiverName m)" "word_ok (mtReceiverType m)" "word_ok (mtMethodName m)"
    and a: "list_all arg_ok (mtArgs m)" and r: "list_all arg_ok (mtReturns m)"
    and p: "list_all (\<lambda>c. c = CHR ''*'') (mtReceiverPtr m)"
    using assms by (simp_all add: method_ok_def)
  have c: "\<not> is_word CHR 0x20" "\<not> is_word CHR '')''" "\<not> is_word CHR ''(''" "\<not> re_space CHR ''(''"
    by (simp_all add: is_word_def is_digit_def re_space_def)
  have star: "\<not> is_word CHR ''*''" by (simp add: is_word_def is_digit_def)
  have rt: "mtReceiverType m \<noteq> []" "hd (mtReceiverType m) \<noteq> CHR ''*''"
    using w(2) star by (auto simp: word_ok_def neq_Nil_conv)
  have ptr: "takeWhile (\<lambda>x. x = CHR ''*'') (mtReceiverPtr m @ mtReceiverType m @ s) = mtReceiverPtr m"
      "dropWhile (\<lambda>x. x = CHR ''*'') (mtReceiverPtr m @ mtReceiverType m @ s) = mtReceiverType m @ s" for s
    using take_stars [OF p, of "mtReceiverType m @ s"] rt by simp_all
  have sp: "skip_space (mtReceiverPtr m @ mtReceiverType m @ s) = mtReceiverPtr m @ mtReceiverType m @ s" for s
    using p word_ok_no_space [OF w(2)] by (cases "mtReceiverPtr m") simp_all
  have args: "takeWhile (\<lambda>x. x \<noteq> CHR '')'') (JoinArgsWithType (mtArgs m) @ CHR '')'' # s) = JoinArgsWithType (mtArgs m)"
      "dropWhile (\<lambda>x. x \<noteq> CHR '')'') (JoinArgsWithType (mtArgs m) @ CHR '')'' # s) = CHR '')'' # s" for s
    using take_until [OF printed_chars(1) [OF a]] by blast+
  have ne: "mtReceiverName m \<noteq> []" "mtMethodName m \<noteq> []" using w by (simp_all add: word_ok_def)
  define x6 where "x6 = '' ('' @ JoinArgsWithType (mtReturns m) @ '') {''"
  define x5 where "x5 = JoinArgsWithType (mtArgs m) @ CHR '')'' # x6"
  define x3 where "x3 = mtMethodName m @ CHR ''('' # x5"
  define x2 where "x2 = mtReceiverPtr m @ mtReceiverType m @ CHR '')'' # CHR 0x20 # x3"
  define x1 where "x1 = mtReceiverName m @ CHR 0x20 # x2"
  have v: "print_method m = ''func'' @ CHR 0x20 # CHR ''('' # x1"
    by (simp add: print_method_def x1_def x2_def x3_def x5_def x6_def)
  have x1: "takeWhile is_word x1 = mtReceiverName m" "dropWhile is_word x1 = CHR 0x20 # x2"
    using word_ok_split [OF w(1) c(1)] by (simp_all add: x1_def)
  have x2: "skip_space (CHR 0x20 # x2) = x2" using sp by (simp add: x2_def)
  have x2p: "takeWhile (\<lambda>x. x = CHR ''*'') x2 = mtReceiverPtr m"
      "dropWhile (\<lambda>x. x = CHR ''*'') x2 = mtReceiverType m @ CHR '')'' # CHR 0x20 # x3"
    using ptr by (simp_all add: x2_def)
  have x2t: "takeWhile is_word (mtReceiverType m @ CHR '')'' # CHR 0x20 # x3) = mtReceiverType m"
      "dropWhile is_word (mtReceiverType m @ CHR '')'' # CHR 0x20 # x3) = CHR '')'' # CHR 0x20 # x3"
    using word_ok_split [OF w(2) c(2)] by simp_all
  have x3: "skip_space (CHR 0x20 # x3) = x3" using word_ok_no_space [OF w(3)] by (simp add: x3_def)
  have x3w: "takeWhile is_word x3 = mtMethodName m" "dropWhile is_word x3 = CHR ''('' # x5"
    using word_ok_split [OF w(3) c(3)] by (simp_all add: x3_def)
  have x5: "takeWhile (\<lambda>x. x \<noteq> CHR '')'') x5 = JoinArgsWithType (mtArgs m)"
      "dropWhile (\<lambda>x. x \<noteq> CHR '')'') x5 = CHR '')'' # x6"
    using args by (simp_all add: x5_def)
  have d: "drop 4 (''func'' @ s) = s" "prefix ''func'' (''func'' @ s)" for s by simp_all
  have b: "skip_space (CHR 0x20 # CHR ''('' # x1) = CHR ''('' # x1" using c(4) by simp
  have more: "CHR 0x20 # x2 \<noteq> x2" "CHR 0x20 # x3 \<noteq> x3" "CHR 0x20 # CHR ''('' # x1 \<noteq> CHR ''('' # x1" by simp_all
  show ?thesis
    unfolding v match_func_def Let_def d b list.sel x1 x2 x2p x2t x3 x3w x5
    using match_results_printed [OF r] ne rt(1) more by (simp add: x6_def)
qed

lemma method_read_back:
  assumes "method_ok m"
  shows "new_method (print_method m) = Some (m\<lparr>mtDeclaration := replace_first ''{'' [] (print_method m)\<rparr>)"
  using assms parse_printed_args parse_printed_returns
  by (simp add: new_method_def match_func_printed method_ok_def)

section \<open>Lines\<close>

lemma split_on_append: "split_on c (s @ c # t) = split_on c s @ split_on c t"
proof (induction s)
  case (Cons x s)
  then show ?case by (cases "split_on c s") simp_all
qed simp

lemma split_text_of:
  assumes "CHR 0x0A \<notin> set w" and "\<forall>l\<in>set ls. CHR 0x0A \<notin> set l"
  shows "split_on (CHR 0x0A) (w @ text_of ls) = w # ls"
  using assms
proof (induction ls arbitrary: w)
  case Nil
  then show ?case by (simp add: text_of_def split_on_no_sep)
next
  case (Cons l ls)
  then have "split_on (CHR 0x0A) (l @ text_of ls) = l # ls" by simp
  then show ?case using Cons.prems by (simp add: text_of_def split_on_append_sep)
qed

lemma short_pieces: "length l < line_buffer \<Longrightarrow> line_pieces b l = (if b then [drop_cr l] else if l = [] then [] else [l])"
  by (subst line_pieces.simps) simp

text \<open>The last line, with an end and without.\<close>

lemma pieces_ended:
  "(l = [] \<or> last l \<noteq> CHR 0x0D) \<Longrightarrow>
     line_pieces True l = line_pieces False l \<or> line_pieces True l = line_pieces False l @ [[]]"
proof (induction True l rule: line_pieces.induct)
  case (1 l)
  show ?case
  proof (cases "length l < line_buffer")
    case True
    then show ?thesis using "1.prems" by (cases "l = []") (auto simp: short_pieces drop_cr_def)
  next
    case False
    have d: "drop n l = [] \<or> last (drop n l) \<noteq> CHR 0x0D" for n
      using "1.prems" by (cases "length l \<le> n") auto
    note IH = "1.hyps" [OF False]
    show ?thesis
    proof (cases "last (take line_buffer l) = CHR 0x0D")
      case True
      then show ?thesis using IH(1) [OF True] False d [of "line_buffer - 1"]
        by (auto simp: line_pieces.simps [of True l] line_pieces.simps [of False l])
    next
      case nocr: False
      then show ?thesis using IH(2) [OF nocr] False d [of line_buffer]
        by (auto simp: line_pieces.simps [of True l] line_pieces.simps [of False l])
    qed
  qed
qed

lemma read_lines_append:
  "read_lines (b @ CHR 0x0A # r) = concat (map (line_pieces True) (split_on (CHR 0x0A) b)) @ read_lines r"
proof -
  have "butlast (xs @ split_on (CHR 0x0A) r) = xs @ butlast (split_on (CHR 0x0A) r)"
      "last (xs @ split_on (CHR 0x0A) r) = last (split_on (CHR 0x0A) r)" for xs
    by (simp_all add: butlast_append)
  then show ?thesis unfolding read_lines_def Let_def split_on_append by simp
qed

lemma concat_map_last: "xs \<noteq> [] \<Longrightarrow> concat (map f xs) = concat (map f (butlast xs)) @ f (last xs)"
  by (cases xs rule: rev_cases) simp_all

lemma last_split: "last (split_on c s) = [] \<or> s \<noteq> [] \<and> last (last (split_on c s)) = last s"
proof (induction s)
  case (Cons x s)
  have "split_on c s = [[]] \<Longrightarrow> s = []" using join_split_on [of c s] by simp
  then show ?case using Cons by (cases "split_on c s") (auto split: if_splits)
qed simp

text \<open>Reading a file to whose end another line was added.\<close>

lemma read_lines_more:
  assumes "b = [] \<or> last b \<noteq> CHR 0x0D"
  shows "read_lines (b @ CHR 0x0A # r) = read_lines b @ read_lines r
    \<or> read_lines (b @ CHR 0x0A # r) = read_lines b @ [[]] @ read_lines r"
proof -
  let ?l = "last (split_on (CHR 0x0A) b)"
  have "?l = [] \<or> last ?l \<noteq> CHR 0x0D" using assms last_split [of "CHR 0x0A" b] by auto
  moreover have "read_lines b = concat (map (line_pieces True) (butlast (split_on (CHR 0x0A) b))) @ line_pieces False ?l"
    by (simp add: read_lines_def Let_def)
  moreover have "concat (map (line_pieces True) (split_on (CHR 0x0A) b)) =
      concat (map (line_pieces True) (butlast (split_on (CHR 0x0A) b))) @ line_pieces True ?l"
    by (rule concat_map_last) simp
  ultimately show ?thesis using pieces_ended [of ?l] unfolding read_lines_append by auto
qed

section \<open>Scanning what was generated\<close>

text \<open>The macros that still wait for a method.\<close>

fun pending_macros :: "macro_func list \<Rightarrow> string list \<Rightarrow> macro_func list" where
  "pending_macros cur [] = cur"
| "pending_macros cur (v # vs) =
     (if prefix ''// #'' v
      then pending_macros (case match_macro v of None \<Rightarrow> cur | Some m \<Rightarrow> cur @ [new_func m]) vs
      else if cur \<noteq> [] \<and> (prefix ''func'' v \<or> prefix ''type'' v) then pending_macros [] vs
      else pending_macros cur vs)"

lemma scan_append: "scan_macros cur (xs @ ys) = scan_macros cur xs @ scan_macros (pending_macros cur xs) ys"
  by (induction cur xs rule: scan_macros.induct) simp_all

lemma scan_nothing: "\<forall>v\<in>set vs. \<not> prefix ''// #'' v \<Longrightarrow> scan_macros [] vs = []"
  by (induction vs) simp_all

lemma tabs_not_macro: "0 < n \<Longrightarrow> \<not> prefix ''// #'' (tabs n s)"
  by (cases n) (simp_all add: tabs_def)

lemma Gen_lines_no_macro: "\<forall>l\<in>set (Gen_lines f m). \<not> prefix ''// #'' l"
proof -
  have "\<forall>l\<in>set (argument_lines call m). \<not> prefix ''// #'' l" for call
    by (auto simp: argument_lines_def Let_def tabs_not_macro)
  moreover have "\<forall>l\<in>set (next_lines call m). \<not> prefix ''// #'' l" for call
    by (auto simp: next_lines_def tabs_not_macro)
  moreover have "\<forall>l\<in>set (wait_lines m). \<not> prefix ''// #'' l"
    by (auto simp: wait_lines_def Let_def tabs_not_macro)
  then have "\<forall>l\<in>set (call_lines call m). \<not> prefix ''// #'' l" for call
    by (auto simp: call_lines_def Let_def tabs_not_macro)
  ultimately show ?thesis by (auto simp: Gen_lines_def Let_def)
qed

section \<open>Generated lines hold no newline\<close>

definition nl_free :: "string \<Rightarrow> bool" where "nl_free s \<longleftrightarrow> CHR 0x0A \<notin> set s"

definition arg_nl_free :: "arg \<Rightarrow> bool" where
  "arg_nl_free a \<longleftrightarrow> nl_free (arName a) \<and> nl_free (arPtr a) \<and> nl_free (arType a)"

definition method_nl_free :: "macro_method \<Rightarrow> bool" where
  "method_nl_free m \<longleftrightarrow> nl_free (mtDeclaration m) \<and> nl_free (mtReceiverName m) \<and> nl_free (mtReceiverPtr m)
     \<and> nl_free (mtReceiverType m) \<and> nl_free (mtMethodName m)
     \<and> list_all arg_nl_free (mtArgs m) \<and> list_all arg_nl_free (mtReturns m)"

lemma nl_free_simps [simp]:
  "nl_free []" "nl_free (c # s) \<longleftrightarrow> c \<noteq> CHR 0x0A \<and> nl_free s" "nl_free (s @ t) \<longleftrightarrow> nl_free s \<and> nl_free t"
  "nl_free (rev s) \<longleftrightarrow> nl_free s"
  by (auto simp: nl_free_def)

lemma nl_free_sub: "nl_free s \<Longrightarrow> set t \<subseteq> set s \<Longrightarrow> nl_free t"
  by (auto simp: nl_free_def)

lemma nl_free_parts:
  assumes "nl_free s"
  shows "nl_free (takeWhile P s)" "nl_free (dropWhile P s)" "nl_free (tl s)" "nl_free (drop n s)"
    "nl_free (skip_space s)" "nl_free (butlast s)"
proof -
  show "nl_free (tl s)" using assms by (cases s) simp_all
qed (use assms in \<open>auto intro: nl_free_sub simp: skip_space_def
      dest: set_takeWhileD set_dropWhileD in_set_dropD in_set_butlastD\<close>)

lemma nl_free_join: "\<forall>w\<in>set ws. nl_free w \<Longrightarrow> nl_free sep \<Longrightarrow> nl_free (join_with sep ws)"
  unfolding nl_free_def by (rule chars_not_in_join)

lemma nl_free_concat: "\<forall>w\<in>set ws. nl_free w \<Longrightarrow> nl_free (concat ws)"
  by (auto simp: nl_free_def)

lemma nl_free_fmt: "nl_free (fmt_int i)"
proof -
  have "\<not> is_digit CHR 0x0A" by (simp add: is_digit_def)
  then show ?thesis using fmt_int_chars [of "CHR 0x0A" i] by (auto simp: nl_free_def)
qed

lemma nl_free_replace: "nl_free s \<Longrightarrow> nl_free new \<Longrightarrow> nl_free (replace_first old new s)"
proof (induction s)
  case (Cons c s)
  then show ?case using nl_free_parts(4) [OF Cons.prems(1), of "length old"] by (auto split: if_splits)
qed simp

lemma set_trim_left: "set (trim_left ss b) \<subseteq> set b"
proof (induction ss b rule: trim_left.induct)
  case (1 ss b)
  show ?case
  proof (cases "trim_prefix_of ss b")
    case None
    then show ?thesis by (subst trim_left.simps) simp
  next
    case (Some c)
    have "trim_prefix_of ts b = Some c \<Longrightarrow> set c \<subseteq> set b" for ts
      by (induction ts) (auto split: if_splits dest: in_set_dropD)
    then show ?thesis using 1 Some by (subst trim_left.simps) auto
  qed
qed

lemma set_TrimSpace: "set (TrimSpace s) \<subseteq> set s"
proof -
  have "set (trim_left (map rev go_spaces) (rev (trim_left go_spaces (bytes_of s)))) \<subseteq> set (bytes_of s)"
    using set_trim_left [of "map rev go_spaces"] set_trim_left [of go_spaces "bytes_of s"] by fastforce
  then have "set (TrimSpace s) \<subseteq> set (string_of (bytes_of s))" by (auto simp: TrimSpace_def string_of_def)
  then show ?thesis by simp
qed

lemma set_split_piece: "w \<in> set (split_on c s) \<Longrightarrow> set w \<subseteq> set s"
proof (induction s arbitrary: w)
  case (Cons x s)
  then show ?case by (cases "split_on c s") (auto split: if_splits, fastforce+)
qed simp

lemma in_map_index: "y \<in> set (map_index f n xs) \<Longrightarrow> \<exists>k. \<exists>x\<in>set xs. y = f k x"
  by (induction xs arbitrary: n) (auto, blast)

lemma match_arg_nl_free:
  assumes "match_arg v = Some (name, ptr, typ)" and "nl_free v"
  shows "nl_free name \<and> nl_free ptr \<and> nl_free typ"
  using assms by (auto simp: match_arg_def Let_def nl_free_parts split: if_splits)

lemma parseArgs_nl_free:
  assumes "nl_free line"
  shows "list_all arg_nl_free (parseArgs line)"
proof -
  have l: "nl_free (TrimSpace line)" using nl_free_sub [OF assms set_TrimSpace] .
  have "arg_nl_free (new_arg x)" if "x \<in> set (List.map_filter match_arg (split_on c (TrimSpace line)))" for x c
  proof -
    from that obtain v where v: "v \<in> set (split_on c (TrimSpace line))" "match_arg v = Some x"
      by (auto simp: map_filter_def)
    then have "nl_free v" using set_split_piece nl_free_sub l by blast
    then show ?thesis using match_arg_nl_free [of v "fst x" "fst (snd x)" "snd (snd x)"] v
      by (cases x) (simp add: new_arg_def arg_nl_free_def)
  qed
  moreover have "arg_nl_free a \<Longrightarrow> arg_nl_free (name_arg k a)" for k a
    by (simp add: arg_nl_free_def name_arg_def nl_free_fmt)
  ultimately show ?thesis
    by (auto simp: parseArgs_def Let_def list_all_iff dest!: in_map_index)
qed

lemma parseReturns_nl_free:
  assumes "nl_free line"
  shows "list_all arg_nl_free (parseReturns line)"
  using parseArgs_nl_free [OF assms]
  by (auto simp: parseReturns_def list_all_iff arg_nl_free_def nl_free_fmt dest!: in_map_index)

lemma match_results_nl_free: "match_results s = Some r \<Longrightarrow> nl_free s \<Longrightarrow> nl_free r"
  by (auto simp: match_results_def nl_free_parts split: if_splits)

lemma new_method_nl_free:
  assumes "new_method v = Some m" and "nl_free v"
  shows "method_nl_free m"
proof -
  obtain rn ptr rt mn args ret where f: "match_func v = Some (rn, ptr, rt, mn, args, ret)"
    and m: "m = \<lparr>mtDeclaration = replace_first ''{'' [] v, mtReceiverName = rn, mtReceiverPtr = ptr,
      mtReceiverType = rt, mtMethodName = mn, mtArgs = parseArgs args, mtReturns = parseReturns ret\<rparr>"
    using assms(1) by (auto simp: new_method_def split: option.splits)
  have "nl_free rn \<and> nl_free ptr \<and> nl_free rt \<and> nl_free mn \<and> nl_free args \<and> nl_free ret"
    using f assms(2)
    by (auto simp: match_func_def Let_def nl_free_parts match_results_nl_free split: if_splits)
  then show ?thesis
    using assms(2) by (simp add: m method_nl_free_def nl_free_replace parseArgs_nl_free parseReturns_nl_free)
qed

lemma JoinArgs_nl_free:
  assumes "list_all arg_nl_free args"
  shows "nl_free pre \<Longrightarrow> nl_free (JoinArgs pre args)" and "nl_free (JoinArgsWithType args)"
  using assms by (auto simp: JoinArgs_def JoinArgsWithType_def list_all_iff arg_nl_free_def intro!: nl_free_join)

lemma tabs_nl_free [simp]: "nl_free (tabs n s) \<longleftrightarrow> nl_free s"
  by (auto simp: tabs_def nl_free_def)

lemma quoted_nl_free [simp]: "nl_free (quoted s) \<longleftrightarrow> nl_free s"
  by (simp add: quoted_def)

lemma Gen_lines_nl_free:
  assumes m: "method_nl_free m" and c: "Check f m"
  shows "\<forall>l\<in>set (Gen_lines f m). nl_free l"
proof -
  note F = m [unfolded method_nl_free_def]
  have a: "nl_free (JoinArgs p (mtArgs m))" "nl_free (JoinArgs p (mtReturns m))" if "nl_free p" for p
    using F JoinArgs_nl_free(1) that by blast+
  have t: "nl_free (JoinArgsWithType (mtArgs m))" "nl_free (JoinArgsWithType (mtReturns m))"
    using F JoinArgs_nl_free(2) by blast+
  have each: "arg_nl_free x" if "x \<in> set (mtArgs m) \<or> x \<in> set (mtReturns m)" for x
    using F that by (auto simp: list_all_iff)
  have "\<forall>l\<in>set (argument_lines call m). nl_free l" for call
    using F each by (auto simp: argument_lines_def Let_def arg_nl_free_def)
  moreover have "\<forall>l\<in>set (next_lines call m). nl_free l" for call
    using F a by (auto simp: next_lines_def)
  moreover have "\<forall>l\<in>set (wait_lines m). nl_free l" if "Arg0 f = ''call''"
  proof -
    have "mtArgs m \<noteq> []" using c that by (auto simp: Check_def)
    then have "nl_free (arName (mtArgs m ! 0))" using each [of "mtArgs m ! 0"] by (simp add: arg_nl_free_def)
    moreover have "nl_free (concat (map (\<lambda>a. '' __arg__.'' @ arName a @ '','') (butlast (mtReturns m))))"
      using each by (intro nl_free_concat) (auto simp: arg_nl_free_def dest: in_set_butlastD)
    ultimately show ?thesis using F a by (auto simp: wait_lines_def Let_def)
  qed
  then have "\<forall>l\<in>set (call_lines (Arg0 f = ''call'') m). nl_free l"
    using F t each by (auto simp: call_lines_def Let_def arg_nl_free_def)
  ultimately show ?thesis by (auto simp: Gen_lines_def Let_def)
qed

section \<open>Generating twice\<close>

lemma set_line_pieces: "p \<in> set (line_pieces b l) \<Longrightarrow> set p \<subseteq> set l"
proof (induction b l arbitrary: p rule: line_pieces.induct)
  case (1 b l)
  have d: "set (drop_cr l) \<subseteq> set l" by (auto simp: drop_cr_def dest: in_set_butlastD)
  show ?case
  proof (cases "length l < line_buffer")
    case True
    then show ?thesis using "1.prems" d by (auto simp: short_pieces split: if_splits)
  next
    case False
    have t: "set (take n l) \<subseteq> set l" "set (drop n l) \<subseteq> set l" "set (butlast (take n l)) \<subseteq> set l" for n
      using set_take_subset set_drop_subset in_set_butlastD by fastforce+
    have "p = butlast (take line_buffer l) \<or> p \<in> set (line_pieces b (drop (line_buffer - 1) l))
        \<and> last (take line_buffer l) = CHR 0x0D
      \<or> p = take line_buffer l \<or> p \<in> set (line_pieces b (drop line_buffer l)) \<and> last (take line_buffer l) \<noteq> CHR 0x0D"
      using "1.prems" False by (subst (asm) line_pieces.simps) (auto split: if_splits)
    then show ?thesis using "1.IH" [OF False] t by blast
  qed
qed

lemma read_lines_nl_free: "l \<in> set (read_lines s) \<Longrightarrow> nl_free l"
proof -
  assume "l \<in> set (read_lines s)"
  then obtain b w where "w \<in> set (split_on (CHR 0x0A) s)" "l \<in> set (line_pieces b w)"
    by (auto simp: read_lines_def Let_def dest: in_set_butlastD)
       (metis last_in_set split_on_not_Nil)
  then show ?thesis using set_line_pieces split_on_pieces by (fastforce simp: nl_free_def)
qed

lemma scan_method_nl_free:
  "\<forall>v\<in>set vs. nl_free v \<Longrightarrow> ma \<in> set (scan_macros cur vs) \<Longrightarrow> maMethod ma = Some m \<Longrightarrow> method_nl_free m"
  by (induction cur vs rule: scan_macros.induct) (auto split: if_splits dest: new_method_nl_free)

text \<open>The lines generated for a method.\<close>

fun funcs_lines :: "macro_method \<Rightarrow> macro_func list \<Rightarrow> string list" where
  "funcs_lines m [] = []"
| "funcs_lines m (f # fs) = (if mfName f \<noteq> ''actor'' then [] else Gen_lines f m) @ funcs_lines m fs"

definition macro_lines :: "macro \<Rightarrow> string list" where
  "macro_lines ma = (case maMethod ma of None \<Rightarrow> [] | Some m \<Rightarrow> funcs_lines m (maFuncs ma))"

lemma text_of_Nil [simp]: "text_of [] = []"
  by (simp add: text_of_def)

lemma text_of_append: "text_of (xs @ ys) = text_of xs @ text_of ys"
  by (simp add: text_of_def)

lemma gen_funcs_lines: "gen_funcs m fs = Some t \<Longrightarrow> t = text_of (funcs_lines m fs)"
  by (induction fs arbitrary: t) (auto simp: text_of_append split: if_splits) 

lemma gen_macro_lines: "gen_macro ma = Some t \<Longrightarrow> t = text_of (macro_lines ma)"
  by (auto simp: gen_macro_def macro_lines_def text_of_def split: option.splits dest: gen_funcs_lines)

lemma funcs_lines_facts:
  assumes "gen_funcs m fs = Some t" and "method_nl_free m"
  shows "\<forall>l\<in>set (funcs_lines m fs). nl_free l \<and> \<not> prefix ''// #'' l"
  using assms(1)
proof (induction fs arbitrary: t)
  case (Cons f fs)
  then show ?case using Gen_lines_nl_free [OF assms(2), of f] Gen_lines_no_macro [of f m]
    by (auto split: if_splits)
qed simp

lemma macro_lines_facts:
  assumes "gen_macro ma = Some t" and "ma \<in> set (file_macros s)"
  shows "\<forall>l\<in>set (macro_lines ma). nl_free l \<and> \<not> prefix ''// #'' l"
proof (cases "maMethod ma")
  case (Some m)
  have "\<forall>v\<in>set (read_lines s). nl_free v" using read_lines_nl_free by blast
  then have "method_nl_free m" using assms(2) Some scan_method_nl_free by (auto simp: file_macros_def)
  then show ?thesis using assms(1) Some funcs_lines_facts by (simp add: gen_macro_def macro_lines_def)
qed (simp add: macro_lines_def)

text \<open>Cutting at the marker.\<close>

lemma find_sub_first:
  assumes "find_sub p b = None" and p: "p = c # q" "c \<notin> set q"
  shows "find_sub p (b @ p @ x) = Some (length b)"
  using assms(1)
proof (induction b)
  case Nil
  then show ?case using p by simp
next
  case (Cons y b)
  have np: "\<not> prefix p (y # b)" and ih: "find_sub p b = None" using Cons.prems by (auto split: if_splits)
  have "\<not> prefix p (y # b @ p @ x)"
  proof
    assume a: "prefix p (y # b @ p @ x)"
    have "prefix (y # b) (y # b @ p @ x)" by simp
    then have "prefix (y # b) p" using a np prefix_same_cases by blast
    then obtain r where r: "p = y # b @ r" by (auto simp: prefix_def)
    then have rn: "r \<noteq> []" using np by (metis append_Nil2 prefix_order.refl)
    obtain z where "y # b @ p @ x = p @ z" using a by (auto simp: prefix_def)
    then have "p @ x = r @ z" using r by simp
    then have "hd r = c" using p rn by (metis hd_append2 list.sel(1) list.distinct(1))
    moreover have "hd r \<in> set q" using r rn p(1) by auto
    ultimately show False using p(2) by blast
  qed
  then show ?case using Cons.IH [OF ih] by simp
qed

lemma marker_text_chars: "CHR 0x0A \<notin> set marker_text"
proof -
  have "\<forall>c\<in>set marker_text. 128 \<le> (of_char c :: nat)" by (simp add: marker_text_def)
  then show ?thesis by fastforce
qed

lemma cut_marker_marked:
  assumes "find_sub open_marker b = None"
  shows "cut_marker b = b" and "cut_marker (b @ open_marker @ x) = b"
proof -
  have "CHR 0x0A \<notin> set (''/// '' @ marker_text @ ''============'')" using marker_text_chars by auto
  then have "find_sub open_marker (b @ open_marker @ x) = Some (length b)"
    using find_sub_first [OF assms, of "CHR 0x0A" "''/// '' @ marker_text @ ''============''"]
    by (simp add: open_marker_def)
  then show "cut_marker b = b" "cut_marker (b @ open_marker @ x) = b" using assms by (simp_all add: cut_marker_def)
qed

text \<open>A file after a run: its text, and the lines of its macros between the markers.\<close>

definition open_line :: string where
  "open_line = ''/// '' @ marker_text @ ''============// afafa''"

definition close_line :: string where
  "close_line = ''/// ============='' @ marker_text @ ''============''"

definition generated :: "string \<Rightarrow> string list \<Rightarrow> string" where
  "generated b ls = b @ CHR 0x0A # open_line @ text_of ([] # ls @ [close_line])"

lemma generated_eq: "b @ open_marker @ first_code @ text_of ls @ close_marker = generated b ls"
proof -
  have "text_of (ls @ [close_line]) = text_of ls @ close_marker"
    by (simp add: text_of_append close_line_def close_marker_def) (simp add: text_of_def)
  then show ?thesis by (simp add: generated_def open_marker_def first_code_def open_line_def text_of_def)
qed

lemma gen_macros_None:
  "gen_macros ms fs = (fs', None) \<longleftrightarrow> (\<forall>x\<in>set ms. gen_macro (snd x) \<noteq> None)
    \<and> fs' = (\<lambda>p. fs p @ text_of (concat (map (macro_lines \<circ> snd) (filter (\<lambda>x. fst x = p) ms))))"
proof (induction ms fs arbitrary: fs' rule: gen_macros.induct)
  case (1 fs)
  then show ?case by auto
next
  case (2 path ma ms fs)
  show ?case
  proof (cases "gen_macro ma")
    case (Some t)
    have "gen_macros ((path, ma) # ms) fs = (fs', None) \<longleftrightarrow> gen_macros ms (append_file path t fs) = (fs', None)"
      using Some by simp
    also note 2 [OF Some]
    finally show ?thesis using Some gen_macro_lines [OF Some] by (auto simp: append_file_def text_of_append fun_eq_iff)
  qed simp
qed

definition file_lines :: "string \<Rightarrow> string list" where
  "file_lines s = concat (map macro_lines (file_macros s))"

lemma filter_file:
  assumes "distinct paths"
  shows "filter (\<lambda>x. fst x = p) (concat (map (\<lambda>p. map (Pair p) (g p)) paths)) =
      (if p \<in> set paths then map (Pair p) (g p) else [])"
  using assms by (induction paths) (auto simp: filter_empty_conv filter_id_conv)

text \<open>What a run that succeeds leaves: the text of each file that uses a macro, marked and followed by its lines.\<close>

lemma Gen_None:
  assumes "distinct paths"
  shows "Gen False paths fs = (fs', None) \<longleftrightarrow>
      (\<forall>p\<in>set paths. \<forall>ma\<in>set (file_macros (fs p)). gen_macro ma \<noteq> None)
      \<and> fs' = (\<lambda>p. if p \<in> set paths \<and> file_macros (fs p) \<noteq> []
               then generated (cut_marker (fs p)) (file_lines (fs p)) else fs p)"
proof -
  let ?ms = "concat (map (\<lambda>p. map (Pair p) (file_macros (fs p))) paths)"
  let ?used = "filter (\<lambda>p. file_macros (fs p) \<noteq> []) paths"
  let ?fs1 = "\<lambda>p. if p \<in> set ?used then (cut_marker (fs p) @ open_marker) @ first_code else fs p"
  let ?fs2 = "\<lambda>p. ?fs1 p @ text_of (concat (map (macro_lines \<circ> snd) (filter (\<lambda>x. fst x = p) ?ms)))"
  have f: "concat (map (macro_lines \<circ> snd) (filter (\<lambda>x. fst x = p) ?ms)) =
      (if p \<in> set paths then file_lines (fs p) else [])" for p
    by (simp add: filter_file [OF assms] file_lines_def comp_def)
  have A: "(\<lambda>p. if p \<in> set ?used then ?fs2 p @ close_marker else ?fs2 p) =
      (\<lambda>p. if p \<in> set paths \<and> file_macros (fs p) \<noteq> []
           then generated (cut_marker (fs p)) (file_lines (fs p)) else fs p)"
    unfolding f by (auto simp: fun_eq_iff file_lines_def generated_eq [symmetric])
  have B: "Gen False paths fs = (fs', None) \<longleftrightarrow>
      (\<exists>fs2. gen_macros ?ms ?fs1 = (fs2, None)
        \<and> fs' = (\<lambda>p. if p \<in> set ?used then fs2 p @ close_marker else fs2 p))"
    by (auto simp: Gen_def Let_def split: prod.splits option.splits cong: if_cong)
  have C: "(\<forall>x\<in>set ?ms. gen_macro (snd x) \<noteq> None) \<longleftrightarrow>
      (\<forall>p\<in>set paths. \<forall>ma\<in>set (file_macros (fs p)). gen_macro ma \<noteq> None)"
    by fastforce
  have "Gen False paths fs = (fs', None) \<longleftrightarrow> (\<forall>x\<in>set ?ms. gen_macro (snd x) \<noteq> None)
      \<and> fs' = (\<lambda>p. if p \<in> set ?used then ?fs2 p @ close_marker else ?fs2 p)"
    unfolding B gen_macros_None by blast
  then show ?thesis by (simp only: A C)
qed

text \<open>
  A source: no marker, no macro after the last method, not ended by a carriage return.
\<close>

definition source_ok :: "string \<Rightarrow> bool" where
  "source_ok b \<longleftrightarrow> find_sub open_marker b = None \<and> pending_macros [] (read_lines b) = []
     \<and> (b = [] \<or> last b \<noteq> CHR 0x0D)"

definition short_lines :: "string \<Rightarrow> bool" where
  "short_lines s \<longleftrightarrow> (\<forall>l\<in>set (split_on (CHR 0x0A) s). length l < line_buffer)"

lemma read_short_lines:
  assumes "short_lines s" and "\<forall>l\<in>set (split_on (CHR 0x0A) s). \<not> prefix ''// #'' l"
  shows "\<forall>l\<in>set (read_lines s). \<not> prefix ''// #'' l"
proof -
  let ?ls = "split_on (CHR 0x0A) s"
  have "l = drop_cr w \<or> l = w" if "w \<in> set ?ls" "l \<in> set (line_pieces b w)" for b l w
    using that assms(1) by (auto simp: short_lines_def short_pieces split: if_splits)
  moreover have "\<not> prefix ''// #'' (drop_cr w)" if "w \<in> set ?ls" for w
    using that assms(2) prefix_order.trans [of "''// #''" "drop_cr w" w]
    by (auto simp: drop_cr_def) (metis append_butlast_last_id prefixI)
  ultimately have np: "\<not> prefix ''// #'' l" if "w \<in> set ?ls" "l \<in> set (line_pieces b w)" for b l w
    using that assms(2) by metis
  have "last ?ls \<in> set ?ls" by simp
  from np [OF this] show ?thesis using np by (auto simp: read_lines_def Let_def dest: in_set_butlastD)
qed

lemma marked_lines:
  assumes "\<forall>l\<in>set ls. nl_free l"
  shows "split_on (CHR 0x0A) (open_line @ text_of ([] # ls @ [close_line])) = open_line # [] # ls @ [close_line]"
  using assms marker_text_chars
  by (intro split_text_of) (auto simp: nl_free_def open_line_def close_line_def)

lemma short_generated:
  assumes "short_lines b" and "\<forall>l\<in>set ls. nl_free l" and "\<forall>l\<in>set ls. length l < line_buffer"
  shows "short_lines (generated b ls)"
  using assms marked_lines [OF assms(2)]
  by (auto simp: short_lines_def generated_def split_on_append open_line_def close_line_def marker_text_def line_buffer_def)

lemma generated_macros:
  assumes "source_ok b" and ls: "\<forall>l\<in>set ls. nl_free l \<and> \<not> prefix ''// #'' l" and "short_lines (generated b ls)"
  shows "file_macros (generated b ls) = file_macros b"
proof -
  let ?r = "open_line @ text_of ([] # ls @ [close_line])"
  have lines: "split_on (CHR 0x0A) ?r = open_line # [] # ls @ [close_line]"
    using ls by (intro marked_lines) blast
  have "short_lines ?r" using assms(3) by (simp add: short_lines_def generated_def split_on_append)
  moreover have "\<forall>l\<in>set (split_on (CHR 0x0A) ?r). \<not> prefix ''// #'' l"
    unfolding lines using ls by (auto simp: open_line_def close_line_def)
  ultimately have "\<forall>l\<in>set (read_lines ?r). \<not> prefix ''// #'' l" by (rule read_short_lines)
  then have none: "scan_macros [] (read_lines ?r) = []" "scan_macros [] ([] # read_lines ?r) = []"
    using scan_nothing by auto
  have "pending_macros [] (read_lines b) = []" using assms(1) by (simp add: source_ok_def)
  then show ?thesis
    using read_lines_more [of b ?r] assms(1) none
    by (auto simp: generated_def file_macros_def scan_append source_ok_def)
qed

section \<open>Properties\<close>

definition source_line :: "string \<Rightarrow> bool" where
  "source_line l \<longleftrightarrow> nl_free l \<and> length l < line_buffer \<and> (l = [] \<or> last l \<noteq> CHR 0x0D)"

lemma read_source_lines:
  assumes "list_all source_line ls"
  shows "read_lines (lines_text ls) = ls"
proof -
  have "split_on (CHR 0x0A) (lines_text ls) = ls @ [[]]"
    using assms by (induction ls) (simp_all add: lines_text_def split_on_append_sep source_line_def nl_free_def)
  moreover have "concat (map (line_pieces True) ls) = ls"
    using assms by (induction ls) (auto simp: source_line_def short_pieces drop_cr_def)
  ultimately show ?thesis by (simp add: read_lines_def short_pieces line_buffer_def)
qed

lemma match_macro_printed:
  assumes "word_ok name" and "CHR '')'' \<notin> set a"
  shows "match_macro (''// #'' @ name @ ''('' @ a @ '')'') = Some (name, a)"
proof -
  have "\<not> is_word CHR ''(''" by (simp add: is_word_def is_digit_def)
  then have "takeWhile is_word (name @ CHR ''('' # a @ '')'') = name"
      "dropWhile is_word (name @ CHR ''('' # a @ '')'') = CHR ''('' # a @ '')''"
    using word_ok_split [OF assms(1)] by blast+
  moreover have "takeWhile (\<lambda>x. x \<noteq> CHR '')'') (a @ '')'') = a" using take_until(1) [OF assms(2), of "[]"] by simp
  ultimately show ?thesis using assms(1) \<open>\<not> is_word CHR ''(''\<close> by (simp add: word_ok_def Let_def)
qed

lemma read_back_fact:
  assumes "method_ok m" and "word_ok name" and "a \<noteq> []" "list_all arg_char a"
    and "list_all source_line (xs @ [''// #'' @ name @ ''('' @ a @ '')'', print_method m] @ ys)"
    and "\<forall>l\<in>set xs \<union> set ys. \<not> prefix ''// #'' l"
  shows "file_macros (lines_text (xs @ [''// #'' @ name @ ''('' @ a @ '')'', print_method m] @ ys))
    = [\<lparr>maFuncs = [\<lparr>mfName = name, mfArgs = [a]\<rparr>],
        maMethod = Some (m\<lparr>mtDeclaration := replace_first ''{'' [] (print_method m)\<rparr>)\<rparr>]"
proof -
  have a: "CHR '')'' \<notin> set a" "CHR '','' \<notin> set a"
    using assms(4) arg_char_facts(2,4) by (auto simp: list_all_iff)
  have "arg_char (hd a) \<and> arg_char (last a)" using assms(3,4) by (simp add: list_all_iff)
  then have "new_func (name, a) = \<lparr>mfName = name, mfArgs = [a]\<rparr>"
    using TrimSpace_same [of a] assms(3) by (simp add: new_func_def split_on_no_sep a)
  moreover have "pending_macros [] xs = []" "scan_macros [] xs = []" "scan_macros [] ys = []"
  proof -
    have "\<forall>l\<in>set zs. \<not> prefix ''// #'' l \<Longrightarrow> pending_macros [] zs = []" for zs by (induction zs) simp_all
    then show "pending_macros [] xs = []" using assms(6) by blast
  qed (use assms(6) scan_nothing in blast)+
  moreover have "prefix ''func'' (print_method m)" "\<not> prefix ''// #'' (print_method m)"
    by (simp_all add: print_method_def)
  ultimately show ?thesis
    using match_macro_printed [OF assms(2) a(1)] method_read_back [OF assms(1)]
    unfolding file_macros_def read_source_lines [OF assms(5)]
    by (simp add: scan_append del: match_macro.simps)
qed

text \<open>
  In a file whose other lines hold no macro, a macro line followed by the declaration of a method
  with named arguments and results is read back as exactly that macro and that method: receiver,
  name, arguments and results with their types and pointers.
\<close>

lemma macro_read_back:
  assumes "method_ok m" and "word_ok name" and "a \<noteq> []" "list_all arg_char a"
    and "list_all source_line (xs @ [''// #'' @ name @ ''('' @ a @ '')'', print_method m] @ ys)"
    and "\<forall>l\<in>set xs \<union> set ys. \<not> prefix ''// #'' l"
  shows "file_macros (lines_text (xs @ [''// #'' @ name @ ''('' @ a @ '')'', print_method m] @ ys))
    = [\<lparr>maFuncs = [\<lparr>mfName = name, mfArgs = [a]\<rparr>],
        maMethod = Some (m\<lparr>mtDeclaration := replace_first ''{'' [] (print_method m)\<rparr>)\<rparr>]"
  using assms by (rule read_back_fact)

definition demo_method :: macro_method where
  "demo_method = \<lparr>mtDeclaration = ''func (self *Room) Join(uid int64) (err error) '', mtReceiverName = ''self'',
     mtReceiverPtr = ''*'', mtReceiverType = ''Room'', mtMethodName = ''Join'',
     mtArgs = [\<lparr>arName = ''uid'', arType = ''int64'', arPtr = [], arIsPtr = False\<rparr>],
     mtReturns = [\<lparr>arName = ''err'', arType = ''error'', arPtr = [], arIsPtr = False\<rparr>]\<rparr>"

definition demo_source :: string where
  "demo_source = lines_text
     [''package room'', ''// #actor(send)'', ''func (self *Room) Join(uid int64) (err error) {'', ''}'']"

lemma demo_method_ok: "method_ok demo_method"
  by code_simp

lemma print_demo_method: "print_method demo_method = ''func (self *Room) Join(uid int64) (err error) {''"
  by code_simp

lemma demo_lines:
  "list_all source_line ([''package room''] @ [''// #'' @ ''actor'' @ ''('' @ ''send'' @ '')'', print_method demo_method] @ [''}''])"
  unfolding print_demo_method by code_simp

lemma demo_words: "word_ok ''actor''" "list_all arg_char ''send''"
  by code_simp+

lemma demo_method_read:
  "demo_method\<lparr>mtDeclaration := replace_first ''{'' [] (print_method demo_method)\<rparr> = demo_method"
  unfolding print_demo_method by (simp add: demo_method_def)

lemma demo_source_eq:
  "demo_source = lines_text
     ([''package room''] @ [''// #'' @ ''actor'' @ ''('' @ ''send'' @ '')'', print_method demo_method] @ [''}''])"
  unfolding print_demo_method by (simp add: demo_source_def)

lemma macro_read_back_witness:
  "file_macros demo_source =
     [\<lparr>maFuncs = [\<lparr>mfName = ''actor'', mfArgs = [''send'']\<rparr>], maMethod = Some demo_method\<rparr>]"
  using macro_read_back [OF demo_method_ok demo_words(1) _ demo_words(2) demo_lines] by (simp add: demo_source_eq demo_method_read)

lemma generated_again:
  assumes "Gen False paths fs = (fs', None)" and "distinct paths"
    and "\<forall>p\<in>set paths. source_ok (fs p)" and "\<forall>p\<in>set paths. short_lines (fs' p)"
  shows "p \<in> set paths \<Longrightarrow> file_macros (fs' p) = file_macros (fs p)"
    and "p \<in> set paths \<Longrightarrow> file_macros (fs p) \<noteq> [] \<Longrightarrow> cut_marker (fs' p) = fs p"
    and "p \<in> set paths \<Longrightarrow> file_macros (fs p) \<noteq> [] \<Longrightarrow> fs' p = generated (fs p) (file_lines (fs p))"
    and "p \<notin> set paths \<or> file_macros (fs p) = [] \<Longrightarrow> fs' p = fs p"
    and "p \<in> set paths \<Longrightarrow> ma \<in> set (file_macros (fs p)) \<Longrightarrow> gen_macro ma \<noteq> None"
proof -
  note run = assms(1) [unfolded Gen_None [OF assms(2)]]
  show un: "p \<notin> set paths \<or> file_macros (fs p) = [] \<Longrightarrow> fs' p = fs p" using run by auto
  show "p \<in> set paths \<Longrightarrow> ma \<in> set (file_macros (fs p)) \<Longrightarrow> gen_macro ma \<noteq> None" using run by blast
  { assume p: "p \<in> set paths" and m: "file_macros (fs p) \<noteq> []"
    have ls: "\<forall>l\<in>set (file_lines (fs p)). nl_free l \<and> \<not> prefix ''// #'' l"
      using run p macro_lines_facts by (fastforce simp: file_lines_def)
    have ok: "source_ok (fs p)" and none: "find_sub open_marker (fs p) = None"
      using assms(3) p by (auto simp: source_ok_def)
    have eq: "fs' p = generated (fs p) (file_lines (fs p))"
      using run p m cut_marker_marked(1) [OF none] by simp
    have "file_macros (fs' p) = file_macros (fs p)"
      using generated_macros [OF ok ls] bspec [OF assms(4) p] eq by simp
    moreover have "cut_marker (fs' p) = fs p"
      unfolding eq generated_eq [symmetric] by (rule cut_marker_marked(2) [OF none])
    moreover note eq
    ultimately have "file_macros (fs' p) = file_macros (fs p) \<and> cut_marker (fs' p) = fs p
        \<and> fs' p = generated (fs p) (file_lines (fs p))" by blast }
  note used = this
  show "p \<in> set paths \<Longrightarrow> file_macros (fs' p) = file_macros (fs p)"
    using used un by metis
  show "p \<in> set paths \<Longrightarrow> file_macros (fs p) \<noteq> [] \<Longrightarrow> cut_marker (fs' p) = fs p"
    and "p \<in> set paths \<Longrightarrow> file_macros (fs p) \<noteq> [] \<Longrightarrow> fs' p = generated (fs p) (file_lines (fs p))"
    using used by blast+
qed

text \<open>
  Generating twice is generating once: after a run that succeeds over sources without markers,
  another run of the program scans the generated functions as well, cuts them off at the marker and
  writes them again, and no byte of any file changes. (Lines have to fit the buffer of the reader,
  which cuts longer ones.)
\<close>

lemma generating_twice:
  assumes "Gen False paths fs = (fs', None)" and "distinct paths"
    and "\<forall>p\<in>set paths. source_ok (fs p)" and "\<forall>p\<in>set paths. short_lines (fs' p)"
  shows "Gen False paths fs' = (fs', None)"
proof -
  note again = generated_again [OF assms]
  have "file_lines (fs' p) = file_lines (fs p)" if "p \<in> set paths" for p
    using again(1) [OF that] by (simp add: file_lines_def)
  then show ?thesis
    unfolding Gen_None [OF assms(2)] using again by (auto simp: fun_eq_iff)
qed

lemma demo_file_macros:
  "file_macros demo_source = [\<lparr>maFuncs = [\<lparr>mfName = ''actor'', mfArgs = [''send'']\<rparr>], maMethod = Some demo_method\<rparr>]"
  using read_back_fact [OF demo_method_ok demo_words(1) _ demo_words(2) demo_lines] by (simp add: demo_source_eq demo_method_read)

lemma generating_twice_witness:
  "Gen False [''room.go''] (\<lambda>p. generated demo_source (file_lines demo_source))
     = (\<lambda>p. generated demo_source (file_lines demo_source), None)"
proof -
  let ?fs = "\<lambda>p. if p = ''room.go'' then demo_source else generated demo_source (file_lines demo_source)"
  have ok: "source_ok demo_source" by code_simp
  then have cut: "cut_marker demo_source = demo_source" by (simp add: source_ok_def cut_marker_def)
  have lines: "file_lines demo_source =
      Gen_lines \<lparr>mfName = ''actor'', mfArgs = [''send'']\<rparr> demo_method"
    by (simp add: file_lines_def demo_file_macros macro_lines_def)
  have short: "short_lines (generated demo_source (file_lines demo_source))" unfolding lines
  proof (rule short_generated)
    show "short_lines demo_source" by code_simp
    show "\<forall>l\<in>set (Gen_lines \<lparr>mfName = ''actor'', mfArgs = [''send'']\<rparr> demo_method). nl_free l"
      by (rule Gen_lines_nl_free) code_simp+
    show "\<forall>l\<in>set (Gen_lines \<lparr>mfName = ''actor'', mfArgs = [''send'']\<rparr> demo_method). length l < line_buffer"
      by code_simp
  qed
  have "gen_macro \<lparr>maFuncs = [\<lparr>mfName = ''actor'', mfArgs = [''send'']\<rparr>], maMethod = Some demo_method\<rparr> \<noteq> None"
    by code_simp
  then have "Gen False [''room.go''] ?fs = (\<lambda>p. generated demo_source (file_lines demo_source), None)"
    using cut by (auto simp: Gen_None demo_file_macros)
  from generating_twice [OF this] show ?thesis using ok short by simp
qed

text \<open>
  A second run in the process that generated the functions parses the wrong template, after the files
  were cut: the generated functions are gone.
\<close>

lemma second_run_cuts_files:
  assumes "Gen False paths fs = (fs', None)" and "distinct paths"
    and "\<forall>p\<in>set paths. source_ok (fs p)" and "\<forall>p\<in>set paths. short_lines (fs' p)"
    and "\<exists>p\<in>set paths. file_macros (fs p) \<noteq> []"
  shows "Gen True paths fs' =
    ((\<lambda>p. if p \<in> set paths \<and> file_macros (fs p) \<noteq> [] then fs p @ open_marker else fs p), Some TemplateError)"
proof -
  note facts = generated_again [OF assms(1-4)]
  have "filter (\<lambda>p. file_macros (fs' p) \<noteq> []) paths = filter (\<lambda>p. file_macros (fs p) \<noteq> []) paths"
    using facts(1) by (intro filter_cong) auto
  moreover have "filter (\<lambda>p. file_macros (fs p) \<noteq> []) paths \<noteq> []" using assms(5) by (simp add: filter_empty_conv)
  ultimately show ?thesis
    using facts by (auto simp: Gen_def Let_def fun_eq_iff)
qed

text \<open>
  Go's shorter declarations are misread: of grouped arguments only the last keeps its name, and an
  argument and a result without names are both called \<open>r0\<close>.
\<close>

lemma grouped_arguments_misread:
  "map arName (parseArgs ''a, b int'') = [''r0'', ''b''] \<and> map arType (parseArgs ''a, b int'') = [''a'', ''int'']"
proof -
  have "TrimSpace ''a, b int'' = ''a, b int''" by (rule TrimSpace_same) (simp add: arg_char_def)
  moreover have "fmt_int 0 = ''0''" by code_simp
  ultimately show ?thesis
    by (simp add: parseArgs_def match_arg_def map_filter_simps re_space_def new_arg_def name_arg_def)
qed

lemma unnamed_clash:
  "map arName (parseArgs ''int'') = [''r0''] \<and> map arName (parseReturns ''error'') = [''r0'']"
proof -
  have "TrimSpace ''int'' = ''int''" "TrimSpace ''error'' = ''error''"
    by (rule TrimSpace_same, simp add: arg_char_def)+
  moreover have "fmt_int 0 = ''0''" by code_simp
  ultimately show ?thesis
    by (simp add: parseReturns_def parseArgs_def match_arg_def map_filter_simps re_space_def new_arg_def name_arg_def)
qed

end
