(* ===== verification/Service_Container.thy ===== *)
theory Service_Container
  imports Gira_Prelude
begin

text \<open>
  The container of services, \<open>service/service.go\<close>: any number of goroutines call \<open>StartService\<close>,
  \<open>StopService\<close>, \<open>Stop\<close> and \<open>Serve\<close>; a started service has a goroutine of its own that runs \<open>Serve\<close>
  and then \<open>OnStop\<close>. Handlers are numbers; a call has a program counter with a value for each access
  to what the goroutines share.

  The lemmas: whatever the interleaving, a handler is started at most once for ever, served only
  when its start succeeded, and stopped once, after it was served; one \<open>StopService\<close> of a handler
  succeeds at most; \<open>Stop\<close> returns only when no service runs. A \<open>Stop\<close> that comes while a service
  starts can panic, and a \<open>StopService\<close> then changes nothing.
\<close>

section \<open>State\<close>

datatype service_error = AlreadyStart | AlreadyStop | ErrServiceNotFound | HandlerError

record svc =
  svStatus :: int
  svCancelFunc :: bool
  svCancelled :: bool

definition service_status_started :: int where "service_status_started = 1"
definition service_status_stopped :: int where "service_status_stopped = 2"

datatype call_pc =
    StartStore nat | StartContext nat | StartHandler nat | StartStatus nat | StartGo nat
  | StopLoad nat | StopSwap nat | StopCancel nat
  | RangeFrom "nat set" "nat set" | StopWait | ServeDone | ServeWait
  | Returned "service_error option" | Panicked

text \<open>The goroutine of a service.\<close>

datatype serve_pc = Serving | Stopping "service_error option" | Served "service_error option"

text \<open>
  \<open>ctParentDone\<close> is the context of the container, which is done when its parent is: the container's
  own \<open>cancelFunc\<close> is never called. The last four fields are histories of the calls of \<open>OnStart\<close>,
  \<open>Serve\<close> and \<open>OnStop\<close> and of the successes of \<open>StopService\<close>.
\<close>

record container =
  ctServices :: "nat \<Rightarrow> svc option"
  ctParentDone :: bool
  ctCalls :: "nat \<Rightarrow> call_pc option"
  ctGo :: "nat \<Rightarrow> serve_pc option"
  ctOnStarts :: "nat list"
  ctServes :: "nat list"
  ctOnStops :: "nat list"
  ctStops :: "nat list"

definition NewContainer :: container where
  "NewContainer = \<lparr>ctServices = Map.empty, ctParentDone = False, ctCalls = Map.empty, ctGo = Map.empty,
     ctOnStarts = [], ctServes = [], ctOnStops = [], ctStops = []\<rparr>"

definition new_svc :: svc where
  "new_svc = \<lparr>svStatus = 0, svCancelFunc = False, svCancelled = False\<rparr>"

definition set_pc :: "nat \<Rightarrow> call_pc \<Rightarrow> container \<Rightarrow> container" where
  "set_pc c pc s = s\<lparr>ctCalls := (ctCalls s)(c \<mapsto> pc)\<rparr>"

definition set_svc :: "nat \<Rightarrow> svc \<Rightarrow> container \<Rightarrow> container" where
  "set_svc h v s = s\<lparr>ctServices := (ctServices s)(h \<mapsto> v)\<rparr>"

text \<open>Calling a nil function panics.\<close>

definition cancel_svc :: "nat \<Rightarrow> container \<Rightarrow> container option" where
  "cancel_svc h s =
     (case ctServices s h of
        Some v \<Rightarrow> if svCancelFunc v then Some (set_svc h (v\<lparr>svCancelled := True\<rparr>) s) else None
      | None \<Rightarrow> None)"

definition running :: "container \<Rightarrow> nat set" where
  "running s = {h. \<exists>pc. ctGo s h = Some pc \<and> (\<forall>e. pc \<noteq> Served e)}"

section \<open>Steps\<close>

text \<open>
  One step of a call. \<open>ok\<close> is what \<open>OnStart\<close> answers, \<open>h\<close> the entry that a \<open>Range\<close> visits: it
  visits each entry once, all that were there when it began and perhaps some that came later.
\<close>

fun call_step :: "nat \<Rightarrow> bool \<Rightarrow> nat \<Rightarrow> call_pc \<Rightarrow> container \<Rightarrow> container" where
  "call_step c ok h' (StartStore h) s =
     (case ctServices s h of
        Some _ \<Rightarrow> set_pc c (Returned (Some AlreadyStart)) s
      | None \<Rightarrow> set_pc c (StartContext h) (set_svc h new_svc s))"
| "call_step c ok h' (StartContext h) s =
     (case ctServices s h of
        Some v \<Rightarrow> set_pc c (StartHandler h) (set_svc h (v\<lparr>svCancelFunc := True\<rparr>) s)
      | None \<Rightarrow> s)"
| "call_step c ok h' (StartHandler h) s =
     set_pc c (if ok then StartStatus h else Returned (Some HandlerError))
       (s\<lparr>ctOnStarts := ctOnStarts s @ [h]\<rparr>)"
| "call_step c ok h' (StartStatus h) s =
     (case ctServices s h of
        Some v \<Rightarrow> set_pc c (StartGo h) (set_svc h (v\<lparr>svStatus := service_status_started\<rparr>) s)
      | None \<Rightarrow> s)"
| "call_step c ok h' (StartGo h) s =
     set_pc c (Returned None) (s\<lparr>ctGo := (ctGo s)(h \<mapsto> Serving), ctServes := ctServes s @ [h]\<rparr>)"
| "call_step c ok h' (StopLoad h) s =
     set_pc c (if ctServices s h = None then Returned (Some ErrServiceNotFound) else StopSwap h) s"
| "call_step c ok h' (StopSwap h) s =
     (case ctServices s h of
        Some v \<Rightarrow>
          if svStatus v = service_status_started
          then set_pc c (StopCancel h) (set_svc h (v\<lparr>svStatus := service_status_stopped\<rparr>) s)
          else set_pc c (Returned (Some AlreadyStop)) s
      | None \<Rightarrow> s)"
| "call_step c ok h' (StopCancel h) s =
     (case cancel_svc h s of
        Some t \<Rightarrow> set_pc c (Returned None) (t\<lparr>ctStops := ctStops t @ [h]\<rparr>)
      | None \<Rightarrow> set_pc c Panicked s)"
| "call_step c ok h' (RangeFrom must seen) s =
     (if h' \<in> dom (ctServices s) - seen
      then (case cancel_svc h' s of
              Some t \<Rightarrow> set_pc c (RangeFrom must (insert h' seen)) t
            | None \<Rightarrow> set_pc c Panicked s)
      else if must \<subseteq> seen then set_pc c StopWait s else s)"
| "call_step c ok h' StopWait s = (if running s = {} then set_pc c (Returned None) s else s)"
| "call_step c ok h' ServeDone s = (if ctParentDone s then set_pc c ServeWait s else s)"
| "call_step c ok h' ServeWait s = (if running s = {} then set_pc c (Returned None) s else s)"
| "call_step c ok h' (Returned e) s = s"
| "call_step c ok h' Panicked s = s"

datatype container_event =
    CallStart nat nat | CallStop nat nat | CallStopAll nat | CallServe nat
  | CallStep nat bool nat | ParentDone | ServeReturns nat "service_error option" | OnStopReturns nat

definition begin_call :: "nat \<Rightarrow> call_pc \<Rightarrow> container \<Rightarrow> container" where
  "begin_call c pc s = (if ctCalls s c = None then set_pc c pc s else s)"

text \<open>The goroutine of a service: \<open>Serve\<close>, then \<open>OnStop\<close>, whose error is dropped.\<close>

definition serve_returns :: "nat \<Rightarrow> service_error option \<Rightarrow> container \<Rightarrow> container" where
  "serve_returns h e s =
     (if ctGo s h = Some Serving
      then s\<lparr>ctGo := (ctGo s)(h \<mapsto> Stopping e), ctOnStops := ctOnStops s @ [h]\<rparr> else s)"

definition on_stop_returns :: "nat \<Rightarrow> container \<Rightarrow> container" where
  "on_stop_returns h s =
     (case ctGo s h of Some (Stopping e) \<Rightarrow> s\<lparr>ctGo := (ctGo s)(h \<mapsto> Served e)\<rparr> | _ \<Rightarrow> s)"

fun container_step :: "container \<Rightarrow> container_event \<Rightarrow> container" where
  "container_step s (CallStart c h) = begin_call c (StartStore h) s"
| "container_step s (CallStop c h) = begin_call c (StopLoad h) s"
| "container_step s (CallStopAll c) = begin_call c (RangeFrom (dom (ctServices s)) {}) s"
| "container_step s (CallServe c) = begin_call c ServeDone s"
| "container_step s (CallStep c ok h) =
     (case ctCalls s c of Some pc \<Rightarrow> call_step c ok h pc s | None \<Rightarrow> s)"
| "container_step s ParentDone = s\<lparr>ctParentDone := True\<rparr>"
| "container_step s (ServeReturns h e) = serve_returns h e s"
| "container_step s (OnStopReturns h) = on_stop_returns h s"

section \<open>The invariant\<close>

text \<open>The call that is starting a handler, and how far it is.\<close>

fun starting :: "call_pc \<Rightarrow> (nat \<times> nat) option" where
  "starting (StartContext h) = Some (h, 0)"
| "starting (StartHandler h) = Some (h, 1)"
| "starting (StartStatus h) = Some (h, 2)"
| "starting (StartGo h) = Some (h, 3)"
| "starting _ = None"

text \<open>What is so of a handler that is being started by a call (\<open>Some n\<close>) or by none.\<close>

definition svc_ok :: "container \<Rightarrow> nat \<Rightarrow> nat option \<Rightarrow> bool" where
  "svc_ok s h p \<longleftrightarrow>
     (case ctServices s h of
        None \<Rightarrow> p = None \<and> h \<notin> set (ctOnStarts s) \<and> h \<notin> set (ctServes s) \<and> ctGo s h = None
          \<and> h \<notin> set (ctOnStops s)
      | Some v \<Rightarrow>
          (svCancelFunc v \<longleftrightarrow> p \<noteq> Some 0) \<and> (h \<in> set (ctOnStarts s) \<longleftrightarrow> p \<noteq> Some 0 \<and> p \<noteq> Some 1)
          \<and> (svStatus v \<noteq> 0 \<longleftrightarrow> h \<in> set (ctServes s) \<or> p = Some 3) \<and> svStatus v \<in> {0, 1, 2}
          \<and> (h \<in> set (ctServes s) \<longrightarrow> p = None) \<and> (h \<in> set (ctServes s) \<longleftrightarrow> ctGo s h \<noteq> None)
          \<and> (h \<in> set (ctOnStops s) \<longleftrightarrow> (\<exists>e. ctGo s h = Some (Stopping e) \<or> ctGo s h = Some (Served e))))"

definition starts :: "container \<Rightarrow> nat \<Rightarrow> nat \<Rightarrow> nat \<Rightarrow> bool" where
  "starts s c h n \<longleftrightarrow> (\<exists>pc. ctCalls s c = Some pc \<and> starting pc = Some (h, n))"

definition start_at :: "container \<Rightarrow> nat \<Rightarrow> nat option \<Rightarrow> bool" where
  "start_at s h p \<longleftrightarrow> (case p of Some n \<Rightarrow> \<exists>c. starts s c h n | None \<Rightarrow> \<forall>c n. \<not> starts s c h n)"

definition start_inv :: "container \<Rightarrow> bool" where
  "start_inv s \<longleftrightarrow> (\<forall>c d h n m. starts s c h n \<and> starts s d h m \<longrightarrow> c = d)
     \<and> (\<forall>h p. start_at s h p \<longrightarrow> svc_ok s h p)"

definition stopped :: "container \<Rightarrow> nat \<Rightarrow> bool" where
  "stopped s h \<longleftrightarrow> (\<exists>v. ctServices s h = Some v \<and> svStatus v = 2 \<and> svCancelFunc v)"

definition stop_inv :: "container \<Rightarrow> bool" where
  "stop_inv s \<longleftrightarrow>
     (\<forall>h \<in> set (ctStops s). stopped s h)
     \<and> (\<forall>c h. ctCalls s c = Some (StopCancel h) \<longrightarrow> h \<notin> set (ctStops s) \<and> stopped s h)
     \<and> (\<forall>c d h. ctCalls s c = Some (StopCancel h) \<and> ctCalls s d = Some (StopCancel h) \<longrightarrow> c = d)
     \<and> (\<forall>c h. ctCalls s c = Some (StopSwap h) \<longrightarrow> ctServices s h \<noteq> None)"

definition container_inv :: "container \<Rightarrow> bool" where
  "container_inv s \<longleftrightarrow> start_inv s \<and> stop_inv s
     \<and> distinct (ctOnStarts s) \<and> distinct (ctServes s) \<and> distinct (ctOnStops s) \<and> distinct (ctStops s)"

lemma call_pc_simps [simp]:
  "ctServices (set_pc c pc s) = ctServices s" "ctParentDone (set_pc c pc s) = ctParentDone s"
  "ctCalls (set_pc c pc s) = (ctCalls s)(c \<mapsto> pc)" "ctGo (set_pc c pc s) = ctGo s"
  "ctOnStarts (set_pc c pc s) = ctOnStarts s" "ctServes (set_pc c pc s) = ctServes s"
  "ctOnStops (set_pc c pc s) = ctOnStops s" "ctStops (set_pc c pc s) = ctStops s"
  by (simp_all add: set_pc_def)

lemma set_svc_simps [simp]:
  "ctServices (set_svc h v s) = (ctServices s)(h \<mapsto> v)" "ctParentDone (set_svc h v s) = ctParentDone s"
  "ctCalls (set_svc h v s) = ctCalls s" "ctGo (set_svc h v s) = ctGo s"
  "ctOnStarts (set_svc h v s) = ctOnStarts s" "ctServes (set_svc h v s) = ctServes s"
  "ctOnStops (set_svc h v s) = ctOnStops s" "ctStops (set_svc h v s) = ctStops s"
  by (simp_all add: set_svc_def)

lemma svc_ok_set_pc [simp]: "svc_ok (set_pc c pc s) h p \<longleftrightarrow> svc_ok s h p"
  by (cases "ctServices s h") (simp_all add: svc_ok_def)

lemma svc_ok_cong:
  "ctServices t = ctServices s \<Longrightarrow> ctGo t = ctGo s \<Longrightarrow> ctOnStarts t = ctOnStarts s \<Longrightarrow> ctServes t = ctServes s \<Longrightarrow>
     ctOnStops t = ctOnStops s \<Longrightarrow> svc_ok t h p \<longleftrightarrow> svc_ok s h p"
  by (cases "ctServices s h") (simp_all add: svc_ok_def)

lemma svc_ok_stops [simp]: "svc_ok (s\<lparr>ctStops := x\<rparr>) h p \<longleftrightarrow> svc_ok s h p"
  by (rule svc_ok_cong) simp_all

definition stage :: "call_pc \<Rightarrow> nat \<Rightarrow> nat option" where
  "stage pc h = (case starting pc of Some (j, n) \<Rightarrow> if j = h then Some n else None | None \<Rightarrow> None)"

text \<open>What \<open>svc_ok\<close> reads of a handler.\<close>

definition same_svc :: "container \<Rightarrow> container \<Rightarrow> nat \<Rightarrow> bool" where
  "same_svc s t h \<longleftrightarrow> ctServices t h = ctServices s h \<and> ctGo t h = ctGo s h
     \<and> (h \<in> set (ctOnStarts t) \<longleftrightarrow> h \<in> set (ctOnStarts s)) \<and> (h \<in> set (ctServes t) \<longleftrightarrow> h \<in> set (ctServes s))
     \<and> (h \<in> set (ctOnStops t) \<longleftrightarrow> h \<in> set (ctOnStops s))"

lemma same_svc_ok: "same_svc s t h \<Longrightarrow> svc_ok s h p \<Longrightarrow> svc_ok t h p"
  by (simp add: same_svc_def svc_ok_def split: option.splits)

lemma starts_upd:
  "ctCalls t = (ctCalls s)(c \<mapsto> pc') \<Longrightarrow>
     starts t d h n \<longleftrightarrow> (if d = c then starting pc' = Some (h, n) else starts s d h n)"
  by (simp add: starts_def)

text \<open>A step of the only call that starts \<open>h\<close>.\<close>

lemma start_inv_starter:
  assumes inv: "start_inv s" and calls: "ctCalls t = (ctCalls s)(c \<mapsto> pc')"
    and only: "\<And>d n. d \<noteq> c \<Longrightarrow> \<not> starts s d h n"
    and pc: "\<And>j n. starts s c j n \<or> starting pc' = Some (j, n) \<Longrightarrow> j = h"
    and others: "\<And>j. j \<noteq> h \<Longrightarrow> same_svc s t j" and ok: "svc_ok t h (stage pc' h)"
  shows "start_inv t"
  unfolding start_inv_def
proof (intro conjI allI impI)
  fix a b j n m
  assume h: "starts t a j n \<and> starts t b j m"
  show "a = b"
  proof (cases "j = h")
    case True
    then show ?thesis using h only by (metis starts_upd [OF calls])
  next
    case False
    then have "starts s a j n \<and> starts s b j m" using h pc by (metis starts_upd [OF calls])
    then show ?thesis using inv by (auto simp: start_inv_def)
  qed
next
  fix j p
  assume at: "start_at t j p"
  show "svc_ok t j p"
  proof (cases "j = h")
    case True
    have "p = stage pc' h"
      using at only True
      by (cases p) (auto simp: start_at_def stage_def starts_upd [OF calls] split: option.splits if_splits)
    then show ?thesis using ok True by simp
  next
    case False
    have "start_at s j p"
      using at pc False by (cases p) (auto simp: start_at_def starts_upd [OF calls] split: if_splits)
    then have "svc_ok s j p" using inv by (simp add: start_inv_def)
    then show ?thesis by (rule same_svc_ok [OF others [OF False]])
  qed
qed

text \<open>A step that starts nothing.\<close>

lemma start_inv_other:
  assumes inv: "start_inv s" and same: "\<And>c h n. starts t c h n \<longleftrightarrow> starts s c h n"
    and ok: "\<And>h p. svc_ok s h p \<Longrightarrow> svc_ok t h p"
  shows "start_inv t"
proof -
  have "starts t = starts s" by (intro ext) (rule same)
  then have "start_at t = start_at s" by (intro ext) (simp only: start_at_def)
  then show ?thesis using inv ok same by (simp add: start_inv_def)
qed

lemma starts_same:
  assumes "ctCalls t = ctCalls s \<or> (\<exists>pc'. ctCalls t = (ctCalls s)(c \<mapsto> pc') \<and> starting pc' = None)"
    and "\<And>pc. ctCalls s c = Some pc \<Longrightarrow> starting pc = None"
  shows "starts t d h n \<longleftrightarrow> starts s d h n"
  using assms by (auto simp: starts_def split: if_splits)

lemma startsI: "ctCalls s c = Some pc \<Longrightarrow> starting pc = Some (h, n) \<Longrightarrow> starts s c h n"
  by (auto simp: starts_def)

text \<open>The call that starts \<open>h\<close> is the only one; while nothing is known of \<open>h\<close> there is none.\<close>

lemma only_starter:
  assumes "start_inv s" and "starts s c h n"
  shows "d \<noteq> c \<Longrightarrow> \<not> starts s d h m" and "svc_ok s h (Some n)"
proof -
  show "d \<noteq> c \<Longrightarrow> \<not> starts s d h m" using assms unfolding start_inv_def by metis
  have "start_at s h (Some n)" using assms(2) by (auto simp: start_at_def)
  then show "svc_ok s h (Some n)" using assms(1) by (simp add: start_inv_def)
qed

lemma no_starter:
  assumes "start_inv s" and "ctServices s h = None"
  shows "\<not> starts s d h m" and "svc_ok s h None"
proof -
  have n: "\<not> starts s d h m" for d m
  proof
    assume "starts s d h m"
    then have "svc_ok s h (Some m)" by (rule only_starter(2) [OF assms(1)])
    then show False using assms(2) by (simp add: svc_ok_def)
  qed
  then show "\<not> starts s d h m" by blast
  have "start_at s h None" using n by (simp add: start_at_def)
  then show "svc_ok s h None" using assms(1) by (simp add: start_inv_def)
qed

section \<open>Every step keeps it\<close>

lemma starts_call: "ctCalls s c = Some pc \<Longrightarrow> starts s c h n \<longleftrightarrow> starting pc = Some (h, n)"
  by (simp add: starts_def)

lemma start_inv_StartStore:
  assumes "start_inv s" and "ctCalls s c = Some (StartStore h)"
  shows "start_inv (call_step c ok h' (StartStore h) s)"
proof (cases "ctServices s h")
  case (Some v)
  then show ?thesis
    using assms by (intro start_inv_other [OF assms(1)]) (auto simp: starts_def)
next
  case None
  show ?thesis
    using no_starter [OF assms(1) None] assms(2) None
    by (intro start_inv_starter [OF assms(1), where c = c and h = h and pc' = "StartContext h"])
       (auto simp: starts_call same_svc_def svc_ok_def stage_def new_svc_def)
qed

lemma start_inv_start_steps:
  assumes inv: "start_inv s" and c: "ctCalls s c = Some pc" and st: "starting pc = Some (h, n)"
  shows "start_inv (call_step c ok h' pc s)"
proof -
  have at: "starts s c h n" using c st by (rule startsI)
  note only = only_starter [OF inv at]
  have sv: "ctServices s h \<noteq> None" using only(2) by (auto simp: svc_ok_def split: option.splits)
  then obtain v where v: "ctServices s h = Some v" by blast
  have j: "starts s c j m \<Longrightarrow> j = h" for j m using c st by (simp add: starts_call)
  show ?thesis
  proof (cases pc)
    case (StartContext k)
    then show ?thesis using only st v j
      by (intro start_inv_starter [OF inv, where c = c and h = h and pc' = "StartHandler h"])
         (auto simp: same_svc_def svc_ok_def stage_def)
  next
    case (StartHandler k)
    then show ?thesis using only st v j
      by (intro start_inv_starter [OF inv, where c = c and h = h
            and pc' = "if ok then StartStatus h else Returned (Some HandlerError)"])
         (auto simp: same_svc_def svc_ok_def stage_def split: if_splits)
  next
    case (StartStatus k)
    then show ?thesis using only st v j
      by (intro start_inv_starter [OF inv, where c = c and h = h and pc' = "StartGo h"])
         (auto simp: same_svc_def svc_ok_def stage_def service_status_started_def)
  next
    case (StartGo k)
    then show ?thesis using only st v j
      by (intro start_inv_starter [OF inv, where c = c and h = h and pc' = "Returned None"])
         (auto simp: same_svc_def svc_ok_def stage_def)
  qed (use st in simp_all)
qed


text \<open>Steps that leave the handlers' stages as they are.\<close>

lemma svc_ok_cancel: "cancel_svc j s = Some t \<Longrightarrow> svc_ok s h p \<Longrightarrow> svc_ok t h p"
proof -
  assume "cancel_svc j s = Some t" and ok: "svc_ok s h p"
  then obtain v where v: "ctServices s j = Some v" and t: "t = set_svc j (v\<lparr>svCancelled := True\<rparr>) s"
    by (auto simp: cancel_svc_def split: option.splits if_splits)
  show ?thesis
  proof (cases "h = j")
    case True
    then show ?thesis using ok v by (simp add: svc_ok_def t)
  next
    case False
    then have "same_svc s t h" by (simp add: same_svc_def t)
    then show ?thesis using ok by (rule same_svc_ok)
  qed
qed

lemma cancel_svc_calls: "cancel_svc j s = Some t \<Longrightarrow> ctCalls t = ctCalls s"
  by (auto simp: cancel_svc_def split: option.splits if_splits)

lemma start_inv_quiet:
  assumes inv: "start_inv s" and c: "ctCalls s c = Some pc" and st: "starting pc = None"
    and calls: "ctCalls t = ctCalls s \<or> (\<exists>pc'. ctCalls t = (ctCalls s)(c \<mapsto> pc') \<and> starting pc' = None)"
    and ok: "\<And>h p. svc_ok s h p \<Longrightarrow> svc_ok t h p"
  shows "start_inv t"
  using starts_same [OF calls] c st by (intro start_inv_other [OF inv _ ok]) auto

lemma start_inv_call:
  assumes inv: "start_inv s" and c: "ctCalls s c = Some pc"
  shows "start_inv (call_step c ok h' pc s)"
proof (cases "starting pc")
  case (Some hn)
  then show ?thesis using start_inv_start_steps [OF inv c] by (cases hn) auto
next
  case None
  note quiet = start_inv_quiet [OF inv c None]
  show ?thesis
  proof (cases pc)
    case (StartStore h)
    then show ?thesis using start_inv_StartStore [OF inv] c by blast
  next
    case (StopSwap h)
    show ?thesis unfolding StopSwap
      by (rule quiet) (auto simp: svc_ok_def service_status_started_def service_status_stopped_def
            split: option.split)
  next
    case (StopCancel h)
    show ?thesis unfolding StopCancel
    proof (rule quiet)
      show "svc_ok s j p \<Longrightarrow> svc_ok (call_step c ok h' (StopCancel h) s) j p" for j p
        using svc_ok_cancel [of h s] by (cases "cancel_svc h s") simp_all
    qed (cases "cancel_svc h s"; auto simp: cancel_svc_calls)
  next
    case (RangeFrom must seen)
    show ?thesis unfolding RangeFrom
    proof (rule quiet)
      show "svc_ok s j p \<Longrightarrow> svc_ok (call_step c ok h' (RangeFrom must seen) s) j p" for j p
        using svc_ok_cancel [of h' s] by (cases "cancel_svc h' s") simp_all
    qed (cases "cancel_svc h' s"; auto simp: cancel_svc_calls)
  qed (use None in \<open>auto intro!: quiet simp: c\<close>)
qed

lemma start_stage: "start_inv s \<Longrightarrow> \<exists>p. start_at s h p \<and> svc_ok s h p"
proof -
  assume inv: "start_inv s"
  have "start_at s h None \<or> (\<exists>n. start_at s h (Some n))" by (auto simp: start_at_def)
  then show ?thesis using inv unfolding start_inv_def by blast
qed

lemma stop_invI:
  assumes "\<And>h. h \<in> set (ctStops s) \<Longrightarrow> stopped s h"
    and "\<And>c h. ctCalls s c = Some (StopCancel h) \<Longrightarrow> h \<notin> set (ctStops s)"
    and "\<And>c h. ctCalls s c = Some (StopCancel h) \<Longrightarrow> stopped s h"
    and "\<And>c d h. ctCalls s c = Some (StopCancel h) \<Longrightarrow> ctCalls s d = Some (StopCancel h) \<Longrightarrow> c = d"
    and "\<And>c h. ctCalls s c = Some (StopSwap h) \<Longrightarrow> h \<in> dom (ctServices s)"
  shows "stop_inv s"
  using assms unfolding stop_inv_def by blast

lemma stop_invD:
  assumes "stop_inv s"
  shows "h \<in> set (ctStops s) \<Longrightarrow> stopped s h"
    and "ctCalls s c = Some (StopCancel h) \<Longrightarrow> h \<notin> set (ctStops s)"
    and "ctCalls s c = Some (StopCancel h) \<Longrightarrow> stopped s h"
    and "ctCalls s c = Some (StopCancel h) \<Longrightarrow> ctCalls s d = Some (StopCancel h) \<Longrightarrow> c = d"
    and "ctCalls s c = Some (StopSwap h) \<Longrightarrow> h \<in> dom (ctServices s)"
  using assms unfolding stop_inv_def by blast+

lemma stop_inv_keep:
  assumes inv: "stop_inv s" and calls: "ctCalls t = ctCalls s \<or> ctCalls t = (ctCalls s)(c \<mapsto> pc')"
    and pc: "\<And>h. pc' \<noteq> StopCancel h" "\<And>h. pc' = StopSwap h \<Longrightarrow> ctServices t h \<noteq> None"
    and stops: "ctStops t = ctStops s" and kept: "\<And>h. stopped s h \<Longrightarrow> stopped t h"
    and dom: "dom (ctServices s) \<subseteq> dom (ctServices t)"
  shows "stop_inv t"
proof -
  have c: "ctCalls t d = Some (StopCancel h) \<Longrightarrow> ctCalls s d = Some (StopCancel h)" for d h
    using calls pc(1) by (auto split: if_splits)
  have w: "ctCalls t d = Some (StopSwap h) \<Longrightarrow> ctServices t h \<noteq> None" for d h
  proof -
    assume h: "ctCalls t d = Some (StopSwap h)"
    have "ctCalls s d = Some (StopSwap h) \<Longrightarrow> h \<in> dom (ctServices s)" using inv by (auto simp: stop_inv_def)
    moreover have "h \<in> dom (ctServices s) \<Longrightarrow> \<exists>y. ctServices t h = Some y" using dom by blast
    ultimately show ?thesis using h calls pc(2) by (auto split: if_splits)
  qed
  show ?thesis
    by (rule stop_invI; (unfold stops domIff)?) (use stop_invD(1-4) [OF inv] c w kept in blast)+
qed

lemma stopped_upd: "stopped (set_svc j v s) h \<longleftrightarrow> (if h = j then svStatus v = 2 \<and> svCancelFunc v else stopped s h)"
  by (simp add: stopped_def)

lemma stopped_cancel: "cancel_svc j s = Some t \<Longrightarrow> stopped t h \<longleftrightarrow> stopped s h"
  by (auto simp: cancel_svc_def stopped_upd split: option.splits if_splits) (auto simp: stopped_def)

lemma stopped_set_pc [simp]: "stopped (set_pc c pc s) h \<longleftrightarrow> stopped s h"
  by (simp add: stopped_def)

lemma stopped_cong: "ctServices t h = ctServices s h \<Longrightarrow> stopped t h \<longleftrightarrow> stopped s h"
  by (simp add: stopped_def)

lemma stop_inv_start_steps:
  assumes st: "start_inv s" and inv: "stop_inv s" and c: "ctCalls s c = Some pc" and pc: "starting pc = Some (h, n)"
  shows "stop_inv (call_step c ok h' pc s)"
proof -
  have ok: "svc_ok s h (Some n)" using only_starter(2) [OF st startsI [OF c pc]] .
  then obtain v where v: "ctServices s h = Some v" by (auto simp: svc_ok_def split: option.splits)
  have k: "\<not> stopped s h" if "n \<noteq> 3" using ok v that by (auto simp: svc_ok_def stopped_def)
  show ?thesis
  proof (cases pc)
    case (StartContext j)
    then show ?thesis using pc v k
      by (intro stop_inv_keep [OF inv, of _ c "StartHandler h"]) (auto simp: stopped_upd)
  next
    case (StartHandler j)
    then show ?thesis using pc
      by (intro stop_inv_keep [OF inv, of _ c "if ok then StartStatus h else Returned (Some HandlerError)"])
         (auto simp: stopped_def split: if_splits)
  next
    case (StartStatus j)
    then show ?thesis using pc v k
      by (intro stop_inv_keep [OF inv, of _ c "StartGo h"]) (auto simp: stopped_upd)
  next
    case (StartGo j)
    then show ?thesis using pc
      by (intro stop_inv_keep [OF inv, of _ c "Returned None"]) (auto simp: stopped_def)
  qed (use pc in simp_all)
qed

lemma cancel_stopped: "stopped s h \<Longrightarrow> \<exists>t. cancel_svc h s = Some t"
  by (auto simp: stopped_def cancel_svc_def)

lemma cancel_keeps: "cancel_svc j s = Some t \<Longrightarrow> ctStops t = ctStops s \<and> dom (ctServices t) = dom (ctServices s)"
  by (auto simp: cancel_svc_def split: option.splits if_splits)

lemma stop_inv_call:
  assumes st: "start_inv s" and inv: "stop_inv s" and c: "ctCalls s c = Some pc"
  shows "stop_inv (call_step c ok h' pc s)"
proof (cases "starting pc")
  case (Some hn)
  then show ?thesis using stop_inv_start_steps [OF st inv c] by (cases hn) auto
next
  case None
  note keep = stop_inv_keep [OF inv, of _ c]
  show ?thesis
  proof (cases pc)
    case (StartStore h)
    show ?thesis
    proof (cases "ctServices s h")
      case None
      then show ?thesis unfolding StartStore
        by (intro keep [of _ "StartContext h"]) (auto simp: stopped_def)
    next
      case (Some v)
      then show ?thesis unfolding StartStore
        by (intro keep [of _ "Returned (Some AlreadyStart)"]) (auto simp: stopped_def)
    qed
  next
    case (StopLoad h)
    then show ?thesis
      by (intro keep [of _ "if ctServices s h = None then Returned (Some ErrServiceNotFound) else StopSwap h"])
         (auto simp: stopped_def split: if_splits)
  next
    case (StopSwap h)
    have "ctServices s h \<noteq> None" using inv c StopSwap unfolding stop_inv_def by blast
    then obtain v where v: "ctServices s h = Some v" by blast
    show ?thesis
    proof (cases "svStatus v = service_status_started")
      case False
      then show ?thesis unfolding StopSwap using v
        by (intro keep [of _ "Returned (Some AlreadyStop)"]) (auto simp: stopped_def)
    next
      case True
      have n: "\<not> stopped s h" using True v by (simp add: stopped_def service_status_started_def)
      obtain p where "svc_ok s h p" using start_stage [OF st] by blast
      then have f: "svCancelFunc v" using True v by (auto simp: svc_ok_def service_status_started_def)
      let ?t = "call_step c ok h' (StopSwap h) s"
      have t: "stopped ?t j \<longleftrightarrow> j = h \<or> stopped s j" for j
        using v True f by (auto simp: stopped_def service_status_stopped_def)
      have e: "ctCalls ?t = (ctCalls s)(c \<mapsto> StopCancel h)" "ctStops ?t = ctStops s"
        "dom (ctServices ?t) = dom (ctServices s)"
        using v True by auto
      show ?thesis
        using stop_invD [OF inv] n unfolding StopSwap
        by (intro stop_invI; simp only: e t fun_upd_apply split: if_splits) blast+
    qed
  next
    case (StopCancel h)
    have h: "stopped s h" "h \<notin> set (ctStops s)" and u: "ctCalls s d = Some (StopCancel h) \<Longrightarrow> d = c" for d
      using inv c StopCancel by (auto simp: stop_inv_def)
    then obtain t where t: "cancel_svc h s = Some t" using cancel_stopped by blast
    let ?t = "call_step c ok h' (StopCancel h) s"
    have e: "ctCalls ?t = (ctCalls s)(c \<mapsto> Returned None)" "ctStops ?t = ctStops s @ [h]"
        "ctServices ?t = ctServices t"
      using t cancel_svc_calls [OF t] cancel_keeps [OF t] by simp_all
    have s: "stopped ?t j \<longleftrightarrow> stopped s j" for j using stopped_cancel [OF t] e(3) by (simp add: stopped_def)
    have dm: "dom (ctServices ?t) = dom (ctServices s)" using cancel_keeps [OF t] e(3) by simp
    show ?thesis
      using stop_invD [OF inv] h u unfolding StopCancel
      by (intro stop_invI; simp only: e(1,2) s dm fun_upd_apply set_append list.set split: if_splits) blast+
  next
    case (RangeFrom must seen)
    show ?thesis
    proof (cases "h' \<in> dom (ctServices s) - seen")
      case True
      show ?thesis
      proof (cases "cancel_svc h' s")
        case None
        then show ?thesis unfolding RangeFrom using True
          by (intro keep [of _ Panicked]) (auto simp: stopped_def)
      next
        case (Some t)
        have "stopped (set_pc c pc' t) j \<longleftrightarrow> stopped s j" for pc' j
          using stopped_cancel [OF Some] by (simp add: stopped_def)
        then show ?thesis unfolding RangeFrom
          using True Some cancel_svc_calls [OF Some] cancel_keeps [OF Some]
          by (intro keep [of _ "RangeFrom must (insert h' seen)"]) auto
      qed
    next
      case False
      then show ?thesis unfolding RangeFrom
        by (intro keep [of _ StopWait]) (auto simp: stopped_def)
    qed
  next
    case StopWait
    then show ?thesis by (intro keep [of _ "Returned None"]) (auto simp: stopped_def)
  next
    case ServeDone
    then show ?thesis by (intro keep [of _ ServeWait]) (auto simp: stopped_def)
  next
    case ServeWait
    then show ?thesis by (intro keep [of _ "Returned None"]) (auto simp: stopped_def)
  qed (use None inv in simp_all)
qed

section \<open>All steps\<close>

lemma histories_call:
  assumes st: "start_inv s" and inv: "stop_inv s" and c: "ctCalls s c = Some pc"
    and d: "distinct (ctOnStarts s)" "distinct (ctServes s)" "distinct (ctOnStops s)" "distinct (ctStops s)"
  shows "distinct (ctOnStarts (call_step c ok h' pc s)) \<and> distinct (ctServes (call_step c ok h' pc s))
    \<and> distinct (ctOnStops (call_step c ok h' pc s)) \<and> distinct (ctStops (call_step c ok h' pc s))"
proof -
  have k: "ctOnStarts t = ctOnStarts s \<and> ctServes t = ctServes s \<and> ctOnStops t = ctOnStops s \<and> ctStops t = ctStops s"
    if "cancel_svc h s = Some t" for h t
    using that by (auto simp: cancel_svc_def split: option.splits if_splits)
  show ?thesis
  proof (cases pc)
    case (StartHandler h)
    then have "svc_ok s h (Some 1)" using c only_starter(2) [OF st startsI [OF c]] by simp
    then have "h \<notin> set (ctOnStarts s)" by (auto simp: svc_ok_def split: option.splits)
    then show ?thesis using d by (simp add: StartHandler)
  next
    case (StartGo h)
    then have "svc_ok s h (Some 3)" using c only_starter(2) [OF st startsI [OF c]] by simp
    then have "h \<notin> set (ctServes s)" by (auto simp: svc_ok_def split: option.splits)
    then show ?thesis using d by (simp add: StartGo)
  next
    case (StopCancel h)
    then have "h \<notin> set (ctStops s)" using stop_invD(2) [OF inv] c by blast
    then show ?thesis using d k by (auto simp: StopCancel split: option.split)
  next
    case (RangeFrom must seen)
    then show ?thesis using d k by (auto split: option.split)
  qed (use d in \<open>auto split: option.split\<close>)
qed

lemma container_inv_begin:
  assumes inv: "container_inv s" and pc: "starting pc = None" "\<And>h. pc \<noteq> StopCancel h" "\<And>h. pc \<noteq> StopSwap h"
  shows "container_inv (begin_call c pc s)"
proof (cases "ctCalls s c = None")
  case True
  have st: "start_inv s" and sp: "stop_inv s" using inv by (simp_all add: container_inv_def)
  have "start_inv (set_pc c pc s)"
    using True pc(1) by (intro start_inv_other [OF st]) (auto simp: starts_def)
  moreover have "stop_inv (set_pc c pc s)"
    using pc by (intro stop_inv_keep [OF sp, of _ c pc]) auto
  ultimately show ?thesis using inv True by (simp add: container_inv_def begin_call_def)
qed (use inv in \<open>auto simp: begin_call_def\<close>)

lemma container_inv_go:
  assumes inv: "container_inv s"
  shows "container_inv (serve_returns h e s)" and "container_inv (on_stop_returns h s)"
proof -
  have st: "start_inv s" and sp: "stop_inv s" using inv by (simp_all add: container_inv_def)
  show "container_inv (serve_returns h e s)"
  proof (cases "ctGo s h = Some Serving")
    case True
    let ?t = "serve_returns h e s"
    obtain p where "svc_ok s h p" using start_stage [OF st] by blast
    then have n: "h \<notin> set (ctOnStops s)" using True by (auto simp: svc_ok_def split: option.splits)
    have "start_inv ?t"
      using True by (intro start_inv_other [OF st]) (auto simp: starts_def serve_returns_def svc_ok_def split: option.splits)
    moreover have "stop_inv ?t"
      using sp True by (intro stop_inv_keep [OF sp, of _ 0 StopWait]) (auto simp: serve_returns_def stopped_def)
    ultimately show ?thesis using inv True n by (simp add: container_inv_def serve_returns_def)
  qed (use inv in \<open>simp add: serve_returns_def\<close>)
  show "container_inv (on_stop_returns h s)"
  proof (cases "\<exists>e. ctGo s h = Some (Stopping e)")
    case True
    let ?t = "on_stop_returns h s"
    have "start_inv ?t"
      using True by (intro start_inv_other [OF st]) (auto simp: starts_def on_stop_returns_def svc_ok_def split: option.splits)
    moreover have "stop_inv ?t"
      using sp True by (intro stop_inv_keep [OF sp, of _ 0 StopWait]) (auto simp: on_stop_returns_def stopped_def)
    ultimately show ?thesis using inv True by (auto simp: container_inv_def on_stop_returns_def)
  next
    case False
    then have "on_stop_returns h s = s" by (auto simp: on_stop_returns_def split: option.split serve_pc.split)
    then show ?thesis using inv by simp
  qed
qed

lemma container_step_inv: "container_inv s \<Longrightarrow> container_inv (container_step s e)"
proof (cases e)
  case (CallStep c ok h)
  assume inv: "container_inv s"
  show ?thesis
  proof (cases "ctCalls s c")
    case (Some pc)
    have "start_inv s" "stop_inv s" using inv by (simp_all add: container_inv_def)
    then show ?thesis
      using inv start_inv_call [OF _ Some] stop_inv_call [OF _ _ Some] histories_call [OF _ _ Some]
      by (simp add: CallStep Some container_inv_def)
  qed (use inv in \<open>simp add: CallStep\<close>)
next
  case ParentDone
  assume inv: "container_inv s"
  then have st: "start_inv s" by (simp add: container_inv_def)
  have "start_inv (s\<lparr>ctParentDone := True\<rparr>)"
  proof (rule start_inv_other [OF st])
    show "svc_ok s h p \<Longrightarrow> svc_ok (s\<lparr>ctParentDone := True\<rparr>) h p" for h p
      by (subst svc_ok_cong [of _ s]) simp_all
  qed (simp add: starts_def)
  moreover have "stop_inv (s\<lparr>ctParentDone := True\<rparr>)"
    using inv by (auto simp: container_inv_def stop_inv_def stopped_def)
  ultimately show ?thesis using inv by (simp add: ParentDone container_inv_def)
qed (simp_all add: container_inv_begin container_inv_go)

lemma NewContainer_inv: "container_inv NewContainer"
  by (simp add: container_inv_def start_inv_def stop_inv_def start_at_def starts_def NewContainer_def svc_ok_def
      split: option.split)

interpretation container: step_system "\<lambda>s. s = NewContainer" container_step container_inv
  by unfold_locales (simp_all add: NewContainer_inv container_step_inv)

section \<open>Properties\<close>

text \<open>
  C21. However the calls interleave, and whatever the handlers answer: the container calls \<open>OnStart\<close>
  of a handler at most once for ever, also when the start failed; \<open>Serve\<close> at most once, and only of a
  handler that was started; \<open>OnStop\<close> at most once, and only of one that was served; and at most one
  \<open>StopService\<close> of a handler succeeds.
\<close>

theorem service_runs_once:
  "let s = foldl container_step NewContainer es in
     distinct (ctOnStarts s) \<and> distinct (ctServes s) \<and> distinct (ctOnStops s) \<and> distinct (ctStops s)
     \<and> set (ctOnStops s) \<subseteq> set (ctServes s) \<and> set (ctServes s) \<subseteq> set (ctOnStarts s)
     \<and> set (ctOnStarts s) \<union> set (ctStops s) \<subseteq> dom (ctServices s)"
proof -
  define s where "s = foldl container_step NewContainer es"
  have inv: "container_inv s" unfolding s_def by (rule container.run_inv) simp
  then have st: "start_inv s" and sp: "stop_inv s" by (simp_all add: container_inv_def)
  have "(h \<in> set (ctOnStops s) \<longrightarrow> h \<in> set (ctServes s)) \<and> (h \<in> set (ctServes s) \<longrightarrow> h \<in> set (ctOnStarts s))
      \<and> (h \<in> set (ctOnStarts s) \<longrightarrow> h \<in> dom (ctServices s))" for h
  proof -
    obtain p where "svc_ok s h p" using start_stage [OF st] by blast
    then show ?thesis by (auto simp: svc_ok_def split: option.splits)
  qed
  moreover have "set (ctStops s) \<subseteq> dom (ctServices s)" using stop_invD(1) [OF sp] by (auto simp: stopped_def)
  ultimately show ?thesis using inv unfolding s_def [symmetric] Let_def container_inv_def by blast
qed

text \<open>
  A \<open>Stop\<close> that visits the entry of a service panics exactly when a \<open>StartService\<close> has stored the
  entry and not yet made its context: the function that cancels it is still nil.
\<close>

lemma Stop_panics_iff:
  assumes "s = foldl container_step NewContainer es"
    and "ctCalls s c = Some (RangeFrom must seen)" and "h \<in> dom (ctServices s)" and "h \<notin> seen"
  shows "ctCalls (container_step s (CallStep c ok h)) c = Some Panicked
    \<longleftrightarrow> (\<exists>d. ctCalls s d = Some (StartContext h))"
proof -
  have "container_inv s" using assms(1) by (intro container.run_inv [of NewContainer es, folded assms(1)]) simp
  then have st: "start_inv s" by (simp add: container_inv_def)
  obtain v where v: "ctServices s h = Some v" using assms(3) by blast
  obtain p where p: "start_at s h p" "svc_ok s h p" using start_stage [OF st] by blast
  have "svCancelFunc v \<longleftrightarrow> p \<noteq> Some 0" using p(2) v by (simp add: svc_ok_def)
  moreover have "p = Some 0 \<longleftrightarrow> (\<exists>d. ctCalls s d = Some (StartContext h))"
  proof
    assume "p = Some 0"
    then obtain d pc where "ctCalls s d = Some pc" "starting pc = Some (h, 0)"
      using p(1) by (auto simp: start_at_def starts_def)
    then show "\<exists>d. ctCalls s d = Some (StartContext h)" by (cases pc) auto
  next
    assume "\<exists>d. ctCalls s d = Some (StartContext h)"
    then obtain d where "starts s d h 0" using startsI [of s _ "StartContext h" h 0] by auto
    then have "svc_ok s h (Some 0)" by (rule only_starter(2) [OF st])
    then have "\<not> svCancelFunc v" using v by (simp add: svc_ok_def)
    then show "p = Some 0" using calculation by blast
  qed
  moreover have "ctCalls (container_step s (CallStep c ok h)) c = Some Panicked \<longleftrightarrow> \<not> svCancelFunc v"
    using assms(2-4) v by (auto simp: cancel_svc_def)
  ultimately show ?thesis by blast
qed

lemma Stop_panics_iff_witness:
  "ctCalls (foldl container_step NewContainer
     [CallStart 0 5, CallStep 0 True 0, CallStopAll 1, CallStep 1 True 5]) 1 = Some Panicked"
proof -
  let ?s = "foldl container_step NewContainer [CallStart 0 5, CallStep 0 True 0, CallStopAll 1]"
  have s: "ctCalls ?s 0 = Some (StartContext 5)" "ctCalls ?s 1 = Some (RangeFrom (dom (ctServices ?s)) {})"
    "5 \<in> dom (ctServices ?s)"
    by (simp_all add: NewContainer_def begin_call_def)
  then have "ctCalls (container_step ?s (CallStep 1 True 5)) 1 = Some Panicked"
    using Stop_panics_iff [OF refl s(2,3)] by blast
  then show ?thesis by simp
qed

text \<open>
  A \<open>StopService\<close> and a \<open>Stop\<close> that come while a service starts: the first is told that the service
  has stopped already, the second returns, and afterwards the service is served.
\<close>

lemma stop_misses_starting_service:
  "let s = foldl container_step NewContainer
      [CallStart 0 5, CallStep 0 True 0, CallStep 0 True 0, CallStep 0 True 0,
       CallStop 1 5, CallStep 1 True 0, CallStep 1 True 0,
       CallStopAll 2, CallStep 2 True 5, CallStep 2 True 5, CallStep 2 True 0,
       CallStep 0 True 0, CallStep 0 True 0] in
     ctCalls s 1 = Some (Returned (Some AlreadyStop)) \<and> ctCalls s 2 = Some (Returned None) \<and> ctGo s 5 = Some Serving"
  by (simp add: NewContainer_def begin_call_def new_svc_def cancel_svc_def service_status_started_def running_def Let_def)

end
