(* ===== verification/Model_Documents.thy ===== *)
theory Model_Documents
  imports Gira_Prelude "HOL-Library.Multiset"
begin

text \<open>
  The documents that \<open>gen/gen_model/gen_model.go\<close> generates from its template: the documents of a user
  (derive \<open>user\<close>), the array of the documents of a user (derive \<open>userarr\<close>) with its three maps of what
  has to be written, and the \<open>Load\<close>, \<open>Save\<close> and \<open>Delete\<close> of their data access objects. A document is a
  heap object, named by its object id: the maps and the application share it. What the code relies on
  of the database is the locale \<open>bulk_store\<close>, interpreted by a map.

  The lemmas: a successful \<open>Save\<close> makes the stored documents of the user exactly those of the array,
  and loading them again gives the same array; a failed \<open>Save\<close> loses its changes; a user document
  that was new when it was loaded cannot be deleted.
\<close>

section \<open>The database\<close>

type_synonym oid = nat

record ('k, 'v) stored =
  sdPrimary :: nat
  sdKey :: 'k
  sdData :: 'v

datatype 'd write_model = DeleteOne oid | InsertOne oid 'd | ReplaceOne oid 'd

fun write_id :: "'d write_model \<Rightarrow> oid" where
  "write_id (DeleteOne i) = i"
| "write_id (InsertOne i d) = i"
| "write_id (ReplaceOne i d) = i"

text \<open>What a write makes of the document of its id; a replacement of a missing one does nothing.\<close>

fun written :: "'d write_model \<Rightarrow> 'd option \<Rightarrow> 'd option" where
  "written (DeleteOne i) old = None"
| "written (InsertOne i d) old = Some d"
| "written (ReplaceOne i d) old = (if old = None then None else Some d)"

text \<open>
  \<open>BulkWrite\<close> in any order: when it succeeds each write is done, and the ids inserted were free; when
  it fails, some of them. No other document changes.
\<close>

locale bulk_store =
  fixes lookup :: "'s \<Rightarrow> oid \<Rightarrow> 'd option"
    and bulk :: "'s \<Rightarrow> 'd write_model list \<Rightarrow> 's \<times> bool"
  assumes bulk_done: "bulk s ws = (t, True) \<Longrightarrow> distinct (map write_id ws) \<Longrightarrow> w \<in> set ws \<Longrightarrow>
      lookup t (write_id w) = written w (lookup s (write_id w))"
    and bulk_some: "bulk s ws = (t, ok) \<Longrightarrow> distinct (map write_id ws) \<Longrightarrow> w \<in> set ws \<Longrightarrow>
      lookup t (write_id w) = lookup s (write_id w) \<or> lookup t (write_id w) = written w (lookup s (write_id w))"
    and bulk_others: "bulk s ws = (t, ok) \<Longrightarrow> i \<notin> write_id ` set ws \<Longrightarrow> lookup t i = lookup s i"
begin

lemma bulk_deletes: "bulk s ws = (t, True) \<Longrightarrow> distinct (map write_id ws) \<Longrightarrow> DeleteOne i \<in> set ws \<Longrightarrow> lookup t i = None"
  using bulk_done by fastforce

lemma bulk_inserts:
  "bulk s ws = (t, True) \<Longrightarrow> distinct (map write_id ws) \<Longrightarrow> InsertOne i d \<in> set ws \<Longrightarrow> lookup t i = Some d"
  using bulk_done by fastforce

lemma bulk_replaces:
  "bulk s ws = (t, True) \<Longrightarrow> distinct (map write_id ws) \<Longrightarrow> ReplaceOne i d \<in> set ws \<Longrightarrow> lookup s i \<noteq> None \<Longrightarrow>
     lookup t i = Some d"
  using bulk_done by fastforce

end

text \<open>A store in memory: a map, and the answers of the server for the next writes, when it is down for some.\<close>

definition map_write :: "'d write_model \<Rightarrow> (oid \<Rightarrow> 'd option) \<Rightarrow> (oid \<Rightarrow> 'd option)" where
  "map_write w m = m(write_id w := written w (m (write_id w)))"

definition map_bulk ::
  "(oid \<Rightarrow> 'd option) \<times> bool list \<Rightarrow> 'd write_model list \<Rightarrow> ((oid \<Rightarrow> 'd option) \<times> bool list) \<times> bool" where
  "map_bulk s ws =
     (if (snd s = [] \<or> hd (snd s)) \<and> list_all (\<lambda>w. case w of InsertOne i d \<Rightarrow> fst s i = None | _ \<Rightarrow> True) ws
      then ((fold map_write ws (fst s), tl (snd s)), True) else ((fst s, tl (snd s)), False))"

lemma fold_map_write_other: "i \<notin> write_id ` set ws \<Longrightarrow> fold map_write ws m i = m i"
  by (induction ws arbitrary: m) (simp_all add: map_write_def)

lemma fold_map_write:
  "distinct (map write_id ws) \<Longrightarrow> w \<in> set ws \<Longrightarrow> fold map_write ws m (write_id w) = written w (m (write_id w))"
proof (induction ws arbitrary: m)
  case (Cons x xs)
  show ?case
  proof (cases "w = x")
    case True
    have "fold map_write xs (map_write x m) (write_id x) = map_write x m (write_id x)"
      using Cons.prems by (intro fold_map_write_other) simp
    then show ?thesis by (simp add: True map_write_def [of x m])
  next
    case False
    then have "w \<in> set xs" using Cons.prems by simp
    then have "write_id w \<noteq> write_id x" using Cons.prems(1) by (metis distinct.simps(2) image_eqI list.set_map list.simps(9))
    moreover have "fold map_write xs (map_write x m) (write_id w) = written w (map_write x m (write_id w))"
      using Cons False by simp
    ultimately show ?thesis by (simp add: map_write_def [of x m])
  qed
qed simp

interpretation map_store: bulk_store fst map_bulk
proof
  show "fst t (write_id w) = written w (fst s (write_id w))"
    if "map_bulk s ws = (t, True)" "distinct (map write_id ws)" "w \<in> set ws"
    for s t :: "(oid \<Rightarrow> 'd option) \<times> bool list" and ws w
    using that fold_map_write by (auto simp: map_bulk_def split: if_splits)
  show "fst t (write_id w) = fst s (write_id w) \<or> fst t (write_id w) = written w (fst s (write_id w))"
    if "map_bulk s ws = (t, ok)" "distinct (map write_id ws)" "w \<in> set ws"
    for s t :: "(oid \<Rightarrow> 'd option) \<times> bool list" and ws w ok
    using that fold_map_write [of ws w "fst s"] by (auto simp: map_bulk_def split: if_splits)
  show "fst t i = fst s i" if "map_bulk s ws = (t, ok)" "i \<notin> write_id ` set ws"
    for s t :: "(oid \<Rightarrow> 'd option) \<times> bool list" and ws i ok
    using that fold_map_write_other [of i ws] by (auto simp: map_bulk_def split: if_splits)
qed

section \<open>The array of a user's documents\<close>

text \<open>
  \<open>del\<close>, \<open>dirty\<close> and \<open>add\<close> are maps from the id of a document to the document: the list of their keys,
  without repetition. \<open>uaHeap\<close> are the documents, those that were deleted included.
\<close>

record ('k, 'v) adoc =
  adKey :: 'k
  adData :: 'v
  adDirty :: bool

record ('k, 'v) uarr =
  uaPrimary :: nat
  uaDict :: "'k \<Rightarrow> oid option"
  uaDel :: "oid list"
  uaDirty :: "oid list"
  uaAdd :: "oid list"
  uaHeap :: "oid \<Rightarrow> ('k, 'v) adoc option"

definition newArr :: "nat \<Rightarrow> ('k, 'v) uarr" where
  "newArr pk = \<lparr>uaPrimary = pk, uaDict = Map.empty, uaDel = [], uaDirty = [], uaAdd = [], uaHeap = Map.empty\<rparr>"

definition arr_setDirty :: "oid \<Rightarrow> ('k, 'v) uarr \<Rightarrow> ('k, 'v) uarr" where
  "arr_setDirty i a =
     (if i \<in> set (uaAdd a) \<or> i \<in> set (uaDirty a) \<or> i \<in> set (uaDel a) then a
      else a\<lparr>uaDirty := uaDirty a @ [i]\<rparr>)"

text \<open>\<open>Add\<close> with the new object id \<open>i\<close> and the zero value of the other fields.\<close>

definition arr_Add :: "'v \<Rightarrow> oid \<Rightarrow> 'k \<Rightarrow> ('k, 'v) uarr \<Rightarrow> ('k, 'v) uarr \<times> oid option" where
  "arr_Add zero i k a =
     (if uaDict a k \<noteq> None then (a, None)
      else (a\<lparr>uaDict := (uaDict a)(k \<mapsto> i), uaAdd := uaAdd a @ [i],
              uaHeap := (uaHeap a)(i \<mapsto> \<lparr>adKey = k, adData = zero, adDirty = False\<rparr>)\<rparr>, Some i))"

definition arr_Delete :: "'k \<Rightarrow> ('k, 'v) uarr \<Rightarrow> ('k, 'v) uarr \<times> bool" where
  "arr_Delete k a =
     (case uaDict a k of
        None \<Rightarrow> (a, False)
      | Some i \<Rightarrow>
          if i \<in> set (uaDel a) then (a, True)
          else (a\<lparr>uaDict := (uaDict a)(k := None), uaDirty := removeAll i (uaDirty a),
                  uaAdd := removeAll i (uaAdd a), uaDel := uaDel a @ [i]\<rparr>, True))"

text \<open>
  The setter of a field, of the document \<open>i\<close>: \<open>f\<close> writes the field. Documents always know their array.
\<close>

definition doc_Set :: "oid \<Rightarrow> ('v \<Rightarrow> 'v) \<Rightarrow> ('k, 'v) uarr \<Rightarrow> ('k, 'v) uarr" where
  "doc_Set i f a =
     (case uaHeap a i of
        None \<Rightarrow> a
      | Some d \<Rightarrow>
          if adDirty d then a\<lparr>uaHeap := (uaHeap a)(i \<mapsto> d\<lparr>adData := f (adData d)\<rparr>)\<rparr>
          else arr_setDirty i (a\<lparr>uaHeap := (uaHeap a)(i \<mapsto> d\<lparr>adData := f (adData d), adDirty := True\<rparr>)\<rparr>))"

definition doc_SetDirty :: "oid \<Rightarrow> ('k, 'v) uarr \<Rightarrow> ('k, 'v) uarr" where
  "doc_SetDirty i a = doc_Set i (\<lambda>v. v) a"

definition arr_Get :: "'k \<Rightarrow> ('k, 'v) uarr \<Rightarrow> oid option" where "arr_Get k a = uaDict a k"

text \<open>\<open>Clear\<close> visits the map of the documents; \<open>ks\<close> are its keys in the order of the visit.\<close>

definition arr_Clear :: "'k list \<Rightarrow> ('k, 'v) uarr \<Rightarrow> ('k, 'v) uarr" where
  "arr_Clear ks a =
     a\<lparr>uaDel := fold (\<lambda>i del. if i \<in> set del then del else del @ [i]) (List.map_filter (uaDict a) ks) (uaDel a),
       uaAdd := [], uaDirty := [], uaDict := Map.empty\<rparr>"

section \<open>Save and Load\<close>

definition stored_doc :: "('k, 'v) uarr \<Rightarrow> oid \<Rightarrow> ('k, 'v) stored" where
  "stored_doc a i = (let d = the (uaHeap a i) in \<lparr>sdPrimary = uaPrimary a, sdKey = adKey d, sdData = adData d\<rparr>)"

text \<open>The writes, in the order in which the maps are visited.\<close>

definition save_models :: "(oid list \<Rightarrow> oid list) \<Rightarrow> ('k, 'v) uarr \<Rightarrow> ('k, 'v) stored write_model list" where
  "save_models visit a =
     map DeleteOne (visit (uaDel a)) @ map (\<lambda>i. InsertOne i (stored_doc a i)) (visit (uaAdd a))
     @ map (\<lambda>i. ReplaceOne i (stored_doc a i)) (visit (uaDirty a))"

definition clean_docs :: "oid set \<Rightarrow> ('k, 'v) uarr \<Rightarrow> ('k, 'v) uarr" where
  "clean_docs is a =
     a\<lparr>uaHeap := (\<lambda>i. if i \<in> is then map_option (adDirty_update (\<lambda>_. False)) (uaHeap a i) else uaHeap a i)\<rparr>"

text \<open>
  The maps are emptied before the write, except \<open>del\<close>, whose loop deletes from \<open>dirty\<close>; a failed
  write is returned.
\<close>

definition arr_Save ::
  "('s \<Rightarrow> ('k, 'v) stored write_model list \<Rightarrow> 's \<times> bool) \<Rightarrow> (oid list \<Rightarrow> oid list) \<Rightarrow>
     ('k, 'v) uarr \<Rightarrow> 's \<Rightarrow> ('k, 'v) uarr \<times> 's \<times> bool" where
  "arr_Save bulk visit a s =
     (let ms = save_models visit a;
          b = (clean_docs (set (uaAdd a) \<union> set (uaDirty a)) a)\<lparr>uaAdd := [], uaDirty := []\<rparr> in
      if ms = [] then (b, s, True) else (b, bulk s ms))"

text \<open>A visit of a map gives each of its keys once, in some order.\<close>

definition visits :: "(oid list \<Rightarrow> oid list) \<Rightarrow> bool" where
  "visits visit \<longleftrightarrow> (\<forall>xs. mset (visit xs) = mset xs)"

text \<open>\<open>Load\<close> of what the cursor gives; a later document replaces an earlier one with the same key.\<close>

definition load_doc :: "oid \<times> ('k, 'v) stored \<Rightarrow> ('k, 'v) uarr \<Rightarrow> ('k, 'v) uarr" where
  "load_doc x a = (case x of (i, d) \<Rightarrow>
     a\<lparr>uaDict := (uaDict a)(sdKey d \<mapsto> i),
       uaHeap := (uaHeap a)(i \<mapsto> \<lparr>adKey = sdKey d, adData = sdData d, adDirty = False\<rparr>)\<rparr>)"

definition arr_Load :: "nat \<Rightarrow> (oid \<times> ('k, 'v) stored) list \<Rightarrow> ('k, 'v) uarr" where
  "arr_Load pk results = fold load_doc results (newArr pk)"

text \<open>
  The whole \<open>Load\<close>: no answer for the query, or the documents the cursor gave before it stopped, each decoded
  or not. The cursor's own error is not asked for: a cursor that broke gives an array with the documents
  before the break.
\<close>

definition userarr_Load :: "nat \<Rightarrow> (oid \<times> ('k, 'v) stored) option list option \<Rightarrow> ('k, 'v) uarr option" where
  "userarr_Load pk answer =
     (case answer of
        None \<Rightarrow> None
      | Some results \<Rightarrow> (case those results of None \<Rightarrow> None | Some xs \<Rightarrow> Some (arr_Load pk xs)))"

lemma those_map_Some: "those (map Some xs) = Some xs"
  by (induction xs) simp_all

lemma userarr_Load_docs: "userarr_Load pk (Some (map Some xs)) = Some (arr_Load pk xs)"
  by (simp add: userarr_Load_def those_map_Some)

text \<open>What a cursor over the documents with the primary key gives.\<close>

definition cursor_of :: "('s \<Rightarrow> oid \<Rightarrow> ('k, 'v) stored option) \<Rightarrow> 's \<Rightarrow> nat \<Rightarrow> (oid \<times> ('k, 'v) stored) list \<Rightarrow> bool" where
  "cursor_of lookup s pk results \<longleftrightarrow> distinct (map fst results)
     \<and> (\<forall>i d. (i, d) \<in> set results \<longleftrightarrow> lookup s i = Some d \<and> sdPrimary d = pk)"

text \<open>What the array says of a key.\<close>

definition content :: "('k, 'v) uarr \<Rightarrow> 'k \<Rightarrow> 'v option" where
  "content a k = (case uaDict a k of None \<Rightarrow> None | Some i \<Rightarrow> map_option adData (uaHeap a i))"

section \<open>Steps of an application over an array\<close>

inductive arr_step ::
  "('s \<Rightarrow> oid \<Rightarrow> ('k, 'v) stored option) \<Rightarrow> ('s \<Rightarrow> ('k, 'v) stored write_model list \<Rightarrow> 's \<times> bool) \<Rightarrow>
     ('k, 'v) uarr \<times> 's \<Rightarrow> ('k, 'v) uarr \<times> 's \<Rightarrow> bool"
for lookup bulk where
  step_add: "i \<notin> dom (uaHeap a) \<Longrightarrow> lookup s i = None \<Longrightarrow> arr_step lookup bulk (a, s) (fst (arr_Add zero i k a), s)"
| step_delete: "arr_step lookup bulk (a, s) (fst (arr_Delete k a), s)"
| step_set: "arr_step lookup bulk (a, s) (doc_Set i f a, s)"
| step_clear: "dom (uaDict a) = set ks \<Longrightarrow> distinct ks \<Longrightarrow> arr_step lookup bulk (a, s) (arr_Clear ks a, s)"
| step_save: "visits visit \<Longrightarrow> arr_Save bulk visit a s = (b, t, True) \<Longrightarrow>
     arr_step lookup bulk (a, s) (b, t)"

text \<open>
  The invariant: what the three maps hold, that a document that is in none of them is stored as it is,
  and that the stored documents of the user are those of the array and those to be deleted.
\<close>

definition lists_ok :: "('k, 'v) uarr \<Rightarrow> bool" where
  "lists_ok a \<longleftrightarrow> distinct (uaAdd a) \<and> distinct (uaDirty a) \<and> distinct (uaDel a)
     \<and> set (uaAdd a) \<inter> set (uaDirty a) = {} \<and> (set (uaAdd a) \<union> set (uaDirty a)) \<inter> set (uaDel a) = {}
     \<and> set (uaAdd a) \<union> set (uaDirty a) \<subseteq> ran (uaDict a) \<and> ran (uaDict a) \<inter> set (uaDel a) = {}
     \<and> dom (uaHeap a) = ran (uaDict a) \<union> set (uaDel a)"

text \<open>A document of the array, by its key.\<close>

definition member_ok :: "('s \<Rightarrow> oid \<Rightarrow> ('k, 'v) stored option) \<Rightarrow> ('k, 'v) uarr \<Rightarrow> 's \<Rightarrow> 'k \<Rightarrow> oid \<Rightarrow> bool" where
  "member_ok lookup a s k i \<longleftrightarrow>
     (\<exists>d. uaHeap a i = Some d \<and> adKey d = k
        \<and> (i \<in> set (uaAdd a) \<longleftrightarrow> lookup s i = None)
        \<and> (i \<notin> set (uaAdd a) \<longrightarrow>
             (\<exists>e. lookup s i = Some e \<and> sdPrimary e = uaPrimary a \<and> sdKey e = k
               \<and> (i \<notin> set (uaDirty a) \<longrightarrow> sdData e = adData d)))
        \<and> (adDirty d \<longrightarrow> i \<in> set (uaAdd a) \<or> i \<in> set (uaDirty a)))"

definition arr_inv :: "('s \<Rightarrow> oid \<Rightarrow> ('k, 'v) stored option) \<Rightarrow> ('k, 'v) uarr \<Rightarrow> 's \<Rightarrow> bool" where
  "arr_inv lookup a s \<longleftrightarrow> lists_ok a \<and> (\<forall>k i. uaDict a k = Some i \<longrightarrow> member_ok lookup a s k i)
     \<and> (\<forall>i d. i \<in> set (uaDel a) \<longrightarrow> lookup s i = Some d \<longrightarrow> sdPrimary d = uaPrimary a)
     \<and> (\<forall>i e. lookup s i = Some e \<longrightarrow> sdPrimary e = uaPrimary a \<longrightarrow> i \<notin> set (uaDel a) \<longrightarrow>
          uaDict a (sdKey e) = Some i)"

lemma arr_invD:
  assumes "arr_inv lookup a s"
  shows "lists_ok a" and "uaDict a k = Some i \<Longrightarrow> member_ok lookup a s k i"
    and "i \<in> set (uaDel a) \<Longrightarrow> lookup s i = Some d \<Longrightarrow> sdPrimary d = uaPrimary a"
    and "lookup s i = Some e \<Longrightarrow> sdPrimary e = uaPrimary a \<Longrightarrow> i \<notin> set (uaDel a) \<Longrightarrow> uaDict a (sdKey e) = Some i"
  using assms by (simp_all add: arr_inv_def)

lemma arr_invI:
  assumes "lists_ok a" and "\<And>k i. uaDict a k = Some i \<Longrightarrow> member_ok lookup a s k i"
    and "\<And>i d. i \<in> set (uaDel a) \<Longrightarrow> lookup s i = Some d \<Longrightarrow> sdPrimary d = uaPrimary a"
    and "\<And>i e. lookup s i = Some e \<Longrightarrow> sdPrimary e = uaPrimary a \<Longrightarrow> i \<notin> set (uaDel a) \<Longrightarrow>
      uaDict a (sdKey e) = Some i"
  shows "arr_inv lookup a s"
  using assms by (simp add: arr_inv_def)

lemma member_key: "member_ok lookup a s k i \<Longrightarrow> member_ok lookup a s j i \<Longrightarrow> k = j"
  by (auto simp: member_ok_def)

lemma dict_inj: "arr_inv lookup a s \<Longrightarrow> uaDict a k = Some i \<Longrightarrow> uaDict a j = Some i \<Longrightarrow> k = j"
  using arr_invD(2) member_key by metis

lemma arr_Add_inv:
  assumes inv: "arr_inv lookup a s" and fresh: "i \<notin> dom (uaHeap a)" "lookup s i = None"
  shows "arr_inv lookup (fst (arr_Add zero i k a)) s"
proof (cases "uaDict a k")
  case None
  note L = arr_invD(1) [OF inv, unfolded lists_ok_def]
  have n: "i \<notin> ran (uaDict a)"
    using fresh(1) arr_invD(2) [OF inv] by (auto simp: ran_def member_ok_def)
  have d: "i \<notin> set (uaDel a)" using L fresh(1) by blast
  show ?thesis
  proof (rule arr_invI)
    show "lists_ok (fst (arr_Add zero i k a))"
      using L n d None by (auto simp: lists_ok_def arr_Add_def)
    show "member_ok lookup (fst (arr_Add zero i k a)) s j m"
      if "uaDict (fst (arr_Add zero i k a)) j = Some m" for j m
    proof (cases "m = i")
      case True
      then have "j = k" using that n None by (auto simp: arr_Add_def ran_def split: if_splits)
      then show ?thesis using fresh(2) None True by (simp add: arr_Add_def member_ok_def)
    next
      case False
      then have "uaDict a j = Some m" using that None by (auto simp: arr_Add_def split: if_splits)
      then show ?thesis using arr_invD(2) [OF inv, of j m] False None by (auto simp: member_ok_def arr_Add_def)
    qed
    show "sdPrimary e = uaPrimary (fst (arr_Add zero i k a))"
      if "m \<in> set (uaDel (fst (arr_Add zero i k a)))" "lookup s m = Some e" for m e
      using that arr_invD(3) [OF inv] None by (simp add: arr_Add_def)
    show "uaDict (fst (arr_Add zero i k a)) (sdKey e) = Some m"
      if "lookup s m = Some e" "sdPrimary e = uaPrimary (fst (arr_Add zero i k a))"
        "m \<notin> set (uaDel (fst (arr_Add zero i k a)))" for m e
      using that arr_invD(4) [OF inv, of m e] None by (auto simp: arr_Add_def)
  qed
qed (use inv in \<open>simp add: arr_Add_def\<close>)

lemma arr_Delete_inv:
  assumes inv: "arr_inv lookup a s"
  shows "arr_inv lookup (fst (arr_Delete k a)) s"
proof (cases "uaDict a k")
  case (Some i)
  note L = arr_invD(1) [OF inv, unfolded lists_ok_def]
  have m: "member_ok lookup a s k i" by (rule arr_invD(2) [OF inv Some])
  have ri: "i \<in> ran (uaDict a)" using Some by (auto simp: ran_def)
  then have nd: "i \<notin> set (uaDel a)" using L by blast
  let ?b = "fst (arr_Delete k a)"
  have b: "?b = a\<lparr>uaDict := (uaDict a)(k := None), uaDirty := removeAll i (uaDirty a),
      uaAdd := removeAll i (uaAdd a), uaDel := uaDel a @ [i]\<rparr>"
    using Some nd by (simp add: arr_Delete_def)
  have r: "ran ((uaDict a)(k := None)) = ran (uaDict a) - {i}"
    using Some dict_inj [OF inv] by (auto simp: ran_def) (metis option.inject)
  show ?thesis
  proof (rule arr_invI)
    show "lists_ok ?b"
      using L nd r m unfolding b by (auto simp: lists_ok_def distinct_removeAll member_ok_def)
    show "member_ok lookup ?b s j n" if "uaDict ?b j = Some n" for j n
    proof -
      have j: "uaDict a j = Some n" "j \<noteq> k" using that by (simp_all add: b split: if_splits)
      then have "n \<noteq> i" using Some dict_inj [OF inv] by blast
      then show ?thesis using arr_invD(2) [OF inv j(1)] by (simp add: b member_ok_def)
    qed
    show "sdPrimary e = uaPrimary ?b" if "n \<in> set (uaDel ?b)" "lookup s n = Some e" for n e
      using that m arr_invD(3) [OF inv] by (auto simp: b member_ok_def)
    show "uaDict ?b (sdKey e) = Some n"
      if "lookup s n = Some e" "sdPrimary e = uaPrimary ?b" "n \<notin> set (uaDel ?b)" for n e
      using that arr_invD(4) [OF inv, of n e] Some by (auto simp: b)
  qed
qed (use inv in \<open>simp add: arr_Delete_def\<close>)

lemma doc_Set_inv:
  assumes inv: "arr_inv lookup a s"
  shows "arr_inv lookup (doc_Set i f a) s"
proof (cases "uaHeap a i")
  case (Some d)
  note L = arr_invD(1) [OF inv, unfolded lists_ok_def]
  let ?b = "doc_Set i f a"
  let ?new = "\<not> adDirty d \<and> i \<notin> set (uaAdd a) \<and> i \<notin> set (uaDirty a) \<and> i \<notin> set (uaDel a)"
  have b: "uaDict ?b = uaDict a" "uaDel ?b = uaDel a" "uaAdd ?b = uaAdd a" "uaPrimary ?b = uaPrimary a"
      "uaDirty ?b = (if ?new then uaDirty a @ [i] else uaDirty a)"
      "uaHeap ?b = (uaHeap a)(i \<mapsto> d\<lparr>adData := f (adData d), adDirty := True\<rparr>)"
    using Some by (auto simp: doc_Set_def arr_setDirty_def)
  have i: "i \<in> ran (uaDict a) \<or> i \<in> set (uaDel a)" using L Some by blast
  show ?thesis
  proof (rule arr_invI)
    show "lists_ok ?b" using L i Some by (auto simp: lists_ok_def b)
    show "member_ok lookup ?b s k j" if "uaDict ?b k = Some j" for k j
    proof -
      have k: "uaDict a k = Some j" using that by (simp add: b)
      then have "j \<in> ran (uaDict a)" by (auto simp: ran_def)
      then have nd: "j \<notin> set (uaDel a)" using L by blast
      have m: "member_ok lookup a s k j" by (rule arr_invD(2) [OF inv k])
      show ?thesis
      proof (cases "j = i")
        case True
        then show ?thesis using m Some nd by (auto simp: member_ok_def b)
      next
        case False
        then show ?thesis using m by (auto simp: member_ok_def b)
      qed
    qed
  qed (use arr_invD(3,4) [OF inv] in \<open>auto simp: b\<close>)
qed (use inv in \<open>simp add: doc_Set_def\<close>)

lemma clear_del:
  "set (fold (\<lambda>i del. if i \<in> set del then del else del @ [i]) is del) = set del \<union> set is
   \<and> (distinct del \<longrightarrow> distinct (fold (\<lambda>i del. if i \<in> set del then del else del @ [i]) is del))"
  by (induction "is" arbitrary: del) (auto simp del: distinct_append, simp_all)

lemma arr_Clear_inv:
  assumes inv: "arr_inv lookup a s" and ks: "dom (uaDict a) = set ks"
  shows "arr_inv lookup (arr_Clear ks a) s"
proof -
  note L = arr_invD(1) [OF inv, unfolded lists_ok_def]
  have "set (List.map_filter (uaDict a) ks) = ran (uaDict a)"
    using ks by (force simp: map_filter_def ran_def)
  then have del: "set (uaDel (arr_Clear ks a)) = set (uaDel a) \<union> ran (uaDict a)" "distinct (uaDel (arr_Clear ks a))"
    using clear_del [of "List.map_filter (uaDict a) ks" "uaDel a"] L by (simp_all add: arr_Clear_def)
  show ?thesis
  proof (rule arr_invI)
    show "lists_ok (arr_Clear ks a)" using L del by (auto simp: lists_ok_def arr_Clear_def)
    show "member_ok lookup (arr_Clear ks a) s k i" if "uaDict (arr_Clear ks a) k = Some i" for k i
      using that by (simp add: arr_Clear_def)
    show "sdPrimary d = uaPrimary (arr_Clear ks a)" if "i \<in> set (uaDel (arr_Clear ks a))" "lookup s i = Some d" for i d
    proof (cases "i \<in> set (uaDel a)")
      case False
      then have "i \<in> ran (uaDict a)" using that(1) del(1) by blast
      then obtain k where "uaDict a k = Some i" by (auto simp: ran_def)
      then show ?thesis using arr_invD(2) [OF inv, of k i] that(2) by (auto simp: member_ok_def arr_Clear_def)
    qed (use arr_invD(3) [OF inv] that(2) in \<open>simp add: arr_Clear_def\<close>)
    show "uaDict (arr_Clear ks a) (sdKey e) = Some i"
      if "lookup s i = Some e" "sdPrimary e = uaPrimary (arr_Clear ks a)" "i \<notin> set (uaDel (arr_Clear ks a))" for i e
      using that del arr_invD(4) [OF inv, of i e] by (auto simp: arr_Clear_def ran_def)
  qed
qed

section \<open>Save writes the array back\<close>

lemma visits_set: "visits visit \<Longrightarrow> set (visit xs) = set xs" "visits visit \<Longrightarrow> distinct (visit xs) = distinct xs"
  by (auto simp: visits_def dest: mset_eq_setD mset_eq_imp_distinct_iff)

text \<open>The three maps hold different documents; this does not depend on what is stored.\<close>

definition lists_apart :: "('k, 'v) uarr \<Rightarrow> bool" where
  "lists_apart a \<longleftrightarrow> distinct (uaAdd a) \<and> distinct (uaDirty a) \<and> distinct (uaDel a)
     \<and> set (uaAdd a) \<inter> set (uaDirty a) = {} \<and> (set (uaAdd a) \<union> set (uaDirty a)) \<inter> set (uaDel a) = {}
     \<and> set (uaAdd a) \<union> set (uaDirty a) \<union> set (uaDel a) \<union> ran (uaDict a) \<subseteq> dom (uaHeap a)"

lemma lists_ok_apart: "lists_ok a \<Longrightarrow> lists_apart a"
  by (auto simp: lists_ok_def lists_apart_def)

lemma save_models_facts:
  assumes v: "visits visit" and L: "lists_apart a"
  shows "distinct (map write_id (save_models visit a))"
    and "i \<in> set (uaDel a) \<Longrightarrow> DeleteOne i \<in> set (save_models visit a)"
    and "i \<in> set (uaAdd a) \<Longrightarrow> InsertOne i (stored_doc a i) \<in> set (save_models visit a)"
    and "i \<in> set (uaDirty a) \<Longrightarrow> ReplaceOne i (stored_doc a i) \<in> set (save_models visit a)"
    and "write_id ` set (save_models visit a) = set (uaDel a) \<union> set (uaAdd a) \<union> set (uaDirty a)"
    and "save_models visit a = [] \<longleftrightarrow> uaDel a = [] \<and> uaAdd a = [] \<and> uaDirty a = []"
proof -
  have "map write_id (save_models visit a) = visit (uaDel a) @ visit (uaAdd a) @ visit (uaDirty a)"
    by (simp add: save_models_def comp_def)
  note ids = this
  show "write_id ` set (save_models visit a) = set (uaDel a) \<union> set (uaAdd a) \<union> set (uaDirty a)"
    using arg_cong [OF ids, of set] by (simp add: visits_set [OF v] Un_assoc)
  show "distinct (map write_id (save_models visit a))"
    using L unfolding ids by (simp add: visits_set [OF v] lists_apart_def) blast
  have e: "visit xs = [] \<longleftrightarrow> xs = []" for xs using visits_set(1) [OF v, of xs] by (metis set_empty)
  show "save_models visit a = [] \<longleftrightarrow> uaDel a = [] \<and> uaAdd a = [] \<and> uaDirty a = []"
    by (simp add: save_models_def e)
qed (simp_all add: save_models_def visits_set [OF v])

text \<open>Where the documents are after a write that succeeds.\<close>

lemma saved_lookup:
  assumes store: "bulk_store lookup bulk" and v: "visits visit" and inv: "arr_inv lookup a s"
    and save: "arr_Save bulk visit a s = (b, t, True)"
  shows "lookup t i =
    (if i \<in> set (uaDel a) then None
     else if i \<in> set (uaAdd a) \<union> set (uaDirty a) then Some (stored_doc a i) else lookup s i)"
proof -
  have L: "lists_ok a" by (rule arr_invD(1) [OF inv])
  note F = save_models_facts [OF v lists_ok_apart [OF L]]
  show ?thesis
  proof (cases "save_models visit a = []")
    case True
    then show ?thesis using F(6) save by (simp add: arr_Save_def)
  next
    case False
    then have w: "bulk s (save_models visit a) = (t, True)" using save by (simp add: arr_Save_def Let_def)
    note wr = bulk_store.bulk_deletes [OF store w F(1)] bulk_store.bulk_inserts [OF store w F(1)]
      bulk_store.bulk_replaces [OF store w F(1)] bulk_store.bulk_others [OF store w]
    have "lookup s i \<noteq> None" if i: "i \<in> set (uaDirty a)"
    proof -
      have "i \<in> ran (uaDict a)" using i L by (auto simp: lists_ok_def)
      then obtain k where "uaDict a k = Some i" by (auto simp: ran_def)
      then show ?thesis using arr_invD(2) [OF inv, of k i] i L by (auto simp: member_ok_def lists_ok_def)
    qed
    then show ?thesis using wr F(2-5) by auto
  qed
qed

lemma saved_arr:
  assumes "arr_Save bulk visit a s = (b, t, ok)"
  shows "uaDict b = uaDict a" "uaDel b = uaDel a" "uaAdd b = []" "uaDirty b = []" "uaPrimary b = uaPrimary a"
    "uaHeap b i = (if i \<in> set (uaAdd a) \<union> set (uaDirty a)
       then map_option (adDirty_update (\<lambda>_. False)) (uaHeap a i) else uaHeap a i)"
  using assms by (auto simp: arr_Save_def Let_def clean_docs_def split: if_splits)

lemma arr_Save_inv:
  assumes store: "bulk_store lookup bulk" and v: "visits visit" and inv: "arr_inv lookup a s"
    and save: "arr_Save bulk visit a s = (b, t, True)"
  shows "arr_inv lookup b t"
proof -
  note L = arr_invD(1) [OF inv, unfolded lists_ok_def]
  note S = saved_lookup [OF store v inv save]
  note B = saved_arr [OF save]
  have "dom (uaHeap b) = dom (uaHeap a)" by (auto simp: dom_def B(6))
  then have lists: "lists_ok b" using L by (simp add: lists_ok_def B)
  show ?thesis
  proof (rule arr_invI [OF lists])
    show "member_ok lookup b t k i" if k: "uaDict b k = Some i" for k i
    proof -
      have k': "uaDict a k = Some i" using k by (simp add: B)
      then have "i \<notin> set (uaDel a)" using L by (auto simp: ran_def)
      then show ?thesis
        using arr_invD(2) [OF inv k'] by (auto simp: member_ok_def B S stored_doc_def Let_def)
    qed
    show "sdPrimary d = uaPrimary b" if "i \<in> set (uaDel b)" "lookup t i = Some d" for i d
      using that by (simp add: B S)
    show "uaDict b (sdKey e) = Some i"
      if e: "lookup t i = Some e" "sdPrimary e = uaPrimary b" "i \<notin> set (uaDel b)" for i e
    proof (cases "i \<in> set (uaAdd a) \<union> set (uaDirty a)")
      case True
      then have "i \<in> ran (uaDict a)" using L by blast
      then obtain k where k: "uaDict a k = Some i" by (auto simp: ran_def)
      then show ?thesis using arr_invD(2) [OF inv k] e True by (auto simp: B S stored_doc_def member_ok_def Let_def)
    next
      case False
      then show ?thesis using e arr_invD(4) [OF inv, of i e] by (simp add: B S)
    qed
  qed
qed

text \<open>After a successful save the stored documents of the user are those of the array.\<close>

lemma saved_documents:
  assumes store: "bulk_store lookup bulk" and v: "visits visit" and inv: "arr_inv lookup a s"
    and save: "arr_Save bulk visit a s = (b, t, True)"
  shows "(lookup t i = Some e \<and> sdPrimary e = uaPrimary a) \<longleftrightarrow>
      (\<exists>k d. uaDict a k = Some i \<and> uaHeap a i = Some d \<and> e = \<lparr>sdPrimary = uaPrimary a, sdKey = k, sdData = adData d\<rparr>)"
proof -
  note L = arr_invD(1) [OF inv, unfolded lists_ok_def]
  note S = saved_lookup [OF store v inv save]
  note T = arr_Save_inv [OF store v inv save]
  note B = saved_arr [OF save]
  have member: "lookup t i = Some \<lparr>sdPrimary = uaPrimary a, sdKey = k, sdData = adData d\<rparr>"
    if k: "uaDict a k = Some i" and d: "uaHeap a i = Some d" for k d
  proof -
    have "i \<notin> set (uaDel a)" using L k by (auto simp: ran_def)
    then show ?thesis
      using arr_invD(2) [OF inv k] d by (auto simp: S member_ok_def stored_doc_def Let_def)
  qed
  show ?thesis
  proof
    assume e: "lookup t i = Some e \<and> sdPrimary e = uaPrimary a"
    then have "i \<notin> set (uaDel a)" by (auto simp: S)
    then have k: "uaDict a (sdKey e) = Some i" using arr_invD(4) [OF T, of i e] e by (simp add: B)
    obtain d where d: "uaHeap a i = Some d" using arr_invD(2) [OF inv k] by (auto simp: member_ok_def)
    then show "\<exists>k d. uaDict a k = Some i \<and> uaHeap a i = Some d
        \<and> e = \<lparr>sdPrimary = uaPrimary a, sdKey = k, sdData = adData d\<rparr>"
      using member [OF k d] e k by auto
  qed (use member in auto)
qed


section \<open>From the load to the save\<close>

text \<open>Each document of the user has a key of its own, what the unique index of the collection gives.\<close>

definition one_per_key :: "(oid \<times> ('k, 'v) stored) list \<Rightarrow> bool" where
  "one_per_key results \<longleftrightarrow> distinct (map (\<lambda>x. sdKey (snd x)) results)"

lemma load_fields:
  "uaPrimary (fold load_doc xs a) = uaPrimary a" "uaDel (fold load_doc xs a) = uaDel a"
  "uaAdd (fold load_doc xs a) = uaAdd a" "uaDirty (fold load_doc xs a) = uaDirty a"
  by (induction xs arbitrary: a) (simp_all add: load_doc_def split: prod.splits)

lemma load_dict:
  "one_per_key xs \<Longrightarrow> uaDict (fold load_doc xs a) k =
     (case find (\<lambda>x. sdKey (snd x) = k) xs of None \<Rightarrow> uaDict a k | Some x \<Rightarrow> Some (fst x))"
proof (induction xs arbitrary: a)
  case (Cons x xs)
  then have "find (\<lambda>y. sdKey (snd y) = sdKey (snd x)) xs = None"
    by (auto simp: find_None_iff one_per_key_def image_iff)
  moreover have "one_per_key xs" using Cons.prems by (simp add: one_per_key_def)
  ultimately show ?case using Cons.IH by (cases x) (auto simp: load_doc_def split: option.splits)
qed simp

lemma load_heap:
  "distinct (map fst xs) \<Longrightarrow> uaHeap (fold load_doc xs a) i =
     (case find (\<lambda>x. fst x = i) xs of None \<Rightarrow> uaHeap a i
      | Some x \<Rightarrow> Some \<lparr>adKey = sdKey (snd x), adData = sdData (snd x), adDirty = False\<rparr>)"
proof (induction xs arbitrary: a)
  case (Cons x xs)
  have "find (\<lambda>y. fst y = fst x) xs = None"
    using Cons.prems by (auto simp: find_None_iff image_iff)
  then show ?case using Cons by (cases x) (auto simp: load_doc_def split: option.splits)
qed simp

lemma find_distinct:
  "distinct (map f xs) \<Longrightarrow> x \<in> set xs \<Longrightarrow> find (\<lambda>y. f y = f x) xs = Some x"
  by (induction xs) (auto simp: rev_image_eqI)

lemma find_Some_D: "find P xs = Some x \<Longrightarrow> x \<in> set xs \<and> P x"
  by (induction xs) (auto split: if_splits)

lemma arr_Load_facts:
  assumes "distinct (map fst xs)" "one_per_key xs"
  shows "uaDict (arr_Load pk xs) k = Some i \<longleftrightarrow> (\<exists>d. (i, d) \<in> set xs \<and> sdKey d = k)"
    and "uaHeap (arr_Load pk xs) i = Some d' \<longleftrightarrow>
      (\<exists>d. (i, d) \<in> set xs \<and> d' = \<lparr>adKey = sdKey d, adData = sdData d, adDirty = False\<rparr>)"
    and "uaPrimary (arr_Load pk xs) = pk" "uaDel (arr_Load pk xs) = []"
      "uaAdd (arr_Load pk xs) = []" "uaDirty (arr_Load pk xs) = []"
proof -
  have k: "find (\<lambda>x. sdKey (snd x) = sdKey d) xs = Some (i, d)" if "(i, d) \<in> set xs" for i d
    using find_distinct [of "\<lambda>x. sdKey (snd x)" xs, OF _ that] assms(2) by (simp add: one_per_key_def)
  have h: "find (\<lambda>x. fst x = i) xs = Some (i, d)" if "(i, d) \<in> set xs" for i d
    using find_distinct [of fst xs, OF assms(1) that] by simp
  show "uaDict (arr_Load pk xs) k = Some i \<longleftrightarrow> (\<exists>d. (i, d) \<in> set xs \<and> sdKey d = k)"
    using load_dict [OF assms(2), of "newArr pk" k] k
    by (fastforce simp: arr_Load_def newArr_def split: option.splits dest: find_Some_D)
  show "uaHeap (arr_Load pk xs) i = Some d' \<longleftrightarrow>
      (\<exists>d. (i, d) \<in> set xs \<and> d' = \<lparr>adKey = sdKey d, adData = sdData d, adDirty = False\<rparr>)"
    using load_heap [OF assms(1), of "newArr pk" i] h
    by (fastforce simp: arr_Load_def newArr_def split: option.splits dest: find_Some_D)
qed (simp_all add: arr_Load_def load_fields newArr_def)

lemma arr_Load_inv:
  assumes c: "cursor_of lookup s pk xs" and one: "one_per_key xs"
  shows "arr_inv lookup (arr_Load pk xs) s"
proof -
  have d: "distinct (map fst xs)" and m: "\<And>i d. (i, d) \<in> set xs \<longleftrightarrow> lookup s i = Some d \<and> sdPrimary d = pk"
    using c by (auto simp: cursor_of_def)
  note F = arr_Load_facts [OF d one, of pk]
  have dom: "dom (uaHeap (arr_Load pk xs)) = ran (uaDict (arr_Load pk xs))"
    by (auto simp: ran_def dom_def F)
  show ?thesis
  proof (rule arr_invI)
    show "lists_ok (arr_Load pk xs)" using dom by (simp add: lists_ok_def F)
    show "member_ok lookup (arr_Load pk xs) s k i" if "uaDict (arr_Load pk xs) k = Some i" for k i
      using that m by (auto simp: member_ok_def F)
    show "uaDict (arr_Load pk xs) (sdKey e) = Some i"
      if "lookup s i = Some e" "sdPrimary e = uaPrimary (arr_Load pk xs)" for i e
      using that m by (auto simp: F)
  qed (simp add: F)
qed


inductive_cases arr_stepE: "arr_step lookup bulk c c'"

lemma arr_step_primary: "arr_step lookup bulk c c' \<Longrightarrow> uaPrimary (fst c') = uaPrimary (fst c)"
  by (erule arr_step.cases)
     (auto simp: arr_Add_def arr_Delete_def doc_Set_def arr_setDirty_def arr_Clear_def saved_arr(5) split: option.splits)

lemma arr_step_inv:
  assumes "arr_step lookup bulk c c'" "bulk_store lookup bulk" "arr_inv lookup (fst c) (snd c)"
  shows "arr_inv lookup (fst c') (snd c')"
  using assms
  by cases (auto intro: arr_Add_inv arr_Delete_inv doc_Set_inv arr_Clear_inv arr_Save_inv)

text \<open>The documents of the other users.\<close>

lemma save_others:
  assumes store: "bulk_store lookup bulk" and v: "visits visit" and inv: "arr_inv lookup a s"
    and save: "arr_Save bulk visit a s = (b, t, True)" and p: "sdPrimary e \<noteq> uaPrimary a"
  shows "lookup t i = Some e \<longleftrightarrow> lookup s i = Some e"
proof -
  have "lookup s i \<noteq> Some e" if "i \<in> set (uaDel a)" using arr_invD(3) [OF inv that] p by blast
  moreover have "lookup s i \<noteq> Some e" if "i \<in> set (uaAdd a) \<union> set (uaDirty a)"
  proof -
    have "i \<in> ran (uaDict a)" using that arr_invD(1) [OF inv] by (auto simp: lists_ok_def)
    then obtain k where "uaDict a k = Some i" by (auto simp: ran_def)
    from arr_invD(2) [OF inv this] show ?thesis using p by (auto simp: member_ok_def)
  qed
  moreover have "stored_doc a i \<noteq> e" using p by (auto simp: stored_doc_def Let_def)
  ultimately show ?thesis by (auto simp: saved_lookup [OF store v inv save])
qed

text \<open>What holds of the array and of the store after any steps from a load.\<close>

definition since_load :: "('s \<Rightarrow> oid \<Rightarrow> ('k, 'v) stored option) \<Rightarrow> 's \<Rightarrow> nat \<Rightarrow> ('k, 'v) uarr \<times> 's \<Rightarrow> bool" where
  "since_load lookup s pk c \<longleftrightarrow> arr_inv lookup (fst c) (snd c) \<and> uaPrimary (fst c) = pk
     \<and> (\<forall>i e. sdPrimary e \<noteq> pk \<longrightarrow> lookup (snd c) i = Some e \<longleftrightarrow> lookup s i = Some e)"

lemma since_load_step:
  assumes "arr_step lookup bulk c c'" "bulk_store lookup bulk" "since_load lookup s pk c"
  shows "since_load lookup s pk c'"
proof -
  have "lookup (snd c') i = Some e \<longleftrightarrow> lookup (snd c) i = Some e" if "sdPrimary e \<noteq> pk" for i e
    using assms(1)
  proof cases
    case (step_save visit a r b t)
    then show ?thesis using save_others [OF assms(2) step_save(3) _ step_save(4)] assms(3) that
      by (simp add: since_load_def)
  qed simp_all
  then show ?thesis
    using assms(3) arr_step_inv [OF assms(1,2)] arr_step_primary [OF assms(1)] by (simp add: since_load_def)
qed

lemma since_load_steps:
  assumes store: "bulk_store lookup bulk" and c: "cursor_of lookup s pk xs" "one_per_key xs"
    and steps: "(arr_step lookup bulk)\<^sup>*\<^sup>* (arr_Load pk xs, s) c"
  shows "since_load lookup s pk c"
  using steps
proof (rule step_relation.reachable_inv [where init = "\<lambda>c. c = (arr_Load pk xs, s)", OF step_relation.intro, rotated 3])
  show "since_load lookup s pk d" if "d = (arr_Load pk xs, s)" for d
    using that arr_Load_inv [OF c] c(1) by (simp add: since_load_def arr_Load_def load_fields newArr_def)
qed (use since_load_step store in auto)



text \<open>
  C23. Loading a user again gives the same array: after a load, any operations and a save without
  error, the array that a second \<open>Load\<close> builds from what the cursor gives has the same keys with the
  same fields.
\<close>

theorem load_after_save:
  assumes "bulk_store lookup bulk" and "cursor_of lookup s pk xs" and "one_per_key xs"
    and "(arr_step lookup bulk)\<^sup>*\<^sup>* (arr_Load pk xs, s) (a, t)"
    and "visits visit" and "arr_Save bulk visit a t = (b, u, True)" and "cursor_of lookup u pk ys"
  shows "content (arr_Load pk ys) = content a"
proof
  fix k
  have l: "arr_inv lookup a t" "uaPrimary a = pk"
    using since_load_steps [OF assms(1-4)] by (simp_all add: since_load_def)
  have d: "distinct (map fst ys)" and m: "\<And>i e. (i, e) \<in> set ys \<longleftrightarrow>
      (\<exists>k d. uaDict a k = Some i \<and> uaHeap a i = Some d \<and> e = \<lparr>sdPrimary = pk, sdKey = k, sdData = adData d\<rparr>)"
    using assms(7) saved_documents [OF assms(1,5) l(1) assms(6)] l(2) by (auto simp: cursor_of_def)
  have "x = y" if "x \<in> set ys" "y \<in> set ys" "sdKey (snd x) = sdKey (snd y)" for x y
    using that m [of "fst x" "snd x"] m [of "fst y" "snd y"] by (auto intro: prod_eqI)
  then have one: "one_per_key ys"
    using d by (auto simp: one_per_key_def distinct_map inj_on_def)
  note F = arr_Load_facts [OF d one, of pk]
  show "content (arr_Load pk ys) k = content a k"
  proof (cases "uaDict a k")
    case None
    then have "uaDict (arr_Load pk ys) k \<noteq> Some i" for i using m by (auto simp: F(1))
    then have "uaDict (arr_Load pk ys) k = None" by (cases "uaDict (arr_Load pk ys) k") auto
    then show ?thesis using None by (simp add: content_def)
  next
    case (Some i)
    obtain x where x: "uaHeap a i = Some x" using arr_invD(2) [OF l(1) Some] by (auto simp: member_ok_def)
    let ?e = "\<lparr>sdPrimary = pk, sdKey = k, sdData = adData x\<rparr>"
    have e: "(i, ?e) \<in> set ys" using m Some x by blast
    then have "uaDict (arr_Load pk ys) k = Some i" "uaHeap (arr_Load pk ys) i = Some \<lparr>adKey = k, adData = adData x, adDirty = False\<rparr>"
      using F(1) [of k i] F(2) [of i] by fastforce+
    then show ?thesis using Some x by (simp add: content_def)
  qed
qed


section \<open>A save that fails\<close>

definition lost :: "('s \<Rightarrow> oid \<Rightarrow> ('k, 'v) stored option) \<Rightarrow> oid \<Rightarrow> ('k, 'v) uarr \<times> 's \<Rightarrow> bool" where
  "lost lookup i c \<longleftrightarrow> lists_apart (fst c) \<and> i \<in> dom (uaHeap (fst c)) \<and> i \<notin> set (uaAdd (fst c)) \<and> lookup (snd c) i = None"

lemma ran_upd_subset: "ran (m(k \<mapsto> i)) \<subseteq> insert i (ran m)" "ran (m(k := None)) \<subseteq> ran m"
  by (auto simp: ran_def)

lemma arr_Add_apart: "lists_apart a \<Longrightarrow> i \<notin> dom (uaHeap a) \<Longrightarrow> lists_apart (fst (arr_Add z i k a))"
  using ran_upd_subset(1) [of "uaDict a" k i] by (auto simp: lists_apart_def arr_Add_def)

lemma arr_Delete_apart: "lists_apart a \<Longrightarrow> lists_apart (fst (arr_Delete k a))"
  using ran_upd_subset(2) [of "uaDict a" k]
  by (auto simp: lists_apart_def arr_Delete_def distinct_removeAll ran_def split: option.splits)

lemma doc_Set_apart: "lists_apart a \<Longrightarrow> lists_apart (doc_Set i f a)"
  by (auto simp: lists_apart_def doc_Set_def arr_setDirty_def split: option.splits)

lemma arr_Clear_apart: "lists_apart a \<Longrightarrow> lists_apart (arr_Clear ks a)"
  using clear_del [of "List.map_filter (uaDict a) ks" "uaDel a"]
  by (auto simp: lists_apart_def arr_Clear_def map_filter_def ran_def)

lemma arr_Save_apart: "lists_apart a \<Longrightarrow> arr_Save bulk visit a s = (b, t, ok) \<Longrightarrow> lists_apart b"
  by (auto simp: lists_apart_def saved_arr dom_def)


text \<open>The steps with the saves that fail.\<close>

inductive arr_try ::
  "('s \<Rightarrow> oid \<Rightarrow> ('k, 'v) stored option) \<Rightarrow> ('s \<Rightarrow> ('k, 'v) stored write_model list \<Rightarrow> 's \<times> bool) \<Rightarrow>
     ('k, 'v) uarr \<times> 's \<Rightarrow> ('k, 'v) uarr \<times> 's \<Rightarrow> bool"
for lookup bulk where
  try_step: "arr_step lookup bulk c c' \<Longrightarrow> arr_try lookup bulk c c'"
| try_failed: "visits visit \<Longrightarrow> arr_Save bulk visit a s = (b, t, False) \<Longrightarrow> arr_try lookup bulk (a, s) (b, t)"

lemma save_stays_lost:
  assumes store: "bulk_store lookup bulk" and v: "visits visit" and lost: "lost lookup i (a, s)"
    and save: "arr_Save bulk visit a s = (b, t, ok)"
  shows "lost lookup i (b, t)"
proof -
  have A: "lists_apart a" and i: "i \<notin> set (uaAdd a)" "lookup s i = None" using lost by (simp_all add: lost_def)
  note F = save_models_facts [OF v A]
  have "lookup t i = None"
  proof (cases "save_models visit a = []")
    case False
    then have w: "bulk s (save_models visit a) = (t, ok)" using save by (simp add: arr_Save_def Let_def)
    show ?thesis
    proof (cases "i \<in> set (uaDel a) \<union> set (uaDirty a)")
      case True
      then show ?thesis
        using bulk_store.bulk_some [OF store w F(1)] F(2,4) i by fastforce
    next
      case False
      then show ?thesis using bulk_store.bulk_others [OF store w, of i] F(5) i by simp
    qed
  qed (use save i in \<open>simp add: arr_Save_def\<close>)
  then show ?thesis using lost arr_Save_apart [OF A save] by (auto simp: lost_def saved_arr [OF save] dom_def)
qed

lemma try_stays_lost:
  assumes "arr_try lookup bulk c c'" "bulk_store lookup bulk" "lost lookup i c"
  shows "lost lookup i c'"
  using assms(1)
proof cases
  case try_step
  then show ?thesis
  proof cases
    case (step_add j a s z k)
    then show ?thesis using assms(3) arr_Add_apart [of a j z k] by (auto simp: lost_def arr_Add_def)
  next
    case (step_delete a s k)
    then show ?thesis using assms(3) arr_Delete_apart [of a k]
      by (auto simp: lost_def arr_Delete_def split: option.splits)
  next
    case (step_set a s j f)
    then show ?thesis using assms(3) doc_Set_apart [of a j f]
      by (auto simp: lost_def doc_Set_def arr_setDirty_def split: option.splits)
  next
    case (step_clear a ks s)
    then show ?thesis using assms(3) arr_Clear_apart [of a ks] by (auto simp: lost_def arr_Clear_def)
  next
    case (step_save visit a s b t)
    then show ?thesis using save_stays_lost [OF assms(2)] assms(3) by blast
  qed
next
  case (try_failed visit a s b t)
  then show ?thesis using save_stays_lost [OF assms(2)] assms(3) by blast
qed

text \<open>
  A save whose write fails loses the new documents for good. \<open>Save\<close> empties \<open>add\<close> and clears the flag of
  its documents before it writes: when the write answers an error and did not store a new document,
  the document stays in the array, and no operation makes a later \<open>Save\<close> store it: a later write of it is a
  replacement, which does nothing to a document that is not there.
\<close>

lemma failed_insert_never_stored:
  assumes "bulk_store lookup bulk" and "lists_apart a" and "visits visit"
    and "arr_Save bulk visit a s = (b, t, False)" and "i \<in> set (uaAdd a)" and "lookup t i = None"
    and "(arr_try lookup bulk)\<^sup>*\<^sup>* (b, t) (c, u)"
  shows "uaDict b = uaDict a \<and> i \<notin> set (uaAdd c) \<and> lookup u i = None"
proof -
  have "lost lookup i (b, t)"
    using assms(2,5,6) arr_Save_apart [OF assms(2,4)] by (auto simp: lost_def saved_arr [OF assms(4)] lists_apart_def dom_def)
  then have "lost lookup i (c, u)"
    using step_relation.rtranclp_inv [OF step_relation.intro assms(7), of "\<lambda>_. False" "lost lookup i"]
      try_stays_lost assms(1) by blast
  then show ?thesis using saved_arr(1) [OF assms(4)] by (simp add: lost_def)
qed


section \<open>Concrete arrays\<close>

type_synonym demo_store = "(oid \<Rightarrow> (nat, nat) stored option) \<times> bool list"

definition demo_store :: demo_store where
  "demo_store = ([1 \<mapsto> \<lparr>sdPrimary = 7, sdKey = 10, sdData = 100\<rparr>, 2 \<mapsto> \<lparr>sdPrimary = 8, sdKey = 10, sdData = 3\<rparr>], [])"

definition demo_cursor :: "(oid \<times> (nat, nat) stored) list" where
  "demo_cursor = [(1, \<lparr>sdPrimary = 7, sdKey = 10, sdData = 100\<rparr>)]"

definition demo_arr :: "(nat, nat) uarr" where
  "demo_arr = fst (arr_Add 0 3 11 (doc_Set 1 (\<lambda>_. 101) (arr_Load 7 demo_cursor)))"

lemma demo_loaded: "cursor_of fst demo_store 7 demo_cursor" "one_per_key demo_cursor"
  by (auto simp: cursor_of_def demo_store_def demo_cursor_def one_per_key_def)

lemma demo_steps: "(arr_step fst map_bulk)\<^sup>*\<^sup>* (arr_Load 7 demo_cursor, demo_store) (demo_arr, demo_store)"
proof -
  let ?a = "arr_Load 7 demo_cursor"
  have "arr_step fst map_bulk (?a, demo_store) (doc_Set 1 (\<lambda>_. 101) ?a, demo_store)" by (rule step_set)
  moreover have "arr_step fst map_bulk (doc_Set 1 (\<lambda>_. 101) ?a, demo_store) (demo_arr, demo_store)"
    unfolding demo_arr_def
    by (rule step_add) (auto simp: arr_Load_def load_doc_def demo_cursor_def newArr_def doc_Set_def arr_setDirty_def demo_store_def)
  ultimately show ?thesis by auto
qed

lemma demo_arr_eq: "demo_arr = \<lparr>uaPrimary = 7, uaDict = [10 \<mapsto> 1, 11 \<mapsto> 3], uaDel = [], uaDirty = [1], uaAdd = [3],
   uaHeap = [1 \<mapsto> \<lparr>adKey = 10, adData = 101, adDirty = True\<rparr>, 3 \<mapsto> \<lparr>adKey = 11, adData = 0, adDirty = False\<rparr>]\<rparr>"
  by (simp add: demo_arr_def arr_Load_def load_doc_def demo_cursor_def newArr_def doc_Set_def arr_setDirty_def arr_Add_def)

lemma demo_save: "arr_Save map_bulk id demo_arr demo_store =
   ((clean_docs {1, 3} demo_arr)\<lparr>uaAdd := [], uaDirty := []\<rparr>,
    ([1 \<mapsto> \<lparr>sdPrimary = 7, sdKey = 10, sdData = 101\<rparr>, 2 \<mapsto> \<lparr>sdPrimary = 8, sdKey = 10, sdData = 3\<rparr>,
      3 \<mapsto> \<lparr>sdPrimary = 7, sdKey = 11, sdData = 0\<rparr>], []), True)"
  by (simp add: demo_arr_eq demo_store_def arr_Save_def save_models_def map_bulk_def map_write_def stored_doc_def
      insert_commute fun_upd_twist)

lemma visits_id: "visits id" by (simp add: visits_def)



definition demo_reload :: "(oid \<times> (nat, nat) stored) list" where
  "demo_reload = [(3, \<lparr>sdPrimary = 7, sdKey = 11, sdData = 0\<rparr>), (1, \<lparr>sdPrimary = 7, sdKey = 10, sdData = 101\<rparr>)]"

lemma load_after_save_witness: "content (arr_Load 7 demo_reload) = content demo_arr \<and> content demo_arr 10 = Some 101"
proof -
  obtain b u where s: "arr_Save map_bulk id demo_arr demo_store = (b, u, True)"
    and u: "u = ([1 \<mapsto> \<lparr>sdPrimary = 7, sdKey = 10, sdData = 101\<rparr>, 2 \<mapsto> \<lparr>sdPrimary = 8, sdKey = 10, sdData = 3\<rparr>,
      3 \<mapsto> \<lparr>sdPrimary = 7, sdKey = 11, sdData = 0\<rparr>], [])"
    by (simp add: demo_save)
  have "cursor_of fst u 7 demo_reload" by (auto simp: u cursor_of_def demo_reload_def)
  then have "content (arr_Load 7 demo_reload) = content demo_arr"
    by (rule load_after_save [OF map_store.bulk_store_axioms demo_loaded demo_steps visits_id s])
  then show ?thesis by (simp add: content_def demo_arr_eq)
qed

text \<open>A save while the server is down, a change, and a save that succeeds.\<close>

definition down_arr :: "(nat, nat) uarr" where "down_arr = fst (arr_Add 0 1 10 (newArr 7))"

lemma failed_insert_never_stored_witness:
  "let (b, t, ok) = arr_Save map_bulk id down_arr (Map.empty, [False]);
       (c, u, ok') = arr_Save map_bulk id (doc_Set 1 (\<lambda>_. 5) b) t
   in \<not> ok \<and> ok' \<and> uaDict c 10 = Some 1 \<and> fst u 1 = None"
proof -
  obtain b t where s: "arr_Save map_bulk id down_arr (Map.empty, [False]) = (b, t, False)" and t: "t = (Map.empty, [])"
    and b: "b = \<lparr>uaPrimary = 7, uaDict = [10 \<mapsto> 1], uaDel = [], uaDirty = [], uaAdd = [],
      uaHeap = [1 \<mapsto> \<lparr>adKey = 10, adData = 0, adDirty = False\<rparr>]\<rparr>"
    by (simp add: down_arr_def arr_Save_def save_models_def map_bulk_def arr_Add_def newArr_def clean_docs_def fun_eq_iff)
  obtain c u where s': "arr_Save map_bulk id (doc_Set 1 (\<lambda>_. 5) b) t = (c, u, True)"
    by (simp add: b t arr_Save_def save_models_def map_bulk_def doc_Set_def arr_setDirty_def)
  have "arr_try fst map_bulk (b, t) (doc_Set 1 (\<lambda>_. 5) b, t)" by (intro try_step step_set)
  moreover have "arr_try fst map_bulk (doc_Set 1 (\<lambda>_. 5) b, t) (c, u)" by (intro try_step step_save [OF visits_id s'])
  ultimately have run: "(arr_try fst map_bulk)\<^sup>*\<^sup>* (b, t) (c, u)" by auto
  have "lists_apart down_arr" by (auto simp: down_arr_def lists_apart_def arr_Add_def newArr_def ran_def)
  then have "fst u 1 = None"
    using failed_insert_never_stored [OF map_store.bulk_store_axioms _ visits_id s, of 1 c u] run
    by (simp add: t) (simp add: down_arr_def arr_Add_def newArr_def)
  moreover have "uaDict c 10 = Some 1" using saved_arr(1) [OF s'] by (simp add: b doc_Set_def arr_setDirty_def)
  ultimately show ?thesis unfolding Let_def s prod.case s' by simp
qed

section \<open>The document of a user\<close>

text \<open>
  Derive \<open>user\<close>: one document per user. \<open>none\<close> says that the database had no document when it was loaded.
\<close>

record 'v udoc =
  udId :: oid
  udData :: 'v
  udNone :: bool
  udDirty :: bool

datatype delete_error = ErrNullPointer | ErrDataNotExist | ErrDataDeleteFail | DbError

datatype 'v find_result = Found 'v | NoDocuments | FindError

text \<open>
  The calls on one document: \<open>FindOne\<close>, a replacement with upsert, and \<open>DeleteOne\<close> with the number of
  documents deleted.
\<close>

locale doc_store =
  fixes findOne :: "'s \<Rightarrow> oid \<Rightarrow> 'v find_result"
    and upsert :: "'s \<Rightarrow> oid \<Rightarrow> 'v \<Rightarrow> 's \<times> bool"
    and delete :: "'s \<Rightarrow> oid \<Rightarrow> 's \<times> nat option"
    and holds :: "'s \<Rightarrow> oid \<Rightarrow> 'v option"
  assumes find_found: "findOne s i = Found v \<Longrightarrow> holds s i = Some v"
    and find_none: "findOne s i = NoDocuments \<Longrightarrow> holds s i = None"
    and upsert_done: "upsert s i v = (t, True) \<Longrightarrow> holds t i = Some v"
    and upsert_others: "upsert s i v = (t, ok) \<Longrightarrow> j \<noteq> i \<Longrightarrow> holds t j = holds s j"
    and delete_done: "delete s i = (t, Some n) \<Longrightarrow> holds t i = None \<and> (n = 1 \<longleftrightarrow> holds s i \<noteq> None)"
    and delete_others: "delete s i = (t, r) \<Longrightarrow> j \<noteq> i \<Longrightarrow> holds t j = holds s j"
begin

lemma find_answers: "findOne s i \<noteq> FindError \<Longrightarrow> findOne s i = (case holds s i of None \<Rightarrow> NoDocuments | Some v \<Rightarrow> Found v)"
  using find_found find_none by (cases "findOne s i") auto

end

text \<open>The loaded document; the fields of a document that is not there are the zero value.\<close>

definition user_Load :: "('s \<Rightarrow> oid \<Rightarrow> 'v find_result) \<Rightarrow> 'v \<Rightarrow> 's \<Rightarrow> oid \<Rightarrow> 'v udoc option" where
  "user_Load findOne zero s i =
     (case findOne s i of
        FindError \<Rightarrow> None
      | NoDocuments \<Rightarrow> Some \<lparr>udId = i, udData = zero, udNone = True, udDirty = False\<rparr>
      | Found v \<Rightarrow> Some \<lparr>udId = i, udData = v, udNone = False, udDirty = False\<rparr>)"

definition user_SetDirty :: "'v udoc \<Rightarrow> 'v udoc" where
  "user_SetDirty d = (if udDirty d then d else d\<lparr>udDirty := True\<rparr>)"

text \<open>
  The setter of a field, which \<open>get\<close> reads and \<open>put\<close> writes; the early return is generated for a comparable
  type only.
\<close>

definition user_Set :: "bool \<Rightarrow> ('v \<Rightarrow> 'f) \<Rightarrow> ('f \<Rightarrow> 'v \<Rightarrow> 'v) \<Rightarrow> 'f \<Rightarrow> 'v udoc \<Rightarrow> 'v udoc" where
  "user_Set comparable get put x d =
     (if comparable \<and> get (udData d) = x then d else d\<lparr>udData := put x (udData d), udDirty := True\<rparr>)"

definition user_Save :: "('s \<Rightarrow> oid \<Rightarrow> 'v \<Rightarrow> 's \<times> bool) \<Rightarrow> 'v udoc \<Rightarrow> 's \<Rightarrow> 'v udoc \<times> 's \<times> bool" where
  "user_Save upsert d s =
     (if \<not> udDirty d then (d, s, True)
      else case upsert s (udId d) (udData d) of
        (t, False) \<Rightarrow> (d, t, False)
      | (t, True) \<Rightarrow> (d\<lparr>udDirty := False\<rparr>, t, True))"

text \<open>\<open>Delete\<close>; a missing document is the null pointer.\<close>

definition user_Delete :: "('s \<Rightarrow> oid \<Rightarrow> 's \<times> nat option) \<Rightarrow> 'v udoc option \<Rightarrow> 's \<Rightarrow> 'v udoc option \<times> 's \<times> delete_error option" where
  "user_Delete delete md s =
     (case md of
        None \<Rightarrow> (None, s, Some ErrNullPointer)
      | Some d \<Rightarrow>
          if udNone d then (Some d, s, Some ErrDataNotExist)
          else if udId d = 0 then (Some d, s, Some ErrDataNotExist)
          else case delete s (udId d) of
            (t, None) \<Rightarrow> (Some d, t, Some DbError)
          | (t, Some n) \<Rightarrow>
              if n \<noteq> 1 then (Some d, t, Some ErrDataDeleteFail)
              else (Some (d\<lparr>udDirty := False, udNone := True\<rparr>), t, None))"


section \<open>What a user document does\<close>

text \<open>
  The operations of an application on a user document, the saves that fail included; a setter changes
  the data and marks it, or does nothing.
\<close>

inductive user_step :: "('s \<Rightarrow> oid \<Rightarrow> 'v \<Rightarrow> 's \<times> bool) \<Rightarrow> 'v udoc \<times> 's \<Rightarrow> 'v udoc \<times> 's \<Rightarrow> bool"
for upsert where
  ustep_set: "e = d \<or> e = d\<lparr>udData := v, udDirty := True\<rparr> \<Longrightarrow> user_step upsert (d, s) (e, s)"
| ustep_dirty: "user_step upsert (d, s) (user_SetDirty d, s)"
| ustep_save: "user_Save upsert d s = (e, t, ok) \<Longrightarrow> user_step upsert (d, s) (e, t)"

lemma user_Set_step: "user_step upsert (d, s) (user_Set c get put x d, s)"
  by (rule ustep_set [of _ _ "put x (udData d)"]) (simp add: user_Set_def)

lemma user_step_same: "user_step upsert c c' \<Longrightarrow> udNone (fst c') = udNone (fst c) \<and> udId (fst c') = udId (fst c)"
  by (erule user_step.cases)
     (auto simp: user_Set_def user_SetDirty_def user_Save_def split: if_splits prod.splits bool.splits)

lemma user_steps_same:
  "(user_step upsert)\<^sup>*\<^sup>* c c' \<Longrightarrow> udNone (fst c') = udNone (fst c) \<and> udId (fst c') = udId (fst c)"
  by (induction rule: rtranclp_induct) (auto dest: user_step_same)

text \<open>What a clean document is: the one the database holds, or the zero value of one it does not hold.\<close>

definition in_step :: "('s \<Rightarrow> oid \<Rightarrow> 'v option) \<Rightarrow> 'v \<Rightarrow> 'v udoc \<times> 's \<Rightarrow> bool" where
  "in_step holds zero c \<longleftrightarrow> (\<not> udDirty (fst c) \<longrightarrow>
     holds (snd c) (udId (fst c)) = Some (udData (fst c))
     \<or> holds (snd c) (udId (fst c)) = None \<and> udData (fst c) = zero)"

lemma user_step_in_step:
  assumes "user_step upsert c c'" "doc_store findOne upsert delete holds" "in_step holds zero c"
  shows "in_step holds zero c'"
  using assms(1)
proof cases
  case (ustep_save d s e t ok)
  then show ?thesis
    using assms(3) doc_store.upsert_done [OF assms(2), of s "udId d" "udData d" t]
    by (auto simp: in_step_def user_Save_def split: if_splits prod.splits bool.splits)
qed (use assms(3) in \<open>auto simp: in_step_def user_Set_def user_SetDirty_def\<close>)

text \<open>
  A user document that was saved is loaded as it was. Load a document, existing or not, change it and
  save it in any order, failures included, until a save answers no error: then loading it again
  gives the same fields, and the document exists unless no field was ever written.
\<close>

lemma user_saved_then_loaded:
  assumes "doc_store findOne upsert delete holds" and "user_Load findOne zero s i = Some d"
    and "(user_step upsert)\<^sup>*\<^sup>* (d, s) (e, t)" and "user_Save upsert e t = (f, u, True)"
    and "findOne u i \<noteq> FindError"
  shows "\<exists>g. user_Load findOne zero u i = Some g \<and> udData g = udData e \<and> \<not> udDirty g
      \<and> (udDirty e \<longrightarrow> \<not> udNone g)"
proof -
  have d: "udId d = i" "in_step holds zero (d, s)"
    using assms(2) doc_store.find_found [OF assms(1), of s i] doc_store.find_none [OF assms(1), of s i]
    by (auto simp: user_Load_def in_step_def split: find_result.splits)
  have "in_step holds zero (e, t)"
    using assms(3) d(2) by (induction rule: rtranclp_induct) (auto intro: user_step_in_step [OF _ assms(1)])
  then have f: "in_step holds zero (f, u)"
    using user_step_in_step [OF ustep_save [OF assms(4)] assms(1)] by simp
  have e: "udId e = i" "udData f = udData e" "udId f = i" "\<not> udDirty f"
    "udDirty e \<Longrightarrow> holds u i = Some (udData e)"
    using user_steps_same [OF assms(3)] d(1) assms(4) doc_store.upsert_done [OF assms(1), of t i "udData e" u]
    by (auto simp: user_Save_def split: if_splits prod.splits bool.splits)
  have "holds u i = Some (udData e) \<or> holds u i = None \<and> udData e = zero \<and> \<not> udDirty e"
    using f e by (cases "udDirty e") (auto simp: in_step_def)
  then show ?thesis
    using doc_store.find_answers [OF assms(1,5)] by (auto simp: user_Load_def)
qed


text \<open>
  A user document that was new when it was loaded cannot be deleted, even after it was saved: \<open>none\<close> is
  cleared by no operation, and \<open>Delete\<close> answers \<open>ErrDataNotExist\<close> for it without a call to the database.
\<close>

lemma new_user_not_deletable:
  assumes "user_Load findOne zero s i = Some d" and "findOne s i = NoDocuments"
    and "(user_step upsert)\<^sup>*\<^sup>* (d, s) (e, t)"
  shows "user_Delete delete (Some e) t = (Some e, t, Some ErrDataNotExist)"
  using assms(1,2) user_steps_same [OF assms(3)] by (auto simp: user_Load_def user_Delete_def)

text \<open>A collection in memory; \<open>snd\<close> says that the server answers.\<close>

definition mem_find :: "(oid \<Rightarrow> 'v option) \<times> bool \<Rightarrow> oid \<Rightarrow> 'v find_result" where
  "mem_find s i = (if \<not> snd s then FindError else case fst s i of None \<Rightarrow> NoDocuments | Some v \<Rightarrow> Found v)"

definition mem_upsert :: "(oid \<Rightarrow> 'v option) \<times> bool \<Rightarrow> oid \<Rightarrow> 'v \<Rightarrow> ((oid \<Rightarrow> 'v option) \<times> bool) \<times> bool" where
  "mem_upsert s i v = (if snd s then (((fst s)(i \<mapsto> v), True), True) else (s, False))"

definition mem_delete :: "(oid \<Rightarrow> 'v option) \<times> bool \<Rightarrow> oid \<Rightarrow> ((oid \<Rightarrow> 'v option) \<times> bool) \<times> nat option" where
  "mem_delete s i =
     (if snd s then (((fst s)(i := None), True), Some (if fst s i = None then 0 else 1)) else (s, None))"

interpretation mem_docs: doc_store mem_find mem_upsert mem_delete fst
  by unfold_locales
    (auto simp: mem_find_def mem_upsert_def mem_delete_def split: if_splits option.splits)

definition new_user :: "nat udoc" where "new_user = \<lparr>udId = 9, udData = 0, udNone = True, udDirty = False\<rparr>"

definition set_user :: "nat udoc" where "set_user = user_Set True id (\<lambda>x _. x) 5 new_user"

lemma set_user_steps: "(user_step mem_upsert)\<^sup>*\<^sup>* (new_user, (Map.empty, True)) (set_user, (Map.empty, True))"
  unfolding set_user_def by (rule r_into_rtranclp, rule user_Set_step)

lemma set_user_saved:
  "user_Save mem_upsert set_user (Map.empty, True) = (set_user\<lparr>udDirty := False\<rparr>, ([9 \<mapsto> 5], True), True)"
  by (simp add: set_user_def new_user_def user_Set_def user_Save_def mem_upsert_def)

lemma user_saved_then_loaded_witness:
  "\<exists>g. user_Load mem_find 0 ([9 \<mapsto> (5::nat)], True) 9 = Some g \<and> udData g = 5 \<and> \<not> udDirty g \<and> \<not> udNone g"
proof -
  have l: "user_Load mem_find 0 (Map.empty, True) 9 = Some new_user"
    by (simp add: user_Load_def mem_find_def new_user_def)
  have "udDirty set_user" "udData set_user = 5" by (simp_all add: set_user_def new_user_def user_Set_def)
  then show ?thesis
    using user_saved_then_loaded [OF mem_docs.doc_store_axioms l set_user_steps set_user_saved]
    by (simp add: mem_find_def)
qed

lemma new_user_not_deletable_witness:
  "case user_Save mem_upsert set_user (Map.empty, True) of (e, t, ok) \<Rightarrow>
     ok \<and> fst t 9 = Some 5 \<and> user_Delete mem_delete (Some e) t = (Some e, t, Some ErrDataNotExist)"
proof -
  obtain e t where s: "user_Save mem_upsert set_user (Map.empty, True) = (e, t, True)" and t: "t = ([9 \<mapsto> 5], True)"
    by (simp add: set_user_saved)
  have l: "user_Load mem_find 0 (Map.empty, True) 9 = Some new_user"
    by (simp add: user_Load_def mem_find_def new_user_def)
  have "user_step mem_upsert (set_user, (Map.empty, True)) (e, t)" by (rule ustep_save [OF s])
  then have run: "(user_step mem_upsert)\<^sup>*\<^sup>* (new_user, (Map.empty, True)) (e, t)" using set_user_steps by simp
  have "user_Delete mem_delete (Some e) t = (Some e, t, Some ErrDataNotExist)"
    using new_user_not_deletable [OF l _ run] by (simp add: mem_find_def)
  then show ?thesis by (simp add: s t)
qed

text \<open>A document that was loaded is deleted once; then the data of the user are gone.\<close>

lemma user_Delete_found:
  assumes "doc_store findOne upsert delete holds" "\<not> udNone d" "udId d \<noteq> 0" "holds s (udId d) \<noteq> None"
    "user_Delete delete (Some d) s = (r, t, None)"
  shows "holds t (udId d) = None \<and> r = Some (d\<lparr>udDirty := False, udNone := True\<rparr>)"
  using assms(2-5) doc_store.delete_done [OF assms(1), of s "udId d"]
  by (auto simp: user_Delete_def split: if_splits prod.splits option.splits)

end
