(* ===== verification/Model_Schema.thy ===== *)
theory Model_Schema
  imports Gira_Prelude "HOL-Library.Multiset"
begin

text \<open>
  How \<open>gen/gen_model\<close> reads the models of a project (\<open>golang.go\<close>: the structs of a Go file give the
  collections, their fields, indexes and keys), the names and types it derives (\<open>gen_model.go\<close>), and the
  migration of the indexes that the template generates for each collection. The syntax tree of the Go
  file, and yaml for the annotations, are read by libraries: the model starts from the declared fields.

  The lemmas: what an accepted schema promises to the template (every field has its types, the two keys
  of an array are fields of it), the names of fields, and what a migration leaves in the database.
\<close>

section \<open>Names\<close>

definition upper :: "char \<Rightarrow> bool" where "upper c \<longleftrightarrow> 65 \<le> (of_char c :: nat) \<and> (of_char c :: nat) \<le> 90"

definition lower :: "char \<Rightarrow> bool" where "lower c \<longleftrightarrow> 97 \<le> (of_char c :: nat) \<and> (of_char c :: nat) \<le> 122"

definition to_upper :: "char \<Rightarrow> char" where "to_upper c = char_of (of_char c - 32 :: nat)"

definition to_lower :: "char \<Rightarrow> char" where "to_lower c = (if upper c then char_of (of_char c + 32 :: nat) else c)"

text \<open>The loop of \<open>camelString\<close>; \<open>j\<close>: an underscore was left out; \<open>k\<close>: a capital letter was written.\<close>

fun camel_loop :: "bool \<Rightarrow> bool \<Rightarrow> string \<Rightarrow> string" where
  "camel_loop j k [] = []"
| "camel_loop j k (d # ds) =
     (let k1 = (k \<or> upper d);
          up = (lower d \<and> (j \<or> \<not> k1));
          d2 = (if up then to_upper d else d);
          j2 = (j \<and> \<not> up);
          k2 = (k1 \<or> up) in
      if k2 \<and> d2 = CHR ''_'' \<and> ds \<noteq> [] \<and> lower (hd ds) then camel_loop True k2 ds
      else d2 # camel_loop j2 k2 ds)"

definition camelString :: "string \<Rightarrow> string" where
  "camelString s = camel_loop False False s"

definition capLowerString :: "string \<Rightarrow> string" where
  "capLowerString s = (if s = [] then s else to_lower (hd s) # tl s)"

lemma camelString_examples:
  "camelString ''user_id'' = ''UserId''" "camelString ''userId'' = ''UserId''" "camelString ''last__login2'' = ''Last_Login2''"
  "camelString ''_id'' = ''_Id''" "capLowerString (camelString ''user_id'') = ''userId''"
  by code_simp+

lemma to_upper_letter: "lower c \<Longrightarrow> upper (to_upper c) \<and> \<not> lower (to_upper c) \<and> to_upper c \<noteq> CHR ''_''"
proof -
  assume "lower c"
  have "(of_char (to_upper c) :: nat) = of_char c - 32"
    unfolding to_upper_def of_char_of by (intro mod_less less_imp_diff_less nat_of_char_less_256)
  moreover have "(of_char CHR ''_'' :: nat) = 95" by simp
  ultimately show ?thesis using \<open>lower c\<close> by (auto simp: lower_def upper_def)
qed

text \<open>Nothing is left to change: the letters after the first capital, and no underscore before a small letter.\<close>

fun settled :: "bool \<Rightarrow> string \<Rightarrow> bool" where
  "settled k [] \<longleftrightarrow> True"
| "settled k (d # ds) \<longleftrightarrow> (lower d \<longrightarrow> k)
     \<and> \<not> ((k \<or> upper d) \<and> d = CHR ''_'' \<and> ds \<noteq> [] \<and> lower (hd ds)) \<and> settled (k \<or> upper d) ds"

lemma camel_settled: "settled k s \<Longrightarrow> camel_loop False k s = s"
  by (induction s arbitrary: k) (auto simp: Let_def)

lemma not_both: "lower c \<Longrightarrow> \<not> upper c" "\<not> lower CHR ''_''" "\<not> upper CHR ''_''"
  by (simp_all add: lower_def upper_def)

lemma camel_loop_head:
  "(j \<longrightarrow> s \<noteq> [] \<and> lower (hd s)) \<Longrightarrow> k \<Longrightarrow> j \<or> s = [] \<or> \<not> lower (hd s) \<Longrightarrow>
     camel_loop j k s = [] \<or> \<not> lower (hd (camel_loop j k s))"
  by (induction s arbitrary: j k) (auto simp: Let_def not_both dest: to_upper_letter)

lemma settled_camel: "(j \<longrightarrow> s \<noteq> [] \<and> lower (hd s)) \<Longrightarrow> settled k (camel_loop j k s)"
proof (induction s arbitrary: j k)
  case (Cons d ds)
  have IH: "settled k (camel_loop False k ds)" "ds \<noteq> [] \<Longrightarrow> lower (hd ds) \<Longrightarrow> settled k (camel_loop True k ds)" for k
    using Cons.IH [of False k] Cons.IH [of True k] by simp_all
  have hd: "k \<Longrightarrow> ds = [] \<or> \<not> lower (hd ds) \<Longrightarrow> camel_loop False k ds = [] \<or> \<not> lower (hd (camel_loop False k ds))"
    using camel_loop_head [of False ds k] by blast
  show ?case
  proof (cases "lower d")
    case True
    then show ?thesis using IH hd to_upper_letter [OF True] not_both by (auto simp: Let_def)
  next
    case False
    then show ?thesis using IH hd not_both Cons.prems by (auto simp: Let_def)
  qed
qed simp

lemma camelString_idempotent: "camelString (camelString s) = camelString s"
  by (simp add: camelString_def camel_settled settled_camel)


section \<open>Types\<close>

datatype field_type = Ft_int | Ft_int32 | Ft_int64 | Ft_string | Ft_objectid | Ft_bool | Ft_byte_arr | Ft_int_arr
  | Ft_int64_arr | Ft_struct

definition type_name_dict :: "string \<Rightarrow> field_type option" where
  "type_name_dict = map_of
     [(''int'', Ft_int), (''int32'', Ft_int32), (''int64'', Ft_int64), (''string'', Ft_string), (''id'', Ft_objectid),
      (''bool'', Ft_bool), (''[]byte'', Ft_byte_arr), (''[]int'', Ft_int_arr), (''[]int64'', Ft_int64_arr)]"

text \<open>A missing entry of these two is the empty string.\<close>

definition go_type_name_dict :: "field_type \<Rightarrow> string" where
  "go_type_name_dict t = (case map_of
     [(Ft_int, ''int64''), (Ft_int32, ''int32''), (Ft_int64, ''int64''), (Ft_string, ''string''),
      (Ft_objectid, ''primitive.ObjectID''), (Ft_bool, ''bool''), (Ft_byte_arr, ''[]byte''), (Ft_int_arr, ''[]int64''),
      (Ft_int64_arr, ''[]int64'')] t of None \<Rightarrow> [] | Some n \<Rightarrow> n)"

definition protobuf_type_name_dict :: "field_type \<Rightarrow> string" where
  "protobuf_type_name_dict t = (case map_of
     [(Ft_int, ''int64''), (Ft_int32, ''int32''), (Ft_int64, ''int64''), (Ft_string, ''string''), (Ft_objectid, ''string''),
      (Ft_bool, ''bool''), (Ft_byte_arr, ''bytes''), (Ft_int64_arr, ''repeated int64''), (Ft_int_arr, ''repeated int64'')] t
     of None \<Rightarrow> [] | Some n \<Rightarrow> n)"

text \<open>\<open>fdPos\<close> is the position of the declaration; it stands for the pointer that the map and the list share.\<close>

record field =
  fdPos :: nat
  fdTag :: int
  fdName :: string
  fdCamelName :: string
  fdType :: field_type
  fdTypeName :: string
  fdGoTypeName :: string
  fdProtobufTypeName :: string
  fdIsPrimaryKey :: bool
  fdIsSecondaryKey :: bool

text \<open>The cases of a Go switch do not fall through: an empty one leaves the switch.\<close>

definition IsComparable :: "field \<Rightarrow> bool" where
  "IsComparable f \<longleftrightarrow>
     (if fdGoTypeName f \<in> {''int32'', ''int'', ''int64'', ''string'', ''bool''} then False
      else fdGoTypeName f = ''primitive.ObjectID'')"

definition IsNumber :: "field \<Rightarrow> bool" where "IsNumber f \<longleftrightarrow> fdType f \<in> {Ft_int, Ft_int32, Ft_int64}"

section \<open>The fields of a model\<close>

text \<open>A field of a struct of the schema: its name, the text of its type, and its tag with the quotes.\<close>

record go_field =
  gfName :: string
  gfType :: string
  gfTag :: "string option"

datatype schema_error = TagNotSet string | TagInvalid string | NeedTwoKeys | PrimaryKeyNotFound string
  | SecondaryKeyNotFound string | CappedInvalid

text \<open>\<open>strings.Replace(s, quote, "", n)\<close> for the back quote.\<close>

fun drop_quotes :: "nat \<Rightarrow> string \<Rightarrow> string" where
  "drop_quotes n [] = []"
| "drop_quotes n (c # cs) =
     (if n \<noteq> 0 \<and> c = CHR 0x60 then drop_quotes (n - 1) cs else c # drop_quotes n cs)"

definition parse_field :: "nat \<Rightarrow> go_field \<Rightarrow> (schema_error, string \<times> field) outcome" where
  "parse_field pos f =
     (case gfTag f of
        None \<Rightarrow> Error (TagNotSet [])
      | Some raw \<Rightarrow>
          (case atoi (drop_quotes 2 raw) of
             None \<Rightarrow> Error (TagInvalid [])
           | Some tag \<Rightarrow>
               let name = (if gfName f = ''Type'' then ''type'' else gfName f);
                   (t, go, pb) = (case type_name_dict (gfType f) of
                      Some t \<Rightarrow> (t, go_type_name_dict t, protobuf_type_name_dict t)
                    | None \<Rightarrow> (Ft_struct, gfType f, ''bytes'')) in
               Return (name, \<lparr>fdPos = pos, fdTag = tag,
                 fdName = (if name = ''id'' then ''_id'' else name),
                 fdCamelName = (if name = ''id'' then ''Id'' else camelString name),
                 fdType = t, fdTypeName = gfType f, fdGoTypeName = go, fdProtobufTypeName = pb,
                 fdIsPrimaryKey = False, fdIsSecondaryKey = False\<rparr>)))"

text \<open>\<open>FieldDict\<close> and \<open>FieldArr\<close>, before the sort.\<close>

fun parse_fields :: "nat \<Rightarrow> go_field list \<Rightarrow> (string \<Rightarrow> nat option) \<times> field list
    \<Rightarrow> (schema_error, (string \<Rightarrow> nat option) \<times> field list) outcome" where
  "parse_fields pos [] st = Return st"
| "parse_fields pos (f # fs) st =
     bind_outcome (parse_field pos f) (\<lambda>(name, fd). parse_fields (pos + 1) fs ((fst st)(name \<mapsto> pos), snd st @ [fd]))"

text \<open>\<open>sort.Sort\<close> does not keep the order of fields with the same tag: any function that sorts.\<close>

definition sorts_by :: "('a \<Rightarrow> int) \<Rightarrow> ('a list \<Rightarrow> 'a list) \<Rightarrow> bool" where
  "sorts_by key f \<longleftrightarrow> (\<forall>xs. mset (f xs) = mset xs \<and> sorted (map key (f xs)))"

lemma sort_key_sorts: "sorts_by key (sort_key key)"
  by (simp add: sorts_by_def)

definition parseModelStruct :: "(field list \<Rightarrow> field list) \<Rightarrow> go_field list
    \<Rightarrow> (schema_error, (string \<Rightarrow> nat option) \<times> field list) outcome" where
  "parseModelStruct srt fs =
     bind_outcome (parse_fields 0 fs (Map.empty, [])) (\<lambda>(dict, arr). Return (dict, srt arr))"

section \<open>The indexes\<close>

record index_decl =
  idName :: string
  idTag :: "string option"
  idUnique :: bool
  idKeys :: "(string \<times> string option) list option"

datatype key_val = KInt int | KStr string

record index =
  ixName :: string
  ixTag :: int
  ixFullName :: string
  ixUnique :: bool
  ixKeys :: "(string \<times> key_val) list"

definition key_value :: "string \<Rightarrow> key_val" where
  "key_value v = (case atoi v of Some i \<Rightarrow> KInt i | None \<Rightarrow> KStr v)"

text \<open>The loop over the keys: the keys seen, the full name so far, the keys.\<close>

fun index_keys :: "(string \<times> string option) list \<Rightarrow> string list \<Rightarrow> string \<Rightarrow> (string \<times> key_val) list
    \<Rightarrow> (schema_error, string \<times> (string \<times> key_val) list) outcome" where
  "index_keys [] seen full keys = Return (full, keys)"
| "index_keys ((k, None) # ks) seen full keys = Error (TagNotSet k)"
| "index_keys ((k, Some raw) # ks) seen full keys =
     (let v = drop_quotes 2 raw;
          seen2 = List.insert k seen;
          full2 = (if length seen2 = 1 then k @ ''_'' @ v else full @ ''_'' @ k @ ''_'' @ v) in
      index_keys ks seen2 full2 (keys @ [(k, key_value v)]))"

definition parse_index :: "index_decl \<Rightarrow> (schema_error, index) outcome" where
  "parse_index d =
     (case idTag d of
        None \<Rightarrow> Error (TagNotSet (idName d))
      | Some raw \<Rightarrow>
          (case atoi (drop_quotes 2 raw) of
             None \<Rightarrow> Error (TagInvalid (idName d))
           | Some tag \<Rightarrow>
               (case idKeys d of
                  None \<Rightarrow> Return \<lparr>ixName = idName d, ixTag = tag, ixFullName = idName d, ixUnique = False, ixKeys = []\<rparr>
                | Some ks \<Rightarrow> bind_outcome (index_keys ks [] [] [])
                    (\<lambda>(full, keys). Return \<lparr>ixName = idName d, ixTag = tag, ixFullName = full, ixUnique = idUnique d, ixKeys = keys\<rparr>))))"

fun parse_indexes :: "index_decl list \<Rightarrow> (schema_error, index list) outcome" where
  "parse_indexes [] = Return []"
| "parse_indexes (d # ds) = bind_outcome (parse_index d) (\<lambda>i. bind_outcome (parse_indexes ds) (\<lambda>is. Return (i # is)))"

definition parseIndexStruct :: "(index list \<Rightarrow> index list) \<Rightarrow> index_decl list \<Rightarrow> (schema_error, index list) outcome" where
  "parseIndexStruct srt ds = bind_outcome (parse_indexes ds) (\<lambda>is. Return (srt is))"

section \<open>Collections\<close>

datatype dao_part = DUser "string list option" | DUserArr "string list option" | DOther

datatype coll_part = PModel "go_field list" | PIndex "index_decl list" | PDao "dao_part list" | PCapped "string option" | POther

record collection =
  clCollName :: string
  clStructName :: string
  clDerive :: string
  clKeyArr :: "string list"
  clFieldDict :: "string \<Rightarrow> nat option"
  clFieldArr :: "field list"
  clIndexArr :: "index list"
  clCapped :: int
  clPrimaryKey :: string
  clPrimaryKeyField :: "nat option"
  clSecondaryKey :: string
  clSecondaryKeyField :: "nat option"

definition new_collection :: "string \<Rightarrow> collection" where
  "new_collection name = \<lparr>clCollName = name, clStructName = camelString name, clDerive = [], clKeyArr = [],
     clFieldDict = Map.empty, clFieldArr = [], clIndexArr = [], clCapped = 0, clPrimaryKey = [], clPrimaryKeyField = None,
     clSecondaryKey = [], clSecondaryKeyField = None\<rparr>"

definition derive_keys :: "string list option \<Rightarrow> string list" where
  "derive_keys ks = (case ks of None \<Rightarrow> [] | Some ks \<Rightarrow> ks)"

fun parseDaoStruct :: "dao_part list \<Rightarrow> collection \<Rightarrow> collection" where
  "parseDaoStruct [] c = c"
| "parseDaoStruct (DUser ks # ds) c =
     parseDaoStruct ds (c\<lparr>clDerive := ''user'', clKeyArr := clKeyArr c @ derive_keys ks\<rparr>)"
| "parseDaoStruct (DUserArr ks # ds) c =
     parseDaoStruct ds (c\<lparr>clDerive := ''userarr'', clKeyArr := clKeyArr c @ derive_keys ks\<rparr>)"
| "parseDaoStruct (DOther # ds) c = parseDaoStruct ds c"

text \<open>The parts of a collection in the order of the file; a later one replaces what an earlier one gave.\<close>

definition parse_part :: "(field list \<Rightarrow> field list) \<Rightarrow> (index list \<Rightarrow> index list) \<Rightarrow> coll_part \<Rightarrow> collection
    \<Rightarrow> (schema_error, collection) outcome" where
  "parse_part fsort isort part c =
     (case part of
        PModel fs \<Rightarrow> bind_outcome (parseModelStruct fsort fs)
          (\<lambda>(dict, arr). Return (c\<lparr>clFieldDict := dict, clFieldArr := arr\<rparr>))
      | PIndex ds \<Rightarrow> bind_outcome (parseIndexStruct isort ds) (\<lambda>is. Return (c\<lparr>clIndexArr := is\<rparr>))
      | PDao ds \<Rightarrow> Return (parseDaoStruct ds c)
      | PCapped None \<Rightarrow> Panic
      | PCapped (Some raw) \<Rightarrow>
          (case atoi (drop_quotes 2 raw) of None \<Rightarrow> Error CappedInvalid | Some n \<Rightarrow> Return (c\<lparr>clCapped := n\<rparr>))
      | POther \<Rightarrow> Return c)"

fun parse_parts :: "(field list \<Rightarrow> field list) \<Rightarrow> (index list \<Rightarrow> index list) \<Rightarrow> coll_part list \<Rightarrow> collection
    \<Rightarrow> (schema_error, collection) outcome" where
  "parse_parts fsort isort [] c = Return c"
| "parse_parts fsort isort (p # ps) c = bind_outcome (parse_part fsort isort p c) (parse_parts fsort isort ps)"

definition mark_field :: "(field \<Rightarrow> field) \<Rightarrow> nat \<Rightarrow> field list \<Rightarrow> field list" where
  "mark_field f pos arr = map (\<lambda>fd. if fdPos fd = pos then f fd else fd) arr"

text \<open>The two keys of a \<open>userarr\<close> collection.\<close>

definition userarr_keys :: "collection \<Rightarrow> (schema_error, collection) outcome" where
  "userarr_keys c =
     (case clKeyArr c of
        [k1, k2] \<Rightarrow>
          let c1 = c\<lparr>clPrimaryKey := k1, clSecondaryKey := k2\<rparr> in
          (case clFieldDict c k1 of
             None \<Rightarrow> Error (PrimaryKeyNotFound k1)
           | Some p1 \<Rightarrow>
               let c2 = c1\<lparr>clPrimaryKeyField := Some p1,
                   clFieldArr := mark_field (fdIsPrimaryKey_update (\<lambda>_. True)) p1 (clFieldArr c1)\<rparr> in
               (case clFieldDict c k2 of
                  None \<Rightarrow> Error (SecondaryKeyNotFound k2)
                | Some p2 \<Rightarrow> Return (c2\<lparr>clSecondaryKeyField := Some p2,
                    clFieldArr := mark_field (fdIsSecondaryKey_update (\<lambda>_. True)) p2 (clFieldArr c2)\<rparr>)))
      | _ \<Rightarrow> Error NeedTwoKeys)"

definition parseCollection :: "(field list \<Rightarrow> field list) \<Rightarrow> (index list \<Rightarrow> index list) \<Rightarrow> string \<Rightarrow> coll_part list
    \<Rightarrow> (schema_error, collection) outcome" where
  "parseCollection fsort isort name parts =
     bind_outcome (parse_parts fsort isort parts (new_collection name))
       (\<lambda>c. if clDerive c = ''userarr'' then userarr_keys c else Return c)"

section \<open>What an accepted schema promises\<close>

definition field_typed :: "field \<Rightarrow> bool" where
  "field_typed f \<longleftrightarrow> fdProtobufTypeName f \<noteq> [] \<and>
     (case type_name_dict (fdTypeName f) of
        Some t \<Rightarrow> fdType f = t \<and> fdGoTypeName f = go_type_name_dict t \<and> fdGoTypeName f \<noteq> []
      | None \<Rightarrow> fdType f = Ft_struct \<and> fdGoTypeName f = fdTypeName f)"

text \<open>The declared name of a field: the two that are renamed in the database and in Go.\<close>

definition field_named :: "string \<Rightarrow> field \<Rightarrow> bool" where
  "field_named name f \<longleftrightarrow> fdName f = (if name = ''id'' then ''_id'' else name)
     \<and> fdCamelName f = (if name = ''id'' then ''Id'' else camelString name)"

definition coll_ok :: "collection \<Rightarrow> bool" where
  "coll_ok c \<longleftrightarrow> (\<forall>f\<in>set (clFieldArr c). field_typed f) \<and> sorted (map fdTag (clFieldArr c))
     \<and> distinct (map fdPos (clFieldArr c))
     \<and> (\<forall>name p. clFieldDict c name = Some p \<longrightarrow> (\<exists>f\<in>set (clFieldArr c). fdPos f = p \<and> field_named name f))
     \<and> (\<forall>f\<in>set (clFieldArr c). \<not> fdIsPrimaryKey f \<and> \<not> fdIsSecondaryKey f)"

lemma go_types_known: "type_name_dict n = Some t \<Longrightarrow> go_type_name_dict t \<noteq> [] \<and> protobuf_type_name_dict t \<noteq> [] \<and> t \<noteq> Ft_struct"
  by (cases t) (auto simp: type_name_dict_def go_type_name_dict_def protobuf_type_name_dict_def split: if_splits)

lemma parse_field_ok:
  "parse_field pos f = Return (name, fd) \<Longrightarrow>
     field_typed fd \<and> field_named name fd \<and> fdPos fd = pos \<and> \<not> fdIsPrimaryKey fd \<and> \<not> fdIsSecondaryKey fd"
  by (auto simp: parse_field_def field_typed_def field_named_def Let_def go_types_known split: option.splits)

definition fields_ok :: "nat \<Rightarrow> (string \<Rightarrow> nat option) \<times> field list \<Rightarrow> bool" where
  "fields_ok n st \<longleftrightarrow> (\<forall>f\<in>set (snd st). field_typed f \<and> fdPos f < n \<and> \<not> fdIsPrimaryKey f \<and> \<not> fdIsSecondaryKey f)
     \<and> distinct (map fdPos (snd st))
     \<and> (\<forall>name p. fst st name = Some p \<longrightarrow> (\<exists>f\<in>set (snd st). fdPos f = p \<and> field_named name f))"

lemma parse_fields_ok:
  "parse_fields n fs st = Return r \<Longrightarrow> fields_ok n st \<Longrightarrow> \<exists>m. fields_ok m r"
proof (induction fs arbitrary: n st)
  case (Cons f fs)
  obtain name fd where f: "parse_field n f = Return (name, fd)"
    and r: "parse_fields (n + 1) fs ((fst st)(name \<mapsto> n), snd st @ [fd]) = Return r"
    using Cons.prems(1) by (auto simp: bind_outcome_Return_iff split: prod.splits)
  have "fields_ok (n + 1) ((fst st)(name \<mapsto> n), snd st @ [fd])"
    using Cons.prems(2) parse_field_ok [OF f] by (fastforce simp: fields_ok_def)
  with Cons.IH [OF r] show ?case by blast
qed auto

lemma parseModelStruct_ok:
  assumes "sorts_by fdTag fsort" "parseModelStruct fsort fs = Return (dict, arr)"
  shows "coll_ok (c\<lparr>clFieldDict := dict, clFieldArr := arr\<rparr>)"
proof -
  obtain xs where x: "parse_fields 0 fs (Map.empty, []) = Return (dict, xs)" and arr: "arr = fsort xs"
    using assms(2) by (auto simp: parseModelStruct_def bind_outcome_Return_iff)
  obtain m where m: "fields_ok m (dict, xs)"
    using parse_fields_ok [OF x] by (auto simp: fields_ok_def)
  have s: "mset arr = mset xs" "sorted (map fdTag arr)" using assms(1) by (simp_all add: arr sorts_by_def)
  then have "set arr = set xs" "distinct (map fdPos arr) = distinct (map fdPos xs)"
    by (auto dest: mset_eq_setD intro!: mset_eq_imp_distinct_iff simp: mset_map)
  then show ?thesis using m s by (simp add: coll_ok_def fields_ok_def)
qed


lemma coll_ok_cong:
  "clFieldDict c = clFieldDict d \<Longrightarrow> clFieldArr c = clFieldArr d \<Longrightarrow> coll_ok c = coll_ok d"
  by (simp add: coll_ok_def)

lemma parseDaoStruct_fields:
  "clFieldDict (parseDaoStruct ds c) = clFieldDict c \<and> clFieldArr (parseDaoStruct ds c) = clFieldArr c"
  by (induction ds c rule: parseDaoStruct.induct) simp_all

lemma parse_part_ok:
  assumes "sorts_by fdTag fsort" "parse_part fsort isort p c = Return d" "coll_ok c"
  shows "coll_ok d"
  using assms parseModelStruct_ok [OF assms(1)] parseDaoStruct_fields
  by (auto simp: parse_part_def bind_outcome_Return_iff coll_ok_def split: coll_part.splits option.splits)

lemma parse_parts_ok:
  "sorts_by fdTag fsort \<Longrightarrow> parse_parts fsort isort ps c = Return d \<Longrightarrow> coll_ok c \<Longrightarrow> coll_ok d"
  by (induction ps arbitrary: c) (auto simp: bind_outcome_Return_iff intro: parse_part_ok)

text \<open>The field of the position, with the marks of the keys.\<close>

definition key_field :: "collection \<Rightarrow> string \<Rightarrow> nat option \<Rightarrow> (field \<Rightarrow> bool) \<Rightarrow> bool" where
  "key_field c key at mark \<longleftrightarrow> (\<exists>f\<in>set (clFieldArr c). at = Some (fdPos f) \<and> field_named key f \<and> mark f
     \<and> (\<forall>g\<in>set (clFieldArr c). mark g \<longrightarrow> g = f))"

lemma mark_same [simp]:
  "field_typed (f\<lparr>fdIsPrimaryKey := b\<rparr>) = field_typed f" "field_typed (f\<lparr>fdIsSecondaryKey := b\<rparr>) = field_typed f"
  "field_named n (f\<lparr>fdIsPrimaryKey := b\<rparr>) = field_named n f" "field_named n (f\<lparr>fdIsSecondaryKey := b\<rparr>) = field_named n f"
  by (simp_all add: field_typed_def field_named_def split: option.splits)

lemma userarr_keys_ok:
  assumes ok: "coll_ok c" and r: "userarr_keys c = Return d"
  shows "(\<exists>k1 k2. clKeyArr d = [k1, k2] \<and> key_field d k1 (clPrimaryKeyField d) fdIsPrimaryKey
      \<and> key_field d k2 (clSecondaryKeyField d) fdIsSecondaryKey)
    \<and> (\<forall>f\<in>set (clFieldArr d). field_typed f) \<and> sorted (map fdTag (clFieldArr d)) \<and> clDerive d = clDerive c"
proof -
  obtain k1 k2 p1 p2 where k: "clKeyArr c = [k1, k2]" and p: "clFieldDict c k1 = Some p1" "clFieldDict c k2 = Some p2"
    using r by (auto simp: userarr_keys_def Let_def split: list.splits option.splits)
  let ?g = "\<lambda>fd. (if fdPos fd = p2 then fdIsSecondaryKey_update (\<lambda>_. True) else id)
      ((if fdPos fd = p1 then fdIsPrimaryKey_update (\<lambda>_. True) else id) fd)"
  have d: "clKeyArr d = [k1, k2]" "clPrimaryKeyField d = Some p1" "clSecondaryKeyField d = Some p2" "clDerive d = clDerive c"
    and arr: "clFieldArr d = map ?g (clFieldArr c)"
    using r k p by (auto simp: userarr_keys_def Let_def mark_field_def)
  have g: "fdPos (?g f) = fdPos f" "fdTag (?g f) = fdTag f" "field_typed (?g f) = field_typed f"
    "field_named n (?g f) = field_named n f" for f n
    by simp_all
  have same: "f = h" if "f \<in> set (clFieldArr c)" "h \<in> set (clFieldArr c)" "fdPos f = fdPos h" for f h
    using ok that by (auto simp: coll_ok_def distinct_map dest: inj_onD)
  obtain f1 where f1: "f1 \<in> set (clFieldArr c)" "fdPos f1 = p1" "field_named k1 f1" using ok p(1) unfolding coll_ok_def by blast
  obtain f2 where f2: "f2 \<in> set (clFieldArr c)" "fdPos f2 = p2" "field_named k2 f2" using ok p(2) unfolding coll_ok_def by blast
  have unmarked: "\<not> fdIsPrimaryKey f \<and> \<not> fdIsSecondaryKey f" if "f \<in> set (clFieldArr c)" for f
    using ok that by (auto simp: coll_ok_def)
  have "key_field d k1 (Some p1) fdIsPrimaryKey"
    unfolding key_field_def arr
  proof (intro bexI [of _ "?g f1"] conjI ballI impI)
    fix h assume "h \<in> set (map ?g (clFieldArr c))" "fdIsPrimaryKey h"
    then obtain f where f: "f \<in> set (clFieldArr c)" "h = ?g f" "fdIsPrimaryKey (?g f)" by auto
    then have "fdPos f = p1" using unmarked [OF f(1)] by (auto split: if_splits)
    then show "h = ?g f1" using same [OF f(1) f1(1)] f f1 by simp
  qed (use f1 g in auto)
  moreover have "key_field d k2 (Some p2) fdIsSecondaryKey"
    unfolding key_field_def arr
  proof (intro bexI [of _ "?g f2"] conjI ballI impI)
    fix h assume "h \<in> set (map ?g (clFieldArr c))" "fdIsSecondaryKey h"
    then obtain f where f: "f \<in> set (clFieldArr c)" "h = ?g f" "fdIsSecondaryKey (?g f)" by auto
    then have "fdPos f = p2" using unmarked [OF f(1)] by (auto split: if_splits)
    then show "h = ?g f2" using same [OF f(1) f2(1)] f f2 by simp
  qed (use f2 g in auto)
  moreover have "map fdTag (map ?g (clFieldArr c)) = map fdTag (clFieldArr c)" by (simp add: g)
  ultimately show ?thesis using ok d unfolding arr by (auto simp: coll_ok_def g simp del: map_map)
qed


lemma new_collection_ok: "coll_ok (new_collection name)"
  by (simp add: coll_ok_def new_collection_def)

text \<open>
  C24. A schema that is accepted gives the template what it reads. Every field has a Go type and a protobuf
  type: those of the tables for a known type, the declared text for another; the fields are in the order
  of their tags. In a \<open>userarr\<close> collection both keys are fields of the collection, each is the
  one field marked as that key, and the collection points to it.
\<close>

theorem accepted_schema:
  assumes "sorts_by fdTag fsort" and "parseCollection fsort isort name parts = Return c"
  shows "(\<forall>f\<in>set (clFieldArr c). field_typed f) \<and> sorted (map fdTag (clFieldArr c))
    \<and> (clDerive c = ''userarr'' \<longrightarrow> (\<exists>k1 k2. clKeyArr c = [k1, k2]
        \<and> key_field c k1 (clPrimaryKeyField c) fdIsPrimaryKey \<and> key_field c k2 (clSecondaryKeyField c) fdIsSecondaryKey))"
proof -
  obtain b where b: "parse_parts fsort isort parts (new_collection name) = Return b"
    and c: "(if clDerive b = ''userarr'' then userarr_keys b else Return b) = Return c"
    using assms(2) by (auto simp: parseCollection_def bind_outcome_Return_iff)
  have ok: "coll_ok b" by (rule parse_parts_ok [OF assms(1) b new_collection_ok])
  show ?thesis
  proof (cases "clDerive b = ''userarr''")
    case True
    then show ?thesis using userarr_keys_ok [OF ok] c by simp
  next
    case False
    then show ?thesis using ok c by (simp add: coll_ok_def)
  qed
qed

definition demo_parts :: "coll_part list" where
  "demo_parts = [PModel [\<lparr>gfName = ''id'', gfType = ''id'', gfTag = Some [CHR 0x60, CHR ''1'', CHR 0x60]\<rparr>,
      \<lparr>gfName = ''item_id'', gfType = ''int32'', gfTag = Some ''3''\<rparr>, \<lparr>gfName = ''user_id'', gfType = ''id'', gfTag = Some ''2''\<rparr>,
      \<lparr>gfName = ''attr'', gfType = ''Attr'', gfTag = Some ''4''\<rparr>],
    PDao [DUserArr (Some [''user_id'', ''item_id''])]]"

lemma accepted_schema_witness:
  "case parseCollection (sort_key fdTag) id ''item'' demo_parts of
     Return c \<Rightarrow> map fdCamelName (clFieldArr c) = [''Id'', ''UserId'', ''ItemId'', ''Attr'']
       \<and> (\<exists>k1 k2. clKeyArr c = [k1, k2] \<and> key_field c k1 (clPrimaryKeyField c) fdIsPrimaryKey)
   | _ \<Rightarrow> False"
proof -
  have a: "(case parseCollection (sort_key fdTag) id ''item'' demo_parts of
     Return c \<Rightarrow> map fdCamelName (clFieldArr c) = [''Id'', ''UserId'', ''ItemId'', ''Attr''] \<and> clDerive c = ''userarr''
   | _ \<Rightarrow> False)"
    by code_simp
  then show ?thesis
    using accepted_schema [OF sort_key_sorts, of id "''item''" demo_parts]
    by (auto split: outcome.splits)
qed

section \<open>The migration of the indexes\<close>

text \<open>The name that the database gives an index without a name: the keys and values, joined.\<close>

definition key_text :: "key_val \<Rightarrow> string" where
  "key_text v = (case v of KInt i \<Rightarrow> fmt_int i | KStr s \<Rightarrow> s)"

definition default_name :: "(string \<times> key_val) list \<Rightarrow> string" where
  "default_name keys = join_with ''_'' (concat (map (\<lambda>(k, v). [k, key_text v]) keys))"

text \<open>What the code relies on of the index view of a collection.\<close>

locale index_view =
  fixes names :: "'s \<Rightarrow> string set"
    and listing :: "'s \<Rightarrow> string list option"
    and create :: "'s \<Rightarrow> index \<Rightarrow> 's \<times> bool"
    and dropping :: "'s \<Rightarrow> string \<Rightarrow> 's \<times> bool"
  assumes listing_all: "listing s = Some ns \<Longrightarrow> set ns = names s"
    and create_done: "create s i = (t, True) \<Longrightarrow> names t = insert (default_name (ixKeys i)) (names s)"
    and drop_done: "dropping s n = (t, True) \<Longrightarrow> names t = names s - {n}"
begin

end

fun create_missing :: "('s \<Rightarrow> index \<Rightarrow> 's \<times> bool) \<Rightarrow> string list \<Rightarrow> index list \<Rightarrow> 's \<Rightarrow> 's \<times> bool" where
  "create_missing create own [] s = (s, True)"
| "create_missing create own (i # is) s =
     (if ixFullName i \<in> set own then create_missing create own is s
      else (case create s i of (t, False) \<Rightarrow> (t, False) | (t, True) \<Rightarrow> create_missing create own is t))"

text \<open>The second loop visits the names that were there before the first one.\<close>

fun drop_extra :: "('s \<Rightarrow> string \<Rightarrow> 's \<times> bool) \<Rightarrow> bool \<Rightarrow> string list \<Rightarrow> string list \<Rightarrow> 's \<Rightarrow> 's \<times> bool" where
  "drop_extra dropping enabled configured [] s = (s, True)"
| "drop_extra dropping enabled configured (n # ns) s =
     (if n = ''_id_'' \<or> n \<in> set configured \<or> \<not> enabled then drop_extra dropping enabled configured ns s
      else (case dropping s n of (t, False) \<Rightarrow> (t, False) | (t, True) \<Rightarrow> drop_extra dropping enabled configured ns t))"

text \<open>\<open>visit\<close> is the order of the map of the names; a capped collection is created first, errors ignored.\<close>

definition coll_Migrate ::
  "('s \<Rightarrow> 's) \<Rightarrow> ('s \<Rightarrow> string list option) \<Rightarrow> ('s \<Rightarrow> index \<Rightarrow> 's \<times> bool) \<Rightarrow> ('s \<Rightarrow> string \<Rightarrow> 's \<times> bool) \<Rightarrow>
     (string list \<Rightarrow> string list) \<Rightarrow> bool \<Rightarrow> collection \<Rightarrow> 's \<Rightarrow> 's \<times> bool" where
  "coll_Migrate capped listing create dropping visit enabled c s =
     (let s1 = (if clCapped c \<noteq> 0 then capped s else s) in
      case listing s1 of
        None \<Rightarrow> (s1, False)
      | Some own \<Rightarrow>
          (case create_missing create own (clIndexArr c) s1 of
             (s2, False) \<Rightarrow> (s2, False)
           | (s2, True) \<Rightarrow> drop_extra dropping enabled (map ixFullName (clIndexArr c)) (visit (remdups own)) s2))"

context index_view
begin

lemma create_missing_names:
  "create_missing create own is s = (t, True) \<Longrightarrow> \<forall>i\<in>set is. ixFullName i = default_name (ixKeys i) \<Longrightarrow>
     names t = names s \<union> {n \<in> ixFullName ` set is. n \<notin> set own}"
proof (induction "is" arbitrary: s)
  case (Cons i "is")
  show ?case
  proof (cases "ixFullName i \<in> set own")
    case True
    then show ?thesis using Cons by auto
  next
    case False
    then obtain u where u: "create s i = (u, True)" "create_missing create own is u = (t, True)"
      using Cons.prems(1) by (auto split: prod.splits bool.splits)
    show ?thesis using Cons.IH [OF u(2)] create_done [OF u(1)] Cons.prems(2) False by auto
  qed
qed simp

lemma drop_extra_names:
  "drop_extra dropping enabled configured ns s = (t, True) \<Longrightarrow>
     names t = names s - (if enabled then {n \<in> set ns. n \<noteq> ''_id_'' \<and> n \<notin> set configured} else {})"
proof (induction ns arbitrary: s)
  case (Cons n ns)
  show ?case
  proof (cases "n = ''_id_'' \<or> n \<in> set configured \<or> \<not> enabled")
    case True
    then show ?thesis using Cons by auto
  next
    case False
    then obtain u where u: "dropping s n = (u, True)" "drop_extra dropping enabled configured ns u = (t, True)"
      using Cons.prems(1) by (auto split: prod.splits bool.splits)
    show ?thesis using Cons.IH [OF u(2)] drop_done [OF u(1)] False by auto
  qed
qed simp

end

text \<open>
  What a migration leaves. When \<open>Migrate\<close> of a collection answers no error, the indexes of the
  collection are the configured ones and those it had before; with the dropping of indexes enabled, of
  the old ones only \<open>_id_\<close> is left. (The full names are those the database gives.)
\<close>

lemma migrate_index_names:
  assumes "index_view names listing create dropping" and "\<And>xs. set (visit xs) = set xs"
    and "\<forall>i\<in>set (clIndexArr c). ixFullName i = default_name (ixKeys i)" and "clCapped c = 0"
    and "coll_Migrate capped listing create dropping visit enabled c s = (t, True)"
  shows "names t = ixFullName ` set (clIndexArr c) \<union> (if enabled then names s \<inter> {''_id_''} else names s)"
proof -
  obtain own u where own: "listing s = Some own" and u: "create_missing create own (clIndexArr c) s = (u, True)"
    and t: "drop_extra dropping enabled (map ixFullName (clIndexArr c)) (visit (remdups own)) u = (t, True)"
    using assms(4,5) by (auto simp: coll_Migrate_def split: option.splits prod.splits bool.splits)
  show ?thesis
    using index_view.listing_all [OF assms(1) own] index_view.create_missing_names [OF assms(1) u assms(3)]
      index_view.drop_extra_names [OF assms(1) t] assms(2) by auto
qed


text \<open>When the full name of a parsed index is the one of the database: no key twice, and plain values.\<close>

definition plain_value :: "string \<Rightarrow> bool" where
  "plain_value v \<longleftrightarrow> key_text (key_value v) = v"

lemma join_snoc: "xs \<noteq> [] \<Longrightarrow> join_with c (xs @ ys) = (if ys = [] then join_with c xs else join_with c xs @ c @ join_with c ys)"
proof (induction xs)
  case (Cons x xs)
  then show ?case by (cases xs; cases ys) simp_all
qed simp

lemma default_name_snoc:
  "default_name (keys @ [(k, v)]) =
     (if keys = [] then k @ ''_'' @ key_text v else default_name keys @ ''_'' @ k @ ''_'' @ key_text v)"
proof (cases "keys = []")
  case False
  then have "concat (map (\<lambda>(k, v). [k, key_text v]) keys) \<noteq> []" by (cases keys) auto
  then show ?thesis using False by (simp add: default_name_def join_snoc)
qed (simp add: default_name_def)

lemma index_keys_name:
  "index_keys ks seen full keys = Return (f, out) \<Longrightarrow> distinct (map fst ks) \<Longrightarrow>
     \<forall>(k, t)\<in>set ks. k \<notin> set seen \<and> (\<forall>raw. t = Some raw \<longrightarrow> plain_value (drop_quotes 2 raw)) \<Longrightarrow>
     seen = [] \<longleftrightarrow> keys = [] \<Longrightarrow> full = default_name keys \<Longrightarrow> f = default_name out"
proof (induction ks seen full keys rule: index_keys.induct)
  case (3 k raw ks seen full keys)
  let ?v = "drop_quotes 2 raw"
  have k: "k \<notin> set seen" and v: "key_text (key_value ?v) = ?v" using "3.prems"(3) by (auto simp: plain_value_def)
  then have "length (List.insert k seen) = 1 \<longleftrightarrow> keys = []" using "3.prems"(4) by (simp add: List.insert_def)
  then have n: "(if length (List.insert k seen) = 1 then k @ ''_'' @ ?v else full @ ''_'' @ k @ ''_'' @ ?v)
      = default_name (keys @ [(k, key_value ?v)])"
    using "3.prems"(5) by (simp add: default_name_snoc v)
  have "j \<noteq> k" if "(j, t) \<in> set ks" for j t using "3.prems"(2) that by force
  then show ?case
    by (intro "3.IH" [OF refl refl refl]) (use "3.prems" k n in \<open>auto simp: Let_def\<close>)
qed auto

lemma parse_index_name:
  assumes "parse_index d = Return i" "idKeys d = Some ks" "distinct (map fst ks)"
    "\<forall>(k, t)\<in>set ks. \<forall>raw. t = Some raw \<longrightarrow> plain_value (drop_quotes 2 raw)"
  shows "ixFullName i = default_name (ixKeys i)"
proof -
  obtain f out where "index_keys ks [] [] [] = Return (f, out)" "ixFullName i = f" "ixKeys i = out"
    using assms(1,2) by (auto simp: parse_index_def bind_outcome_Return_iff split: option.splits)
  then show ?thesis using index_keys_name [of ks "[]" "[]" "[]" f out] assms(3,4) by (auto simp: default_name_def)
qed

text \<open>
  The two names differ for a value with a sign or a leading zero: the index is then created at each
  migration, and with the dropping enabled it is dropped at each second one.
\<close>

lemma padded_value_differs:
  "case parse_index \<lparr>idName = ''i'', idTag = Some ''1'', idUnique = False, idKeys = Some [(''k'', Some ''01'')]\<rparr> of
     Return i \<Rightarrow> ixFullName i = ''k_01'' \<and> default_name (ixKeys i) = ''k_1'' | _ \<Rightarrow> False"
  by code_simp

text \<open>A collection in memory, by the names of its indexes.\<close>

definition mem_create :: "string list \<Rightarrow> index \<Rightarrow> string list \<times> bool" where
  "mem_create s i = (List.insert (default_name (ixKeys i)) s, True)"

definition mem_drop :: "string list \<Rightarrow> string \<Rightarrow> string list \<times> bool" where
  "mem_drop s n = (if n \<in> set s then (removeAll n s, True) else (s, False))"

interpretation mem_indexes: index_view set Some mem_create mem_drop
  by unfold_locales (auto simp: mem_create_def mem_drop_def split: if_splits)

definition demo_index :: index where
  "demo_index = \<lparr>ixName = ''user'', ixTag = 1, ixFullName = ''user_id_1_item_id_1'', ixUnique = True,
     ixKeys = [(''user_id'', KInt 1), (''item_id'', KInt 1)]\<rparr>"

lemma migrate_index_names_witness:
  "\<exists>t. coll_Migrate id Some mem_create mem_drop id True ((new_collection ''item'')\<lparr>clIndexArr := [demo_index]\<rparr>)
       [''_id_'', ''old_1''] = (t, True) \<and> set t = {''_id_'', ''user_id_1_item_id_1''}"
proof -
  let ?c = "(new_collection ''item'')\<lparr>clIndexArr := [demo_index]\<rparr>"
  have n: "default_name [(''user_id'', KInt 1), (''item_id'', KInt 1)] = ''user_id_1_item_id_1''" by code_simp
  have "snd (coll_Migrate id Some mem_create mem_drop id True ?c [''_id_'', ''old_1''])" by code_simp
  then obtain t where t: "coll_Migrate id Some mem_create mem_drop id True ?c [''_id_'', ''old_1''] = (t, True)"
    by (metis prod.collapse)
  have "set t = ixFullName ` set (clIndexArr ?c) \<union> (if True then set [''_id_'', ''old_1''] \<inter> {''_id_''} else set [''_id_'', ''old_1''])"
    by (rule migrate_index_names [OF mem_indexes.index_view_axioms _ _ _ t])
      (simp_all add: demo_index_def n, simp add: new_collection_def)
  then show ?thesis using t by (auto simp: demo_index_def)
qed

end
