(* ===== verification/Game_Resource.thy ===== *)
theory Game_Resource
  imports Gira_Prelude "HOL-Library.Multiset"
begin

text \<open>
  The resources of a game: \<open>resource.go\<close>, which makes the dictionaries of rows by one, two or three keys, and
  the loaders, bundles and resources that \<open>gen/gen_resource/gen_resource.go\<close> generates from its template. The
  files, the encoding \<open>gob\<close> and the database are parameters.

  The lemmas: what a dictionary holds after a load, what a load calls of its handler, that a compressed
  bundle is loaded as it was written into an empty loader, and what a reload of one leaves behind; what a
  push writes to the database.
\<close>

section \<open>Rows and their keys\<close>

text \<open>A field of a row, as reflection sees it: the kinds that the code reads, with the name of the type.\<close>

datatype fval = FInt string int | FStr string | FOther string

datatype rkey = RInt int | RStr string

datatype key_kind = K_int | K_int32 | K_int64 | K_string

text \<open>
  \<open>Value.Int\<close> panics for another kind; \<open>Value.String\<close> then gives the name of the type. The conversion to
  \<open>int32\<close> wraps.
\<close>

definition key_of :: "key_kind \<Rightarrow> fval \<Rightarrow> rkey option" where
  "key_of kind v =
     (case kind of
        K_string \<Rightarrow> Some (RStr (case v of FStr s \<Rightarrow> s | FInt t i \<Rightarrow> ''<'' @ t @ '' Value>'' | FOther t \<Rightarrow> ''<'' @ t @ '' Value>''))
      | K_int32 \<Rightarrow> (case v of FInt t i \<Rightarrow> Some (RInt (sint (word_of_int i :: 32 word))) | _ \<Rightarrow> None)
      | _ \<Rightarrow> (case v of FInt t i \<Rightarrow> Some (RInt i) | _ \<Rightarrow> None))"

text \<open>The nested maps; a row is a pointer.\<close>

datatype 'r table = Row 'r | Dict "rkey \<Rightarrow> 'r table option"

fun put_path :: "rkey list \<Rightarrow> 'r \<Rightarrow> 'r table \<Rightarrow> 'r table" where
  "put_path [] r t = Row r"
| "put_path (k # ks) r (Dict m) =
     Dict (m(k \<mapsto> put_path ks r (case m k of None \<Rightarrow> Dict Map.empty | Some t \<Rightarrow> t)))"
| "put_path (k # ks) r (Row x) = Row x"

fun get_path :: "rkey list \<Rightarrow> 'r table \<Rightarrow> 'r option" where
  "get_path [] (Row r) = Some r"
| "get_path [] (Dict m) = None"
| "get_path (k # ks) (Dict m) = (case m k of None \<Rightarrow> None | Some t \<Rightarrow> get_path ks t)"
| "get_path (k # ks) (Row r) = None"

datatype make_error = FieldNotFound string

text \<open>\<open>FieldByName\<close> for each key first; then the conversions.\<close>

fun field_keys :: "('r \<Rightarrow> string \<Rightarrow> fval option) \<Rightarrow> (key_kind \<times> string) list \<Rightarrow> 'r \<Rightarrow> (make_error, fval list) outcome" where
  "field_keys field [] r = Return []"
| "field_keys field ((kind, name) # ks) r =
     (case field r name of
        None \<Rightarrow> Error (FieldNotFound name)
      | Some v \<Rightarrow> bind_outcome (field_keys field ks r) (\<lambda>vs. Return (v # vs)))"

definition row_keys :: "('r \<Rightarrow> string \<Rightarrow> fval option) \<Rightarrow> (key_kind \<times> string) list \<Rightarrow> 'r \<Rightarrow> (make_error, rkey list) outcome" where
  "row_keys field ks r =
     bind_outcome (field_keys field ks r)
       (\<lambda>vs. case those (map2 (\<lambda>k v. key_of (fst k) v) ks vs) of None \<Rightarrow> Panic | Some path \<Rightarrow> Return path)"

text \<open>The loop of the \<open>Make..Key..\<close> functions; the dictionary keeps what it got before an error.\<close>

fun makeKey :: "('r \<Rightarrow> string \<Rightarrow> fval option) \<Rightarrow> (key_kind \<times> string) list \<Rightarrow> 'r list \<Rightarrow> 'r table \<Rightarrow>
    'r table \<times> (make_error, unit) outcome" where
  "makeKey field ks [] t = (t, Return ())"
| "makeKey field ks (r # rs) t =
     (case row_keys field ks r of
        Return path \<Rightarrow> makeKey field ks rs (put_path path r t)
      | Error e \<Rightarrow> (t, Error e)
      | Panic \<Rightarrow> (t, Panic))"

text \<open>A table with the same number of keys on every way to a row.\<close>

primrec depth_ok :: "nat \<Rightarrow> 'r table \<Rightarrow> bool" where
  "depth_ok 0 t \<longleftrightarrow> (\<exists>r. t = Row r)"
| "depth_ok (Suc n) t \<longleftrightarrow> (\<exists>m. t = Dict m \<and> (\<forall>k u. m k = Some u \<longrightarrow> depth_ok n u))"

lemma depth_ok_empty [simp]: "n \<noteq> 0 \<Longrightarrow> depth_ok n (Dict Map.empty)"
  by (cases n) auto

lemma put_path_depth: "ks = [] \<or> depth_ok (length ks) t \<Longrightarrow> depth_ok (length ks) (put_path ks r t)"
proof (induction ks r t rule: put_path.induct)
  case (2 k ks r m)
  then show ?case by (cases "m k"; cases "ks = []") auto
qed auto

lemma get_path_empty [simp]: "get_path ks (Dict Map.empty) = None"
  by (cases ks) auto

lemma get_put_path:
  "length js = length ks \<Longrightarrow> depth_ok (length ks) t \<Longrightarrow>
     get_path js (put_path ks r t) = (if js = ks then Some r else get_path js t)"
proof (induction ks r t arbitrary: js rule: put_path.induct)
  case (2 k ks r m)
  obtain j js' where js: "js = j # js'" "length js' = length ks" using "2.prems"(1) by (cases js) auto
  show ?case
  proof (cases "m k")
    case None
    have "get_path js' (put_path ks r (Dict Map.empty)) = (if js' = ks then Some r else None)"
    proof (cases "ks = []")
      case False
      then show ?thesis using "2.IH" [of js'] js None by simp
    qed (use js in simp)
    then show ?thesis using js None by auto
  next
    case (Some t)
    then show ?thesis using "2.IH" [of js'] js "2.prems"(2) by auto
  qed
qed auto

text \<open>The last row with the keys.\<close>

definition last_row :: "('r \<Rightarrow> string \<Rightarrow> fval option) \<Rightarrow> (key_kind \<times> string) list \<Rightarrow> 'r list \<Rightarrow> rkey list \<Rightarrow> 'r option" where
  "last_row field ks rs path = find (\<lambda>r. row_keys field ks r = Return path) (rev rs)"

lemma find_append: "find P (xs @ ys) = (case find P xs of None \<Rightarrow> find P ys | Some x \<Rightarrow> Some x)"
  by (induction xs) auto

lemma field_keys_length: "field_keys field ks r = Return vs \<Longrightarrow> length vs = length ks"
  by (induction ks arbitrary: vs) (auto simp: bind_outcome_Return_iff split: option.splits)

lemma those_length: "those xs = Some ys \<Longrightarrow> length ys = length xs"
  by (induction xs arbitrary: ys) (auto split: option.splits)

lemma row_keys_length: "row_keys field ks r = Return path \<Longrightarrow> length path = length ks"
  by (fastforce simp: row_keys_def bind_outcome_Return_iff split: option.splits dest: field_keys_length those_length)

lemma makeKey_last_row:
  "makeKey field ks rs t = (u, Return ()) \<Longrightarrow> depth_ok (length ks) t \<Longrightarrow> length path = length ks \<Longrightarrow>
     depth_ok (length ks) u
     \<and> get_path path u = (case last_row field ks rs path of None \<Rightarrow> get_path path t | Some r \<Rightarrow> Some r)"
proof (induction rs arbitrary: t)
  case (Cons r rs)
  obtain p where p: "row_keys field ks r = Return p" and u: "makeKey field ks rs (put_path p r t) = (u, Return ())"
    using Cons.prems(1) by (auto split: outcome.splits)
  have l: "length p = length ks" by (rule row_keys_length [OF p])
  then have "depth_ok (length ks) (put_path p r t)" using put_path_depth [of p t r] Cons.prems(2) by simp
  from Cons.IH [OF u this Cons.prems(3)] show ?case
    using get_put_path [of path p t r] l Cons.prems(2,3) p
    by (auto simp: last_row_def find_append split: option.splits)
qed (simp add: last_row_def)


section \<open>Resources and bundles\<close>

text \<open>
  What a resource is made into: the rows, a dictionary by some fields, or an object with a member for each of
  the listed values of one field.
\<close>

datatype derive = D_array | D_map "(key_kind \<times> string) list" | D_object "key_kind \<times> string" "string list"

record resource =
  rsName :: string
  rsDerive :: derive

datatype 'r wrap = WArr "'r list" | WMap "'r table" | WObj "string \<Rightarrow> 'r option"

type_synonym 'r bundle_state = "string \<Rightarrow> 'r wrap"

datatype load_error = SourceError string | MakeError make_error | KeyMissing string | VersionError | ConvertError

definition wrap_empty :: "derive \<Rightarrow> 'r wrap" where
  "wrap_empty d = (case d of D_array \<Rightarrow> WArr [] | D_map ks \<Rightarrow> WMap (Dict Map.empty) | D_object k vs \<Rightarrow> WObj Map.empty)"

fun bundle_Clear :: "resource list \<Rightarrow> 'r bundle_state \<Rightarrow> 'r bundle_state" where
  "bundle_Clear [] b = b"
| "bundle_Clear (r # rs) b =
     bundle_Clear rs (case rsDerive r of D_object k vs \<Rightarrow> b | d \<Rightarrow> b(rsName r := wrap_empty d))"

text \<open>\<open>Make\<close> of an object: a missing key makes its member nil and ends with an error.\<close>

fun make_members :: "'r table \<Rightarrow> string list \<Rightarrow> (string \<Rightarrow> 'r option) \<Rightarrow> (string \<Rightarrow> 'r option) \<times> (load_error, unit) outcome" where
  "make_members t [] obj = (obj, Return ())"
| "make_members t (v # vs) obj =
     (case get_path [RStr v] t of
        None \<Rightarrow> (obj(v := None), Error (KeyMissing v))
      | Some r \<Rightarrow> make_members t vs (obj(v \<mapsto> r)))"

definition wrap_Make :: "('r \<Rightarrow> string \<Rightarrow> fval option) \<Rightarrow> derive \<Rightarrow> 'r list \<Rightarrow> 'r wrap \<Rightarrow> 'r wrap \<times> (load_error, unit) outcome" where
  "wrap_Make field d rows w =
     (case (d, w) of
        (D_array, _) \<Rightarrow> (WArr rows, Return ())
      | (D_map ks, WMap t) \<Rightarrow> (case makeKey field ks rows t of (u, res) \<Rightarrow> (WMap u, map_error MakeError res))
      | (D_object k vs, WObj obj) \<Rightarrow>
          (case makeKey field [k] rows (Dict Map.empty) of
             (t, Return _) \<Rightarrow> (case make_members t vs obj of (obj2, res) \<Rightarrow> (WObj obj2, res))
           | (t, Error e) \<Rightarrow> (WObj obj, Error (MakeError e))
           | (t, Panic) \<Rightarrow> (WObj obj, Panic))
      | _ \<Rightarrow> (w, Panic))"

text \<open>The loop of \<open>LoadFromYaml\<close> and of \<open>LoadFromDb\<close>; \<open>src\<close> gives the rows of a resource.\<close>

fun load_resources ::
  "('r \<Rightarrow> string \<Rightarrow> fval option) \<Rightarrow> (string \<Rightarrow> (load_error, 'r list) outcome) \<Rightarrow> resource list \<Rightarrow> 'r bundle_state
     \<Rightarrow> 'r bundle_state \<times> (load_error, unit) outcome" where
  "load_resources field src [] b = (b, Return ())"
| "load_resources field src (r # rs) b =
     (case src (rsName r) of
        Error e \<Rightarrow> (b, Error e)
      | Panic \<Rightarrow> (b, Panic)
      | Return rows \<Rightarrow>
          (case wrap_Make field (rsDerive r) rows (b (rsName r)) of
             (w, Return _) \<Rightarrow> load_resources field src rs (b(rsName r := w))
           | (w, err) \<Rightarrow> (b(rsName r := w), err)))"

definition bundle_LoadFrom ::
  "('r \<Rightarrow> string \<Rightarrow> fval option) \<Rightarrow> (string \<Rightarrow> (load_error, 'r list) outcome) \<Rightarrow> resource list \<Rightarrow> 'r bundle_state
     \<Rightarrow> 'r bundle_state \<times> (load_error, unit) outcome" where
  "bundle_LoadFrom field src rs b = load_resources field src rs (bundle_Clear rs b)"

text \<open>The database of a client that is not a MongoDB client is not supported: a panic.\<close>

definition db_source :: "bool \<Rightarrow> (string \<Rightarrow> 'r list option) \<Rightarrow> string \<Rightarrow> (load_error, 'r list) outcome" where
  "db_source mongo findAll n =
     (if \<not> mongo then Panic else case findAll n of None \<Rightarrow> Error (SourceError n) | Some rows \<Rightarrow> Return rows)"

definition yaml_source :: "(string \<Rightarrow> 'r list option) \<Rightarrow> string \<Rightarrow> (load_error, 'r list) outcome" where
  "yaml_source read n = (case read n of None \<Rightarrow> Error (SourceError n) | Some rows \<Rightarrow> Return rows)"

section \<open>What a bundle holds\<close>

text \<open>The content of a resource, from its rows alone.\<close>

definition made_from :: "('r \<Rightarrow> string \<Rightarrow> fval option) \<Rightarrow> derive \<Rightarrow> 'r list \<Rightarrow> 'r wrap \<Rightarrow> bool" where
  "made_from field d rows w \<longleftrightarrow>
     (case d of
        D_array \<Rightarrow> w = WArr rows
      | D_map ks \<Rightarrow> (\<exists>t. w = WMap t \<and> depth_ok (length ks) t \<and> (\<forall>path. length path = length ks \<longrightarrow> get_path path t = last_row field ks rows path))
      | D_object k vs \<Rightarrow> (\<exists>obj. w = WObj obj \<and>
          (\<forall>v\<in>set vs. obj v \<noteq> None \<and> obj v = last_row field [k] rows [RStr v])))"

definition shaped :: "derive \<Rightarrow> 'r wrap \<Rightarrow> bool" where
  "shaped d w \<longleftrightarrow> (case (d, w) of (D_array, WArr _) \<Rightarrow> True | (D_map ks, WMap t) \<Rightarrow> ks \<noteq> [] \<and> depth_ok (length ks) t
     | (D_object k vs, WObj _) \<Rightarrow> True | _ \<Rightarrow> False)"

lemma make_members_done:
  "make_members t vs obj = (obj2, Return ()) \<Longrightarrow>
     (\<forall>v\<in>set vs. \<exists>r. obj2 v = Some r \<and> get_path [RStr v] t = Some r) \<and> (\<forall>v. v \<notin> set vs \<longrightarrow> obj2 v = obj v)"
proof (induction vs arbitrary: obj)
  case (Cons a vs)
  then obtain x where x: "get_path [RStr a] t = Some x" "make_members t vs (obj(a \<mapsto> x)) = (obj2, Return ())"
    by (auto split: option.splits)
  show ?case using Cons.IH [OF x(2)] x(1) by (cases "a \<in> set vs") auto
qed simp

lemma wrap_Make_done:
  assumes r: "wrap_Make field d rows w = (w2, Return ())" and w: "shaped d w"
    and fresh: "case d of D_map ks \<Rightarrow> w = WMap (Dict Map.empty) | _ \<Rightarrow> True"
  shows "made_from field d rows w2"
proof (cases d)
  case D_array
  then show ?thesis using r by (auto simp: wrap_Make_def made_from_def)
next
  case (D_map ks)
  then have k: "ks \<noteq> []" "w = WMap (Dict Map.empty)" using w fresh by (auto simp: shaped_def)
  obtain u where u: "makeKey field ks rows (Dict Map.empty) = (u, Return ())" "w2 = WMap u"
    using r D_map k by (auto simp: wrap_Make_def split: prod.splits)
  show ?thesis
    using makeKey_last_row [OF u(1), of "replicate (length ks) undefined"] makeKey_last_row [OF u(1)] k D_map u(2)
    by (auto simp: made_from_def split: option.splits)
next
  case (D_object k vs)
  then obtain obj where o: "w = WObj obj" using w by (auto simp: shaped_def split: wrap.splits)
  obtain t obj2 where t: "makeKey field [k] rows (Dict Map.empty) = (t, Return ())"
    "make_members t vs obj = (obj2, Return ())" "w2 = WObj obj2"
    using r D_object o by (auto simp: wrap_Make_def split: prod.splits outcome.splits)
  have "get_path [RStr v] t = last_row field [k] rows [RStr v]" for v
    using makeKey_last_row [OF t(1), of "[RStr v]"] by (auto split: option.splits)
  then show ?thesis using make_members_done [OF t(2)] D_object t(3) by (fastforce simp: made_from_def)
qed


lemma bundle_Clear_other: "n \<notin> rsName ` set rs \<Longrightarrow> bundle_Clear rs b n = b n"
  by (induction rs arbitrary: b) (auto split: derive.splits)

lemma bundle_Clear_at:
  "r \<in> set rs \<Longrightarrow> distinct (map rsName rs) \<Longrightarrow>
     bundle_Clear rs b (rsName r) = (case rsDerive r of D_object k vs \<Rightarrow> b (rsName r) | d \<Rightarrow> wrap_empty d)"
proof (induction rs arbitrary: b)
  case (Cons x xs)
  show ?case
  proof (cases "r = x")
    case True
    then have "rsName r \<notin> rsName ` set xs" using Cons.prems by simp
    then show ?thesis using True by (auto simp: bundle_Clear_other split: derive.splits)
  next
    case False
    then have m: "r \<in> set xs" using Cons.prems by simp
    then have "rsName r \<noteq> rsName x" using Cons.prems(2) by (metis distinct.simps(2) image_eqI list.set_map list.simps(9))
    then show ?thesis using Cons.IH [OF m] Cons.prems(2) by (auto split: derive.splits)
  qed
qed simp

definition bundle_shaped :: "resource list \<Rightarrow> 'r bundle_state \<Rightarrow> bool" where
  "bundle_shaped rs b \<longleftrightarrow> distinct (map rsName rs) \<and> (\<forall>r\<in>set rs. shaped (rsDerive r) (b (rsName r)))"

lemma load_resources_other:
  "load_resources field src rs b = (c, res) \<Longrightarrow> n \<notin> rsName ` set rs \<Longrightarrow> c n = b n"
  by (induction rs arbitrary: b) (auto split: outcome.splits prod.splits)

lemma load_resources_done:
  assumes "load_resources field src rs b = (c, Return ())" "distinct (map rsName rs)"
    "\<forall>r\<in>set rs. shaped (rsDerive r) (b (rsName r))
       \<and> (case rsDerive r of D_map ks \<Rightarrow> b (rsName r) = WMap (Dict Map.empty) | _ \<Rightarrow> True)"
  shows "\<forall>r\<in>set rs. \<exists>rows. src (rsName r) = Return rows \<and> made_from field (rsDerive r) rows (c (rsName r))"
  using assms
proof (induction rs arbitrary: b)
  case (Cons x xs)
  obtain rows w where s: "src (rsName x) = Return rows"
    and w: "wrap_Make field (rsDerive x) rows (b (rsName x)) = (w, Return ())"
    and l: "load_resources field src xs (b(rsName x := w)) = (c, Return ())"
    using Cons.prems(1) by (auto split: outcome.splits prod.splits)
  have n: "rsName x \<notin> rsName ` set xs" using Cons.prems(2) by simp
  have "made_from field (rsDerive x) rows w" by (rule wrap_Make_done [OF w]) (use Cons.prems(3) in \<open>auto split: derive.splits\<close>)
  moreover have "c (rsName x) = w" using load_resources_other [OF l n] by simp
  moreover have "\<forall>r\<in>set xs. \<exists>rows. src (rsName r) = Return rows \<and> made_from field (rsDerive r) rows (c (rsName r))"
    by (rule Cons.IH [OF l]) (use Cons.prems(2,3) n in \<open>auto simp: rev_image_eqI split: derive.splits\<close>)
  ultimately show ?case using s by auto
qed simp

lemma bundle_LoadFrom_done:
  assumes r: "bundle_LoadFrom field src rs b = (c, Return ())" and b: "bundle_shaped rs b"
  shows "\<forall>r\<in>set rs. \<exists>rows. src (rsName r) = Return rows \<and> made_from field (rsDerive r) rows (c (rsName r))"
proof (rule load_resources_done [OF r [unfolded bundle_LoadFrom_def]])
  show "\<forall>r\<in>set rs. shaped (rsDerive r) (bundle_Clear rs b (rsName r))
      \<and> (case rsDerive r of D_map ks \<Rightarrow> bundle_Clear rs b (rsName r) = WMap (Dict Map.empty) | _ \<Rightarrow> True)"
  proof
    fix r assume r: "r \<in> set rs"
    then have s: "shaped (rsDerive r) (b (rsName r))" using b by (simp add: bundle_shaped_def)
    show "shaped (rsDerive r) (bundle_Clear rs b (rsName r))
        \<and> (case rsDerive r of D_map ks \<Rightarrow> bundle_Clear rs b (rsName r) = WMap (Dict Map.empty) | _ \<Rightarrow> True)"
    proof (cases "rsDerive r")
      case (D_map ks)
      then have "ks \<noteq> []" using s by (auto simp: shaped_def split: wrap.splits)
      then show ?thesis using D_map bundle_Clear_at [OF r, of b] b by (simp add: bundle_shaped_def wrap_empty_def shaped_def)
    next
      case D_array
      then show ?thesis using bundle_Clear_at [OF r, of b] b by (simp add: bundle_shaped_def wrap_empty_def shaped_def)
    next
      case (D_object k vs)
      then show ?thesis using bundle_Clear_at [OF r, of b] b s by (simp add: bundle_shaped_def)
    qed
  qed
qed (use b in \<open>simp add: bundle_shaped_def\<close>)

section \<open>The loader\<close>

datatype bundle_type = B_db | B_raw | B_bin

record bundle_decl =
  bdName :: string
  bdType :: bundle_type
  bdResources :: "resource list"

record 'r loader =
  ldVersion :: string
  ldBundles :: "string \<Rightarrow> 'r bundle_state"

text \<open>
  What a load reads: the version file, the yaml file of a resource, the rows of a table, the binary file of a
  bundle, decoded into a bundle, and what the handler answers.
\<close>

record 'r sources =
  soVersion :: "string option"
  soYaml :: "string \<Rightarrow> string \<Rightarrow> 'r list option"
  soMongo :: bool
  soFind :: "string \<Rightarrow> 'r list option"
  soBin :: "string \<Rightarrow> 'r bundle_state \<Rightarrow> 'r bundle_state \<times> bool"
  soConvert :: "string \<Rightarrow> 'r wrap \<Rightarrow> bool"

datatype 'r load_event = OnResourcePreLoad bool | ConvertResource string "'r wrap" | OnResourcePostLoad bool

definition bundle_LoadFromBin :: "'r sources \<Rightarrow> string \<Rightarrow> 'r bundle_state \<Rightarrow> 'r bundle_state \<times> (load_error, unit) outcome" where
  "bundle_LoadFromBin so n b =
     (case soBin so n b of (c, True) \<Rightarrow> (c, Return ()) | (c, False) \<Rightarrow> (c, Error (SourceError n)))"

definition load_bundle ::
  "('r \<Rightarrow> string \<Rightarrow> fval option) \<Rightarrow> 'r sources \<Rightarrow> bool \<Rightarrow> bundle_decl \<Rightarrow> 'r bundle_state
     \<Rightarrow> 'r bundle_state \<times> (load_error, unit) outcome" where
  "load_bundle field so compress d b =
     (case bdType d of
        B_db \<Rightarrow> bundle_LoadFrom field (db_source (soMongo so) (soFind so)) (bdResources d) b
      | B_raw \<Rightarrow>
          (if compress then bundle_LoadFromBin so (bdName d) b
           else bundle_LoadFrom field (yaml_source (soYaml so (bdName d))) (bdResources d) b)
      | B_bin \<Rightarrow> bundle_LoadFromBin so (bdName d) b)"

fun load_bundles ::
  "('r \<Rightarrow> string \<Rightarrow> fval option) \<Rightarrow> 'r sources \<Rightarrow> bool \<Rightarrow> bundle_decl list \<Rightarrow> 'r loader
     \<Rightarrow> 'r loader \<times> (load_error, unit) outcome" where
  "load_bundles field so compress [] l = (l, Return ())"
| "load_bundles field so compress (d # ds) l =
     (case load_bundle field so compress d (ldBundles l (bdName d)) of
        (b, Return _) \<Rightarrow> load_bundles field so compress ds (l\<lparr>ldBundles := (ldBundles l)(bdName d := b)\<rparr>)
      | (b, err) \<Rightarrow> (l\<lparr>ldBundles := (ldBundles l)(bdName d := b)\<rparr>, err))"

text \<open>\<open>convert\<close>: what is handed to the handler, until it answers an error.\<close>

definition handed :: "bundle_decl list \<Rightarrow> 'r loader \<Rightarrow> (string \<times> 'r wrap) list" where
  "handed ds l = concat (map (\<lambda>d. map (\<lambda>r. (rsName r, ldBundles l (bdName d) (rsName r))) (bdResources d)) ds)"

fun convert_all :: "(string \<Rightarrow> 'r wrap \<Rightarrow> bool) \<Rightarrow> (string \<times> 'r wrap) list \<Rightarrow> 'r load_event list \<times> bool" where
  "convert_all conv [] = ([], True)"
| "convert_all conv ((n, w) # xs) =
     (if conv n w then (case convert_all conv xs of (es, ok) \<Rightarrow> (ConvertResource n w # es, ok))
      else ([ConvertResource n w], False))"

text \<open>\<open>LoadResource\<close> and \<open>ReloadResource\<close>, which differ in the flag they give the handler.\<close>

definition LoadResource ::
  "('r \<Rightarrow> string \<Rightarrow> fval option) \<Rightarrow> bool \<Rightarrow> 'r sources \<Rightarrow> bool \<Rightarrow> bundle_decl list \<Rightarrow> bool \<Rightarrow> 'r loader
     \<Rightarrow> 'r loader \<times> 'r load_event list \<times> (load_error, unit) outcome" where
  "LoadResource field reload so compress ds handler l =
     (case soVersion so of
        None \<Rightarrow> (l, [], Error VersionError)
      | Some v \<Rightarrow>
          (case load_bundles field so compress ds (l\<lparr>ldVersion := v\<rparr>) of
             (l2, Return _) \<Rightarrow>
               if \<not> handler then (l2, [], Return ())
               else (case convert_all (soConvert so) (handed ds l2) of
                  (es, False) \<Rightarrow> (l2, OnResourcePreLoad reload # es, Error ConvertError)
                | (es, True) \<Rightarrow> (l2, OnResourcePreLoad reload # es @ [OnResourcePostLoad reload], Return ()))
           | (l2, err) \<Rightarrow> (l2, [], err)))"


text \<open>What the decoding of a bundle promises, of a bundle that was encoded: into an empty one it gives it back.\<close>

lemma convert_all_done: "convert_all conv xs = (es, True) \<Longrightarrow> es = map (\<lambda>(n, w). ConvertResource n w) xs"
  by (induction conv xs arbitrary: es rule: convert_all.induct) (auto split: if_splits prod.splits)

lemma load_bundles_other:
  "load_bundles field so compress ds l = (l2, res) \<Longrightarrow>
     (n \<notin> bdName ` set ds \<longrightarrow> ldBundles l2 n = ldBundles l n) \<and> ldVersion l2 = ldVersion l"
  by (induction ds arbitrary: l) (auto split: outcome.splits prod.splits)

lemma load_bundles_done:
  "load_bundles field so compress ds l = (l2, Return ()) \<Longrightarrow> distinct (map bdName ds) \<Longrightarrow> d \<in> set ds \<Longrightarrow>
     load_bundle field so compress d (ldBundles l (bdName d)) = (ldBundles l2 (bdName d), Return ())"
proof (induction ds arbitrary: l)
  case (Cons x xs)
  obtain b where b: "load_bundle field so compress x (ldBundles l (bdName x)) = (b, Return ())"
    and l: "load_bundles field so compress xs (l\<lparr>ldBundles := (ldBundles l)(bdName x := b)\<rparr>) = (l2, Return ())"
    using Cons.prems(1) by (auto split: outcome.splits prod.splits)
  have n: "bdName x \<notin> bdName ` set xs" using Cons.prems(2) by simp
  show ?case
  proof (cases "d \<in> set xs")
    case True
    then have "bdName d \<noteq> bdName x" using n by (metis image_eqI)
    then show ?thesis using Cons.IH [OF l _ True] Cons.prems(2) by simp
  next
    case False
    then show ?thesis using Cons.prems(3) b load_bundles_other [OF l, of "bdName x"] n by auto
  qed
qed simp

text \<open>
  What a load gives the game. When \<open>LoadResource\<close> or \<open>ReloadResource\<close> answers no error, the handler was
  called exactly so: before the load of the bundles is handed over, once for each resource of each bundle with
  the loaded content, and after it. Every resource that was read from yaml or the database is made from the
  rows read now, whatever the loader held before: an array is the rows, a dictionary has for each
  key the last row with it, an object has each listed member.
\<close>

lemma load_hands_over:
  assumes "LoadResource field reload so compress ds True l = (l2, es, Return ())"
    and "distinct (map bdName ds)" and "d \<in> set ds" and "bundle_shaped (bdResources d) (ldBundles l (bdName d))"
    and "bdType d = B_db \<or> bdType d = B_raw \<and> \<not> compress" and "r \<in> set (bdResources d)"
  shows "es = [OnResourcePreLoad reload] @ map (\<lambda>(n, w). ConvertResource n w) (handed ds l2) @ [OnResourcePostLoad reload]
    \<and> (\<exists>rows. (if bdType d = B_db then soFind so (rsName r) else soYaml so (bdName d) (rsName r)) = Some rows
        \<and> made_from field (rsDerive r) rows (ldBundles l2 (bdName d) (rsName r)))"
proof -
  obtain v es2 where lb: "load_bundles field so compress ds (l\<lparr>ldVersion := v\<rparr>) = (l2, Return ())"
    and conv: "convert_all (soConvert so) (handed ds l2) = (es2, True)"
    and es: "es = OnResourcePreLoad reload # es2 @ [OnResourcePostLoad reload]"
    using assms(1) by (auto simp: LoadResource_def split: option.splits outcome.splits prod.splits bool.splits)
  have b: "load_bundle field so compress d (ldBundles l (bdName d)) = (ldBundles l2 (bdName d), Return ())"
    using load_bundles_done [OF lb assms(2,3)] by simp
  let ?src = "if bdType d = B_db then db_source (soMongo so) (soFind so) else yaml_source (soYaml so (bdName d))"
  have "bundle_LoadFrom field ?src (bdResources d) (ldBundles l (bdName d)) = (ldBundles l2 (bdName d), Return ())"
    using b assms(5) by (auto simp: load_bundle_def split: bundle_type.splits)
  then obtain rows where "?src (rsName r) = Return rows" "made_from field (rsDerive r) rows (ldBundles l2 (bdName d) (rsName r))"
    using bundle_LoadFrom_done assms(4,6) by blast
  moreover from this(1) have "(if bdType d = B_db then soFind so (rsName r) else soYaml so (bdName d) (rsName r)) = Some rows"
    by (auto simp: db_source_def yaml_source_def split: if_splits option.splits)
  ultimately show ?thesis using es convert_all_done [OF conv] by auto
qed


section \<open>Compressed bundles\<close>

text \<open>
  What the code relies on of \<open>encoding/gob\<close>: an encoded bundle is decoded into an empty one as it was; decoding
  into a map that has entries adds the decoded ones to them.
\<close>

definition wrap_is_empty :: "'r wrap \<Rightarrow> bool" where
  "wrap_is_empty w \<longleftrightarrow> w \<in> {WArr [], WMap (Dict Map.empty), WObj Map.empty}"

locale gob_codec =
  fixes encode :: "'r bundle_state \<Rightarrow> 'f"
    and decode :: "'f \<Rightarrow> 'r bundle_state \<Rightarrow> 'r bundle_state \<times> bool"
  assumes decode_empty: "decode (encode b) old = (c, True) \<Longrightarrow> wrap_is_empty (old n) \<Longrightarrow> c n = b n"
    and decode_map: "decode (encode b) old = (c, True) \<Longrightarrow> b n = WMap (Dict m) \<Longrightarrow> old n = WMap (Dict m0) \<Longrightarrow>
      c n = WMap (Dict (m0 ++ m))"
begin

lemma decode_one_key:
  assumes "decode (encode b) old = (c, True)" "b n = WMap t" "old n = WMap u" "depth_ok 1 t" "depth_ok 1 u"
  shows "\<exists>v. c n = WMap v \<and> (\<forall>k. get_path [k] v = (case get_path [k] t of None \<Rightarrow> get_path [k] u | Some r \<Rightarrow> Some r))"
proof -
  obtain m m0 where m: "t = Dict m" "u = Dict m0" "\<And>k x. m k = Some x \<Longrightarrow> \<exists>r. x = Row r" using assms(4,5) by auto
  have "c n = WMap (Dict (m0 ++ m))" using decode_map assms(1-3) m by simp
  moreover have "get_path [k] (Dict (m0 ++ m)) = (case get_path [k] t of None \<Rightarrow> get_path [k] u | Some r \<Rightarrow> Some r)" for k
    using m(1,2) m(3) [of k] by (cases "m k") (auto simp: map_add_def)
  ultimately show ?thesis by blast
qed

end

text \<open>An encoding in memory.\<close>

definition merge_wrap :: "'r wrap \<Rightarrow> 'r wrap \<Rightarrow> 'r wrap" where
  "merge_wrap old new =
     (case (old, new) of (WMap (Dict m0), WMap (Dict m)) \<Rightarrow> WMap (Dict (m0 ++ m)) | _ \<Rightarrow> new)"

definition mem_decode :: "'r bundle_state \<Rightarrow> 'r bundle_state \<Rightarrow> 'r bundle_state \<times> bool" where
  "mem_decode b old = ((\<lambda>n. merge_wrap (old n) (b n)), True)"

interpretation mem_gob: gob_codec id mem_decode
  by unfold_locales (auto simp: mem_decode_def merge_wrap_def wrap_is_empty_def split: wrap.splits table.splits)

text \<open>
  A reload of a compressed bundle keeps the rows that were removed. A dictionary by one key, compressed from
  its new rows and reloaded over what the loader holds, has for each key of the new rows the last row
  with it, and for every other key what it had before the reload: \<open>LoadFromBin\<close> does not clear the bundle,
  unlike the loads from yaml and from the database.
\<close>

lemma compressed_reload_keeps_removed_rows:
  assumes "gob_codec encode decode" and "soBin so (bdName d) = decode (encode nb)"
    and "bundle_LoadFrom field src (bdResources d) b0 = (nb, Return ())" and "bundle_shaped (bdResources d) b0"
    and "r \<in> set (bdResources d)" and "rsDerive r = D_map [k]"
    and "old (rsName r) = WMap t" and "depth_ok 1 t"
    and "bdType d = B_bin" and "load_bundle field so compress d old = (c, Return ())"
  shows "\<exists>rows u. src (rsName r) = Return rows \<and> c (rsName r) = WMap u
    \<and> (\<forall>key. get_path [key] u = (case last_row field [k] rows [key] of None \<Rightarrow> get_path [key] t | Some x \<Rightarrow> Some x))"
proof -
  obtain rows where rows: "src (rsName r) = Return rows" and m: "made_from field (D_map [k]) rows (nb (rsName r))"
    using bundle_LoadFrom_done [OF assms(3,4)] assms(5,6) by auto
  then obtain v where v: "nb (rsName r) = WMap v" "depth_ok (length [k]) v"
    "\<forall>path. length path = length [k] \<longrightarrow> get_path path v = last_row field [k] rows path"
    unfolding made_from_def derive.case by blast
  then have d: "depth_ok 1 v" and g: "get_path [key] v = last_row field [k] rows [key]" for key by simp_all
  have "decode (encode nb) old = (c, True)"
    using assms(2,9,10) by (auto simp: load_bundle_def bundle_LoadFromBin_def split: prod.splits bool.splits)
  from gob_codec.decode_one_key [OF assms(1) this v(1) assms(7) d assms(8)]
  show ?thesis using rows by (simp add: g)
qed


section \<open>Pushing resources to the database\<close>

text \<open>
  The collections of a database, by name: the documents of each, with repetition. A bulk write that fails may
  have inserted some; the result of \<open>Drop\<close> is not read.
\<close>

locale collections =
  fixes content :: "'s \<Rightarrow> string \<Rightarrow> 'r multiset"
    and key :: "'r \<Rightarrow> rkey"
    and dropc :: "'s \<Rightarrow> string \<Rightarrow> 's"
    and find_key :: "'s \<Rightarrow> string \<Rightarrow> rkey \<Rightarrow> (load_error, bool) outcome"
    and insert_all :: "'s \<Rightarrow> string \<Rightarrow> 'r list \<Rightarrow> 's \<times> bool"
  assumes drop_this: "content (dropc s n) n \<in> {{#}, content s n}"
    and drop_others: "m \<noteq> n \<Longrightarrow> content (dropc s n) m = content s m"
    and find_this: "find_key s n k = Return b \<Longrightarrow> b \<longleftrightarrow> k \<in> key ` set_mset (content s n)"
    and insert_this: "insert_all s n rs = (t, True) \<Longrightarrow> content t n = content s n + mset rs"
    and insert_others: "insert_all s n rs = (t, ok) \<Longrightarrow> m \<noteq> n \<Longrightarrow> content t m = content s m"

text \<open>The documents to insert: those whose first key is in no document; an error of \<open>FindOne\<close> ends the push.\<close>

fun missing_rows :: "(string \<Rightarrow> rkey \<Rightarrow> (load_error, bool) outcome) \<Rightarrow> ('r \<Rightarrow> rkey) \<Rightarrow> string \<Rightarrow> 'r list
    \<Rightarrow> (load_error, 'r list) outcome" where
  "missing_rows find_key key n [] = Return []"
| "missing_rows find_key key n (r # rs) =
     bind_outcome (find_key n (key r)) (\<lambda>found.
       bind_outcome (missing_rows find_key key n rs) (\<lambda>ms. Return (if found then ms else r # ms)))"

definition insert_models :: "('s \<Rightarrow> string \<Rightarrow> 'r list \<Rightarrow> 's \<times> bool) \<Rightarrow> string \<Rightarrow> 'r list \<Rightarrow> 's \<Rightarrow> 's \<times> bool" where
  "insert_models insert_all n ms s = (if ms = [] then (s, True) else insert_all s n ms)"

record push_options =
  poDrop :: bool
  poForce :: bool

text \<open>One resource; \<open>keyed\<close> says that it has a key at all.\<close>

definition push_resource ::
  "('s \<Rightarrow> string \<Rightarrow> 's) \<Rightarrow> ('s \<Rightarrow> string \<Rightarrow> rkey \<Rightarrow> (load_error, bool) outcome) \<Rightarrow> ('s \<Rightarrow> string \<Rightarrow> 'r list \<Rightarrow> 's \<times> bool) \<Rightarrow>
     ('r \<Rightarrow> rkey) \<Rightarrow> push_options \<Rightarrow> string \<Rightarrow> bool \<Rightarrow> 'r list \<Rightarrow> 's \<Rightarrow> 's \<times> bool" where
  "push_resource dropc find_key insert_all key opts n keyed rows s =
     (if poDrop opts then (dropc s n, True)
      else if poForce opts then insert_models insert_all n rows (dropc s n)
      else if \<not> keyed then (s, True)
      else (case missing_rows (find_key s) key n rows of
              Return ms \<Rightarrow> insert_models insert_all n ms s
            | _ \<Rightarrow> (s, False)))"

text \<open>\<open>SaveToMongo\<close>: all the files are read first.\<close>

fun push_all ::
  "(string \<Rightarrow> bool \<Rightarrow> 'r list \<Rightarrow> 's \<Rightarrow> 's \<times> bool) \<Rightarrow> (string \<times> bool \<times> 'r list) list \<Rightarrow> 's \<Rightarrow> 's \<times> bool" where
  "push_all push [] s = (s, True)"
| "push_all push ((n, keyed, rows) # xs) s =
     (case push n keyed rows s of (t, True) \<Rightarrow> push_all push xs t | (t, False) \<Rightarrow> (t, False))"

definition SaveToMongo ::
  "('s \<Rightarrow> string \<Rightarrow> 's) \<Rightarrow> ('s \<Rightarrow> string \<Rightarrow> rkey \<Rightarrow> (load_error, bool) outcome) \<Rightarrow> ('s \<Rightarrow> string \<Rightarrow> 'r list \<Rightarrow> 's \<times> bool) \<Rightarrow>
     ('r \<Rightarrow> rkey) \<Rightarrow> (string \<Rightarrow> 'r list option) \<Rightarrow> push_options \<Rightarrow> (string \<times> bool) list \<Rightarrow> 's \<Rightarrow> 's \<times> bool" where
  "SaveToMongo dropc find_key insert_all key yaml opts rs s =
     (case those (map (\<lambda>(n, keyed). map_option (\<lambda>rows. (n, keyed, rows)) (yaml n)) rs) of
        None \<Rightarrow> (s, False)
      | Some xs \<Rightarrow> push_all (push_resource dropc find_key insert_all key opts) xs s)"

context collections
begin

lemma missing_rows_eq:
  "missing_rows (find_key s) key n rs = Return ms \<Longrightarrow> ms = filter (\<lambda>r. key r \<notin> key ` set_mset (content s n)) rs"
  by (induction rs arbitrary: ms) (auto simp: bind_outcome_Return_iff dest: find_this)

lemma insert_models_this:
  "insert_models insert_all n ms s = (t, True) \<Longrightarrow> content t n = content s n + mset ms"
  by (auto simp: insert_models_def insert_this split: if_splits)

lemma insert_models_others:
  "insert_models insert_all n ms s = (t, ok) \<Longrightarrow> m \<noteq> n \<Longrightarrow> content t m = content s m"
  by (auto simp: insert_models_def insert_others split: if_splits)

lemma push_resource_others:
  "push_resource dropc find_key insert_all key opts n keyed rows s = (t, ok) \<Longrightarrow> m \<noteq> n \<Longrightarrow> content t m = content s m"
  by (auto simp: push_resource_def drop_others insert_models_others split: if_splits outcome.splits)

lemma push_resource_missing:
  assumes "push_resource dropc find_key insert_all key opts n True rows s = (t, True)" "\<not> poDrop opts" "\<not> poForce opts"
  shows "content t n = content s n + mset (filter (\<lambda>r. key r \<notin> key ` set_mset (content s n)) rows)"
  using assms insert_models_this missing_rows_eq by (fastforce simp: push_resource_def split: outcome.splits)

lemma push_all_missing:
  assumes "push_all (push_resource dropc find_key insert_all key opts) xs s = (t, True)" "\<not> poDrop opts" "\<not> poForce opts"
    "distinct (map fst xs)"
  shows "((n, True, rows) \<in> set xs \<longrightarrow>
      content t n = content s n + mset (filter (\<lambda>r. key r \<notin> key ` set_mset (content s n)) rows))
    \<and> (n \<notin> fst ` set xs \<longrightarrow> content t n = content s n)"
  using assms(1,4)
proof (induction xs arbitrary: s)
  case (Cons x xs)
  obtain m keyed rs where x: "x = (m, keyed, rs)" by (cases x) auto
  obtain u where u: "push_resource dropc find_key insert_all key opts m keyed rs s = (u, True)"
    and t: "push_all (push_resource dropc find_key insert_all key opts) xs u = (t, True)"
    using Cons.prems(1) by (auto simp: x split: prod.splits bool.splits)
  note IH = Cons.IH [OF t]
  have d: "distinct (map fst xs)" "m \<notin> fst ` set xs" using Cons.prems(2) by (simp_all add: x)
  show ?case
  proof (cases "n = m")
    case True
    then have "content t n = content u n" using IH d by simp
    moreover have "(n, True, rows) \<notin> set xs" using True d(2) by force
    ultimately show ?thesis using push_resource_missing [of opts m rs s u] u assms(2,3) True by (auto simp: x)
  next
    case False
    then show ?thesis using IH d push_resource_others [OF u False] by (auto simp: x)
  qed
qed simp

end


lemma those_sources:
  "those (map (\<lambda>(n, keyed). map_option (\<lambda>rows. (n, keyed, rows)) (yaml n)) rs) = Some xs \<Longrightarrow>
     map fst xs = map fst rs \<and> ((n, keyed) \<in> set rs \<longrightarrow> (\<exists>rows. yaml n = Some rows \<and> (n, keyed, rows) \<in> set xs))"
  by (induction rs arbitrary: xs) (auto split: option.splits prod.splits)

text \<open>
  C27. A push without options adds what is missing and changes nothing else. When it answers no error, each
  collection of a keyed resource has the documents it had and, added, the rows whose key was in no document
  (all of them, when several rows have the same key); other collections are as they were. A second
  push then adds nothing.
\<close>

theorem push_adds_missing:
  assumes "collections content key dropc find_key insert_all"
    and "SaveToMongo dropc find_key insert_all key yaml \<lparr>poDrop = False, poForce = False\<rparr> rs s = (t, True)"
    and "distinct (map fst rs)"
  shows "((n, True) \<in> set rs \<longrightarrow> (\<exists>rows. yaml n = Some rows
        \<and> content t n = content s n + mset (filter (\<lambda>r. key r \<notin> key ` set_mset (content s n)) rows)))
    \<and> (n \<notin> fst ` set rs \<longrightarrow> content t n = content s n)
    \<and> ((n, True) \<in> set rs \<longrightarrow> SaveToMongo dropc find_key insert_all key yaml \<lparr>poDrop = False, poForce = False\<rparr> rs t = (u, True)
        \<longrightarrow> content u n = content t n)"
proof -
  let ?opts = "\<lparr>poDrop = False, poForce = False\<rparr>"
  obtain xs where xs: "those (map (\<lambda>(n, keyed). map_option (\<lambda>rows. (n, keyed, rows)) (yaml n)) rs) = Some xs"
    and t: "push_all (push_resource dropc find_key insert_all key ?opts) xs s = (t, True)"
    using assms(2) by (auto simp: SaveToMongo_def split: option.splits)
  have m: "map fst xs = map fst rs" using those_sources [OF xs] by blast
  have d: "distinct (map fst xs)" using assms(3) by (simp only: m)
  have f: "fst ` set xs = fst ` set rs" using arg_cong [OF m, of set] by simp
  note P = collections.push_all_missing [OF assms(1)]
  show ?thesis
  proof (intro conjI impI)
    assume n: "(n, True) \<in> set rs"
    then obtain rows where rows: "yaml n = Some rows" "(n, True, rows) \<in> set xs" using those_sources [OF xs] by blast
    have t2: "content t n = content s n + mset (filter (\<lambda>r. key r \<notin> key ` set_mset (content s n)) rows)"
      using P [OF t _ _ d] rows(2) by simp
    then show "\<exists>rows. yaml n = Some rows \<and> content t n = content s n + mset (filter (\<lambda>r. key r \<notin> key ` set_mset (content s n)) rows)"
      using rows by blast
    assume "SaveToMongo dropc find_key insert_all key yaml ?opts rs t = (u, True)"
    then have u: "push_all (push_resource dropc find_key insert_all key ?opts) xs t = (u, True)"
      using xs by (simp add: SaveToMongo_def)
    have "filter (\<lambda>r. key r \<notin> key ` set_mset (content t n)) rows = []"
      by (auto simp: t2 filter_empty_conv)
    then show "content u n = content t n" using P [OF u _ _ d, of n rows] rows(2) by (simp del: mset_filter)
  next
    assume "n \<notin> fst ` set rs"
    then show "content t n = content s n" using P [OF t _ _ d] f by simp
  qed
qed

section \<open>Concrete resources\<close>

type_synonym demo_row = "nat \<times> string"

definition demo_field :: "demo_row \<Rightarrow> string \<Rightarrow> fval option" where
  "demo_field r n = (if n = ''Id'' then Some (FInt ''int64'' (int (fst r))) else if n = ''Name'' then Some (FStr (snd r)) else None)"

definition mem_drop_coll :: "(string \<Rightarrow> demo_row list) \<Rightarrow> string \<Rightarrow> string \<Rightarrow> demo_row list" where
  "mem_drop_coll s n = s(n := [])"

definition mem_find_key :: "(string \<Rightarrow> demo_row list) \<Rightarrow> string \<Rightarrow> rkey \<Rightarrow> (load_error, bool) outcome" where
  "mem_find_key s n k = Return (k \<in> (\<lambda>r. RInt (int (fst r))) ` set (s n))"

definition mem_insert_all :: "(string \<Rightarrow> demo_row list) \<Rightarrow> string \<Rightarrow> demo_row list \<Rightarrow> (string \<Rightarrow> demo_row list) \<times> bool" where
  "mem_insert_all s n rs = (s(n := s n @ rs), True)"

interpretation mem_colls: collections "\<lambda>s n. mset (s n)" "\<lambda>r. RInt (int (fst r))" mem_drop_coll mem_find_key mem_insert_all
  by unfold_locales (auto simp: mem_drop_coll_def mem_find_key_def mem_insert_all_def)

definition demo_colls :: "string \<Rightarrow> demo_row list" where "demo_colls = (\<lambda>_. [])(''item'' := [(1, ''old'')])"

definition demo_yaml :: "string \<Rightarrow> demo_row list option" where
  "demo_yaml n = (if n = ''item'' then Some [(1, ''new''), (2, ''b''), (2, ''c'')] else None)"

lemma push_adds_missing_witness:
  "\<exists>t. SaveToMongo mem_drop_coll mem_find_key mem_insert_all (\<lambda>r. RInt (int (fst r))) demo_yaml
      \<lparr>poDrop = False, poForce = False\<rparr> [(''item'', True)] demo_colls = (t, True)
    \<and> mset (t ''item'') = {# (1, ''old''), (2, ''b''), (2, ''c'') #}"
proof -
  obtain t where t: "SaveToMongo mem_drop_coll mem_find_key mem_insert_all (\<lambda>r. RInt (int (fst r))) demo_yaml
      \<lparr>poDrop = False, poForce = False\<rparr> [(''item'', True)] demo_colls = (t, True)"
    by (simp add: SaveToMongo_def demo_yaml_def push_resource_def mem_find_key_def demo_colls_def insert_models_def mem_insert_all_def)
  have "mset (t ''item'') = {# (1, ''old''), (2, ''b''), (2, ''c'') #}"
    using push_adds_missing [OF mem_colls.collections_axioms t, of "''item''"]
    by (simp add: demo_yaml_def demo_colls_def)
  then show ?thesis using t by blast
qed

definition demo_resource :: resource where
  "demo_resource = \<lparr>rsName = ''item'', rsDerive = D_map [(K_int64, ''Id'')]\<rparr>"

definition demo_bundle :: bundle_decl where
  "demo_bundle = \<lparr>bdName = ''conf'', bdType = B_raw, bdResources = [demo_resource]\<rparr>"

definition demo_sources :: "demo_row sources" where
  "demo_sources = \<lparr>soVersion = Some ''1'', soYaml = (\<lambda>_. demo_yaml), soMongo = True, soFind = (\<lambda>_. None),
     soBin = (\<lambda>_ b. (b, False)), soConvert = (\<lambda>_ _. True)\<rparr>"

definition empty_loader :: "demo_row loader" where
  "empty_loader = \<lparr>ldVersion = [], ldBundles = (\<lambda>_ _. WMap (Dict Map.empty))\<rparr>"

lemma load_hands_over_witness:
  "case LoadResource demo_field True demo_sources False [demo_bundle] True empty_loader of
     (l, es, res) \<Rightarrow> res = Return () \<and> (\<exists>t. es = [OnResourcePreLoad True, ConvertResource ''item'' (WMap t), OnResourcePostLoad True]
       \<and> get_path [RInt 2] t = Some (2, ''c'') \<and> get_path [RInt 1] t = Some (1, ''new''))"
proof -
  obtain l es where l: "LoadResource demo_field True demo_sources False [demo_bundle] True empty_loader = (l, es, Return ())"
    by (simp add: LoadResource_def demo_sources_def demo_bundle_def demo_resource_def load_bundle_def bundle_LoadFrom_def
        yaml_source_def demo_yaml_def wrap_empty_def wrap_Make_def row_keys_def demo_field_def key_of_def handed_def split: prod.splits)
  have e: "es = [OnResourcePreLoad True] @ map (\<lambda>(n, w). ConvertResource n w) (handed [demo_bundle] l) @ [OnResourcePostLoad True]
    \<and> (\<exists>rows. demo_yaml ''item'' = Some rows \<and> made_from demo_field (D_map [(K_int64, ''Id'')]) rows (ldBundles l ''conf'' ''item''))"
    using load_hands_over [OF l, of demo_bundle demo_resource]
    by (simp add: demo_bundle_def demo_resource_def demo_sources_def bundle_shaped_def shaped_def empty_loader_def)
  then obtain t where t: "ldBundles l ''conf'' ''item'' = WMap t"
    "\<forall>path. length path = 1 \<longrightarrow> get_path path t = last_row demo_field [(K_int64, ''Id'')] (the (demo_yaml ''item'')) path"
    by (auto simp: made_from_def)
  then have "get_path [RInt 2] t = Some (2, ''c'')" "get_path [RInt 1] t = Some (1, ''new'')"
    by (simp_all add: last_row_def demo_yaml_def row_keys_def demo_field_def key_of_def)
  then show ?thesis using l e t(1) by (simp add: handed_def demo_bundle_def demo_resource_def)
qed


text \<open>The new rows have lost the row 2; a reload keeps it.\<close>

definition demo_zip :: bundle_decl where
  "demo_zip = \<lparr>bdName = ''conf'', bdType = B_bin, bdResources = [demo_resource]\<rparr>"

definition old_bundle :: "demo_row bundle_state" where
  "old_bundle = (\<lambda>_. WMap (Dict [RInt 1 \<mapsto> Row (1, ''a''), RInt 2 \<mapsto> Row (2, ''b'')]))"

definition new_bundle :: "demo_row bundle_state" where
  "new_bundle = (\<lambda>_. WMap (Dict Map.empty))(''item'' := WMap (Dict [RInt 1 \<mapsto> Row (1, ''a2'')]))"

definition zip_sources :: "demo_row sources" where
  "zip_sources = demo_sources\<lparr>soBin := (\<lambda>_. mem_decode new_bundle)\<rparr>"

lemma compressed_reload_keeps_removed_rows_witness:
  "\<exists>c u. load_bundle demo_field zip_sources True demo_zip old_bundle = (c, Return ()) \<and> c ''item'' = WMap u
     \<and> get_path [RInt 1] u = Some (1, ''a2'') \<and> get_path [RInt 2] u = Some (2, ''b'')"
proof -
  let ?src = "\<lambda>_. Return [(1, ''a2'')]"
  have nb: "bundle_LoadFrom demo_field ?src (bdResources demo_zip) (\<lambda>_. WMap (Dict Map.empty)) = (new_bundle, Return ())"
    by (simp add: bundle_LoadFrom_def demo_zip_def demo_resource_def wrap_Make_def row_keys_def demo_field_def key_of_def
        wrap_empty_def new_bundle_def fun_upd_def fun_eq_iff)
  obtain c where c: "load_bundle demo_field zip_sources True demo_zip old_bundle = (c, Return ())"
    by (simp add: load_bundle_def demo_zip_def bundle_LoadFromBin_def zip_sources_def mem_decode_def)
  have "\<exists>rows u. Return [(1, ''a2'')] = (Return rows :: (load_error, demo_row list) outcome) \<and> c (rsName demo_resource) = WMap u
    \<and> (\<forall>key. get_path [key] u = (case last_row demo_field [(K_int64, ''Id'')] rows [key] of
        None \<Rightarrow> get_path [key] (Dict [RInt 1 \<mapsto> Row (1, ''a''), RInt 2 \<mapsto> Row (2, ''b'')]) | Some x \<Rightarrow> Some x))"
    using compressed_reload_keeps_removed_rows [where so = zip_sources and r = demo_resource and d = demo_zip
        and k = "(K_int64, ''Id'')" and old = old_bundle and t = "Dict [RInt 1 \<mapsto> Row (1, ''a''), RInt 2 \<mapsto> Row (2, ''b'')]"
        and c = c and compress = True, OF mem_gob.gob_codec_axioms _ nb _ _ _ _ _ _ c]
    by (simp add: zip_sources_def demo_zip_def demo_resource_def bundle_shaped_def shaped_def old_bundle_def)
  then show ?thesis
    using c by (auto simp: demo_resource_def last_row_def row_keys_def demo_field_def key_of_def)
qed

text \<open>Two int keys that differ by 2^32 are one \<open>int32\<close> key.\<close>

lemma int32_keys_collide: "key_of K_int32 (FInt ''int64'' 4294967297) = key_of K_int32 (FInt ''int64'' 1)"
  by code_simp


section \<open>Reading a sheet\<close>

text \<open>
  \<open>readExcel\<close> of a sheet that was opened: the rows of cells, each without its empty cells at the end. Row 0 has the
  comments, row 3 the names, row 4 the types, the rows from 5 on the values.
\<close>

datatype xtype = X_int | X_float | X_int64 | X_int32 | X_string | X_json | X_bool | X_string_arr | X_int_arr | X_float_arr
  | X_object_id

definition xtype_dict :: "string \<Rightarrow> xtype option" where
  "xtype_dict = map_of
     [(''int'', X_int), (''float'', X_float), (''int64'', X_int64), (''long'', X_int64), (''int32'', X_int32),
      (''string'', X_string), (''json'', X_json), (''bool'', X_bool), (''string[]'', X_string_arr), (''int[]'', X_int_arr),
      (''float[]'', X_float_arr), (''id'', X_object_id)]"

record xfield =
  xfTag :: nat
  xfName :: string
  xfType :: xtype
  xfComment :: string

datatype xvalue = XText string | XZero

datatype sheet_error = InvalidType string

text \<open>An index out of the range of a row is a panic.\<close>

fun sheet_fields :: "string list \<Rightarrow> string list \<Rightarrow> nat \<Rightarrow> string list \<Rightarrow> (sheet_error, xfield list) outcome" where
  "sheet_fields comments types i [] = Return []"
| "sheet_fields comments types i (v # vs) =
     (if v = [] then sheet_fields comments types (i + 1) vs
      else if length types \<le> i then Panic
      else case xtype_dict (types ! i) of
        None \<Rightarrow> Error (InvalidType (types ! i))
      | Some t \<Rightarrow> bind_outcome (sheet_fields comments types (i + 1) vs)
          (\<lambda>fs. Return (\<lparr>xfTag = i, xfName = v, xfType = t, xfComment = (if i < length comments then comments ! i else [])\<rparr> # fs)))"

definition cell_value :: "string list \<Rightarrow> xfield \<Rightarrow> xvalue" where
  "cell_value row f =
     (let v = (if xfTag f < length row then row ! xfTag f else []) in
      case xfType f of
        X_string \<Rightarrow> XText v
      | X_bool \<Rightarrow> XText (if v = [] then ''false'' else v)
      | X_json \<Rightarrow> XText v
      | X_string_arr \<Rightarrow> XText v
      | X_int_arr \<Rightarrow> XText (''['' @ v @ '']'')
      | X_float_arr \<Rightarrow> XText (''['' @ v @ '']'')
      | _ \<Rightarrow> if v = [] then XZero else XText v)"

definition readExcel :: "string list list \<Rightarrow> (sheet_error, xfield list \<times> xvalue list list) outcome" where
  "readExcel rows =
     (if length rows \<le> 4 then Panic
      else bind_outcome (sheet_fields (rows ! 0) (rows ! 4) 0 (rows ! 3))
        (\<lambda>fs. Return (fs, map (\<lambda>row. map (cell_value row) fs) (drop 5 rows))))"

definition xvalue_text :: "xvalue \<Rightarrow> string" where
  "xvalue_text v = (case v of XText s \<Rightarrow> s | XZero \<Rightarrow> ''0'')"

text \<open>\<open>fotmatYamlString\<close>: line breaks in a text become spaces.\<close>

fun one_line :: "string \<Rightarrow> string" where
  "one_line [] = []"
| "one_line (c # cs) =
     (if c = CHR 0x0D \<and> cs \<noteq> [] \<and> hd cs = CHR 0x0A then CHR '' '' # one_line (tl cs)
      else if c = CHR 0x0A then CHR '' '' # one_line cs else c # one_line cs)"

definition yaml_field :: "xfield \<Rightarrow> xvalue \<Rightarrow> string" where
  "yaml_field f v =
     (let nl = [CHR 0x0A]; text = xvalue_text v in
      case xfType f of
        X_json \<Rightarrow> if v = XText [] then ''  '' @ xfName f @ '': '' @ nl
                  else ''  '' @ xfName f @ '': |-'' @ nl @ ''    '' @ text @ nl
      | X_string \<Rightarrow> ''  '' @ xfName f @ '': '' @ one_line text @ nl
      | _ \<Rightarrow> ''  '' @ xfName f @ '': '' @ text @ nl)"

definition fotmatYamlString :: "xfield list \<Rightarrow> xvalue list list \<Rightarrow> string" where
  "fotmatYamlString fs rows =
     concat (map (\<lambda>row. ''-'' @ [CHR 0x0A] @ concat (map2 yaml_field fs row)) rows) @ [CHR 0x0A]"

lemma sheet_fields_named:
  "sheet_fields comments types i names = Return fs \<Longrightarrow>
     map xfName fs = filter (\<lambda>v. v \<noteq> []) names"
  by (induction comments types i names arbitrary: fs rule: sheet_fields.induct)
    (auto simp: bind_outcome_Return_iff split: if_splits option.splits)

text \<open>A sheet that is read has one value for each named column in every row, and no line break in a text.\<close>

lemma readExcel_table:
  "readExcel rows = Return (fs, vals) \<Longrightarrow>
     length vals = length rows - 5 \<and> (\<forall>row\<in>set vals. length row = length fs)
     \<and> map xfName fs = filter (\<lambda>v. v \<noteq> []) (rows ! 3)"
  using sheet_fields_named [of "rows ! 0" "rows ! 4" 0 "rows ! 3"]
  by (auto simp: readExcel_def bind_outcome_Return_iff split: if_splits)

lemma one_line_no_break: "CHR 0x0A \<notin> set (one_line s)"
  by (induction s rule: one_line.induct) auto

lemma short_type_row_panics: "readExcel [[], [], [], [''id'', ''name''], [''int'']] = Panic"
  by code_simp

end
