(* ===== verification/Behavior_Log.thy ===== *)
theory Behavior_Log
  imports Model_Schema
begin

text \<open>
  The behavior log that \<open>gen/gen_behavior/gen_behavior.go\<close> generates for each collection: \<open>Log\<close> queues a document,
  \<open>Sync\<close>, called by the ticker and by the application, takes a batch from the queue, inserts it and puts it back
  when that failed. Any number of goroutines log and sync: the steps are the accesses to the queue, which
  a mutex guards, the first test of its length, which none does, and the write to the database. Also the
  batch ids of \<open>behavior/options.go\<close>.

  The lemmas: no document is lost or queued twice while the program runs; a document that was
  stored by a write that failed stays queued forever; which index names a migration leaves;
  when two batch ids are equal.
\<close>

section \<open>The queue of a collection\<close>

text \<open>Where a call of \<open>Sync\<close> is: before its first test, after it, with the batch it took, after a write that failed.\<close>

datatype sync_pc = SIdle | SChecked | SWriting "nat list" | SFailed "nat list" | SReturned "nat option"

text \<open>
  \<open>blQueue\<close> is \<open>models\<close>: the documents, by the object ids that \<open>Log\<close> gives them; \<open>blStore\<close> is the database;
  \<open>blLogged\<close> are the ids that were given, which no code reads.
\<close>

record 's blog =
  blQueue :: "nat list"
  blSync :: "nat \<Rightarrow> sync_pc"
  blStep :: "nat \<Rightarrow> int"
  blStore :: 's
  blLogged :: "nat set"

definition NewBehavior :: "'s \<Rightarrow> 's blog" where
  "NewBehavior db = \<lparr>blQueue = [], blSync = (\<lambda>_. SIdle), blStep = (\<lambda>_. 0), blStore = db, blLogged = {}\<rparr>"

definition log_doc :: "nat \<Rightarrow> 's blog \<Rightarrow> 's blog" where
  "log_doc d s = s\<lparr>blQueue := blQueue s @ [d], blLogged := insert d (blLogged s)\<rparr>"

text \<open>The batch and the rest; a negative batch size is a panic.\<close>

definition take_batch :: "int \<Rightarrow> nat list \<Rightarrow> (nat list \<times> nat list) option" where
  "take_batch step models =
     (if step \<noteq> 0 \<and> step \<le> int (length models)
      then if step < 0 then None else Some (take (nat step) models, drop (nat step) models)
      else Some (models, []))"

definition sync_start :: "nat \<Rightarrow> int \<Rightarrow> 's blog \<Rightarrow> 's blog" where
  "sync_start g step s =
     s\<lparr>blStep := (blStep s)(g := step),
       blSync := (blSync s)(g := (if blQueue s = [] then SReturned (Some 0) else SChecked))\<rparr>"

definition sync_take :: "nat \<Rightarrow> nat list \<Rightarrow> nat list \<Rightarrow> 's blog \<Rightarrow> 's blog" where
  "sync_take g batch rest s = s\<lparr>blQueue := rest, blSync := (blSync s)(g := SWriting batch)\<rparr>"

definition sync_written :: "nat \<Rightarrow> nat list \<Rightarrow> 's \<Rightarrow> bool \<Rightarrow> 's blog \<Rightarrow> 's blog" where
  "sync_written g batch db ok s =
     s\<lparr>blStore := db, blSync := (blSync s)(g := (if ok then SReturned (Some (length batch)) else SFailed batch))\<rparr>"

definition sync_requeue :: "nat \<Rightarrow> nat list \<Rightarrow> 's blog \<Rightarrow> 's blog" where
  "sync_requeue g batch s = s\<lparr>blQueue := blQueue s @ batch, blSync := (blSync s)(g := SReturned None)\<rparr>"

text \<open>
  What the code relies on of an unordered \<open>BulkWrite\<close> of insertions: it removes nothing and stores only these
  documents; when it succeeds all are stored and none was before, since ids are unique.
\<close>

locale insert_store =
  fixes stored :: "'s \<Rightarrow> nat set"
    and bulk :: "'s \<Rightarrow> nat list \<Rightarrow> 's \<Rightarrow> bool \<Rightarrow> bool"
  assumes bulk_grows: "bulk s ms t ok \<Longrightarrow> stored s \<subseteq> stored t \<and> stored t \<subseteq> stored s \<union> set ms"
    and bulk_all: "bulk s ms t True \<Longrightarrow> set ms \<subseteq> stored t \<and> set ms \<inter> stored s = {}"

inductive blog_step :: "('s \<Rightarrow> nat set) \<Rightarrow> ('s \<Rightarrow> nat list \<Rightarrow> 's \<Rightarrow> bool \<Rightarrow> bool) \<Rightarrow> 's blog \<Rightarrow> 's blog \<Rightarrow> bool"
for stored bulk where
  bs_log: "d \<notin> blLogged s \<Longrightarrow> d \<notin> stored (blStore s) \<Longrightarrow> blog_step stored bulk s (log_doc d s)"
| bs_start: "blSync s g \<in> {SIdle} \<union> range SReturned \<Longrightarrow> blog_step stored bulk s (sync_start g step s)"
| bs_take: "blSync s g = SChecked \<Longrightarrow> take_batch (blStep s g) (blQueue s) = Some (batch, rest) \<Longrightarrow>
    blog_step stored bulk s (sync_take g batch rest s)"
| bs_write: "blSync s g = SWriting batch \<Longrightarrow> bulk (blStore s) batch db ok \<Longrightarrow>
    blog_step stored bulk s (sync_written g batch db ok s)"
| bs_requeue: "blSync s g = SFailed batch \<Longrightarrow> blog_step stored bulk s (sync_requeue g batch s)"

section \<open>Nothing is lost\<close>

definition in_flight :: "sync_pc \<Rightarrow> nat list" where
  "in_flight p = (case p of SWriting b \<Rightarrow> b | SFailed b \<Rightarrow> b | _ \<Rightarrow> [])"

text \<open>The documents that are queued or in the hands of a \<open>Sync\<close>.\<close>

definition pending :: "'s blog \<Rightarrow> nat set" where
  "pending s = set (blQueue s) \<union> (\<Union>g. set (in_flight (blSync s g)))"

definition blog_inv :: "('s \<Rightarrow> nat set) \<Rightarrow> nat set \<Rightarrow> 's blog \<Rightarrow> bool" where
  "blog_inv stored old s \<longleftrightarrow>
     distinct (blQueue s) \<and> (\<forall>g. distinct (in_flight (blSync s g)) \<and> set (in_flight (blSync s g)) \<inter> set (blQueue s) = {})
     \<and> (\<forall>g h. g \<noteq> h \<longrightarrow> set (in_flight (blSync s g)) \<inter> set (in_flight (blSync s h)) = {})
     \<and> pending s \<subseteq> blLogged s \<and> old \<subseteq> stored (blStore s) \<and> stored (blStore s) \<subseteq> old \<union> blLogged s
     \<and> blLogged s \<subseteq> pending s \<union> stored (blStore s) \<and> old \<inter> blLogged s = {}"

lemma take_batch_parts: "take_batch step ms = Some (b, r) \<Longrightarrow> ms = b @ r"
  by (auto simp: take_batch_def split: if_splits)

lemma in_flight_upd: "(\<Union>h. set (in_flight ((f(g := p)) h))) = set (in_flight p) \<union> (\<Union>h\<in>-{g}. set (in_flight (f h)))"
  by (auto split: if_splits)

lemma in_flight_at: "(\<Union>h. set (in_flight (f h))) = set (in_flight (f g)) \<union> (\<Union>h\<in>-{g}. set (in_flight (f h)))"
  by auto

lemma in_flight_simps [simp]: "in_flight SIdle = []" "in_flight SChecked = []" "in_flight (SWriting b) = b"
  "in_flight (SFailed b) = b" "in_flight (SReturned r) = []"
  by (simp_all add: in_flight_def)

lemma New_inv: "blog_inv stored (stored db) (NewBehavior db)"
  by (simp add: blog_inv_def NewBehavior_def pending_def)

text \<open>A step that changes the batch of one goroutine, with what it takes from the queue or puts back.\<close>

lemma pending_upd:
  "blSync t = (blSync s)(g := p) \<Longrightarrow> pending t = set (blQueue t) \<union> set (in_flight p) \<union> (\<Union>h\<in>-{g}. set (in_flight (blSync s h)))"
  by (simp only: pending_def in_flight_upd Un_assoc)

lemma pending_split:
  "pending s = set (blQueue s) \<union> set (in_flight (blSync s g)) \<union> (\<Union>h\<in>-{g}. set (in_flight (blSync s h)))"
  using in_flight_at [of "blSync s" g] by (simp add: pending_def Un_assoc)

lemma blog_inv_moved:
  assumes inv: "blog_inv stored old s" and t: "blSync t = (blSync s)(g := p)" "blLogged t = blLogged s" "blStore t = blStore s"
    and m: "mset (blQueue t) + mset (in_flight p) = mset (blQueue s) + mset (in_flight (blSync s g))"
  shows "blog_inv stored old t"
proof -
  have I: "distinct (blQueue s)" "\<And>h. distinct (in_flight (blSync s h))" "\<And>h. set (in_flight (blSync s h)) \<inter> set (blQueue s) = {}"
    "\<And>h k. h \<noteq> k \<Longrightarrow> set (in_flight (blSync s h)) \<inter> set (in_flight (blSync s k)) = {}"
    using inv by (simp_all add: blog_inv_def)
  have "distinct (blQueue s @ in_flight (blSync s g))" using I(1) I(2,3) [of g] by auto
  then have d: "distinct (blQueue t @ in_flight p)" using m by (metis mset_append mset_eq_imp_distinct_iff)
  have u: "set (blQueue t) \<union> set (in_flight p) = set (blQueue s) \<union> set (in_flight (blSync s g))"
    using m by (metis set_append mset_append mset_eq_setD)
  have P: "pending t = pending s" by (simp only: pending_upd [OF t(1)] pending_split [of s g] u)
  have o: "set (in_flight (blSync s h)) \<inter> (set (blQueue t) \<union> set (in_flight p)) = {}" if "h \<noteq> g" for h
    using I(3) [of h] I(4) [OF that] unfolding u by blast
  have "set (in_flight (blSync t h)) \<inter> set (blQueue t) = {}" "distinct (in_flight (blSync t h))" for h
    using d o [of h] I(2) [of h] by (auto simp: t(1))
  moreover have "set (in_flight (blSync t h)) \<inter> set (in_flight (blSync t k)) = {}" if "h \<noteq> k" for h k
    using I(4) [OF that] o [of h] o [of k] that by (auto simp: t(1))
  moreover have "distinct (blQueue t)" using d by simp
  ultimately show ?thesis using inv P by (simp add: blog_inv_def t)
qed

lemma blog_inv_log:
  assumes inv: "blog_inv stored old s" and d: "d \<notin> blLogged s" "d \<notin> stored (blStore s)"
  shows "blog_inv stored old (log_doc d s)"
proof -
  have "pending s \<subseteq> blLogged s" using inv by (simp add: blog_inv_def)
  then have f: "d \<notin> set (in_flight (blSync s g))" for g using d(1) by (auto simp: pending_def)
  have "old \<subseteq> stored (blStore s)" using inv by (simp add: blog_inv_def)
  then have "d \<notin> old" using d(2) by blast
  then show ?thesis using inv d f by (auto simp: blog_inv_def log_doc_def pending_def)
qed

lemma blog_step_inv:
  assumes "blog_step stored bulk s t" "insert_store stored bulk" "blog_inv stored old s"
  shows "blog_inv stored old t"
  using assms(1)
proof cases
  case (bs_log d)
  then show ?thesis using blog_inv_log [OF assms(3)] by simp
next
  case (bs_start g step)
  have "blog_inv stored old (s\<lparr>blSync := (blSync s)(g := if blQueue s = [] then SReturned (Some 0) else SChecked)\<rparr>)"
    by (rule blog_inv_moved [OF assms(3), where g = g and p = "if blQueue s = [] then SReturned (Some 0) else SChecked"])
      (use bs_start(2) in auto)
  then show ?thesis by (simp add: bs_start(1) sync_start_def blog_inv_def pending_def)
next
  case (bs_take g batch rest)
  show ?thesis unfolding bs_take(1)
    by (rule blog_inv_moved [OF assms(3), where g = g and p = "SWriting batch"])
      (use bs_take(2) take_batch_parts [OF bs_take(3)] in \<open>simp_all add: sync_take_def\<close>)
next
  case (bs_write g batch db ok)
  have b: "set batch \<subseteq> blLogged s" "set batch \<subseteq> pending s"
    using assms(3) pending_split [of s g] bs_write(2) by (auto simp: blog_inv_def)
  note grow = insert_store.bulk_grows [OF assms(2) bs_write(3)]
  have all: "set batch \<subseteq> stored db" if ok
    using insert_store.bulk_all [OF assms(2), of "blStore s" batch db] bs_write(3) that by simp
  have p: "pending s = pending t \<union> (if ok then set batch else {})" "pending t \<subseteq> pending s"
    using pending_split [of s g] pending_upd [of t s g] bs_write(2) by (auto simp: bs_write(1) sync_written_def)
  have I: "distinct (blQueue s)" "\<And>h. distinct (in_flight (blSync s h))" "\<And>h. set (in_flight (blSync s h)) \<inter> set (blQueue s) = {}"
    "\<And>h k. h \<noteq> k \<Longrightarrow> set (in_flight (blSync s h)) \<inter> set (in_flight (blSync s k)) = {}"
    using assms(3) by (simp_all add: blog_inv_def)
  have fl: "in_flight (blSync t h) = (if h = g \<and> ok then [] else in_flight (blSync s h))" for h
    using bs_write(2) by (simp add: bs_write(1) sync_written_def)
  have q: "blQueue t = blQueue s" "blLogged t = blLogged s" "blStore t = db" by (simp_all add: bs_write(1) sync_written_def)
  have "pending t \<subseteq> blLogged t \<and> old \<subseteq> stored (blStore t) \<and> stored (blStore t) \<subseteq> old \<union> blLogged t
      \<and> blLogged t \<subseteq> pending t \<union> stored (blStore t) \<and> old \<inter> blLogged t = {}"
    using assms(3) p grow all b unfolding blog_inv_def q by (auto split: if_splits)
  then show ?thesis using I unfolding blog_inv_def fl q by simp
next
  case (bs_requeue g batch)
  show ?thesis unfolding bs_requeue(1)
    by (rule blog_inv_moved [OF assms(3), where g = g and p = "SReturned None"])
      (use bs_requeue(2) in \<open>simp_all add: sync_requeue_def\<close>)
qed


text \<open>
  C26. No log is lost and none is queued twice, whatever the interleaving. From a new log, after any number of
  \<open>Log\<close> and \<open>Sync\<close> calls of any goroutines, the batches of the running calls and the queue have no
  document in common and none twice, and every document that was logged is queued, in a
  running \<open>Sync\<close>, or in the database; the database got no other.
\<close>

theorem no_log_lost:
  assumes "insert_store stored bulk" and "(blog_step stored bulk)\<^sup>*\<^sup>* (NewBehavior db) s"
  shows "distinct (blQueue s) \<and> (\<forall>g. set (in_flight (blSync s g)) \<inter> set (blQueue s) = {})
    \<and> (\<forall>g h. g \<noteq> h \<longrightarrow> set (in_flight (blSync s g)) \<inter> set (in_flight (blSync s h)) = {})
    \<and> blLogged s = (pending s \<union> stored (blStore s)) - stored db"
proof -
  have "blog_inv stored (stored db) s"
    using assms(2)
    by (rule step_relation.reachable_inv [where init = "\<lambda>s. s = NewBehavior db", OF step_relation.intro, rotated 3])
      (use New_inv blog_step_inv assms(1) in auto)
  then show ?thesis by (auto simp: blog_inv_def)
qed

text \<open>A document that is in the database and still queued or in a running \<open>Sync\<close>.\<close>

definition stuck :: "('s \<Rightarrow> nat set) \<Rightarrow> nat \<Rightarrow> 's blog \<Rightarrow> bool" where
  "stuck stored d s \<longleftrightarrow> d \<in> pending s \<and> d \<in> stored (blStore s)"

lemma stuck_moved:
  assumes "blSync t = (blSync s)(g := p)" "set (blQueue t) \<union> set (in_flight p) = set (blQueue s) \<union> set (in_flight (blSync s g))"
  shows "pending t = pending s"
  by (simp only: pending_upd [OF assms(1)] pending_split [of s g] assms(2))

lemma stuck_step:
  assumes "blog_step stored bulk s t" "insert_store stored bulk" "stuck stored d s"
  shows "stuck stored d t"
  using assms(1)
proof cases
  case (bs_log e)
  then show ?thesis using assms(3) by (auto simp: stuck_def log_doc_def pending_def)
next
  case (bs_start g step)
  have "pending t = pending s"
    by (rule stuck_moved [where g = g and p = "if blQueue s = [] then SReturned (Some 0) else SChecked"])
      (use bs_start in \<open>auto simp: sync_start_def\<close>)
  then show ?thesis using assms(3) by (simp add: stuck_def bs_start(1) sync_start_def)
next
  case (bs_take g batch rest)
  have "pending t = pending s"
    by (rule stuck_moved [where g = g and p = "SWriting batch"])
      (use bs_take(1,2) take_batch_parts [OF bs_take(3)] in \<open>auto simp: sync_take_def\<close>)
  then show ?thesis using assms(3) by (simp add: stuck_def bs_take(1) sync_take_def)
next
  case (bs_write g batch db ok)
  have d: "d \<in> stored db" using insert_store.bulk_grows [OF assms(2) bs_write(3)] assms(3) by (auto simp: stuck_def)
  have "d \<notin> set batch" if ok
    using insert_store.bulk_all [OF assms(2), of "blStore s" batch db] bs_write(3) that assms(3) by (auto simp: stuck_def)
  then have "d \<in> pending t"
    using assms(3) pending_split [of s g] pending_upd [of t s g] bs_write(2)
    by (auto simp: stuck_def bs_write(1) sync_written_def)
  then show ?thesis using d by (simp add: stuck_def bs_write(1) sync_written_def)
next
  case (bs_requeue g batch)
  have "pending t = pending s"
    by (rule stuck_moved [where g = g and p = "SReturned None"]) (use bs_requeue in \<open>auto simp: sync_requeue_def\<close>)
  then show ?thesis using assms(3) by (simp add: stuck_def bs_requeue(1) sync_requeue_def)
qed

text \<open>
  A document that a failed write stored all the same is never done with. When a batch fails, it goes back to the
  queue as a whole; a document of it that is in the database stays queued or in a running \<open>Sync\<close> for ever, and
  every write of a batch with it fails again, so that the batch is put back with all its documents.
\<close>

lemma stored_document_queued_forever:
  assumes "insert_store stored bulk" and "blSync s g = SFailed batch" and "d \<in> set batch" and "d \<in> stored (blStore s)"
    and "(blog_step stored bulk)\<^sup>*\<^sup>* s t"
  shows "d \<in> pending t \<and> (\<forall>h b db ok. blSync t h = SWriting b \<and> d \<in> set b \<and> bulk (blStore t) b db ok \<longrightarrow> \<not> ok)"
proof -
  have "stuck stored d s" using pending_split [of s g] assms(2-4) by (simp add: stuck_def)
  then have "stuck stored d t"
    using step_relation.rtranclp_inv [OF step_relation.intro assms(5), of "\<lambda>_. False" "stuck stored d"] stuck_step assms(1)
    by blast
  then show ?thesis using insert_store.bulk_all [OF assms(1), of "blStore t"] by (fastforce simp: stuck_def)
qed

text \<open>A database in memory: it may insert some of the documents; a document that is there is an error.\<close>

definition mem_bulk :: "nat set \<Rightarrow> nat list \<Rightarrow> nat set \<Rightarrow> bool \<Rightarrow> bool" where
  "mem_bulk s ms t ok \<longleftrightarrow> s \<subseteq> t \<and> t \<subseteq> s \<union> set ms \<and> (ok \<longleftrightarrow> ms \<noteq> [] \<and> set ms \<subseteq> t \<and> set ms \<inter> s = {})"

interpretation mem_inserts: insert_store "\<lambda>s. s" mem_bulk
  by unfold_locales (simp_all add: mem_bulk_def)

text \<open>Two documents; a write that stores one and fails; then a \<open>Sync\<close> of both.\<close>

definition demo_log :: "nat set blog" where
  "demo_log = sync_written 0 [1, 2] {1} False (sync_take 0 [1, 2] []
     (sync_start 0 0 (log_doc 2 (log_doc 1 (NewBehavior {})))))"

lemma demo_log_steps: "(blog_step (\<lambda>s. s) mem_bulk)\<^sup>*\<^sup>* (NewBehavior {}) demo_log"
proof -
  let ?a = "log_doc 1 (NewBehavior {})" and ?b = "log_doc 2 (log_doc 1 (NewBehavior {}))"
  let ?c = "sync_start 0 0 ?b" and ?d = "sync_take 0 [1, 2] [] (sync_start 0 0 ?b)"
  have "blog_step (\<lambda>s. s) mem_bulk (NewBehavior {}) ?a" by (rule bs_log) (simp_all add: NewBehavior_def)
  moreover have "blog_step (\<lambda>s. s) mem_bulk ?a ?b" by (rule bs_log) (simp_all add: NewBehavior_def log_doc_def)
  moreover have "blog_step (\<lambda>s. s) mem_bulk ?b ?c" by (rule bs_start) (simp add: NewBehavior_def log_doc_def)
  moreover have "blog_step (\<lambda>s. s) mem_bulk ?c ?d"
    by (rule bs_take) (simp_all add: NewBehavior_def log_doc_def sync_start_def take_batch_def)
  moreover have "blog_step (\<lambda>s. s) mem_bulk ?d demo_log" unfolding demo_log_def
    by (rule bs_write) (auto simp: NewBehavior_def log_doc_def sync_start_def sync_take_def mem_bulk_def)
  ultimately show ?thesis by (meson converse_rtranclp_into_rtranclp rtranclp.rtrancl_refl)
qed

lemma no_log_lost_witness: "blLogged demo_log = pending demo_log \<union> blStore demo_log \<and> blLogged demo_log = {1, 2}"
  using no_log_lost [OF mem_inserts.insert_store_axioms demo_log_steps]
  by (auto simp: demo_log_def NewBehavior_def log_doc_def sync_start_def sync_take_def sync_written_def)

lemma stored_document_queued_forever_witness:
  "let s = sync_take 1 [1, 2] [] (sync_start 1 0 (sync_requeue 0 [1, 2] demo_log)) in
     blSync s 1 = SWriting [1, 2] \<and> 1 \<in> pending s \<and> \<not> mem_bulk (blStore s) [1, 2] {1, 2} True"
proof -
  let ?a = "sync_requeue 0 [1, 2] demo_log" and ?b = "sync_start 1 0 (sync_requeue 0 [1, 2] demo_log)"
  let ?s = "sync_take 1 [1, 2] [] ?b"
  have d: "blSync demo_log 0 = SFailed [1, 2]" "1 \<in> blStore demo_log" "blQueue demo_log = []" "blSync demo_log (Suc 0) = SIdle"
    by (simp_all add: demo_log_def NewBehavior_def log_doc_def sync_start_def sync_take_def sync_written_def)
  have "blog_step (\<lambda>s. s) mem_bulk demo_log ?a" by (rule bs_requeue [OF d(1)])
  moreover have "blog_step (\<lambda>s. s) mem_bulk ?a ?b" by (rule bs_start) (simp add: sync_requeue_def d)
  moreover have "blog_step (\<lambda>s. s) mem_bulk ?b ?s"
    by (rule bs_take) (simp_all add: sync_start_def sync_requeue_def take_batch_def d)
  ultimately have run: "(blog_step (\<lambda>s. s) mem_bulk)\<^sup>*\<^sup>* demo_log ?s"
    by (meson converse_rtranclp_into_rtranclp rtranclp.rtrancl_refl)
  have "blSync ?s 1 = SWriting [1, 2]" by (simp add: sync_take_def)
  then show ?thesis
    using stored_document_queued_forever [OF mem_inserts.insert_store_axioms d(1) _ d(2) run] unfolding Let_def by fastforce
qed


section \<open>The ticker, the migration and the import of a file\<close>

text \<open>
  \<open>Serve\<close>: each tick syncs with the configured batch size; the end of the context syncs once more, without a
  batch size.
\<close>

datatype serve_event = Tick | CtxDone

fun Serve :: "int \<Rightarrow> serve_event list \<Rightarrow> int list" where
  "Serve batchInsert [] = []"
| "Serve batchInsert (Tick # es) = (if batchInsert \<noteq> 0 then batchInsert else 0) # Serve batchInsert es"
| "Serve batchInsert (CtxDone # es) = [0]"

lemma last_sync_takes_all: "take_batch 0 ms = Some (ms, [])"
  by (simp add: take_batch_def)

lemma take_batch_bounded: "take_batch step ms = Some (b, r) \<Longrightarrow> 0 < step \<Longrightarrow> int (length b) \<le> step"
  by (auto simp: take_batch_def split: if_splits)

text \<open>A batch size below zero is a panic as soon as something is queued, with the mutex locked.\<close>

lemma negative_batch_panics: "step < 0 \<Longrightarrow> take_batch step ms = None"
  by (simp add: take_batch_def)

text \<open>\<open>Sync\<close> of all collections: the errors of all but the last one are overwritten.\<close>

fun sync_all_error :: "'e option \<Rightarrow> 'e option list \<Rightarrow> 'e option" where
  "sync_all_error err [] = err"
| "sync_all_error err (e # es) = sync_all_error e es"

lemma sync_all_last: "es \<noteq> [] \<Longrightarrow> sync_all_error err es = last es"
  by (induction es arbitrary: err) auto

text \<open>\<open>Migrate\<close> of a collection, as the one of the models without uniqueness and capped collections.\<close>

definition behavior_Migrate ::
  "('s \<Rightarrow> string list option) \<Rightarrow> ('s \<Rightarrow> index \<Rightarrow> 's \<times> bool) \<Rightarrow> ('s \<Rightarrow> string \<Rightarrow> 's \<times> bool) \<Rightarrow>
     (string list \<Rightarrow> string list) \<Rightarrow> bool \<Rightarrow> index list \<Rightarrow> 's \<Rightarrow> 's \<times> bool" where
  "behavior_Migrate listing create dropping visit enabled is s =
     (case listing s of
        None \<Rightarrow> (s, False)
      | Some own \<Rightarrow>
          (case create_missing create own is s of
             (s2, False) \<Rightarrow> (s2, False)
           | (s2, True) \<Rightarrow> drop_extra dropping enabled (map ixFullName is) (visit (remdups own)) s2))"

lemma behavior_Migrate_names:
  assumes "index_view names listing create dropping" "\<And>xs. set (visit xs) = set xs"
    "\<forall>i\<in>set is. ixFullName i = default_name (ixKeys i)"
    "behavior_Migrate listing create dropping visit enabled is s = (t, True)"
  shows "names t = ixFullName ` set is \<union> (if enabled then names s \<inter> {''_id_''} else names s)"
proof -
  obtain own u where own: "listing s = Some own" and u: "create_missing create own is s = (u, True)"
    and t: "drop_extra dropping enabled (map ixFullName is) (visit (remdups own)) u = (t, True)"
    using assms(4) by (auto simp: behavior_Migrate_def split: option.splits prod.splits bool.splits)
  show ?thesis
    using index_view.listing_all [OF assms(1) own] index_view.create_missing_names [OF assms(1) u assms(3)]
      index_view.drop_extra_names [OF assms(1) t] assms(2) by auto
qed

text \<open>
  \<open>BatchWrite\<close> reads a file by lines: \<open>rd n\<close> is the answer of the \<open>n\<close>-th \<open>ReadLine\<close>. Only the end of the file
  ends the loop; any other error is not looked at, and the line is then empty.
\<close>

datatype 'l read_result = ReadLine 'l | ReadEOF | ReadFails

fun batch_read :: "nat \<Rightarrow> (nat \<Rightarrow> 'l read_result) \<Rightarrow> ('l option \<Rightarrow> 'd option) \<Rightarrow> nat \<Rightarrow> 'd list \<Rightarrow> 'd list option option" where
  "batch_read 0 rd unmarshal n docs = None"
| "batch_read (Suc fuel) rd unmarshal n docs =
     (case rd n of
        ReadEOF \<Rightarrow> Some (Some docs)
      | ReadLine l \<Rightarrow> (case unmarshal (Some l) of None \<Rightarrow> Some None | Some d \<Rightarrow> batch_read fuel rd unmarshal (n + 1) (docs @ [d]))
      | ReadFails \<Rightarrow> (case unmarshal None of None \<Rightarrow> Some None | Some d \<Rightarrow> batch_read fuel rd unmarshal (n + 1) (docs @ [d])))"

lemma batch_read_file:
  "\<forall>i<length ls. rd (n + i) = ReadLine (ls ! i) \<Longrightarrow> rd (n + length ls) = ReadEOF \<Longrightarrow> \<forall>l\<in>set ls. unmarshal (Some l) \<noteq> None \<Longrightarrow>
     length ls < fuel \<Longrightarrow>
     batch_read fuel rd unmarshal n docs = Some (Some (docs @ map (\<lambda>l. the (unmarshal (Some l))) ls))"
proof (induction ls arbitrary: n docs fuel)
  case Nil
  then show ?case by (cases fuel) auto
next
  case (Cons l ls)
  obtain f where f: "fuel = Suc f" using Cons.prems(4) by (cases fuel) auto
  have "rd n = ReadLine l" using Cons.prems(1) by force
  moreover obtain d where d: "unmarshal (Some l) = Some d" using Cons.prems(3) by auto
  moreover have "\<forall>i<length ls. rd (n + 1 + i) = ReadLine (ls ! i)"
  proof (intro allI impI)
    fix i assume "i < length ls"
    then show "rd (n + 1 + i) = ReadLine (ls ! i)" using Cons.prems(1) [rule_format, of "Suc i"] by simp
  qed
  moreover have "rd (n + 1 + length ls) = ReadEOF" using Cons.prems(2) by simp
  ultimately show ?case
    using Cons.IH [of "n + 1" f "docs @ [d]"] Cons.prems(3,4) f by simp
qed

text \<open>A file that cannot be read (a directory, a disk error) keeps \<open>BatchWrite\<close> reading for ever.\<close>

lemma batch_read_never_ends:
  "\<forall>i\<ge>n. rd i = ReadFails \<Longrightarrow> unmarshal None = Some d \<Longrightarrow> batch_read fuel rd unmarshal n docs = None"
  by (induction fuel arbitrary: n docs) auto

section \<open>Batch ids\<close>

text \<open>\<open>GetSeqId\<close>: the time, the id of the node and the low 24 bits of the counter, in an \<open>int64\<close>.\<close>

definition seq_word :: "64 word \<Rightarrow> 32 word \<Rightarrow> 64 word \<Rightarrow> 64 word" where
  "seq_word now app seq = push_bit 32 now + push_bit 24 (scast app) + and seq 0xffffff"

text \<open>
  The counter is added to atomically, but the sum is stored to it once more, and read again for the id: three
  accesses.
\<close>

datatype seq_pc = SqCall | SqAdded "64 word" | SqStored | SqDone "64 word"

record seq_state =
  sqCell :: "64 word"
  sqPc :: "nat \<Rightarrow> seq_pc"

definition seq_step :: "nat \<Rightarrow> seq_state \<Rightarrow> seq_state" where
  "seq_step g s =
     (case sqPc s g of
        SqCall \<Rightarrow> s\<lparr>sqCell := sqCell s + 1, sqPc := (sqPc s)(g := SqAdded (sqCell s + 1))\<rparr>
      | SqAdded v \<Rightarrow> s\<lparr>sqCell := v, sqPc := (sqPc s)(g := SqStored)\<rparr>
      | SqStored \<Rightarrow> s\<lparr>sqPc := (sqPc s)(g := SqDone (sqCell s))\<rparr>
      | SqDone v \<Rightarrow> s)"

text \<open>Two goroutines that get the same number, in the same second the same id.\<close>

lemma two_callers_one_number:
  "let s = fold seq_step [0, 1, 0, 1, 0, 1] \<lparr>sqCell = 0, sqPc = (\<lambda>_. SqCall)\<rparr> in sqPc s 0 = SqDone 2 \<and> sqPc s 1 = SqDone 2"
  by (simp add: seq_step_def)


lemma seq_low: "unat (and seq 0xffffff :: 64 word) = unat seq mod 2 ^ 24"
proof -
  have e: "and seq 0xffffff = take_bit 24 seq" by (simp add: take_bit_eq_mask mask_numeral)
  show ?thesis unfolding e unsigned_take_bit_eq by (rule take_bit_eq_mod)
qed

lemma seq_shifted:
  assumes "unat (w :: 64 word) < 2 ^ k" "k + n \<le> 64"
  shows "unat (push_bit n w) = unat w * 2 ^ n"
proof -
  have "unat w * 2 ^ n < 2 ^ (k + n)" using assms(1) by (simp add: power_add)
  also have "(2 :: nat) ^ (k + n) \<le> 2 ^ 64" by (rule power_increasing) (use assms(2) in auto)
  finally have b: "unat w * 2 ^ n < 2 ^ 64" .
  have "unat (push_bit n w) = take_bit 64 (unat w * 2 ^ n)"
    unfolding unsigned_push_bit_eq by (simp add: push_bit_eq_mult)
  also have "\<dots> = unat w * 2 ^ n" using b by (simp add: take_bit_nat_eq_self)
  finally show ?thesis .
qed

lemma int_less_pow: "n < 2 ^ k \<Longrightarrow> int n < 2 ^ k"
  by simp

lemma seq_app: "unat (app :: 32 word) < 256 \<Longrightarrow> unat (scast app :: 64 word) = unat app"
proof -
  assume a: "unat app < 256"
  have "unat app < 2 ^ 31" using a by simp
  then have "int (unat app) < 2 ^ 31" by (rule int_less_pow)
  then have "uint app < 2 ^ 31" by (simp only: uint_nat)
  then have "sint app = uint app" unfolding sint_uint
    by (intro signed_take_bit_int_eq_self) (simp_all add: order_trans [OF _ uint_ge_0])
  then have "sint app = int (unat app)" by (simp only: uint_nat)
  then have "(scast app :: 64 word) = word_of_nat (unat app)" by (simp only: scast_eq of_int_of_nat_eq)
  moreover have "unat (word_of_nat (unat app) :: 64 word) = unat app"
    using a unfolding unat_of_nat by (intro mod_less) simp
  ultimately show ?thesis by simp
qed

lemma digits_unique: "m < k \<Longrightarrow> m' < k \<Longrightarrow> x * k + m = y * k + m' \<longleftrightarrow> x = y \<and> m = m'" for m m' k x y :: nat
proof -
  assume m: "m < k" "m' < k"
  then have k: "k \<noteq> 0" by simp
  have "(x * k + m) div k = x" "(y * k + m') div k = y"
    unfolding div_mult_self3 [OF k] using m by simp_all
  then show ?thesis by (metis add_left_cancel)
qed

lemma seq_word_value:
  assumes "unat now < 2 ^ 31" "unat app < 256"
  shows "unat (seq_word now app seq) = unat now * 2 ^ 32 + unat app * 2 ^ 24 + unat seq mod 2 ^ 24"
proof -
  have a: "unat (push_bit 32 now) = unat now * 2 ^ 32" by (rule seq_shifted [of _ 31]) (use assms in auto)
  have b: "unat (push_bit 24 (scast app :: 64 word)) = unat app * 2 ^ 24"
    using seq_shifted [of "scast app" 8 24] seq_app [OF assms(2)] assms(2) by simp
  have c: "unat seq mod 2 ^ 24 < 2 ^ 24" by simp
  have s: "unat (push_bit 32 now + push_bit 24 (scast app :: 64 word)) = unat now * 2 ^ 32 + unat app * 2 ^ 24"
    by (subst unat_add_lem [THEN iffD1]) (use a b assms in simp_all)
  show ?thesis unfolding seq_word_def
    by (subst unat_add_lem [THEN iffD1]) (use s seq_low [of seq] c assms in simp_all)
qed

text \<open>
  A batch id tells its parts. Before the year 2038, and for node ids below 256, two calls get the same id
  only with the same second, the same node and the same 24 low bits of the counter; the id is then not
  negative. (With a node id of 256 the id is the one of node 0 a second later.)
\<close>

lemma batch_id_parts:
  assumes "unat now < 2 ^ 31" and "unat app < 256" and "unat now' < 2 ^ 31" and "unat app' < 256"
  shows "(seq_word now app seq = seq_word now' app' seq' \<longleftrightarrow>
      now = now' \<and> app = app' \<and> unat seq mod 2 ^ 24 = unat seq' mod 2 ^ 24) \<and> 0 \<le> sint (seq_word now app seq)"
proof
  let ?n = "unat (seq_word now app seq)" and ?n' = "unat (seq_word now' app' seq')"
  have v: "?n = unat now * 2 ^ 32 + unat app * 2 ^ 24 + unat seq mod 2 ^ 24" by (rule seq_word_value) fact+
  have v': "?n' = unat now' * 2 ^ 32 + unat app' * 2 ^ 24 + unat seq' mod 2 ^ 24" by (rule seq_word_value) fact+
  have l: "unat seq mod 2 ^ 24 < 2 ^ 24" "unat seq' mod 2 ^ 24 < 2 ^ 24" by simp_all
  have "?n = ?n' \<longleftrightarrow> unat now = unat now' \<and> unat app = unat app' \<and> unat seq mod 2 ^ 24 = unat seq' mod 2 ^ 24"
  proof -
    have e: "x * 2 ^ 32 + y * 2 ^ 24 + z = (x * 256 + y) * 2 ^ 24 + z" for x y z :: nat by simp
    show ?thesis unfolding v v' e digits_unique [OF l] digits_unique [OF assms(2,4)] by simp
  qed
  then show "seq_word now app seq = seq_word now' app' seq' \<longleftrightarrow>
      now = now' \<and> app = app' \<and> unat seq mod 2 ^ 24 = unat seq' mod 2 ^ 24"
    by (simp add: word_unat_eq_iff)
  have "?n < 2 ^ 63" unfolding v using l(1) assms(1,2) by simp
  then have "int ?n < 2 ^ 63" by (rule int_less_pow)
  then have "uint (seq_word now app seq) < 2 ^ 63" by (simp only: uint_nat)
  then have "sint (seq_word now app seq) = uint (seq_word now app seq)"
    unfolding sint_uint by (intro signed_take_bit_int_eq_self) (simp_all add: order_trans [OF _ uint_ge_0])
  then show "0 \<le> sint (seq_word now app seq)" by simp
qed

lemma batch_id_parts_witness: "seq_word 1700000000 3 5 \<noteq> seq_word 1700000000 4 5 \<and> 0 \<le> sint (seq_word 1700000000 3 5)"
  using batch_id_parts [of 1700000000 3 1700000000 4 5 5] by simp

lemma large_node_id_collides: "seq_word now 256 seq = seq_word (now + 1) 0 seq"
  by (simp add: seq_word_def push_bit_eq_mult algebra_simps)

end
