(* ===== verification/Sproto_Dispatch.thy ===== *)
theory Sproto_Dispatch
  imports Go_Errors
begin

text \<open>
  The sproto protocol of \<open>sproto/sproto.go\<close>: which methods of a handler are registered
  (\<open>isSprotoHandlerMethod\<close>), how a route is looked up and its method called through reflection, and
  how a request is always answered. The package \<open>gosproto\<close> (the encoding, the table of protocols) is a
  parameter. What \<open>reflect\<close> guarantees of a call, results of the declared types, is the hypothesis
  \<open>typed_method\<close>; a handler's own panic is the result \<open>None\<close>.

  The lemmas: what a registered method's type is; a dispatch to a registered method with arguments of
  its types panics only when the method does; an answered request carries the code of the handler's
  error, and the caller never sees that error.
\<close>

section \<open>Types, values and methods\<close>

datatype go_type = ContextType | ErrorType | PushArrType | Pointer string | OtherType string

text \<open>
  The values a method takes and returns: a nil of a type that has one, a pointer to a message, an error,
  an array of pushes, or a value that is none of these and cannot be nil.
\<close>

datatype ('m, 'p) go_value =
    NilValue go_type
  | MessageValue string 'm
  | ErrorValue go_error
  | PushValue "'p list"
  | PlainValue string

fun type_of :: "('m, 'p) go_value \<Rightarrow> go_type" where
  "type_of (NilValue t) = t"
| "type_of (MessageValue n m) = Pointer n"
| "type_of (ErrorValue e) = ErrorType"
| "type_of (PushValue ps) = PushArrType"
| "type_of (PlainValue n) = OtherType n"

text \<open>The message types that implement \<open>ProtoRequest\<close>, \<open>ProtoResponse\<close> and \<open>ProtoPush\<close>.\<close>

record interfaces =
  isRequest :: "string \<Rightarrow> bool"
  isResponse :: "string \<Rightarrow> bool"
  isPush :: "string \<Rightarrow> bool"

fun is_pointer :: "go_type \<Rightarrow> bool" where
  "is_pointer (Pointer n) = True"
| "is_pointer _ = False"

fun implements :: "go_type \<Rightarrow> (string \<Rightarrow> bool) \<Rightarrow> bool" where
  "implements (Pointer n) I = I n"
| "implements _ I = False"

text \<open>
  A \<open>reflect.Method\<close>: its name, its package path (empty when exported), the types of its arguments, the
  receiver first, and of its results, and what a call does to the receiver: the receiver after it,
  and the results, or \<open>None\<close> when the method panics.
\<close>

record ('s, 'c, 'm, 'p) go_method =
  mName :: string
  mPkgPath :: string
  mIn :: "go_type list"
  mOut :: "go_type list"
  mFunc :: "'s \<Rightarrow> 'c \<Rightarrow> ('m, 'p) go_value \<Rightarrow> 's \<times> ('m, 'p) go_value list option"

datatype proto_type = HandlerRequest | HandlerPush

text \<open>\<open>sproto_handler.methods\<close>.\<close>

type_synonym ('s, 'c, 'm, 'p) sproto_handler =
  "string \<rightharpoonup> ('s, 'c, 'm, 'p) go_method \<times> proto_type"

section \<open>Registration\<close>

definition isSprotoHandlerMethod ::
  "interfaces \<Rightarrow> ('s, 'c, 'm, 'p) go_method \<Rightarrow> proto_type option" where
  "isSprotoHandlerMethod I m =
     (if mPkgPath m \<noteq> [] then None
      else if length (mIn m) \<noteq> 3 then None
      else if mIn m ! 1 \<noteq> ContextType then None
      else if \<not> is_pointer (mIn m ! 2) then None
      else if implements (mIn m ! 2) (isRequest I) then
        (if length (mOut m) \<noteq> 2 \<and> length (mOut m) \<noteq> 3 then None
         else if \<not> is_pointer (mOut m ! 0) \<or> \<not> implements (mOut m ! 0) (isResponse I) then None
         else if length (mOut m) = 2 \<and> mOut m ! 1 \<noteq> ErrorType then None
         else if length (mOut m) = 3 \<and> mOut m ! 1 \<noteq> PushArrType then None
         else if length (mOut m) = 3 \<and> mOut m ! 2 \<noteq> ErrorType then None
         else Some HandlerRequest)
      else if implements (mIn m ! 2) (isPush I) then
        (if length (mOut m) \<noteq> 1 then None
         else if mOut m ! 0 \<noteq> ErrorType then None
         else Some HandlerPush)
      else None)"

text \<open>\<open>typ.Method(m)\<close> gives the methods in the order of their names.\<close>

definition suitableHandlerMethods ::
  "interfaces \<Rightarrow> ('s, 'c, 'm, 'p) go_method list \<Rightarrow> ('s, 'c, 'm, 'p) sproto_handler" where
  "suitableHandlerMethods I ms =
     foldl (\<lambda>hs m. case isSprotoHandlerMethod I m of None \<Rightarrow> hs | Some k \<Rightarrow> hs(mName m \<mapsto> (m, k)))
       Map.empty ms"

text \<open>\<open>register\<close> has no error to return, so \<open>RegisterHandler\<close> always gives a handler.\<close>

definition RegisterHandler ::
  "interfaces \<Rightarrow> ('s, 'c, 'm, 'p) go_method list \<Rightarrow> ('s, 'c, 'm, 'p) sproto_handler option" where
  "RegisterHandler I ms = Some (suitableHandlerMethods I ms)"

definition HasRoute :: "('s, 'c, 'm, 'p) sproto_handler \<Rightarrow> string \<Rightarrow> bool" where
  "HasRoute hs route = (hs route \<noteq> None)"

section \<open>Dispatch of the handler\<close>

text \<open>
  \<open>Func.Call(args)\<close>: it panics for a nil context or a nil request (a zero \<open>reflect.Value\<close>) and for an
  argument of another type. \<open>rt\<close> is the type of the receiver.
\<close>

definition reflect_call ::
  "('s, 'c, 'm, 'p) go_method \<Rightarrow> go_type \<Rightarrow> 's \<Rightarrow> 'c option \<Rightarrow> ('m, 'p) go_value option
     \<Rightarrow> 's \<times> ('m, 'p) go_value list option" where
  "reflect_call m rt s ctx req =
     (case (ctx, req) of
        (Some c, Some v) \<Rightarrow>
          if mIn m = [rt, ContextType, type_of v] then mFunc m s c v else (s, None)
      | _ \<Rightarrow> (s, None))"

text \<open>\<open>IsNil\<close> panics for a value of a kind without a nil; the assertions panic for another type.\<close>

fun IsNil :: "('m, 'p) go_value \<Rightarrow> bool option" where
  "IsNil (NilValue t) = Some True"
| "IsNil (PlainValue n) = None"
| "IsNil _ = Some False"

definition interface_result :: "('m, 'p) go_value \<Rightarrow> ('m, 'p) go_value option option" where
  "interface_result v = (case IsNil v of None \<Rightarrow> None | Some b \<Rightarrow> Some (if b then None else Some v))"

definition error_result :: "('m, 'p) go_value \<Rightarrow> go_error option option" where
  "error_result v =
     (case IsNil v of
        None \<Rightarrow> None
      | Some True \<Rightarrow> Some None
      | Some False \<Rightarrow> (case v of ErrorValue e \<Rightarrow> Some (Some e) | _ \<Rightarrow> None))"

definition push_result :: "('m, 'p) go_value \<Rightarrow> 'p list option" where
  "push_result v =
     (case IsNil v of
        None \<Rightarrow> None
      | Some True \<Rightarrow> Some []
      | Some False \<Rightarrow> (case v of PushValue ps \<Rightarrow> Some ps | _ \<Rightarrow> None))"

type_synonym ('m, 'p) request_result = "('m, 'p) go_value option \<times> 'p list \<times> go_error option"

text \<open>The two branches of \<open>RequestDispatch\<close> on the number of results; another number is read as no result.\<close>

fun request_results :: "nat \<Rightarrow> ('m, 'p) go_value list \<Rightarrow> ('m, 'p) request_result option" where
  "request_results n rs =
     (if n = 3 then
        (case rs of
           [r0, r1, r2] \<Rightarrow>
             (case (interface_result r0, error_result r2, push_result r1) of
                (Some resp, Some err, Some ps) \<Rightarrow> Some (resp, ps, err)
              | _ \<Rightarrow> None)
         | _ \<Rightarrow> None)
      else if n = 2 then
        (case rs of
           [r0, r1] \<Rightarrow>
             (case (interface_result r0, error_result r1) of
                (Some resp, Some err) \<Rightarrow> Some (resp, [], err)
              | _ \<Rightarrow> None)
         | _ \<Rightarrow> None)
      else Some (None, [], None))"

text \<open>\<open>ErrSprotoHandlerNotImplement\<close>, a variable of the package \<open>errors\<close>; its address is a number.\<close>

definition ErrSprotoHandlerNotImplement :: go_error where
  "ErrSprotoHandlerNotImplement = New_error 15 ''sproto handler not implement'' []"

definition handler_RequestDispatch ::
  "('s, 'c, 'm, 'p) sproto_handler \<Rightarrow> go_type \<Rightarrow> 's \<Rightarrow> 'c option \<Rightarrow> string \<Rightarrow> ('m, 'p) go_value option
     \<Rightarrow> 's \<times> ('m, 'p) request_result option" where
  "handler_RequestDispatch hs rt s ctx route req =
     (case hs route of
        None \<Rightarrow> (s, Some (None, [], Some ErrSprotoHandlerNotImplement))
      | Some (m, k) \<Rightarrow>
          (case reflect_call m rt s ctx req of
             (s', None) \<Rightarrow> (s', None)
           | (s', Some rs) \<Rightarrow> (s', request_results (length (mOut m)) rs)))"

definition handler_PushDispatch ::
  "('s, 'c, 'm, 'p) sproto_handler \<Rightarrow> go_type \<Rightarrow> 's \<Rightarrow> 'c option \<Rightarrow> string \<Rightarrow> ('m, 'p) go_value option
     \<Rightarrow> 's \<times> go_error option option" where
  "handler_PushDispatch hs rt s ctx route push =
     (case hs route of
        None \<Rightarrow> (s, Some (Some ErrSprotoHandlerNotImplement))
      | Some (m, k) \<Rightarrow>
          (case reflect_call m rt s ctx push of
             (s', None) \<Rightarrow> (s', None)
           | (s', Some rs) \<Rightarrow>
               (s', if length (mOut m) = 1 then (case rs of [r] \<Rightarrow> error_result r | _ \<Rightarrow> None)
                    else Some None)))"

section \<open>The protocol\<close>

text \<open>
  The package \<open>gosproto\<close>: the response type of a protocol by its name (\<open>None\<close> when there is no such
  protocol, \<open>Some None\<close> when it has no response), the decoder and the encoders.
\<close>

record ('m, 'p) gosproto =
  GetProtocolByName :: "string \<Rightarrow> string option option"
  Dispatch :: "bytes \<Rightarrow> (go_error, string \<times> 32 word \<times> ('m, 'p) go_value option) outcome"
  rpc_RequestEncode :: "string \<Rightarrow> 32 word \<Rightarrow> ('m, 'p) go_value option \<Rightarrow> (go_error, bytes) outcome"
  rpc_ResponseEncode :: "string \<Rightarrow> 32 word \<Rightarrow> string \<times> 'm \<Rightarrow> (go_error, bytes) outcome"

text \<open>
  The methods the generated response types have, and \<open>reflect.New\<close> of a message type; \<open>fmt\<close>, \<open>order\<close>
  and \<open>ok\<close> are what \<open>codes.Code\<close> and \<open>codes.Msg\<close> take.
\<close>

record 'm responses =
  SetErrorCode :: "32 word \<Rightarrow> 'm \<Rightarrow> 'm"
  SetErrorMsg :: "string \<Rightarrow> 'm \<Rightarrow> 'm"
  SetDebugMsg :: "string \<Rightarrow> 'm \<Rightarrow> 'm"
  NewMessage :: "string \<Rightarrow> 'm"

definition request_error :: "string \<Rightarrow> string \<Rightarrow> go_error" where
  "request_error msg name = New_error 0 msg [AnyString ''name'', AnyString name]"

text \<open>\<open>RequestDecode\<close>, \<open>ResponseDecode\<close> and \<open>PushDecode\<close> differ in the interface they ask for.\<close>

definition decode_as ::
  "('m, 'p) gosproto \<Rightarrow> (string \<Rightarrow> bool) \<Rightarrow> string \<Rightarrow> bytes
     \<Rightarrow> (go_error, string \<times> 32 word \<times> string \<times> 'm) outcome" where
  "decode_as rpc I what packed =
     (case Dispatch rpc packed of
        Error e \<Rightarrow> Error e
      | Panic \<Rightarrow> Panic
      | Return (route, session, sp) \<Rightarrow>
          (case sp of
             Some (MessageValue n m) \<Rightarrow>
               if I n then Return (route, session, n, m) else Error (request_error what route)
           | _ \<Rightarrow> Error (request_error what route)))"

definition RequestDecode :: "interfaces \<Rightarrow> ('m, 'p) gosproto \<Rightarrow> bytes
     \<Rightarrow> (go_error, string \<times> 32 word \<times> string \<times> 'm) outcome" where
  "RequestDecode I rpc = decode_as rpc (isRequest I) ''invalid request proto''"

definition ResponseDecode :: "interfaces \<Rightarrow> ('m, 'p) gosproto \<Rightarrow> bytes
     \<Rightarrow> (go_error, string \<times> 32 word \<times> string \<times> 'm) outcome" where
  "ResponseDecode I rpc = decode_as rpc (isResponse I) ''invalid response proto''"

definition PushDecode :: "interfaces \<Rightarrow> ('m, 'p) gosproto \<Rightarrow> bytes
     \<Rightarrow> (go_error, string \<times> 32 word \<times> string \<times> 'm) outcome" where
  "PushDecode I rpc = decode_as rpc (isPush I) ''invalid push proto''"

text \<open>\<open>NewResponse\<close> of a request with the given request name; \<open>Response.Elem()\<close> of no response panics.\<close>

definition NewResponse ::
  "interfaces \<Rightarrow> ('m, 'p) gosproto \<Rightarrow> 'm responses \<Rightarrow> string \<Rightarrow> (go_error, string \<times> 'm) outcome" where
  "NewResponse I rpc R name =
     (case GetProtocolByName rpc name of
        None \<Rightarrow> Error (request_error ''request proto not found'' name)
      | Some None \<Rightarrow> Panic
      | Some (Some n) \<Rightarrow>
          if isResponse I n then Return (n, NewMessage R n)
          else Error (request_error ''invalid response proto'' name))"

text \<open>\<open>PushEncode\<close> of a push with the given name: a request without a session.\<close>

definition PushEncode ::
  "('m, 'p) gosproto \<Rightarrow> string \<Rightarrow> ('m, 'p) go_value option \<Rightarrow> (go_error, bytes) outcome" where
  "PushEncode rpc name push = rpc_RequestEncode rpc name 0 push"

text \<open>What the response becomes when the handler returned an error.\<close>

definition mark_error ::
  "'m responses \<Rightarrow> (go_error \<Rightarrow> 32 word) \<Rightarrow> (go_error \<Rightarrow> string) \<Rightarrow> bool \<Rightarrow> go_error option \<Rightarrow> 'm \<Rightarrow> 'm" where
  "mark_error R code msg trace err m =
     (case err of
        None \<Rightarrow> m
      | Some e \<Rightarrow>
          (let m' = SetErrorMsg R (msg e) (SetErrorCode R (code e) m) in
           if trace then SetDebugMsg R (Stacktrace (Some e)) m' else m'))"

text \<open>
  \<open>RequestDispatch\<close>: the receiver after it, then the data, the pushes and the error; \<open>None\<close> for a panic.
  \<open>code\<close> and \<open>msg\<close> are \<open>codes.Code\<close> and \<open>codes.Msg\<close>.
\<close>

definition RequestDispatch ::
  "interfaces \<Rightarrow> ('m, 'p) gosproto \<Rightarrow> 'm responses \<Rightarrow> (go_error \<Rightarrow> 32 word) \<Rightarrow> (go_error \<Rightarrow> string)
     \<Rightarrow> ('s, 'c, 'm, 'p) sproto_handler \<Rightarrow> go_type \<Rightarrow> 's \<Rightarrow> 'c option \<Rightarrow> string \<Rightarrow> 32 word
     \<Rightarrow> ('m, 'p) go_value option \<Rightarrow> bool \<Rightarrow> 's \<times> (bytes \<times> 'p list \<times> go_error option) option" where
  "RequestDispatch I rpc R code msg hs rt s ctx route session req trace =
     (case handler_RequestDispatch hs rt s ctx route req of
        (s', None) \<Rightarrow> (s', None)
      | (s', Some (resp, ps, err)) \<Rightarrow>
          (case (case resp of
                   Some v \<Rightarrow> Some v
                 | None \<Rightarrow>
                     (case GetProtocolByName rpc route of
                        Some (Some n) \<Rightarrow> Some (MessageValue n (NewMessage R n))
                      | _ \<Rightarrow> None)) of
             None \<Rightarrow> (s', None)
           | Some v \<Rightarrow>
               (s', (case v of
                       MessageValue n m \<Rightarrow>
                         if isResponse I n then
                           (case rpc_ResponseEncode rpc route session (n, mark_error R code msg trace err m) of
                              Return data \<Rightarrow> Some (data, ps, None)
                            | Error e \<Rightarrow> Some ([], ps, Some e)
                            | Panic \<Rightarrow> None)
                         else Some ([], ps, Some (request_error ''invalid response proto'' route))
                     | _ \<Rightarrow> Some ([], ps, Some (request_error ''invalid response proto'' route))))))"

definition PushDispatch ::
  "('s, 'c, 'm, 'p) sproto_handler \<Rightarrow> go_type \<Rightarrow> 's \<Rightarrow> 'c option \<Rightarrow> string \<Rightarrow> ('m, 'p) go_value option
     \<Rightarrow> 's \<times> go_error option option" where
  "PushDispatch hs rt s ctx route req = handler_PushDispatch hs rt s ctx route req"

section \<open>Lemmas: registration\<close>

text \<open>What the type of a registered method is: the two shapes a request method has, the one of a push method.\<close>

lemma request_method_shape:
  assumes "isSprotoHandlerMethod I m = Some HandlerRequest"
  obtains rt q r where "mIn m = [rt, ContextType, Pointer q]" and "isRequest I q" and "isResponse I r"
    and "mOut m = [Pointer r, ErrorType] \<or> mOut m = [Pointer r, PushArrType, ErrorType]"
proof -
  obtain rt c q where i: "mIn m = [rt, c, q]"
    using assms by (auto simp: isSprotoHandlerMethod_def length_Suc_conv numeral_3_eq_3 split: if_splits)
  have o: "length (mOut m) = 2 \<or> length (mOut m) = 3" and c: "c = ContextType"
    using assms i by (auto simp: isSprotoHandlerMethod_def split: if_splits)
  obtain n where q: "q = Pointer n" using assms i by (cases q) (auto simp: isSprotoHandlerMethod_def split: if_splits)
  obtain r where r: "mOut m ! 0 = Pointer r"
    using assms i q by (cases "mOut m ! 0") (auto simp: isSprotoHandlerMethod_def split: if_splits)
  have "isRequest I n" and "isResponse I r"
    and "mOut m = [Pointer r, ErrorType] \<or> mOut m = [Pointer r, PushArrType, ErrorType]"
    using assms o r by (auto simp: isSprotoHandlerMethod_def i c q length_Suc_conv numeral_2_eq_2 numeral_3_eq_3
      split: if_splits)
  then show thesis using that i c q by blast
qed

lemma push_method_shape:
  assumes "isSprotoHandlerMethod I m = Some HandlerPush"
  obtains rt q where "mIn m = [rt, ContextType, Pointer q]" and "isPush I q" and "mOut m = [ErrorType]"
proof -
  obtain rt c q where i: "mIn m = [rt, c, q]"
    using assms by (auto simp: isSprotoHandlerMethod_def length_Suc_conv numeral_3_eq_3 split: if_splits)
  have c: "c = ContextType" and "length (mOut m) = 1" and "mOut m ! 0 = ErrorType"
    using assms i by (auto simp: isSprotoHandlerMethod_def split: if_splits)
  then have o: "mOut m = [ErrorType]" by (auto simp: length_Suc_conv)
  obtain n where q: "q = Pointer n" using assms i by (cases q) (auto simp: isSprotoHandlerMethod_def split: if_splits)
  have "isPush I n" using assms by (auto simp: isSprotoHandlerMethod_def i q split: if_splits)
  then show thesis using that i c q o by blast
qed

lemma suitable_snoc:
  "suitableHandlerMethods I (ms @ [m]) =
     (case isSprotoHandlerMethod I m of
        None \<Rightarrow> suitableHandlerMethods I ms
      | Some k \<Rightarrow> (suitableHandlerMethods I ms)(mName m \<mapsto> (m, k)))"
  unfolding suitableHandlerMethods_def by simp

lemma suitable_SomeD:
  "suitableHandlerMethods I ms route = Some (m, k)
     \<Longrightarrow> m \<in> set ms \<and> mName m = route \<and> isSprotoHandlerMethod I m = Some k"
  by (induction ms rule: rev_induct)
    (auto simp: suitable_snoc suitableHandlerMethods_def [of I "[]"] split: option.splits if_splits)

lemma HasRoute_iff:
  "HasRoute (suitableHandlerMethods I ms) route
     \<longleftrightarrow> (\<exists>m\<in>set ms. mName m = route \<and> isSprotoHandlerMethod I m \<noteq> None)"
  by (induction ms rule: rev_induct)
    (auto simp: HasRoute_def suitable_snoc suitableHandlerMethods_def [of I "[]"] split: option.splits)

section \<open>Lemmas: results of the declared types are read without a panic\<close>

text \<open>What the Go compiler guarantees of a method: a call that returns has results of the declared types.\<close>

definition typed_method :: "('s, 'c, 'm, 'p) go_method \<Rightarrow> bool" where
  "typed_method m = (\<forall>s c v s' rs. mFunc m s c v = (s', Some rs) \<longrightarrow> map type_of rs = mOut m)"

lemma error_result_typed: "type_of v = ErrorType \<Longrightarrow> \<exists>e. error_result v = Some e"
  by (cases v) (auto simp: error_result_def)

lemma push_result_typed: "type_of v = PushArrType \<Longrightarrow> \<exists>ps. push_result v = Some ps"
  by (cases v) (auto simp: push_result_def)

lemma interface_result_typed:
  assumes "type_of v = Pointer n"
  shows "interface_result v = Some None \<or> (\<exists>m. interface_result v = Some (Some (MessageValue n m)))"
  using assms by (cases v) (auto simp: interface_result_def)

lemma request_results_typed:
  assumes "isSprotoHandlerMethod I m = Some k" and "map type_of rs = mOut m"
  obtains resp ps err where "request_results (length (mOut m)) rs = Some (resp, ps, err)"
    and "resp = None \<or> (\<exists>n x. resp = Some (MessageValue n x) \<and> isResponse I n)"
proof (cases k)
  case HandlerPush
  then obtain rt q where "mOut m = [ErrorType]" using assms(1) push_method_shape [of I m] by metis
  then show thesis using that [of None "[]" None] by simp
next
  case HandlerRequest
  then obtain rt q r where r: "isResponse I r"
    and o: "mOut m = [Pointer r, ErrorType] \<or> mOut m = [Pointer r, PushArrType, ErrorType]"
    using assms(1) request_method_shape [of I m] by metis
  from o show thesis
  proof
    assume "mOut m = [Pointer r, ErrorType]"
    with assms(2) obtain a b where rs: "rs = [a, b]" "type_of a = Pointer r" "type_of b = ErrorType" and l: "length (mOut m) = 2"
      by (auto simp: map_eq_Cons_conv)
    obtain e where e: "error_result b = Some e" using error_result_typed [OF rs(3)] by blast
    show thesis using interface_result_typed [OF rs(2)] r that l by (auto simp: rs(1) e)
  next
    assume "mOut m = [Pointer r, PushArrType, ErrorType]"
    with assms(2) obtain a b c where rs: "rs = [a, b, c]" "type_of a = Pointer r" "type_of b = PushArrType"
      "type_of c = ErrorType" and l: "length (mOut m) = 3"
      by (auto simp: map_eq_Cons_conv)
    obtain ps where ps: "push_result b = Some ps" using push_result_typed [OF rs(3)] by blast
    obtain e where e: "error_result c = Some e" using error_result_typed [OF rs(4)] by blast
    show thesis using interface_result_typed [OF rs(2)] r that l by (auto simp: rs(1) e ps)
  qed
qed

lemma push_results_typed:
  assumes "isSprotoHandlerMethod I m = Some k" and "map type_of rs = mOut m"
  shows "\<exists>e. (if length (mOut m) = 1 then (case rs of [r] \<Rightarrow> error_result r | _ \<Rightarrow> None) else Some None) = Some e"
proof (cases k)
  case HandlerPush
  then have "mOut m = [ErrorType]" using assms(1) push_method_shape [of I m] by metis
  with assms(2) show ?thesis using error_result_typed by (auto simp: map_eq_Cons_conv)
next
  case HandlerRequest
  then have "length (mOut m) \<noteq> 1" using assms(1) request_method_shape [of I m] by force
  then show ?thesis by simp
qed

lemma reflect_call_typed:
  assumes "typed_method m" and "reflect_call m rt s ctx req = (s', Some rs)"
  shows "map type_of rs = mOut m"
  using assms by (auto simp: reflect_call_def typed_method_def split: option.splits if_splits)

text \<open>Both dispatches of a registered handler, on every outcome of the call.\<close>

lemma dispatch_registered:
  assumes "RegisterHandler I ms = Some hs" and "\<forall>m\<in>set ms. typed_method m"
  shows "(snd (handler_RequestDispatch hs rt s ctx route req) = None
      \<longleftrightarrow> HasRoute hs route \<and> snd (reflect_call (fst (the (hs route))) rt s ctx req) = None)
    \<and> (snd (handler_PushDispatch hs rt s ctx route req) = None
      \<longleftrightarrow> HasRoute hs route \<and> snd (reflect_call (fst (the (hs route))) rt s ctx req) = None)
    \<and> (\<forall>v ps err. snd (handler_RequestDispatch hs rt s ctx route req) = Some (Some v, ps, err)
        \<longrightarrow> (\<exists>n x. v = MessageValue n x \<and> isResponse I n))"
proof (cases "hs route")
  case None
  then show ?thesis by (simp add: handler_RequestDispatch_def handler_PushDispatch_def HasRoute_def)
next
  case (Some mk)
  obtain m k where mk: "mk = (m, k)" by fastforce
  have k: "isSprotoHandlerMethod I m = Some k" and t: "typed_method m"
    using suitable_SomeD [of I ms route m k] assms Some mk by (auto simp: RegisterHandler_def)
  obtain s' r where c: "reflect_call m rt s ctx req = (s', r)" by fastforce
  show ?thesis
  proof (cases r)
    case r: None
    show ?thesis by (simp add: handler_RequestDispatch_def handler_PushDispatch_def HasRoute_def Some mk c r)
  next
    case r: (Some rs)
    have ty: "map type_of rs = mOut m" using reflect_call_typed [OF t] c r by simp
    obtain resp ps err where q: "request_results (length (mOut m)) rs = Some (resp, ps, err)"
      "resp = None \<or> (\<exists>n x. resp = Some (MessageValue n x) \<and> isResponse I n)"
      using request_results_typed [OF k ty] by blast
    obtain e where p: "(if length (mOut m) = 1 then (case rs of [r] \<Rightarrow> error_result r | _ \<Rightarrow> None) else Some None) = Some e"
      using push_results_typed [OF k ty] by blast
    show ?thesis
      using q(2) p by (auto simp: handler_RequestDispatch_def handler_PushDispatch_def HasRoute_def Some mk c r q(1)
        simp del: request_results.simps split: if_splits)
  qed
qed

lemma dispatched_response:
  assumes "RegisterHandler I ms = Some hs" and "\<forall>m\<in>set ms. typed_method m"
    and "handler_RequestDispatch hs rt s ctx route req = (s', Some (Some v, ps, err))"
  shows "\<exists>n x. v = MessageValue n x \<and> isResponse I n"
  using dispatch_registered [OF assms(1,2), of rt s ctx route req] assms(3) by simp

section \<open>Properties\<close>



text \<open>A handler of two methods: \<open>Login\<close> fails with a code of its own, \<open>Moved\<close> takes a push.\<close>

definition demo_interfaces :: interfaces where
  "demo_interfaces = \<lparr>isRequest = (\<lambda>n. n = ''LoginRequest''), isResponse = (\<lambda>n. n = ''LoginResponse''),
     isPush = (\<lambda>n. n = ''MovedPush'')\<rparr>"

definition demo_login :: "(nat, unit, string, nat) go_method" where
  "demo_login = \<lparr>mName = ''Login'', mPkgPath = [],
     mIn = [Pointer ''Player'', ContextType, Pointer ''LoginRequest''],
     mOut = [Pointer ''LoginResponse'', ErrorType],
     mFunc = (\<lambda>s c v. (s + 1, Some [NilValue (Pointer ''LoginResponse''), ErrorValue (New_code 7 5 ''locked'' [])]))\<rparr>"

definition demo_moved :: "(nat, unit, string, nat) go_method" where
  "demo_moved = \<lparr>mName = ''Moved'', mPkgPath = [],
     mIn = [Pointer ''Player'', ContextType, Pointer ''MovedPush''],
     mOut = [ErrorType],
     mFunc = (\<lambda>s c v. (s, Some [ErrorValue (New_code 8 6 ''wall'' [])]))\<rparr>"

definition demo_handler :: "(nat, unit, string, nat) sproto_handler" where
  "demo_handler = [''Login'' \<mapsto> (demo_login, HandlerRequest), ''Moved'' \<mapsto> (demo_moved, HandlerPush)]"

lemma demo_registered: "RegisterHandler demo_interfaces [demo_login, demo_moved] = Some demo_handler"
proof -
  have "isSprotoHandlerMethod demo_interfaces demo_login = Some HandlerRequest"
    and "isSprotoHandlerMethod demo_interfaces demo_moved = Some HandlerPush" by code_simp+
  then show ?thesis
    by (simp add: RegisterHandler_def suitableHandlerMethods_def demo_handler_def demo_login_def demo_moved_def)
qed

lemma demo_typed: "\<forall>m\<in>set [demo_login, demo_moved]. typed_method m"
  by (auto simp: typed_method_def demo_login_def demo_moved_def)


text \<open>
  C31. Every request is answered. When the protocol of the route is known and its response a response
  type, a dispatch that does not panic encodes exactly one response for the request's session: the handler's,
  or an empty one of the protocol when it gave none, with the code and the message of the handler's error
  set on it, and the pushes of the handler beside it. The error of the handler, an unknown route
  included, never comes out: an error of \<open>RequestDispatch\<close> is the encoder's.
\<close>

theorem request_always_answered:
  assumes "RegisterHandler I ms = Some hs" and "\<forall>m\<in>set ms. typed_method m"
    and "GetProtocolByName rpc route = Some (Some n0)" and "isResponse I n0"
    and "handler_RequestDispatch hs rt s ctx route req = (s', Some (resp, ps, err))"
  shows "\<exists>n m. isResponse I n
    \<and> (resp = Some (MessageValue n m) \<or> resp = None \<and> n = n0 \<and> m = NewMessage R n0)
    \<and> RequestDispatch I rpc R code msg hs rt s ctx route session req trace
        = (s', (case rpc_ResponseEncode rpc route session (n, mark_error R code msg trace err m) of
                  Return data \<Rightarrow> Some (data, ps, None)
                | Error e \<Rightarrow> Some ([], ps, Some e)
                | Panic \<Rightarrow> None))"
proof (cases resp)
  case None
  then show ?thesis
    using assms(3-5) by (intro exI [of _ n0] exI [of _ "NewMessage R n0"]) (simp add: RequestDispatch_def)
next
  case (Some v)
  then obtain n x where "v = MessageValue n x" "isResponse I n"
    using dispatched_response [OF assms(1,2), of rt s ctx route req s' v ps err] assms(5) by auto
  then show ?thesis
    using assms(5) Some by (intro exI [of _ n] exI [of _ x]) (simp add: RequestDispatch_def)
qed


text \<open>The responses of the demo are strings, and the encoder gives back their bytes.\<close>

definition demo_rpc :: "(string, nat) gosproto" where
  "demo_rpc = \<lparr>GetProtocolByName = [''Login'' \<mapsto> Some ''LoginResponse'', ''Lost'' \<mapsto> Some ''LoginResponse''],
     Dispatch = (\<lambda>b. Return (''Login'', 1, Some (MessageValue ''LoginRequest'' (string_of b)))),
     rpc_RequestEncode = (\<lambda>name session v. Return []),
     rpc_ResponseEncode = (\<lambda>name session (n, m). Return (bytes_of m))\<rparr>"

definition demo_responses :: "string responses" where
  "demo_responses = \<lparr>SetErrorCode = (\<lambda>c m. fmt_int (sint c) @ m), SetErrorMsg = (\<lambda>t m. m @ CHR '' '' # t),
     SetDebugMsg = (\<lambda>t m. m), NewMessage = (\<lambda>n. ''!'')\<rparr>"

lemma demo_login_result:
  "handler_RequestDispatch demo_handler (Pointer ''Player'') 0 (Some ()) ''Login''
     (Some (MessageValue ''LoginRequest'' ''me''))
   = (1, Some (None, [], Some (New_code 7 5 ''locked'' [])))"
  by (simp add: handler_RequestDispatch_def demo_handler_def reflect_call_def demo_login_def
    interface_result_def error_result_def)

lemma request_always_answered_witness:
  "RequestDispatch demo_interfaces demo_rpc demo_responses (\<lambda>e. Code (\<lambda>_. []) (\<lambda>_. []) (Some e))
     (\<lambda>e. Msg (\<lambda>_. []) (\<lambda>_. []) ''ok'' (Some e)) demo_handler (Pointer ''Player'') 0 (Some ()) ''Login'' 9
     (Some (MessageValue ''LoginRequest'' ''me'')) False
   = (1, Some (bytes_of ''5! locked'', [], None))"
proof -
  have "GetProtocolByName demo_rpc ''Login'' = Some (Some ''LoginResponse'')"
    and "isResponse demo_interfaces ''LoginResponse''" by (simp_all add: demo_rpc_def demo_interfaces_def)
  moreover have "fmt_int (sint (5::32 word)) = ''5''" by code_simp
  ultimately show ?thesis
    using request_always_answered [OF demo_registered demo_typed _ _ demo_login_result, of demo_rpc "''LoginResponse''"
        demo_responses "\<lambda>e. Code (\<lambda>_. []) (\<lambda>_. []) (Some e)" "\<lambda>e. Msg (\<lambda>_. []) (\<lambda>_. []) ''ok'' (Some e)" 9 False]
    by (simp add: demo_rpc_def demo_responses_def mark_error_def New_code_def Code_def Msg_def)
qed

text \<open>
  A route without a method is answered with the code of an unknown error and its text. A name that is
  not a protocol panics when there is no response to encode; a push called as a request is answered with an
  empty success, and the error it returned is lost.
\<close>

lemma unregistered_route_answered:
  assumes "hs route = None" and "GetProtocolByName rpc route = Some (Some n)" and "isResponse I n"
    and "rpc_ResponseEncode rpc route session (n, mark_error R code msg trace (Some ErrSprotoHandlerNotImplement) (NewMessage R n))
      = Return data"
  shows "RequestDispatch I rpc R code msg hs rt s ctx route session req trace = (s, Some (data, [], None))"
  using assms by (simp add: RequestDispatch_def handler_RequestDispatch_def)

lemma not_implemented_code:
  "Code fmt order (Some ErrSprotoHandlerNotImplement) = CodeUnknown
   \<and> Msg fmt order ok (Some ErrSprotoHandlerNotImplement) = ''sproto handler not implement''"
  by (simp add: ErrSprotoHandlerNotImplement_def New_error_def Code_def Msg_def values_of_def values_text_def
    text_code_def atoi_def is_digit_def)

lemma unknown_protocol_panics:
  assumes "hs route = None" and "GetProtocolByName rpc route = None"
  shows "RequestDispatch I rpc R code msg hs rt s ctx route session req trace = (s, None)"
  using assms by (simp add: RequestDispatch_def handler_RequestDispatch_def)

lemma push_called_as_request:
  assumes "hs route = Some (m, HandlerPush)" and "mOut m = [ErrorType]"
    and "reflect_call m rt s ctx req = (s', Some rs)"
    and "GetProtocolByName rpc route = Some (Some n)" and "isResponse I n"
    and "rpc_ResponseEncode rpc route session (n, NewMessage R n) = Return data"
  shows "RequestDispatch I rpc R code msg hs rt s ctx route session req trace = (s', Some (data, [], None))"
  using assms by (simp add: RequestDispatch_def handler_RequestDispatch_def mark_error_def)

text \<open>What is decoded as a request is one.\<close>

lemma RequestDecode_Return:
  "RequestDecode I rpc packed = Return (route, session, n, m)
   \<longleftrightarrow> Dispatch rpc packed = Return (route, session, Some (MessageValue n m)) \<and> isRequest I n"
  by (auto simp: RequestDecode_def decode_as_def split: outcome.splits option.splits go_value.splits if_splits)

end
