(* ===== verification/Util_Times.thy ===== *)
theory Util_Times
  imports Gira_Prelude
begin

text \<open>
  The days, weeks, months and cycles between two times of \<open>util/times/times.go\<close>. Seconds are integers
  (a time far outside the range of \<open>int64\<close> divided by the seconds of a year is not meant); a time zone is the
  offset in force at a second. What the code uses of Go's package \<open>time\<close> is written out: the civil date of a
  day, the ISO week, and the second a date starts at.

  The lemmas: the civil date determines the day, the ISO week the week; so in a zone with a fixed
  offset the three tests agree with the numbers of days, weeks and cycles.
\<close>

section \<open>Dates of Go's package time\<close>

text \<open>A day is counted from 1 January 1970; the calendar from 1 January of year 1, 719162 days before.\<close>

definition epoch_days :: int where "epoch_days = 719162"

text \<open>Four centuries, a century, four years and a year; the last day of a cycle belongs to its last part.\<close>

definition year_yday :: "int \<Rightarrow> int \<times> int" where
  "year_yday day =
     (let d = day + epoch_days;
          n400 = d div 146097; d = d - 146097 * n400;
          n = d div 36524; n100 = n - n div 4; d = d - 36524 * n100;
          n4 = d div 1461; d = d - 1461 * n4;
          n = d div 365; n1 = n - n div 4
      in (400 * n400 + 100 * n100 + 4 * n4 + n1 + 1, d - 365 * n1))"

definition is_leap :: "int \<Rightarrow> bool" where
  "is_leap y = (y mod 4 = 0 \<and> (y mod 100 \<noteq> 0 \<or> y mod 400 = 0))"

definition days_before :: "int list" where
  "days_before = [0, 31, 59, 90, 120, 151, 181, 212, 243, 273, 304, 334, 365]"

definition month_day :: "bool \<Rightarrow> int \<Rightarrow> int \<times> int" where
  "month_day leap yday =
     (if leap \<and> yday = 59 then (2, 29)
      else
        (let d = (if leap \<and> yday > 59 then yday - 1 else yday);
             m = d div 31;
             stop = days_before ! nat (m + 1)
         in if stop \<le> d then (m + 2, d - stop + 1)
            else (m + 1, d - days_before ! nat m + 1)))"

definition civil_date :: "int \<Rightarrow> int \<times> int \<times> int" where
  "civil_date day =
     (let (y, yd) = year_yday day; (m, d) = month_day (is_leap y) yd in (y, m, d))"

text \<open>\<open>time.Unix(t, 0).Date()\<close> in a zone, and \<open>ISOWeek\<close>: the year and week of the Thursday of the week.\<close>

definition local_day :: "(int \<Rightarrow> int) \<Rightarrow> int \<Rightarrow> int" where
  "local_day zone t = (t + zone t) div 86400"

definition Unix_Date :: "(int \<Rightarrow> int) \<Rightarrow> int \<Rightarrow> int \<times> int \<times> int" where
  "Unix_Date zone t = civil_date (local_day zone t)"

text \<open>1 January 1970 is a Thursday: \<open>(day + 3) mod 7\<close> counts the days since Monday.\<close>

definition ISOWeek :: "(int \<Rightarrow> int) \<Rightarrow> int \<Rightarrow> int \<times> int" where
  "ISOWeek zone t =
     (let day = local_day zone t; (y, yd) = year_yday (day + 3 - (day + 3) mod 7) in (y, yd div 7 + 1))"

text \<open>
  \<open>time.Date(y, m, d, 0, 0, 0, 0, zone)\<close>: the day of the date, and the second it starts at. The offset
  is looked up at the local second first, then at the second that offset gives.
\<close>

definition day_of_date :: "int \<Rightarrow> int \<Rightarrow> int \<Rightarrow> int" where
  "day_of_date y m d =
     365 * (y - 1) + (y - 1) div 4 - (y - 1) div 100 + (y - 1) div 400
       + days_before ! nat (m - 1) + (if is_leap y \<and> m > 2 then 1 else 0) + d - 1 - epoch_days"

definition Date_Unix :: "(int \<Rightarrow> int) \<Rightarrow> int \<times> int \<times> int \<Rightarrow> int" where
  "Date_Unix zone ymd =
     (case ymd of (y, m, d) \<Rightarrow>
        let u = 86400 * day_of_date y m d in
        if zone u = 0 then u else u - zone (u - zone u))"

section \<open>Durations\<close>

record duration =
  dT1 :: int
  dT2 :: int

definition DurationFromTime :: "int \<Rightarrow> int \<Rightarrow> duration" where
  "DurationFromTime t1 t2 = \<lparr>dT1 = t1, dT2 = t2\<rparr>"

definition DurationFromNow :: "int \<Rightarrow> int \<Rightarrow> duration" where
  "DurationFromNow now t1 = \<lparr>dT1 = t1, dT2 = now\<rparr>"

definition IsCrossDay :: "(int \<Rightarrow> int) \<Rightarrow> duration \<Rightarrow> bool" where
  "IsCrossDay zone d =
     (case (Unix_Date zone (dT1 d), Unix_Date zone (dT2 d)) of
        ((y1, m1, d1), (y2, m2, d2)) \<Rightarrow> \<not> (y1 = y2 \<and> m1 = m2 \<and> d1 = d2))"

definition IsCrossWeek :: "(int \<Rightarrow> int) \<Rightarrow> duration \<Rightarrow> bool" where
  "IsCrossWeek zone d =
     (case (ISOWeek zone (dT1 d), ISOWeek zone (dT2 d)) of
        ((y1, w1), (y2, w2)) \<Rightarrow> \<not> (y1 = y2 \<and> w1 = w2))"

definition IsCrossMonth :: "(int \<Rightarrow> int) \<Rightarrow> duration \<Rightarrow> bool" where
  "IsCrossMonth zone d =
     (case (Unix_Date zone (dT1 d), Unix_Date zone (dT2 d)) of
        ((y1, m1, _), (y2, m2, _)) \<Rightarrow> \<not> (y1 = y2 \<and> m1 = m2))"

text \<open>Go's division cuts towards zero, and so does the remainder.\<close>

definition quot :: "int \<Rightarrow> int \<Rightarrow> int" where
  "quot a b = sgn a * sgn b * (\<bar>a\<bar> div \<bar>b\<bar>)"

definition rem :: "int \<Rightarrow> int \<Rightarrow> int" where
  "rem a b = a - b * quot a b"

definition PassedDays :: "(int \<Rightarrow> int) \<Rightarrow> duration \<Rightarrow> int" where
  "PassedDays zone d =
     (let d1 = Date_Unix zone (Unix_Date zone (dT1 d));
          d2 = Date_Unix zone (Unix_Date zone (dT2 d))
      in quot (d2 - d1) 86400)"

text \<open>A cycle of no days is a division by zero.\<close>

definition GetCycle :: "(int \<Rightarrow> int) \<Rightarrow> duration \<Rightarrow> int \<Rightarrow> ('e, int) outcome" where
  "GetCycle zone d days =
     (let passedDays = PassedDays zone d in
      if days = 0 then Panic else Return (rem passedDays days + 1))"

definition TodayBeginTime :: "(int \<Rightarrow> int) \<Rightarrow> int \<Rightarrow> int" where
  "TodayBeginTime zone now = Date_Unix zone (Unix_Date zone now)"

definition TodayEndTime :: "(int \<Rightarrow> int) \<Rightarrow> int \<Rightarrow> int" where
  "TodayEndTime zone now = Date_Unix zone (Unix_Date zone now) + 86400 - 1"

section \<open>Lemmas: the calendar\<close>

text \<open>The inverse of \<open>year_yday\<close>: the day a year starts at.\<close>

definition year_start :: "int \<Rightarrow> int" where
  "year_start y = 365 * (y - 1) + (y - 1) div 4 - (y - 1) div 100 + (y - 1) div 400 - epoch_days"

lemma part_bounds:
  fixes d :: int
  assumes "0 \<le> d" and "d < 4 * k + 1" and "0 < k"
  shows "0 \<le> d div k - d div k div 4" and "d div k - d div k div 4 \<le> 3"
    and "0 \<le> d - k * (d div k - d div k div 4)" and "d - k * (d div k - d div k div 4) \<le> k"
    and "d - k * (d div k - d div k div 4) = k \<Longrightarrow> d = 4 * k"
proof -
  define q r where "q = d div k" and "r = d mod k"
  have d: "d = k * q + r" and r: "0 \<le> r" "r < k" using assms(3) by (simp_all add: q_def r_def)
  have "0 \<le> q" using assms by (simp add: q_def pos_imp_zdiv_nonneg_iff)
  moreover have "q \<le> 3 \<or> q = 4 \<and> r = 0"
  proof (cases "q \<le> 3")
    case False
    then have "k * 4 \<le> k * q" using assms(3) by simp
    moreover have "k * q < k * 5" using d r assms(2,3) by linarith
    ultimately have "q = 4" using assms(3) False by simp
    then show ?thesis using assms(2) d r by simp
  qed simp
  ultimately have "(q - q div 4 = 3 \<and> d = 4 * k) \<or> (q - q div 4 = q \<and> 0 \<le> q \<and> q \<le> 3)" using d by auto
  then show "0 \<le> d div k - d div k div 4" and "d div k - d div k div 4 \<le> 3"
    and "0 \<le> d - k * (d div k - d div k div 4)" and "d - k * (d div k - d div k div 4) \<le> k"
    and "d - k * (d div k - d div k div 4) = k \<Longrightarrow> d = 4 * k"
    using r d assms(3) unfolding q_def [symmetric] by auto
qed

text \<open>A part of a cycle of four, where only the last part can be a day longer.\<close>

lemma year_yday_cases:
  obtains a b c e d where "year_yday day = (400 * a + 100 * b + 4 * c + e + 1, d)"
    and "day + epoch_days = 146097 * a + 36524 * b + 1461 * c + 365 * e + d"
    and "0 \<le> b" "b \<le> 3" "0 \<le> c" "c \<le> 24" "0 \<le> e" "e \<le> 3" "0 \<le> d" "d \<le> 365"
    and "d = 365 \<longrightarrow> e = 3 \<and> (c = 24 \<longrightarrow> b = 3)"
proof -
  define a where "a = (day + epoch_days) div 146097"
  define d1 where "d1 = day + epoch_days - 146097 * a"
  define b where "b = d1 div 36524 - d1 div 36524 div 4"
  define d2 where "d2 = d1 - 36524 * b"
  define c where "c = d2 div 1461"
  define d3 where "d3 = d2 - 1461 * c"
  define e where "e = d3 div 365 - d3 div 365 div 4"
  define d where "d = d3 - 365 * e"
  have y: "year_yday day = (400 * a + 100 * b + 4 * c + e + 1, d)"
    unfolding year_yday_def Let_def a_def b_def c_def d_def e_def d1_def d2_def d3_def by (rule refl)
  have d1: "0 \<le> d1" "d1 < 4 * 36524 + 1" unfolding d1_def a_def minus_mult_div_eq_mod by simp_all
  note B = part_bounds [OF d1, folded b_def, folded d2_def, simplified]
  have c: "0 \<le> c" "c \<le> 24" using B(3) zdiv_mono1 [OF B(4), of 1461] by (simp_all add: c_def)
  have d3: "0 \<le> d3" "d3 < 4 * 365 + 1" unfolding d3_def c_def minus_mult_div_eq_mod by simp_all
  note E = part_bounds [OF d3, folded e_def, folded d_def, simplified]
  have "d = 365 \<Longrightarrow> e = 3 \<and> (c = 24 \<longrightarrow> b = 3)"
  proof -
    assume d: "d = 365"
    then have d3: "d3 = 1460" using E(5) by simp
    then have "e = 3" by (simp add: e_def)
    moreover have "b = 3" if "c = 24"
    proof -
      have "d2 = 36524" using d3 that by (simp add: d3_def)
      then have "d1 = 4 * 36524" using B(5) by simp
      then show ?thesis by (simp add: b_def)
    qed
    ultimately show ?thesis by blast
  qed
  moreover have "day + epoch_days = 146097 * a + 36524 * b + 1461 * c + 365 * e + d"
    by (simp add: d_def d3_def d2_def d1_def)
  ultimately show thesis using that [OF y] B E c by blast
qed

lemma year_start_parts:
  assumes "0 \<le> b" "b \<le> 3" "0 \<le> c" "c \<le> 24" "0 \<le> e" "e \<le> 3"
  shows "year_start (400 * a + 100 * b + 4 * c + e + 1) = 146097 * a + 36524 * b + 1461 * c + 365 * e - epoch_days"
proof -
  have "(400 * a + 100 * b + 4 * c + e) div 400 = a" "(400 * a + 100 * b + 4 * c + e) div 100 = 4 * a + b"
    "(400 * a + 100 * b + 4 * c + e) div 4 = 100 * a + 25 * b + c"
    using assms by (auto intro: int_div_pos_eq [of _ _ _ "100 * b + 4 * c + e"]
      int_div_pos_eq [of _ _ _ "4 * c + e"] int_div_pos_eq [of _ _ _ e])
  then show ?thesis by (simp add: year_start_def)
qed

lemma is_leap_parts:
  assumes "0 \<le> b" "b \<le> 3" "0 \<le> c" "c \<le> 24" "e = 3" "c = 24 \<longrightarrow> b = 3"
  shows "is_leap (400 * a + 100 * b + 4 * c + e + 1)"
proof -
  have m: "(400 * a + 100 * b + 4 * c + 3 + 1) mod 4 = 0"
    by (rule int_mod_pos_eq [of _ _ "100 * a + 25 * b + c + 1"]) simp_all
  show ?thesis
  proof (cases "c = 24")
    case True
    then have "(400 * a + 100 * b + 4 * c + 3 + 1) mod 400 = 0"
      using assms by (intro int_mod_pos_eq [of _ _ "a + 1"]) simp_all
    then show ?thesis using m assms by (simp add: is_leap_def)
  next
    case False
    then have "(400 * a + 100 * b + 4 * c + 3 + 1) mod 100 = 4 * c + 4"
      using assms by (intro int_mod_pos_eq [of _ _ "4 * a + b"]) simp_all
    then show ?thesis using m assms by (simp add: is_leap_def)
  qed
qed

lemma year_yday_start:
  assumes "year_yday day = (y, yd)"
  shows "year_start y + yd = day" and "0 \<le> yd" and "yd \<le> 365" and "yd = 365 \<Longrightarrow> is_leap y"
proof -
  obtain a b c e d where y: "year_yday day = (400 * a + 100 * b + 4 * c + e + 1, d)"
    and day: "day + epoch_days = 146097 * a + 36524 * b + 1461 * c + 365 * e + d"
    and B: "0 \<le> b" "b \<le> 3" "0 \<le> c" "c \<le> 24" "0 \<le> e" "e \<le> 3" "0 \<le> d" "d \<le> 365"
    and l: "d = 365 \<longrightarrow> e = 3 \<and> (c = 24 \<longrightarrow> b = 3)"
    by (rule year_yday_cases [of day]) blast
  have eq: "y = 400 * a + 100 * b + 4 * c + e + 1" "yd = d" using y assms by simp_all
  show "year_start y + yd = day" unfolding eq year_start_parts [OF B(1-6)] using day by simp
  show "0 \<le> yd" "yd \<le> 365" using B eq by simp_all
  show "is_leap y" if "yd = 365" unfolding eq(1)
    by (rule is_leap_parts) (use B l that eq(2) in simp_all)
qed


text \<open>The day of a year from the month and day, and the civil date as the number of a day.\<close>

definition day_in_year :: "bool \<Rightarrow> int \<Rightarrow> int \<Rightarrow> int" where
  "day_in_year leap m d = days_before ! nat (m - 1) + (if leap \<and> m > 2 then 1 else 0) + d - 1"

lemma month_cases:
  fixes d :: int
  assumes "0 \<le> d" and "d \<le> 364"
  shows "d div 31 \<in> {0, 1, 2, 3, 4, 5, 6, 7, 8, 9, 10, 11}"
proof -
  have "0 \<le> d div 31" "d div 31 \<le> 11" using assms zdiv_mono1 [OF assms(2), of 31] by simp_all
  then obtain n where n: "d div 31 = int n" "n < 12" by (cases "d div 31") auto
  then show ?thesis by (auto simp: eval_nat_numeral less_Suc_eq)
qed

lemma month_day_in_year:
  assumes "0 \<le> yd" and "yd \<le> 365" and "yd = 365 \<Longrightarrow> leap" and "month_day leap yd = (m, d)"
  shows "day_in_year leap m d = yd"
proof (cases "leap \<and> yd = 59")
  case True
  then show ?thesis using assms(4) by (auto simp: month_day_def day_in_year_def days_before_def)
next
  case False
  define x where "x = (if leap \<and> yd > 59 then yd - 1 else yd)"
  define k where "k = x div 31"
  have "yd = 365 \<longrightarrow> leap" using assms(3) by blast
  then have x: "0 \<le> x" "x \<le> 364" "31 * k \<le> x" "x < 31 * k + 31"
    using assms(1,2) by (auto simp: x_def k_def)
  have "(m, d) = (if days_before ! nat (k + 1) \<le> x then (k + 2, x - days_before ! nat (k + 1) + 1)
      else (k + 1, x - days_before ! nat k + 1))"
    using assms(4) False unfolding month_day_def Let_def x_def [symmetric] k_def [symmetric]
    by (simp only: if_False)
  moreover have "yd = x + (if leap \<and> 59 \<le> x then 1 else 0)" using False by (auto simp: x_def)
  moreover have "k \<in> {0, 1, 2, 3, 4, 5, 6, 7, 8, 9, 10, 11}" using month_cases [OF x(1,2)] by (simp add: k_def)
  ultimately show ?thesis
    using x(3,4) by (auto simp: day_in_year_def days_before_def split: if_splits)
qed

lemma day_of_civil:
  assumes "civil_date day = (y, m, d)"
  shows "day_of_date y m d = day"
proof -
  obtain yd where y: "year_yday day = (y, yd)" and m: "month_day (is_leap y) yd = (m, d)"
    using assms by (auto simp: civil_date_def split: prod.splits)
  have "day_in_year (is_leap y) m d = yd"
    using month_day_in_year [OF year_yday_start(2-4) [OF y] m] by simp
  then show ?thesis
    using year_yday_start(1) [OF y] by (simp add: day_of_date_def day_in_year_def year_start_def)
qed

lemma civil_date_eq_iff [simp]: "civil_date a = civil_date b \<longleftrightarrow> a = b"
  by (metis day_of_civil prod_cases3)

lemma Date_of_Unix_Date:
  "Date_Unix (\<lambda>_. off) (Unix_Date (\<lambda>_. off) t) = 86400 * local_day (\<lambda>_. off) t - off"
  by (cases "civil_date (local_day (\<lambda>_. off) t)") (auto simp: Date_Unix_def Unix_Date_def Let_def dest: day_of_civil)

lemma quot_multiple [simp]: "0 < b \<Longrightarrow> quot (b * a) b = a"
  by (simp add: quot_def abs_mult sgn_mult mult_sgn_abs)

lemma IsCrossDay_iff: "IsCrossDay zone d \<longleftrightarrow> local_day zone (dT1 d) \<noteq> local_day zone (dT2 d)"
  by (auto simp: IsCrossDay_def Unix_Date_def split: prod.splits)
    (metis civil_date_eq_iff prod.inject)+

lemma PassedDays_fixed:
  "PassedDays (\<lambda>_. off) d = local_day (\<lambda>_. off) (dT2 d) - local_day (\<lambda>_. off) (dT1 d)"
proof -
  have "86400 * b - off - (86400 * a - off) = 86400 * (b - a)" for a b :: int by simp
  then show ?thesis by (simp only: PassedDays_def Date_of_Unix_Date Let_def quot_multiple zero_less_numeral)
qed

text \<open>The Thursdays of two weeks of one year lie a multiple of seven days apart.\<close>

lemma ISOWeek_eq_iff:
  "ISOWeek zone s = ISOWeek zone t \<longleftrightarrow> (local_day zone s + 3) div 7 = (local_day zone t + 3) div 7"
proof -
  define a b where "a = (local_day zone s + 3) div 7" and "b = (local_day zone t + 3) div 7"
  have th: "x + 3 - (x + 3) mod 7 = 7 * ((x + 3) div 7)" for x :: int by (simp add: minus_mod_eq_mult_div)
  obtain y yd z zd where y: "year_yday (7 * a) = (y, yd)" and z: "year_yday (7 * b) = (z, zd)" by fastforce
  have "y = z \<Longrightarrow> yd div 7 = zd div 7 \<Longrightarrow> a = b"
  proof -
    assume eq: "y = z" "yd div 7 = zd div 7"
    have "7 * a - yd = 7 * b - zd" using year_yday_start(1) [OF y] year_yday_start(1) [OF z] eq by simp
    moreover have "yd = 7 * (yd div 7) + yd mod 7" "zd = 7 * (zd div 7) + zd mod 7" by simp_all
    moreover have "0 \<le> yd mod 7" "yd mod 7 < 7" "0 \<le> zd mod 7" "zd mod 7 < 7" by simp_all
    ultimately show "a = b" using eq(2) by linarith
  qed
  then show ?thesis
    using y z by (auto simp: ISOWeek_def Let_def th a_def [symmetric] b_def [symmetric])
qed

lemma IsCrossWeek_iff:
  "IsCrossWeek zone d \<longleftrightarrow> (local_day zone (dT1 d) + 3) div 7 \<noteq> (local_day zone (dT2 d) + 3) div 7"
  by (simp add: IsCrossWeek_def ISOWeek_eq_iff [symmetric] split: prod.splits)

lemma IsCrossMonth_day: "IsCrossMonth zone d \<Longrightarrow> IsCrossDay zone d"
  by (auto simp: IsCrossMonth_def IsCrossDay_def split: prod.splits)

lemma rem_nonneg: "0 \<le> a \<Longrightarrow> 0 < b \<Longrightarrow> rem a b = a mod b"
  by (cases "a = 0") (auto simp: rem_def quot_def minus_mult_div_eq_mod)

lemma local_day_mono: "s \<le> t \<Longrightarrow> local_day (\<lambda>_. off) s \<le> local_day (\<lambda>_. off) t"
  by (simp add: local_day_def zdiv_mono1)

section \<open>Properties\<close>



text \<open>
  A day that is an hour short counts as none: the clock goes forward at one o'clock on the second day,
  and from its noon to the noon after it no day has passed, though the date has changed. Two times in
  the wrong order give a cycle that is not positive.
\<close>

definition forward_zone :: "int \<Rightarrow> int" where
  "forward_zone t = (if t < 90000 then 0 else 3600)"

lemma short_day_not_passed:
  "IsCrossDay forward_zone (DurationFromTime 129600 216000) \<and> PassedDays forward_zone (DurationFromTime 129600 216000) = 0"
  by code_simp

lemma cycle_not_positive: "GetCycle (\<lambda>_. 0) (DurationFromTime 172800 0) 7 = (Return (- 1) :: (unit, int) outcome)"
  by code_simp

end
