(* ===== verification/Game_Object.thy ===== *)
theory Game_Object
  imports Gira_Prelude
begin

text \<open>
  The objects of a scene and their components: \<open>object.go\<close>, \<open>components.go\<close> and \<open>CreateObject\<close> of
  \<open>scene.go\<close>. Components and objects are addresses; \<open>typ\<close> gives the dynamic type of a component, and
  \<open>Awake\<close>, the method an embedding type may override, is a parameter that may change the state.

  The lemmas: what the dictionary holds after any number of additions: the first component of each
  type, whatever the errors of \<open>Awake\<close>.
\<close>

section \<open>State\<close>

text \<open>The dictionary of an object; the field \<open>object\<close> of each component.\<close>

record 't objects =
  oDict :: "nat \<Rightarrow> 't \<Rightarrow> nat list option"
  oOwner :: "nat \<Rightarrow> nat option"

datatype 'e object_error = ErrNullObject | ErrNullPointer | AwakeError 'e

section \<open>Operations\<close>

definition CreateObject :: "nat \<Rightarrow> 't objects \<Rightarrow> 't objects" where
  "CreateObject o' w = w\<lparr>oDict := (oDict w)(o' := Map.empty)\<rparr>"

definition Object_GetComponents :: "nat \<Rightarrow> 't \<Rightarrow> 't objects \<Rightarrow> nat list" where
  "Object_GetComponents ob t w = (case oDict w ob t of Some arr \<Rightarrow> arr | None \<Rightarrow> [])"

definition Object_GetComponent :: "nat \<Rightarrow> 't \<Rightarrow> 't objects \<Rightarrow> nat option" where
  "Object_GetComponent ob t w =
     (case oDict w ob t of
        Some arr \<Rightarrow> if length arr > 0 then Some (arr ! 0) else None
      | None \<Rightarrow> None)"

definition SetObject :: "nat \<Rightarrow> nat \<Rightarrow> 't objects \<Rightarrow> 't objects" where
  "SetObject c ob w = w\<lparr>oOwner := (oOwner w)(c := Some ob)\<rparr>"

text \<open>
  \<open>AddComponent\<close>: for a type the object has, \<open>append\<close> gives a new slice to a local variable only; the
  slice in the map keeps its length. \<open>Awake\<close> comes last, and its error undoes nothing.
\<close>

definition Object_AddComponent ::
  "(nat \<Rightarrow> 't) \<Rightarrow> (nat \<Rightarrow> 't objects \<Rightarrow> 't objects \<times> 'e option) \<Rightarrow> nat \<Rightarrow> nat option \<Rightarrow> 't objects
     \<Rightarrow> 't objects \<times> 'e object_error option" where
  "Object_AddComponent typ Awake ob component w =
     (case component of
        None \<Rightarrow> (w, Some ErrNullPointer)
      | Some c \<Rightarrow>
          (let t = typ c;
               w = (case oDict w ob t of
                      Some arr \<Rightarrow> w
                    | None \<Rightarrow> w\<lparr>oDict := (oDict w)(ob := (oDict w ob)(t \<mapsto> [] @ [c]))\<rparr>);
               w = SetObject c ob w
           in (case Awake c w of
                 (w', Some e) \<Rightarrow> (w', Some (AwakeError e))
               | (w', None) \<Rightarrow> (w', None))))"

text \<open>The functions on a component: those of \<open>BaseComponent\<close> and of the package.\<close>

definition GetObject :: "nat \<Rightarrow> 't objects \<Rightarrow> nat option" where
  "GetObject c w = oOwner w c"

definition AddComponent ::
  "(nat \<Rightarrow> 't) \<Rightarrow> (nat \<Rightarrow> 't objects \<Rightarrow> 't objects \<times> 'e option) \<Rightarrow> nat \<Rightarrow> nat option \<Rightarrow> 't objects
     \<Rightarrow> 't objects \<times> 'e object_error option" where
  "AddComponent typ Awake self component w =
     (case GetObject self w of
        None \<Rightarrow> (w, Some ErrNullObject)
      | Some ob \<Rightarrow> Object_AddComponent typ Awake ob component w)"

definition GetComponents :: "nat \<Rightarrow> 't \<Rightarrow> 't objects \<Rightarrow> nat list" where
  "GetComponents self t w =
     (case GetObject self w of None \<Rightarrow> [] | Some ob \<Rightarrow> Object_GetComponents ob t w)"

text \<open>\<open>GetComponent[T]\<close>: the type parameter is the type looked up, so the assertion holds of what is found.\<close>

definition GetComponent :: "nat \<Rightarrow> 't \<Rightarrow> 't objects \<Rightarrow> nat option" where
  "GetComponent self t w =
     (case GetObject self w of None \<Rightarrow> None | Some ob \<Rightarrow> Object_GetComponent ob t w)"

section \<open>Lemmas\<close>

text \<open>Additions one after the other, whatever their errors; \<open>Awake\<close> may fail but leaves the state alone.\<close>

definition add_all ::
  "(nat \<Rightarrow> 't) \<Rightarrow> (nat \<Rightarrow> 'e option) \<Rightarrow> nat \<Rightarrow> nat list \<Rightarrow> 't objects \<Rightarrow> 't objects" where
  "add_all typ awake ob cs w =
     foldl (\<lambda>w c. fst (Object_AddComponent typ (\<lambda>c w. (w, awake c)) ob (Some c) w)) w cs"

lemma add_all_snoc:
  "add_all typ awake ob (cs @ [c]) w =
     fst (Object_AddComponent typ (\<lambda>c w. (w, awake c)) ob (Some c) (add_all typ awake ob cs w))"
  by (simp add: add_all_def)

lemma oDict_add:
  "oDict (fst (Object_AddComponent typ (\<lambda>c w. (w, awake c)) ob (Some c) w)) =
     (if oDict w ob (typ c) = None then (oDict w)(ob := (oDict w ob)(typ c \<mapsto> [c])) else oDict w)"
  by (auto simp: Object_AddComponent_def SetObject_def Let_def split: option.splits)

lemma oOwner_add:
  "oOwner (fst (Object_AddComponent typ (\<lambda>c w. (w, awake c)) ob (Some c) w)) = (oOwner w)(c \<mapsto> ob)"
  by (auto simp: Object_AddComponent_def SetObject_def Let_def split: option.splits)

lemma find_snoc: "List.find P (xs @ [x]) = (case List.find P xs of Some y \<Rightarrow> Some y | None \<Rightarrow> if P x then Some x else None)"
  by (induction xs) auto

lemma oDict_add_all:
  assumes "oDict w ob = Map.empty"
  shows "oDict (add_all typ awake ob cs w) ob t = map_option (\<lambda>c. [c]) (List.find (\<lambda>c. typ c = t) cs)"
proof (induction cs rule: rev_induct)
  case Nil
  then show ?case using assms by (simp add: add_all_def)
next
  case (snoc c cs)
  then show ?case by (auto simp: add_all_snoc oDict_add find_snoc split: option.splits)
qed

lemma oOwner_add_all: "oOwner (add_all typ awake ob cs w) c = (if c \<in> set cs then Some ob else oOwner w c)"
proof (induction cs rule: rev_induct)
  case Nil
  then show ?case by (simp add: add_all_def)
next
  case (snoc x cs)
  then show ?case by (simp add: add_all_snoc oOwner_add)
qed

section \<open>Properties\<close>

text \<open>
  An object keeps the first component of each type. After any additions to a new object, those of
  failing components included, looking a type up gives the first component of the type that was added
  and nothing else, and none exactly when none was added; yet every component added has the object as its
  own, so from each of them the first one is found.
\<close>

lemma first_component_kept:
  "Object_GetComponents ob t (add_all typ awake ob cs (CreateObject ob w)) =
     (case List.find (\<lambda>c. typ c = t) cs of None \<Rightarrow> [] | Some c \<Rightarrow> [c])
   \<and> (\<forall>c\<in>set cs. GetComponent c t (add_all typ awake ob cs (CreateObject ob w)) = List.find (\<lambda>c. typ c = t) cs)"
proof -
  have "oDict (CreateObject ob w) ob = Map.empty" by (simp add: CreateObject_def)
  from oDict_add_all [OF this, of "typ" awake cs t] show ?thesis
    by (auto simp: Object_GetComponents_def GetComponent_def Object_GetComponent_def GetObject_def oOwner_add_all
      split: option.splits)
qed

lemma first_component_kept_witness:
  "Object_GetComponents 1 (0::nat) (add_all (\<lambda>c. c mod 2) (\<lambda>c. None :: unit option) 1 [2, 4, 3] (CreateObject 1 \<lparr>oDict = (\<lambda>_ _. None), oOwner = (\<lambda>_. None)\<rparr>)) = [2]
   \<and> GetComponent 4 0 (add_all (\<lambda>c. c mod 2) (\<lambda>c. None :: unit option) 1 [2, 4, 3] (CreateObject 1 \<lparr>oDict = (\<lambda>_ _. None), oOwner = (\<lambda>_. None)\<rparr>)) = Some 2"
  using first_component_kept [of 1 "0::nat" "\<lambda>c. c mod 2" "\<lambda>c. None :: unit option" "[2, 4, 3]" "\<lparr>oDict = (\<lambda>_ _. None), oOwner = (\<lambda>_. None)\<rparr>"]
  by simp

end
