(* ===== verification/Service_Client.thy ===== *)
theory Service_Client
  imports Registry_Client Registry_Player
begin

text \<open>
  The clients that \<open>bin/gen_gclient/gclient.go\<close> generates for every service, as in
  \<open>service/peer/peerpb/peer_gclient.pb.go\<close>: the pools of connections by address, the direct call, the unicast
  and the multicast with their conditions. grpc is a parameter (what a dial and a call give), and so is what the
  functions of \<open>facade/facade.go\<close> find; \<open>registry_facade\<close> and \<open>client_facade\<close> are those of a node
  with a registry and of one with a registry client only.

  The lemmas: a pooled connection is one to its address and is never handed out twice; a unicast goes to
  the address its conditions choose; a multicast calls each peer it finds once, in order, and its result
  keeps peers and answers aligned; a positive count bounds it whichever lookup answers.
\<close>

section \<open>Connections and their pools\<close>

text \<open>A connection has the address it was dialled to and a number of its own.\<close>

type_synonym connection = "string \<times> nat"

text \<open>
  The clients of a service: its name, the pools by address, how many connections were dialled, and the
  connections calls were made on, in order.
\<close>

record clients =
  cServiceName :: string
  cPool :: "string \<Rightarrow> connection list option"
  cDialed :: nat
  cCalls :: "connection list"

text \<open>
  The outgoing metadata of a call: \<open>None\<close> when none was set by the client. \<open>rpDial\<close> is the error of the
  \<open>n\<close>th dial, if it fails; \<open>rpPick\<close> which of the pooled clients \<open>sync.Pool\<close> gives, if it gives one at all;
  \<open>rpCall\<close> what the \<open>n\<close>th call gives.
\<close>

type_synonym headers = "(string \<times> string list) list"

record ('q, 'r, 'e) rpc =
  rpDial :: "nat \<Rightarrow> string \<Rightarrow> 'e option"
  rpPick :: "connection list \<Rightarrow> nat option"
  rpCall :: "nat \<Rightarrow> connection \<Rightarrow> headers option \<Rightarrow> 'q \<Rightarrow> 'e + 'r"

definition NewClients :: "string \<Rightarrow> clients" where
  "NewClients serverName = \<lparr>cServiceName = serverName, cPool = Map.empty, cDialed = 0, cCalls = []\<rparr>"

definition WithServiceName :: "string \<Rightarrow> clients \<Rightarrow> clients" where
  "WithServiceName serviceName w = w\<lparr>cServiceName := serviceName\<rparr>"

definition remove_nth :: "nat \<Rightarrow> 'a list \<Rightarrow> 'a list" where
  "remove_nth i xs = take i xs @ drop (Suc i) xs"

text \<open>\<open>getClient\<close>: the pool is made first; a pool without a client to give dials a new one.\<close>

definition getClient :: "('q, 'r, 'e) rpc \<Rightarrow> string \<Rightarrow> clients \<Rightarrow> clients \<times> ('e + connection)" where
  "getClient R address w =
     (let pool = (case cPool w address of Some p \<Rightarrow> p | None \<Rightarrow> []);
          w = w\<lparr>cPool := (cPool w)(address \<mapsto> pool)\<rparr>
      in (case (case rpPick R pool of Some i \<Rightarrow> if i < length pool then Some i else None | None \<Rightarrow> None) of
            Some i \<Rightarrow> (w\<lparr>cPool := (cPool w)(address \<mapsto> remove_nth i pool)\<rparr>, Inr (pool ! i))
          | None \<Rightarrow>
              (case rpDial R (cDialed w) address of
                 Some e \<Rightarrow> (w\<lparr>cDialed := Suc (cDialed w)\<rparr>, Inl e)
               | None \<Rightarrow> (w\<lparr>cDialed := Suc (cDialed w)\<rparr>, Inr (address, cDialed w)))))"

definition putClient :: "string \<Rightarrow> connection \<Rightarrow> clients \<Rightarrow> clients" where
  "putClient address k w =
     (case cPool w address of
        Some pool \<Rightarrow> w\<lparr>cPool := (cPool w)(address \<mapsto> k # pool)\<rparr>
      | None \<Rightarrow> w)"

text \<open>The call of a method on an address; the connection goes back to its pool also when the call fails.\<close>

definition clients_call ::
  "('q, 'r, 'e) rpc \<Rightarrow> string \<Rightarrow> headers option \<Rightarrow> 'q \<Rightarrow> clients \<Rightarrow> clients \<times> ('e + 'r)" where
  "clients_call R address h q w =
     (case getClient R address w of
        (w, Inl e) \<Rightarrow> (w, Inl e)
      | (w, Inr k) \<Rightarrow>
          (let out = rpCall R (length (cCalls w)) k h q;
               w = w\<lparr>cCalls := cCalls w @ [k]\<rparr>
           in (putClient address k w, out)))"

section \<open>What the facade gives\<close>

text \<open>
  A server of this process is a function of the deadline in seconds, the metadata and the request; \<open>None\<close>
  for one that does not implement the service.
\<close>

datatype 'e call_error = ServerNotFound | NoPeerFound | Unimplemented | LookupError 'e | CallError 'e

record ('q, 'r, 'e) facade =
  fcResolver :: bool
  fcWhereIsPeer :: "string \<Rightarrow> ('e, peer) outcome"
  fcWhereIsUser :: "string \<Rightarrow> ('e, peer option) outcome"
  fcWhereIsServiceName :: "string \<Rightarrow> where_option list \<Rightarrow> ('e, peer option list) outcome"
  fcWhereIsServer :: "string \<Rightarrow> (int \<Rightarrow> headers option \<Rightarrow> 'q \<Rightarrow> ('e, 'r) outcome) option option"

definition facade_address :: "bool \<Rightarrow> peer \<Rightarrow> string" where
  "facade_address resolver p = (if resolver then pUrl p else pAddress p)"

section \<open>Unicast\<close>

record unicast =
  uTimeout :: int
  uPeer :: "peer option"
  uPeerFullName :: string
  uServiceName :: string
  uAddress :: string
  uUserId :: string
  uLocal :: bool
  uHeaders :: headers

definition Unicast :: unicast where
  "Unicast = \<lparr>uTimeout = 5, uPeer = None, uPeerFullName = [], uServiceName = [], uAddress = [], uUserId = [],
     uLocal = False, uHeaders = []\<rparr>"

definition GRPC_PATH_KEY :: string where "GRPC_PATH_KEY = ''girapath''"

datatype unicast_where =
    Local | Where string | WherePeer "peer option" | WherePeerFullName string | WhereAddress string | WhereUser string

fun unicast_with :: "unicast_where \<Rightarrow> unicast \<Rightarrow> unicast" where
  "unicast_with Local c = c\<lparr>uLocal := True\<rparr>"
| "unicast_with (Where n) c = c\<lparr>uServiceName := n\<rparr>"
| "unicast_with (WherePeer p) c = c\<lparr>uPeer := p\<rparr>"
| "unicast_with (WherePeerFullName n) c = c\<lparr>uPeerFullName := n\<rparr>"
| "unicast_with (WhereAddress a) c = c\<lparr>uAddress := a\<rparr>"
| "unicast_with (WhereUser u) c =
     c\<lparr>uUserId := u, uHeaders := (GRPC_PATH_KEY, [u]) # filter (\<lambda>x. fst x \<noteq> GRPC_PATH_KEY) (uHeaders c)\<rparr>"

text \<open>\<open>metadata.NewOutgoingContext\<close> when there are headers; otherwise the context stays as it is.\<close>

definition outgoing :: "headers \<Rightarrow> headers option" where
  "outgoing h = (if length h > 0 then Some h else None)"

text \<open>The choice of the address; the nil peer of a service without one is dereferenced.\<close>

definition unicast_address :: "('q, 'r, 'e) facade \<Rightarrow> unicast \<Rightarrow> ('e call_error, string) outcome" where
  "unicast_address F c =
     (if length (uAddress c) > 0 then Return (uAddress c)
      else if length (uPeerFullName c) > 0 then
        bind_outcome (map_error LookupError (fcWhereIsPeer F (uPeerFullName c)))
          (\<lambda>p. Return (facade_address (fcResolver F) p))
      else (case uPeer c of
          Some p \<Rightarrow> Return (facade_address (fcResolver F) p)
        | None \<Rightarrow>
            if length (uServiceName c) > 0 then
              bind_outcome (map_error LookupError (fcWhereIsServiceName F (uServiceName c) []))
                (\<lambda>ps. case ps of
                   [] \<Rightarrow> Error NoPeerFound
                 | None # _ \<Rightarrow> Panic
                 | Some p # _ \<Rightarrow> Return (facade_address (fcResolver F) p))
            else if length (uUserId c) > 0 then
              bind_outcome (map_error LookupError (fcWhereIsUser F (uUserId c)))
                (\<lambda>p. case p of None \<Rightarrow> Panic | Some p \<Rightarrow> Return (facade_address (fcResolver F) p))
            else Return []))"

text \<open>A method of the unicast; a streaming method has no local form.\<close>

definition unicast_call ::
  "('q, 'r, 'e) rpc \<Rightarrow> ('q, 'r, 'e) facade \<Rightarrow> bool \<Rightarrow> unicast \<Rightarrow> 'q \<Rightarrow> clients
     \<Rightarrow> clients \<times> ('e call_error, 'r) outcome" where
  "unicast_call R F streaming c q w =
     (if uLocal c then
        (w, if streaming then Error Unimplemented
            else (case fcWhereIsServer F (cServiceName w) of
                    None \<Rightarrow> Error ServerNotFound
                  | Some None \<Rightarrow> Error ServerNotFound
                  | Some (Some svr) \<Rightarrow> map_error CallError (svr (uTimeout c) (outgoing (uHeaders c)) q)))
      else
        (case unicast_address F c of
           Panic \<Rightarrow> (w, Panic)
         | Error e \<Rightarrow> (w, Error e)
         | Return address \<Rightarrow>
             if length address \<le> 0 then (w, Error NoPeerFound)
             else (case clients_call R address (outgoing (uHeaders c)) q w of
                     (w, Inl e) \<Rightarrow> (w, Error (CallError e))
                   | (w, Inr out) \<Rightarrow> (w, Return out))))"

section \<open>Multicast\<close>

record multicast =
  mTimeout :: int
  mCount :: int
  mServiceName :: string
  mRegex :: string
  mPrefix :: bool
  mLocal :: bool
  mHeaders :: headers

definition Multicast :: "int \<Rightarrow> clients \<Rightarrow> multicast" where
  "Multicast n w = \<lparr>mTimeout = 5, mCount = n, mServiceName = cServiceName w @ ''/'', mRegex = [],
     mPrefix = False, mLocal = False, mHeaders = []\<rparr>"

definition Broadcast :: "clients \<Rightarrow> multicast" where
  "Broadcast w = \<lparr>mTimeout = 0, mCount = - 1, mServiceName = cServiceName w @ ''/'', mRegex = [],
     mPrefix = False, mLocal = False, mHeaders = []\<rparr>"

datatype multicast_where = MulticastLocal | WhereRegex string | WherePrefix bool

fun multicast_with :: "multicast_where \<Rightarrow> multicast \<Rightarrow> multicast" where
  "multicast_with MulticastLocal c = c\<lparr>mLocal := True\<rparr>"
| "multicast_with (WhereRegex r) c = c\<lparr>mRegex := r\<rparr>"
| "multicast_with (WherePrefix b) c = c\<lparr>mPrefix := b\<rparr>"

record ('r, 'e) multicast_result =
  mrErrors :: "'e list"
  mrPeerCount :: nat
  mrSuccessPeers :: "peer list"
  mrErrorPeers :: "peer list"
  mrResponses :: "'r list"

text \<open>The accessors of a result: an index out of range gives nil.\<close>

definition at_index :: "'a list \<Rightarrow> int \<Rightarrow> 'a option" where
  "at_index xs i = (if i < 0 \<or> i \<ge> int (length xs) then None else Some (xs ! nat i))"

definition result_Error :: "('r, 'e, 'z) multicast_result_scheme \<Rightarrow> 'e option" where
  "result_Error r = (if length (mrErrors r) \<le> 0 then None else Some (mrErrors r ! 0))"

definition result_Response :: "('r, 'e, 'z) multicast_result_scheme \<Rightarrow> int \<Rightarrow> 'r option" where
  "result_Response r i = at_index (mrResponses r) i"

definition result_SuccessPeer :: "('r, 'e, 'z) multicast_result_scheme \<Rightarrow> int \<Rightarrow> peer option" where
  "result_SuccessPeer r i = at_index (mrSuccessPeers r) i"

definition result_ErrorPeer :: "('r, 'e, 'z) multicast_result_scheme \<Rightarrow> int \<Rightarrow> peer option" where
  "result_ErrorPeer r i = at_index (mrErrorPeers r) i"

definition result_Errors :: "('r, 'e, 'z) multicast_result_scheme \<Rightarrow> int \<Rightarrow> 'e option" where
  "result_Errors r i = at_index (mrErrors r) i"

definition SuccessCount :: "('r, 'e, 'z) multicast_result_scheme \<Rightarrow> nat" where
  "SuccessCount r = length (mrSuccessPeers r)"

definition ErrorCount :: "('r, 'e, 'z) multicast_result_scheme \<Rightarrow> nat" where
  "ErrorCount r = length (mrErrorPeers r)"

definition multicast_options :: "multicast \<Rightarrow> where_option list" where
  "multicast_options c =
     [WhereCatalogOption]
     @ (if mCount c > 0 then [WhereMaxCountOption (mCount c)] else [])
     @ (if length (mRegex c) > 0 then [WhereRegexOption] else [])
     @ (if mPrefix c then [WherePrefixOption] else [])"

definition multicast_name :: "multicast \<Rightarrow> string" where
  "multicast_name c = (if length (mRegex c) > 0 then mServiceName c @ mRegex c else mServiceName c)"

text \<open>
  The call of one peer in the loop. A connection goes back to its pool after it, but for a streaming
  method only when the call failed.
\<close>

definition multicast_one ::
  "('q, 'r, 'e) rpc \<Rightarrow> bool \<Rightarrow> string \<Rightarrow> 'q \<Rightarrow> clients \<Rightarrow> clients \<times> ('e + 'r)" where
  "multicast_one R streaming address q w =
     (case getClient R address w of
        (w, Inl e) \<Rightarrow> (w, Inl e)
      | (w, Inr k) \<Rightarrow>
          (let out = rpCall R (length (cCalls w)) k None q;
               w = w\<lparr>cCalls := cCalls w @ [k]\<rparr>
           in (case out of
                 Inl e \<Rightarrow> (putClient address k w, Inl e)
               | Inr x \<Rightarrow> (if streaming then w else putClient address k w, Inr x))))"

text \<open>The loop over the peers found: \<open>None\<close> when a peer is nil. The context of the caller is used as it is.\<close>

fun multicast_loop ::
  "('q, 'r, 'e) rpc \<Rightarrow> bool \<Rightarrow> bool \<Rightarrow> 'q \<Rightarrow> peer option list \<Rightarrow> clients \<Rightarrow> ('r, 'e) multicast_result
     \<Rightarrow> clients \<times> ('r, 'e) multicast_result option" where
  "multicast_loop R streaming resolver q [] w r = (w, Some r)"
| "multicast_loop R streaming resolver q (None # ps) w r = (w, None)"
| "multicast_loop R streaming resolver q (Some p # ps) w r =
     (case multicast_one R streaming (facade_address resolver p) q w of
        (w, Inl e) \<Rightarrow>
          multicast_loop R streaming resolver q ps w
            (r\<lparr>mrErrors := mrErrors r @ [e], mrErrorPeers := mrErrorPeers r @ [p]\<rparr>)
      | (w, Inr out) \<Rightarrow>
          multicast_loop R streaming resolver q ps w
            (r\<lparr>mrResponses := mrResponses r @ [out], mrSuccessPeers := mrSuccessPeers r @ [p]\<rparr>))"

definition empty_result :: "nat \<Rightarrow> ('r, 'e) multicast_result" where
  "empty_result n = \<lparr>mrErrors = [], mrPeerCount = n, mrSuccessPeers = [], mrErrorPeers = [], mrResponses = []\<rparr>"

definition multicast_call ::
  "('q, 'r, 'e) rpc \<Rightarrow> ('q, 'r, 'e) facade \<Rightarrow> bool \<Rightarrow> multicast \<Rightarrow> 'q \<Rightarrow> clients
     \<Rightarrow> clients \<times> ('e call_error, ('r, 'e) multicast_result) outcome" where
  "multicast_call R F streaming c q w =
     (if mLocal c then
        (w, if streaming then Error Unimplemented
            else (case fcWhereIsServer F (cServiceName w) of
                    None \<Rightarrow> Error ServerNotFound
                  | Some None \<Rightarrow> Error ServerNotFound
                  | Some (Some svr) \<Rightarrow>
                      bind_outcome (map_error CallError (svr (mTimeout c) (outgoing (mHeaders c)) q))
                        (\<lambda>resp. Return ((empty_result 0)\<lparr>mrResponses := [] @ [resp]\<rparr>))))
      else
        (case fcWhereIsServiceName F (multicast_name c) (multicast_options c) of
           Panic \<Rightarrow> (w, Panic)
         | Error e \<Rightarrow> (w, Error (LookupError e))
         | Return peers \<Rightarrow>
             (case multicast_loop R streaming (fcResolver F) q peers w (empty_result (length peers)) of
                (w, None) \<Rightarrow> (w, Panic)
              | (w, Some r) \<Rightarrow> (w, Return r))))"

section \<open>The facade of a node\<close>

text \<open>
  A node has a registry (its peers, its users and its services), or a registry client only, or neither.
  \<open>userKey\<close> is what etcd answers for the key of a user, \<open>order\<close> the order a map is walked in, \<open>self\<close>
  the node's own peer and \<open>own\<close> the full name the registry client was made for.
\<close>

record node =
  ndRegistry :: "(peer_registry \<times> player_registry \<times> peer service_registry) option"
  ndClient :: "etcd_client option"
  ndOwn :: string
  ndSelf :: "peer option"
  ndUserKey :: "string \<Rightarrow> string list option"
  ndOrder :: "string list \<Rightarrow> string list"

datatype facade_error = RegistryNotImplement | RegistryPeerNotFound | RegistryUser player_error | ClientFailed client_error

definition facade_WhereIsPeer :: "node \<Rightarrow> string \<Rightarrow> (facade_error, peer) outcome" where
  "facade_WhereIsPeer nd n =
     (case ndRegistry nd of
        Some (ps, us, ss) \<Rightarrow>
          (case WhereIsPeer ps n of Some p \<Rightarrow> Return p | None \<Rightarrow> Error RegistryPeerNotFound)
      | None \<Rightarrow>
          (case ndClient nd of
             Some c \<Rightarrow> map_error ClientFailed (client_WhereIsPeer (ndOwn nd) c n)
           | None \<Rightarrow> Error RegistryNotImplement))"

definition facade_WhereIsUser :: "node \<Rightarrow> string \<Rightarrow> (facade_error, peer option) outcome" where
  "facade_WhereIsUser nd u =
     (case ndRegistry nd of
        Some (ps, us, ss) \<Rightarrow>
          (case WhereIsUser (ndSelf nd) (getPeer ps) (ndUserKey nd u) u us of
             (p, Some e) \<Rightarrow> Error (RegistryUser e)
           | (p, None) \<Rightarrow> Return p)
      | None \<Rightarrow>
          (case ndClient nd of
             Some c \<Rightarrow> map_error ClientFailed (bind_outcome (client_WhereIsUser (ndOwn nd) c u) (\<lambda>p. Return (Some p)))
           | None \<Rightarrow> Error RegistryNotImplement))"

definition facade_WhereIsServiceName ::
  "node \<Rightarrow> string \<Rightarrow> where_option list \<Rightarrow> (facade_error, peer option list) outcome" where
  "facade_WhereIsServiceName nd n opt =
     (case ndRegistry nd of
        Some (ps, us, ss) \<Rightarrow> Return (WhereIsService (ndOrder nd) ss n opt)
      | None \<Rightarrow>
          (case ndClient nd of
             Some c \<Rightarrow>
               map_error ClientFailed (bind_outcome (client_WhereIsService (ndOwn nd) c n opt) (\<lambda>ps. Return (map Some ps)))
           | None \<Rightarrow> Error RegistryNotImplement))"

text \<open>\<open>IsEnableResolver\<close>: the grpc configuration, when there is one.\<close>

definition IsEnableResolver :: "bool option \<Rightarrow> bool" where
  "IsEnableResolver cfg = (case cfg of Some resolver \<Rightarrow> resolver | None \<Rightarrow> False)"

text \<open>\<open>WhereIsServer\<close>: the servers of the grpc server, when there is one; \<open>None\<close> inside for another type.\<close>

definition WhereIsServer :: "(string \<rightharpoonup> 'v) option \<Rightarrow> string \<Rightarrow> 'v option" where
  "WhereIsServer s name = (case s of None \<Rightarrow> None | Some servers \<Rightarrow> servers name)"

definition node_facade ::
  "bool option \<Rightarrow> (string \<rightharpoonup> (int \<Rightarrow> headers option \<Rightarrow> 'q \<Rightarrow> (facade_error, 'r) outcome) option) option \<Rightarrow> node
     \<Rightarrow> ('q, 'r, facade_error) facade" where
  "node_facade cfg servers nd =
     \<lparr>fcResolver = IsEnableResolver cfg, fcWhereIsPeer = facade_WhereIsPeer nd, fcWhereIsUser = facade_WhereIsUser nd,
      fcWhereIsServiceName = facade_WhereIsServiceName nd, fcWhereIsServer = WhereIsServer servers\<rparr>"

section \<open>Lemmas: pools\<close>

text \<open>
  The invariant of the pools, with the connections in use: what is pooled under an address was dialled
  to it, is pooled once and is not in use.
\<close>

definition pools_ok :: "clients \<Rightarrow> connection set \<Rightarrow> bool" where
  "pools_ok w H \<longleftrightarrow>
     (\<forall>a p. cPool w a = Some p \<longrightarrow> distinct p \<and> (\<forall>k\<in>set p. fst k = a \<and> snd k < cDialed w \<and> k \<notin> H))
     \<and> (\<forall>k\<in>H. snd k < cDialed w)"

lemma pools_ok_new: "pools_ok (NewClients n) {}"
  by (simp add: pools_ok_def NewClients_def)

lemma pools_okD:
  assumes "pools_ok w H" and "cPool w a = Some p"
  shows "distinct p" and "\<And>k. k \<in> set p \<Longrightarrow> fst k = a" and "\<And>k. k \<in> set p \<Longrightarrow> snd k < cDialed w"
    and "\<And>k. k \<in> set p \<Longrightarrow> k \<notin> H"
  using assms by (auto simp: pools_ok_def)

lemma set_remove_nth:
  assumes "distinct p" and "i < length p"
  shows "distinct (remove_nth i p)" and "set (remove_nth i p) = set p - {p ! i}"
proof -
  have eq: "p = take i p @ p ! i # drop (Suc i) p" using assms(2) by (rule id_take_nth_drop)
  have d: "distinct (take i p @ p ! i # drop (Suc i) p)" using assms(1) eq by simp
  then show "distinct (remove_nth i p)" by (simp add: remove_nth_def)
  have "set p = insert (p ! i) (set (take i p) \<union> set (drop (Suc i) p))" by (subst eq) auto
  then show "set (remove_nth i p) = set p - {p ! i}" using d by (auto simp: remove_nth_def)
qed

lemma pools_ok_upd:
  assumes "pools_ok w H" and "distinct p" and "\<And>k. k \<in> set p \<Longrightarrow> fst k = a \<and> snd k < cDialed w \<and> k \<notin> H'"
    and "H' \<subseteq> H \<union> {k. fst k = a \<and> snd k < cDialed w}"
  shows "pools_ok (w\<lparr>cPool := (cPool w)(a \<mapsto> p)\<rparr>) H'"
  unfolding pools_ok_def
proof (intro conjI allI impI)
  fix b q assume q: "cPool (w\<lparr>cPool := (cPool w)(a \<mapsto> p)\<rparr>) b = Some q"
  show "distinct q" using q assms(1,2) by (auto simp: pools_ok_def split: if_splits)
  have "fst k = b \<and> snd k < cDialed w \<and> k \<notin> H'" if "k \<in> set q" for k
  proof (cases "b = a")
    case True
    then show ?thesis using q that assms(3) by auto
  next
    case False
    then have "cPool w b = Some q" using q by simp
    note P = pools_okD(2-4) [OF assms(1) this that]
    have "k \<notin> H'" using assms(4) P False by blast
    then show ?thesis using P by simp
  qed
  then show "\<forall>k\<in>set q. fst k = b \<and> snd k < cDialed (w\<lparr>cPool := (cPool w)(a \<mapsto> p)\<rparr>) \<and> k \<notin> H'" by simp
next
  show "\<forall>k\<in>H'. snd k < cDialed (w\<lparr>cPool := (cPool w)(a \<mapsto> p)\<rparr>)" using assms(1,4) by (auto simp: pools_ok_def)
qed

lemma pools_ok_dial: "pools_ok w H \<Longrightarrow> pools_ok (w\<lparr>cDialed := Suc (cDialed w)\<rparr>) H"
  by (fastforce simp: pools_ok_def)

lemma pools_ok_calls [simp]: "pools_ok (w\<lparr>cCalls := ks\<rparr>) H = pools_ok w H"
  by (simp add: pools_ok_def)

lemma pool_or_empty:
  assumes "pools_ok w H" and "p = (case cPool w a of Some p \<Rightarrow> p | None \<Rightarrow> [])"
  shows "distinct p" and "\<And>k. k \<in> set p \<Longrightarrow> fst k = a \<and> snd k < cDialed w \<and> k \<notin> H"
  using assms by (auto simp: pools_ok_def split: option.splits)

lemma getClient_ok:
  assumes "pools_ok w H" and "getClient R a w = (w', x)"
  shows "case x of Inl e \<Rightarrow> pools_ok w' H | Inr k \<Rightarrow> fst k = a \<and> k \<notin> H \<and> pools_ok w' (insert k H)"
    and "cCalls w' = cCalls w" and "cServiceName w' = cServiceName w"
proof -
  define p where "p = (case cPool w a of Some p \<Rightarrow> p | None \<Rightarrow> [])"
  note P = pool_or_empty [OF assms(1) p_def]
  define w1 where "w1 = w\<lparr>cPool := (cPool w)(a \<mapsto> p)\<rparr>"
  have w1: "pools_ok w1 H" unfolding w1_def using P by (intro pools_ok_upd [OF assms(1)]) auto
  show "cCalls w' = cCalls w" "cServiceName w' = cServiceName w"
    using assms(2) by (auto simp: getClient_def Let_def split: option.splits if_splits)
  consider (pick) i where "i < length p" "w' = w1\<lparr>cPool := (cPool w1)(a \<mapsto> remove_nth i p)\<rparr>" "x = Inr (p ! i)"
    | (fail) e where "w' = w1\<lparr>cDialed := Suc (cDialed w1)\<rparr>" "x = Inl e"
    | (dial) "w' = w1\<lparr>cDialed := Suc (cDialed w1)\<rparr>" "x = Inr (a, cDialed w1)"
    using assms(2) unfolding getClient_def Let_def p_def [symmetric] w1_def [symmetric]
    by (auto split: option.splits if_splits)
  then show "case x of Inl e \<Rightarrow> pools_ok w' H | Inr k \<Rightarrow> fst k = a \<and> k \<notin> H \<and> pools_ok w' (insert k H)"
  proof cases
    case pick
    have k: "p ! i \<in> set p" using pick(1) by simp
    have "pools_ok w' (insert (p ! i) H)"
      unfolding pick(2) using P(2) k set_remove_nth [OF P(1) pick(1)]
      by (intro pools_ok_upd [OF w1]) (auto simp: w1_def)
    then show ?thesis using P(2) [OF k] pick(3) by simp
  next
    case fail
    then show ?thesis using pools_ok_dial [OF w1] by simp
  next
    case dial
    have "(a, cDialed w1) \<notin> H" "\<And>b q. cPool w1 b = Some q \<Longrightarrow> (a, cDialed w1) \<notin> set q"
      using w1 pools_okD(3) [OF w1, of _ _ "(a, cDialed w1)"] by (auto simp: pools_ok_def)
    then have "pools_ok w' (insert (a, cDialed w1) H)"
      using pools_ok_dial [OF w1] unfolding dial(1) pools_ok_def by auto
    then show ?thesis using \<open>(a, cDialed w1) \<notin> H\<close> dial(2) by simp
  qed
qed

lemma putClient_ok:
  assumes "pools_ok w H" and "k \<in> H" and "fst k = a"
  shows "pools_ok (putClient a k w) (H - {k})"
proof (cases "cPool w a")
  case None
  then show ?thesis using assms(1) by (auto simp: putClient_def pools_ok_def)
next
  case (Some p)
  note P = pools_okD [OF assms(1) Some]
  have "snd k < cDialed w" using assms(1,2) by (auto simp: pools_ok_def)
  moreover have "k \<notin> set p" using P(4) assms(2) by blast
  ultimately show ?thesis
    using P assms(2,3) by (auto simp: putClient_def Some intro!: pools_ok_upd [OF assms(1)])
qed

lemma putClient_simps [simp]:
  "cCalls (putClient a k w) = cCalls w" "cServiceName (putClient a k w) = cServiceName w"
  by (auto simp: putClient_def split: option.splits)

text \<open>A call: nothing is called when the dial fails, and otherwise one connection to the address, which is free again.\<close>

lemma clients_call_ok:
  assumes "pools_ok w H" and "clients_call R a h q w = (w', x)"
  shows "pools_ok w' H" and "cServiceName w' = cServiceName w"
    and "(\<exists>e. x = Inl e) \<and> cCalls w' = cCalls w
      \<or> (\<exists>k. fst k = a \<and> cCalls w' = cCalls w @ [k] \<and> x = rpCall R (length (cCalls w)) k h q)"
proof -
  obtain w1 y where g: "getClient R a w = (w1, y)" by fastforce
  note G = getClient_ok [OF assms(1) g]
  have "pools_ok w' H \<and> cServiceName w' = cServiceName w \<and>
    ((\<exists>e. x = Inl e) \<and> cCalls w' = cCalls w
      \<or> (\<exists>k. fst k = a \<and> cCalls w' = cCalls w @ [k] \<and> x = rpCall R (length (cCalls w)) k h q))"
  proof (cases y)
    case (Inl e)
    then show ?thesis using assms(2) G by (auto simp: clients_call_def g)
  next
    case (Inr k)
    then have k: "fst k = a" "k \<notin> H" "pools_ok w1 (insert k H)" using G(1) by simp_all
    have "pools_ok (putClient a k (w1\<lparr>cCalls := cCalls w1 @ [k]\<rparr>)) (insert k H - {k})"
      by (rule putClient_ok) (use k in simp_all)
    moreover have "insert k H - {k} = H" using k(2) by simp
    moreover have "w' = putClient a k (w1\<lparr>cCalls := cCalls w1 @ [k]\<rparr>)" "x = rpCall R (length (cCalls w)) k h q"
      using assms(2) G(2) Inr by (simp_all add: clients_call_def g Let_def)
    moreover have "cCalls (putClient a k (w1\<lparr>cCalls := cCalls w1 @ [k]\<rparr>)) = cCalls w @ [k]" using G(2) by simp
    ultimately show ?thesis using G(3) k(1) by (intro conjI disjI2 exI [of _ k]) simp_all
  qed
  then show "pools_ok w' H" and "cServiceName w' = cServiceName w"
    and "(\<exists>e. x = Inl e) \<and> cCalls w' = cCalls w
      \<or> (\<exists>k. fst k = a \<and> cCalls w' = cCalls w @ [k] \<and> x = rpCall R (length (cCalls w)) k h q)"
    by blast+
qed

lemma pools_ok_fewer: "pools_ok w (insert k H) \<Longrightarrow> pools_ok w H"
  by (auto simp: pools_ok_def)

lemma multicast_one_unary: "multicast_one R False a q w = clients_call R a None q w"
  by (auto simp: multicast_one_def clients_call_def Let_def split: prod.splits sum.splits)

lemma multicast_one_ok:
  assumes "pools_ok w H" and "multicast_one R streaming a q w = (w', x)"
  shows "pools_ok w' H" and "cServiceName w' = cServiceName w"
    and "(\<exists>e. x = Inl e) \<and> cCalls w' = cCalls w
      \<or> (\<exists>k. fst k = a \<and> cCalls w' = cCalls w @ [k] \<and> x = rpCall R (length (cCalls w)) k None q)"
proof -
  have "pools_ok w' H \<and> cServiceName w' = cServiceName w \<and>
    ((\<exists>e. x = Inl e) \<and> cCalls w' = cCalls w
      \<or> (\<exists>k. fst k = a \<and> cCalls w' = cCalls w @ [k] \<and> x = rpCall R (length (cCalls w)) k None q))"
  proof (cases "snd (getClient R a w)")
    case (Inl e)
    then have "multicast_one R streaming a q w = clients_call R a None q w"
      by (cases "getClient R a w") (simp add: multicast_one_def clients_call_def)
    then show ?thesis using clients_call_ok [OF assms(1), of R a None q w' x] assms(2) by simp
  next
    case (Inr k)
    then obtain w1 where g: "getClient R a w = (w1, Inr k)" by (metis prod.collapse)
    note G = getClient_ok [OF assms(1) g]
    show ?thesis
    proof (cases "streaming \<and> (\<exists>out. rpCall R (length (cCalls w1)) k None q = Inr out)")
      case True
      then have "w' = w1\<lparr>cCalls := cCalls w1 @ [k]\<rparr>" "x = rpCall R (length (cCalls w1)) k None q"
        using assms(2) by (auto simp: multicast_one_def g)
      moreover have "fst k = a" "pools_ok w1 (insert k H)" using G(1) by simp_all
      ultimately show ?thesis using pools_ok_fewer G(2,3) by (intro conjI disjI2 exI [of _ k]) simp_all
    next
      case False
      then have "multicast_one R streaming a q w = clients_call R a None q w"
        by (cases "rpCall R (length (cCalls w1)) k None q") (simp_all add: multicast_one_def clients_call_def g)
      then show ?thesis using clients_call_ok [OF assms(1), of R a None q w' x] assms(2) by simp
    qed
  qed
  then show "pools_ok w' H" and "cServiceName w' = cServiceName w"
    and "(\<exists>e. x = Inl e) \<and> cCalls w' = cCalls w
      \<or> (\<exists>k. fst k = a \<and> cCalls w' = cCalls w @ [k] \<and> x = rpCall R (length (cCalls w)) k None q)"
    by blast+
qed

text \<open>The connections of the streams of a multicast never go back.\<close>

lemma streaming_multicast_keeps_connections:
  "cPool w a = None \<Longrightarrow> rpPick R [] = None \<Longrightarrow> rpDial R (cDialed w) a = None
    \<Longrightarrow> rpCall R (length (cCalls w)) (a, cDialed w) None q = Inr x
    \<Longrightarrow> cPool (fst (multicast_one R True a q w)) a = Some []"
  by (simp add: multicast_one_def getClient_def)

section \<open>Lemmas: calls\<close>

text \<open>What the loop adds to a result: each peer is called, in order, and goes to one of the two sides.\<close>

definition loop_adds ::
  "('q, 'r, 'e) rpc \<Rightarrow> bool \<Rightarrow> 'q \<Rightarrow> peer list \<Rightarrow> 'e list \<Rightarrow> peer list \<Rightarrow> 'r list \<Rightarrow> peer list \<Rightarrow> connection list \<Rightarrow> bool" where
  "loop_adds R resolver q ps es eps rs sps ks \<longleftrightarrow>
     length es = length eps \<and> subseq eps ps \<and> subseq sps ps \<and> mset (sps @ eps) = mset ps
     \<and> subseq (map fst ks) (map (facade_address resolver) ps)
     \<and> list_all2 (\<lambda>p x. \<exists>n k. k \<in> set ks \<and> fst k = facade_address resolver p \<and> rpCall R n k None q = Inr x) sps rs"

lemma loop_adds_error:
  assumes "loop_adds R resolver q ps es eps rs sps ks"
    and "k' = [] \<or> (\<exists>k. k' = [k] \<and> fst k = facade_address resolver p)"
  shows "loop_adds R resolver q (p # ps) (e # es) (p # eps) rs sps (k' @ ks)"
proof -
  have "list_all2 (\<lambda>p x. \<exists>n k. k \<in> set (k' @ ks) \<and> fst k = facade_address resolver p \<and> rpCall R n k None q = Inr x) sps rs"
    using assms(1) unfolding loop_adds_def by (auto elim!: list_all2_mono)
  then show ?thesis using assms by (auto simp: loop_adds_def)
qed

lemma loop_adds_answer:
  assumes "loop_adds R resolver q ps es eps rs sps ks"
    and "fst k = facade_address resolver p" and "rpCall R n k None q = Inr x"
  shows "loop_adds R resolver q (p # ps) es eps (x # rs) (p # sps) ([k] @ ks)"
proof -
  have "list_all2 (\<lambda>p x. \<exists>n k'. k' \<in> set ([k] @ ks) \<and> fst k' = facade_address resolver p \<and> rpCall R n k' None q = Inr x) sps rs"
    using assms(1) unfolding loop_adds_def by (auto elim!: list_all2_mono)
  moreover have "\<exists>n k'. k' \<in> set ([k] @ ks) \<and> fst k' = facade_address resolver p \<and> rpCall R n k' None q = Inr x"
    using assms(2,3) by (intro exI [of _ n] exI [of _ k]) simp
  ultimately show ?thesis using assms(1,2) by (auto simp: loop_adds_def)
qed

lemma multicast_loop_adds:
  assumes "pools_ok w H" and "multicast_loop R streaming resolver q (map Some ps) w r = (w', y)"
  shows "pools_ok w' H \<and> (\<exists>es eps rs sps ks. loop_adds R resolver q ps es eps rs sps ks
    \<and> cCalls w' = cCalls w @ ks
    \<and> y = Some (r\<lparr>mrErrors := mrErrors r @ es, mrErrorPeers := mrErrorPeers r @ eps,
        mrResponses := mrResponses r @ rs, mrSuccessPeers := mrSuccessPeers r @ sps\<rparr>))"
  using assms
proof (induction ps arbitrary: w r)
  case Nil
  then show ?case by (auto simp: loop_adds_def)
next
  case (Cons p ps)
  obtain w1 x where c: "multicast_one R streaming (facade_address resolver p) q w = (w1, x)" by fastforce
  note C = multicast_one_ok [OF Cons.prems(1) c]
  show ?case
  proof (cases x)
    case (Inl e)
    define r1 where "r1 = r\<lparr>mrErrors := mrErrors r @ [e], mrErrorPeers := mrErrorPeers r @ [p]\<rparr>"
    have "multicast_loop R streaming resolver q (map Some ps) w1 r1 = (w', y)" using Cons.prems(2) c Inl by (simp add: r1_def)
    from Cons.IH [OF C(1) this] obtain es eps rs sps ks where ih: "pools_ok w' H"
      "loop_adds R resolver q ps es eps rs sps ks" "cCalls w' = cCalls w1 @ ks"
      "y = Some (r1\<lparr>mrErrors := mrErrors r1 @ es, mrErrorPeers := mrErrorPeers r1 @ eps,
        mrResponses := mrResponses r1 @ rs, mrSuccessPeers := mrSuccessPeers r1 @ sps\<rparr>)" by blast
    obtain k' where k': "k' = [] \<or> (\<exists>k. k' = [k] \<and> fst k = facade_address resolver p)" "cCalls w1 = cCalls w @ k'"
      using C(3) by (metis append_Nil2)
    show ?thesis
      using ih loop_adds_error [OF ih(2) k'(1), of e] k'(2)
      by (intro conjI exI [of _ "e # es"] exI [of _ "p # eps"] exI [of _ rs] exI [of _ sps] exI [of _ "k' @ ks"])
        (simp_all add: r1_def)
  next
    case (Inr out)
    define r1 where "r1 = r\<lparr>mrResponses := mrResponses r @ [out], mrSuccessPeers := mrSuccessPeers r @ [p]\<rparr>"
    have "multicast_loop R streaming resolver q (map Some ps) w1 r1 = (w', y)" using Cons.prems(2) c Inr by (simp add: r1_def)
    from Cons.IH [OF C(1) this] obtain es eps rs sps ks where ih: "pools_ok w' H"
      "loop_adds R resolver q ps es eps rs sps ks" "cCalls w' = cCalls w1 @ ks"
      "y = Some (r1\<lparr>mrErrors := mrErrors r1 @ es, mrErrorPeers := mrErrorPeers r1 @ eps,
        mrResponses := mrResponses r1 @ rs, mrSuccessPeers := mrSuccessPeers r1 @ sps\<rparr>)" by blast
    obtain k where k: "fst k = facade_address resolver p" "cCalls w1 = cCalls w @ [k]"
      "rpCall R (length (cCalls w)) k None q = Inr out"
      using C(3) Inr by auto
    show ?thesis
      using ih loop_adds_answer [OF ih(2) k(1,3)] k(2)
      by (intro conjI exI [of _ es] exI [of _ eps] exI [of _ "out # rs"] exI [of _ "p # sps"] exI [of _ "[k] @ ks"])
        (simp_all add: r1_def)
  qed
qed

section \<open>The lookup of services as an interface\<close>

text \<open>What a multicast asks for.\<close>

lemma multicast_options_max:
  "woCatalog (where_options (multicast_options c))"
  "0 < mCount c \<Longrightarrow> woMaxCount (where_options (multicast_options c)) = mCount c"
  by (simp_all add: multicast_options_def where_options_def)

text \<open>
  What a multicast asks of whoever finds the services: a positive count bounds what it finds. The client's
  lemma is that the count then bounds the calls.
\<close>

locale service_lookup =
  fixes lookup :: "string \<Rightarrow> where_option list \<Rightarrow> ('e, peer option list) outcome"
  assumes bounded: "lookup n opt = Return ps \<Longrightarrow> woCatalog (where_options opt) \<Longrightarrow> 0 < woMaxCount (where_options opt)
    \<Longrightarrow> int (length ps) \<le> woMaxCount (where_options opt)"
begin

lemma multicast_found_bounded:
  assumes "lookup (multicast_name c) (multicast_options c) = Return ps" and "0 < mCount c"
  shows "int (length ps) \<le> mCount c"
  using bounded [OF assms(1)] assms(2) by (simp add: multicast_options_max)

end

lemma length_service_peers: "0 < n \<Longrightarrow> int (length (service_peers f n kvs)) \<le> n"
proof (induction f n kvs rule: service_peers.induct)
  case (2 f n k fn kvs)
  then show ?case by (cases "f fn") (auto split: if_splits)
qed simp

lemma length_WhereIsService:
  "woCatalog (where_options opt) \<Longrightarrow> 0 < woMaxCount (where_options opt)
    \<Longrightarrow> int (length (WhereIsService order s n opt)) \<le> woMaxCount (where_options opt)"
  by (auto simp: WhereIsService_def Let_def where_loop_eq)

text \<open>Both the table of a registry and the queries of a registry client meet it, and so does the facade of any node.\<close>

interpretation registry_lookup: service_lookup "\<lambda>n opt. Return (WhereIsService order s n opt)"
  by unfold_locales (auto dest: length_WhereIsService)

interpretation client_lookup:
  service_lookup "\<lambda>n opt. bind_outcome (client_WhereIsService own c n opt) (\<lambda>ps. Return (map Some ps))"
  by unfold_locales
    (auto simp: bind_outcome_Return_iff client_WhereIsService_def Let_def length_service_peers split: option.splits if_splits)

interpretation node_lookup: service_lookup "facade_WhereIsServiceName nd"
proof unfold_locales
  fix n opt ps
  assume l: "facade_WhereIsServiceName nd n opt = Return ps"
    and w: "woCatalog (where_options opt)" "0 < woMaxCount (where_options opt)"
  show "int (length ps) \<le> woMaxCount (where_options opt)"
  proof (cases "ndRegistry nd")
    case None
    then obtain c where "bind_outcome (client_WhereIsService (ndOwn nd) c n opt) (\<lambda>ps. Return (map Some ps)) = Return ps"
      using l by (auto simp: facade_WhereIsServiceName_def split: option.splits)
    then show ?thesis using client_lookup.bounded w by blast
  next
    case (Some r)
    then show ?thesis
      using l w registry_lookup.bounded by (cases r) (fastforce simp: facade_WhereIsServiceName_def)
  qed
qed

section \<open>Goroutines and the pools\<close>

text \<open>
  Goroutines share the clients: one takes a connection with \<open>getClient\<close>, makes its call, and puts the
  connection back. What it holds is the address it asked for and the connection.
\<close>

record pool_state =
  psClients :: clients
  psHolds :: "nat \<rightharpoonup> string \<times> connection"

inductive pool_step :: "pool_state \<Rightarrow> pool_state \<Rightarrow> bool" where
  Acquire: "psHolds s t = None \<Longrightarrow> getClient (R :: (unit, unit, unit) rpc) a (psClients s) = (w, Inr k)
     \<Longrightarrow> pool_step s (s\<lparr>psClients := w, psHolds := (psHolds s)(t \<mapsto> (a, k))\<rparr>)"
| Refused: "psHolds s t = None \<Longrightarrow> getClient (R :: (unit, unit, unit) rpc) a (psClients s) = (w, Inl e)
     \<Longrightarrow> pool_step s (s\<lparr>psClients := w\<rparr>)"
| Called: "psHolds s t = Some (a, k)
     \<Longrightarrow> pool_step s (s\<lparr>psClients := (psClients s)\<lparr>cCalls := cCalls (psClients s) @ [k]\<rparr>\<rparr>)"
| Release: "psHolds s t = Some (a, k)
     \<Longrightarrow> pool_step s (s\<lparr>psClients := putClient a k (psClients s), psHolds := (psHolds s)(t := None)\<rparr>)"

definition pool_init :: "pool_state \<Rightarrow> bool" where
  "pool_init s \<longleftrightarrow> (\<exists>n. s = \<lparr>psClients = NewClients n, psHolds = Map.empty\<rparr>)"

definition held :: "pool_state \<Rightarrow> connection set" where
  "held s = snd ` ran (psHolds s)"

definition pool_inv :: "pool_state \<Rightarrow> bool" where
  "pool_inv s \<longleftrightarrow> pools_ok (psClients s) (held s)
     \<and> (\<forall>t a k. psHolds s t = Some (a, k) \<longrightarrow> fst k = a)
     \<and> (\<forall>t t' a a' k. psHolds s t = Some (a, k) \<longrightarrow> psHolds s t' = Some (a', k) \<longrightarrow> t = t')"

lemma held_iff: "k \<in> held s \<longleftrightarrow> (\<exists>t a. psHolds s t = Some (a, k))"
  by (force simp: held_def ran_def)

lemma pool_inv_init: "pool_init s \<Longrightarrow> pool_inv s"
  by (auto simp: pool_init_def pool_inv_def held_def pools_ok_new)

lemma pool_inv_step: "pool_step s s' \<Longrightarrow> pool_inv s \<Longrightarrow> pool_inv s'"
proof (induction rule: pool_step.induct)
  case (Acquire s t R a w k)
  have I: "pools_ok (psClients s) (held s)" using Acquire.prems by (simp add: pool_inv_def)
  have G: "fst k = a" "k \<notin> held s" "pools_ok w (insert k (held s))"
    using getClient_ok(1) [OF I Acquire.hyps(2)] by simp_all
  have "held (s\<lparr>psClients := w, psHolds := (psHolds s)(t \<mapsto> (a, k))\<rparr>) = insert k (held s)"
    using Acquire.hyps(1) by (auto simp: held_def ran_def image_iff) (metis option.distinct(1) option.inject snd_conv)+
  moreover have "\<And>t a. psHolds s t \<noteq> Some (a, k)" using G(2) by (auto simp: held_iff)
  ultimately show ?case using Acquire.prems G unfolding pool_inv_def by auto
next
  case (Refused s t R a w e)
  have I: "pools_ok (psClients s) (held s)" using Refused.prems by (simp add: pool_inv_def)
  have "held (s\<lparr>psClients := w\<rparr>) = held s" by (simp add: held_def)
  then show ?case using getClient_ok(1) [OF I Refused.hyps(2)] Refused.prems by (simp add: pool_inv_def)
next
  case (Called s t a k)
  have "held (s\<lparr>psClients := (psClients s)\<lparr>cCalls := cCalls (psClients s) @ [k]\<rparr>\<rparr>) = held s" by (simp add: held_def)
  then show ?case using Called.prems by (simp add: pool_inv_def)
next
  case (Release s t a k)
  have I: "pools_ok (psClients s) (held s)" and k: "k \<in> held s" "fst k = a"
    using Release unfolding pool_inv_def held_iff by blast+
  have "held (s\<lparr>psClients := putClient a k (psClients s), psHolds := (psHolds s)(t := None)\<rparr>) = held s - {k}"
  proof (intro set_eqI iffI)
    fix x assume "x \<in> held (s\<lparr>psClients := putClient a k (psClients s), psHolds := (psHolds s)(t := None)\<rparr>)"
    then obtain t' a' where x: "t' \<noteq> t" "psHolds s t' = Some (a', x)" by (auto simp: held_iff split: if_splits)
    then have "x \<noteq> k" using Release unfolding pool_inv_def by blast
    then show "x \<in> held s - {k}" using x by (auto simp: held_iff)
  next
    fix x assume "x \<in> held s - {k}"
    then obtain t' a' where x: "psHolds s t' = Some (a', x)" "x \<noteq> k" by (auto simp: held_iff)
    then have "t' \<noteq> t" using Release.hyps by auto
    then show "x \<in> held (s\<lparr>psClients := putClient a k (psClients s), psHolds := (psHolds s)(t := None)\<rparr>)"
      using x by (auto simp: held_iff)
  qed
  then show ?case using putClient_ok [OF I k] Release.prems unfolding pool_inv_def by auto
qed

interpretation pools: step_relation pool_init pool_step pool_inv
  by unfold_locales (auto intro: pool_inv_init pool_inv_step)

text \<open>A multicast that is not local, as one fact.\<close>

lemma multicast_call_adds:
  assumes "pools_ok w H" and "\<not> mLocal c"
    and "fcWhereIsServiceName F (multicast_name c) (multicast_options c) = Return (map Some ps)"
    and "multicast_call R F streaming c q w = (w', out)"
  shows "\<exists>r ks. out = Return r \<and> pools_ok w' H \<and> cCalls w' = cCalls w @ ks
    \<and> subseq (map fst ks) (map (facade_address (fcResolver F)) ps)
    \<and> mrPeerCount r = length ps \<and> length ps = SuccessCount r + ErrorCount r
    \<and> mset (mrSuccessPeers r @ mrErrorPeers r) = mset ps
    \<and> subseq (mrSuccessPeers r) ps \<and> subseq (mrErrorPeers r) ps \<and> length (mrErrors r) = ErrorCount r
    \<and> list_all2 (\<lambda>p x. \<exists>n k. k \<in> set ks \<and> fst k = facade_address (fcResolver F) p \<and> rpCall R n k None q = Inr x)
        (mrSuccessPeers r) (mrResponses r)"
proof -
  obtain w1 y where l: "multicast_loop R streaming (fcResolver F) q (map Some ps) w (empty_result (length ps)) = (w1, y)" by fastforce
  obtain es eps rs sps ks where A: "pools_ok w1 H" "loop_adds R (fcResolver F) q ps es eps rs sps ks"
    "cCalls w1 = cCalls w @ ks"
    "y = Some \<lparr>mrErrors = es, mrPeerCount = length ps, mrSuccessPeers = sps, mrErrorPeers = eps, mrResponses = rs\<rparr>"
    using multicast_loop_adds [OF assms(1) l] by (auto simp: empty_result_def)
  have "w' = w1 \<and> out = Return \<lparr>mrErrors = es, mrPeerCount = length ps, mrSuccessPeers = sps, mrErrorPeers = eps, mrResponses = rs\<rparr>"
    using assms(2-4) l A(4) by (simp add: multicast_call_def)
  moreover have "length ps = length sps + length eps"
    using A(2) unfolding loop_adds_def by (metis length_append size_mset)
  ultimately show ?thesis
    using A(1-3) by (intro exI [of _ "\<lparr>mrErrors = es, mrPeerCount = length ps, mrSuccessPeers = sps,
      mrErrorPeers = eps, mrResponses = rs\<rparr>"] exI [of _ ks]) (simp add: SuccessCount_def ErrorCount_def loop_adds_def)
qed


lemma multicast_call_facts:
  assumes "pools_ok w H" and "\<not> mLocal c"
    and "fcWhereIsServiceName F (multicast_name c) (multicast_options c) = Return (map Some ps)"
    and "multicast_call R F streaming c q w = (w', Return r)"
  shows "\<exists>ks. cCalls w' = cCalls w @ ks \<and> mrPeerCount r = length ps \<and> length ks \<le> length ps"
  using multicast_call_adds [OF assms] list_emb_length by fastforce

section \<open>Properties\<close>

text \<open>
  C8. Goroutines never share a connection. Whatever connections the goroutines take and put back, in any
  order and with any failures of dials and calls, two goroutines hold different connections, a held
  connection lies in no pool, and it was dialled to the address the goroutine asked for.
\<close>

theorem connections_exclusive:
  assumes "pool_step\<^sup>*\<^sup>* \<lparr>psClients = NewClients n, psHolds = Map.empty\<rparr> s" and "psHolds s t = Some (a, k)"
  shows "fst k = a \<and> (\<forall>t' a'. t' \<noteq> t \<longrightarrow> psHolds s t' \<noteq> Some (a', k))
    \<and> (\<forall>b p. cPool (psClients s) b = Some p \<longrightarrow> k \<notin> set p)"
proof -
  have "pool_inv s" using pools.reachable_inv [OF _ assms(1)] by (auto simp: pool_init_def)
  moreover from this assms(2) have "k \<in> held s" by (auto simp: held_iff)
  ultimately show ?thesis using assms(2) unfolding pool_inv_def pools_ok_def by blast
qed

definition demo_rpc :: "(unit, unit, unit) rpc" where
  "demo_rpc = \<lparr>rpDial = (\<lambda>n a. None), rpPick = (\<lambda>p. if p = [] then None else Some 0), rpCall = (\<lambda>n k h q. Inr ())\<rparr>"

lemma connections_exclusive_witness:
  "\<exists>s. pool_step\<^sup>*\<^sup>* \<lparr>psClients = NewClients ''hall'', psHolds = Map.empty\<rparr> s
     \<and> psHolds s 1 = Some (''h:1'', (''h:1'', 0)) \<and> psHolds s 2 \<noteq> Some (''h:1'', (''h:1'', 0))"
proof -
  let ?s = "\<lparr>psClients = NewClients ''hall'', psHolds = Map.empty\<rparr>"
  define w where "w = fst (getClient demo_rpc ''h:1'' (NewClients ''hall''))"
  let ?t = "?s\<lparr>psClients := w, psHolds := (psHolds ?s)(1 \<mapsto> (''h:1'', (''h:1'', 0)))\<rparr>"
  have "getClient demo_rpc ''h:1'' (NewClients ''hall'') = (w, Inr (''h:1'', 0))"
    by (simp add: w_def getClient_def demo_rpc_def NewClients_def)
  then have "pool_step ?s ?t"
    by (intro pool_step.Acquire [where R = demo_rpc]) simp_all
  then have r: "pool_step\<^sup>*\<^sup>* ?s ?t"
    by (rule r_into_rtranclp)
  have h: "psHolds ?t 1 = Some (''h:1'', (''h:1'', 0))" by simp
  from connections_exclusive [OF r h] have "psHolds ?t 2 \<noteq> Some (''h:1'', (''h:1'', 0))" by simp
  with r h show ?thesis by blast
qed


definition demo_peer :: "string \<Rightarrow> peer" where
  "demo_peer a = \<lparr>pName = ''hall'', pId = 1, pFullName = ''hall_z_e_1'', pAddress = a, pUrl = [], pMetadata = Map.empty\<rparr>"

definition demo_facade :: "(unit, unit, unit) facade" where
  "demo_facade = \<lparr>fcResolver = False, fcWhereIsPeer = (\<lambda>n. Return (demo_peer ''h:1'')), fcWhereIsUser = (\<lambda>u. Return (Some (demo_peer ''h:2''))),
     fcWhereIsServiceName = (\<lambda>n opt. Return [Some (demo_peer ''h:1''), Some (demo_peer ''h:2'')]), fcWhereIsServer = (\<lambda>n. None)\<rparr>"


text \<open>
  C34. A unicast makes at most one call, on a connection to the address its conditions choose. When no
  address is found nothing is called and nothing changes; otherwise either the dial fails and nothing is
  called, or one call is made to that address, with the metadata of the conditions, and its result is the result.
\<close>

theorem unicast_goes_to_target:
  assumes "pools_ok w H" and "\<not> uLocal c" and "unicast_call R F streaming c q w = (w', out)"
  shows "pools_ok w' H \<and>
    (case unicast_address F c of
       Panic \<Rightarrow> w' = w \<and> out = Panic
     | Error e \<Rightarrow> w' = w \<and> out = Error e
     | Return a \<Rightarrow>
         a = [] \<and> w' = w \<and> out = Error NoPeerFound
         \<or> (\<exists>e. out = Error (CallError e)) \<and> cCalls w' = cCalls w
         \<or> (\<exists>k. fst k = a \<and> a \<noteq> [] \<and> cCalls w' = cCalls w @ [k]
              \<and> out = (case rpCall R (length (cCalls w)) k (outgoing (uHeaders c)) q of
                        Inl e \<Rightarrow> Error (CallError e) | Inr x \<Rightarrow> Return x)))"
proof (cases "unicast_address F c")
  case (Return a)
  show ?thesis
  proof (cases "a = []")
    case True
    then show ?thesis using assms Return by (simp add: unicast_call_def)
  next
    case False
    obtain w1 x where k: "clients_call R a (outgoing (uHeaders c)) q w = (w1, x)" by fastforce
    have "w' = w1" "out = (case x of Inl e \<Rightarrow> Error (CallError e) | Inr y \<Rightarrow> Return y)"
      using assms(2,3) Return False k by (auto simp: unicast_call_def split: sum.splits)
    then show ?thesis using clients_call_ok [OF assms(1) k] Return False by auto
  qed
qed (use assms in \<open>simp_all add: unicast_call_def\<close>)

lemma unicast_goes_to_target_witness:
  "\<exists>w' out. unicast_call demo_rpc demo_facade False (unicast_with (WhereUser ''u'') Unicast) () (NewClients ''hall'') = (w', out)
     \<and> length (cCalls w') \<le> 1"
proof -
  obtain w' out where c: "unicast_call demo_rpc demo_facade False (unicast_with (WhereUser ''u'') Unicast) () (NewClients ''hall'') = (w', out)"
    by fastforce
  have l: "\<not> uLocal (unicast_with (WhereUser ''u'') Unicast)" by (simp add: Unicast_def)
  have a: "unicast_address demo_facade (unicast_with (WhereUser ''u'') Unicast) = Return ''h:2''"
    by (simp add: unicast_address_def Unicast_def demo_facade_def facade_address_def demo_peer_def)
  have "cCalls (NewClients ''hall'') = []" by (simp add: NewClients_def)
  then have "length (cCalls w') \<le> 1"
    using unicast_goes_to_target [OF pools_ok_new l c] unfolding a outcome.case by auto
  then show ?thesis using c by blast
qed

text \<open>
  C33. A positive count bounds a multicast, whoever answers the lookup. On a node with a registry or
  with a registry client only, a multicast of count \<open>n > 0\<close> that finds no nil peer makes at most \<open>n\<close> calls and
  reports at most \<open>n\<close> peers.
\<close>

theorem multicast_count_bounds:
  assumes "pools_ok w H" and "\<not> mLocal c" and "0 < mCount c"
    and "multicast_call R (node_facade cfg servers nd) streaming c q w = (w', Return r)"
  shows "int (mrPeerCount r) \<le> mCount c \<and> int (length (cCalls w')) \<le> int (length (cCalls w)) + mCount c"
proof -
  obtain peers where f: "facade_WhereIsServiceName nd (multicast_name c) (multicast_options c) = Return peers"
    using assms(2,4) by (auto simp: multicast_call_def node_facade_def split: outcome.splits)
  have n: "None \<notin> set peers"
  proof
    assume "None \<in> set peers"
    then have none: "\<exists>w1. multicast_loop R streaming b q peers w s = (w1, None)" for b w s
      by (induction R streaming b q peers w s rule: multicast_loop.induct) (auto split: prod.splits sum.splits)
    show False using none [of "IsEnableResolver cfg" w "empty_result (length peers)"] assms(2,4) f
      by (auto simp: multicast_call_def node_facade_def)
  qed
  then obtain ps where ps: "peers = map Some ps" by (metis ex_map_conv not_None_eq)
  have "fcWhereIsServiceName (node_facade cfg servers nd) (multicast_name c) (multicast_options c) = Return (map Some ps)"
    using f ps by (simp add: node_facade_def)
  from multicast_call_facts [OF assms(1,2) this assms(4)]
  obtain ks where "cCalls w' = cCalls w @ ks" "mrPeerCount r = length ps" "length ks \<le> length ps" by blast
  moreover have "int (length ps) \<le> mCount c"
    using node_lookup.multicast_found_bounded [OF f assms(3)] ps by simp
  ultimately show ?thesis by simp
qed

definition demo_node_rpc :: "(unit, unit, facade_error) rpc" where
  "demo_node_rpc = \<lparr>rpDial = (\<lambda>n a. None), rpPick = (\<lambda>p. None), rpCall = (\<lambda>n k h q. Inr ())\<rparr>"

text \<open>A node with a registry client only; two halls are registered, and both names begin with that of the first.\<close>

definition demo_etcd :: etcd_client where
  "demo_etcd = two_nodes_client\<lparr>ecRange := (\<lambda>p. if prefix client_service_prefix p
     then Some [(''/service/hall/1'', ''hall_z_e_1''), (''/service/hall/10'', ''hall_z_e_10'')]
     else ecRange two_nodes_client p)\<rparr>"

definition demo_node :: node where
  "demo_node = \<lparr>ndRegistry = None, ndClient = Some demo_etcd, ndOwn = ''cli_z_e_1'', ndSelf = None,
     ndUserKey = (\<lambda>u. None), ndOrder = id\<rparr>"

lemma demo_multicast:
  "case multicast_call demo_node_rpc (node_facade None None demo_node) False (Multicast 1 (NewClients ''hall'')) ()
     (NewClients ''hall'') of (w, Return r) \<Rightarrow> cCalls w = [(''h:10'', 0)] | _ \<Rightarrow> False"
  by code_simp

lemma multicast_count_bounds_witness:
  "\<exists>w' r. multicast_call demo_node_rpc (node_facade None None demo_node) False (Multicast 1 (NewClients ''hall'')) ()
       (NewClients ''hall'') = (w', Return r)
     \<and> cCalls w' = [(''h:10'', 0)] \<and> mrPeerCount r \<le> 1"
proof -
  obtain w' r where c: "multicast_call demo_node_rpc (node_facade None None demo_node) False (Multicast 1 (NewClients ''hall'')) ()
      (NewClients ''hall'') = (w', Return r)" and k: "cCalls w' = [(''h:10'', 0)]"
    using demo_multicast by (auto split: prod.splits outcome.splits)
  have m: "\<not> mLocal (Multicast 1 (NewClients ''hall''))" "0 < mCount (Multicast 1 (NewClients ''hall''))"
    "mCount (Multicast 1 (NewClients ''hall'')) = 1"
    by (simp_all add: Multicast_def)
  have "int (mrPeerCount r) \<le> 1" using multicast_count_bounds [OF pools_ok_new m(1,2) c] m(3) by simp
  then show ?thesis using c k by simp
qed

section \<open>What the conditions and the local forms do\<close>

text \<open>
  The last address given wins over every other condition, and a condition on a user alone puts the user into
  the metadata of the call.
\<close>

definition unicast_where_all :: "unicast_where list \<Rightarrow> unicast" where
  "unicast_where_all cs = foldl (\<lambda>c x. unicast_with x c) Unicast cs"

lemma uAddress_kept:
  "\<forall>a. WhereAddress a \<notin> set cs \<Longrightarrow> uAddress (foldl (\<lambda>c x. unicast_with x c) c cs) = uAddress c"
proof (induction cs arbitrary: c)
  case (Cons x cs)
  then show ?case by (cases x) auto
qed simp

lemma address_wins:
  assumes "\<forall>b. WhereAddress b \<notin> set after" and "a \<noteq> []"
  shows "unicast_address F (unicast_where_all (before @ WhereAddress a # after)) = Return a"
  using assms by (simp add: unicast_address_def unicast_where_all_def uAddress_kept)

lemma user_in_metadata:
  "outgoing (uHeaders (unicast_where_all [WhereUser u])) = Some [(GRPC_PATH_KEY, [u])]"
  by (simp add: outgoing_def unicast_where_all_def Unicast_def)

text \<open>
  A local broadcast hands its server a deadline that has passed; a local multicast that is answered counts no
  peer. A node with a registry client only finds peers without a url, so with the resolver on it
  reaches none by name.
\<close>

lemma local_broadcast_no_time:
  assumes "fcWhereIsServer F (cServiceName w) = Some (Some svr)"
  shows "multicast_call R F False (multicast_with MulticastLocal (Broadcast w)) q w =
    (w, bind_outcome (map_error CallError (svr 0 None q)) (\<lambda>resp. Return ((empty_result 0)\<lparr>mrResponses := [resp]\<rparr>)))"
  using assms by (simp add: multicast_call_def Broadcast_def outgoing_def)

lemma local_multicast_counts_nobody:
  assumes "mLocal c" and "multicast_call R F streaming c q w = (w', Return r)"
  shows "mrPeerCount r = 0 \<and> SuccessCount r = 0 \<and> length (mrResponses r) = 1"
  using assms
  by (auto simp: multicast_call_def empty_result_def SuccessCount_def bind_outcome_Return_iff split: option.splits if_splits)

lemma get_attr_pUrl: "pUrl (fold get_attr kvs p) = pUrl p"
  by (induction kvs arbitrary: p) auto

lemma resolver_needs_registry:
  assumes "ndRegistry nd = None" and "ndClient nd = Some e" and "fcResolver F" and "fcWhereIsPeer F = facade_WhereIsPeer nd"
    and "\<not> uLocal c" and "uAddress c = []" and "uPeerFullName c \<noteq> []"
  shows "\<exists>x. unicast_call R F streaming c q w = (w, Error x)"
  using assms
  by (auto simp: unicast_call_def unicast_address_def facade_WhereIsPeer_def client_WhereIsPeer_def facade_address_def
    GetPeer_def get_attr_pUrl split: option.splits prod.splits)

end
