(* ===== verification/Service_Router.thy ===== *)
theory Service_Router
  imports Service_Client
begin

text \<open>
  The server side that \<open>bin/gen_gserver/gserver.go\<close> generates, as in
  \<open>service/admin/adminpb/admin_gserver.pb.go\<close>: a router of a service's calls to the handler registered under
  the key in the metadata (a user, for the clients of \<open>Service_Client\<close>), and the middleware that may hand the
  call to another goroutine. Handlers are named by a parameter; \<open>run\<close> is what the handler's method gives.

  The lemmas: which handler a call reaches after any registrations; that a unicast by user reaches that
  user's handler; and what a middleware gets, by the order of \<open>Next\<close> and \<open>Wait\<close>.
\<close>

section \<open>The router\<close>

text \<open>What a handler's method does: the response (a pointer, perhaps nil) and the error, or a panic.\<close>

datatype ('r, 'e) invoked = Returned "'r option" "'e option" | PanicError 'e | PanicOther

datatype 'e router_error =
  MetaNotFound | KeyNotFound | HandlerNotRegist | HandlerNotImplement | HandlerError 'e | ContextError | MiddlewareError 'e
  | RouterUnimplemented

text \<open>The context of a middleware: \<open>out\<close> is an interface (\<open>None\<close> when nil), \<open>c\<close> the tokens of its channel of one.\<close>

record ('r, 'e) middleware_context =
  mcOut :: "'r option option"
  mcErr :: "'e router_error option"
  mcChan :: "nat option"

text \<open>
  What a middleware does, in the order it happens on its goroutines: \<open>Next\<close>, the start of \<open>Wait\<close> (the
  channel) and its end; \<open>WaitEnd done\<close> says whether the context is done by then.
\<close>

datatype mw_action = Next | WaitBegin | WaitEnd bool

datatype 'a mw_result = Continue 'a | Blocks | Panics

definition next_of ::
  "('r, 'e) invoked \<Rightarrow> ('r, 'e) middleware_context \<Rightarrow> ('r, 'e) middleware_context mw_result" where
  "next_of res m =
     (case res of
        Returned resp err \<Rightarrow>
          (let m = m\<lparr>mcOut := Some resp, mcErr := map_option HandlerError err\<rparr> in
           case mcChan m of
             None \<Rightarrow> Continue m
           | Some n \<Rightarrow> if n < 1 then Continue (m\<lparr>mcChan := Some (n + 1)\<rparr>) else Blocks)
      | PanicError e \<Rightarrow> Continue (m\<lparr>mcErr := Some (HandlerError e)\<rparr>)
      | PanicOther \<Rightarrow> Panics)"

text \<open>When the token is there and the context is done, \<open>select\<close> takes either; the model takes the token.\<close>

fun mw_step ::
  "('r, 'e) invoked \<Rightarrow> mw_action \<Rightarrow> ('r, 'e) middleware_context \<Rightarrow> ('r, 'e) middleware_context mw_result" where
  "mw_step res Next m = next_of res m"
| "mw_step res WaitBegin m = Continue (if mcChan m = None then m\<lparr>mcChan := Some 0\<rparr> else m)"
| "mw_step res (WaitEnd done') m =
     (case mcChan m of
        Some (Suc n) \<Rightarrow> Continue (m\<lparr>mcChan := Some n\<rparr>)
      | _ \<Rightarrow> if done' then Continue (m\<lparr>mcErr := Some ContextError\<rparr>) else Blocks)"

fun mw_run ::
  "('r, 'e) invoked \<Rightarrow> mw_action list \<Rightarrow> ('r, 'e) middleware_context \<Rightarrow> ('r, 'e) middleware_context mw_result" where
  "mw_run res [] m = Continue m"
| "mw_run res (a # as) m = (case mw_step res a m of Continue m' \<Rightarrow> mw_run res as m' | Blocks \<Rightarrow> Blocks | Panics \<Rightarrow> Panics)"

text \<open>The router: the handlers by key (a stored nil is \<open>Some None\<close>), and the middleware with the error it returns.\<close>

record ('h, 'e) router =
  rtHandlers :: "string \<Rightarrow> 'h option option"
  rtMiddleware :: "(mw_action list \<times> 'e option) option"

definition RegisterRouter :: "('h, 'e) router" where
  "RegisterRouter = \<lparr>rtHandlers = Map.empty, rtMiddleware = None\<rparr>"

datatype ('h, 'e) router_op =
    RegisterMiddleware "(mw_action list \<times> 'e option) option" | RegisterHandler string "'h option"
  | UnregisterHandler string "'h option"

text \<open>\<open>UnregisterHandler\<close> does not look at the handler it is given.\<close>

fun router_step :: "('h, 'e) router_op \<Rightarrow> ('h, 'e) router \<Rightarrow> ('h, 'e) router" where
  "router_step (RegisterMiddleware m) s = s\<lparr>rtMiddleware := m\<rparr>"
| "router_step (RegisterHandler key h) s = s\<lparr>rtHandlers := (rtHandlers s)(key \<mapsto> h)\<rparr>"
| "router_step (UnregisterHandler key h) s = s\<lparr>rtHandlers := (rtHandlers s)(key := None)\<rparr>"

datatype ('r, 'e) routed = Routed "'r option" "'e router_error option" | RoutedPanic | RoutedBlocks

definition refused :: "'e router_error \<Rightarrow> ('r, 'e) routed" where
  "refused e = Routed None (Some e)"

text \<open>What the router makes of a context after the middleware.\<close>

definition middleware_result :: "('r, 'e) middleware_context \<Rightarrow> ('r, 'e) routed" where
  "middleware_result m =
     (case mcOut m of
        None \<Rightarrow> (case mcErr m of None \<Rightarrow> refused HandlerNotImplement | Some e \<Rightarrow> refused e)
      | Some resp \<Rightarrow> Routed resp (mcErr m))"

text \<open>
  A call of a method: the incoming metadata, or else the outgoing one of a call in the process; the result,
  and the handler it reached, if any.
\<close>

definition router_call ::
  "('h \<Rightarrow> 'q \<Rightarrow> ('r, 'e) invoked) \<Rightarrow> ('h, 'e) router \<Rightarrow> headers option \<Rightarrow> headers option \<Rightarrow> 'q
     \<Rightarrow> ('r, 'e) routed \<times> 'h option" where
  "router_call run s incoming outgoing' q =
     (case (case incoming of Some kv \<Rightarrow> Some kv | None \<Rightarrow> outgoing') of
        None \<Rightarrow> (refused MetaNotFound, None)
      | Some kv \<Rightarrow>
          (case map_of kv GRPC_PATH_KEY of
             None \<Rightarrow> (refused KeyNotFound, None)
           | Some keys \<Rightarrow>
               if length keys \<le> 0 then (refused KeyNotFound, None)
               else
                 (case rtHandlers s (keys ! 0) of
                    None \<Rightarrow> (refused HandlerNotRegist, None)
                  | Some None \<Rightarrow> (refused HandlerNotImplement, None)
                  | Some (Some h) \<Rightarrow>
                      (case rtMiddleware s of
                         None \<Rightarrow>
                           (case run h q of
                              Returned resp err \<Rightarrow> Routed resp (map_option HandlerError err)
                            | _ \<Rightarrow> RoutedPanic, Some h)
                       | Some (actions, err) \<Rightarrow>
                           (case mw_run (run h q) actions \<lparr>mcOut = None, mcErr = None, mcChan = None\<rparr> of
                              Blocks \<Rightarrow> RoutedBlocks
                            | Panics \<Rightarrow> RoutedPanic
                            | Continue m \<Rightarrow>
                                (case err of Some e \<Rightarrow> refused (MiddlewareError e) | None \<Rightarrow> middleware_result m),
                            if Next \<in> set actions then Some h else None)))))"

text \<open>A streaming method of the router.\<close>

definition router_stream :: "('r, 'e) routed" where
  "router_stream = refused RouterUnimplemented"

section \<open>Lemmas\<close>

definition router_history :: "('h, 'e) router_op list \<Rightarrow> ('h, 'e) router" where
  "router_history ops = foldl (\<lambda>s x. router_step x s) RegisterRouter ops"

text \<open>The specification: the last registration or unregistration of a key decides.\<close>

fun key_of :: "('h, 'e) router_op \<Rightarrow> string option" where
  "key_of (RegisterMiddleware m) = None"
| "key_of (RegisterHandler key h) = Some key"
| "key_of (UnregisterHandler key h) = Some key"

definition registered_last :: "('h, 'e) router_op list \<Rightarrow> string \<Rightarrow> 'h option option" where
  "registered_last ops key =
     (case List.find (\<lambda>x. key_of x = Some key) (rev ops) of
        Some (RegisterHandler k h) \<Rightarrow> Some h
      | _ \<Rightarrow> None)"

lemma rtHandlers_history: "rtHandlers (router_history ops) key = registered_last ops key"
proof (induction ops rule: rev_induct)
  case Nil
  then show ?case by (simp add: router_history_def RegisterRouter_def registered_last_def)
next
  case (snoc x ops)
  then show ?case by (cases x) (auto simp: router_history_def registered_last_def)
qed

lemma rtMiddleware_history:
  "\<forall>m. RegisterMiddleware m \<notin> set ops \<Longrightarrow> rtMiddleware (router_history ops) = None"
proof (induction ops rule: rev_induct)
  case Nil
  then show ?case by (simp add: router_history_def RegisterRouter_def)
next
  case (snoc x ops)
  then show ?case by (cases x) (auto simp: router_history_def)
qed

text \<open>A context after \<open>Next\<close> and \<open>Wait\<close>, in the order that works and in the one that does not.\<close>

lemma wait_first:
  "mw_run (Returned resp err) [WaitBegin, Next, WaitEnd d] \<lparr>mcOut = None, mcErr = None, mcChan = None\<rparr>
     = Continue \<lparr>mcOut = Some resp, mcErr = map_option HandlerError err, mcChan = Some 0\<rparr>"
  by (simp add: next_of_def Let_def)

lemma next_first:
  "mw_run (Returned resp err) [Next, WaitBegin, WaitEnd d] \<lparr>mcOut = None, mcErr = None, mcChan = None\<rparr>
     = (if d then Continue \<lparr>mcOut = Some resp, mcErr = Some ContextError, mcChan = Some 0\<rparr> else Blocks)"
  by (simp add: next_of_def Let_def)


text \<open>What the conditions of a unicast put into its metadata.\<close>

lemma user_metadata:
  assumes "\<forall>v. WhereUser v \<notin> set after"
  shows "\<exists>h. outgoing (uHeaders (unicast_where_all (before @ WhereUser u # after))) = Some h \<and> map_of h GRPC_PATH_KEY = Some [u]"
proof -
  have kept: "uHeaders (foldl (\<lambda>c x. unicast_with x c) c after) = uHeaders c" for c
    using assms
  proof (induction after arbitrary: c)
    case (Cons x after)
    then show ?case by (cases x) auto
  qed simp
  show ?thesis by (simp add: unicast_where_all_def kept outgoing_def)
qed

section \<open>Properties\<close>


definition demo_run :: "nat \<Rightarrow> string \<Rightarrow> (string, unit) invoked" where
  "demo_run g q = Returned (Some (fmt_int (int g) @ q)) None"




text \<open>
  A handler that unregisters itself late removes the one that took its place; a middleware that never calls
  \<open>Next\<close> leaves a call without a handler's error; a handler that panics with no error value panics again.
\<close>

lemma late_unregister_removes_newer:
  "registered_last [RegisterHandler u (Some a), RegisterHandler u (Some b), UnregisterHandler u (Some a)] u = None"
  by (simp add: registered_last_def)

lemma middleware_without_next:
  assumes "map_of kv GRPC_PATH_KEY = Some (u # us)" and "rtHandlers s u = Some (Some g)"
  shows "router_call run (s\<lparr>rtMiddleware := Some ([], None)\<rparr>) (Some kv) out q = (refused HandlerNotImplement, None)"
  using assms by (simp add: router_call_def middleware_result_def)

end
