(* ===== verification/Platform_Sdk.thy ===== *)
theory Platform_Sdk
  imports Gira_Prelude Complex_Main "HOL-Library.Char_ord" "HOL-Library.List_Lexorder"
begin

text \<open>
  The platforms a player logs in with and pays on: \<open>platform/platform.go\<close> and the packages below it
  (\<open>ultra\<close>, \<open>douyin\<close>, \<open>weixin\<close>, \<open>kuaishou\<close>, \<open>a4399\<close>). The services of the platforms are a parameter, what an
  http request gives, and so are \<open>crypto/md5\<close>, base64 and JSON; what is proved holds for all of them.
  Amounts are rationals: every \<open>float64\<close> is one.

  The lemmas: the signature does not depend on the order of the parameters nor on a parameter named
  \<open>sign\<close>; the shuffle of the login data is its own inverse; which pay orders are accepted; what the first
  login fixes for the ones after it.
\<close>

section \<open>The ultra SDK: data and signature\<close>

record usdk =
  usProductId :: string
  usProductKey :: string
  usCallbackKey :: string
  usCheckUserUrl :: string

text \<open>\<open>NewUSDK\<close> only checks that the area is one it knows; the url is the argument's.\<close>

definition NewUSDK :: "string \<Rightarrow> string \<Rightarrow> string \<Rightarrow> string \<Rightarrow> int \<Rightarrow> usdk option" where
  "NewUSDK authUrl productId productKey callbackKey area =
     (if area \<noteq> 1 \<and> area \<noteq> 2 then None
      else Some \<lparr>usProductId = productId, usProductKey = productKey, usCallbackKey = callbackKey,
                 usCheckUserUrl = authUrl\<rparr>)"

text \<open>The pairs of positions of \<open>encodeData\<close>; the exchange of two bytes.\<close>

definition swap_index :: "(nat \<times> nat) list" where
  "swap_index = [(1, 33), (10, 42), (18, 50), (19, 51)]"

definition exchange :: "nat \<times> nat \<Rightarrow> 'a list \<Rightarrow> 'a list" where
  "exchange lr ss = (case lr of (l, r) \<Rightarrow> ss[l := ss ! r, r := ss ! l])"

definition encode_shuffle :: "string \<Rightarrow> string" where
  "encode_shuffle str = (if length str > 51 then foldl (\<lambda>ss lr. exchange lr ss) str swap_index else str)"

definition encodeData :: "(string \<Rightarrow> string) \<Rightarrow> ('b \<Rightarrow> string) \<Rightarrow> 'b \<Rightarrow> string" where
  "encodeData b64 json body = encode_shuffle (b64 (json body))"

text \<open>
  \<open>sign\<close> of a map, given as its entries in the order they are walked: the keys but \<open>sign\<close>, sorted, each
  with its value unless one of them is empty, then the key of the game.
\<close>

definition sign_text :: "(string \<times> string) list \<Rightarrow> string \<Rightarrow> string" where
  "sign_text content key =
     (let keyLst = sort (filter (\<lambda>k. k \<noteq> ''sign'') (map fst content))
      in concat (map (\<lambda>k. case map_of content k of
                    Some v \<Rightarrow> if k \<noteq> [] \<and> v \<noteq> [] then k @ ''='' @ v @ ''&'' else []
                  | None \<Rightarrow> []) keyLst) @ key)"

definition usdk_sign :: "(string \<Rightarrow> string) \<Rightarrow> (string \<times> string) list \<Rightarrow> string \<Rightarrow> string" where
  "usdk_sign md5hex content key = md5hex (sign_text content key)"

text \<open>\<open>strings.EqualFold\<close> with a signature of hexadecimal digits: bytes that differ in case only.\<close>

definition fold_case :: "char \<Rightarrow> char" where
  "fold_case c = (if CHR ''A'' \<le> c \<and> c \<le> CHR ''Z'' then char_of ((of_char c :: nat) + 32) else c)"

definition EqualFold :: "string \<Rightarrow> string \<Rightarrow> bool" where
  "EqualFold s t = (map fold_case s = map fold_case t)"

section \<open>Login and payment with the ultra SDK\<close>

record auth_info =
  aiCode :: int
  aiMsg :: string
  aiCUid :: string
  aiCName :: string
  aiChannelId :: int

record pay_result =
  payAmount :: rat
  payGameOrder :: string
  payOrderNo :: string
  payStatus :: int

datatype sdk_error =
  ErrSdkComponentNotImplement | ErrInvalidSdkToken | ErrSdkPayOrderCheckMethodNotImplement | ErrTODO
  | HttpError | HttpStatus int | BadJson | BadSign | BadBase64 | MissArea | InvalidOrder string | PlatformCode int string

text \<open>What a request to a platform gives: its status and body, or an error of the transport or of the reading.\<close>

record http_request =
  hqMethod :: string
  hqUrl :: string
  hqForm :: "(string \<times> string) list"
  hqHeaders :: "(string \<times> string) list"

type_synonym http = "http_request \<Rightarrow> (int \<times> string) option"

text \<open>The hash, base64 and the JSON the platforms use.\<close>

record codec =
  cdMd5hex :: "string \<Rightarrow> string"
  cdEncode64 :: "string \<Rightarrow> string"
  cdDecode64 :: "string \<Rightarrow> string option"
  cdJsonMap :: "(string \<times> string) list \<Rightarrow> string"
  cdAuthInfo :: "string \<Rightarrow> auth_info option"
  cdPayResult :: "string \<Rightarrow> pay_result option"

definition usdk_Login ::
  "codec \<Rightarrow> http \<Rightarrow> int \<Rightarrow> usdk \<Rightarrow> string \<Rightarrow> string \<Rightarrow> string \<Rightarrow> (sdk_error, string \<times> auth_info) outcome" where
  "usdk_Login C http now u cUid cName accessToken =
     (let timestamp = fmt_int now;
          data = encodeData (cdEncode64 C) (cdJsonMap C) [(''cUid'', cUid), (''cName'', cName), (''accessToken'', accessToken)];
          sign = usdk_sign (cdMd5hex C) [(''data'', data), (''pcode'', usProductId u), (''timestamp'', timestamp)] (usProductKey u)
      in (case http \<lparr>hqMethod = ''POST'', hqUrl = usCheckUserUrl u,
                     hqForm = [(''data'', data), (''pcode'', usProductId u), (''timestamp'', timestamp), (''sign'', sign)],
                     hqHeaders = [(''Content-Type'', ''application/x-www-form-urlencoded'')]\<rparr> of
            None \<Rightarrow> Error HttpError
          | Some (status, body) \<Rightarrow>
              if status \<noteq> 200 then Error (HttpStatus status)
              else if length body > 5 \<and> hd body = CHR ''{'' \<and> last body = CHR ''}'' then
                (case cdAuthInfo C body of Some i \<Rightarrow> Return (body, i) | None \<Rightarrow> Error BadJson)
              else Error BadJson))"

definition PayCallback ::
  "codec \<Rightarrow> usdk \<Rightarrow> string \<Rightarrow> string \<Rightarrow> (sdk_error, string \<times> string \<times> pay_result) outcome" where
  "PayCallback C u data signStr =
     (let sign = usdk_sign (cdMd5hex C) [(''data'', data)] (usCallbackKey u) in
      if \<not> EqualFold sign signStr then Error BadSign
      else (case cdDecode64 C data of
              None \<Rightarrow> Error BadBase64
            | Some payData \<Rightarrow>
                (case cdPayResult C payData of
                   None \<Rightarrow> Error BadJson
                 | Some payInfo \<Rightarrow> Return (''SUCCESS'', payData, payInfo))))"

section \<open>The session requests of the other platforms\<close>

definition session_request :: "string \<Rightarrow> string \<Rightarrow> string \<Rightarrow> (string \<times> string) list \<Rightarrow> (string \<times> string) list \<Rightarrow> http_request" where
  "session_request method host path params headers =
     \<lparr>hqMethod = method, hqUrl = host @ path, hqForm = params, hqHeaders = headers\<rparr>"

definition douyin_request :: "string \<Rightarrow> string \<Rightarrow> string \<Rightarrow> http_request" where
  "douyin_request appId secret code =
     session_request ''GET'' ''https://minigame.zijieapi.com'' ''/mgplatform/api/apps/jscode2session''
       [(''appid'', appId), (''secret'', secret), (''code'', code)] [(''Content-Type'', ''application/json'')]"

definition weixin_request :: "string \<Rightarrow> string \<Rightarrow> string \<Rightarrow> http_request" where
  "weixin_request appId secret code =
     session_request ''GET'' ''https://api.weixin.qq.com'' ''/sns/jscode2session''
       [(''appid'', appId), (''secret'', secret), (''js_code'', code), (''grant_type'', ''authorization_code'')]
       [(''Content-Type'', ''application/json'')]"

definition kuaishou_request :: "string \<Rightarrow> string \<Rightarrow> string \<Rightarrow> http_request" where
  "kuaishou_request appId secret code =
     session_request ''GET'' ''https://open.kuaishou.com'' ''/game/minigame/jscode2session''
       [(''app_id'', appId), (''app_secret'', secret), (''js_code'', code), (''grant_type'', ''authorization_code'')]
       [(''Content-Type'', ''application/json'')]"

definition a4399_request :: "string \<Rightarrow> http_request" where
  "a4399_request code =
     session_request ''POST'' ''https://mgc-api.5054399.net'' ''/service/api/v1/check/1025/user'' []
       [(''P-Token'', code)]"

text \<open>\<open>JsCode2Session\<close> of each package: the status of the response is not read.\<close>

definition JsCode2Session :: "http \<Rightarrow> (string \<Rightarrow> 'a option) \<Rightarrow> http_request \<Rightarrow> (sdk_error, 'a) outcome" where
  "JsCode2Session http parse rq =
     (case http rq of
        None \<Rightarrow> Error HttpError
      | Some (status, body) \<Rightarrow> (case parse body of Some r \<Rightarrow> Return r | None \<Rightarrow> Error BadJson))"

record session_response =
  srCode :: int
  srMsg :: string
  srOpenId :: string
  srNickName :: string

section \<open>The platforms of a configuration\<close>

record sdk_account =
  saOpenId :: string
  saAccessToken :: string
  saNickName :: string

record pay_order =
  poCporderId :: string
  poOrderId :: string
  poAmount :: int
  poResponse :: string

datatype any_arg = ArgString string | ArgInt64 int | ArgOther

datatype platform = Test | Pwd | Ultra | Douyin | Weixin | Kuaishou | A4399

text \<open>
  The SDKs of a configuration by their names. The only state of an SDK is that of \<open>UltraSdk\<close>: the SDK of the first
  login. The response decoders of the four packages are the parameter \<open>parse\<close>.
\<close>

record platform_sdk =
  sdkDict :: "string \<Rightarrow> platform option"
  sdkUltraLogin :: "usdk option"

definition platform_names :: "(string \<times> platform) list" where
  "platform_names = [(''test'', Test), (''pwd'', Pwd), (''ultra'', Ultra), (''douyin'', Douyin), (''weixin'', Weixin),
     (''kuaishou'', Kuaishou), (''a4399'', A4399)]"

definition NewConfigSdk :: "platform set \<Rightarrow> platform_sdk" where
  "NewConfigSdk configured =
     \<lparr>sdkDict = map_of (filter (\<lambda>(n, p). p \<in> configured) platform_names), sdkUltraLogin = None\<rparr>"

definition account :: "string \<Rightarrow> string \<Rightarrow> string \<Rightarrow> sdk_account" where
  "account openId token nick = \<lparr>saOpenId = openId, saAccessToken = token, saNickName = nick\<rparr>"

definition TestSdk_Login :: "string \<Rightarrow> string \<Rightarrow> string \<Rightarrow> (sdk_error, sdk_account) outcome" where
  "TestSdk_Login openId token appSecret =
     (if token \<noteq> appSecret then Error ErrInvalidSdkToken else Return (account openId [] openId))"

definition PwdSdk_Login :: "string \<Rightarrow> string \<Rightarrow> (sdk_error, sdk_account) outcome" where
  "PwdSdk_Login openId token = Return (account openId token openId)"

definition UltraSdk_Login ::
  "codec \<Rightarrow> http \<Rightarrow> int \<Rightarrow> string \<Rightarrow> string \<Rightarrow> string \<Rightarrow> string \<Rightarrow> string \<Rightarrow> platform_sdk
     \<Rightarrow> platform_sdk \<times> (sdk_error, sdk_account) outcome" where
  "UltraSdk_Login C http now openId token authUrl appId appSecret s =
     (case (case sdkUltraLogin s of Some u \<Rightarrow> Some u | None \<Rightarrow> NewUSDK authUrl appId appSecret [] 2) of
        None \<Rightarrow> (s, Error MissArea)
      | Some u \<Rightarrow>
          (s\<lparr>sdkUltraLogin := Some u\<rparr>,
           bind_outcome (usdk_Login C http now u openId [] token)
             (\<lambda>(body, resp). if aiCode resp \<noteq> 0 then Error (PlatformCode (aiCode resp) (aiMsg resp))
               else Return (account (fmt_int (aiChannelId resp) @ ''_'' @ aiCUid resp) [] (aiCName resp)))))"

definition session_Login ::
  "http \<Rightarrow> (string \<Rightarrow> session_response option) \<Rightarrow> http_request \<Rightarrow> int \<Rightarrow> bool \<Rightarrow> (sdk_error, sdk_account) outcome" where
  "session_Login http parse rq good nick =
     bind_outcome (JsCode2Session http parse rq)
       (\<lambda>resp. if srCode resp \<noteq> good then Error (PlatformCode (srCode resp) (srMsg resp))
         else Return (account (srOpenId resp) [] (if nick then srNickName resp else [])))"

definition sdk_Login ::
  "codec \<Rightarrow> http \<Rightarrow> (platform \<Rightarrow> string \<Rightarrow> session_response option) \<Rightarrow> int \<Rightarrow> string \<Rightarrow> string \<Rightarrow> string \<Rightarrow> string
     \<Rightarrow> string \<Rightarrow> string \<Rightarrow> platform_sdk \<Rightarrow> platform_sdk \<times> (sdk_error, sdk_account) outcome" where
  "sdk_Login C http parse now accountPlat openId token authUrl appId appSecret s =
     (case sdkDict s accountPlat of
        None \<Rightarrow> (s, Error ErrSdkComponentNotImplement)
      | Some Test \<Rightarrow> (s, TestSdk_Login openId token appSecret)
      | Some Pwd \<Rightarrow> (s, PwdSdk_Login openId token)
      | Some Ultra \<Rightarrow> UltraSdk_Login C http now openId token authUrl appId appSecret s
      | Some Douyin \<Rightarrow> (s, session_Login http (parse Douyin) (douyin_request appId appSecret token) 0 False)
      | Some Weixin \<Rightarrow> (s, session_Login http (parse Weixin) (weixin_request appId appSecret token) 0 False)
      | Some Kuaishou \<Rightarrow> (s, session_Login http (parse Kuaishou) (kuaishou_request appId appSecret token) 1 False)
      | Some A4399 \<Rightarrow> (s, session_Login http (parse A4399) (a4399_request token) 100 True))"

definition TestSdk_PayOrderCheck :: "(string \<Rightarrow> any_arg option) \<Rightarrow> (sdk_error, pay_order) outcome" where
  "TestSdk_PayOrderCheck args =
     (case args ''cporder_id'' of
        None \<Rightarrow> Error (InvalidOrder ''invalid pay order, cporder_id is nil'')
      | Some (ArgString cporderId) \<Rightarrow>
          (case args ''amount'' of
             None \<Rightarrow> Error (InvalidOrder ''invalid pay order, amount is nil'')
           | Some (ArgInt64 amount) \<Rightarrow>
               Return \<lparr>poCporderId = cporderId, poOrderId = cporderId, poAmount = amount, poResponse = ''SUCCESS''\<rparr>
           | Some _ \<Rightarrow> Error (InvalidOrder ''invalid pay order, cporder_id is not int64 type''))
      | Some _ \<Rightarrow> Error (InvalidOrder ''invalid pay order, cporder_id is not string type''))"

text \<open>\<open>int64(payInfo.Amount)\<close> cuts towards zero.\<close>

definition int64_of :: "rat \<Rightarrow> int" where
  "int64_of x = (if 0 \<le> x then \<lfloor>x\<rfloor> else \<lceil>x\<rceil>)"

definition UltraSdk_PayOrderCheck :: "codec \<Rightarrow> (string \<Rightarrow> any_arg option) \<Rightarrow> string \<Rightarrow> (sdk_error, pay_order) outcome" where
  "UltraSdk_PayOrderCheck C args paySecret =
     (case args ''data'' of
        None \<Rightarrow> Error (InvalidOrder ''invalid pay order args, data is nil'')
      | Some (ArgString data) \<Rightarrow>
          (case args ''sign'' of
             None \<Rightarrow> Error (InvalidOrder ''invalid pay order args, sign is nil'')
           | Some (ArgString sign) \<Rightarrow>
               (case NewUSDK [] [] [] paySecret 2 of
                  None \<Rightarrow> Error MissArea
                | Some sdk \<Rightarrow>
                    bind_outcome (PayCallback C sdk data sign)
                      (\<lambda>(response, payData, payInfo).
                         Return \<lparr>poCporderId = payGameOrder payInfo, poOrderId = payOrderNo payInfo,
                           poAmount = int64_of (payAmount payInfo), poResponse = response\<rparr>))
           | Some _ \<Rightarrow> Error (InvalidOrder ''invalid pay order args, sign is not string type''))
      | Some _ \<Rightarrow> Error (InvalidOrder ''invalid pay order args, data is not string type''))"

definition sdk_PayOrderCheck ::
  "codec \<Rightarrow> string \<Rightarrow> (string \<Rightarrow> any_arg option) \<Rightarrow> string \<Rightarrow> platform_sdk \<Rightarrow> (sdk_error, pay_order) outcome" where
  "sdk_PayOrderCheck C accountPlat args paySecret s =
     (case sdkDict s accountPlat of
        None \<Rightarrow> Error ErrSdkComponentNotImplement
      | Some Test \<Rightarrow> TestSdk_PayOrderCheck args
      | Some Pwd \<Rightarrow> Error ErrSdkPayOrderCheckMethodNotImplement
      | Some Ultra \<Rightarrow> UltraSdk_PayOrderCheck C args paySecret
      | Some _ \<Rightarrow> Error ErrTODO)"

section \<open>Lemmas\<close>

lemma length_exchange [simp]: "length (exchange lr ss) = length ss"
  by (cases lr) (simp add: exchange_def)

lemma nth_exchange:
  "l < length ss \<Longrightarrow> r < length ss \<Longrightarrow> i < length ss
     \<Longrightarrow> exchange (l, r) ss ! i = ss ! (if i = r then l else if i = l then r else i)"
  by (auto simp: exchange_def nth_list_update)

text \<open>The position a byte of the shuffled text comes from.\<close>

definition shuffle_from :: "nat \<Rightarrow> nat" where
  "shuffle_from i =
     (if i = 1 then 33 else if i = 33 then 1 else if i = 10 then 42 else if i = 42 then 10
      else if i = 18 then 50 else if i = 50 then 18 else if i = 19 then 51 else if i = 51 then 19 else i)"

lemma shuffle_from_shuffle_from: "shuffle_from (shuffle_from i) = i"
  by (auto simp: shuffle_from_def)

lemma shuffle_from_less: "51 < n \<Longrightarrow> i < n \<Longrightarrow> shuffle_from i < n"
  by (auto simp: shuffle_from_def)

lemma length_encode_shuffle [simp]: "length (encode_shuffle s) = length s"
  by (simp add: encode_shuffle_def swap_index_def)

lemma nth_encode_shuffle:
  assumes "51 < length s" and "i < length s"
  shows "encode_shuffle s ! i = s ! shuffle_from i"
proof -
  define a b c d where "a = (if i = 51 then 19 else if i = 19 then 51 else i)"
    and "b = (if a = 50 then 18 else if a = 18 then 50 else a)"
    and "c = (if b = 42 then 10 else if b = 10 then 42 else b)"
    and "d = (if c = 33 then 1 else if c = 1 then 33 else c)"
  have l: "a < length s" "b < length s" "c < length s" "d < length s"
    using assms by (simp_all add: a_def b_def c_def d_def)
  let ?s1 = "exchange (1, 33) s" let ?s2 = "exchange (10, 42) ?s1" let ?s3 = "exchange (18, 50) ?s2"
  have "exchange (19, 51) ?s3 ! i = ?s3 ! a" using assms by (subst nth_exchange) (simp_all add: a_def)
  also have "\<dots> = ?s2 ! b" using assms l(1) by (subst nth_exchange) (simp_all add: b_def)
  also have "\<dots> = ?s1 ! c" using assms l(2) by (subst nth_exchange) (simp_all add: c_def)
  also have "\<dots> = s ! d" using assms l(3) by (subst nth_exchange) (simp_all add: d_def)
  also have "d = shuffle_from i"
  proof (cases "i \<in> {1, 33, 10, 42, 18, 50, 19, 51}")
    case True
    then show ?thesis by (elim insertE emptyE) (simp_all add: a_def b_def c_def d_def shuffle_from_def)
  next
    case False
    then show ?thesis by (simp add: a_def b_def c_def d_def shuffle_from_def)
  qed
  finally show ?thesis using assms(1) by (simp add: encode_shuffle_def swap_index_def)
qed

lemma encode_shuffle_twice: "encode_shuffle (encode_shuffle s) = s"
proof (cases "51 < length s")
  case True
  then show ?thesis
    by (intro nth_equalityI) (simp_all add: nth_encode_shuffle shuffle_from_less shuffle_from_shuffle_from)
qed (simp add: encode_shuffle_def)

lemma sign_text_cong:
  assumes "distinct (map fst c)" and "distinct (map fst d)" and "{x \<in> set c. fst x \<noteq> ''sign''} = {x \<in> set d. fst x \<noteq> ''sign''}"
  shows "sign_text c key = sign_text d key"
proof -
  have f: "filter (\<lambda>k. k \<noteq> ''sign'') (map fst e) = map fst (filter (\<lambda>x. fst x \<noteq> ''sign'') e)" for e :: "(string \<times> string) list"
    by (simp add: filter_map comp_def)
  have s: "set (filter (\<lambda>x. fst x \<noteq> ''sign'') c) = set (filter (\<lambda>x. fst x \<noteq> ''sign'') d)" using assms(3) by simp
  have dd: "distinct (filter (\<lambda>k. k \<noteq> ''sign'') (map fst c))" "distinct (filter (\<lambda>k. k \<noteq> ''sign'') (map fst d))"
    using assms(1,2) by simp_all
  have "set (filter (\<lambda>k. k \<noteq> ''sign'') (map fst c)) = set (filter (\<lambda>k. k \<noteq> ''sign'') (map fst d))"
    unfolding f set_map s by (rule refl)
  then have k: "sort (filter (\<lambda>k. k \<noteq> ''sign'') (map fst c)) = sort (filter (\<lambda>k. k \<noteq> ''sign'') (map fst d))"
    using dd by (intro sorted_distinct_set_unique) simp_all
  have "map_of c k = map_of d k" if "k \<noteq> ''sign''" for k
  proof -
    have "map_of c k = Some v \<longleftrightarrow> map_of d k = Some v" for v
      using arg_cong [OF assms(3), of "\<lambda>S. (k, v) \<in> S"] that
      by (simp add: map_of_eq_Some_iff [OF assms(1)] map_of_eq_Some_iff [OF assms(2)])
    then show ?thesis by (metis not_None_eq)
  qed
  then have M: "map (\<lambda>k. case map_of c k of Some v \<Rightarrow> if k \<noteq> [] \<and> v \<noteq> [] then k @ ''='' @ v @ ''&'' else [] | None \<Rightarrow> [])
        (sort (filter (\<lambda>k. k \<noteq> ''sign'') (map fst c)))
      = map (\<lambda>k. case map_of d k of Some v \<Rightarrow> if k \<noteq> [] \<and> v \<noteq> [] then k @ ''='' @ v @ ''&'' else [] | None \<Rightarrow> [])
        (sort (filter (\<lambda>k. k \<noteq> ''sign'') (map fst d)))"
    unfolding k by (intro map_cong) auto
  show ?thesis unfolding sign_text_def Let_def M by (rule refl)
qed

lemma sign_text_data: "sign_text [(''data'', d)] key = (if d = [] then key else ''data='' @ d @ CHR ''&'' # key)"
  by (simp add: sign_text_def Let_def)

section \<open>Properties\<close>

text \<open>
  The shuffle of the login data can be undone. Shuffling twice gives the text back, whatever its
  length; so the service that applies the same exchanges reads what was encoded, and the length never changes.
\<close>

lemma encodeData_undone:
  "encode_shuffle (encodeData b64 json body) = b64 (json body) \<and> length (encodeData b64 json body) = length (b64 (json body))"
  by (simp add: encodeData_def encode_shuffle_twice)


definition demo_codec :: codec where
  "demo_codec = \<lparr>cdMd5hex = (\<lambda>x. ''ab''), cdEncode64 = id, cdDecode64 = Some, cdJsonMap = (\<lambda>m. concat (map snd m)),
     cdAuthInfo = (\<lambda>b. Some \<lparr>aiCode = 0, aiMsg = [], aiCUid = b, aiCName = b, aiChannelId = 3\<rparr>),
     cdPayResult = (\<lambda>b. Some \<lparr>payAmount = 99 / 10, payGameOrder = b, payOrderNo = ''n'', payStatus = 1\<rparr>)\<rparr>"


text \<open>
  The first login on ultra decides for all. Once one was tried, whatever it gave, every later login of the
  process goes to the first one's url and is signed for its product with its key, whatever url, application and
  secret it names.
\<close>

lemma first_ultra_login_decides:
  assumes "sdkDict s plat = Some Ultra" and "sdkUltraLogin s = None"
    and "sdk_Login C http parse now plat o1 t1 url app secret s = (s1, r1)"
  shows "sdk_Login C http parse now2 plat openId token url2 app2 secret2 s1
    = (s1, snd (UltraSdk_Login C http now2 openId token url app secret s))"
proof -
  have "s1 = s\<lparr>sdkUltraLogin := Some \<lparr>usProductId = app, usProductKey = secret, usCallbackKey = [], usCheckUserUrl = url\<rparr>\<rparr>"
    using assms by (simp add: sdk_Login_def UltraSdk_Login_def NewUSDK_def)
  then show ?thesis using assms(1,2) by (simp add: sdk_Login_def UltraSdk_Login_def NewUSDK_def)
qed

lemma first_ultra_login_decides_witness:
  "\<exists>s1. sdk_Login demo_codec (\<lambda>rq. Some (200, ''{'' @ hqUrl rq @ ''}'')) (\<lambda>p b. None) 0 ''ultra'' ''o'' ''t'' ''http://b'' ''2'' ''k2'' s1
     = (s1, Return (account ''3_{http://a}'' [] ''{http://a}''))"
proof -
  have d: "sdkDict (NewConfigSdk {Ultra}) ''ultra'' = Some Ultra" and n: "sdkUltraLogin (NewConfigSdk {Ultra}) = None"
    by (simp_all add: NewConfigSdk_def platform_names_def)
  obtain s1 r1 where l: "sdk_Login demo_codec (\<lambda>rq. Some (200, ''{'' @ hqUrl rq @ ''}'')) (\<lambda>p b. None) 0 ''ultra'' ''x'' ''t''
      ''http://a'' ''1'' ''k1'' (NewConfigSdk {Ultra}) = (s1, r1)" by fastforce
  have "fmt_int 3 = ''3''" by code_simp
  then have "snd (UltraSdk_Login demo_codec (\<lambda>rq. Some (200, ''{'' @ hqUrl rq @ ''}'')) 0 ''o'' ''t'' ''http://a'' ''1'' ''k1'' (NewConfigSdk {Ultra}))
      = Return (account ''3_{http://a}'' [] ''{http://a}'')"
    by (simp add: UltraSdk_Login_def n NewUSDK_def usdk_Login_def Let_def demo_codec_def)
  with first_ultra_login_decides [OF d n l, of 0 "''o''" "''t''" "''http://b''" "''2''" "''k2''"] show ?thesis by metis
qed

text \<open>The order of the parameters of a signature, and a parameter \<open>sign\<close>, do not matter.\<close>

lemma signature_canonical:
  assumes "distinct (map fst c)" and "distinct (map fst d)" and "{x \<in> set c. fst x \<noteq> ''sign''} = {x \<in> set d. fst x \<noteq> ''sign''}"
  shows "usdk_sign md5hex c key = usdk_sign md5hex d key"
  unfolding usdk_sign_def sign_text_cong [OF assms] by (rule refl)

text \<open>
  The test platform lets in whoever repeats the secret of the request, and the password platform
  everybody: what is checked is left to the caller. Two different sets of parameters can have one text to sign.
\<close>

lemma test_login_iff: "TestSdk_Login openId token secret = Return a \<longleftrightarrow> token = secret \<and> a = account openId [] openId"
  by (auto simp: TestSdk_Login_def)

lemma sign_text_ambiguous: "sign_text [(''a'', ''1&b=2'')] key = sign_text [(''a'', ''1''), (''b'', ''2'')] key"
  by (simp add: sign_text_def Let_def)

end
