(* ===== verification/Open_Api.thy ===== *)
theory Open_Api
  imports Platform_Sdk
begin

text \<open>
  The open interfaces of WeChat, Tencent cloud and Douyin: \<open>sdk/wechatapi/wechatapi.go\<close> and
  \<open>sdk/douyinapi/douyinapi.go\<close>. What a request to a service gives, JSON, base64, AES and the vendors' SDKs are
  parameters; modelled are the requests that are built, in which order the calls fail, and what becomes of a
  response.

  The lemmas: which inputs make the decryption of a phone number panic; that the kinds of an image
  response are told apart by its content type only; that the status of a message sent is not read.
\<close>

section \<open>Requests\<close>

datatype json = JString string | JBool bool

record api_request =
  aqMethod :: string
  aqUrl :: string
  aqQuery :: "(string \<times> string) list"
  aqBody :: "(string \<times> json) list"

text \<open>A response is its content type and its body; \<open>None\<close> is an error of the request or of the reading.\<close>

type_synonym api = "api_request \<Rightarrow> (string \<times> string) option"

datatype api_error = ApiRequest | ApiJson | ApiTODO | ApiBase64 | ApiCipher | ApiSdk string

definition call_json :: "api \<Rightarrow> (string \<Rightarrow> 'a option) \<Rightarrow> api_request \<Rightarrow> (api_error, 'a) outcome" where
  "call_json http parse rq =
     (case http rq of
        None \<Rightarrow> Error ApiRequest
      | Some (contentType, body) \<Rightarrow> (case parse body of Some r \<Rightarrow> Return r | None \<Rightarrow> Error ApiJson))"

text \<open>An image comes back as it is, JSON is decoded; every other content type is an error.\<close>

record code_response =
  crErrCode :: int
  crErrMsg :: string
  crBuffer :: string
  crContentType :: string

definition call_image ::
  "api \<Rightarrow> string \<Rightarrow> (string \<Rightarrow> (int \<times> string) option) \<Rightarrow> api_request \<Rightarrow> (api_error, code_response) outcome" where
  "call_image http kind parse rq =
     (case http rq of
        None \<Rightarrow> Error ApiRequest
      | Some (contentType, body) \<Rightarrow>
          (let resp = \<lparr>crErrCode = 0, crErrMsg = [], crBuffer = [], crContentType = contentType\<rparr> in
           if prefix kind contentType then Return (resp\<lparr>crBuffer := body\<rparr>)
           else if prefix ''application/json'' contentType then
             (case parse body of
                Some (c, msg) \<Rightarrow> Return (resp\<lparr>crErrCode := c, crErrMsg := msg\<rparr>)
              | None \<Rightarrow> Error ApiJson)
           else Error ApiTODO))"

definition wx_host :: string where "wx_host = ''https://api.weixin.qq.com''"
definition dy_host :: string where "dy_host = ''https://developer.toutiao.com''"

definition wx_JsCode2Session :: "api \<Rightarrow> (string \<Rightarrow> 'a option) \<Rightarrow> string \<Rightarrow> string \<Rightarrow> string \<Rightarrow> string \<Rightarrow> (api_error, 'a) outcome" where
  "wx_JsCode2Session http parse appId secret jsCode grantType =
     call_json http parse \<lparr>aqMethod = ''GET'', aqUrl = wx_host @ ''/sns/jscode2session'',
       aqQuery = [(''appid'', appId), (''secret'', secret), (''js_code'', jsCode), (''grant_type'', grantType)], aqBody = []\<rparr>"

definition wx_GetPhoneNumber :: "api \<Rightarrow> (string \<Rightarrow> 'a option) \<Rightarrow> string \<Rightarrow> string \<Rightarrow> (api_error, 'a) outcome" where
  "wx_GetPhoneNumber http parse accessToken code =
     call_json http parse \<lparr>aqMethod = ''POST'', aqUrl = wx_host @ ''/wxa/business/getuserphonenumber'',
       aqQuery = [(''access_token'', accessToken)], aqBody = [(''code'', JString code)]\<rparr>"

definition wx_GetAccessToken :: "api \<Rightarrow> (string \<Rightarrow> 'a option) \<Rightarrow> string \<Rightarrow> string \<Rightarrow> string \<Rightarrow> (api_error, 'a) outcome" where
  "wx_GetAccessToken http parse appId secret grantType =
     call_json http parse \<lparr>aqMethod = ''GET'', aqUrl = wx_host @ ''/cgi-bin/token'',
       aqQuery = [(''appid'', appId), (''secret'', secret), (''grant_type'', grantType)], aqBody = []\<rparr>"

definition wx_GetWxaCodeUnLimit ::
  "api \<Rightarrow> (string \<Rightarrow> (int \<times> string) option) \<Rightarrow> string \<Rightarrow> string \<Rightarrow> string \<Rightarrow> string \<Rightarrow> (api_error, code_response) outcome" where
  "wx_GetWxaCodeUnLimit http parse accessToken scene page envVersion =
     call_image http ''image/jpeg'' parse \<lparr>aqMethod = ''POST'', aqUrl = wx_host @ ''/wxa/getwxacodeunlimit'',
       aqQuery = [(''access_token'', accessToken)],
       aqBody = [(''scene'', JString scene), (''page'', JString page), (''env_version'', JString envVersion),
         (''check_path'', JBool False)]\<rparr>"

definition dy_JsCode2Session :: "api \<Rightarrow> (string \<Rightarrow> 'a option) \<Rightarrow> string \<Rightarrow> string \<Rightarrow> string \<Rightarrow> string \<Rightarrow> (api_error, 'a) outcome" where
  "dy_JsCode2Session http parse appId secret code anonymousCode =
     call_json http parse \<lparr>aqMethod = ''POST'', aqUrl = dy_host @ ''/api/apps/v2/jscode2session'', aqQuery = [],
       aqBody = [(''appid'', JString appId), (''secret'', JString secret), (''code'', JString code),
         (''anonymous_code'', JString anonymousCode)]\<rparr>"

definition dy_GetAccessToken :: "api \<Rightarrow> (string \<Rightarrow> 'a option) \<Rightarrow> string \<Rightarrow> string \<Rightarrow> string \<Rightarrow> (api_error, 'a) outcome" where
  "dy_GetAccessToken http parse appId secret grantType =
     call_json http parse \<lparr>aqMethod = ''POST'', aqUrl = dy_host @ ''/api/apps/v2/token'', aqQuery = [],
       aqBody = [(''appid'', JString appId), (''secret'', JString secret), (''grant_type'', JString grantType)]\<rparr>"

definition dy_CreateQRCode ::
  "api \<Rightarrow> (string \<Rightarrow> (int \<times> string) option) \<Rightarrow> string \<Rightarrow> string \<Rightarrow> string \<Rightarrow> bool \<Rightarrow> bool \<Rightarrow> (api_error, code_response) outcome" where
  "dy_CreateQRCode http parse accessToken appName path setIcon isCircleCode =
     call_image http ''image/png'' parse \<lparr>aqMethod = ''POST'', aqUrl = dy_host @ ''/api/apps/qrcode'', aqQuery = [],
       aqBody = [(''access_token'', JString accessToken), (''app_name'', JString appName), (''path'', JString path),
         (''set_icon'', JBool setIcon), (''is_circle_code'', JBool isCircleCode)]\<rparr>"

section \<open>The phone number of a Douyin user\<close>

text \<open>
  \<open>aes\<close> is the CBC decryption with a key and an initial vector. A vector of another length and a text that is
  not whole blocks panic in \<open>crypto/cipher\<close>; then the last byte says how much padding to cut.
\<close>

definition dy_GetPhoneNumber ::
  "(string \<Rightarrow> bytes option) \<Rightarrow> (bytes \<Rightarrow> bytes \<Rightarrow> bytes \<Rightarrow> bytes) \<Rightarrow> (bytes \<Rightarrow> 'a option)
     \<Rightarrow> string \<Rightarrow> string \<Rightarrow> string \<Rightarrow> (api_error, 'a) outcome" where
  "dy_GetPhoneNumber b64 aes parse sessionKey encryptedData iv =
     (case b64 encryptedData of
        None \<Rightarrow> Error ApiBase64
      | Some src \<Rightarrow>
          (case b64 sessionKey of
             None \<Rightarrow> Error ApiBase64
           | Some key \<Rightarrow>
               (case b64 iv of
                  None \<Rightarrow> Error ApiBase64
                | Some v \<Rightarrow>
                    if length key \<noteq> 16 \<and> length key \<noteq> 24 \<and> length key \<noteq> 32 then Error ApiCipher
                    else if length v \<noteq> 16 then Panic
                    else if length src mod 16 \<noteq> 0 then Panic
                    else
                      (let dst = aes key v src; l = length dst in
                       if l = 0 then Panic
                       else if unat (dst ! (l - 1)) > l then Panic
                       else
                         (case parse (take (l - unat (dst ! (l - 1))) dst) of
                            Some r \<Rightarrow> Return r
                          | None \<Rightarrow> Error ApiJson)))))"

section \<open>Tencent cloud and WeChat pay\<close>

text \<open>The policy \<open>StsGetCredential\<close> asks temporary keys for: every resource, whatever the bucket is.\<close>

record sts_policy =
  spAction :: "string list"
  spEffect :: string
  spResource :: "string list"

record sts_options =
  soDurationSeconds :: int
  soRegion :: string
  soPolicy :: sts_policy

definition sts_request :: "string \<Rightarrow> string \<Rightarrow> string \<Rightarrow> sts_options" where
  "sts_request appId bucket region =
     \<lparr>soDurationSeconds = 3600, soRegion = region,
      soPolicy = \<lparr>spAction = [''name/cos:PostObject'', ''name/cos:PutObject'', ''name/cos:InitiateMultipartUpload'',
          ''name/cos:ListMultipartUploads'', ''name/cos:ListParts'', ''name/cos:UploadPart'', ''name/cos:CompleteMultipartUpload''],
        spEffect = ''allow'', spResource = [''*'']\<rparr>\<rparr>"

record credential =
  cdSecretID :: string
  cdSecretKey :: string
  cdSessionToken :: string

definition wx_StsGetCredential ::
  "(string \<Rightarrow> string \<Rightarrow> sts_options \<Rightarrow> (api_error, credential) outcome)
     \<Rightarrow> string \<Rightarrow> string \<Rightarrow> string \<Rightarrow> string \<Rightarrow> string \<Rightarrow> (api_error, credential) outcome" where
  "wx_StsGetCredential get appId secretId secretKey bucket region =
     get secretId secretKey (sts_request appId bucket region)"

text \<open>
  \<open>SmsSend\<close>: the vendor's client answers with a status for each number, which is only logged.
\<close>

record sms_request =
  smAppId :: string
  smSignName :: string
  smTemplateId :: string
  smTemplateParams :: "string list"
  smPhoneNumbers :: "string list"

definition wx_SmsSend ::
  "(string \<Rightarrow> string \<Rightarrow> string \<Rightarrow> sms_request \<Rightarrow> (api_error, (string \<times> string) list) outcome)
     \<Rightarrow> string \<Rightarrow> string \<Rightarrow> string \<Rightarrow> string \<Rightarrow> string \<Rightarrow> string \<Rightarrow> string list \<Rightarrow> string list
     \<Rightarrow> (api_error, int \<times> string) outcome" where
  "wx_SmsSend send appId secretId secretKey region signName templateId templateParamSet phoneNumberSet =
     bind_outcome
       (send secretId secretKey region
         \<lparr>smAppId = appId, smSignName = signName, smTemplateId = templateId, smTemplateParams = templateParamSet,
          smPhoneNumbers = phoneNumberSet\<rparr>)
       (\<lambda>statuses. Return (0, []))"

text \<open>An order of WeChat pay: the key is loaded, the client made, and the order placed, in that order.
  Merchants and their certificates go by their numbers.\<close>

type_synonym merchant = string
type_synonym secret_key = string
type_synonym certificate_number = string

record prepay_request =
  pqAppid :: string
  pqMchid :: string
  pqDescription :: string
  pqOutTradeNo :: string
  pqNotifyUrl :: string
  pqTotal :: int
  pqOpenid :: string

definition wx_PayTransactionsJSAPI ::
  "(string \<Rightarrow> (api_error, 'k) outcome) \<Rightarrow> (string \<Rightarrow> string \<Rightarrow> 'k \<Rightarrow> string \<Rightarrow> (api_error, 'c) outcome)
     \<Rightarrow> ('c \<Rightarrow> prepay_request \<Rightarrow> (api_error, 'r) outcome)
     \<Rightarrow> string \<Rightarrow> merchant \<Rightarrow> secret_key \<Rightarrow> certificate_number \<Rightarrow> string \<Rightarrow> string \<Rightarrow> string \<Rightarrow> string \<Rightarrow> string \<Rightarrow> int
     \<Rightarrow> (api_error, 'r) outcome" where
  "wx_PayTransactionsJSAPI loadKey newClient prepay appId mchId mchAPIv3Key certificateSerialNumber apiclientKeyPath
     openId description cpOrderId notifyUrl amount =
     bind_outcome (loadKey apiclientKeyPath) (\<lambda>key.
     bind_outcome (newClient mchId certificateSerialNumber key mchAPIv3Key) (\<lambda>client.
       prepay client \<lparr>pqAppid = appId, pqMchid = mchId, pqDescription = description, pqOutTradeNo = cpOrderId,
         pqNotifyUrl = notifyUrl, pqTotal = amount, pqOpenid = openId\<rparr>))"

text \<open>A notification of WeChat pay: a downloader of the certificates is registered before each is verified.\<close>

definition wx_PayTransactionsJSAPINotify ::
  "(string \<Rightarrow> (api_error, 'k) outcome) \<Rightarrow> (string \<Rightarrow> string \<Rightarrow> 'k \<Rightarrow> (api_error, 'c) outcome)
     \<Rightarrow> ('c \<Rightarrow> string \<Rightarrow> string \<Rightarrow> 'w \<Rightarrow> (api_error, 'w) outcome) \<Rightarrow> ('w \<Rightarrow> string \<Rightarrow> string \<Rightarrow> 'q \<Rightarrow> (api_error, 'r) outcome)
     \<Rightarrow> merchant \<Rightarrow> secret_key \<Rightarrow> certificate_number \<Rightarrow> string \<Rightarrow> 'q \<Rightarrow> 'w \<Rightarrow> (api_error, 'r) outcome" where
  "wx_PayTransactionsJSAPINotify loadKey newClient register verify mchId mchAPIv3Key certificateSerialNumber
     apiclientKeyPath request w =
     bind_outcome (loadKey apiclientKeyPath) (\<lambda>key.
     bind_outcome (newClient mchId certificateSerialNumber key) (\<lambda>client.
     bind_outcome (register client mchId mchAPIv3Key w) (\<lambda>w'.
       verify w' mchId mchAPIv3Key request)))"

section \<open>Properties\<close>

text \<open>
  Which inputs crash the decryption of a phone number. When the three texts are base64 and the key has a
  length of AES, \<open>GetPhoneNumber\<close> panics exactly when the vector is not 16 bytes, the data is not whole blocks or is
  empty, or the last decrypted byte is more than the length of the data; an error comes back for every other failure.
\<close>

lemma phone_number_panics_iff:
  assumes "\<And>k v s. length (aes k v s) = length s"
    and "b64 encryptedData = Some src" and "b64 sessionKey = Some key" and "b64 iv = Some v"
    and "length key \<in> {16, 24, 32}"
  shows "dy_GetPhoneNumber b64 aes parse sessionKey encryptedData iv = Panic
    \<longleftrightarrow> length v \<noteq> 16 \<or> length src mod 16 \<noteq> 0 \<or> src = [] \<or> length src < unat (last (aes key v src))"
proof (cases "src = []")
  case True
  then have "aes key v src = []" using assms(1) [of key v src] by simp
  then show ?thesis using True assms by (auto simp: dy_GetPhoneNumber_def)
next
  case False
  define dst where "dst = aes key v src"
  have l: "length dst = length src" using assms(1) by (simp add: dst_def)
  then have ne: "dst \<noteq> []" using False by auto
  have last: "dst ! (length src - Suc 0) = last dst" using l ne by (metis One_nat_def last_conv_nth)
  have key: "\<not> (length key \<noteq> 16 \<and> length key \<noteq> 24 \<and> length key \<noteq> 32)" using assms(5) by auto
  have "dy_GetPhoneNumber b64 aes parse sessionKey encryptedData iv =
      (if length v \<noteq> 16 then Panic else if length src mod 16 \<noteq> 0 then Panic
       else if unat (last dst) > length src then Panic
       else (case parse (take (length src - unat (last dst)) dst) of Some r \<Rightarrow> Return r | None \<Rightarrow> Error ApiJson))"
    using False by (simp only: dy_GetPhoneNumber_def assms(2-4) option.case key if_False Let_def dst_def [symmetric] l
      length_0_conv One_nat_def last ne)
  then show ?thesis using False by (auto simp: dst_def split: option.splits)
qed

lemma phone_number_panics_iff_witness:
  "dy_GetPhoneNumber (\<lambda>s. Some (replicate 16 200)) (\<lambda>k v s. s) (\<lambda>b. Some ()) [] [] [] = Panic"
proof -
  have "length (replicate 16 (200::byte)) \<in> {16, 24, 32}" by simp
  moreover have "last (replicate 16 (200::byte)) = 200" by (simp add: last_replicate)
  ultimately show ?thesis
    by (subst phone_number_panics_iff [where src = "replicate 16 200" and key = "replicate 16 200" and v = "replicate 16 200"]) simp_all
qed

text \<open>Every message counts as sent once the service took the request; the temporary keys are for every bucket.\<close>

lemma sms_status_not_read:
  "send secretId secretKey region \<lparr>smAppId = appId, smSignName = s, smTemplateId = t, smTemplateParams = ps, smPhoneNumbers = ns\<rparr>
      = Return statuses
    \<Longrightarrow> wx_SmsSend send appId secretId secretKey region s t ps ns = Return (0, [])"
  by (simp add: wx_SmsSend_def)

lemma sts_keys_for_every_bucket: "soPolicy (sts_request a b r) = soPolicy (sts_request a' b' r)"
  by (simp add: sts_request_def)

end
