(* ===== verification/Http_Token.thy ===== *)
theory Http_Token
  imports Go_Errors Gateway_Session
begin

text \<open>
  The tokens players carry: \<open>jwt/account/jwt.go\<close>, its copy with the http middleware in \<open>gins/jwt.go\<close>, and the
  JSON responses of \<open>gins/json.go\<close>. The package \<open>jwt-go\<close> is a parameter; \<open>jwt_ok\<close> states what it documents: a
  token parses with the secret it was signed with until it expires, and with no other.

  The lemmas: which tokens the middleware lets through, and which log a player in at the gateway
  (\<open>ServeClientStream\<close> of \<open>Gateway_Session\<close>).
\<close>

section \<open>Tokens\<close>

record claims =
  clExpiresAt :: int
  clIssuer :: string
  clMemberId :: string
  clAccountPlat :: string
  clPhonePlat :: "32 word"
  clDeviceId :: string
  clChannel :: "64 word"

text \<open>
  \<open>SignedString\<close>, and \<open>ParseWithClaims\<close> at a time in seconds: the token, if there is one, whether it is valid,
  and whether an error came with it.
\<close>

record jwt_lib =
  jwtSign :: "claims \<Rightarrow> string \<Rightarrow> string option"
  jwtParse :: "int \<Rightarrow> string \<Rightarrow> string \<Rightarrow> (claims \<times> bool) option \<times> bool"

definition jwt_ok :: "jwt_lib \<Rightarrow> bool" where
  "jwt_ok J \<longleftrightarrow>
     (\<forall>c k t now. jwtSign J c k = Some t \<longrightarrow> clExpiresAt c = 0 \<or> now \<le> clExpiresAt c
        \<longrightarrow> jwtParse J now t k = (Some (c, True), False))
     \<and> (\<forall>c k t now k'. jwtSign J c k = Some t \<longrightarrow> k' \<noteq> k \<or> clExpiresAt c \<noteq> 0 \<and> clExpiresAt c < now
        \<longrightarrow> (\<exists>x. jwtParse J now t k' = (x, True) \<and> (\<forall>d. x \<noteq> Some (d, True))))"

text \<open>Times and durations in nanoseconds; \<open>Unix()\<close> gives the second.\<close>

definition new_claims :: "int \<Rightarrow> int \<Rightarrow> string \<Rightarrow> 64 word \<Rightarrow> string \<Rightarrow> 32 word \<Rightarrow> string \<Rightarrow> claims" where
  "new_claims nowTime duration memberId channel accountPlat phonePlat deviceID =
     \<lparr>clExpiresAt = (nowTime + duration) div 10 ^ 9, clIssuer = ''gira'', clMemberId = memberId,
      clAccountPlat = accountPlat, clPhonePlat = phonePlat, clDeviceId = deviceID, clChannel = channel\<rparr>"

definition GenerateJwtToken ::
  "jwt_lib \<Rightarrow> int \<Rightarrow> string \<Rightarrow> int \<Rightarrow> string \<Rightarrow> 64 word \<Rightarrow> string \<Rightarrow> 32 word \<Rightarrow> string \<Rightarrow> string option" where
  "GenerateJwtToken J nowTime secret duration memberId channel accountPlat phonePlat deviceID =
     jwtSign J (new_claims nowTime duration memberId channel accountPlat phonePlat deviceID) secret"

definition GenerateJwtRefreshToken :: "jwt_lib \<Rightarrow> int \<Rightarrow> string \<Rightarrow> int \<Rightarrow> string option" where
  "GenerateJwtRefreshToken J nowTime secret duration = jwtSign J (new_claims nowTime duration [] 0 [] 0 []) secret"

text \<open>\<open>ParseJwtToken\<close>: the claims of a valid token, else the library's error.\<close>

definition ParseJwtToken :: "jwt_lib \<Rightarrow> int \<Rightarrow> string \<Rightarrow> string \<Rightarrow> claims option \<times> bool" where
  "ParseJwtToken J now token secret =
     (case jwtParse J now token secret of
        (Some (c, True), err) \<Rightarrow> (Some c, False)
      | (_, err) \<Rightarrow> (None, err))"

section \<open>The http middleware\<close>

text \<open>
  What the middleware leaves behind: the member and the claims for the handlers, the response with its status and
  code, and whether the chain goes on.
\<close>

record gin_context =
  giMemberId :: "string option"
  giClaims :: "claims option"
  giResponse :: "(int \<times> 32 word \<times> string) option"
  giNext :: bool

definition HttpJsonResponse ::
  "(go_error option \<Rightarrow> 32 word) \<Rightarrow> (go_error option \<Rightarrow> string) \<Rightarrow> int \<Rightarrow> go_error option
     \<Rightarrow> (32 word \<Rightarrow> string \<Rightarrow> 'd \<Rightarrow> 'd) \<Rightarrow> 'd option \<Rightarrow> (32 word \<times> string) + 'd" where
  "HttpJsonResponse code msg httpCode err setters data =
     (case data of
        None \<Rightarrow> Inl (code err, msg err)
      | Some d \<Rightarrow> Inr (setters (code err) (msg err) d))"

definition CodeInvalidJwt :: "32 word" where "CodeInvalidJwt = - 20"
definition CodeJwtExpire :: "32 word" where "CodeJwtExpire = 7"

text \<open>The secret is this text, whatever the configuration says; \<open>msgs\<close> are the texts of the codes.\<close>

definition middleware_secret :: string where "middleware_secret = ''app.Config.Jwt.Secret''"

definition JWT :: "jwt_lib \<Rightarrow> (32 word \<Rightarrow> string) \<Rightarrow> int \<Rightarrow> string \<Rightarrow> (unit, gin_context) outcome" where
  "JWT J msgs now token =
     (let reject = (\<lambda>code. Return \<lparr>giMemberId = None, giClaims = None, giResponse = Some (401, code, msgs code), giNext = False\<rparr>) in
      if token = [] then reject CodeInvalidJwt
      else
        (case ParseJwtToken J now token middleware_secret of
           (_, True) \<Rightarrow> reject CodeInvalidJwt
         | (None, False) \<Rightarrow> Panic
         | (Some c, False) \<Rightarrow>
             if now > clExpiresAt c then reject CodeJwtExpire
             else if clMemberId c = [] then reject CodeInvalidJwt
             else Return \<lparr>giMemberId = Some (clMemberId c), giClaims = Some c, giResponse = None, giNext = True\<rparr>))"

section \<open>The http server\<close>

text \<open>\<open>NewConfigHttpServer\<close> and the choice of \<open>Serve\<close>: TLS needs both files. A server that was closed gives no error.\<close>

record http_config =
  hcAddr :: string
  hcReadTimeout :: int
  hcWriteTimeout :: int
  hcSsl :: bool
  hcCertFile :: string
  hcKeyFile :: string

datatype listen = ListenTLS string string string | ListenPlain string

definition http_listen :: "http_config \<Rightarrow> listen" where
  "http_listen c =
     (if hcSsl c \<and> length (hcCertFile c) > 0 \<and> length (hcKeyFile c) > 0
      then ListenTLS (hcAddr c) (hcCertFile c) (hcKeyFile c) else ListenPlain (hcAddr c))"

datatype listen_error = ErrServerClosed | ListenError

definition http_Serve :: "(listen \<Rightarrow> listen_error option) \<Rightarrow> http_config \<Rightarrow> listen_error option" where
  "http_Serve listen c = (let err = listen (http_listen c) in if err = Some ErrServerClosed then None else err)"

section \<open>Lemmas\<close>

lemma ParseJwtToken_good:
  assumes "jwt_ok J" and "jwtSign J c k = Some t" and "clExpiresAt c = 0 \<or> now \<le> clExpiresAt c"
  shows "ParseJwtToken J now t k = (Some c, False)"
  using assms by (auto simp: jwt_ok_def ParseJwtToken_def)

lemma ParseJwtToken_bad:
  assumes "jwt_ok J" and "jwtSign J c k = Some t" and "k' \<noteq> k \<or> clExpiresAt c \<noteq> 0 \<and> clExpiresAt c < now"
  shows "ParseJwtToken J now t k' = (None, True)"
proof -
  obtain x where "jwtParse J now t k' = (x, True)" "\<forall>d. x \<noteq> Some (d, True)"
    using assms unfolding jwt_ok_def by blast
  then show ?thesis by (cases x) (auto simp: ParseJwtToken_def split: bool.splits)
qed

lemma ParseJwtToken_signed:
  assumes "jwt_ok J" and "jwtSign J c k = Some t"
  shows "ParseJwtToken J now t k' =
    (if k' = k \<and> (clExpiresAt c = 0 \<or> now \<le> clExpiresAt c) then (Some c, False) else (None, True))"
  using ParseJwtToken_good [OF assms] ParseJwtToken_bad [OF assms, of k' now] by auto

text \<open>What the gateway does with a token (\<open>server.go\<close>): the member of its claims.\<close>

definition gateway_parse :: "jwt_lib \<Rightarrow> int \<Rightarrow> string \<Rightarrow> string \<Rightarrow> string option" where
  "gateway_parse J now token secret =
     (case ParseJwtToken J now token secret of (Some c, False) \<Rightarrow> Some (clMemberId c) | _ \<Rightarrow> None)"

section \<open>Properties\<close>

text \<open>
  C25. The middleware trusts one fixed text. A token of \<open>GenerateJwtToken\<close> passes it exactly when the secret it
  was signed with is the text \<open>app.Config.Jwt.Secret\<close>, it names a member and has not expired; then the handlers
  get that member. So no token signed with a configured secret passes, unless the secret is that text, and whoever
  knows the text can sign for any member. Everything else is answered with the status 401.
\<close>

theorem middleware_accepts_iff:
  assumes "jwt_ok J" and "token \<noteq> []"
    and "GenerateJwtToken J nowTime secret duration memberId channel plat phone device = Some token"
  shows "\<exists>g. JWT J msgs now token = Return g
    \<and> (giNext g \<longleftrightarrow> secret = ''app.Config.Jwt.Secret'' \<and> memberId \<noteq> [] \<and> now \<le> (nowTime + duration) div 10 ^ 9)
    \<and> giMemberId g = (if giNext g then Some memberId else None)
    \<and> (\<not> giNext g \<longrightarrow> (\<exists>code. giResponse g = Some (401, code, msgs code)))"
  using assms ParseJwtToken_signed [OF assms(1), of "new_claims nowTime duration memberId channel plat phone device" secret token now middleware_secret]
  by (auto simp: JWT_def GenerateJwtToken_def middleware_secret_def new_claims_def Let_def split: if_splits)

definition demo_claims :: claims where
  "demo_claims = new_claims 0 (10 ^ 12) ''m'' 0 [] 0 []"

definition demo_jwt :: jwt_lib where
  "demo_jwt = \<lparr>jwtSign = (\<lambda>c k. if c = demo_claims then Some (CHR ''t'' # k) else None),
     jwtParse = (\<lambda>now t k. if t = CHR ''t'' # k \<and> now \<le> 1000 then (Some (demo_claims, True), False) else (None, True))\<rparr>"

lemma demo_jwt_ok: "jwt_ok demo_jwt"
  by (auto simp: jwt_ok_def demo_jwt_def demo_claims_def new_claims_def split: if_splits)

lemma middleware_accepts_iff_witness:
  "\<exists>g. JWT demo_jwt (\<lambda>_. []) 5 (CHR ''t'' # ''s3cret'') = Return g \<and> \<not> giNext g"
proof -
  have "GenerateJwtToken demo_jwt 0 ''s3cret'' (10 ^ 12) ''m'' 0 [] 0 [] = Some (CHR ''t'' # ''s3cret'')"
    by (simp add: GenerateJwtToken_def demo_jwt_def demo_claims_def)
  from middleware_accepts_iff [OF demo_jwt_ok _ this, of "\<lambda>_. []" 5] show ?thesis by auto
qed

text \<open>
  A token logs its member in at the gateway. With the secret of the configuration, a first message that is
  a Login with a token of \<open>GenerateJwtToken\<close> is served exactly when the limit of sessions allows it, it names the
  member of the token, and the token has not expired; a token signed with another secret is served to nobody.
\<close>

lemma token_logs_in_iff:
  assumes "jwt_ok J" and "decode (gwPayload req) = Some (''Login'', dataReq)" and "login dataReq = Some (named, token)"
    and "GenerateJwtToken J nowTime signer duration memberId channel plat phone device = Some token"
    and "(nowTime + duration) div 10 ^ 9 \<noteq> 0"
  shows "ServeClientStream limit count' decode login (gateway_parse J now) secret (Some req) = StreamServed m \<longleftrightarrow>
    (limit = -1 \<or> limit \<noteq> 0 \<and> count' < limit) \<and> secret = signer \<and> named = memberId \<and> m = memberId
    \<and> now \<le> (nowTime + duration) div 10 ^ 9"
  using assms ParseJwtToken_signed [OF assms(1), of "new_claims nowTime duration memberId channel plat phone device" signer token now secret]
  by (auto simp: served_iff_valid_login GenerateJwtToken_def new_claims_def gateway_parse_def split: if_splits)

lemma token_logs_in_iff_witness:
  "ServeClientStream (-1) 0 (\<lambda>b. Some (''Login'', ())) (\<lambda>r. Some (''m'', CHR ''t'' # ''k'')) (gateway_parse demo_jwt 5) ''k''
     (Some first_message) = StreamServed ''m''"
proof -
  have "GenerateJwtToken demo_jwt 0 ''k'' (10 ^ 12) ''m'' 0 [] 0 [] = Some (CHR ''t'' # ''k'')"
    by (simp add: GenerateJwtToken_def demo_jwt_def demo_claims_def)
  from token_logs_in_iff [where limit = "-1" and decode = "\<lambda>b. Some (''Login'', ())" and req = first_message
      and login = "\<lambda>r. Some (''m'', CHR ''t'' # ''k'')" and dataReq = "()" and named = "''m''", OF demo_jwt_ok _ _ this]
  show ?thesis by simp
qed

text \<open>A refresh token names no member, so the middleware refuses it; the gateway logs the member with no name in with it.\<close>

lemma refresh_token_logs_in_nobody:
  assumes "jwt_ok J" and "GenerateJwtRefreshToken J nowTime secret duration = Some token"
    and "now \<le> (nowTime + duration) div 10 ^ 9" and "(nowTime + duration) div 10 ^ 9 \<noteq> 0"
  shows "gateway_parse J now token secret = Some []"
  using assms ParseJwtToken_good [OF assms(1), of "new_claims nowTime duration [] 0 [] 0 []" secret token now]
  by (simp add: GenerateJwtRefreshToken_def gateway_parse_def new_claims_def)

end
