(* ===== verification/Project_Build.thy ===== *)
theory Project_Build
  imports Gira_Prelude
begin

text \<open>
  The project of a source tree, \<open>proj/proj.go\<close>: the search for its directory, the directories below it, the
  tasks of \<open>tasks.yaml\<close> and the targets of \<open>build.yaml\<close>. Running a command is a parameter: whether it
  succeeds after the commands run before it, and what it prints.

  The lemmas: which directory is found; that a build runs the plan of its target up to the first command that
  fails; that it ends when no target depends on itself, and never ends when one does.
\<close>

section \<open>The directory of the project\<close>

text \<open>
  A directory is the list of its names, the last first. The loop of \<open>init\<close> goes up and stops at the root
  without looking at it, unless it starts there.
\<close>

fun find_project :: "(string list \<Rightarrow> bool) \<Rightarrow> string list \<Rightarrow> string list option" where
  "find_project has_file [] = (if has_file [] then Some [] else None)"
| "find_project has_file (d # ds) =
     (if has_file (d # ds) then Some (d # ds)
      else if ds = [] then None
      else find_project has_file ds)"

definition path_join :: "string list \<Rightarrow> string" where
  "path_join ps = join_with ''/'' (filter (\<lambda>p. p \<noteq> []) ps)"

text \<open>The directories and files of a project, by the names of their fields.\<close>

definition dir_configs :: "string \<Rightarrow> (string \<times> string) list" where
  "dir_configs p =
     (let conf = path_join [p, ''config'']; doc = path_join [p, ''doc'']; gen = path_join [p, ''gen''];
          srcgen = path_join [p, ''src'', ''gen'']
      in [(''ProjectConfFilePath'', path_join [p, ''gira.yaml'']), (''EnvDir'', path_join [p, ''env'']), (''ConfigDir'', conf),
          (''RunDir'', path_join [p, ''run'']), (''LogDir'', path_join [p, ''log'']), (''DotEnvFilePath'', path_join [conf, ''.env'']),
          (''DocDir'', doc), (''ResourceDir'', path_join [p, ''resource'']), (''GenDir'', gen),
          (''SrcTestDir'', path_join [p, ''src'', ''test'']), (''GenModelDir'', path_join [p, ''gen'', ''model'']),
          (''SrcDir'', path_join [p, ''src'']), (''SrcGenDir'', srcgen), (''SrcDocDir'', path_join [p, ''src'', ''doc'']),
          (''SrcGenConstDir'', path_join [srcgen, ''const'']), (''SrcGenModelDir'', path_join [srcgen, ''model'']),
          (''SrcGenApplicationDir'', path_join [srcgen, ''application'']), (''SrcGenResourceDir'', path_join [srcgen, ''resource'']),
          (''SrcGenProtocolDir'', path_join [srcgen, ''protocol'']), (''SrcGenBehaviorDir'', path_join [srcgen, ''behavior'']),
          (''GenBehaviorDir'', path_join [gen, ''behavior'']), (''GenResourceDir'', path_join [gen, ''resource'']),
          (''ExcelDir'', path_join [doc, ''resource'']), (''ConstDocFilePath'', path_join [doc, ''const.yaml'']),
          (''DocResourceFilePath'', path_join [doc, ''resource.yaml'']), (''DocProtocolFilePath'', path_join [doc, ''protocol.yaml'']),
          (''DocProtocolDir'', path_join [doc, ''protocol'']), (''DocModelDir'', path_join [doc, ''model'']),
          (''DocBehaviorDir'', path_join [doc, ''behavior'']), (''GenProtocolDir'', path_join [gen, ''protocol''])])"

text \<open>\<open>Update\<close> of the project file: read, decode, set the key, encode, write.\<close>

definition Update ::
  "('b \<Rightarrow> ('k \<rightharpoonup> 'v) option) \<Rightarrow> (('k \<rightharpoonup> 'v) \<Rightarrow> 'b option) \<Rightarrow> 'k \<Rightarrow> 'v \<Rightarrow> 'b option \<Rightarrow> 'b option" where
  "Update decode encode key val file =
     (case file of
        None \<Rightarrow> None
      | Some content \<Rightarrow>
          (case decode content of None \<Rightarrow> None | Some m \<Rightarrow> encode (m(key \<mapsto> val))))"

section \<open>Commands\<close>

text \<open>\<open>strings.Replace(s, old, new, 1)\<close>.\<close>

fun replace_first :: "string \<Rightarrow> string \<Rightarrow> string \<Rightarrow> string" where
  "replace_first old new [] = (if old = [] then new else [])"
| "replace_first old new (c # s) =
     (if prefix old (c # s) then new @ drop (length old) (c # s) else c # replace_first old new s)"

text \<open>The matches of \<open>\\$\\((.*?)\\)\<close>: what stands between \<open>$(\<close> and the next closing bracket of the line.\<close>

definition until_close :: "string \<Rightarrow> string option" where
  "until_close s =
     (let w = takeWhile (\<lambda>c. c \<noteq> CHR '')'' \<and> c \<noteq> CHR 0x0A) s
      in if length w < length s \<and> s ! length w = CHR '')'' then Some w else None)"

function find_calls :: "string \<Rightarrow> string list" where
  "find_calls s =
     (case s of
        CHR ''$'' # CHR ''('' # r \<Rightarrow>
          (case until_close r of
             Some w \<Rightarrow> w # find_calls (drop (Suc (length w)) r)
           | None \<Rightarrow> find_calls (CHR ''('' # r))
      | c # r \<Rightarrow> find_calls r
      | [] \<Rightarrow> [])"
  by pat_completeness auto
termination by (relation "measure length") auto

declare find_calls.simps [simp del]

text \<open>\<open>strings.Fields\<close> at blanks, and \<open>strings.Trim(v, "\\r\\n")\<close>.\<close>

definition is_blank :: "char \<Rightarrow> bool" where
  "is_blank c = (c \<in> {CHR '' '', CHR 0x09, CHR 0x0A, CHR 0x0B, CHR 0x0C, CHR 0x0D})"

fun fields :: "string \<Rightarrow> string \<Rightarrow> string list" where
  "fields w [] = (if w = [] then [] else [w])"
| "fields w (c # s) =
     (if is_blank c then (if w = [] then fields [] s else w # fields [] s) else fields (w @ [c]) s)"

definition trim_eol :: "string \<Rightarrow> string" where
  "trim_eol s = rev (dropWhile (\<lambda>c. c \<in> {CHR 0x0D, CHR 0x0A}) (rev (dropWhile (\<lambda>c. c \<in> {CHR 0x0D, CHR 0x0A}) s)))"

text \<open>The substitutions of one argument: a call without words is an index out of range, a call that fails is left.\<close>

fun expand_calls :: "(string list \<Rightarrow> string option) \<Rightarrow> string list \<Rightarrow> string \<Rightarrow> string option" where
  "expand_calls output [] arg = Some arg"
| "expand_calls output (w # ws) arg =
     (if fields [] w = [] then None
      else (case output (fields [] w) of
              Some v \<Rightarrow> expand_calls output ws (replace_first (''$('' @ w @ '')'') (trim_eol v) arg)
            | None \<Rightarrow> expand_calls output ws arg))"

definition expand_arg :: "(string list \<Rightarrow> string option) \<Rightarrow> string \<Rightarrow> string option" where
  "expand_arg output arg = expand_calls output (find_calls arg) arg"

text \<open>
  The arguments of \<open>execCommandArgv\<close> after the substitutions. They are those of the configuration itself, so the
  next run of the command starts from them.
\<close>

fun expand_args :: "(string list \<Rightarrow> string option) \<Rightarrow> string list \<Rightarrow> string list option" where
  "expand_args output [] = Some []"
| "expand_args output (a # as) =
     (case expand_arg output a of
        None \<Rightarrow> None
      | Some b \<Rightarrow> (case expand_args output as of None \<Rightarrow> None | Some bs \<Rightarrow> Some (b # bs)))"

section \<open>Tasks and targets\<close>

record command =
  coWorkDir :: string
  coName :: string
  coArgs :: "string list"

text \<open>
  \<open>execCommand\<close> in its directory, and \<open>execCommandArgv\<close>: the changed arguments are stored in the configuration.
  Changing the directory, the output of a substituted command and the run of the command are parameters.
\<close>

datatype exec_result = Exec_ok | Exec_error | Exec_panic

definition execCommand ::
  "(string \<Rightarrow> bool) \<Rightarrow> (string list \<Rightarrow> string option) \<Rightarrow> (string \<Rightarrow> string list \<Rightarrow> bool) \<Rightarrow> command \<Rightarrow> command \<times> exec_result" where
  "execCommand chdir output run c =
     (if coWorkDir c \<noteq> [] \<and> \<not> chdir (coWorkDir c) then (c, Exec_error)
      else (case expand_args output (coArgs c) of
              None \<Rightarrow> (c, Exec_panic)
            | Some as \<Rightarrow> (c\<lparr>coArgs := as\<rparr>, if run (coName c) as then Exec_ok else Exec_error)))"

record build_target =
  btRun :: "string list"
  btDependency :: "string list"
  btCommand :: "command list"

text \<open>
  What a build runs: a line for the shell or a command in its directory. \<open>ok tr s\<close> says whether the step \<open>s\<close>
  succeeds after the steps \<open>tr\<close>; the result is the steps run and whether all went well.
\<close>

datatype build_step = Shell string | ExecCommand command

fun run_steps :: "(build_step list \<Rightarrow> build_step \<Rightarrow> bool) \<Rightarrow> build_step list \<Rightarrow> build_step list \<Rightarrow> build_step list \<times> bool" where
  "run_steps ok [] tr = (tr, True)"
| "run_steps ok (s # ss) tr = (if ok tr s then run_steps ok ss (tr @ [s]) else (tr @ [s], False))"

text \<open>\<open>Run\<close>: the arguments replace \<open>$(1)\<close>, \<open>$(2)\<close> and so on, each once, one after the other.\<close>

fun replace_params :: "nat \<Rightarrow> string list \<Rightarrow> string \<Rightarrow> string" where
  "replace_params k [] line = line"
| "replace_params k (v # vs) line = replace_params (Suc k) vs (replace_first (''$('' @ fmt_int (int k + 1) @ '')'') v line)"

definition Run ::
  "(build_step list \<Rightarrow> build_step \<Rightarrow> bool) \<Rightarrow> (string \<Rightarrow> string list option) \<Rightarrow> string \<Rightarrow> string list \<Rightarrow> build_step list \<times> bool" where
  "Run ok tasks name args =
     (case tasks name of
        None \<Rightarrow> ([], True)
      | Some arr \<Rightarrow> run_steps ok (map (\<lambda>line. Shell (replace_params 0 args line)) arr) [])"

definition target_steps :: "build_target \<Rightarrow> build_step list" where
  "target_steps b = map Shell (btRun b) @ map ExecCommand (btCommand b)"

text \<open>
  \<open>buildFunc\<close>, with the depth the recursion may reach: \<open>None\<close> when it is not enough. A target that is
  not declared builds at once.
\<close>

function (sequential) build ::
    "(string \<Rightarrow> build_target option) \<Rightarrow> (build_step list \<Rightarrow> build_step \<Rightarrow> bool) \<Rightarrow> nat \<Rightarrow> string \<Rightarrow> build_step list
       \<Rightarrow> (build_step list \<times> bool) option"
  and build_all ::
    "(string \<Rightarrow> build_target option) \<Rightarrow> (build_step list \<Rightarrow> build_step \<Rightarrow> bool) \<Rightarrow> nat \<Rightarrow> string list \<Rightarrow> build_step list
       \<Rightarrow> (build_step list \<times> bool) option" where
  "build T ok 0 t tr = None"
| "build T ok (Suc n) t tr =
     (case T t of
        None \<Rightarrow> Some (tr, True)
      | Some b \<Rightarrow>
          (case build_all T ok n (btDependency b) tr of
             None \<Rightarrow> None
           | Some (tr', False) \<Rightarrow> Some (tr', False)
           | Some (tr', True) \<Rightarrow> Some (run_steps ok (target_steps b) tr')))"
| "build_all T ok n [] tr = Some (tr, True)"
| "build_all T ok n (d # ds) tr =
     (case build T ok n d tr of
        None \<Rightarrow> None
      | Some (tr', False) \<Rightarrow> Some (tr', False)
      | Some (tr', True) \<Rightarrow> build_all T ok n ds tr')"
  by pat_completeness auto
termination
  by (relation "measures [\<lambda>x. case x of Inl (T, ok, n, t, tr) \<Rightarrow> n | Inr (T, ok, n, ds, tr) \<Rightarrow> n,
      \<lambda>x. case x of Inl _ \<Rightarrow> 0 | Inr (T, ok, n, ds, tr) \<Rightarrow> Suc (length ds)]") auto

section \<open>The search\<close>

text \<open>The directory found is the nearest one upwards that has the file; the root is looked at only when started there.\<close>

lemma find_project_nearest:
  "find_project has_file (ds @ d # es) = Some (d # es)"
  if "has_file (d # es)" "\<And>as bs. ds = as @ bs \<Longrightarrow> bs \<noteq> [] \<Longrightarrow> \<not> has_file (bs @ d # es)"
  using that(2)
proof (induction ds)
  case Nil
  show ?case using that(1) by simp
next
  case (Cons x ds)
  have "\<not> has_file ((x # ds) @ d # es)"
    using Cons.prems [of "[]" "x # ds"] by simp
  moreover have "find_project has_file (ds @ d # es) = Some (d # es)"
  proof (rule Cons.IH)
    fix as bs :: "string list"
    assume "ds = as @ bs" "bs \<noteq> []"
    then show "\<not> has_file (bs @ d # es)" using Cons.prems [of "x # as" bs] by simp
  qed
  ultimately show ?case by simp
qed

lemma find_project_not_root:
  "ds \<noteq> [] \<Longrightarrow> find_project has_file ds \<noteq> Some []"
  by (induction has_file ds rule: find_project.induct) auto

lemma root_project_not_found:
  "has_file [] \<Longrightarrow> (\<And>d es. \<not> has_file (d # es)) \<Longrightarrow> ds \<noteq> [] \<Longrightarrow> find_project has_file ds = None"
  by (induction has_file ds rule: find_project.induct) auto

section \<open>Substitutions\<close>

lemma expand_args_plain:
  "(\<And>a. a \<in> set as \<Longrightarrow> find_calls a = []) \<Longrightarrow> expand_args output as = Some as"
  by (induction as) (simp_all add: expand_arg_def)

text \<open>A command run a second time keeps what the first run substituted, whatever its calls print by then.\<close>

lemma second_run_keeps_first_output:
  "execCommand chdir output run c = (c', Exec_ok) \<Longrightarrow> (\<And>a. a \<in> set (coArgs c') \<Longrightarrow> find_calls a = []) \<Longrightarrow>
   fst (execCommand chdir' output' run' c') = c'"
  by (auto simp: execCommand_def expand_args_plain)

text \<open>An empty call is an index out of range.\<close>

lemma empty_call_panics:
  "snd (execCommand chdir output run \<lparr>coWorkDir = [], coName = name, coArgs = [''$()'']\<rparr>) = Exec_panic"
  by (simp add: execCommand_def expand_arg_def find_calls.simps until_close_def)

section \<open>Builds\<close>

lemma run_steps_append:
  "run_steps ok (xs @ ys) tr =
     (case run_steps ok xs tr of (tr', True) \<Rightarrow> run_steps ok ys tr' | (tr', False) \<Rightarrow> (tr', False))"
  by (induction xs arbitrary: tr) auto

lemma run_steps_all [simp]:
  "run_steps (\<lambda>_ _. True) ss tr = (tr @ ss, True)"
  by (induction ss arbitrary: tr) auto

text \<open>A run is the steps in their order, all of them or up to the first that fails.\<close>

lemma run_steps_done:
  "run_steps ok ss tr = (tr', True) \<Longrightarrow> tr' = tr @ ss"
proof (induction ss arbitrary: tr)
  case (Cons s ss)
  then have "run_steps ok ss (tr @ [s]) = (tr', True)" by (simp split: if_splits)
  from Cons.IH [OF this] show ?case by simp
qed simp

lemma run_steps_failed:
  "run_steps ok ss tr = (tr', False) \<Longrightarrow> \<exists>as s bs. ss = as @ s # bs \<and> tr' = tr @ as @ [s] \<and> \<not> ok (tr @ as) s"
proof (induction ss arbitrary: tr)
  case (Cons s ss)
  show ?case
  proof (cases "ok tr s")
    case True
    then have "run_steps ok ss (tr @ [s]) = (tr', False)" using Cons.prems by simp
    from Cons.IH [OF this] obtain as x bs
      where "ss = as @ x # bs" "tr' = (tr @ [s]) @ as @ [x]" "\<not> ok ((tr @ [s]) @ as) x" by blast
    then show ?thesis by (intro exI [of _ "s # as"] exI [of _ x] exI [of _ bs]) simp
  next
    case False
    then show ?thesis using Cons.prems by (intro exI [of _ "[]"] exI [of _ s] exI [of _ ss]) simp
  qed
qed simp

text \<open>The plan of a target: those of its dependencies, in their order, and its own steps.\<close>

fun plan :: "(string \<Rightarrow> build_target option) \<Rightarrow> nat \<Rightarrow> string \<Rightarrow> build_step list" where
  "plan T 0 t = []"
| "plan T (Suc n) t =
     (case T t of
        None \<Rightarrow> []
      | Some b \<Rightarrow> concat (map (plan T n) (btDependency b)) @ target_steps b)"

definition depends_on :: "(string \<Rightarrow> build_target option) \<Rightarrow> string \<Rightarrow> string \<Rightarrow> bool" where
  "depends_on T d t = (case T t of None \<Rightarrow> False | Some b \<Rightarrow> d \<in> set (btDependency b))"

lemma build_all_plan:
  "(\<And>d tr. d \<in> set ds \<Longrightarrow> build T ok n d tr = Some (run_steps ok (plan T n d) tr)) \<Longrightarrow>
   build_all T ok n ds tr = Some (run_steps ok (concat (map (plan T n) ds)) tr)"
  by (induction ds arbitrary: tr) (auto simp: run_steps_append split: prod.splits bool.splits)

lemma build_plan:
  assumes "\<And>t d. depends_on T d t \<Longrightarrow> rank d < (rank t :: nat)"
  shows "rank t < n \<Longrightarrow> build T ok n t tr = Some (run_steps ok (plan T n t) tr)"
proof (induction n arbitrary: t tr)
  case (Suc n)
  show ?case
  proof (cases "T t")
    case (Some b)
    have "build_all T ok n (btDependency b) tr = Some (run_steps ok (concat (map (plan T n) (btDependency b))) tr)" for tr
    proof (rule build_all_plan)
      fix d tr
      assume "d \<in> set (btDependency b)"
      then have "rank d < rank t" using assms Some by (simp add: depends_on_def)
      then show "build T ok n d tr = Some (run_steps ok (plan T n d) tr)" using Suc by simp
    qed
    with Some show ?thesis
      by (simp add: run_steps_append split: prod.splits bool.splits)
  qed simp
qed simp

lemma plan_stable:
  assumes "\<And>t d. depends_on T d t \<Longrightarrow> rank d < (rank t :: nat)"
  shows "rank t < n \<Longrightarrow> plan T n t = plan T (Suc (rank t)) t"
proof (induction "rank t" arbitrary: t n rule: less_induct)
  case less
  show ?case
  proof (cases "T t")
    case None
    then show ?thesis using less.prems by (cases n) simp_all
  next
    case (Some b)
    from less.prems obtain m where m: "n = Suc m" "rank t \<le> m" by (cases n) auto
    have "plan T m d = plan T (rank t) d" if "d \<in> set (btDependency b)" for d
    proof -
      have "rank d < rank t" using assms that Some by (simp add: depends_on_def)
      then show ?thesis using less.hyps [of d m] less.hyps [of d "rank t"] m by simp
    qed
    with Some m show ?thesis by (simp cong: map_cong)
  qed
qed
text \<open>
  C35. A build runs its plan: when the dependencies of the targets have no cycle (a rank goes down along them), a
  build ends, having run the steps of the plan in order, the dependencies before the target, up to the first step
  that fails, and the plan does not depend on the depth allowed.
\<close>

theorem build_runs_plan:
  assumes "\<And>t d. depends_on T d t \<Longrightarrow> rank d < (rank t :: nat)" "rank t < n"
  shows "build T ok n t [] = Some (run_steps ok (plan T (Suc (rank t)) t) [])"
  using build_plan [of T rank, OF assms(1,2)] plan_stable [of T rank, OF assms(1,2)] by simp

definition app_target :: build_target where
  "app_target = \<lparr>btRun = [''go build''], btDependency = [''gen'', ''lint''], btCommand = []\<rparr>"

definition gen_target :: build_target where
  "gen_target = \<lparr>btRun = [''go generate''], btDependency = [], btCommand = [\<lparr>coWorkDir = ''doc'', coName = ''make'', coArgs = []\<rparr>]\<rparr>"

definition sample_targets :: "string \<Rightarrow> build_target option" where
  "sample_targets t =
     (if t = ''app'' then Some app_target
      else if t = ''gen'' then Some gen_target
      else if t = ''lint'' then Some \<lparr>btRun = [''go vet''], btDependency = [''gen''], btCommand = []\<rparr>
      else None)"

text \<open>A dependency that two targets share is built twice.\<close>

theorem build_runs_plan_witness:
  "build sample_targets (\<lambda>_ s. s \<noteq> Shell ''go vet'') 4 ''app'' [] =
     Some ([Shell ''go generate'', ExecCommand \<lparr>coWorkDir = ''doc'', coName = ''make'', coArgs = []\<rparr>,
            Shell ''go generate'', ExecCommand \<lparr>coWorkDir = ''doc'', coName = ''make'', coArgs = []\<rparr>, Shell ''go vet''], False)"
proof -
  let ?rank = "\<lambda>t. if t = ''app'' then 2 else if t = ''lint'' then 1 else (0::nat)"
  have "?rank d < ?rank t" if "depends_on sample_targets d t" for d t
    using that by (auto simp: depends_on_def sample_targets_def app_target_def gen_target_def split: if_splits)
  note runs = build_runs_plan [where rank = ?rank, OF this]
  show ?thesis
    by (subst runs) (simp_all add: numeral_2_eq_2 sample_targets_def app_target_def gen_target_def target_steps_def)
qed

text \<open>When nothing fails, the build is one of the targets below it, so that it ends exactly when there is no infinite chain.\<close>

lemma build_all_mono:
  "(\<And>d tr r. d \<in> set ds \<Longrightarrow> build T ok n d tr = Some r \<Longrightarrow> build T ok m d tr = Some r) \<Longrightarrow>
   build_all T ok n ds tr = Some r \<Longrightarrow> build_all T ok m ds tr = Some r"
proof (induction ds arbitrary: tr)
  case (Cons d ds)
  from Cons.prems(2) obtain tr' b where d: "build T ok n d tr = Some (tr', b)" by (cases "build T ok n d tr") auto
  then have "build T ok m d tr = Some (tr', b)" using Cons.prems(1) by simp
  then show ?case using Cons d by (cases b) auto
qed simp

lemma build_mono:
  "build T ok n t tr = Some r \<Longrightarrow> n \<le> m \<Longrightarrow> build T ok m t tr = Some r"
proof (induction n arbitrary: m t tr r)
  case (Suc n)
  then obtain k where k: "m = Suc k" "n \<le> k" by (cases m) auto
  show ?case
  proof (cases "T t")
    case (Some b)
    with Suc.prems(1) obtain x where x: "build_all T ok n (btDependency b) tr = Some x"
      by (cases "build_all T ok n (btDependency b) tr") auto
    then have "build_all T ok k (btDependency b) tr = Some x"
      by (rule build_all_mono [rotated]) (rule Suc.IH [OF _ k(2)])
    with x Some Suc.prems(1) k(1) show ?thesis by simp
  qed (use Suc.prems k in simp)
qed simp

abbreviation no_failure :: "build_step list \<Rightarrow> build_step \<Rightarrow> bool" where
  "no_failure \<equiv> \<lambda>_ _. True"

lemma build_all_parts:
  "(\<And>d tr r. d \<in> set ds \<Longrightarrow> build T no_failure n d tr = Some r \<Longrightarrow> snd r) \<Longrightarrow>
   build_all T no_failure n ds tr = Some r \<Longrightarrow> snd r \<and> (\<forall>d\<in>set ds. \<exists>tr' r'. build T no_failure n d tr' = Some r')"
proof (induction ds arbitrary: tr)
  case (Cons d ds)
  from Cons.prems(2) obtain tr' b where d: "build T no_failure n d tr = Some (tr', b)"
    by (cases "build T no_failure n d tr") auto
  then have b using Cons.prems(1) [of d tr "(tr', b)"] by simp
  with d Cons.prems(2) have "build_all T no_failure n ds tr' = Some r" by simp
  then have "snd r \<and> (\<forall>d\<in>set ds. \<exists>tr' r'. build T no_failure n d tr' = Some r')"
    by (rule Cons.IH [rotated]) (erule Cons.prems(1) [rotated], simp)
  with d show ?case by auto
qed auto

lemma build_ok_and_ends:
  "build T no_failure n t tr = Some r \<Longrightarrow> snd r \<and> Wellfounded.accp (depends_on T) t"
proof (induction n arbitrary: t tr r)
  case (Suc n)
  show ?case
  proof (cases "T t")
    case None
    then show ?thesis using Suc.prems by (auto simp: depends_on_def intro: accp.intros)
  next
    case (Some b)
    with Suc.prems obtain x where x: "build_all T no_failure n (btDependency b) tr = Some x"
      by (cases "build_all T no_failure n (btDependency b) tr") auto
    have parts: "snd x \<and> (\<forall>d\<in>set (btDependency b). \<exists>tr' r'. build T no_failure n d tr' = Some r')"
      by (rule build_all_parts [OF _ x]) (simp add: Suc.IH)
    have "Wellfounded.accp (depends_on T) d" if "depends_on T d t" for d
    proof -
      from that Some have "d \<in> set (btDependency b)" by (simp add: depends_on_def)
      with parts obtain tr' r' where "build T no_failure n d tr' = Some r'" by blast
      from Suc.IH [OF this] show ?thesis by simp
    qed
    then have "Wellfounded.accp (depends_on T) t" by (rule accp.intros)
    with parts x Some Suc.prems show ?thesis by (cases x) auto
  qed
qed simp

lemma build_all_enough:
  "(\<And>d. d \<in> set ds \<Longrightarrow> \<exists>n. \<forall>tr. build T ok n d tr \<noteq> None) \<Longrightarrow> \<exists>n. \<forall>tr. build_all T ok n ds tr \<noteq> None"
proof (induction ds)
  case (Cons d ds)
  from Cons.prems [of d] obtain n where n: "\<And>tr. build T ok n d tr \<noteq> None" by auto
  from Cons obtain m where m: "\<And>tr. build_all T ok m ds tr \<noteq> None" by fastforce
  have "build T ok (max n m) d tr \<noteq> None" for tr
    using n [of tr] build_mono [of T ok n d tr _ "max n m"] by fastforce
  moreover have "build_all T ok (max n m) ds tr \<noteq> None" for tr
    using m [of tr] build_all_mono [of ds T ok m "max n m" tr] build_mono [of T ok m _ _ _ "max n m"] by fastforce
  ultimately show ?case
    by (intro exI [of _ "max n m"]) (auto split: option.splits prod.splits bool.splits)
qed simp

lemma build_enough:
  "Wellfounded.accp (depends_on T) t \<Longrightarrow> \<exists>n. \<forall>tr. build T ok n t tr \<noteq> None"
proof (induction rule: accp_induct_rule)
  case (1 t)
  show ?case
  proof (cases "T t")
    case None
    then show ?thesis by (intro exI [of _ 1]) simp
  next
    case (Some b)
    have "\<exists>n. \<forall>tr. build_all T ok n (btDependency b) tr \<noteq> None"
      by (rule build_all_enough) (use 1 Some in \<open>auto simp: depends_on_def\<close>)
    then obtain n where "\<forall>tr. build_all T ok n (btDependency b) tr \<noteq> None" ..
    with Some show ?thesis
      by (intro exI [of _ "Suc n"]) (auto split: option.splits prod.splits bool.splits)
  qed
qed

text \<open>
  C18. When no command fails, a build returns exactly when the dependencies below its target are well-founded: with
  a cycle it never does, whatever the depth.
\<close>

theorem build_ends_iff:
  "(\<exists>n r. build T (\<lambda>_ _. True) n t [] = Some r) \<longleftrightarrow> Wellfounded.accp (depends_on T) t"
  using build_ok_and_ends [of T _ t "[]"] build_enough [of T t "\<lambda>_ _. True"] by fast

lemma cyclic_build_hangs:
  "build (\<lambda>t. if t = ''a'' then Some \<lparr>btRun = [], btDependency = [''a''], btCommand = []\<rparr> else None) ok n ''a'' tr = None"
  by (induction n arbitrary: tr) (simp_all split: option.splits)

end
