(* ===== verification/Spec2Isabelle.thy ===== *)
theory Spec2Isabelle
  imports Gate_Serve Gate_Server Gate_Client Registry_Service Registry_Peer Registry_Client
    Hall_Table Hall_Replies Hall_Push Gateway_Upstream Gateway_Session Go_Errors Config_File
    App_Runtime Actor_Call Macro_Gen Service_Container Model_Documents Model_Schema
    Game_Resource Behavior_Log Sproto_Dispatch Util_Times Game_Object Service_Router Open_Api
    Http_Token Project_Build
begin

text \<open>
  A verification library for gira, a framework for game servers: a gateway that clients connect to,
  halls that hold the players' sessions, a registry over etcd through which the nodes of a cluster
  find each other and lock users, and the program that starts and stops the parts of a node. A
  client's bytes go through \<open>gate\<close> (packets, messages, connections), then through the gateway
  framework, which picks a hall and forwards them over a stream, and reach the session of the player
  in the hall; answers and pushes come back the same way.

  \<^bold>\<open>Shared.\<close> \<open>Gira_Prelude\<close>: results of Go calls (\<open>outcome\<close>: a value, an error, a panic), bytes,
  strings and numbers as the Go library treats them, and the interfaces of the library as locales: a
  dictionary, a step system and a step relation with an invariant. \<open>Go_Chan\<close>: buffered channels, nil
  and closed ones included, and the interface of a queue.

  \<^bold>\<open>The wire.\<close> \<open>Packet\<close> is \<open>gate/packet\<close> (header, \<open>Encode\<close>, the stream decoder): decoding loses and
  invents no byte, does not depend on the chunks, inverts encoding. \<open>Message\<close> is \<open>gate/message\<close>
  (flag, variable-length id, route, route dictionary): decoding inverts encoding, which bytes panic.
  \<open>Gate_Crypto\<close> is \<open>gate/crypto\<close>: DES written out as its standard does, with its padding and modes;
  decryption inverts encryption.

  \<^bold>\<open>The gate.\<close> \<open>Gate_Session\<close> is \<open>gate/session.go\<close>: a history of operations is read back as its last
  writes. \<open>Gate_Conn\<close> is \<open>gate/conn.go\<close>: the handshake and the steps of the goroutines that serve a
  connection; \<open>Gate_Serve\<close> proves what they guarantee over every interleaving, the crash condition and
  a timeout that leaves the socket open. \<open>Gate_Server\<close> is \<open>gate/server.go\<close>: options, status, session
  table and statistics. \<open>Gate_Client\<close> is \<open>gate/client/client.go\<close>, composed with the server: requests
  reach the handler, responses the caller.

  \<^bold>\<open>The registry.\<close> \<open>Registry_Etcd\<close> states what is used of etcd, transactions over keys with create
  revisions, as the locale \<open>etcd\<close>, and interprets it by a store. \<open>Registry_Player\<close> is
  \<open>registry/player.go\<close>: over all locks, unlocks, stops, crashes and recoveries of a cluster a user is
  held by one node of a kind. \<open>Word_Trie\<close> and \<open>Registry_Service\<close> are \<open>registry/service.go\<close>: the
  index of names refines the set of registered paths, the table is indexed, registration is
  exclusive. \<open>Registry_Peer\<close> is \<open>registry/peer.go\<close> and \<open>resolver.go\<close>: the peer table is a replay of
  the watch events; what a stop removes. \<open>Registry_Client\<close> is \<open>registryclient\<close>.

  \<^bold>\<open>The halls.\<close> \<open>Hall_Session\<close> is \<open>framework/smallgame/game/hall\<close>: login with eviction over the
  cluster, \<open>Kick\<close>, \<open>Instead\<close>, \<open>Close\<close>, \<open>ClientStream\<close> and the stop of a hall, with a program
  counter for each access to shared state. \<open>Hall_Table\<close>: a live session is in the table, so a hall
  has at most one of a user; the counter is the size of the table; two schedules that go wrong.
  \<open>Hall_Serve\<close> is the three goroutines of \<open>serve\<close>, the session's lock, \<open>Yield\<close> and \<open>Go\<close>;
  the player is called by one of them at a time. \<open>Hall_Replies\<close>: responses leave in the order of the
  requests; how much runs after a close; two ways to block for ever. \<open>Hall_Push\<close>: pushes from hall to
  hall.

  \<^bold>\<open>The gateway.\<close> \<open>Gateway_Upstream\<close> is \<open>framework/smallgame/gateway/server/upstream.go\<close>: the table of
  halls follows the registry; what \<open>SelectPeer\<close> chooses in whatever order the table is visited.
  \<open>Gateway_Session\<close> is \<open>session.go\<close> and the login of \<open>server.go\<close>: messages are forwarded in order,
  each once; a session that never ends.

  \<^bold>\<open>The rest.\<close> \<open>Go_Errors\<close> is \<open>errors\<close> and \<open>codes\<close>: a traced error keeps its code. \<open>Config_File\<close>
  is \<open>config/config.go\<close>: preprocessing terminates for acyclic includes; which value a variable gets.

  \<^bold>\<open>The program.\<close> \<open>App_Runtime\<close> is \<open>app/application.go\<close>: a start follows a plan that the configuration
  determines and stops what it made when a call fails; \<open>stop\<close> runs at most once; a node that cannot
  register panics.

  \<^bold>\<open>Actors and macros.\<close> \<open>Actor_Call\<close> is \<open>actor/actor.go\<close> with the functions that
  \<open>gen/gen_macro/macro.go\<close> generates: methods run in order, one at a time; a caller that gives up blocks
  its actor. \<open>Macro_Gen\<close> is the generator itself: what is declared is read back, and generating twice
  is generating once.

  \<^bold>\<open>Services.\<close> \<open>Service_Container\<close> is \<open>service/service.go\<close>: over all interleavings a service is
  started, served and stopped at most once; when a \<open>Stop\<close> panics.

  \<^bold>\<open>Generated documents.\<close> \<open>gen/gen_model\<close> generates, from a template, the documents of a game.
  \<open>Model_Schema\<close> is how it reads the schema (fields, types, keys, names of indexes) and the migration of
  the indexes; \<open>Model_Documents\<close> is the code the template generates for the documents of a user: a save writes
  what changed and nothing else, a load gives it back, and a failed save loses its new documents.

  \<^bold>\<open>Resources.\<close> \<open>Game_Resource\<close> is \<open>resource.go\<close> with the loaders that \<open>gen/gen_resource\<close> generates: what a
  load hands to the game, what a push adds to the database, and what the reload of a compressed bundle keeps.

  \<^bold>\<open>The behavior log.\<close> \<open>Behavior_Log\<close> is the queue of documents that \<open>gen/gen_behavior\<close> generates, under any
  interleaving of goroutines: nothing is lost or queued twice, but a document that a failed write stored
  is queued for ever; and the batch ids of \<open>behavior/options.go\<close>.

  \<^bold>\<open>Calls between nodes.\<close> \<open>Service_Client\<close> is what \<open>bin/gen_gclient\<close> generates for every service, with the
  lookups of \<open>facade/facade.go\<close>: goroutines never share a connection, a multicast calls each peer it finds
  once, a unicast goes where its conditions say. \<open>Service_Router\<close> is what \<open>bin/gen_gserver\<close> generates: a call for
  a user reaches the handler registered for that user. \<open>Sproto_Dispatch\<close> is \<open>sproto/sproto.go\<close>: reflection finds a
  handler's methods, their calls never mix types, and every request is answered.

  \<^bold>\<open>Accounts and platforms.\<close> \<open>Http_Token\<close> is the tokens of \<open>jwt/account\<close> and \<open>gins\<close>: which of them the http
  middleware and the gateway accept. \<open>Platform_Sdk\<close> is \<open>platform\<close>: logins and pay orders, and which orders are
  accepted. \<open>Open_Api\<close> is \<open>sdk/wechatapi\<close> and \<open>sdk/douyinapi\<close>: requests, responses, and the inputs that panic.

  \<^bold>\<open>Tools.\<close> \<open>Project_Build\<close> is \<open>proj/proj.go\<close>: a build runs its plan and ends exactly when the dependencies are
  well-founded. \<open>Util_Times\<close> is \<open>util/times\<close>: comparing civil dates and weeks is counting days. \<open>Game_Object\<close> is
  \<open>object.go\<close> and \<open>components.go\<close>: an object keeps the first component of each type.

  \<^bold>\<open>Conventions.\<close> A struct is a record with a prefix to its fields, a goroutine a program counter that
  has one value for each access to what goroutines share; a blocked step leaves the state unchanged.
  Go's maps are partial maps; where the order in which a map is visited can be seen it is a parameter.
  Machine integers that can wrap are words. Times, clocks and timers are events that may come at any
  moment. Histories that no code reads (what arrived, what was sent) are fields of the states, marked
  as such.

  \<^bold>\<open>Parameters.\<close> Code outside the repository is a parameter: etcd by the laws of the locale \<open>etcd\<close>
  (atomic transactions, create revisions; \<open>answers\<close> for replies, \<open>client_ok\<close> for sorted prefix reads),
  JSON, RSA, the validators, the template engine and the YAML decoder, the protocol of the
  application, the token library, the answers of remote calls. The witnesses instantiate them.

  \<^bold>\<open>Fuel.\<close> The preprocessing of configuration files has fuel, the nesting of includes:
  \<open>preprocess_terminates\<close> shows that a rank that grows along the includes is enough, and that
  more changes nothing. So has a build, the depth of its dependencies: \<open>build_runs_plan\<close> shows that a rank is
  enough, \<open>build_ends_iff\<close> when some depth is. All other functions terminate.

  \<^bold>\<open>Not modelled.\<close> The generators as programs that write text for the Go compiler (\<open>gen\<close>, \<open>bin\<close>; what
  they generate is modelled as named above), the messages and grpc stubs of the \<open>pb\<close> packages; clients of
  databases (\<open>db\<close>, \<open>behaviorlog\<close>), of loggers and of \<open>sdk/aliapi\<close>, which build a request for a library; the
  functions of the facade that only forward; listeners, dialers and websockets, which are I/O; the handlers of
  \<open>service/admin\<close>, \<open>service/peer\<close> and \<open>service/channelz\<close>, which read a value of the runtime.
\<close>

end
